(* ===== verification/Conhost_Prelude.thy ===== *)
theory Conhost_Prelude
  imports Main "HOL-Library.Word" "HOL-Library.Multiset"
begin

unbundle bit_operations_syntax

text \<open>
  What the component theories share: the machine types of the Windows headers the sources use,
  the integer casts of C++ with their wrap-around written out, the clamps, the generic lemmas on
  lists, and the two generic interfaces (a machine with an invariant, a positional number
  system) that several components instantiate.
\<close>

section \<open>Collections of rewrite rules\<close>

named_theorems casts "casts that are the identity on values in range"

section \<open>Machine types\<close>

text \<open>
  \<open>wchar_t\<close> is a UTF-16 code unit on Windows, \<open>USHORT\<close> and \<open>WORD\<close> are 16-bit, \<open>ULONG\<close>,
  \<open>DWORD\<close>, \<open>COLORREF\<close> and \<open>unsigned\<close> are 32-bit. \<open>SHORT\<close> and \<open>long\<close> (32-bit on Windows)
  are modelled as \<^typ>\<open>int\<close>, with every narrowing cast of the source applied as
  \<open>to_short\<close> or \<open>to_long\<close>. \<open>size_t\<close> indexes memory and is a \<^typ>\<open>nat\<close>.
\<close>

type_synonym wchar = "16 word"
type_synonym wstring = "wchar list"
type_synonym byte = "8 word"
type_synonym ushort = "16 word"
type_synonym ulong = "32 word"

definition to_short :: "int \<Rightarrow> int" where
  "to_short x = (x + 32768) mod 65536 - 32768"

definition to_long :: "int \<Rightarrow> int" where
  "to_long x = (x + 2147483648) mod 4294967296 - 2147483648"

definition u32 :: "nat \<Rightarrow> nat" where
  "u32 n = n mod 4294967296"

lemma to_short_id [casts]: "- 32768 \<le> x \<Longrightarrow> x \<le> 32767 \<Longrightarrow> to_short x = x"
  by (simp add: to_short_def)

lemma to_long_id [casts]: "- 2147483648 \<le> x \<Longrightarrow> x \<le> 2147483647 \<Longrightarrow> to_long x = x"
  by (simp add: to_long_def)

lemma u32_id [casts]: "n < 4294967296 \<Longrightarrow> u32 n = n"
  by (simp add: u32_def)

lemma to_short_range: "- 32768 \<le> to_short x \<and> to_short x \<le> 32767"
proof -
  have "0 \<le> (x + 32768) mod 65536" and "(x + 32768) mod 65536 < 65536" by simp_all
  then show ?thesis by (simp add: to_short_def)
qed

text \<open>Widening an unsigned value keeps it, narrowing reduces it.\<close>

lemma unat_ucast_up [casts]:
  fixes w :: "'a::len word"
  assumes "LENGTH('a) \<le> LENGTH('b::len)"
  shows "unat (ucast w :: 'b word) = unat w"
proof -
  have "unat w < 2 ^ LENGTH('a)" by (rule unsigned_less)
  also have "\<dots> \<le> (2::nat) ^ LENGTH('b)" using assms by (simp add: power_increasing)
  finally show ?thesis by (simp add: unsigned_ucast_eq take_bit_nat_eq_self)
qed

lemma unat_ucast_mod: "unat (ucast w :: 'b::len word) = unat w mod 2 ^ LENGTH('b)"
  by (simp add: unsigned_ucast_eq take_bit_eq_mod)

text \<open>\<open>std::clamp\<close>, which requires \<open>lo \<le> hi\<close>.\<close>

definition std_clamp :: "int \<Rightarrow> int \<Rightarrow> int \<Rightarrow> int" where
  "std_clamp v lo hi = (if v < lo then lo else if hi < v then hi else v)"

lemma std_clamp_bounds: "lo \<le> hi \<Longrightarrow> lo \<le> std_clamp v lo hi \<and> std_clamp v lo hi \<le> hi"
  by (simp add: std_clamp_def)

lemma std_clamp_id: "lo \<le> v \<Longrightarrow> v \<le> hi \<Longrightarrow> std_clamp v lo hi = v"
  by (simp add: std_clamp_def)

section \<open>Lists\<close>

text \<open>
  A pointer into a container that a search returned is used for one update: the first element
  that satisfies the search condition is changed in place.
\<close>

fun update_first :: "('a \<Rightarrow> bool) \<Rightarrow> ('a \<Rightarrow> 'a) \<Rightarrow> 'a list \<Rightarrow> 'a list" where
  "update_first P f [] = []"
| "update_first P f (x # xs) = (if P x then f x # xs else x # update_first P f xs)"

fun find_index_from :: "nat \<Rightarrow> ('a \<Rightarrow> bool) \<Rightarrow> 'a list \<Rightarrow> nat option" where
  "find_index_from i P [] = None"
| "find_index_from i P (x # xs) = (if P x then Some i else find_index_from (Suc i) P xs)"

abbreviation find_index :: "('a \<Rightarrow> bool) \<Rightarrow> 'a list \<Rightarrow> nat option" where
  "find_index \<equiv> find_index_from 0"

text \<open>\<open>std::list::splice\<close> of one element to the front.\<close>

definition move_front :: "nat \<Rightarrow> 'a list \<Rightarrow> 'a list" where
  "move_front i xs = (if i < length xs then xs ! i # take i xs @ drop (Suc i) xs else xs)"

lemma length_update_first [simp]: "length (update_first P f xs) = length xs"
  by (induction xs) auto

lemma set_update_first: "set (update_first P f xs) \<subseteq> set xs \<union> f ` {x \<in> set xs. P x}"
  by (induction xs) auto

lemma map_update_first_id: "(\<And>x. g (f x) = g x) \<Longrightarrow> map g (update_first P f xs) = map g xs"
  by (induction xs) auto

lemma find_update_first:
  "(\<And>x. P x \<Longrightarrow> P (f x)) \<Longrightarrow> List.find P (update_first P f xs) = map_option f (List.find P xs)"
  by (induction xs) auto

lemma update_first_nth:
  "k < length xs \<Longrightarrow> P (xs ! k) \<Longrightarrow> (\<And>j. j < k \<Longrightarrow> \<not> P (xs ! j)) \<Longrightarrow>
    update_first P f xs = xs[k := f (xs ! k)]"
proof (induction xs arbitrary: k)
  case (Cons x xs)
  show ?case
  proof (cases k)
    case 0
    with Cons.prems show ?thesis by simp
  next
    case (Suc k')
    have "\<not> P x" using Cons.prems(3) [of 0] Suc by simp
    moreover have "\<not> P (xs ! j)" if "j < k'" for j
      using Cons.prems(3) [of "Suc j"] that Suc by simp
    then have "update_first P f xs = xs[k' := f (xs ! k')]"
      using Cons.prems(1,2) Suc by (intro Cons.IH) auto
    ultimately show ?thesis using Suc by simp
  qed
qed simp

lemma find_index_from_Some:
  "find_index_from i P xs = Some k \<longleftrightarrow>
    i \<le> k \<and> k - i < length xs \<and> P (xs ! (k - i)) \<and> (\<forall>j < k - i. \<not> P (xs ! j))"
proof (induction xs arbitrary: i)
  case Nil
  then show ?case by simp
next
  case (Cons x xs)
  show ?case
  proof (cases "P x")
    case True
    then show ?thesis by (auto simp: gr0_conv_Suc) (metis Suc_diff_Suc diff_is_0_eq le_antisym not_le nth_Cons_0 zero_less_Suc)
  next
    case False
    show ?thesis
    proof (cases "Suc i \<le> k")
      case True
      then have "k - i = Suc (k - Suc i)" by simp
      with False True Cons.IH [of "Suc i"] show ?thesis
        by (auto simp: less_Suc_eq_0_disj)
    next
      case nle: False
      with False Cons.IH [of "Suc i"] show ?thesis by auto
    qed
  qed
qed

lemma find_index_Some:
  "find_index P xs = Some k \<longleftrightarrow> k < length xs \<and> P (xs ! k) \<and> (\<forall>j < k. \<not> P (xs ! j))"
  by (simp add: find_index_from_Some)

lemma find_index_None: "find_index_from i P xs = None \<longleftrightarrow> (\<forall>x \<in> set xs. \<not> P x)"
  by (induction xs arbitrary: i) auto

lemma mset_move_front: "mset (move_front i xs) = mset xs"
  by (simp add: move_front_def) (metis append_take_drop_id id_take_nth_drop mset.simps(2) mset_append union_mset_add_mset_right)

lemma length_move_front [simp]: "length (move_front i xs) = length xs"
  using mset_move_front [of i xs] by (metis size_mset)

lemma set_move_front [simp]: "set (move_front i xs) = set xs"
  using mset_move_front [of i xs] by (metis set_mset_mset)

lemma hd_move_front: "i < length xs \<Longrightarrow> hd (move_front i xs) = xs ! i"
  by (simp add: move_front_def)

section \<open>Row-major grids\<close>

text \<open>
  A screen is a vector of rows of one width. The index of a cell determines its row and column,
  and the nested loops that write one cell per step write exactly the block they name.
\<close>

lemma grid_row_le: "y < h \<Longrightarrow> y * w + w \<le> h * (w :: nat)"
  using mult_le_mono1 [of "Suc y" h w] by (simp add: add.commute)

lemma grid_index_less: "x < w \<Longrightarrow> y < h \<Longrightarrow> y * w + x < h * (w :: nat)"
  using grid_row_le [of y h w] by simp

lemma grid_index_inj: "x < w \<Longrightarrow> x' < w \<Longrightarrow> y * w + x = y' * w + x' \<longleftrightarrow> y = y' \<and> x = (x' :: nat)"
proof
  assume lt: "x < w" "x' < w" and eq: "y * w + x = y' * w + x'"
  have "y = (y * w + x) div w" using lt by simp
  also have "\<dots> = y'" unfolding eq using lt by simp
  finally have "y = y'" .
  with eq show "y = y' \<and> x = x'" by simp
qed simp

lemma grid_row_interval:
  assumes "x < w" and "b \<le> (w :: nat)"
  shows "y0 * w + a \<le> y * w + x \<and> y * w + x < y0 * w + b \<longleftrightarrow> y = y0 \<and> a \<le> x \<and> x < b"
proof
  assume l: "y0 * w + a \<le> y * w + x \<and> y * w + x < y0 * w + b"
  then obtain j where "y * w + x = y0 * w + (a + j)" by (metis add.assoc le_Suc_ex)
  with l assms grid_index_inj [of x w "a + j" y y0] show "y = y0 \<and> a \<le> x \<and> x < b" by auto
qed auto

lemma grid_rows:
  assumes "x < (w :: nat)"
  shows "t * w \<le> y * w + x \<longleftrightarrow> t \<le> y" "y * w + x < b * w \<longleftrightarrow> y < b"
proof -
  have w: "0 < w" and d: "(y * w + x) div w = y" using assms by simp_all
  show "t * w \<le> y * w + x \<longleftrightarrow> t \<le> y" using less_eq_div_iff_mult_less_eq [OF w, of t "y * w + x"] by (simp add: d)
  show "y * w + x < b * w \<longleftrightarrow> y < b" using div_less_iff_less_mult [OF w, of "y * w + x" b] by (simp add: d)
qed

lemma grid_lex:
  assumes "x < (w :: nat)" and "x' < w"
  shows "y * w + x \<le> y' * w + x' \<longleftrightarrow> y < y' \<or> y = y' \<and> x \<le> x'"
proof (cases "y < y'")
  case True
  then have "y * w + x < y' * w" using grid_rows(2) [OF assms(1)] by simp
  with True show ?thesis by simp
next
  case False
  show ?thesis
  proof (cases "y = y'")
    case False
    with \<open>\<not> y < y'\<close> have "y' * w + x' < y * w" using grid_rows(2) [OF assms(2)] by simp
    with False \<open>\<not> y < y'\<close> show ?thesis by simp
  qed simp
qed

lemma length_fold_upd [simp]: "length (fold (\<lambda>x cs. cs[g x := f x cs]) xs cs) = length cs"
  by (induction xs arbitrary: cs) auto

lemma length_fold_keep: "(\<And>x cs. length (f x cs) = length cs) \<Longrightarrow> length (fold f xs cs) = length cs"
  by (induction xs arbitrary: cs) auto

lemma fold_row_nth:
  "i < length cs \<Longrightarrow>
    fold (\<lambda>x cs. cs[b + x := f x]) [0..<n] cs ! i = (if b \<le> i \<and> i < b + n then f (i - b) else cs ! i)"
proof (induction n)
  case (Suc n)
  then show ?case by (cases "i = b + n") auto
qed auto

lemma fold_grid_nth:
  "n \<le> w \<Longrightarrow> x < w \<Longrightarrow> y * w + x < length cs \<Longrightarrow>
    fold (\<lambda>y cs. fold (\<lambda>x cs. cs[y * w + x := f y x]) [0..<n] cs) [0..<k] cs ! (y * w + x) =
      (if y < k \<and> x < n then f y x else cs ! (y * w + x))"
proof (induction k)
  case (Suc k)
  let ?prev = "fold (\<lambda>y cs. fold (\<lambda>x cs. cs[y * w + x := f y x]) [0..<n] cs) [0..<k] cs"
  have "length ?prev = length cs" by (intro length_fold_keep) simp
  moreover have "(k * w \<le> y * w + x \<and> y * w + x < k * w + n) = (y = k \<and> x < n)"
    using grid_row_interval [of x w n k 0 y] Suc.prems by simp
  ultimately show ?case using Suc by (auto simp: fold_row_nth)
qed simp

section \<open>A machine with an invariant\<close>

text \<open>
  The contract that every stateful component of the host shares: each event keeps the
  component's well-formedness. What a client gets for it is proved once: a whole run keeps the
  invariant, and a run over a concatenation is the two runs in sequence.
\<close>

locale invariant_machine =
  fixes step :: "'s \<Rightarrow> 'e \<Rightarrow> 's"
    and inv :: "'s \<Rightarrow> bool"
  assumes inv_step: "inv s \<Longrightarrow> inv (step s e)"
begin

lemma inv_run: "inv s \<Longrightarrow> inv (foldl step s es)"
  by (induction es arbitrary: s) (auto intro: inv_step)

lemma run_append: "foldl step s (es @ fs) = foldl step (foldl step s es) fs"
  by simp

end

section \<open>Positional numbers\<close>

text \<open>
  The value of a digit string read from the left, for a digit reader that fails on characters
  that are no digits.
\<close>

fun horner :: "nat \<Rightarrow> (wchar \<Rightarrow> nat option) \<Rightarrow> nat \<Rightarrow> wstring \<Rightarrow> nat option" where
  "horner base dig acc [] = Some acc"
| "horner base dig acc (c # cs) =
     (case dig c of None \<Rightarrow> None | Some d \<Rightarrow> horner base dig (acc * base + d) cs)"

text \<open>
  The same loop as the sources write it: after every digit the accumulator is compared with the
  largest value the result may take.
\<close>

fun capped :: "nat \<Rightarrow> (wchar \<Rightarrow> nat option) \<Rightarrow> nat \<Rightarrow> nat \<Rightarrow> wstring \<Rightarrow> nat option" where
  "capped base dig limit acc [] = Some acc"
| "capped base dig limit acc (c # cs) =
     (case dig c of None \<Rightarrow> None
      | Some d \<Rightarrow> if limit < acc * base + d then None
                  else capped base dig limit (acc * base + d) cs)"

locale positional =
  fixes base :: nat and dig :: "wchar \<Rightarrow> nat option"
  assumes base_gt: "1 < base"
    and dig_lt: "dig c = Some d \<Longrightarrow> d < base"
begin

lemma horner_mono: "horner base dig acc cs = Some v \<Longrightarrow> acc \<le> v"
proof (induction cs arbitrary: acc)
  case Nil
  then show ?case by simp
next
  case (Cons c cs)
  then obtain d where d: "dig c = Some d" and v: "horner base dig (acc * base + d) cs = Some v"
    by (auto split: option.splits)
  have "acc \<le> acc * base + d" using base_gt by (simp add: trans_le_add1)
  also have "\<dots> \<le> v" using v by (rule Cons.IH)
  finally show ?case .
qed

text \<open>Checking the bound after every digit is the same as checking it once at the end.\<close>

lemma capped_iff:
  "acc \<le> limit \<Longrightarrow>
    capped base dig limit acc cs = Some v \<longleftrightarrow> horner base dig acc cs = Some v \<and> v \<le> limit"
proof (induction cs arbitrary: acc)
  case Nil
  then show ?case by auto
next
  case (Cons c cs)
  show ?case
  proof (cases "dig c")
    case None
    then show ?thesis by simp
  next
    case (Some d)
    show ?thesis
    proof (cases "limit < acc * base + d")
      case True
      then have "\<not> (horner base dig (acc * base + d) cs = Some v \<and> v \<le> limit)"
        using horner_mono by fastforce
      with Some True show ?thesis by simp
    next
      case False
      with Some Cons.IH [of "acc * base + d"] show ?thesis by simp
    qed
  qed
qed

lemma horner_append:
  "horner base dig acc (cs @ ds) = Option.bind (horner base dig acc cs) (\<lambda>a. horner base dig a ds)"
  by (induction cs arbitrary: acc) (auto split: option.splits)

lemma horner_digits: "horner base dig acc cs = Some v \<Longrightarrow> list_all (\<lambda>c. dig c \<noteq> None) cs"
  by (induction cs arbitrary: acc) (auto split: option.splits)

end

end
