(* ===== verification/Screen_Buffer.thy ===== *)
theory Screen_Buffer
  imports Conhost_Prelude
begin

text \<open>
  The screen buffer of the host (\<open>class ScreenBuffer\<close> of \<open>condrv_server.hpp\<close>): its state, its
  constructor, the window, cursor and attribute state, the resize, the VT state that outlives a
  write and the alternate screen. The operations on cells are in \<open>Screen_Cells\<close>.

  A \<open>SHORT\<close> is an \<^typ>\<open>int\<close> and every narrowing cast of the source is a \<open>to_short\<close>. A vector
  allocation that may throw is a flag of the operation. \<open>OC_ASSERT\<close> ends the process in every
  build, so an operation with asserts returns an option, \<^term>\<open>None\<close> for the fast fail.
\<close>

section \<open>Data\<close>

record COORD =
  cx :: int
  cy :: int

record SMALL_RECT =
  r_left :: int
  r_top :: int
  r_right :: int
  r_bottom :: int

abbreviation coord0 :: COORD where
  "coord0 \<equiv> \<lparr>cx = 0, cy = 0\<rparr>"

abbreviation rect0 :: SMALL_RECT where
  "rect0 \<equiv> \<lparr>r_left = 0, r_top = 0, r_right = 0, r_bottom = 0\<rparr>"

record ScreenCell =
  cell_character :: wchar
  cell_attributes :: ushort

text \<open>
  The state of the VT output parser that survives from one write to the next. A fixed array of
  the source with its element count is the list of the elements counted: the source never reads
  an element at or after the count. The capacities are properties of the parser.
\<close>

record VtCsiSequence =
  csi_final :: wchar
  csi_private_marker :: bool
  csi_exclamation_marker :: bool
  csi_params :: "nat list"

datatype Phase = P_ground | P_escape | P_esc_dispatch | P_csi | P_osc | P_osc_escape | P_string | P_string_escape

record VtOutputParseState =
  ps_phase :: Phase
  ps_esc_intermediates :: wstring
  ps_esc_length :: nat
  ps_csi :: VtCsiSequence
  ps_csi_current :: nat
  ps_csi_have_digits :: bool
  ps_csi_last_was_separator :: bool
  ps_csi_length :: nat
  ps_osc_param :: nat
  ps_osc_param_have_digits :: bool
  ps_osc_in_param :: bool
  ps_osc_action :: nat
  ps_osc_capture_payload :: bool
  ps_osc_payload :: wstring

definition empty_csi :: VtCsiSequence where
  "empty_csi = \<lparr>csi_final = 0, csi_private_marker = False, csi_exclamation_marker = False, csi_params = []\<rparr>"

definition initial_parse_state :: VtOutputParseState where
  "initial_parse_state = \<lparr>ps_phase = P_ground, ps_esc_intermediates = [], ps_esc_length = 0,
     ps_csi = empty_csi, ps_csi_current = 0, ps_csi_have_digits = False,
     ps_csi_last_was_separator = False, ps_csi_length = 0, ps_osc_param = 0,
     ps_osc_param_have_digits = False, ps_osc_in_param = True, ps_osc_action = 0,
     ps_osc_capture_payload = False, ps_osc_payload = []\<rparr>"

record Settings =
  st_buffer_size :: COORD
  st_cursor_position :: COORD
  st_scroll_position :: COORD
  st_window_size :: COORD
  st_maximum_window_size :: COORD
  st_text_attributes :: ushort
  st_cursor_size :: ulong
  st_cursor_visible :: bool
  st_color_table :: "ulong list"

record SavedCursorState =
  sc_position :: COORD
  sc_attributes :: ushort
  sc_delayed_eol_wrap :: bool
  sc_origin_mode_enabled :: bool

record VtVerticalMargins =
  m_top :: int
  m_bottom :: int

record VtAlternateBufferBackup =
  bk_cells :: "ScreenCell list"
  bk_cursor_position :: COORD
  bk_text_attributes :: ushort
  bk_default_text_attributes :: ushort
  bk_cursor_size :: ulong
  bk_cursor_visible :: bool
  bk_saved_cursor_state :: "SavedCursorState option"
  bk_vt_vertical_margins :: "VtVerticalMargins option"
  bk_vt_delayed_wrap_position :: "COORD option"
  bk_vt_origin_mode_enabled :: bool

record ScreenBuffer =
  sb_buffer_size :: COORD
  sb_cursor_position :: COORD
  sb_window_rect :: SMALL_RECT
  sb_maximum_window_size :: COORD
  sb_text_attributes :: ushort
  sb_default_text_attributes :: ushort
  sb_cursor_size :: ulong
  sb_cursor_visible :: bool
  sb_color_table :: "ulong list"
  sb_saved_cursor_state :: "SavedCursorState option"
  sb_vt_vertical_margins :: "VtVerticalMargins option"
  sb_vt_main_backup :: "VtAlternateBufferBackup option"
  sb_vt_autowrap_enabled :: bool
  sb_vt_delayed_wrap_position :: "COORD option"
  sb_vt_origin_mode_enabled :: bool
  sb_vt_insert_mode_enabled :: bool
  sb_vt_output_parse_state :: VtOutputParseState
  sb_cells :: "ScreenCell list"
  sb_revision :: "64 word"

definition touch :: "ScreenBuffer \<Rightarrow> ScreenBuffer" where
  "touch sb = sb\<lparr>sb_revision := sb_revision sb + 1\<rparr>"

section \<open>Creation\<close>

text \<open>The \<open>RGB\<close> macro of the Windows headers.\<close>

definition RGB :: "byte \<Rightarrow> byte \<Rightarrow> byte \<Rightarrow> ulong" where
  "RGB r g b = ucast r OR push_bit 8 (ucast g) OR push_bit 16 (ucast b)"

definition default_settings :: Settings where
  "default_settings =
    \<lparr>st_buffer_size = \<lparr>cx = 120, cy = 40\<rparr>, st_cursor_position = coord0, st_scroll_position = coord0,
     st_window_size = \<lparr>cx = 120, cy = 40\<rparr>, st_maximum_window_size = \<lparr>cx = 120, cy = 40\<rparr>,
     st_text_attributes = 0x07, st_cursor_size = 25, st_cursor_visible = True,
     st_color_table = [RGB 0 0 0, RGB 0 0 128, RGB 0 128 0, RGB 0 128 128, RGB 128 0 0, RGB 128 0 128,
       RGB 128 128 0, RGB 192 192 192, RGB 128 128 128, RGB 0 0 255, RGB 0 255 0, RGB 0 255 255,
       RGB 255 0 0, RGB 255 0 255, RGB 255 255 0, RGB 255 255 255]\<rparr>"

text \<open>
  The clamps of one axis of the window, which the constructor and the resize write out for both
  axes: the extent is brought into the buffer, then the origin.
\<close>

definition fit_extent :: "int \<Rightarrow> int \<Rightarrow> int" where
  "fit_extent buffer_w window_w =
    (let w = (if window_w > buffer_w then buffer_w else window_w) in if w \<le> 0 then 1 else w)"

definition fit_origin :: "int \<Rightarrow> int \<Rightarrow> int" where
  "fit_origin max_left left =
    (let l = (if left > max_left then max_left else left) in if l < 0 then 0 else l)"

definition clamp_cursor_axis :: "int \<Rightarrow> int \<Rightarrow> int" where
  "clamp_cursor_axis extent v =
    (let v = (if v < 0 then 0 else v) in if v \<ge> extent then to_short (extent - 1) else v)"

definition ScreenBuffer_ctor :: "Settings \<Rightarrow> ScreenBuffer" where
  "ScreenBuffer_ctor s =
    (let members = \<lparr>sb_buffer_size = st_buffer_size s, sb_cursor_position = st_cursor_position s,
           sb_window_rect = rect0, sb_maximum_window_size = st_maximum_window_size s,
           sb_text_attributes = st_text_attributes s, sb_default_text_attributes = st_text_attributes s,
           sb_cursor_size = st_cursor_size s, sb_cursor_visible = st_cursor_visible s,
           sb_color_table = st_color_table s, sb_saved_cursor_state = None,
           sb_vt_vertical_margins = None, sb_vt_main_backup = None, sb_vt_autowrap_enabled = True,
           sb_vt_delayed_wrap_position = None, sb_vt_origin_mode_enabled = False,
           sb_vt_insert_mode_enabled = False, sb_vt_output_parse_state = initial_parse_state,
           sb_cells = [], sb_revision = 0\<rparr>;
         sz = st_buffer_size s
     in if cx sz \<le> 0 \<or> cy sz \<le> 0
        then members\<lparr>sb_buffer_size := coord0, sb_cursor_position := coord0, sb_window_rect := rect0,
               sb_maximum_window_size := coord0\<rparr>
        else
          let desired = (if cx (st_window_size s) \<le> 0 \<or> cy (st_window_size s) \<le> 0 then sz else st_window_size s);
              maximum = (if cx (st_maximum_window_size s) \<le> 0 \<or> cy (st_maximum_window_size s) \<le> 0
                         then sz else st_maximum_window_size s);
              origin_x = (if cx (st_scroll_position s) < 0 then 0 else cx (st_scroll_position s));
              origin_y = (if cy (st_scroll_position s) < 0 then 0 else cy (st_scroll_position s));
              maximum = \<lparr>cx = (if cx maximum < cx sz then cx sz else cx maximum),
                         cy = (if cy maximum < cy sz then cy sz else cy maximum)\<rparr>;
              cursor = \<lparr>cx = clamp_cursor_axis (cx sz) (cx (st_cursor_position s)),
                        cy = clamp_cursor_axis (cy sz) (cy (st_cursor_position s))\<rparr>;
              window_w = fit_extent (cx sz) (if cx desired \<le> 0 then cx sz else cx desired);
              window_h = fit_extent (cy sz) (if cy desired \<le> 0 then cy sz else cy desired);
              left = fit_origin (cx sz - window_w) origin_x;
              top = fit_origin (cy sz - window_h) origin_y
          in members\<lparr>sb_cursor_position := cursor, sb_maximum_window_size := maximum,
               sb_window_rect := \<lparr>r_left = to_short left, r_top = to_short top,
                 r_right = to_short (left + window_w - 1), r_bottom = to_short (top + window_h - 1)\<rparr>,
               sb_cells := replicate (nat (cx sz) * nat (cy sz))
                 \<lparr>cell_character = 0x20, cell_attributes = st_text_attributes s\<rparr>\<rparr>)"

record DeviceCommError =
  dce_context :: string
  dce_win32_error :: ulong

definition create :: "bool \<Rightarrow> Settings \<Rightarrow> DeviceCommError + ScreenBuffer" where
  "create mem_ok settings =
    (if mem_ok then Inr (ScreenBuffer_ctor settings)
     else Inl \<lparr>dce_context = ''Failed to allocate ScreenBuffer'', dce_win32_error = 14\<rparr>)"

section \<open>The window\<close>

definition scroll_position :: "ScreenBuffer \<Rightarrow> COORD" where
  "scroll_position sb = \<lparr>cx = r_left (sb_window_rect sb), cy = r_top (sb_window_rect sb)\<rparr>"

definition set_window_rect :: "SMALL_RECT \<Rightarrow> ScreenBuffer \<Rightarrow> bool \<times> ScreenBuffer" where
  "set_window_rect rect sb =
    (if cx (sb_buffer_size sb) \<le> 0 \<or> cy (sb_buffer_size sb) \<le> 0 then (False, sb)
     else if r_left rect > r_right rect \<or> r_top rect > r_bottom rect then (False, sb)
     else if r_left rect < 0 \<or> r_top rect < 0 then (False, sb)
     else if r_right rect < 0 \<or> r_bottom rect < 0 then (False, sb)
     else if r_right rect \<ge> cx (sb_buffer_size sb) \<or> r_bottom rect \<ge> cy (sb_buffer_size sb) then (False, sb)
     else (True, touch (sb\<lparr>sb_window_rect := rect\<rparr>)))"

definition window_size :: "ScreenBuffer \<Rightarrow> COORD" where
  "window_size sb =
    (let width = r_right (sb_window_rect sb) - r_left (sb_window_rect sb) + 1;
         height = r_bottom (sb_window_rect sb) - r_top (sb_window_rect sb) + 1
     in if width \<le> 0 \<or> height \<le> 0 then coord0
        else \<lparr>cx = (if width > 32767 then 32767 else to_short width),
              cy = (if height > 32767 then 32767 else to_short height)\<rparr>)"

definition set_window_size :: "COORD \<Rightarrow> ScreenBuffer \<Rightarrow> bool \<times> ScreenBuffer" where
  "set_window_size sz sb =
    (if cx (sb_buffer_size sb) \<le> 0 \<or> cy (sb_buffer_size sb) \<le> 0 then (False, sb)
     else if cx sz \<le> 0 \<or> cy sz \<le> 0 then (False, sb)
     else if cx sz > cx (sb_buffer_size sb) \<or> cy sz > cy (sb_buffer_size sb) then (False, sb)
     else
       let left = r_left (sb_window_rect sb); top = r_top (sb_window_rect sb);
           right = left + cx sz - 1; bottom = top + cy sz - 1
       in if left < 0 \<or> top < 0 then (False, sb)
          else if right \<ge> cx (sb_buffer_size sb) \<or> bottom \<ge> cy (sb_buffer_size sb) then (False, sb)
          else (True, touch (sb\<lparr>sb_window_rect := \<lparr>r_left = to_short left, r_top = to_short top,
                  r_right = to_short right, r_bottom = to_short bottom\<rparr>\<rparr>)))"

text \<open>One axis of \<open>snap_window_to_cursor\<close>: the new origin of the window.\<close>

definition snap_axis :: "int \<Rightarrow> int \<Rightarrow> int \<Rightarrow> int \<Rightarrow> int \<Rightarrow> int" where
  "snap_axis cursor lo hi extent buffer =
    (let l = (if cursor < lo then cursor else if cursor > hi then cursor - (extent - 1) else lo);
         l = (if l < 0 then 0 else l)
     in if l > buffer - extent then buffer - extent else l)"

definition snap_window_to_cursor :: "ScreenBuffer \<Rightarrow> ScreenBuffer" where
  "snap_window_to_cursor sb =
    (if cx (sb_buffer_size sb) \<le> 0 \<or> cy (sb_buffer_size sb) \<le> 0 then sb
     else if cx (window_size sb) \<le> 0 \<or> cy (window_size sb) \<le> 0 then sb
     else
       let width = cx (window_size sb); height = cy (window_size sb); r = sb_window_rect sb;
           left = snap_axis (cx (sb_cursor_position sb)) (r_left r) (r_right r) width (cx (sb_buffer_size sb));
           top = snap_axis (cy (sb_cursor_position sb)) (r_top r) (r_bottom r) height (cy (sb_buffer_size sb))
       in touch (sb\<lparr>sb_window_rect := \<lparr>r_left = to_short left, r_top = to_short top,
            r_right = to_short (left + width - 1), r_bottom = to_short (top + height - 1)\<rparr>\<rparr>))"

definition create_blank_like :: "bool \<Rightarrow> ScreenBuffer \<Rightarrow> DeviceCommError + ScreenBuffer" where
  "create_blank_like mem_ok template =
    create mem_ok
     \<lparr>st_buffer_size = sb_buffer_size template, st_cursor_position = coord0,
      st_scroll_position = scroll_position template, st_window_size = window_size template,
      st_maximum_window_size = sb_maximum_window_size template,
      st_text_attributes = sb_text_attributes template, st_cursor_size = sb_cursor_size template,
      st_cursor_visible = sb_cursor_visible template, st_color_table = sb_color_table template\<rparr>"

section \<open>Resize\<close>

text \<open>
  The two nested copy loops: every cell of the overlap goes from the old row stride to the new.
\<close>

definition copy_overlap ::
    "nat \<Rightarrow> nat \<Rightarrow> nat \<Rightarrow> nat \<Rightarrow> ScreenCell list \<Rightarrow> ScreenCell list \<Rightarrow> ScreenCell list" where
  "copy_overlap old_width old_height new_width new_height old_cells new_cells =
    (if old_cells \<noteq> [] \<and> old_width \<noteq> 0 \<and> old_height \<noteq> 0
     then fold (\<lambda>y cells. fold (\<lambda>x cells. cells[y * new_width + x := old_cells ! (y * old_width + x)])
                 [0..<min old_width new_width] cells)
               [0..<min old_height new_height] new_cells
     else new_cells)"

definition clamp_margins :: "int \<Rightarrow> VtVerticalMargins \<Rightarrow> VtVerticalMargins option" where
  "clamp_margins h margins =
    (let top = (if m_top margins < 0 then 0 else m_top margins); bottom = m_bottom margins
     in if bottom < 0 then None
        else
          let top = (if top \<ge> h then to_short (h - 1) else top);
              bottom = (if bottom \<ge> h then to_short (h - 1) else bottom)
          in if top \<ge> bottom then None else Some \<lparr>m_top = top, m_bottom = bottom\<rparr>)"

definition clamp_high :: "int \<Rightarrow> int \<Rightarrow> int" where
  "clamp_high extent v = (if v \<ge> extent then to_short (if extent > 0 then extent - 1 else 0) else v)"

definition resize_window :: "COORD \<Rightarrow> SMALL_RECT \<Rightarrow> SMALL_RECT" where
  "resize_window sz r =
    (let w = r_right r - r_left r + 1; h = r_bottom r - r_top r + 1;
         (w, h) = (if w \<le> 0 \<or> h \<le> 0 then (cx sz, cy sz) else (w, h));
         w = fit_extent (cx sz) w; h = fit_extent (cy sz) h;
         left = fit_origin (cx sz - w) (if r_left r < 0 then 0 else r_left r);
         top = fit_origin (cy sz - h) (if r_top r < 0 then 0 else r_top r)
     in \<lparr>r_left = to_short left, r_top = to_short top, r_right = to_short (left + w - 1),
         r_bottom = to_short (top + h - 1)\<rparr>)"

definition resize_backup :: "COORD \<Rightarrow> COORD \<Rightarrow> VtAlternateBufferBackup \<Rightarrow> VtAlternateBufferBackup" where
  "resize_backup old sz bk =
    bk\<lparr>bk_cells := copy_overlap (nat (cx old)) (nat (cy old)) (nat (cx sz)) (nat (cy sz)) (bk_cells bk)
         (replicate (nat (cx sz) * nat (cy sz))
           \<lparr>cell_character = 0x20, cell_attributes = bk_text_attributes bk\<rparr>),
       bk_cursor_position := \<lparr>cx = clamp_high (cx sz) (cx (bk_cursor_position bk)),
         cy = clamp_high (cy sz) (cy (bk_cursor_position bk))\<rparr>,
       bk_vt_vertical_margins := Option.bind (bk_vt_vertical_margins bk) (clamp_margins (cy sz)),
       bk_vt_delayed_wrap_position := None\<rparr>"

definition resized :: "COORD \<Rightarrow> ScreenBuffer \<Rightarrow> ScreenBuffer" where
  "resized sz sb =
    (let old = sb_buffer_size sb; maximum = sb_maximum_window_size sb
     in sb\<lparr>sb_cells := copy_overlap (nat (cx old)) (nat (cy old)) (nat (cx sz)) (nat (cy sz)) (sb_cells sb)
             (replicate (nat (cx sz) * nat (cy sz))
               \<lparr>cell_character = 0x20, cell_attributes = sb_text_attributes sb\<rparr>),
           sb_buffer_size := sz,
           sb_maximum_window_size := \<lparr>cx = (if cx maximum < cx sz then cx sz else cx maximum),
             cy = (if cy maximum < cy sz then cy sz else cy maximum)\<rparr>,
           sb_window_rect := resize_window sz (sb_window_rect sb),
           sb_cursor_position := \<lparr>cx = clamp_high (cx sz) (cx (sb_cursor_position sb)),
             cy = clamp_high (cy sz) (cy (sb_cursor_position sb))\<rparr>,
           sb_vt_vertical_margins := Option.bind (sb_vt_vertical_margins sb) (clamp_margins (cy sz)),
           sb_vt_main_backup := map_option (resize_backup old sz) (sb_vt_main_backup sb),
           sb_vt_delayed_wrap_position := None\<rparr>)"

definition set_screen_buffer_size :: "bool \<Rightarrow> COORD \<Rightarrow> ScreenBuffer \<Rightarrow> bool \<times> ScreenBuffer" where
  "set_screen_buffer_size mem_ok sz sb =
    (if cx sz \<le> 0 \<or> cy sz \<le> 0 then (False, sb)
     else if \<not> mem_ok then (False, sb)
     else (True, snap_window_to_cursor (touch (resized sz sb))))"

section \<open>Cursor, attributes and VT state\<close>

definition set_cursor_position :: "COORD \<Rightarrow> ScreenBuffer \<Rightarrow> ScreenBuffer" where
  "set_cursor_position position sb = touch (sb\<lparr>sb_cursor_position := position\<rparr>)"

definition set_text_attributes :: "ushort \<Rightarrow> ScreenBuffer \<Rightarrow> ScreenBuffer" where
  "set_text_attributes attributes sb = touch (sb\<lparr>sb_text_attributes := attributes\<rparr>)"

definition set_default_text_attributes :: "ushort \<Rightarrow> ScreenBuffer \<Rightarrow> ScreenBuffer" where
  "set_default_text_attributes attributes sb = touch (sb\<lparr>sb_default_text_attributes := attributes\<rparr>)"

definition set_cursor_info :: "ulong \<Rightarrow> bool \<Rightarrow> ScreenBuffer \<Rightarrow> ScreenBuffer" where
  "set_cursor_info sz visible sb = touch (sb\<lparr>sb_cursor_size := sz, sb_cursor_visible := visible\<rparr>)"

definition clamp_component :: "int \<Rightarrow> int \<Rightarrow> int" where
  "clamp_component value max_value = (if value < 0 then 0 else if value > max_value then max_value else value)"

definition save_cursor_state :: "COORD \<Rightarrow> ushort \<Rightarrow> bool \<Rightarrow> bool \<Rightarrow> ScreenBuffer \<Rightarrow> ScreenBuffer" where
  "save_cursor_state position attributes delayed_eol_wrap origin_mode_enabled sb =
    (let sb = touch sb in
     if cx (sb_buffer_size sb) \<le> 0 \<or> cy (sb_buffer_size sb) \<le> 0
     then sb\<lparr>sb_saved_cursor_state := Some \<lparr>sc_position = coord0, sc_attributes = attributes,
            sc_delayed_eol_wrap = False, sc_origin_mode_enabled = origin_mode_enabled\<rparr>\<rparr>
     else
       let clamped = \<lparr>cx = clamp_component (cx position) (to_short (cx (sb_buffer_size sb) - 1)),
                      cy = clamp_component (cy position) (to_short (cy (sb_buffer_size sb) - 1))\<rparr>
       in sb\<lparr>sb_saved_cursor_state := Some \<lparr>sc_position = clamped, sc_attributes = attributes,
            sc_delayed_eol_wrap = (delayed_eol_wrap \<and> cx clamped = cx position \<and> cy clamped = cy position),
            sc_origin_mode_enabled = origin_mode_enabled\<rparr>\<rparr>)"

text \<open>The four reference parameters of the restore are returned, \<^term>\<open>None\<close> when nothing is saved.\<close>

definition restore_axis :: "int \<Rightarrow> int \<Rightarrow> int" where
  "restore_axis w p = (if p < 0 then 0 else if p \<ge> w then to_short (w - 1) else p)"

definition restore_cursor_state :: "ScreenBuffer \<Rightarrow> (COORD \<times> ushort \<times> bool \<times> bool) option" where
  "restore_cursor_state sb =
    (case sb_saved_cursor_state sb of
       None \<Rightarrow> None
     | Some s \<Rightarrow>
         let p = sc_position s; w = cx (sb_buffer_size sb); h = cy (sb_buffer_size sb);
             position =
               (if w \<le> 0 \<or> h \<le> 0 then coord0
                else \<lparr>cx = restore_axis w (cx p), cy = restore_axis h (cy p)\<rparr>)
         in Some (position, sc_attributes s, sc_delayed_eol_wrap s, sc_origin_mode_enabled s))"

definition set_vt_autowrap_enabled :: "bool \<Rightarrow> ScreenBuffer \<Rightarrow> ScreenBuffer" where
  "set_vt_autowrap_enabled enabled sb =
    touch (sb\<lparr>sb_vt_autowrap_enabled := enabled, sb_vt_delayed_wrap_position := None\<rparr>)"

definition set_vt_delayed_wrap_position :: "COORD option \<Rightarrow> ScreenBuffer \<Rightarrow> ScreenBuffer" where
  "set_vt_delayed_wrap_position position sb = sb\<lparr>sb_vt_delayed_wrap_position := position\<rparr>"

definition set_vt_origin_mode_enabled :: "bool \<Rightarrow> ScreenBuffer \<Rightarrow> ScreenBuffer" where
  "set_vt_origin_mode_enabled enabled sb = touch (sb\<lparr>sb_vt_origin_mode_enabled := enabled\<rparr>)"

definition set_vt_insert_mode_enabled :: "bool \<Rightarrow> ScreenBuffer \<Rightarrow> ScreenBuffer" where
  "set_vt_insert_mode_enabled enabled sb =
    (if sb_vt_insert_mode_enabled sb = enabled then sb
     else touch (sb\<lparr>sb_vt_insert_mode_enabled := enabled\<rparr>))"

definition set_color_table :: "ulong list \<Rightarrow> ScreenBuffer \<Rightarrow> ScreenBuffer" where
  "set_color_table table sb =
    touch (sb\<lparr>sb_color_table := fold (\<lambda>i t. t[i := table ! i]) [0..<length (sb_color_table sb)] (sb_color_table sb)\<rparr>)"

definition set_vt_vertical_margins :: "VtVerticalMargins option \<Rightarrow> ScreenBuffer \<Rightarrow> ScreenBuffer option" where
  "set_vt_vertical_margins margins sb =
    (if case margins of
          None \<Rightarrow> True
        | Some m \<Rightarrow> m_top m \<ge> 0 \<and> m_bottom m \<ge> m_top m \<and> cy (sb_buffer_size sb) > 0
            \<and> m_bottom m < cy (sb_buffer_size sb)
     then Some (touch (sb\<lparr>sb_vt_vertical_margins := margins\<rparr>)) else None)"

section \<open>The alternate screen\<close>

definition main_backup :: "ScreenBuffer \<Rightarrow> VtAlternateBufferBackup" where
  "main_backup sb =
    \<lparr>bk_cells = sb_cells sb, bk_cursor_position = sb_cursor_position sb,
     bk_text_attributes = sb_text_attributes sb, bk_default_text_attributes = sb_default_text_attributes sb,
     bk_cursor_size = sb_cursor_size sb, bk_cursor_visible = sb_cursor_visible sb,
     bk_saved_cursor_state = sb_saved_cursor_state sb, bk_vt_vertical_margins = sb_vt_vertical_margins sb,
     bk_vt_delayed_wrap_position = sb_vt_delayed_wrap_position sb,
     bk_vt_origin_mode_enabled = sb_vt_origin_mode_enabled sb\<rparr>"

definition restore_main :: "VtAlternateBufferBackup \<Rightarrow> ScreenBuffer \<Rightarrow> ScreenBuffer" where
  "restore_main bk sb =
    sb\<lparr>sb_cells := bk_cells bk, sb_cursor_position := bk_cursor_position bk,
      sb_text_attributes := bk_text_attributes bk, sb_default_text_attributes := bk_default_text_attributes bk,
      sb_cursor_size := bk_cursor_size bk, sb_cursor_visible := bk_cursor_visible bk,
      sb_saved_cursor_state := bk_saved_cursor_state bk, sb_vt_vertical_margins := bk_vt_vertical_margins bk,
      sb_vt_delayed_wrap_position := bk_vt_delayed_wrap_position bk,
      sb_vt_origin_mode_enabled := bk_vt_origin_mode_enabled bk\<rparr>"

definition set_vt_using_alternate_screen_buffer ::
    "bool \<Rightarrow> bool \<Rightarrow> wchar \<Rightarrow> ushort \<Rightarrow> ScreenBuffer \<Rightarrow> bool \<times> ScreenBuffer" where
  "set_vt_using_alternate_screen_buffer mem_ok enable fill_character fill_attributes sb =
    (if enable then
       (case sb_vt_main_backup sb of
          Some _ \<Rightarrow> (True, sb)
        | None \<Rightarrow>
            if \<not> mem_ok then (False, sb)
            else (True, touch (sb\<lparr>sb_vt_main_backup := Some (main_backup sb),
                    sb_cells := replicate (length (sb_cells sb))
                      \<lparr>cell_character = fill_character, cell_attributes = fill_attributes\<rparr>,
                    sb_cursor_position := coord0, sb_saved_cursor_state := None,
                    sb_vt_vertical_margins := None, sb_vt_delayed_wrap_position := None\<rparr>)))
     else
       (case sb_vt_main_backup sb of
          None \<Rightarrow> (True, sb)
        | Some bk \<Rightarrow> (True, touch (restore_main bk (sb\<lparr>sb_vt_main_backup := None\<rparr>)))))"

section \<open>Well-formedness\<close>

text \<open>
  An axis of extent \<open>w\<close> admits the positions \<open>0, \<dots>, w - 1\<close>, and the position 0 when the buffer is
  empty. The buffer is empty in both axes or in none, has one cell per position, and the cursor,
  the window and the scroll margins lie inside it; the preserved main screen has the same shape.
\<close>

definition in_extent :: "int \<Rightarrow> int \<Rightarrow> bool" where
  "in_extent w x \<longleftrightarrow> 0 \<le> x \<and> (x < w \<or> x = 0)"

definition size_ok :: "COORD \<Rightarrow> bool" where
  "size_ok sz \<longleftrightarrow> (0 < cx sz \<and> 0 < cy sz \<or> cx sz = 0 \<and> cy sz = 0) \<and> cx sz \<le> 32767 \<and> cy sz \<le> 32767"

definition cursor_ok :: "COORD \<Rightarrow> COORD \<Rightarrow> bool" where
  "cursor_ok sz p \<longleftrightarrow> in_extent (cx sz) (cx p) \<and> in_extent (cy sz) (cy p)"

definition window_ok :: "COORD \<Rightarrow> SMALL_RECT \<Rightarrow> bool" where
  "window_ok sz r \<longleftrightarrow> in_extent (cx sz) (r_left r) \<and> in_extent (cx sz) (r_right r) \<and> r_left r \<le> r_right r
    \<and> in_extent (cy sz) (r_top r) \<and> in_extent (cy sz) (r_bottom r) \<and> r_top r \<le> r_bottom r"

definition margins_ok :: "COORD \<Rightarrow> VtVerticalMargins option \<Rightarrow> bool" where
  "margins_ok sz mo \<longleftrightarrow> (case mo of None \<Rightarrow> True
     | Some m \<Rightarrow> 0 \<le> m_top m \<and> m_top m \<le> m_bottom m \<and> m_bottom m < cy sz)"

definition cells_ok :: "COORD \<Rightarrow> ScreenCell list \<Rightarrow> bool" where
  "cells_ok sz cells \<longleftrightarrow> length cells = nat (cy sz) * nat (cx sz)"

definition backup_ok :: "COORD \<Rightarrow> VtAlternateBufferBackup option \<Rightarrow> bool" where
  "backup_ok sz bo \<longleftrightarrow> (case bo of None \<Rightarrow> True
     | Some bk \<Rightarrow> cells_ok sz (bk_cells bk) \<and> cursor_ok sz (bk_cursor_position bk)
         \<and> margins_ok sz (bk_vt_vertical_margins bk))"

definition sb_ok :: "ScreenBuffer \<Rightarrow> bool" where
  "sb_ok sb \<longleftrightarrow> size_ok (sb_buffer_size sb) \<and> cells_ok (sb_buffer_size sb) (sb_cells sb)
    \<and> cursor_ok (sb_buffer_size sb) (sb_cursor_position sb) \<and> window_ok (sb_buffer_size sb) (sb_window_rect sb)
    \<and> margins_ok (sb_buffer_size sb) (sb_vt_vertical_margins sb)
    \<and> backup_ok (sb_buffer_size sb) (sb_vt_main_backup sb)"

text \<open>What the type \<open>SHORT\<close> guarantees of a caller's coordinate.\<close>

definition short_coord :: "COORD \<Rightarrow> bool" where
  "short_coord c \<longleftrightarrow> - 32768 \<le> cx c \<and> cx c \<le> 32767 \<and> - 32768 \<le> cy c \<and> cy c \<le> 32767"

lemmas sb_defs = sb_ok_def size_ok_def cells_ok_def cursor_ok_def window_ok_def in_extent_def

lemma touch_simps [simp]:
  "sb_buffer_size (touch sb) = sb_buffer_size sb" "sb_cursor_position (touch sb) = sb_cursor_position sb"
  "sb_window_rect (touch sb) = sb_window_rect sb" "sb_maximum_window_size (touch sb) = sb_maximum_window_size sb"
  "sb_text_attributes (touch sb) = sb_text_attributes sb"
  "sb_default_text_attributes (touch sb) = sb_default_text_attributes sb"
  "sb_cursor_size (touch sb) = sb_cursor_size sb" "sb_cursor_visible (touch sb) = sb_cursor_visible sb"
  "sb_color_table (touch sb) = sb_color_table sb" "sb_saved_cursor_state (touch sb) = sb_saved_cursor_state sb"
  "sb_vt_vertical_margins (touch sb) = sb_vt_vertical_margins sb"
  "sb_vt_main_backup (touch sb) = sb_vt_main_backup sb"
  "sb_vt_autowrap_enabled (touch sb) = sb_vt_autowrap_enabled sb"
  "sb_vt_delayed_wrap_position (touch sb) = sb_vt_delayed_wrap_position sb"
  "sb_vt_origin_mode_enabled (touch sb) = sb_vt_origin_mode_enabled sb"
  "sb_vt_insert_mode_enabled (touch sb) = sb_vt_insert_mode_enabled sb"
  "sb_vt_output_parse_state (touch sb) = sb_vt_output_parse_state sb" "sb_cells (touch sb) = sb_cells sb"
  by (simp_all add: touch_def)

lemma sb_ok_touch [simp]: "sb_ok (touch sb) = sb_ok sb"
  by (simp add: sb_ok_def)

lemma fit_extent_bounds: "0 < b \<Longrightarrow> 1 \<le> fit_extent b w \<and> fit_extent b w \<le> b"
  by (simp add: fit_extent_def Let_def)

lemma fit_origin_bounds: "0 \<le> m \<Longrightarrow> 0 \<le> fit_origin m l \<and> fit_origin m l \<le> m"
  by (simp add: fit_origin_def Let_def)

lemma clamp_cursor_axis_ok: "0 < w \<Longrightarrow> w \<le> 32767 \<Longrightarrow> in_extent w (clamp_cursor_axis w v)"
  by (simp add: clamp_cursor_axis_def in_extent_def Let_def to_short_id)

lemma clamp_high_ok: "0 < w \<Longrightarrow> w \<le> 32767 \<Longrightarrow> 0 \<le> v \<Longrightarrow> in_extent w (clamp_high w v)"
  by (simp add: clamp_high_def in_extent_def to_short_id)

text \<open>A window that fits stays as it is under the casts to \<open>SHORT\<close>.\<close>

lemma window_axis_ok:
  assumes "0 \<le> l" and "1 \<le> e" and "l + e \<le> w" and "w \<le> 32767"
  shows "to_short l = l" and "to_short (l + e - 1) = l + e - 1" and "in_extent w l" and "in_extent w (l + e - 1)"
  using assms by (auto simp: to_short_id in_extent_def)

lemma fit_axis_ok:
  assumes "0 < w" and "w \<le> 32767"
  shows "in_extent w (to_short (fit_origin (w - fit_extent w v) l))
    \<and> in_extent w (to_short (fit_origin (w - fit_extent w v) l + fit_extent w v - 1))
    \<and> to_short (fit_origin (w - fit_extent w v) l) \<le> to_short (fit_origin (w - fit_extent w v) l + fit_extent w v - 1)"
proof -
  have e: "1 \<le> fit_extent w v" "fit_extent w v \<le> w" using fit_extent_bounds assms(1) by blast+
  then have o: "0 \<le> fit_origin (w - fit_extent w v) l" "fit_origin (w - fit_extent w v) l \<le> w - fit_extent w v"
    using fit_origin_bounds [of "w - fit_extent w v" l] by auto
  from window_axis_ok [OF o(1) e(1) _ assms(2)] o(2) e(1) show ?thesis by simp
qed

lemma clamp_margins_ok: "0 < cy sz \<Longrightarrow> cy sz \<le> 32767 \<Longrightarrow> margins_ok sz (Option.bind mo (clamp_margins (cy sz)))"
  by (cases mo) (auto simp: margins_ok_def clamp_margins_def Let_def to_short_id)

lemma length_copy_overlap [simp]: "length (copy_overlap ow oh nw nh old new) = length new"
  by (simp add: copy_overlap_def length_fold_keep)

lemma copy_overlap_nth:
  assumes "length old = oh * ow" and "length new = nh * nw" and "x < nw" and "y < nh"
  shows "copy_overlap ow oh nw nh old new ! (y * nw + x) =
    (if x < ow \<and> y < oh then old ! (y * ow + x) else new ! (y * nw + x))"
proof (cases "old = []")
  case True
  with assms(1) show ?thesis by (auto simp: copy_overlap_def)
next
  case False
  then have "0 < oh * ow" by (simp flip: assms(1))
  then have "ow \<noteq> 0" "oh \<noteq> 0" by auto
  moreover have "y * nw + x < length new" using assms grid_index_less by simp
  ultimately show ?thesis
    using False assms(3,4) fold_grid_nth [of "min ow nw" nw x y new "\<lambda>y x. old ! (y * ow + x)" "min oh nh"]
    by (auto simp: copy_overlap_def)
qed

section \<open>Every operation keeps it\<close>

lemma sb_ok_ctor:
  assumes "short_coord (st_buffer_size s)"
  shows "sb_ok (ScreenBuffer_ctor s)"
proof (cases "cx (st_buffer_size s) \<le> 0 \<or> cy (st_buffer_size s) \<le> 0")
  case True
  then show ?thesis by (simp add: ScreenBuffer_ctor_def sb_defs margins_ok_def backup_ok_def)
next
  case False
  with assms show ?thesis
    by (simp add: ScreenBuffer_ctor_def Let_def sb_ok_def size_ok_def cells_ok_def window_ok_def cursor_ok_def
        margins_ok_def backup_ok_def short_coord_def fit_axis_ok clamp_cursor_axis_ok mult.commute)
qed

lemma sb_ok_set_window_rect: "sb_ok sb \<Longrightarrow> sb_ok (snd (set_window_rect r sb))"
  by (auto simp: set_window_rect_def sb_defs)

lemma window_size_ok:
  assumes "sb_ok sb"
  shows "cx (window_size sb) = r_right (sb_window_rect sb) - r_left (sb_window_rect sb) + 1"
    and "cy (window_size sb) = r_bottom (sb_window_rect sb) - r_top (sb_window_rect sb) + 1"
proof -
  have "in_extent (cx (sb_buffer_size sb)) (r_right (sb_window_rect sb))" "0 \<le> r_left (sb_window_rect sb)"
    "in_extent (cy (sb_buffer_size sb)) (r_bottom (sb_window_rect sb))" "0 \<le> r_top (sb_window_rect sb)"
    and le: "r_left (sb_window_rect sb) \<le> r_right (sb_window_rect sb)"
      "r_top (sb_window_rect sb) \<le> r_bottom (sb_window_rect sb)"
    and "cx (sb_buffer_size sb) \<le> 32767" "cy (sb_buffer_size sb) \<le> 32767"
    using assms by (simp_all add: sb_ok_def window_ok_def in_extent_def size_ok_def)
  then have "r_right (sb_window_rect sb) - r_left (sb_window_rect sb) + 1 \<le> 32767"
    "r_bottom (sb_window_rect sb) - r_top (sb_window_rect sb) + 1 \<le> 32767"
    by (auto simp: in_extent_def)
  with le show "cx (window_size sb) = r_right (sb_window_rect sb) - r_left (sb_window_rect sb) + 1"
    and "cy (window_size sb) = r_bottom (sb_window_rect sb) - r_top (sb_window_rect sb) + 1"
    by (simp_all add: window_size_def Let_def to_short_id)
qed

lemma sb_ok_set_window_size: "sb_ok sb \<Longrightarrow> sb_ok (snd (set_window_size sz sb))"
  by (auto simp: set_window_size_def sb_defs Let_def to_short_id)

text \<open>
  One axis of the snap: the window keeps its extent, stays in the buffer and contains the cursor.
\<close>

lemma snap_axis_ok:
  assumes "in_extent w lo" "in_extent w hi" "lo \<le> hi" "in_extent w c" "0 < w"
  shows "0 \<le> snap_axis c lo hi (hi - lo + 1) w \<and> snap_axis c lo hi (hi - lo + 1) w + (hi - lo + 1) \<le> w
    \<and> snap_axis c lo hi (hi - lo + 1) w \<le> c \<and> c < snap_axis c lo hi (hi - lo + 1) w + (hi - lo + 1)"
  using assms by (auto simp: snap_axis_def in_extent_def Let_def)

lemma snap_window_rect:
  assumes "sb_ok sb" and "0 < cx (sb_buffer_size sb)"
  defines "r \<equiv> sb_window_rect sb" and "r' \<equiv> sb_window_rect (snap_window_to_cursor sb)"
  shows "window_ok (sb_buffer_size sb) r'
    \<and> r_right r' - r_left r' = r_right r - r_left r \<and> r_bottom r' - r_top r' = r_bottom r - r_top r
    \<and> r_left r' \<le> cx (sb_cursor_position sb) \<and> cx (sb_cursor_position sb) \<le> r_right r'
    \<and> r_top r' \<le> cy (sb_cursor_position sb) \<and> cy (sb_cursor_position sb) \<le> r_bottom r'"
proof -
  let ?c = "sb_cursor_position sb" and ?w = "cx (sb_buffer_size sb)" and ?h = "cy (sb_buffer_size sb)"
  let ?l = "snap_axis (cx ?c) (r_left r) (r_right r) (r_right r - r_left r + 1) ?w"
  let ?t = "snap_axis (cy ?c) (r_top r) (r_bottom r) (r_bottom r - r_top r + 1) ?h"
  have pos: "0 < ?h" "?w \<le> 32767" "?h \<le> 32767" using assms(1,2) by (auto simp: sb_ok_def size_ok_def)
  have win: "window_ok (sb_buffer_size sb) r" using assms(1) by (simp add: sb_ok_def r_def)
  have cur: "in_extent ?w (cx ?c)" "in_extent ?h (cy ?c)" using assms(1) by (simp_all add: sb_ok_def cursor_ok_def)
  have x: "0 \<le> ?l" "?l + (r_right r - r_left r + 1) \<le> ?w" "?l \<le> cx ?c" "cx ?c < ?l + (r_right r - r_left r + 1)"
    using snap_axis_ok [of ?w "r_left r" "r_right r" "cx ?c"] win cur assms(2) by (auto simp: window_ok_def)
  have y: "0 \<le> ?t" "?t + (r_bottom r - r_top r + 1) \<le> ?h" "?t \<le> cy ?c" "cy ?c < ?t + (r_bottom r - r_top r + 1)"
    using snap_axis_ok [of ?h "r_top r" "r_bottom r" "cy ?c"] win cur pos by (auto simp: window_ok_def)
  have ext: "1 \<le> r_right r - r_left r + 1" "1 \<le> r_bottom r - r_top r + 1" using win by (auto simp: window_ok_def)
  note ax = window_axis_ok [OF x(1) ext(1) x(2) pos(2)] and ay = window_axis_ok [OF y(1) ext(2) y(2) pos(3)]
  have "r' = \<lparr>r_left = ?l, r_top = ?t, r_right = ?l + (r_right r - r_left r + 1) - 1,
      r_bottom = ?t + (r_bottom r - r_top r + 1) - 1\<rparr>"
    using assms(1,2) pos ext ax ay by (simp add: r'_def snap_window_to_cursor_def window_size_ok Let_def flip: r_def)
  with x y ext ax ay show ?thesis by (simp add: window_ok_def)
qed

lemma snap_window_simps [simp]:
  "sb_buffer_size (snap_window_to_cursor sb) = sb_buffer_size sb"
  "sb_cursor_position (snap_window_to_cursor sb) = sb_cursor_position sb"
  "sb_cells (snap_window_to_cursor sb) = sb_cells sb"
  "sb_vt_vertical_margins (snap_window_to_cursor sb) = sb_vt_vertical_margins sb"
  "sb_vt_main_backup (snap_window_to_cursor sb) = sb_vt_main_backup sb"
  "sb_saved_cursor_state (snap_window_to_cursor sb) = sb_saved_cursor_state sb"
  by (simp_all add: snap_window_to_cursor_def Let_def)

lemma sb_ok_snap_window_to_cursor [simp]: "sb_ok sb \<Longrightarrow> sb_ok (snap_window_to_cursor sb)"
proof (cases "0 < cx (sb_buffer_size sb)")
  case True
  assume "sb_ok sb"
  with snap_window_rect [OF this True] show ?thesis by (simp add: sb_ok_def)
next
  case False
  assume "sb_ok sb"
  with False show ?thesis by (simp add: snap_window_to_cursor_def)
qed

lemma sb_ok_resize_window:
  "0 < cx sz \<Longrightarrow> 0 < cy sz \<Longrightarrow> cx sz \<le> 32767 \<Longrightarrow> cy sz \<le> 32767 \<Longrightarrow> window_ok sz (resize_window sz r)"
  by (auto simp: resize_window_def window_ok_def Let_def fit_axis_ok split: prod.splits)

lemma backup_ok_resize:
  assumes "0 < cx sz" "0 < cy sz" "cx sz \<le> 32767" "cy sz \<le> 32767" and "backup_ok old bo"
  shows "backup_ok sz (map_option (resize_backup old sz) bo)"
proof (cases bo)
  case (Some bk)
  with assms(5) have "0 \<le> cx (bk_cursor_position bk)" "0 \<le> cy (bk_cursor_position bk)"
    by (auto simp: backup_ok_def cursor_ok_def in_extent_def)
  with Some assms(1-4) show ?thesis
    by (simp add: backup_ok_def resize_backup_def cells_ok_def cursor_ok_def clamp_high_ok clamp_margins_ok mult.commute)
qed (simp add: backup_ok_def)

lemma sb_ok_set_screen_buffer_size:
  assumes "sb_ok sb" and "short_coord sz"
  shows "sb_ok (snd (set_screen_buffer_size mem_ok sz sb))"
proof (cases "cx sz \<le> 0 \<or> cy sz \<le> 0 \<or> \<not> mem_ok")
  case True
  with assms(1) show ?thesis by (auto simp: set_screen_buffer_size_def)
next
  case False
  then have sz: "0 < cx sz" "0 < cy sz" "cx sz \<le> 32767" "cy sz \<le> 32767"
    using assms(2) by (auto simp: short_coord_def)
  have "0 \<le> cx (sb_cursor_position sb)" "0 \<le> cy (sb_cursor_position sb)"
    and "backup_ok (sb_buffer_size sb) (sb_vt_main_backup sb)"
    using assms(1) by (auto simp: sb_ok_def cursor_ok_def in_extent_def)
  then have "size_ok sz" and "cursor_ok sz \<lparr>cx = clamp_high (cx sz) (cx (sb_cursor_position sb)),
        cy = clamp_high (cy sz) (cy (sb_cursor_position sb))\<rparr>"
    and "backup_ok sz (map_option (resize_backup (sb_buffer_size sb) sz) (sb_vt_main_backup sb))"
    using sz by (auto simp: cursor_ok_def size_ok_def clamp_high_ok backup_ok_resize)
  with sz have "sb_ok (resized sz sb)"
    by (simp add: resized_def Let_def sb_ok_def cells_ok_def sb_ok_resize_window clamp_margins_ok mult.commute)
  with False show ?thesis by (simp add: set_screen_buffer_size_def)
qed

lemma sb_ok_set_cursor_position:
  "sb_ok sb \<Longrightarrow> cursor_ok (sb_buffer_size sb) p \<Longrightarrow> sb_ok (set_cursor_position p sb)"
  by (simp add: set_cursor_position_def sb_ok_def)

lemma sb_ok_set_vt_vertical_margins:
  "sb_ok sb \<Longrightarrow> set_vt_vertical_margins m sb = Some sb' \<Longrightarrow> sb_ok sb'"
  by (auto simp: set_vt_vertical_margins_def sb_ok_def margins_ok_def split: if_splits option.splits)

lemma sb_ok_setters [simp]:
  "sb_ok (set_text_attributes a sb) = sb_ok sb" "sb_ok (set_default_text_attributes a sb) = sb_ok sb"
  "sb_ok (set_cursor_info n v sb) = sb_ok sb" "sb_ok (save_cursor_state p a d o' sb) = sb_ok sb"
  "sb_ok (set_vt_autowrap_enabled b sb) = sb_ok sb" "sb_ok (set_vt_delayed_wrap_position q sb) = sb_ok sb"
  "sb_ok (set_vt_origin_mode_enabled b sb) = sb_ok sb" "sb_ok (set_vt_insert_mode_enabled b sb) = sb_ok sb"
  "sb_ok (set_color_table t sb) = sb_ok sb"
  by (simp_all add: sb_ok_def set_text_attributes_def set_default_text_attributes_def set_cursor_info_def
      save_cursor_state_def set_vt_autowrap_enabled_def set_vt_delayed_wrap_position_def
      set_vt_origin_mode_enabled_def set_vt_insert_mode_enabled_def set_color_table_def Let_def)

lemma backup_ok_main_backup: "sb_ok sb \<Longrightarrow> backup_ok (sb_buffer_size sb) (Some (main_backup sb))"
  by (simp add: sb_ok_def backup_ok_def main_backup_def)

lemma sb_ok_restore_main:
  "sb_ok sb \<Longrightarrow> sb_vt_main_backup sb = Some bk \<Longrightarrow> sb_ok (restore_main bk (sb\<lparr>sb_vt_main_backup := None\<rparr>))"
  by (simp add: sb_ok_def backup_ok_def restore_main_def)

lemma sb_ok_set_vt_using_alternate_screen_buffer:
  assumes "sb_ok sb"
  shows "sb_ok (snd (set_vt_using_alternate_screen_buffer mem_ok e c a sb))"
proof (cases "sb_vt_main_backup sb")
  case None
  have "cursor_ok (sb_buffer_size sb) coord0" "margins_ok (sb_buffer_size sb) None"
    by (simp_all add: cursor_ok_def in_extent_def margins_ok_def)
  with None assms backup_ok_main_backup [OF assms] show ?thesis
    by (simp add: set_vt_using_alternate_screen_buffer_def sb_ok_def cells_ok_def)
next
  case (Some bk)
  with assms sb_ok_restore_main [OF assms Some] show ?thesis
    by (simp add: set_vt_using_alternate_screen_buffer_def)
qed

lemma set_vt_vertical_margins_Some:
  "sb_ok sb \<Longrightarrow> margins_ok (sb_buffer_size sb) m \<Longrightarrow> set_vt_vertical_margins m sb \<noteq> None"
  by (auto simp: set_vt_vertical_margins_def margins_ok_def split: option.splits)

lemma clamp_component_id: "in_extent w v \<Longrightarrow> 0 < w \<Longrightarrow> w \<le> 32767 \<Longrightarrow> clamp_component v (to_short (w - 1)) = v"
  by (auto simp: clamp_component_def in_extent_def to_short_id)

lemma ctor_default:
  "sb_buffer_size (ScreenBuffer_ctor default_settings) = \<lparr>cx = 120, cy = 40\<rparr>"
  "sb_ok (ScreenBuffer_ctor default_settings)"
proof -
  show "sb_buffer_size (ScreenBuffer_ctor default_settings) = \<lparr>cx = 120, cy = 40\<rparr>"
    by (simp add: ScreenBuffer_ctor_def default_settings_def Let_def)
  show "sb_ok (ScreenBuffer_ctor default_settings)"
    by (rule sb_ok_ctor) (simp add: short_coord_def default_settings_def)
qed

lemma restore_axis_ok: "0 < w \<Longrightarrow> w \<le> 32767 \<Longrightarrow> in_extent w (restore_axis w p)"
  by (auto simp: restore_axis_def in_extent_def to_short_id)

lemma restore_axis_id: "in_extent w p \<Longrightarrow> 0 < w \<Longrightarrow> restore_axis w p = p"
  by (auto simp: restore_axis_def in_extent_def)

lemma restore_cursor_state_ok:
  assumes "sb_ok sb" and "restore_cursor_state sb = Some (p, a, d, om)"
  shows "cursor_ok (sb_buffer_size sb) p"
proof (cases "cx (sb_buffer_size sb) \<le> 0 \<or> cy (sb_buffer_size sb) \<le> 0")
  case True
  with assms(2) have "p = coord0" by (auto simp: restore_cursor_state_def Let_def split: option.splits)
  then show ?thesis by (simp add: cursor_ok_def in_extent_def)
next
  case False
  with assms(2) have "\<exists>x y. p = \<lparr>cx = restore_axis (cx (sb_buffer_size sb)) x,
      cy = restore_axis (cy (sb_buffer_size sb)) y\<rparr>"
    by (cases "sb_saved_cursor_state sb") (simp_all add: restore_cursor_state_def Let_def, blast)
  moreover have "size_ok (sb_buffer_size sb)" using assms(1) by (simp add: sb_ok_def)
  ultimately show ?thesis using False by (auto simp: cursor_ok_def restore_axis_ok size_ok_def)
qed

section \<open>Properties\<close>

definition cell_at :: "ScreenBuffer \<Rightarrow> int \<Rightarrow> int \<Rightarrow> ScreenCell" where
  "cell_at sb x y = sb_cells sb ! (nat y * nat (cx (sb_buffer_size sb)) + nat x)"

text \<open>
  A resize of a well-formed buffer to a positive size with memory available succeeds, gives a
  well-formed buffer of that size, keeps the cell of every position that both sizes have and
  blanks every new position in the current attributes; the preserved main screen, when the
  alternate screen is active, is resized by the same rule.
\<close>

theorem resize_keeps_overlap:
  assumes "sb_ok sb" and "short_coord sz" and "0 < cx sz" and "0 < cy sz"
  shows "\<exists>sb'. set_screen_buffer_size True sz sb = (True, sb') \<and> sb_ok sb' \<and> sb_buffer_size sb' = sz
    \<and> (\<forall>x y. 0 \<le> x \<and> x < cx sz \<and> 0 \<le> y \<and> y < cy sz \<longrightarrow> cell_at sb' x y =
         (if x < cx (sb_buffer_size sb) \<and> y < cy (sb_buffer_size sb) then cell_at sb x y
          else \<lparr>cell_character = 0x20, cell_attributes = sb_text_attributes sb\<rparr>))
    \<and> (\<forall>bk. sb_vt_main_backup sb = Some bk \<longrightarrow> (\<exists>bk'. sb_vt_main_backup sb' = Some bk'
         \<and> (\<forall>x y. 0 \<le> x \<and> x < cx sz \<and> 0 \<le> y \<and> y < cy sz \<longrightarrow>
              bk_cells bk' ! (nat y * nat (cx sz) + nat x) =
                (if x < cx (sb_buffer_size sb) \<and> y < cy (sb_buffer_size sb)
                 then bk_cells bk ! (nat y * nat (cx (sb_buffer_size sb)) + nat x)
                 else \<lparr>cell_character = 0x20, cell_attributes = bk_text_attributes bk\<rparr>))))"
proof -
  let ?old = "sb_buffer_size sb"
  obtain sb' where sb': "set_screen_buffer_size True sz sb = (True, sb')"
    using assms(3,4) by (simp add: set_screen_buffer_size_def)
  have sz': "sb_buffer_size sb' = sz"
    and cells: "sb_cells sb' = copy_overlap (nat (cx ?old)) (nat (cy ?old)) (nat (cx sz)) (nat (cy sz)) (sb_cells sb)
      (replicate (nat (cx sz) * nat (cy sz)) \<lparr>cell_character = 0x20, cell_attributes = sb_text_attributes sb\<rparr>)"
    and backup: "sb_vt_main_backup sb' = map_option (resize_backup ?old sz) (sb_vt_main_backup sb)"
    using sb' assms(3,4) by (auto simp: set_screen_buffer_size_def resized_def Let_def)
  have overlap: "copy_overlap (nat (cx ?old)) (nat (cy ?old)) (nat (cx sz)) (nat (cy sz)) cs
      (replicate (nat (cx sz) * nat (cy sz)) blank) ! (nat y * nat (cx sz) + nat x) =
      (if x < cx ?old \<and> y < cy ?old then cs ! (nat y * nat (cx ?old) + nat x) else blank)"
    if "cells_ok ?old cs" "0 \<le> x" "x < cx sz" "0 \<le> y" "y < cy sz" for cs blank x y
  proof -
    have "nat y * nat (cx sz) + nat x < nat (cy sz) * nat (cx sz)"
      using that by (intro grid_index_less) auto
    then show ?thesis
      using that by (subst copy_overlap_nth) (auto simp: cells_ok_def mult.commute nat_less_iff)
  qed
  have "cells_ok ?old (sb_cells sb)" "\<And>bk. sb_vt_main_backup sb = Some bk \<Longrightarrow> cells_ok ?old (bk_cells bk)"
    using assms(1) by (auto simp: sb_ok_def backup_ok_def)
  moreover have "sb_ok sb'" using sb_ok_set_screen_buffer_size [OF assms(1,2), of True] by (simp add: sb')
  ultimately show ?thesis
    by (simp add: sb' sz' cell_at_def cells backup overlap resize_backup_def)
qed

theorem resize_keeps_overlap_witness:
  "sb_ok (snd (set_screen_buffer_size True \<lparr>cx = 3, cy = 2\<rparr>
     (ScreenBuffer_ctor (default_settings\<lparr>st_buffer_size := \<lparr>cx = 2, cy = 2\<rparr>\<rparr>))))"
proof -
  have "sb_ok (ScreenBuffer_ctor (default_settings\<lparr>st_buffer_size := \<lparr>cx = 2, cy = 2\<rparr>\<rparr>))"
    by (rule sb_ok_ctor) (simp add: short_coord_def)
  from resize_keeps_overlap [OF this, of "\<lparr>cx = 3, cy = 2\<rparr>"] show ?thesis
    by (auto simp: short_coord_def)
qed

text \<open>
  Snapping the window to the cursor of a well-formed, non-empty buffer leaves a window of the
  same extent that lies in the buffer and contains the cursor, and changes nothing else that the
  buffer shows.
\<close>

theorem snap_window_shows_cursor:
  assumes "sb_ok sb" and "0 < cx (sb_buffer_size sb)"
  shows "window_ok (sb_buffer_size sb) (sb_window_rect (snap_window_to_cursor sb))
    \<and> window_size (snap_window_to_cursor sb) = window_size sb
    \<and> r_left (sb_window_rect (snap_window_to_cursor sb)) \<le> cx (sb_cursor_position sb)
    \<and> cx (sb_cursor_position sb) \<le> r_right (sb_window_rect (snap_window_to_cursor sb))
    \<and> r_top (sb_window_rect (snap_window_to_cursor sb)) \<le> cy (sb_cursor_position sb)
    \<and> cy (sb_cursor_position sb) \<le> r_bottom (sb_window_rect (snap_window_to_cursor sb))
    \<and> sb_cells (snap_window_to_cursor sb) = sb_cells sb
    \<and> sb_cursor_position (snap_window_to_cursor sb) = sb_cursor_position sb"
  using snap_window_rect [OF assms] by (simp add: window_size_def)

theorem snap_window_shows_cursor_witness:
  "window_size (snap_window_to_cursor (ScreenBuffer_ctor default_settings)) = \<lparr>cx = 120, cy = 40\<rparr>"
proof -
  have "window_size (snap_window_to_cursor (ScreenBuffer_ctor default_settings))
      = window_size (ScreenBuffer_ctor default_settings)"
    using snap_window_shows_cursor [OF ctor_default(2)] by (simp add: ctor_default)
  moreover have "sb_window_rect (ScreenBuffer_ctor default_settings) =
      \<lparr>r_left = 0, r_top = 0, r_right = 119, r_bottom = 39\<rparr>"
    by (simp add: ScreenBuffer_ctor_def default_settings_def Let_def fit_extent_def fit_origin_def to_short_def)
  ultimately show ?thesis by (simp add: window_size_def to_short_def)
qed

text \<open>
  The cursor state saved at a position of the buffer is restored exactly as long as the
  buffer keeps its size, and after a resize to any other size the restored position lies in the
  buffer and the attributes, the wrap flag and the origin mode are still those saved.
\<close>

theorem save_restore_cursor:
  assumes "sb_ok sb" and "cursor_ok (sb_buffer_size sb) p" and "0 < cx (sb_buffer_size sb)" and "short_coord sz"
  shows "restore_cursor_state (save_cursor_state p a d om sb) = Some (p, a, d, om)
    \<and> (\<exists>p'. restore_cursor_state (snd (set_screen_buffer_size mem_ok sz (save_cursor_state p a d om sb))) = Some (p', a, d, om)
         \<and> cursor_ok (sb_buffer_size (snd (set_screen_buffer_size mem_ok sz (save_cursor_state p a d om sb)))) p')"
proof -
  let ?s = "save_cursor_state p a d om sb"
  let ?r = "snd (set_screen_buffer_size mem_ok sz ?s)"
  have hpos: "0 < cy (sb_buffer_size sb)" "cx (sb_buffer_size sb) \<le> 32767" "cy (sb_buffer_size sb) \<le> 32767"
    using assms(1,3) by (auto simp: sb_ok_def size_ok_def)
  have saved: "sb_saved_cursor_state ?s = Some \<lparr>sc_position = p, sc_attributes = a, sc_delayed_eol_wrap = d,
      sc_origin_mode_enabled = om\<rparr>" and size: "sb_buffer_size ?s = sb_buffer_size sb"
    using assms(2,3) hpos by (simp_all add: save_cursor_state_def Let_def cursor_ok_def clamp_component_id)
  have "sb_saved_cursor_state ?r = sb_saved_cursor_state ?s"
    by (simp add: set_screen_buffer_size_def resized_def Let_def)
  then obtain p' where r: "restore_cursor_state ?r = Some (p', a, d, om)"
    by (simp add: restore_cursor_state_def saved Let_def)
  moreover have "sb_ok ?r" using assms by (intro sb_ok_set_screen_buffer_size) simp_all
  ultimately have "cursor_ok (sb_buffer_size ?r) p'" by (rule restore_cursor_state_ok [rotated])
  moreover have "restore_cursor_state ?s = Some (p, a, d, om)"
    using assms(2,3) hpos by (simp add: restore_cursor_state_def saved size cursor_ok_def restore_axis_id Let_def)
  ultimately show ?thesis using r by blast
qed

theorem save_restore_cursor_witness:
  "restore_cursor_state (save_cursor_state \<lparr>cx = 5, cy = 7\<rparr> 0x1F True False (ScreenBuffer_ctor default_settings))
    = Some (\<lparr>cx = 5, cy = 7\<rparr>, 0x1F, True, False)"
  using save_restore_cursor [OF ctor_default(2), of "\<lparr>cx = 5, cy = 7\<rparr>" coord0 "0x1F" True False]
  by (simp add: ctor_default cursor_ok_def in_extent_def short_coord_def)

end
