(* ===== verification/Screen_Cells.thy ===== *)
theory Screen_Cells
  imports Screen_Buffer
begin

text \<open>
  The operations of the screen buffer on its cells (\<open>ScreenBuffer::write_cell\<close> to
  \<open>ScreenBuffer::scroll_screen_buffer\<close> of \<open>condrv_server.cpp\<close>): single cells, runs of characters
  and attributes, rectangles of \<open>CHAR_INFO\<close> and the scroll of a rectangle. Then the step relation
  of the whole class and what every reachable buffer satisfies.
\<close>

section \<open>Single cells\<close>

definition coord_in_range :: "COORD \<Rightarrow> ScreenBuffer \<Rightarrow> bool" where
  "coord_in_range coord sb =
    (if sb_cells sb = [] then False
     else if cx (sb_buffer_size sb) \<le> 0 \<or> cy (sb_buffer_size sb) \<le> 0 then False
     else if cx coord < 0 \<or> cy coord < 0 then False
     else cx coord < cx (sb_buffer_size sb) \<and> cy coord < cy (sb_buffer_size sb))"

text \<open>Only called on coordinates in range, where the casts to \<open>size_t\<close> keep the values.\<close>

definition linear_index :: "COORD \<Rightarrow> ScreenBuffer \<Rightarrow> nat" where
  "linear_index coord sb = nat (cy coord) * nat (cx (sb_buffer_size sb)) + nat (cx coord)"

definition write_cell :: "COORD \<Rightarrow> wchar \<Rightarrow> ushort \<Rightarrow> ScreenBuffer \<Rightarrow> bool \<times> ScreenBuffer" where
  "write_cell coord character attributes sb =
    (if \<not> coord_in_range coord sb then (False, sb)
     else (True, touch (sb\<lparr>sb_cells := (sb_cells sb)[linear_index coord sb :=
            \<lparr>cell_character = character, cell_attributes = attributes\<rparr>]\<rparr>)))"

text \<open>
  \<open>std::move_backward\<close> of \<open>n\<close> elements that start at \<open>first\<close> to the place that starts at \<open>dest\<close>,
  the last element first.
\<close>

fun move_backward :: "nat \<Rightarrow> nat \<Rightarrow> nat \<Rightarrow> 'a list \<Rightarrow> 'a list" where
  "move_backward first dest 0 cells = cells"
| "move_backward first dest (Suc n) cells = move_backward first dest n (cells[dest + n := cells ! (first + n)])"

definition insert_cell :: "COORD \<Rightarrow> wchar \<Rightarrow> ushort \<Rightarrow> ScreenBuffer \<Rightarrow> bool \<times> ScreenBuffer" where
  "insert_cell coord character attributes sb =
    (if \<not> coord_in_range coord sb then (False, sb)
     else if cx (sb_buffer_size sb) \<le> 1 then write_cell coord character attributes sb
     else
       let width = nat (cx (sb_buffer_size sb)); base = nat (cy coord) * width; start = base + nat (cx coord);
           moved = move_backward start (start + 1) (base + width - 1 - start) (sb_cells sb)
       in (True, touch (sb\<lparr>sb_cells := moved[start :=
            \<lparr>cell_character = character, cell_attributes = attributes\<rparr>]\<rparr>)))"

section \<open>Runs of cells\<close>

text \<open>
  The loop of the fill and write operations: \<open>written\<close> counts up to \<open>limit\<close>, \<open>index\<close> up to the
  end of the cells, \<open>put k\<close> stores the \<open>k\<close>-th value into a cell.
\<close>

function write_loop ::
    "(nat \<Rightarrow> ScreenCell \<Rightarrow> ScreenCell) \<Rightarrow> nat \<Rightarrow> nat \<Rightarrow> nat \<Rightarrow> ScreenCell list \<Rightarrow> nat \<times> ScreenCell list" where
  "write_loop put limit index written cells =
    (if written < limit \<and> index < length cells
     then write_loop put limit (index + 1) (written + 1) (cells[index := put written (cells ! index)])
     else (written, cells))"
  by auto

termination
  by (relation "measure (\<lambda>(put, limit, index, written, cells). limit - written)") auto

declare write_loop.simps [simp del]

definition write_run :: "(nat \<Rightarrow> ScreenCell \<Rightarrow> ScreenCell) \<Rightarrow> nat \<Rightarrow> COORD \<Rightarrow> ScreenBuffer \<Rightarrow> nat \<times> ScreenBuffer" where
  "write_run put limit origin sb =
    (if \<not> coord_in_range origin sb \<or> limit = 0 then (0, sb)
     else
       let sb = touch sb; (written, cells) = write_loop put limit (linear_index origin sb) 0 (sb_cells sb)
       in (written, sb\<lparr>sb_cells := cells\<rparr>))"

definition fill_output_characters :: "COORD \<Rightarrow> wchar \<Rightarrow> nat \<Rightarrow> ScreenBuffer \<Rightarrow> nat \<times> ScreenBuffer" where
  "fill_output_characters origin value len = write_run (\<lambda>_ c. c\<lparr>cell_character := value\<rparr>) len origin"

definition fill_output_attributes :: "COORD \<Rightarrow> ushort \<Rightarrow> nat \<Rightarrow> ScreenBuffer \<Rightarrow> nat \<times> ScreenBuffer" where
  "fill_output_attributes origin value len = write_run (\<lambda>_ c. c\<lparr>cell_attributes := value\<rparr>) len origin"

definition write_output_characters :: "COORD \<Rightarrow> wstring \<Rightarrow> ScreenBuffer \<Rightarrow> nat \<times> ScreenBuffer" where
  "write_output_characters origin chars =
    write_run (\<lambda>k c. c\<lparr>cell_character := chars ! k\<rparr>) (length chars) origin"

definition write_output_attributes :: "COORD \<Rightarrow> ushort list \<Rightarrow> ScreenBuffer \<Rightarrow> nat \<times> ScreenBuffer" where
  "write_output_attributes origin attributes =
    write_run (\<lambda>k c. c\<lparr>cell_attributes := attributes ! k\<rparr>) (length attributes) origin"

definition write_output_ascii :: "COORD \<Rightarrow> byte list \<Rightarrow> ScreenBuffer \<Rightarrow> nat \<times> ScreenBuffer" where
  "write_output_ascii origin bytes =
    write_run (\<lambda>k c. c\<lparr>cell_character := ucast (bytes ! k)\<rparr>) (length bytes) origin"

text \<open>The loop of the read operations, which overwrites a prefix of the caller's buffer.\<close>

function read_loop :: "(ScreenCell \<Rightarrow> 'v) \<Rightarrow> ScreenCell list \<Rightarrow> nat \<Rightarrow> nat \<Rightarrow> 'v list \<Rightarrow> nat \<times> 'v list" where
  "read_loop get cells index n_read dest =
    (if n_read < length dest \<and> index < length cells
     then read_loop get cells (index + 1) (n_read + 1) (dest[n_read := get (cells ! index)])
     else (n_read, dest))"
  by auto

termination
  by (relation "measure (\<lambda>(get, cells, index, n_read, dest). length dest - n_read)") auto

declare read_loop.simps [simp del]

definition read_run :: "(ScreenCell \<Rightarrow> 'v) \<Rightarrow> COORD \<Rightarrow> 'v list \<Rightarrow> ScreenBuffer \<Rightarrow> nat \<times> 'v list" where
  "read_run get origin dest sb =
    (if \<not> coord_in_range origin sb \<or> dest = [] then (0, dest)
     else read_loop get (sb_cells sb) (linear_index origin sb) 0 dest)"

definition narrow_character :: "wchar \<Rightarrow> byte" where
  "narrow_character value = (if value \<le> 0xFF then ucast value else 0x3F)"

definition read_output_characters :: "COORD \<Rightarrow> wstring \<Rightarrow> ScreenBuffer \<Rightarrow> nat \<times> wstring" where
  "read_output_characters = read_run cell_character"

definition read_output_attributes :: "COORD \<Rightarrow> ushort list \<Rightarrow> ScreenBuffer \<Rightarrow> nat \<times> ushort list" where
  "read_output_attributes = read_run cell_attributes"

definition read_output_ascii :: "COORD \<Rightarrow> byte list \<Rightarrow> ScreenBuffer \<Rightarrow> nat \<times> byte list" where
  "read_output_ascii = read_run (\<lambda>c. narrow_character (cell_character c))"

section \<open>Rectangles\<close>

text \<open>
  \<open>CHAR_INFO\<close> has a union of a \<open>WCHAR\<close> and a \<open>CHAR\<close>; the narrow member is the low byte of the
  wide one.
\<close>

record CHAR_INFO =
  ci_unicode_char :: wchar
  ci_attributes :: ushort

text \<open>
  The order of the nested loops over an inclusive rectangle. A \<open>SHORT\<close> loop variable cannot wrap:
  the rectangles are checked to lie in the buffer, whose extents are at most 32767.
\<close>

definition rect_coords :: "SMALL_RECT \<Rightarrow> COORD list" where
  "rect_coords r = concat (map (\<lambda>y. map (\<lambda>x. \<lparr>cx = x, cy = y\<rparr>) [r_left r..r_right r]) [r_top r..r_bottom r])"

definition rect_top_left :: "SMALL_RECT \<Rightarrow> COORD" where
  "rect_top_left r = \<lparr>cx = r_left r, cy = r_top r\<rparr>"

definition rect_bottom_right :: "SMALL_RECT \<Rightarrow> COORD" where
  "rect_bottom_right r = \<lparr>cx = r_right r, cy = r_bottom r\<rparr>"

definition rect_width :: "SMALL_RECT \<Rightarrow> int" where
  "rect_width r = r_right r - r_left r + 1"

definition rect_height :: "SMALL_RECT \<Rightarrow> int" where
  "rect_height r = r_bottom r - r_top r + 1"

fun write_rect_loop :: "(COORD \<Rightarrow> nat) \<Rightarrow> bool \<Rightarrow> CHAR_INFO list \<Rightarrow> nat \<Rightarrow> COORD list \<Rightarrow> ScreenCell list \<Rightarrow> ScreenCell list" where
  "write_rect_loop at unicode records index [] cells = cells"
| "write_rect_loop at unicode records index (c # cs) cells =
    (let info = records ! index;
         value = (if unicode then ci_unicode_char info else ucast (ucast (ci_unicode_char info) :: byte))
     in write_rect_loop at unicode records (index + 1) cs
          (cells[at c := \<lparr>cell_character = value, cell_attributes = ci_attributes info\<rparr>]))"

definition write_output_char_info_rect ::
    "SMALL_RECT \<Rightarrow> CHAR_INFO list \<Rightarrow> bool \<Rightarrow> ScreenBuffer \<Rightarrow> nat \<times> ScreenBuffer" where
  "write_output_char_info_rect region records unicode sb =
    (if sb_cells sb = [] then (0, sb)
     else if r_left region > r_right region \<or> r_top region > r_bottom region then (0, sb)
     else if \<not> coord_in_range (rect_top_left region) sb \<or> \<not> coord_in_range (rect_bottom_right region) sb then (0, sb)
     else if rect_width region \<le> 0 \<or> rect_height region \<le> 0 then (0, sb)
     else
       let needed = nat (rect_width region) * nat (rect_height region)
       in if length records < needed then (0, sb)
          else
            let sb = touch sb
            in (needed, sb\<lparr>sb_cells := write_rect_loop (\<lambda>c. linear_index c sb) unicode records 0
                  (rect_coords region) (sb_cells sb)\<rparr>))"

fun read_rect_loop :: "(COORD \<Rightarrow> nat) \<Rightarrow> bool \<Rightarrow> ScreenCell list \<Rightarrow> nat \<Rightarrow> COORD list \<Rightarrow> CHAR_INFO list \<Rightarrow> CHAR_INFO list" where
  "read_rect_loop at unicode cells index [] records = records"
| "read_rect_loop at unicode cells index (c # cs) records =
    (let cell = cells ! at c;
         info = \<lparr>ci_unicode_char = (if unicode then cell_character cell else ucast (narrow_character (cell_character cell))),
                 ci_attributes = cell_attributes cell\<rparr>
     in read_rect_loop at unicode cells (index + 1) cs (records[index := info]))"

definition read_output_char_info_rect ::
    "SMALL_RECT \<Rightarrow> CHAR_INFO list \<Rightarrow> bool \<Rightarrow> ScreenBuffer \<Rightarrow> nat \<times> CHAR_INFO list" where
  "read_output_char_info_rect region records unicode sb =
    (if sb_cells sb = [] then (0, records)
     else if r_left region > r_right region \<or> r_top region > r_bottom region then (0, records)
     else if \<not> coord_in_range (rect_top_left region) sb \<or> \<not> coord_in_range (rect_bottom_right region) sb then (0, records)
     else if rect_width region \<le> 0 \<or> rect_height region \<le> 0 then (0, records)
     else
       let needed = nat (rect_width region) * nat (rect_height region)
       in if length records < needed then (0, records)
          else (needed, read_rect_loop (\<lambda>c. linear_index c sb) unicode (sb_cells sb) 0 (rect_coords region) records))"

section \<open>Scrolling\<close>

definition rect_contains :: "SMALL_RECT \<Rightarrow> COORD \<Rightarrow> bool" where
  "rect_contains clip c \<longleftrightarrow> cx c \<ge> r_left clip \<and> cx c \<le> r_right clip \<and> cy c \<ge> r_top clip \<and> cy c \<le> r_bottom clip"

text \<open>The first pass saves the rectangle and fills the clipped part of it.\<close>

fun save_loop ::
    "(COORD \<Rightarrow> nat) \<Rightarrow> (COORD \<Rightarrow> bool) \<Rightarrow> ScreenCell \<Rightarrow> nat \<Rightarrow> COORD list
      \<Rightarrow> ScreenCell list \<Rightarrow> ScreenCell list \<Rightarrow> ScreenCell list \<times> ScreenCell list" where
  "save_loop at clip fill index [] saved cells = (saved, cells)"
| "save_loop at clip fill index (c # cs) saved cells =
    save_loop at clip fill (index + 1) cs (saved[index := cells ! at c])
      (if clip c then cells[at c := fill] else cells)"

text \<open>The second pass places the saved cells at their destination, where the clip admits it.\<close>

fun place_loop ::
    "(COORD \<Rightarrow> nat) \<Rightarrow> (COORD \<Rightarrow> bool) \<Rightarrow> (COORD \<Rightarrow> bool) \<Rightarrow> (COORD \<Rightarrow> COORD) \<Rightarrow> nat \<Rightarrow> COORD list
      \<Rightarrow> ScreenCell list \<Rightarrow> ScreenCell list \<Rightarrow> ScreenCell list" where
  "place_loop at inside clip dest index [] saved cells = cells"
| "place_loop at inside clip dest index (c # cs) saved cells =
    (if \<not> inside (dest c) then place_loop at inside clip dest (index + 1) cs saved cells
     else if \<not> clip \<lparr>cx = to_short (cx (dest c)), cy = to_short (cy (dest c))\<rparr>
     then place_loop at inside clip dest (index + 1) cs saved cells
     else place_loop at inside clip dest (index + 1) cs saved
            (cells[at \<lparr>cx = to_short (cx (dest c)), cy = to_short (cy (dest c))\<rparr> := saved ! index]))"

text \<open>The revision counts up before the allocation of the saved cells may fail.\<close>

definition scroll_screen_buffer ::
    "bool \<Rightarrow> SMALL_RECT \<Rightarrow> SMALL_RECT \<Rightarrow> COORD \<Rightarrow> wchar \<Rightarrow> ushort \<Rightarrow> ScreenBuffer \<Rightarrow> bool \<times> ScreenBuffer" where
  "scroll_screen_buffer mem_ok scroll clip destination fill_character fill_attributes sb =
    (if sb_cells sb = [] then (False, sb)
     else if r_left scroll > r_right scroll \<or> r_top scroll > r_bottom scroll then (True, sb)
     else if \<not> coord_in_range (rect_top_left scroll) sb \<or> \<not> coord_in_range (rect_bottom_right scroll) sb then (True, sb)
     else if rect_width scroll \<le> 0 \<or> rect_height scroll \<le> 0 then (True, sb)
     else
       let sb = touch sb; at = (\<lambda>c. linear_index c sb);
           cell_count = nat (rect_width scroll) * nat (rect_height scroll)
       in if \<not> mem_ok then (False, sb)
          else
            let fill = \<lparr>cell_character = fill_character, cell_attributes = fill_attributes\<rparr>;
                (saved, cells) = save_loop at (rect_contains clip) fill 0 (rect_coords scroll)
                  (replicate cell_count \<lparr>cell_character = 0x20, cell_attributes = 0x07\<rparr>) (sb_cells sb);
                delta_x = cx destination - r_left scroll; delta_y = cy destination - r_top scroll;
                max_x = cx (sb_buffer_size sb) - 1; max_y = cy (sb_buffer_size sb) - 1;
                inside = (\<lambda>d. \<not> (cx d < 0 \<or> cy d < 0 \<or> cx d > max_x \<or> cy d > max_y));
                dest = (\<lambda>c. \<lparr>cx = cx c + delta_x, cy = cy c + delta_y\<rparr>)
            in (True, sb\<lparr>sb_cells := place_loop at inside (rect_contains clip) dest 0 (rect_coords scroll) saved cells\<rparr>))"

section \<open>The loops\<close>

lemma coord_eqI: "cx c = cx d \<Longrightarrow> cy c = cy d \<Longrightarrow> c = (d :: COORD)"
  by (cases c, cases d) simp

lemma length_move_backward [simp]: "length (move_backward a b n cells) = length cells"
  by (induction n arbitrary: cells) simp_all

lemma move_backward_nth:
  "a \<le> b \<Longrightarrow> b + n \<le> length cells \<Longrightarrow> i < length cells \<Longrightarrow>
    move_backward a b n cells ! i = (if b \<le> i \<and> i < b + n then cells ! (a + (i - b)) else cells ! i)"
proof (induction n arbitrary: cells)
  case (Suc n)
  then show ?case by (cases "i = b + n") auto
qed auto

lemma write_loop_spec:
  "write_loop put limit index written cells = (n, cells') \<Longrightarrow>
    n = written + min (limit - written) (length cells - index) \<and> length cells' = length cells
    \<and> (\<forall>i < length cells. cells' ! i =
        (if index \<le> i \<and> i - index < limit - written then put (written + (i - index)) (cells ! i) else cells ! i))"
proof (induction put limit index written cells rule: write_loop.induct)
  case (1 put limit index written cells)
  show ?case
  proof (cases "written < limit \<and> index < length cells")
    case True
    let ?c = "cells[index := put written (cells ! index)]"
    have eq: "write_loop put limit (index + 1) (written + 1) ?c = (n, cells')"
      using "1.prems" True by (simp add: write_loop.simps [of put limit index])
    have "cells' ! i = (if index \<le> i \<and> i - index < limit - written then put (written + (i - index)) (cells ! i) else cells ! i)"
      if "i < length cells" for i
    proof (cases "i = index")
      case False
      with that 1(1) [OF True eq] show ?thesis by (auto simp: Suc_diff_Suc)
    qed (use that True 1(1) [OF True eq] in auto)
    with 1(1) [OF True eq] True show ?thesis by auto
  next
    case False
    with "1.prems" show ?thesis by (auto simp: write_loop.simps [of put limit index])
  qed
qed

lemma read_loop_spec:
  "read_loop get cells index k dest = (n, dest') \<Longrightarrow> k \<le> length dest \<Longrightarrow>
    n = k + min (length dest - k) (length cells - index)
    \<and> dest' = take k dest @ map get (take (length dest - k) (drop index cells)) @ drop n dest"
proof (induction get cells index k dest rule: read_loop.induct)
  case (1 get cells index k dest)
  show ?case
  proof (cases "k < length dest \<and> index < length cells")
    case True
    let ?d = "dest[k := get (cells ! index)]"
    have "read_loop get cells (index + 1) (k + 1) ?d = (n, dest')"
      using "1.prems"(1) True by (simp add: read_loop.simps [of get cells index])
    then have ih: "n = k + 1 + min (length dest - (k + 1)) (length cells - (index + 1))"
      "dest' = take (k + 1) ?d @ map get (take (length dest - (k + 1)) (drop (index + 1) cells)) @ drop n ?d"
      using 1(1) [OF True] True by auto
    have "take (k + 1) ?d = take k dest @ [get (cells ! index)]" using True by (simp add: take_Suc_conv_app_nth)
    moreover have "drop n ?d = drop n dest" using ih(1) by simp
    moreover have "take (length dest - k) (drop index cells) = cells ! index # take (length dest - (k + 1)) (drop (index + 1) cells)"
      using True by (simp add: Cons_nth_drop_Suc [symmetric] Suc_diff_Suc [symmetric])
    ultimately show ?thesis using ih True by auto
  next
    case False
    with "1.prems" show ?thesis by (auto simp: read_loop.simps [of get cells index])
  qed
qed

lemma length_write_rect_loop [simp]: "length (write_rect_loop at u rs i cs cells) = length cells"
  by (induction cs arbitrary: i cells) (auto simp: Let_def)

lemma length_read_rect_loop [simp]: "length (read_rect_loop at u cells i cs rs) = length rs"
  by (induction cs arbitrary: i rs) (auto simp: Let_def)

lemma length_save_loop [simp]:
  "length (fst (save_loop at clip fill i cs saved cells)) = length saved"
  "length (snd (save_loop at clip fill i cs saved cells)) = length cells"
  by (induction cs arbitrary: i saved cells) auto

lemma length_place_loop [simp]: "length (place_loop at inside clip dest i cs saved cells) = length cells"
  by (induction cs arbitrary: i cells) auto

lemma set_rect_coords: "c \<in> set (rect_coords r) \<longleftrightarrow> rect_contains r c"
proof -
  obtain x y where "c = \<lparr>cx = x, cy = y\<rparr>" by (cases c)
  then show ?thesis by (auto simp: rect_coords_def rect_contains_def image_iff)
qed

lemma distinct_rect_coords: "distinct (rect_coords r)"
proof (cases "r_left r \<le> r_right r")
  case True
  then show ?thesis
    unfolding rect_coords_def by (intro distinct_concat) (auto simp: distinct_map inj_on_def)
next
  case False
  then have "rect_coords r = []" by (simp add: rect_coords_def)
  then show ?thesis by simp
qed

lemma length_rect_coords:
  "length (rect_coords r) = nat (rect_height r) * nat (rect_width r)"
  by (simp add: rect_coords_def length_concat comp_def sum_list_triv rect_width_def rect_height_def algebra_simps)

text \<open>
  What the loops over rectangles need of the addresses: distinct valid coordinates have distinct
  cells. Then each of the loops writes exactly the cells of its rectangle, once.
\<close>

definition info_cell :: "bool \<Rightarrow> CHAR_INFO \<Rightarrow> ScreenCell" where
  "info_cell unicode info =
    \<lparr>cell_character = (if unicode then ci_unicode_char info else ucast (ucast (ci_unicode_char info) :: byte)),
     cell_attributes = ci_attributes info\<rparr>"

locale addressing =
  fixes at :: "COORD \<Rightarrow> nat" and valid :: "COORD \<Rightarrow> bool"
  assumes at_inj: "valid c \<Longrightarrow> valid d \<Longrightarrow> at c = at d \<longleftrightarrow> c = d"
begin

lemma write_rect_other:
  "\<forall>c \<in> set cs. valid c \<Longrightarrow> valid d \<Longrightarrow> d \<notin> set cs \<Longrightarrow>
    write_rect_loop at u rs i cs cells ! at d = cells ! at d"
  by (induction cs arbitrary: i cells) (auto simp: Let_def at_inj)

lemma write_rect_nth:
  "\<forall>c \<in> set cs. valid c \<and> at c < length cells \<Longrightarrow> distinct cs \<Longrightarrow> k < length cs \<Longrightarrow>
    write_rect_loop at u rs i cs cells ! at (cs ! k) = info_cell u (rs ! (i + k))"
proof (induction cs arbitrary: i cells k)
  case (Cons c cs)
  let ?cells = "cells[at c := info_cell u (rs ! i)]"
  have eq: "write_rect_loop at u rs i (c # cs) cells = write_rect_loop at u rs (i + 1) cs ?cells"
    by (simp add: Let_def info_cell_def)
  show ?case
  proof (cases k)
    case 0
    have "write_rect_loop at u rs (i + 1) cs ?cells ! at c = ?cells ! at c"
      using Cons.prems by (intro write_rect_other) auto
    with 0 Cons.prems show ?thesis by (simp add: eq del: write_rect_loop.simps)
  next
    case (Suc k')
    have "write_rect_loop at u rs (i + 1) cs ?cells ! at (cs ! k') = info_cell u (rs ! (i + 1 + k'))"
      using Cons.prems Suc by (intro Cons.IH) auto
    with Suc show ?thesis by (simp add: eq del: write_rect_loop.simps)
  qed
qed simp

lemma save_loop_cells:
  "\<forall>c \<in> set cs. valid c \<Longrightarrow> valid d \<Longrightarrow> at d < length cells \<Longrightarrow>
    snd (save_loop at clip fill i cs saved cells) ! at d = (if d \<in> set cs \<and> clip d then fill else cells ! at d)"
proof (induction cs arbitrary: i saved cells)
  case (Cons c cs)
  then show ?case by (cases "c = d") (simp_all add: at_inj)
qed simp

lemma save_loop_before: "j < i \<Longrightarrow> fst (save_loop at clip fill i cs saved cells) ! j = saved ! j"
  by (induction cs arbitrary: i saved cells) auto

lemma save_loop_saved:
  "\<forall>c \<in> set cs. valid c \<Longrightarrow> distinct cs \<Longrightarrow> i + length cs \<le> length saved \<Longrightarrow> k < length cs \<Longrightarrow>
    fst (save_loop at clip fill i cs saved cells) ! (i + k) = cells ! at (cs ! k)"
proof (induction cs arbitrary: i saved cells k)
  case (Cons c cs)
  let ?saved = "saved[i := cells ! at c]" and ?cells = "if clip c then cells[at c := fill] else cells"
  show ?case
  proof (cases k)
    case 0
    with Cons.prems show ?thesis by (simp add: save_loop_before)
  next
    case (Suc k')
    have "fst (save_loop at clip fill (i + 1) cs ?saved ?cells) ! (i + 1 + k') = ?cells ! at (cs ! k')"
      using Cons.prems Suc by (intro Cons.IH) auto
    also have "\<dots> = cells ! at (cs ! k')"
    proof -
      have "cs ! k' \<in> set cs" using Cons.prems(4) Suc by simp
      then have "at c \<noteq> at (cs ! k')" using Cons.prems(1,2) at_inj [of c "cs ! k'"] by auto
      then show ?thesis by simp
    qed
    finally show ?thesis using Suc by simp
  qed
qed simp

end

text \<open>
  The addresses of the second pass of the scroll: the destinations inside the buffer are valid
  and are not changed by the cast to \<open>SHORT\<close>.
\<close>

locale placing = addressing +
  fixes inside :: "COORD \<Rightarrow> bool"
  assumes inside_valid: "inside c \<Longrightarrow> valid c"
    and inside_short: "inside c \<Longrightarrow> \<lparr>cx = to_short (cx c), cy = to_short (cy c)\<rparr> = c"
begin

lemma place_loop_other:
  "valid d \<Longrightarrow> \<forall>c \<in> set cs. dest c = d \<longrightarrow> \<not> (inside d \<and> clip d) \<Longrightarrow>
    place_loop at inside clip dest i cs saved cells ! at d = cells ! at d"
proof (induction cs arbitrary: i cells)
  case (Cons c cs)
  have "inside (dest c) \<Longrightarrow> clip (dest c) \<Longrightarrow> at (dest c) \<noteq> at d"
    using Cons.prems at_inj [of "dest c" d] inside_valid by auto
  with Cons show ?case by (simp add: inside_short)
qed simp

lemma place_loop_hit:
  "inj dest \<Longrightarrow> distinct cs \<Longrightarrow> k < length cs \<Longrightarrow> dest (cs ! k) = d \<Longrightarrow> inside d \<Longrightarrow> clip d \<Longrightarrow> at d < length cells \<Longrightarrow>
    place_loop at inside clip dest i cs saved cells ! at d = saved ! (i + k)"
proof (induction cs arbitrary: i cells k)
  case (Cons c cs)
  show ?case
  proof (cases k)
    case 0
    have "\<forall>c' \<in> set cs. dest c' \<noteq> d"
      using Cons.prems(1,2,4) 0 by (auto dest: injD)
    then have "place_loop at inside clip dest (i + 1) cs saved (cells[at d := saved ! i]) ! at d = saved ! i"
      using Cons.prems inside_valid by (subst place_loop_other) auto
    with 0 Cons.prems show ?thesis by (simp add: inside_short)
  next
    case (Suc k')
    have "place_loop at inside clip dest (i + 1) cs saved cs' ! at d = saved ! (i + 1 + k')"
      if "length cs' = length cells" for cs'
      using Cons.prems Suc that by (intro Cons.IH) auto
    with Suc show ?thesis by simp
  qed
qed simp

end

lemma linear_index_inj:
  "coord_in_range c sb \<Longrightarrow> coord_in_range d sb \<Longrightarrow> linear_index c sb = linear_index d sb \<longleftrightarrow> c = d"
proof
  assume "coord_in_range c sb" "coord_in_range d sb" and eq: "linear_index c sb = linear_index d sb"
  then have "nat (cx c) < nat (cx (sb_buffer_size sb))" "nat (cx d) < nat (cx (sb_buffer_size sb))"
    and pos: "0 \<le> cx c" "0 \<le> cx d" "0 \<le> cy c" "0 \<le> cy d"
    by (auto simp: coord_in_range_def split: if_splits)
  then have "nat (cy c) = nat (cy d) \<and> nat (cx c) = nat (cx d)"
    using eq grid_index_inj by (simp add: linear_index_def)
  with pos show "c = d" by (cases c, cases d) (simp add: eq_nat_nat_iff)
qed simp

interpretation rm: addressing "\<lambda>c. linear_index c sb" "\<lambda>c. coord_in_range c sb" for sb
  by unfold_locales (rule linear_index_inj)

text \<open>The destinations the second pass admits.\<close>

definition in_buffer :: "ScreenBuffer \<Rightarrow> COORD \<Rightarrow> bool" where
  "in_buffer sb c \<longleftrightarrow> sb_ok sb \<and> \<not> (cx c < 0 \<or> cy c < 0 \<or> cx c > cx (sb_buffer_size sb) - 1 \<or> cy c > cy (sb_buffer_size sb) - 1)"

lemma coord_in_range_iff:
  "sb_ok sb \<Longrightarrow> coord_in_range c sb \<longleftrightarrow> 0 \<le> cx c \<and> cx c < cx (sb_buffer_size sb) \<and> 0 \<le> cy c \<and> cy c < cy (sb_buffer_size sb)"
  by (auto simp: coord_in_range_def sb_ok_def cells_ok_def)

lemma linear_index_less: "sb_ok sb \<Longrightarrow> coord_in_range c sb \<Longrightarrow> linear_index c sb < length (sb_cells sb)"
  by (simp add: coord_in_range_iff linear_index_def sb_ok_def cells_ok_def grid_index_less)

interpretation rm: placing "\<lambda>c. linear_index c sb" "\<lambda>c. coord_in_range c sb" "in_buffer sb" for sb
proof
  fix c
  assume "in_buffer sb c"
  then have "sb_ok sb" "0 \<le> cx c" "cx c < cx (sb_buffer_size sb)" "0 \<le> cy c" "cy c < cy (sb_buffer_size sb)"
    by (auto simp: in_buffer_def)
  moreover from \<open>sb_ok sb\<close> have "cx (sb_buffer_size sb) \<le> 32767" "cy (sb_buffer_size sb) \<le> 32767"
    by (auto simp: sb_ok_def size_ok_def)
  ultimately show "coord_in_range c sb" "\<lparr>cx = to_short (cx c), cy = to_short (cy c)\<rparr> = c"
    by (auto simp: coord_in_range_iff to_short_id)
qed

section \<open>The cell operations change cells only\<close>

definition cells_only :: "ScreenBuffer \<Rightarrow> ScreenBuffer \<Rightarrow> bool" where
  "cells_only sb sb' \<longleftrightarrow>
    (\<exists>cs rv. sb' = sb\<lparr>sb_cells := cs, sb_revision := rv\<rparr> \<and> length cs = length (sb_cells sb))"

lemma cells_onlyI: "sb' = sb\<lparr>sb_cells := cs, sb_revision := rv\<rparr> \<Longrightarrow> length cs = length (sb_cells sb) \<Longrightarrow> cells_only sb sb'"
  by (auto simp: cells_only_def)

lemma cells_only_frame:
  assumes "cells_only sb sb'"
  shows "sb_buffer_size sb' = sb_buffer_size sb" "sb_cursor_position sb' = sb_cursor_position sb"
    "sb_vt_main_backup sb' = sb_vt_main_backup sb" "sb_window_rect sb' = sb_window_rect sb"
    "sb_vt_vertical_margins sb' = sb_vt_vertical_margins sb" "length (sb_cells sb') = length (sb_cells sb)"
    "sb_vt_output_parse_state sb' = sb_vt_output_parse_state sb"
  using assms by (auto simp: cells_only_def)

lemma cells_only_refl [simp]: "cells_only sb sb"
  by (rule cells_onlyI [where cs = "sb_cells sb" and rv = "sb_revision sb"]) simp_all

lemma cells_only_trans: "cells_only a b \<Longrightarrow> cells_only b c \<Longrightarrow> cells_only a c"
  unfolding cells_only_def by fastforce

lemma cells_only_touch [simp]: "cells_only sb (touch sb)"
  by (rule cells_onlyI [where cs = "sb_cells sb" and rv = "sb_revision sb + 1"]) (simp_all add: touch_def)

lemma cells_only_update: "length cs = length (sb_cells sb) \<Longrightarrow> cells_only sb (sb\<lparr>sb_cells := cs\<rparr>)"
  by (rule cells_onlyI [where cs = cs and rv = "sb_revision sb"]) simp_all

lemma cells_only_touch_update:
  assumes "length cs = length (sb_cells sb)"
  shows "cells_only sb (touch (sb\<lparr>sb_cells := cs\<rparr>))" "cells_only sb ((touch sb)\<lparr>sb_cells := cs\<rparr>)"
  using assms by (auto intro!: cells_onlyI [where cs = cs and rv = "sb_revision sb + 1"] simp: touch_def)

lemma sb_ok_cells_only: "sb_ok sb \<Longrightarrow> cells_only sb sb' \<Longrightarrow> sb_ok sb'"
  using cells_only_frame [of sb sb'] by (simp add: sb_ok_def cells_ok_def)

lemma cells_only_write_cell [simp]: "cells_only sb (snd (write_cell c ch a sb))"
  by (simp add: write_cell_def cells_only_touch_update)

lemma cells_only_insert_cell [simp]: "cells_only sb (snd (insert_cell c ch a sb))"
  by (simp add: insert_cell_def Let_def cells_only_touch_update)

lemma cells_only_write_run [simp]: "cells_only sb (snd (write_run put limit origin sb))"
proof -
  obtain n cs where w: "write_loop put limit (linear_index origin (touch sb)) 0 (sb_cells sb) = (n, cs)"
    by (rule prod.exhaust)
  with write_loop_spec [OF w] show ?thesis by (simp add: write_run_def Let_def cells_only_touch_update)
qed

lemma cells_only_write_rect [simp]: "cells_only sb (snd (write_output_char_info_rect r rs u sb))"
  by (simp add: write_output_char_info_rect_def Let_def cells_only_touch_update)

lemma cells_only_scroll [simp]: "cells_only sb (snd (scroll_screen_buffer m r clip d c a sb))"
  using length_save_loop(2)
  by (auto simp: scroll_screen_buffer_def Let_def case_prod_beta intro!: cells_only_touch_update)

lemma cells_only_run_ops [simp]:
  "cells_only sb (snd (fill_output_characters p v n sb))" "cells_only sb (snd (fill_output_attributes p a n sb))"
  "cells_only sb (snd (write_output_characters p cs sb))" "cells_only sb (snd (write_output_attributes p as sb))"
  "cells_only sb (snd (write_output_ascii p bs sb))"
  by (simp_all add: fill_output_characters_def fill_output_attributes_def write_output_characters_def
      write_output_attributes_def write_output_ascii_def)

lemmas sb_ok_cell_ops =
  cells_only_write_cell [THEN sb_ok_cells_only [rotated]] cells_only_insert_cell [THEN sb_ok_cells_only [rotated]]
  cells_only_write_rect [THEN sb_ok_cells_only [rotated]] cells_only_scroll [THEN sb_ok_cells_only [rotated]]
  cells_only_run_ops [THEN sb_ok_cells_only [rotated]]

lemmas cell_ops_frame =
  cells_only_write_cell [THEN cells_only_frame(1)] cells_only_write_cell [THEN cells_only_frame(3)]
  cells_only_insert_cell [THEN cells_only_frame(1)] cells_only_insert_cell [THEN cells_only_frame(3)]
  cells_only_write_rect [THEN cells_only_frame(1)] cells_only_write_rect [THEN cells_only_frame(3)]
  cells_only_scroll [THEN cells_only_frame(1)] cells_only_scroll [THEN cells_only_frame(3)]
  cells_only_run_ops [THEN cells_only_frame(1)] cells_only_run_ops [THEN cells_only_frame(3)]

section \<open>Properties of the cell operations\<close>

lemma cell_at_linear: "cell_at sb x y = sb_cells sb ! linear_index \<lparr>cx = x, cy = y\<rparr> sb"
  by (simp add: cell_at_def linear_index_def)

lemma linear_index_cells_only: "cells_only sb sb' \<Longrightarrow> linear_index c sb' = linear_index c sb"
  by (simp add: linear_index_def cells_only_frame)

lemma coord_in_range_cells_only: "cells_only sb sb' \<Longrightarrow> coord_in_range c sb' = coord_in_range c sb"
proof -
  assume "cells_only sb sb'"
  then have "sb_buffer_size sb' = sb_buffer_size sb" "(sb_cells sb' = []) = (sb_cells sb = [])"
    using cells_only_frame [of sb sb'] by (simp, metis length_0_conv)
  then show ?thesis by (simp add: coord_in_range_def)
qed

text \<open>A rectangle whose two corners lie in the buffer lies in it.\<close>

lemma rect_in_range:
  assumes "coord_in_range (rect_top_left r) sb" and "coord_in_range (rect_bottom_right r) sb" and "rect_contains r c"
  shows "coord_in_range c sb"
  using assms by (auto simp: coord_in_range_def rect_top_left_def rect_bottom_right_def rect_contains_def split: if_splits)

lemma scroll_block:
  assumes "sb_ok sb" and "coord_in_range (rect_top_left r) sb" and "coord_in_range (rect_bottom_right r) sb"
    and "r_left r \<le> r_right r" and "r_top r \<le> r_bottom r" and "coord_in_range \<lparr>cx = x, cy = y\<rparr> sb"
    and src: "src = \<lparr>cx = x - (cx d - r_left r), cy = y - (cy d - r_top r)\<rparr>"
  shows "cell_at (snd (scroll_screen_buffer True r clip d ch a sb)) x y =
    (if rect_contains clip \<lparr>cx = x, cy = y\<rparr> \<and> rect_contains r src then cell_at sb (cx src) (cy src)
     else if rect_contains clip \<lparr>cx = x, cy = y\<rparr> \<and> rect_contains r \<lparr>cx = x, cy = y\<rparr>
     then \<lparr>cell_character = ch, cell_attributes = a\<rparr>
     else cell_at sb x y)"
proof -
  let ?p = "\<lparr>cx = x, cy = y\<rparr>" and ?at = "\<lambda>c. linear_index c sb" and ?cs = "rect_coords r" and ?clip = "rect_contains clip"
  let ?fill = "\<lparr>cell_character = ch, cell_attributes = a\<rparr>"
  let ?dest = "\<lambda>c :: COORD. \<lparr>cx = cx c + (cx d - r_left r), cy = cy c + (cy d - r_top r)\<rparr>"
  define blank where "blank = replicate (nat (rect_width r) * nat (rect_height r)) \<lparr>cell_character = 0x20, cell_attributes = 0x07 :: ushort\<rparr>"
  obtain saved cells where sv: "save_loop ?at ?clip ?fill 0 ?cs blank (sb_cells sb) = (saved, cells)"
    by (rule prod.exhaust)
  have cs: "\<forall>c \<in> set ?cs. coord_in_range c sb" using assms(2,3) by (auto simp: set_rect_coords intro: rect_in_range)
  have lt: "?at ?p < length (sb_cells sb)" using assms(1,6) by (rule linear_index_less)
  have cells: "cells ! ?at ?p = (if rect_contains r ?p \<and> ?clip ?p then ?fill else cell_at sb x y)"
    and len: "length cells = length (sb_cells sb)"
    using rm.save_loop_cells [OF cs assms(6) lt, of ?clip ?fill 0 blank] length_save_loop(2) [of ?at ?clip ?fill 0 ?cs blank "sb_cells sb"]
    by (simp_all add: sv set_rect_coords cell_at_linear)
  have blank_len: "length ?cs \<le> length blank" by (simp add: blank_def length_rect_coords mult.commute)
  have saved: "saved ! k = sb_cells sb ! ?at (?cs ! k)" if "k < length ?cs" for k
    using rm.save_loop_saved [OF cs distinct_rect_coords, of 0 blank k ?clip ?fill "sb_cells sb"] that blank_len
    by (simp add: sv)
  have inside: "(\<lambda>e. \<not> (cx e < 0 \<or> cy e < 0 \<or> cx e > cx (sb_buffer_size sb) - 1 \<or> cy e > cy (sb_buffer_size sb) - 1)) = in_buffer sb"
    using assms(1) by (simp add: in_buffer_def fun_eq_iff)
  have "sb_cells sb \<noteq> []" using lt by auto
  then have eq: "cell_at (snd (scroll_screen_buffer True r clip d ch a sb)) x y =
      place_loop ?at (in_buffer sb) ?clip ?dest 0 ?cs saved cells ! ?at ?p"
    using assms(2-5) sv inside
    by (simp add: scroll_screen_buffer_def Let_def cell_at_linear rect_width_def rect_height_def linear_index_def blank_def)
  have dest: "?dest c = ?p \<longleftrightarrow> c = src" for c by (cases c) (auto simp: src)
  have inj: "inj ?dest"
    by (rule injI) (auto intro: coord_eqI)
  have inb: "in_buffer sb ?p" using assms(1,6) by (simp add: in_buffer_def coord_in_range_iff)
  show ?thesis
  proof (cases "?clip ?p \<and> rect_contains r src")
    case True
    then obtain k where k: "k < length ?cs" "?cs ! k = src" by (metis set_rect_coords in_set_conv_nth)
    have "?dest (?cs ! k) = ?p" by (simp add: k(2) src)
    then have "place_loop ?at (in_buffer sb) ?clip ?dest 0 ?cs saved cells ! ?at ?p = sb_cells sb ! ?at src"
      using rm.place_loop_hit [OF inj distinct_rect_coords k(1), of ?p sb ?clip cells 0 saved] saved [of k] True inb lt len k
      by simp
    moreover have "cell_at sb (cx src) (cy src) = sb_cells sb ! ?at src" by (simp add: cell_at_def linear_index_def)
    ultimately show ?thesis using True by (simp add: eq)
  next
    case False
    then have "place_loop ?at (in_buffer sb) ?clip ?dest 0 ?cs saved cells ! ?at ?p = cells ! ?at ?p"
      using assms(6) dest False by (intro rm.place_loop_other) (metis set_rect_coords)+
    with False show ?thesis by (auto simp: eq cells)
  qed
qed

text \<open>
  The scroll of a rectangle of a well-formed buffer is a simultaneous block move: every cell
  of the buffer afterwards holds what the rectangle held at the corresponding source position,
  when that source position exists and the clip rectangle admits the cell; otherwise the fill,
  when the cell belongs to the scrolled rectangle and the clip rectangle; otherwise what it held
  before. Overlap of source and destination does not matter.
\<close>

theorem scroll_moves_block:
  assumes "sb_ok sb" and "coord_in_range (rect_top_left r) sb" and "coord_in_range (rect_bottom_right r) sb"
    and "r_left r \<le> r_right r" and "r_top r \<le> r_bottom r" and "coord_in_range \<lparr>cx = x, cy = y\<rparr> sb"
    and "src = \<lparr>cx = x - (cx d - r_left r), cy = y - (cy d - r_top r)\<rparr>"
  shows "cell_at (snd (scroll_screen_buffer True r clip d ch a sb)) x y =
    (if rect_contains clip \<lparr>cx = x, cy = y\<rparr> \<and> rect_contains r src then cell_at sb (cx src) (cy src)
     else if rect_contains clip \<lparr>cx = x, cy = y\<rparr> \<and> rect_contains r \<lparr>cx = x, cy = y\<rparr>
     then \<lparr>cell_character = ch, cell_attributes = a\<rparr>
     else cell_at sb x y)"
  using assms by (rule scroll_block)

text \<open>A small screen for the witnesses: three columns, two rows, blank.\<close>

definition small_screen :: ScreenBuffer where
  "small_screen = ScreenBuffer_ctor (default_settings\<lparr>st_buffer_size := \<lparr>cx = 3, cy = 2\<rparr>,
     st_window_size := \<lparr>cx = 3, cy = 2\<rparr>\<rparr>)"

lemma small_screen_facts:
  "sb_ok small_screen" "sb_buffer_size small_screen = \<lparr>cx = 3, cy = 2\<rparr>"
  "sb_cells small_screen = replicate 6 \<lparr>cell_character = 0x20, cell_attributes = 7\<rparr>"
  "sb_vt_main_backup small_screen = None"
proof -
  show "sb_ok small_screen" unfolding small_screen_def by (rule sb_ok_ctor) (simp add: short_coord_def)
  show "sb_buffer_size small_screen = \<lparr>cx = 3, cy = 2\<rparr>" "sb_vt_main_backup small_screen = None"
    "sb_cells small_screen = replicate 6 \<lparr>cell_character = 0x20, cell_attributes = 7\<rparr>"
    by (simp_all add: small_screen_def ScreenBuffer_ctor_def default_settings_def Let_def)
qed

theorem scroll_moves_block_witness:
  "cell_at (snd (scroll_screen_buffer True \<lparr>r_left = 0, r_top = 1, r_right = 2, r_bottom = 1\<rparr>
     \<lparr>r_left = 0, r_top = 0, r_right = 2, r_bottom = 1\<rparr> coord0 0x2E 1 small_screen)) 1 1
   = \<lparr>cell_character = 0x2E, cell_attributes = 1\<rparr>"
  using scroll_moves_block [OF small_screen_facts(1), of "\<lparr>r_left = 0, r_top = 1, r_right = 2, r_bottom = 1\<rparr>" 1 1
      "\<lparr>cx = 1, cy = 2\<rparr>" coord0 "\<lparr>r_left = 0, r_top = 0, r_right = 2, r_bottom = 1\<rparr>" "0x2E" 1]
  by (simp add: coord_in_range_def small_screen_facts rect_top_left_def rect_bottom_right_def rect_contains_def)

text \<open>
  Inserting a character in a well-formed buffer changes only the row of the coordinate: the
  cell at the coordinate takes the character, the cells right of it move one column to the
  right and the last one of the row is dropped.
\<close>

theorem insert_cell_shifts_row:
  assumes "sb_ok sb" and "coord_in_range \<lparr>cx = x0, cy = y0\<rparr> sb" and "coord_in_range \<lparr>cx = x, cy = y\<rparr> sb"
  shows "cell_at (snd (insert_cell \<lparr>cx = x0, cy = y0\<rparr> ch a sb)) x y =
    (if y = y0 \<and> x = x0 then \<lparr>cell_character = ch, cell_attributes = a\<rparr>
     else if y = y0 \<and> x0 < x then cell_at sb (x - 1) y
     else cell_at sb x y)"
proof -
  let ?w = "nat (cx (sb_buffer_size sb))" and ?x = "nat x" and ?y = "nat y" and ?xo = "nat x0" and ?yo = "nat y0"
  have rng: "0 \<le> x" "0 \<le> y" "0 \<le> x0" "0 \<le> y0" "?x < ?w" "?xo < ?w"
    using assms by (auto simp: coord_in_range_iff)
  have lt: "?y * ?w + ?x < length (sb_cells sb)" "?yo * ?w + ?xo < length (sb_cells sb)"
    using linear_index_less [OF assms(1,3)] linear_index_less [OF assms(1,2)] by (simp_all add: linear_index_def)
  have eq_iff: "?y * ?w + ?x = ?yo * ?w + ?xo \<longleftrightarrow> y = y0 \<and> x = x0"
    using grid_index_inj [of ?x ?w ?xo ?y ?yo] rng by (auto simp: eq_nat_nat_iff)
  show ?thesis
  proof (cases "cx (sb_buffer_size sb) \<le> 1")
    case True
    with rng have "x = x0" by linarith
    with True assms(2) lt eq_iff rng show ?thesis
      by (auto simp: insert_cell_def write_cell_def cell_at_def linear_index_def nth_list_update eq_nat_nat_iff)
  next
    case False
    let ?n = "?yo * ?w + ?w - 1 - (?yo * ?w + ?xo)"
    let ?moved = "move_backward (?yo * ?w + ?xo) (?yo * ?w + ?xo + 1) ?n (sb_cells sb)"
    have "?yo * ?w + ?w \<le> length (sb_cells sb)"
      using assms(1,2) grid_row_le [of ?yo "nat (cy (sb_buffer_size sb))" ?w] rng
      by (auto simp: coord_in_range_iff sb_ok_def cells_ok_def)
    moreover have n: "?yo * ?w + ?xo + 1 + ?n = ?yo * ?w + ?w" using rng(6) by linarith
    ultimately have le: "?yo * ?w + ?xo + 1 + ?n \<le> length (sb_cells sb)" by (simp only: n)
    have "(?yo * ?w + ?xo + 1 \<le> ?y * ?w + ?x \<and> ?y * ?w + ?x < ?yo * ?w + ?w) = (?y = ?yo \<and> ?xo + 1 \<le> ?x)"
      using grid_row_interval [of ?x ?w ?w ?yo "?xo + 1" ?y] rng(5) by simp
    also have "\<dots> = (y = y0 \<and> x0 < x)" using rng(1-4) by linarith
    finally have "?moved ! (?y * ?w + ?x) =
        (if y = y0 \<and> x0 < x then sb_cells sb ! (?yo * ?w + ?xo + (?y * ?w + ?x - (?yo * ?w + ?xo + 1))) else sb_cells sb ! (?y * ?w + ?x))"
      using move_backward_nth [OF _ le lt(1), of "?yo * ?w + ?xo"] unfolding n by simp
    moreover have "y = y0 \<and> x0 < x \<longrightarrow> ?yo * ?w + ?xo + (?y * ?w + ?x - (?yo * ?w + ?xo + 1)) = ?y * ?w + nat (x - 1)"
      using rng by (auto simp: nat_diff_distrib)
    ultimately have mv: "?moved ! (?y * ?w + ?x) = (if y = y0 \<and> x0 < x then cell_at sb (x - 1) y else cell_at sb x y)"
      unfolding cell_at_def by presburger
    have "cell_at (snd (insert_cell \<lparr>cx = x0, cy = y0\<rparr> ch a sb)) x y =
        ?moved[?yo * ?w + ?xo := \<lparr>cell_character = ch, cell_attributes = a\<rparr>] ! (?y * ?w + ?x)"
      using False assms(2) by (simp add: insert_cell_def Let_def cell_at_def)
    also have "\<dots> = (if ?y * ?w + ?x = ?yo * ?w + ?xo then \<lparr>cell_character = ch, cell_attributes = a\<rparr> else ?moved ! (?y * ?w + ?x))"
      using lt(2) by (cases "?y * ?w + ?x = ?yo * ?w + ?xo") simp_all
    finally show ?thesis by (simp only: eq_iff mv)
  qed
qed

theorem insert_cell_shifts_row_witness:
  "cell_at (snd (insert_cell \<lparr>cx = 1, cy = 1\<rparr> 0x41 2 small_screen)) 2 1 = cell_at small_screen 1 1"
  using insert_cell_shifts_row [OF small_screen_facts(1), of 1 1 2 1 "0x41" 2]
  by (simp add: coord_in_range_def small_screen_facts)

lemma write_run_spec:
  assumes "sb_ok sb" and "coord_in_range origin sb" and "0 < limit"
    and w: "write_run put limit origin sb = (n, sb')"
  shows "n = min limit (length (sb_cells sb) - linear_index origin sb)"
    and "i < length (sb_cells sb) \<Longrightarrow> sb_cells sb' ! i =
      (if linear_index origin sb \<le> i \<and> i - linear_index origin sb < limit
       then put (i - linear_index origin sb) (sb_cells sb ! i) else sb_cells sb ! i)"
proof -
  have lin: "linear_index origin (touch sb) = linear_index origin sb" by (simp add: linear_index_def)
  obtain m cs where l: "write_loop put limit (linear_index origin sb) 0 (sb_cells sb) = (m, cs)" by (rule prod.exhaust)
  from w assms(2,3) l have "n = m" "sb_cells sb' = cs" by (auto simp: write_run_def Let_def lin)
  with write_loop_spec [OF l]
  show "n = min limit (length (sb_cells sb) - linear_index origin sb)"
    and "i < length (sb_cells sb) \<Longrightarrow> sb_cells sb' ! i =
      (if linear_index origin sb \<le> i \<and> i - linear_index origin sb < limit
       then put (i - linear_index origin sb) (sb_cells sb ! i) else sb_cells sb ! i)"
    by simp_all
qed

lemma read_run_spec:
  assumes "coord_in_range origin sb" and "dest \<noteq> []"
  shows "read_run get origin dest sb =
    (min (length dest) (length (sb_cells sb) - linear_index origin sb),
     map get (take (length dest) (drop (linear_index origin sb) (sb_cells sb)))
       @ drop (min (length dest) (length (sb_cells sb) - linear_index origin sb)) dest)"
proof -
  obtain n d where r: "read_loop get (sb_cells sb) (linear_index origin sb) 0 dest = (n, d)" by (rule prod.exhaust)
  with read_loop_spec [OF r] assms show ?thesis by (auto simp: read_run_def)
qed

text \<open>
  Characters written to a well-formed buffer are read back from the same origin: the write
  reports how many fit, a read of the same length reports the same number and returns exactly
  those characters, and the attributes of every cell are unchanged.
\<close>

theorem write_read_characters:
  assumes "sb_ok sb" and "coord_in_range origin sb" and "chars \<noteq> []" and "length dest = length chars"
    and w: "write_output_characters origin chars sb = (n, sb')"
  shows "0 < n \<and> n \<le> length chars \<and> read_output_characters origin dest sb' = (n, take n chars @ drop n dest)
    \<and> map cell_attributes (sb_cells sb') = map cell_attributes (sb_cells sb)"
proof -
  let ?i = "linear_index origin sb" and ?N = "length (sb_cells sb)"
  have co: "cells_only sb sb'" using cells_only_run_ops(3) [of sb origin chars] w by simp
  have lt: "?i < ?N" using linear_index_less [OF assms(1,2)] .
  have wr: "write_run (\<lambda>k c. c\<lparr>cell_character := chars ! k\<rparr>) (length chars) origin sb = (n, sb')"
    using w by (simp add: write_output_characters_def)
  have pos: "0 < length chars" using assms(3) by simp
  note spec = write_run_spec [OF assms(1,2) pos wr]
  have n: "n = min (length chars) (?N - ?i)" by (rule spec(1))
  have "map cell_character (take (length dest) (drop ?i (sb_cells sb'))) = take n chars"
    using spec(2) n lt assms(4) by (intro nth_equalityI) (auto simp: cells_only_frame [OF co])
  moreover have "dest \<noteq> []" using assms(3,4) by auto
  ultimately have "read_output_characters origin dest sb' = (n, take n chars @ drop n dest)"
    using assms(2,4) n by (simp add: read_output_characters_def read_run_spec coord_in_range_cells_only [OF co]
        linear_index_cells_only [OF co] cells_only_frame [OF co])
  moreover have "map cell_attributes (sb_cells sb') = map cell_attributes (sb_cells sb)"
    using spec(2) by (intro nth_equalityI) (auto simp: cells_only_frame [OF co])
  ultimately show ?thesis using n lt assms(3) by simp
qed

theorem write_read_characters_witness:
  "read_output_characters \<lparr>cx = 1, cy = 1\<rparr> [0, 0, 0]
     (snd (write_output_characters \<lparr>cx = 1, cy = 1\<rparr> [0x61, 0x62, 0x63] small_screen)) = (2, [0x61, 0x62, 0])"
proof -
  obtain n sb' where w: "write_output_characters \<lparr>cx = 1, cy = 1\<rparr> [0x61, 0x62, 0x63] small_screen = (n, sb')"
    by (rule prod.exhaust)
  have rng: "coord_in_range \<lparr>cx = 1, cy = 1\<rparr> small_screen" by (simp add: coord_in_range_def small_screen_facts)
  have "n = 2"
    using write_run_spec(1) [OF small_screen_facts(1) rng] w
    by (force simp: write_output_characters_def linear_index_def small_screen_facts)
  with write_read_characters [OF small_screen_facts(1) rng _ _ w, of "[0, 0, 0]"] w show ?thesis by simp
qed

lemma read_rect_before: "j < i \<Longrightarrow> read_rect_loop at u cells i cs rs ! j = rs ! j"
  by (induction cs arbitrary: i rs) (auto simp: Let_def)

lemma read_rect_after: "i + length cs \<le> j \<Longrightarrow> read_rect_loop at u cells i cs rs ! j = rs ! j"
  by (induction cs arbitrary: i rs) (auto simp: Let_def)

lemma read_rect_nth:
  "i + length cs \<le> length rs \<Longrightarrow> k < length cs \<Longrightarrow>
    read_rect_loop at True cells i cs rs ! (i + k) =
      \<lparr>ci_unicode_char = cell_character (cells ! at (cs ! k)), ci_attributes = cell_attributes (cells ! at (cs ! k))\<rparr>"
proof (induction cs arbitrary: i rs k)
  case (Cons c cs)
  show ?case
  proof (cases k)
    case 0
    with Cons.prems show ?thesis by (simp add: Let_def read_rect_before)
  next
    case (Suc k')
    with Cons.prems Cons.IH [of "i + 1"] show ?thesis by (simp add: Let_def)
  qed
qed simp

text \<open>
  A rectangle of wide \<open>CHAR_INFO\<close> records written inside a well-formed buffer is read back
  record for record, into a prefix of the caller's array, and no cell outside the rectangle
  changes.
\<close>

theorem char_info_rect_round_trip:
  assumes "sb_ok sb" and "coord_in_range (rect_top_left r) sb" and "coord_in_range (rect_bottom_right r) sb"
    and "r_left r \<le> r_right r" and "r_top r \<le> r_bottom r"
    and len: "length records = nat (rect_width r) * nat (rect_height r)" and "length records \<le> length dest"
    and w: "write_output_char_info_rect r records True sb = (n, sb')"
  shows "n = length records \<and> read_output_char_info_rect r dest True sb' = (n, records @ drop n dest)
    \<and> (\<forall>c. coord_in_range c sb \<and> \<not> rect_contains r c \<longrightarrow>
         sb_cells sb' ! linear_index c sb = sb_cells sb ! linear_index c sb)"
proof -
  let ?at = "\<lambda>c. linear_index c sb" and ?cs = "rect_coords r"
  have co: "cells_only sb sb'" using cells_only_write_rect [of sb r records True] w by simp
  have cs: "\<forall>c \<in> set ?cs. coord_in_range c sb" using assms(2,3) by (auto simp: set_rect_coords intro: rect_in_range)
  then have lt: "\<forall>c \<in> set ?cs. coord_in_range c sb \<and> ?at c < length (sb_cells sb)"
    using linear_index_less [OF assms(1)] by blast
  have ne: "sb_cells sb \<noteq> []" using linear_index_less [OF assms(1,2)] by auto
  have at: "(\<lambda>c. linear_index c (touch sb)) = ?at" by (simp add: linear_index_def)
  have n: "n = length records" and cells: "sb_cells sb' = write_rect_loop ?at True records 0 ?cs (sb_cells sb)"
    using w assms(2-5) len ne by (auto simp: write_output_char_info_rect_def Let_def at rect_width_def rect_height_def)
  have lcs: "length ?cs = length records" by (simp add: length_rect_coords len mult.commute)
  have val: "sb_cells sb' ! ?at (?cs ! k) = info_cell True (records ! k)" if "k < length records" for k
    using rm.write_rect_nth [OF lt distinct_rect_coords, of k True records 0] that lcs by (simp add: cells)
  have at': "(\<lambda>c. linear_index c sb') = ?at" using linear_index_cells_only [OF co] by blast
  have ne': "sb_cells sb' \<noteq> []" using ne cells_only_frame(6) [OF co] by (metis length_0_conv)
  have "read_rect_loop ?at True (sb_cells sb') 0 ?cs dest = records @ drop n dest"
  proof (rule nth_equalityI)
    fix j assume "j < length (read_rect_loop ?at True (sb_cells sb') 0 ?cs dest)"
    show "read_rect_loop ?at True (sb_cells sb') 0 ?cs dest ! j = (records @ drop n dest) ! j"
    proof (cases "j < length records")
      case True
      then show ?thesis
        using read_rect_nth [of 0 ?cs dest j ?at "sb_cells sb'"] val [of j] assms(7) lcs
        by (simp add: info_cell_def nth_append)
    next
      case False
      then show ?thesis using read_rect_after [of 0 ?cs j] lcs assms(7) by (simp add: nth_append n)
    qed
  qed (use n assms(7) in simp)
  then have "read_output_char_info_rect r dest True sb' = (n, records @ drop n dest)"
    using assms(2-5,7) ne' n len
    by (simp add: read_output_char_info_rect_def Let_def at' coord_in_range_cells_only [OF co] rect_width_def rect_height_def)
  moreover have "sb_cells sb' ! ?at c = sb_cells sb ! ?at c" if "coord_in_range c sb" "\<not> rect_contains r c" for c
    unfolding cells using that cs by (intro rm.write_rect_other) (auto simp: set_rect_coords)
  ultimately show ?thesis using n by blast
qed

theorem char_info_rect_round_trip_witness:
  "read_output_char_info_rect \<lparr>r_left = 1, r_top = 0, r_right = 1, r_bottom = 1\<rparr>
     (replicate 3 \<lparr>ci_unicode_char = 0, ci_attributes = 0\<rparr>) True
     (snd (write_output_char_info_rect \<lparr>r_left = 1, r_top = 0, r_right = 1, r_bottom = 1\<rparr>
        [\<lparr>ci_unicode_char = 0x41, ci_attributes = 4\<rparr>, \<lparr>ci_unicode_char = 0x42, ci_attributes = 5\<rparr>] True small_screen))
   = (2, [\<lparr>ci_unicode_char = 0x41, ci_attributes = 4\<rparr>, \<lparr>ci_unicode_char = 0x42, ci_attributes = 5\<rparr>,
        \<lparr>ci_unicode_char = 0, ci_attributes = 0\<rparr>])"
proof -
  let ?r = "\<lparr>r_left = 1, r_top = 0, r_right = 1, r_bottom = 1\<rparr>"
  let ?recs = "[\<lparr>ci_unicode_char = 0x41, ci_attributes = 4\<rparr>, \<lparr>ci_unicode_char = 0x42, ci_attributes = 5\<rparr>]"
  obtain n sb' where w: "write_output_char_info_rect ?r ?recs True small_screen = (n, sb')" by (rule prod.exhaust)
  have "coord_in_range (rect_top_left ?r) small_screen" "coord_in_range (rect_bottom_right ?r) small_screen"
    by (simp_all add: coord_in_range_def small_screen_facts rect_top_left_def rect_bottom_right_def)
  from char_info_rect_round_trip [OF small_screen_facts(1) this _ _ _ _ w, of "replicate 3 \<lparr>ci_unicode_char = 0, ci_attributes = 0\<rparr>"] w
  show ?thesis by (simp add: rect_width_def rect_height_def)
qed

section \<open>The class as a state machine\<close>

text \<open>
  One call of a public mutator. The side conditions are what the callers owe: coordinates are
  \<open>SHORT\<close> values, the cursor is placed inside the buffer, and the margins satisfy the asserts of
  \<open>set_vt_vertical_margins\<close>.
\<close>

inductive screen_call :: "ScreenBuffer \<Rightarrow> ScreenBuffer \<Rightarrow> bool" where
  call_window_rect: "screen_call sb (snd (set_window_rect r sb))"
| call_window_size: "screen_call sb (snd (set_window_size sz sb))"
| call_snap: "screen_call sb (snap_window_to_cursor sb)"
| call_cursor: "cursor_ok (sb_buffer_size sb) p \<Longrightarrow> screen_call sb (set_cursor_position p sb)"
| call_attributes: "screen_call sb (set_text_attributes a sb)"
| call_default_attributes: "screen_call sb (set_default_text_attributes a sb)"
| call_cursor_info: "screen_call sb (set_cursor_info n v sb)"
| call_save_cursor: "screen_call sb (save_cursor_state p a d om sb)"
| call_autowrap: "screen_call sb (set_vt_autowrap_enabled b sb)"
| call_delayed_wrap: "screen_call sb (set_vt_delayed_wrap_position q sb)"
| call_origin_mode: "screen_call sb (set_vt_origin_mode_enabled b sb)"
| call_insert_mode: "screen_call sb (set_vt_insert_mode_enabled b sb)"
| call_color_table: "screen_call sb (set_color_table t sb)"
| call_margins: "set_vt_vertical_margins m sb = Some sb' \<Longrightarrow> screen_call sb sb'"
| call_write_cell: "screen_call sb (snd (write_cell c ch a sb))"
| call_insert_cell: "screen_call sb (snd (insert_cell c ch a sb))"
| call_fill_characters: "screen_call sb (snd (fill_output_characters c ch n sb))"
| call_fill_attributes: "screen_call sb (snd (fill_output_attributes c a n sb))"
| call_write_characters: "screen_call sb (snd (write_output_characters c chs sb))"
| call_write_attributes: "screen_call sb (snd (write_output_attributes c as sb))"
| call_write_ascii: "screen_call sb (snd (write_output_ascii c bs sb))"
| call_write_rect: "screen_call sb (snd (write_output_char_info_rect r rs u sb))"
| call_scroll: "screen_call sb (snd (scroll_screen_buffer mem_ok r clip d ch a sb))"

text \<open>The two calls that replace the cells and the preserved main screen.\<close>

inductive screen_step :: "ScreenBuffer \<Rightarrow> ScreenBuffer \<Rightarrow> bool" where
  step_call: "screen_call sb sb' \<Longrightarrow> screen_step sb sb'"
| step_resize: "short_coord sz \<Longrightarrow> screen_step sb (snd (set_screen_buffer_size mem_ok sz sb))"
| step_alternate: "screen_step sb (snd (set_vt_using_alternate_screen_buffer mem_ok e ch a sb))"

lemma screen_call_ok: "screen_call sb sb' \<Longrightarrow> sb_ok sb \<Longrightarrow> sb_ok sb'"
  by (induction rule: screen_call.induct)
    (simp_all add: sb_ok_set_window_rect sb_ok_set_window_size sb_ok_set_cursor_position
      sb_ok_set_vt_vertical_margins sb_ok_cell_ops)

lemma screen_step_ok: "screen_step sb sb' \<Longrightarrow> sb_ok sb \<Longrightarrow> sb_ok sb'"
  by (induction rule: screen_step.induct)
    (simp_all add: screen_call_ok sb_ok_set_screen_buffer_size sb_ok_set_vt_using_alternate_screen_buffer)

lemma screen_call_keeps:
  "screen_call sb sb' \<Longrightarrow> sb_vt_main_backup sb' = sb_vt_main_backup sb \<and> sb_buffer_size sb' = sb_buffer_size sb"
proof (induction rule: screen_call.induct)
  case (call_margins m sb sb')
  then show ?case by (auto simp: set_vt_vertical_margins_def split: if_splits)
qed (simp_all add: set_window_rect_def set_window_size_def set_cursor_position_def set_text_attributes_def
    set_default_text_attributes_def set_cursor_info_def save_cursor_state_def set_vt_autowrap_enabled_def
    set_vt_delayed_wrap_position_def set_vt_origin_mode_enabled_def set_vt_insert_mode_enabled_def
    set_color_table_def Let_def cell_ops_frame)

lemma restore_main_simps:
  "sb_buffer_size (restore_main bk sb) = sb_buffer_size sb"
  "sb_vt_main_backup (restore_main bk sb) = sb_vt_main_backup sb"
  "main_backup (touch sb) = main_backup sb"
  by (simp_all add: restore_main_def main_backup_def)

lemma main_backup_restore: "main_backup (restore_main bk sb) = bk"
  by (simp add: restore_main_def main_backup_def)

lemma screen_calls_keep:
  "screen_call\<^sup>*\<^sup>* sb sb' \<Longrightarrow> sb_vt_main_backup sb' = sb_vt_main_backup sb \<and> sb_buffer_size sb' = sb_buffer_size sb"
  by (induction rule: rtranclp_induct) (auto dest: screen_call_keeps)

text \<open>
  Every screen buffer that any sequence of calls produces from a freshly created one, with
  any sizes, any arguments and any allocation failures, is well-formed: one cell per position,
  and the cursor, the window, the scroll margins and the preserved main screen inside the
  buffer.
\<close>

theorem reachable_screen_ok:
  assumes "create mem_ok settings = Inr sb0" and "short_coord (st_buffer_size settings)"
    and "screen_step\<^sup>*\<^sup>* sb0 sb"
  shows "sb_ok sb"
  using assms(3)
proof (induction rule: rtranclp_induct)
  case base
  from assms(1,2) show ?case by (auto simp: create_def sb_ok_ctor split: if_splits)
next
  case (step sb sb')
  then show ?case by (rule_tac screen_step_ok)
qed

theorem reachable_screen_ok_witness:
  "sb_ok (snd (set_vt_using_alternate_screen_buffer True True 0x20 7 (ScreenBuffer_ctor default_settings)))"
  by (rule reachable_screen_ok [of True default_settings "ScreenBuffer_ctor default_settings"])
    (auto simp: create_def short_coord_def default_settings_def intro: step_alternate)

text \<open>
  The alternate screen preserves the main screen: entering it, any sequence of calls that
  neither resize nor leave it, and leaving it give back the cells, the cursor, the attributes,
  the cursor shape, the saved cursor, the margins, the delayed wrap and the origin mode the
  buffer had.
\<close>

theorem alternate_screen_round_trip:
  assumes "sb_vt_main_backup sb = None"
    and "set_vt_using_alternate_screen_buffer True True ch a sb = (ok, alt)"
    and "screen_call\<^sup>*\<^sup>* alt drawn"
    and "set_vt_using_alternate_screen_buffer mem_ok False ch' a' drawn = (ok', sb')"
  shows "ok \<and> ok' \<and> main_backup sb' = main_backup sb \<and> sb_vt_main_backup sb' = None
    \<and> sb_buffer_size sb' = sb_buffer_size sb"
proof -
  have alt: "ok" "sb_vt_main_backup alt = Some (main_backup sb)" "sb_buffer_size alt = sb_buffer_size sb"
    using assms(1,2) by (auto simp: set_vt_using_alternate_screen_buffer_def)
  with screen_calls_keep [OF assms(3)]
  have "sb_vt_main_backup drawn = Some (main_backup sb)" "sb_buffer_size drawn = sb_buffer_size sb" by simp_all
  then have "ok'" "sb' = touch (restore_main (main_backup sb) (drawn\<lparr>sb_vt_main_backup := None\<rparr>))"
    using assms(4) by (simp_all add: set_vt_using_alternate_screen_buffer_def)
  with alt(1) \<open>sb_buffer_size drawn = sb_buffer_size sb\<close> show ?thesis
    by (simp add: restore_main_simps main_backup_restore)
qed

theorem alternate_screen_round_trip_witness:
  "main_backup (snd (set_vt_using_alternate_screen_buffer True False 0 0
     (snd (write_cell coord0 0x41 7 (snd (set_vt_using_alternate_screen_buffer True True 0x20 7 small_screen))))))
   = main_backup small_screen"
proof -
  obtain ok alt where a: "set_vt_using_alternate_screen_buffer True True 0x20 7 small_screen = (ok, alt)"
    by (rule prod.exhaust)
  obtain ok' sb' where e: "set_vt_using_alternate_screen_buffer True False 0 0 (snd (write_cell coord0 0x41 7 alt)) = (ok', sb')"
    by (rule prod.exhaust)
  from alternate_screen_round_trip [OF small_screen_facts(4) a _ e] show ?thesis
    using call_write_cell [of alt coord0 "0x41" 7] by (auto simp: a e)
qed

end
