(* ===== verification/Vt_Screen.thy ===== *)
theory Vt_Screen
  imports Screen_Cells
begin

text \<open>
  The working state of one write to the screen (\<open>apply_text_to_screen_buffer\<close> of
  \<open>condrv_server.hpp\<close>): the local variables the function keeps beside the screen buffer, and the
  lambdas that scroll a region, feed lines and print a character.

  The constants of one call are in \<open>VtEnv\<close>. \<open>e_mem k\<close> says whether the \<open>k\<close>-th scroll or screen
  switch of the call gets the memory it asks for, \<open>v_allocs\<close> counts them. \<open>v_titles\<close> and
  \<open>v_injected\<close> are the calls of \<open>ServerState::set_title\<close> and \<open>HostIo::inject_input_bytes\<close> in
  order, \<open>v_switches\<close> counts the calls of \<open>set_vt_using_alternate_screen_buffer\<close>, \<open>v_failed\<close>
  records the failure of an \<open>OC_ASSERT\<close>.
\<close>

record VtEnv =
  e_size :: COORD
  e_default_attributes :: ushort
  e_processed_output :: bool
  e_wrap_at_eol :: bool
  e_vt_processing :: bool
  e_disable_newline_auto_return :: bool
  e_has_title_state :: bool
  e_answers_queries :: bool
  e_mem :: "nat \<Rightarrow> bool"

record VtRun =
  v_sb :: ScreenBuffer
  v_cursor :: COORD
  v_attributes :: ushort
  v_vertical_margins :: "VtVerticalMargins option"
  v_autowrap :: bool
  v_delayed_wrap_position :: "COORD option"
  v_origin_mode :: bool
  v_insert_mode :: bool
  v_titles :: "wstring list"
  v_injected :: "byte list list"
  v_allocs :: nat
  v_switches :: nat
  v_failed :: bool

section \<open>Regions\<close>

definition resolve_vertical_region :: "VtEnv \<Rightarrow> VtRun \<Rightarrow> int \<times> int" where
  "resolve_vertical_region e v =
    (case v_vertical_margins v of
       Some m \<Rightarrow>
         if m_top m \<ge> 0 \<and> m_bottom m \<ge> m_top m \<and> m_bottom m < cy (e_size e) then (m_top m, m_bottom m)
         else (0, to_short (cy (e_size e) - 1))
     | None \<Rightarrow> (0, to_short (cy (e_size e) - 1)))"

text \<open>The pair of fills that erases a run of cells.\<close>

definition fill_run :: "COORD \<Rightarrow> wchar \<Rightarrow> ushort \<Rightarrow> nat \<Rightarrow> VtRun \<Rightarrow> VtRun" where
  "fill_run origin ch a len v =
    v\<lparr>v_sb := snd (fill_output_attributes origin a len (snd (fill_output_characters origin ch len (v_sb v))))\<rparr>"

definition scroll_rect :: "VtEnv \<Rightarrow> SMALL_RECT \<Rightarrow> SMALL_RECT \<Rightarrow> COORD \<Rightarrow> VtRun \<Rightarrow> VtRun" where
  "scroll_rect e scroll clip destination v =
    v\<lparr>v_sb := snd (scroll_screen_buffer (e_mem e (v_allocs v)) scroll clip destination 0x20 (v_attributes v) (v_sb v)),
      v_allocs := v_allocs v + 1\<rparr>"

definition scroll_region_up :: "VtEnv \<Rightarrow> int \<Rightarrow> int \<Rightarrow> nat \<Rightarrow> VtRun \<Rightarrow> VtRun" where
  "scroll_region_up e tp bt n v =
    (if cx (e_size e) \<le> 0 \<or> cy (e_size e) \<le> 1 then v
     else if tp < 0 \<or> bt < tp \<or> bt \<ge> cy (e_size e) then v
     else
       let n = (if n = 0 then 1 else n); region_height = nat (bt - tp + 1)
       in if region_height \<le> 1 then v
          else if n \<ge> region_height
          then fill_run \<lparr>cx = 0, cy = tp\<rparr> 0x20 (v_attributes v) (nat (cx (e_size e)) * region_height) v
          else
            let right = to_short (cx (e_size e) - 1); scroll_top = to_short (tp + to_long (int n))
            in scroll_rect e
                 \<lparr>r_left = 0, r_top = scroll_top, r_right = right, r_bottom = bt\<rparr>
                 \<lparr>r_left = 0, r_top = tp, r_right = right, r_bottom = bt\<rparr>
                 \<lparr>cx = 0, cy = tp\<rparr> v)"

definition scroll_region_down :: "VtEnv \<Rightarrow> int \<Rightarrow> int \<Rightarrow> nat \<Rightarrow> VtRun \<Rightarrow> VtRun" where
  "scroll_region_down e tp bt n v =
    (if cx (e_size e) \<le> 0 \<or> cy (e_size e) \<le> 1 then v
     else if tp < 0 \<or> bt < tp \<or> bt \<ge> cy (e_size e) then v
     else
       let n = (if n = 0 then 1 else n); region_height = nat (bt - tp + 1)
       in if region_height \<le> 1 then v
          else if n \<ge> region_height
          then fill_run \<lparr>cx = 0, cy = tp\<rparr> 0x20 (v_attributes v) (nat (cx (e_size e)) * region_height) v
          else
            let right = to_short (cx (e_size e) - 1); scroll_bottom = to_short (bt - to_long (int n));
                dest_top = to_short (tp + to_long (int n))
            in scroll_rect e
                 \<lparr>r_left = 0, r_top = tp, r_right = right, r_bottom = scroll_bottom\<rparr>
                 \<lparr>r_left = 0, r_top = tp, r_right = right, r_bottom = bt\<rparr>
                 \<lparr>cx = 0, cy = dest_top\<rparr> v)"

section \<open>Lines\<close>

abbreviation set_x :: "int \<Rightarrow> VtRun \<Rightarrow> VtRun" where
  "set_x x v \<equiv> v\<lparr>v_cursor := (v_cursor v)\<lparr>cx := x\<rparr>\<rparr>"

abbreviation set_y :: "int \<Rightarrow> VtRun \<Rightarrow> VtRun" where
  "set_y y v \<equiv> v\<lparr>v_cursor := (v_cursor v)\<lparr>cy := y\<rparr>\<rparr>"

definition line_feed :: "VtEnv \<Rightarrow> VtRun \<Rightarrow> VtRun" where
  "line_feed e v =
    (let (tp, bt) = resolve_vertical_region e v; y = cy (v_cursor v)
     in if y \<ge> tp \<and> y \<le> bt then
          (if y = bt then scroll_region_up e tp bt 1 v else set_y (to_short (y + 1)) v)
        else
          let v = set_y (to_short (y + 1)) v
          in if cy (v_cursor v) \<ge> cy (e_size e)
             then set_y (to_short (cy (e_size e) - 1)) (scroll_region_up e 0 (to_short (cy (e_size e) - 1)) 1 v)
             else v)"

definition reverse_line_feed :: "VtEnv \<Rightarrow> VtRun \<Rightarrow> VtRun" where
  "reverse_line_feed e v =
    (let (tp, bt) = resolve_vertical_region e v; y = cy (v_cursor v)
     in if y \<ge> tp \<and> y \<le> bt then
          (if y = tp then scroll_region_down e tp bt 1 v else set_y (to_short (y - 1)) v)
        else if y > 0 then set_y (to_short (y - 1)) v
        else scroll_region_down e 0 (to_short (cy (e_size e) - 1)) 1 v)"

definition advance_line :: "VtEnv \<Rightarrow> VtRun \<Rightarrow> VtRun" where
  "advance_line e v = line_feed e (set_x 0 v)"

section \<open>Printing\<close>

definition at_delayed_wrap :: "VtRun \<Rightarrow> bool" where
  "at_delayed_wrap v \<longleftrightarrow>
    (case v_delayed_wrap_position v of
       None \<Rightarrow> False
     | Some p \<Rightarrow> cx p = cx (v_cursor v) \<and> cy p = cy (v_cursor v))"

definition maybe_apply_delayed_wrap :: "VtEnv \<Rightarrow> VtRun \<Rightarrow> VtRun" where
  "maybe_apply_delayed_wrap e v =
    (if \<not> e_vt_processing e then v
     else if v_delayed_wrap_position v = None then v
     else
       (if v_autowrap v \<and> at_delayed_wrap v then advance_line e v else v)\<lparr>v_delayed_wrap_position := None\<rparr>)"

definition put_cell :: "VtEnv \<Rightarrow> wchar \<Rightarrow> VtRun \<Rightarrow> VtRun" where
  "put_cell e ch v =
    (if e_vt_processing e \<and> v_insert_mode v
     then v\<lparr>v_sb := snd (insert_cell (v_cursor v) ch (v_attributes v) (v_sb v))\<rparr>
     else v\<lparr>v_sb := snd (write_cell (v_cursor v) ch (v_attributes v) (v_sb v))\<rparr>)"

definition write_printable :: "VtEnv \<Rightarrow> wchar \<Rightarrow> VtRun \<Rightarrow> VtRun" where
  "write_printable e ch v =
    (let v = put_cell e ch (maybe_apply_delayed_wrap e v)
     in if e_vt_processing e then
          let last_column = to_short (cx (e_size e) - 1)
          in if cx (v_cursor v) \<ge> last_column then
               let v = set_x last_column v
               in if v_autowrap v then v\<lparr>v_delayed_wrap_position := Some (v_cursor v)\<rparr> else v
             else set_x (to_short (cx (v_cursor v) + 1)) v
        else
          let v = set_x (to_short (cx (v_cursor v) + 1)) v
          in if cx (v_cursor v) \<ge> cx (e_size e)
             then (if e_wrap_at_eol e then advance_line e v else set_x (to_short (cx (e_size e) - 1)) v)
             else v)"

section \<open>Well-formed runs\<close>

text \<open>
  During a write the cursor is a position of the buffer and the margins lie in it, no assert has
  failed, and the screen buffer is well-formed and keeps the size it had when the write began.
  The bounds of the parser state are those of the arrays of the source: eight intermediates,
  sixteen parameters, 4096 characters of payload; numbers stop growing above one million.
\<close>

definition parse_ok :: "VtOutputParseState \<Rightarrow> bool" where
  "parse_ok ps \<longleftrightarrow> length (ps_esc_intermediates ps) \<le> 8 \<and> ps_esc_length ps < 16
    \<and> length (csi_params (ps_csi ps)) \<le> 16 \<and> list_all (\<lambda>p. p \<le> 10000009) (csi_params (ps_csi ps))
    \<and> ps_csi_current ps \<le> 10000009 \<and> ps_csi_length ps \<le> 128
    \<and> ps_osc_param ps \<le> 10000009 \<and> ps_osc_action ps \<le> 10000009 \<and> length (ps_osc_payload ps) \<le> 4096"

definition env_ok :: "VtEnv \<Rightarrow> bool" where
  "env_ok e \<longleftrightarrow> 0 < cx (e_size e) \<and> 0 < cy (e_size e) \<and> cx (e_size e) \<le> 32767 \<and> cy (e_size e) \<le> 32767"

definition run_ok :: "VtEnv \<Rightarrow> VtRun \<Rightarrow> bool" where
  "run_ok e v \<longleftrightarrow> env_ok e \<and> \<not> v_failed v \<and> sb_ok (v_sb v) \<and> sb_buffer_size (v_sb v) = e_size e
    \<and> cursor_ok (e_size e) (v_cursor v) \<and> margins_ok (e_size e) (v_vertical_margins v)
    \<and> parse_ok (sb_vt_output_parse_state (v_sb v))"

text \<open>A change of cells only keeps a run well-formed.\<close>

lemma run_ok_cells:
  "run_ok e v \<Longrightarrow> cells_only (v_sb v) sb \<Longrightarrow> run_ok e (v\<lparr>v_sb := sb\<rparr>)"
  using sb_ok_cells_only [of "v_sb v" sb] cells_only_frame [of "v_sb v" sb] by (simp add: run_ok_def)

lemma run_ok_updates [simp]:
  "run_ok e (v\<lparr>v_attributes := a\<rparr>) = run_ok e v" "run_ok e (v\<lparr>v_autowrap := b\<rparr>) = run_ok e v"
  "run_ok e (v\<lparr>v_delayed_wrap_position := q\<rparr>) = run_ok e v" "run_ok e (v\<lparr>v_origin_mode := b\<rparr>) = run_ok e v"
  "run_ok e (v\<lparr>v_insert_mode := b\<rparr>) = run_ok e v" "run_ok e (v\<lparr>v_titles := ts\<rparr>) = run_ok e v"
  "run_ok e (v\<lparr>v_injected := bs\<rparr>) = run_ok e v" "run_ok e (v\<lparr>v_allocs := n\<rparr>) = run_ok e v"
  "run_ok e (v\<lparr>v_switches := n\<rparr>) = run_ok e v"
  by (simp_all add: run_ok_def)

lemma run_ok_cursor: "run_ok e v \<Longrightarrow> cursor_ok (e_size e) p \<Longrightarrow> run_ok e (v\<lparr>v_cursor := p\<rparr>)"
  by (simp add: run_ok_def)

lemma run_okD:
  assumes "run_ok e v"
  shows "0 < cx (e_size e)" "0 < cy (e_size e)" "cx (e_size e) \<le> 32767" "cy (e_size e) \<le> 32767"
    "0 \<le> cx (v_cursor v)" "cx (v_cursor v) < cx (e_size e)" "0 \<le> cy (v_cursor v)" "cy (v_cursor v) < cy (e_size e)"
    "sb_ok (v_sb v)" "sb_buffer_size (v_sb v) = e_size e" "margins_ok (e_size e) (v_vertical_margins v)"
    "\<not> v_failed v"
  using assms by (auto simp: run_ok_def env_ok_def cursor_ok_def in_extent_def)

lemma run_ok_set_x: "run_ok e v \<Longrightarrow> 0 \<le> x \<Longrightarrow> x < cx (e_size e) \<Longrightarrow> run_ok e (set_x x v)"
  by (auto simp: run_ok_def cursor_ok_def in_extent_def)

lemma run_ok_set_y: "run_ok e v \<Longrightarrow> 0 \<le> y \<Longrightarrow> y < cy (e_size e) \<Longrightarrow> run_ok e (set_y y v)"
  by (auto simp: run_ok_def cursor_ok_def in_extent_def)

lemma run_ok_fill_run: "run_ok e v \<Longrightarrow> run_ok e (fill_run p ch a n v)"
  unfolding fill_run_def
  by (rule run_ok_cells) (auto intro: cells_only_trans [OF cells_only_run_ops(1) cells_only_run_ops(2)])

lemma run_ok_scroll_rect: "run_ok e v \<Longrightarrow> run_ok e (scroll_rect e r clip d v)"
  using run_ok_cells [of e v] by (simp add: scroll_rect_def)

lemma run_ok_scroll_region:
  "run_ok e v \<Longrightarrow> run_ok e (scroll_region_up e tp bt n v)"
  "run_ok e v \<Longrightarrow> run_ok e (scroll_region_down e tp bt n v)"
  by (simp_all add: scroll_region_up_def scroll_region_down_def Let_def run_ok_fill_run run_ok_scroll_rect)

lemma region_bounds:
  assumes "run_ok e v" and "resolve_vertical_region e v = (tp, bt)"
  shows "0 \<le> tp" "tp \<le> bt" "bt < cy (e_size e)"
  using assms run_okD [OF assms(1)]
  by (auto simp: resolve_vertical_region_def margins_ok_def to_short_id split: option.splits if_splits)

lemma cursor_scroll [simp]:
  "v_cursor (scroll_region_up e t b n v) = v_cursor v" "v_cursor (scroll_region_down e t b n v) = v_cursor v"
  by (simp_all add: scroll_region_up_def scroll_region_down_def fill_run_def scroll_rect_def Let_def)

lemma run_ok_line_feed:
  assumes "run_ok e v"
  shows "run_ok e (line_feed e v)"
proof -
  note b = run_okD [OF assms]
  obtain tp bt where r: "resolve_vertical_region e v = (tp, bt)" by (rule prod.exhaust)
  note rb = region_bounds [OF assms r]
  let ?y = "cy (v_cursor v)"
  show ?thesis
  proof (cases "tp \<le> ?y \<and> ?y \<le> bt")
    case True
    with assms b rb show ?thesis
      by (auto simp: line_feed_def r Let_def to_short_id intro!: run_ok_scroll_region run_ok_set_y)
  next
    case False
    show ?thesis
    proof (cases "?y + 1 \<ge> cy (e_size e)")
      case True
      let ?h = "to_short (cy (e_size e) - 1)"
      have "set_y ?h (scroll_region_up e 0 ?h 1 (set_y (to_short (?y + 1)) v)) =
          set_y ?h (scroll_region_up e 0 ?h 1 v)"
        by (simp add: scroll_region_up_def fill_run_def scroll_rect_def Let_def)
      moreover have "run_ok e (set_y ?h (scroll_region_up e 0 ?h 1 v))"
        using assms b by (intro run_ok_set_y run_ok_scroll_region) (simp_all add: to_short_id)
      ultimately show ?thesis using False True b by (auto simp: line_feed_def r to_short_id Let_def)
    next
      case False': False
      have "run_ok e (set_y (?y + 1) v)" using assms b False' by (intro run_ok_set_y) simp_all
      with False False' b show ?thesis by (auto simp: line_feed_def r to_short_id Let_def)
    qed
  qed
qed

lemma run_ok_reverse_line_feed:
  assumes "run_ok e v"
  shows "run_ok e (reverse_line_feed e v)"
proof -
  note b = run_okD [OF assms]
  obtain tp bt where r: "resolve_vertical_region e v = (tp, bt)" by (rule prod.exhaust)
  show ?thesis
    using assms b region_bounds [OF assms r]
    by (auto simp: reverse_line_feed_def r Let_def to_short_id intro!: run_ok_scroll_region run_ok_set_y)
qed

lemma run_ok_advance_line: "run_ok e v \<Longrightarrow> run_ok e (advance_line e v)"
  unfolding advance_line_def by (intro run_ok_line_feed run_ok_set_x) (auto dest: run_okD)

lemma run_ok_maybe_apply_delayed_wrap: "run_ok e v \<Longrightarrow> run_ok e (maybe_apply_delayed_wrap e v)"
  by (simp add: maybe_apply_delayed_wrap_def run_ok_advance_line)

lemma run_ok_put_cell: "run_ok e v \<Longrightarrow> run_ok e (put_cell e ch v)"
  by (simp add: put_cell_def run_ok_cells)

lemma run_ok_write_printable:
  assumes "run_ok e v"
  shows "run_ok e (write_printable e ch v)"
proof -
  define u where "u = put_cell e ch (maybe_apply_delayed_wrap e v)"
  have u: "run_ok e u" unfolding u_def using assms by (intro run_ok_put_cell run_ok_maybe_apply_delayed_wrap)
  note b = run_okD [OF u]
  have w: "advance_line e (set_x x u) = advance_line e u" for x by (simp add: advance_line_def)
  have last: "run_ok e (set_x (cx (e_size e) - 1) u)" using u b by (intro run_ok_set_x) simp_all
  have next_x: "cx (v_cursor u) + 1 < cx (e_size e) \<Longrightarrow> run_ok e (set_x (cx (v_cursor u) + 1) u)"
    using u b by (intro run_ok_set_x) simp_all
  show ?thesis
    using b last next_x run_ok_advance_line [OF u]
    by (auto simp: write_printable_def Let_def to_short_id w simp flip: u_def)
qed

text \<open>The lines and the printing keep the parser state and the margins.\<close>

lemma parse_state_scroll [simp]:
  "sb_vt_output_parse_state (v_sb (scroll_region_up e t b n v)) = sb_vt_output_parse_state (v_sb v)"
  "sb_vt_output_parse_state (v_sb (scroll_region_down e t b n v)) = sb_vt_output_parse_state (v_sb v)"
  "sb_vt_output_parse_state (v_sb (fill_run p ch a n v)) = sb_vt_output_parse_state (v_sb v)"
  by (simp_all add: scroll_region_up_def scroll_region_down_def fill_run_def scroll_rect_def Let_def
      cells_only_scroll [THEN cells_only_frame(7)] cells_only_run_ops(1,2) [THEN cells_only_frame(7)])

end
