(* ===== verification/Vt_Sgr.thy ===== *)
theory Vt_Sgr
  imports Conhost_Prelude
begin

unbundle bit_operations_syntax

text \<open>
  Select Graphic Rendition: the lambda \<open>apply_sgr\<close> of \<open>apply_text_to_screen_buffer\<close>
  (\<open>condrv_server.hpp\<close>). The attributes of a cell are 16 bits: the foreground colour in the low
  nibble, the background colour in the next one, and flags of which the sequences use reverse
  video and underscore. Colours of the 256-colour and true-colour forms are mapped to the nearest
  of the sixteen entries of the palette.
\<close>

section \<open>Colours\<close>

definition set_foreground :: "nat \<Rightarrow> bool \<Rightarrow> ushort \<Rightarrow> ushort" where
  "set_foreground color bright a =
    (let a = a AND NOT 0x000F;
         a = (if color AND 1 \<noteq> 0 then a OR 0x0004 else a);
         a = (if color AND 2 \<noteq> 0 then a OR 0x0002 else a);
         a = (if color AND 4 \<noteq> 0 then a OR 0x0001 else a)
     in if bright then a OR 0x0008 else a)"

definition set_background :: "nat \<Rightarrow> bool \<Rightarrow> ushort \<Rightarrow> ushort" where
  "set_background color bright a =
    (let a = a AND NOT 0x00F0;
         a = (if color AND 1 \<noteq> 0 then a OR 0x0040 else a);
         a = (if color AND 2 \<noteq> 0 then a OR 0x0020 else a);
         a = (if color AND 4 \<noteq> 0 then a OR 0x0010 else a)
     in if bright then a OR 0x0080 else a)"

definition set_palette_index :: "nat \<Rightarrow> bool \<Rightarrow> ushort \<Rightarrow> ushort" where
  "set_palette_index index foreground a =
    (if foreground then (a AND NOT 0x000F) OR of_nat (index AND 0x0F)
     else (a AND NOT 0x00F0) OR of_nat (push_bit 4 (index AND 0x0F)))"

definition clamp_byte :: "nat \<Rightarrow> nat" where
  "clamp_byte value = (if value > 0xFF then 0xFF else value)"

text \<open>The three channels of a \<open>COLORREF\<close> and the squared distance, summed at 32 bits.\<close>

definition palette_distance :: "nat \<Rightarrow> nat \<Rightarrow> nat \<Rightarrow> ulong \<Rightarrow> nat" where
  "palette_distance red green blue color =
    (let dr = int (unat (color AND 0xFF)) - int red;
         dg = int (unat (drop_bit 8 color AND 0xFF)) - int green;
         db = int (unat (drop_bit 16 color AND 0xFF)) - int blue
     in u32 (u32 (nat (dr * dr)) + u32 (nat (dg * dg)) + u32 (nat (db * db))))"

fun nearest_loop :: "(ulong \<Rightarrow> nat) \<Rightarrow> nat \<Rightarrow> nat \<Rightarrow> nat \<Rightarrow> ulong list \<Rightarrow> nat" where
  "nearest_loop dist i best_index best_distance [] = best_index"
| "nearest_loop dist i best_index best_distance (color # table) =
    (if dist color < best_distance then nearest_loop dist (i + 1) i (dist color) table
     else nearest_loop dist (i + 1) best_index best_distance table)"

definition nearest_palette_index :: "ulong list \<Rightarrow> nat \<Rightarrow> nat \<Rightarrow> nat \<Rightarrow> nat" where
  "nearest_palette_index table red green blue =
    nearest_loop (palette_distance red green blue) 0 0 4294967295 table"

definition xterm_256_index_to_rgb :: "nat \<Rightarrow> nat \<times> nat \<times> nat" where
  "xterm_256_index_to_rgb index =
    (let index = clamp_byte index
     in if index < 16 then (0, 0, 0)
        else if index \<ge> 232 then let shade = 8 + 10 * (index - 232) in (shade, shade, shade)
        else
          let cube = index - 16; component = (\<lambda>value :: nat. if value = 0 then 0 else 55 + 40 * value)
          in (component (cube div 36), component ((cube div 6) mod 6), component (cube mod 6)))"

section \<open>The parameter loop\<close>

text \<open>The parameters that stand alone; an unsupported one changes nothing.\<close>

definition sgr_single :: "ushort \<Rightarrow> nat \<Rightarrow> ushort \<Rightarrow> ushort" where
  "sgr_single default_attributes param a =
    (if param = 0 then default_attributes
     else if param = 1 then a OR 0x0008
     else if param = 22 then a AND NOT 0x0008
     else if param = 4 then a OR 0x8000
     else if param = 24 then a AND NOT 0x8000
     else if param = 7 then a OR 0x4000
     else if param = 27 then a AND NOT 0x4000
     else if param = 39 then (a AND NOT 0x000F) OR (default_attributes AND 0x000F)
     else if param = 49 then (a AND NOT 0x00F0) OR (default_attributes AND 0x00F0)
     else if param \<ge> 30 \<and> param \<le> 37 then set_foreground (param - 30) False a
     else if param \<ge> 90 \<and> param \<le> 97 then set_foreground (param - 90) True a
     else if param \<ge> 40 \<and> param \<le> 47 then set_background (param - 40) False a
     else if param \<ge> 100 \<and> param \<le> 107 then set_background (param - 100) True a
     else a)"

definition sgr_indexed :: "ulong list \<Rightarrow> bool \<Rightarrow> nat \<Rightarrow> ushort \<Rightarrow> ushort" where
  "sgr_indexed table foreground param a =
    (let index = clamp_byte param
     in if index < 16 then
          let base = index AND 0x07; bright = (index AND 0x08 \<noteq> 0)
          in if foreground then set_foreground base bright a else set_background base bright a
        else
          let (red, green, blue) = xterm_256_index_to_rgb index
          in set_palette_index (nearest_palette_index table red green blue) foreground a)"

definition sgr_true_color :: "ulong list \<Rightarrow> bool \<Rightarrow> nat \<Rightarrow> nat \<Rightarrow> nat \<Rightarrow> ushort \<Rightarrow> ushort" where
  "sgr_true_color table foreground red green blue a =
    set_palette_index (nearest_palette_index table (clamp_byte red) (clamp_byte green) (clamp_byte blue)) foreground a"

text \<open>The loop over the parameters, on the parameters from the index on.\<close>

function apply_sgr :: "ulong list \<Rightarrow> ushort \<Rightarrow> nat list \<Rightarrow> ushort \<Rightarrow> ushort" where
  "apply_sgr table d [] a = a"
| "apply_sgr table d (param # rest) a =
    (if param = 38 \<or> param = 48 then
       (case rest of
          [] \<Rightarrow> apply_sgr table d rest a
        | mode # more \<Rightarrow>
            if mode = 5 \<and> more \<noteq> [] then apply_sgr table d (drop 1 more) (sgr_indexed table (param = 38) (more ! 0) a)
            else if mode = 2 \<and> length more \<ge> 3
            then apply_sgr table d (drop 3 more) (sgr_true_color table (param = 38) (more ! 0) (more ! 1) (more ! 2) a)
            else apply_sgr table d rest a)
     else apply_sgr table d rest (sgr_single d param a))"
  by pat_completeness auto

termination
  by (relation "measure (\<lambda>(table, d, params, a). length params)") auto

section \<open>Properties\<close>

lemma u32_le: "u32 n \<le> 4294967295"
  by (simp add: u32_def)

lemma nearest_loop_spec:
  "nearest_loop dist i bi bd table = r \<Longrightarrow>
    (r = bi \<and> (\<forall>k < length table. bd \<le> dist (table ! k)))
    \<or> (\<exists>k < length table. r = i + k \<and> dist (table ! k) < bd
        \<and> (\<forall>j < length table. dist (table ! k) \<le> dist (table ! j)) \<and> (\<forall>j < k. dist (table ! k) < dist (table ! j)))"
proof (induction table arbitrary: i bi bd)
  case (Cons c cs)
  show ?case
  proof (cases "dist c < bd")
    case True
    with Cons.prems have "nearest_loop dist (i + 1) i (dist c) cs = r" by simp
    from Cons.IH [OF this] show ?thesis
    proof (elim disjE exE conjE)
      assume "r = i" "\<forall>k < length cs. dist c \<le> dist (cs ! k)"
      with True show ?thesis by (intro disjI2 exI [of _ 0]) (auto simp: nth_Cons split: nat.split)
    next
      fix k assume "k < length cs" "r = i + 1 + k" "dist (cs ! k) < dist c"
        "\<forall>j < length cs. dist (cs ! k) \<le> dist (cs ! j)" "\<forall>j < k. dist (cs ! k) < dist (cs ! j)"
      with True show ?thesis by (intro disjI2 exI [of _ "Suc k"]) (auto simp: nth_Cons less_Suc_eq_le split: nat.split)
    qed
  next
    case False
    with Cons.prems have "nearest_loop dist (i + 1) bi bd cs = r" by simp
    from Cons.IH [OF this] show ?thesis
    proof (elim disjE exE conjE)
      assume "r = bi" "\<forall>k < length cs. bd \<le> dist (cs ! k)"
      with False show ?thesis by (intro disjI1) (auto simp: nth_Cons split: nat.split)
    next
      fix k assume "k < length cs" "r = i + 1 + k" "dist (cs ! k) < bd"
        "\<forall>j < length cs. dist (cs ! k) \<le> dist (cs ! j)" "\<forall>j < k. dist (cs ! k) < dist (cs ! j)"
      with False show ?thesis by (intro disjI2 exI [of _ "Suc k"]) (auto simp: nth_Cons split: nat.split)
    qed
  qed
qed simp

text \<open>The squared distance of two channels, below 256 each, without wrap-around.\<close>

lemma channel_le: "unat (w AND 0xFF :: ulong) \<le> 255"
proof -
  have "w AND 0xFF \<le> (0xFF :: ulong)" by (rule word_and_le1)
  then show ?thesis by (simp add: word_le_nat_alt)
qed

lemma square_le: "p \<le> 255 \<Longrightarrow> r \<le> 255 \<Longrightarrow> nat ((int p - int r) * (int p - int r)) \<le> 65025"
proof -
  assume "p \<le> 255" "r \<le> 255"
  then have "\<bar>int p - int r\<bar> \<le> 255" by linarith
  then have "\<bar>int p - int r\<bar> * \<bar>int p - int r\<bar> \<le> 255 * 255" by (intro mult_mono) auto
  then show ?thesis by (simp flip: abs_mult)
qed

lemma palette_distance_less:
  assumes "red \<le> 255" "green \<le> 255" "blue \<le> 255"
  shows "palette_distance red green blue color < 4294967295"
proof -
  have sum: "u32 (u32 a + u32 b + u32 c) \<le> 195075" if "a \<le> 65025" "b \<le> 65025" "c \<le> 65025" for a b c
    using that by (simp add: u32_def)
  have "palette_distance red green blue color \<le> 195075"
    unfolding palette_distance_def Let_def using assms by (intro sum square_le channel_le)
  then show ?thesis by simp
qed

text \<open>
  The palette entry chosen for a colour is the first of those with the least distance: it
  exists in the palette, no entry is nearer, and every earlier entry is strictly farther.
\<close>

theorem nearest_palette_index_minimal:
  assumes "table \<noteq> []" and "red \<le> 255" and "green \<le> 255" and "blue \<le> 255"
  shows "nearest_palette_index table red green blue < length table
    \<and> (\<forall>j < length table. palette_distance red green blue (table ! nearest_palette_index table red green blue)
          \<le> palette_distance red green blue (table ! j))
    \<and> (\<forall>j < nearest_palette_index table red green blue.
          palette_distance red green blue (table ! nearest_palette_index table red green blue)
            < palette_distance red green blue (table ! j))"
proof -
  have "\<not> (\<forall>k < length table. 4294967295 \<le> palette_distance red green blue (table ! k))"
    using assms palette_distance_less [OF assms(2-4), of "table ! 0"] by (auto simp: not_le)
  with nearest_loop_spec [OF refl, of "palette_distance red green blue" 0 0 4294967295 table]
  show ?thesis by (auto simp: nearest_palette_index_def)
qed

theorem nearest_palette_index_minimal_witness:
  "nearest_palette_index [0x000000, 0x0000FF, 0xFFFFFF] 250 10 10 = 1"
proof -
  have "nearest_palette_index [0x000000, 0x0000FF, 0xFFFFFF] 250 10 10 < length [0x000000, 0x0000FF, 0xFFFFFF :: ulong]"
    using nearest_palette_index_minimal [of "[0x000000, 0x0000FF, 0xFFFFFF]" 250 10 10] by simp
  then show ?thesis by (simp add: nearest_palette_index_def palette_distance_def u32_def)
qed

text \<open>
  The colours and the two flags of the sequences are the bits 0 to 7, 14 and 15; the mask of the
  others is \<open>0x3F00\<close>.
\<close>

lemma or_other: "m AND 0x3F00 = 0 \<Longrightarrow> (x OR m) AND 0x3F00 = x AND (0x3F00 :: ushort)"
  by (simp add: bit.conj_disj_distrib2)

lemma palette_bits_other: "of_nat (x AND m) AND 0x3F00 = (of_nat x AND (of_nat m AND 0x3F00) :: ushort)"
  by (simp add: of_nat_and_eq and.assoc)

lemma other_bits_colors:
  "set_foreground c br a AND 0x3F00 = a AND 0x3F00" "set_background c br a AND 0x3F00 = a AND 0x3F00"
  "set_palette_index i fg a AND 0x3F00 = a AND 0x3F00"
  by (simp_all add: set_foreground_def set_background_def set_palette_index_def Let_def or_other and.assoc
      palette_bits_other)

lemma other_bits_single: "param \<noteq> 0 \<Longrightarrow> sgr_single d param a AND 0x3F00 = a AND 0x3F00"
  by (simp add: sgr_single_def other_bits_colors or_other and.assoc)

lemma other_bits_extended:
  "sgr_indexed table fg p a AND 0x3F00 = a AND 0x3F00" "sgr_true_color table fg r g b a AND 0x3F00 = a AND 0x3F00"
  by (simp_all add: sgr_indexed_def sgr_true_color_def Let_def other_bits_colors split: prod.split)

text \<open>
  Whatever the parameters, a rendition sequence touches the colours, reverse video and
  underscore only: the other attribute bits afterwards are those the attributes had, or the
  default ones when the parameters reset the attributes.
\<close>

theorem sgr_keeps_other_bits:
  "apply_sgr table d params a AND 0x3F00 = a AND 0x3F00 \<or> apply_sgr table d params a AND 0x3F00 = d AND 0x3F00"
proof (induction table d params a rule: apply_sgr.induct)
  case (2 table d param rest a)
  show ?case
  proof (cases "param = 38 \<or> param = 48")
    case True
    with 2(1-4) show ?thesis by (auto simp: other_bits_extended split: list.split)
  next
    case False
    have "sgr_single d param a AND 0x3F00 = a AND 0x3F00 \<or> sgr_single d param a AND 0x3F00 = d AND 0x3F00"
      using other_bits_single [of param d a] by (cases "param = 0") (auto simp: sgr_single_def)
    with 2(5) False show ?thesis by auto
  qed
qed simp

end
