(* ===== verification/Fast_Number.thy ===== *)
theory Fast_Number
  imports Conhost_Prelude
begin

text \<open>
  \<open>src/src/serialization/fast_number.cpp\<close>: the wide-character integer parsers and the integer
  formatter. The accumulators are 64-bit words, as in the source, and the loops keep its order
  of checks. Floating-point parsing and formatting only forward to \<open>std::from_chars\<close> and
  \<open>std::to_chars\<close> and are not modelled.
\<close>

section \<open>Definitions\<close>

datatype NumberErrorCode =
    empty_input
  | invalid_character
  | overflow
  | underflow
  | buffer_too_small
  | conversion_failure

abbreviation int32_max :: "64 word" where "int32_max \<equiv> 2147483647"
abbreviation uint32_max :: "64 word" where "uint32_max \<equiv> 4294967295"
abbreviation uint64_max :: "64 word" where "uint64_max \<equiv> 18446744073709551615"

subsection \<open>Decimal parsers\<close>

fun signed_loop :: "bool \<Rightarrow> 64 word \<Rightarrow> wstring \<Rightarrow> NumberErrorCode + 64 word" where
  "signed_loop negative accumulator [] = Inr accumulator"
| "signed_loop negative accumulator (ch # rest) =
     (if ch < 0x30 \<or> ch > 0x39 then Inl invalid_character
      else
        let digit = (ucast (ch - 0x30) :: 32 word);
            accumulator' = accumulator * 10 + ucast digit
        in if \<not> negative \<and> accumulator' > int32_max then Inl overflow
           else if negative \<and> accumulator' > int32_max + 1 then Inl underflow
           else signed_loop negative accumulator' rest)"

definition parse_signed_32 :: "wstring \<Rightarrow> NumberErrorCode + 32 word" where
  "parse_signed_32 text =
     (case text of
        [] \<Rightarrow> Inl empty_input
      | ch # tail \<Rightarrow>
          let signed = (ch = 0x2B \<or> ch = 0x2D);
              negative = (signed \<and> ch = 0x2D);
              rest = (if signed then tail else text)
          in if rest = [] then Inl invalid_character
             else case signed_loop negative 0 rest of
                    Inl e \<Rightarrow> Inl e
                  | Inr accumulator \<Rightarrow>
                      if \<not> negative then Inr (ucast accumulator)
                      else if accumulator = int32_max + 1 then Inr 0x80000000
                      else Inr (- ucast accumulator))"

fun unsigned_loop :: "64 word \<Rightarrow> wstring \<Rightarrow> NumberErrorCode + 64 word" where
  "unsigned_loop accumulator [] = Inr accumulator"
| "unsigned_loop accumulator (ch # rest) =
     (if ch < 0x30 \<or> ch > 0x39 then Inl invalid_character
      else
        let digit = (ucast (ch - 0x30) :: 32 word);
            accumulator' = accumulator * 10 + ucast digit
        in if accumulator' > uint32_max then Inl overflow
           else unsigned_loop accumulator' rest)"

definition parse_unsigned_32 :: "wstring \<Rightarrow> NumberErrorCode + 32 word" where
  "parse_unsigned_32 text =
     (case text of
        [] \<Rightarrow> Inl empty_input
      | ch # tail \<Rightarrow>
          let rest = (if ch = 0x2B then tail else text)
          in if rest = [] then Inl invalid_character
             else map_sum id ucast (unsigned_loop 0 rest))"

subsection \<open>Hexadecimal parsers\<close>

definition hex_digit :: "wchar \<Rightarrow> nat option" where
  "hex_digit ch =
     (if 0x30 \<le> ch \<and> ch \<le> 0x39 then Some (unat (ch - 0x30))
      else if 0x61 \<le> ch \<and> ch \<le> 0x66 then Some (unat (ch - 0x61 + 10))
      else if 0x41 \<le> ch \<and> ch \<le> 0x46 then Some (unat (ch - 0x41 + 10))
      else None)"

text \<open>The optional \<open>0x\<close> or \<open>0X\<close> prefix: what is left to parse, or the error.\<close>

definition hex_body :: "wstring \<Rightarrow> bool \<Rightarrow> NumberErrorCode + wstring" where
  "hex_body text require_prefix =
     (if text = [] then Inl empty_input
      else if length text \<ge> 2 \<and> text ! 0 = 0x30 \<and> (text ! 1 = 0x78 \<or> text ! 1 = 0x58)
      then (if drop 2 text = [] then Inl invalid_character else Inr (drop 2 text))
      else if require_prefix then Inl invalid_character
      else Inr text)"

fun hex32_loop :: "64 word \<Rightarrow> wstring \<Rightarrow> NumberErrorCode + 64 word" where
  "hex32_loop accumulator [] = Inr accumulator"
| "hex32_loop accumulator (ch # rest) =
     (case hex_digit ch of
        None \<Rightarrow> Inl invalid_character
      | Some digit \<Rightarrow>
          let accumulator' = push_bit 4 accumulator OR of_nat digit
          in if accumulator' > uint32_max then Inl overflow
             else hex32_loop accumulator' rest)"

definition parse_hex_unsigned_32 :: "wstring \<Rightarrow> bool \<Rightarrow> NumberErrorCode + 32 word" where
  "parse_hex_unsigned_32 text require_prefix =
     (case hex_body text require_prefix of
        Inl e \<Rightarrow> Inl e
      | Inr body \<Rightarrow> map_sum id ucast (hex32_loop 0 body))"

fun hex64_loop :: "64 word \<Rightarrow> wstring \<Rightarrow> NumberErrorCode + 64 word" where
  "hex64_loop accumulator [] = Inr accumulator"
| "hex64_loop accumulator (ch # rest) =
     (case hex_digit ch of
        None \<Rightarrow> Inl invalid_character
      | Some digit \<Rightarrow>
          if accumulator > drop_bit 4 uint64_max then Inl overflow
          else hex64_loop (push_bit 4 accumulator OR of_nat digit) rest)"

definition parse_hex_unsigned_64 :: "wstring \<Rightarrow> bool \<Rightarrow> NumberErrorCode + 64 word" where
  "parse_hex_unsigned_64 text require_prefix =
     (case hex_body text require_prefix of
        Inl e \<Rightarrow> Inl e
      | Inr body \<Rightarrow> hex64_loop 0 body)"

subsection \<open>Public entry points\<close>

definition parse_i16 :: "wstring \<Rightarrow> NumberErrorCode + 16 word" where
  "parse_i16 text =
     (case parse_signed_32 text of
        Inl e \<Rightarrow> Inl e
      | Inr parsed \<Rightarrow>
          if sint parsed > 32767 then Inl overflow
          else if sint parsed < - 32768 then Inl underflow
          else Inr (ucast parsed))"

definition parse_i32 :: "wstring \<Rightarrow> NumberErrorCode + 32 word" where
  "parse_i32 text = parse_signed_32 text"

definition parse_u32 :: "wstring \<Rightarrow> NumberErrorCode + 32 word" where
  "parse_u32 text = parse_unsigned_32 text"

definition parse_hex_u32 :: "wstring \<Rightarrow> bool \<Rightarrow> NumberErrorCode + 32 word" where
  "parse_hex_u32 text require_prefix = parse_hex_unsigned_32 text require_prefix"

definition parse_hex_u64 :: "wstring \<Rightarrow> bool \<Rightarrow> NumberErrorCode + 64 word" where
  "parse_hex_u64 text require_prefix = parse_hex_unsigned_64 text require_prefix"

subsection \<open>Formatting\<close>

text \<open>
  \<open>std::to_chars\<close> for integers in base ten: the shortest decimal representation, a minus sign
  for negative values, \<open>value_too_large\<close> (here \<^const>\<open>None\<close>) when the buffer is too short.
\<close>

fun dec_digits :: "nat \<Rightarrow> byte list" where
  "dec_digits n =
     (if n < 10 then [of_nat (48 + n)] else dec_digits (n div 10) @ [of_nat (48 + n mod 10)])"

declare dec_digits.simps [simp del]

definition to_chars_int :: "nat \<Rightarrow> int \<Rightarrow> byte list option" where
  "to_chars_int capacity value =
     (let chars = (if value < 0 then 0x2D # dec_digits (nat (- value)) else dec_digits (nat value))
      in if length chars > capacity then None else Some chars)"

definition format_integer :: "int \<Rightarrow> NumberErrorCode + byte list" where
  "format_integer value =
     (case to_chars_int 64 value of
        None \<Rightarrow> Inl buffer_too_small
      | Some chars \<Rightarrow> Inr chars)"

definition format_i64 :: "64 word \<Rightarrow> NumberErrorCode + byte list" where
  "format_i64 value = format_integer (sint value)"

definition format_u64 :: "64 word \<Rightarrow> NumberErrorCode + byte list" where
  "format_u64 value = format_integer (uint value)"

section \<open>Reference semantics\<close>

definition dec_digit :: "wchar \<Rightarrow> nat option" where
  "dec_digit ch = (if 0x30 \<le> ch \<and> ch \<le> 0x39 then Some (unat (ch - 0x30)) else None)"

text \<open>A decimal literal with an optional sign and the integer it denotes, unbounded.\<close>

definition decimal_literal :: "wstring \<Rightarrow> int option" where
  "decimal_literal text =
     (case text of
        [] \<Rightarrow> None
      | ch # tail \<Rightarrow>
          if (ch = 0x2D \<or> ch = 0x2B) \<and> tail = [] then None
          else if ch = 0x2D then map_option (\<lambda>n. - int n) (horner 10 dec_digit 0 tail)
          else if ch = 0x2B then map_option int (horner 10 dec_digit 0 tail)
          else map_option int (horner 10 dec_digit 0 text))"

lemma dec_digit_lt: "dec_digit c = Some d \<Longrightarrow> d < 10"
proof -
  assume "dec_digit c = Some d"
  then have c: "0x30 \<le> c" "c \<le> 0x39" and d: "d = unat (c - 0x30)"
    by (auto simp: dec_digit_def split: if_splits)
  from c have "unat (c - 0x30) = unat c - 48" "unat c \<le> 57" "48 \<le> unat c"
    by (auto simp: unat_sub word_le_nat_alt)
  with d show ?thesis by simp
qed

lemma hex_digit_lt: "hex_digit c = Some d \<Longrightarrow> d < 16"
proof -
  assume d: "hex_digit c = Some d"
  have sub: "unat (c - x) = unat c - unat x" if "x \<le> c" for x
    using that by (simp add: unat_sub word_le_nat_alt)
  have ten: "unat (c - x + 10) = unat c - unat x + 10" if "x \<le> c" "unat c - unat x \<le> 5" for x
    using that by (simp add: unat_word_ariths sub)
  consider "0x30 \<le> c" "c \<le> 0x39" "d = unat (c - 0x30)"
    | "0x61 \<le> c" "c \<le> 0x66" "d = unat (c - 0x61 + 10)"
    | "0x41 \<le> c" "c \<le> 0x46" "d = unat (c - 0x41 + 10)"
    using d by (auto simp: hex_digit_def split: if_splits)
  then show ?thesis
  proof cases
    case 1
    then show ?thesis by (simp add: sub word_le_nat_alt)
  next
    case 2
    then have "unat c \<le> 102" "97 \<le> unat c" by (simp_all add: word_le_nat_alt)
    with 2 ten [of "0x61"] show ?thesis by simp
  next
    case 3
    then have "unat c \<le> 70" "65 \<le> unat c" by (simp_all add: word_le_nat_alt)
    with 3 ten [of "0x41"] show ?thesis by simp
  qed
qed

interpretation dec: positional 10 dec_digit
  by unfold_locales (auto dest: dec_digit_lt)

interpretation hex: positional 16 hex_digit
  by unfold_locales (auto dest: hex_digit_lt)

section \<open>The loops refine the capped reference loop\<close>

lemma dec_digit_iff: "(ch < 0x30 \<or> ch > 0x39) \<longleftrightarrow> dec_digit ch = None" for ch :: wchar
  by (auto simp: dec_digit_def not_less)

lemma dec_step:
  assumes d: "dec_digit ch = Some d" and acc: "unat acc \<le> 4294967296"
  shows "unat (acc * 10 + ucast (ucast (ch - 0x30) :: 32 word) :: 64 word) = unat acc * 10 + d"
proof -
  have d': "d = unat (ch - 0x30)" and lt: "d < 10"
    using d dec_digit_lt by (auto simp: dec_digit_def split: if_splits)
  have "unat (ucast (ucast (ch - 0x30) :: 32 word) :: 64 word) = d"
    using d' lt by (simp add: unat_ucast_up)
  with acc lt show ?thesis by (simp add: unat_word_ariths)
qed

definition result_value :: "NumberErrorCode + 'a::len word \<Rightarrow> nat option" where
  "result_value r = (case r of Inl _ \<Rightarrow> None | Inr a \<Rightarrow> Some (unat a))"

lemma result_value_simps [simp]:
  "result_value (Inl e) = None" "result_value (Inr a) = Some (unat a)"
  by (simp_all add: result_value_def)

definition signed_limit :: "bool \<Rightarrow> nat" where
  "signed_limit negative = (if negative then 2147483648 else 2147483647)"

lemma signed_loop_capped:
  "unat acc \<le> signed_limit neg \<Longrightarrow>
    result_value (signed_loop neg acc cs) = capped 10 dec_digit (signed_limit neg) (unat acc) cs"
proof (induction cs arbitrary: acc)
  case Nil
  then show ?case by simp
next
  case (Cons ch cs)
  show ?case
  proof (cases "dec_digit ch")
    case None
    then show ?thesis by (simp add: dec_digit_iff)
  next
    case (Some d)
    define acc' :: "64 word" where "acc' = acc * 10 + ucast (ucast (ch - 0x30) :: 32 word)"
    have u: "unat acc' = unat acc * 10 + d"
      using Some Cons.prems by (auto simp: acc'_def dec_step signed_limit_def split: if_splits)
    have nd: "\<not> (ch < 0x30 \<or> ch > 0x39)" using Some by (simp add: dec_digit_iff)
    have over: "(\<not> neg \<and> acc' > int32_max \<or> neg \<and> acc' > int32_max + 1) \<longleftrightarrow>
        signed_limit neg < unat acc'"
      by (auto simp: word_less_nat_alt signed_limit_def)
    show ?thesis
    proof (cases "signed_limit neg < unat acc'")
      case True
      with over nd Some u show ?thesis
        by (auto simp: Let_def acc'_def [symmetric] simp del: not_less)
    next
      case False
      with over have no: "\<not> (\<not> neg \<and> acc' > int32_max)" "\<not> (neg \<and> acc' > int32_max + 1)"
        by blast+
      have "signed_loop neg acc (ch # cs) = signed_loop neg acc' cs"
        using nd no by (simp only: signed_loop.simps Let_def acc'_def [symmetric] if_False)
      with False Cons.IH [of acc'] Some u show ?thesis by simp
    qed
  qed
qed

lemma unsigned_loop_capped:
  "unat acc \<le> 4294967295 \<Longrightarrow>
    result_value (unsigned_loop acc cs) = capped 10 dec_digit 4294967295 (unat acc) cs"
proof (induction cs arbitrary: acc)
  case Nil
  then show ?case by simp
next
  case (Cons ch cs)
  show ?case
  proof (cases "dec_digit ch")
    case None
    then show ?thesis by (simp add: dec_digit_iff)
  next
    case (Some d)
    define acc' :: "64 word" where "acc' = acc * 10 + ucast (ucast (ch - 0x30) :: 32 word)"
    have u: "unat acc' = unat acc * 10 + d"
      using Some Cons.prems by (simp add: acc'_def dec_step)
    have nd: "\<not> (ch < 0x30 \<or> ch > 0x39)" using Some by (simp add: dec_digit_iff)
    have over: "acc' > uint32_max \<longleftrightarrow> 4294967295 < unat acc'"
      by (simp add: word_less_nat_alt)
    have "unsigned_loop acc (ch # cs) =
        (if acc' > uint32_max then Inl overflow else unsigned_loop acc' cs)"
      using nd by (simp only: unsigned_loop.simps Let_def acc'_def [symmetric] if_False)
    with over Cons.IH [of acc'] Some u show ?thesis by simp
  qed
qed

text \<open>Shifting by four and or-ing a digit in is multiplying by sixteen and adding it.\<close>

lemma hex_step:
  fixes acc :: "64 word"
  assumes "d < 16" and "unat acc \<le> 1152921504606846975"
  shows "unat (push_bit 4 acc OR of_nat d) = unat acc * 16 + d"
proof -
  have "push_bit 4 acc OR (of_nat d :: 64 word) = push_bit 4 acc + of_nat d"
  proof (rule disjunctive_add [symmetric])
    fix n
    show "\<not> bit (push_bit 4 acc) n \<or> \<not> bit (of_nat d :: 64 word) n"
    proof (cases "n < 4")
      case True
      then show ?thesis by (simp add: bit_push_bit_iff)
    next
      case False
      have "d div 2 ^ n = 0"
        using assms(1) False power_increasing [of 4 n "2::nat"] by (simp add: div_eq_0_iff)
      then have "\<not> bit d n" by (simp add: bit_iff_odd)
      then show ?thesis by (simp add: bit_of_nat_iff)
    qed
  qed
  moreover have "unat (push_bit 4 acc) = unat acc * 16"
    using assms(2) by (simp add: push_bit_eq_mult unat_word_ariths)
  ultimately show ?thesis
    using assms by (simp add: unat_word_ariths unat_of_nat)
qed

lemma hex32_loop_capped:
  "unat acc \<le> 4294967295 \<Longrightarrow>
    result_value (hex32_loop acc cs) = capped 16 hex_digit 4294967295 (unat acc) cs"
proof (induction cs arbitrary: acc)
  case Nil
  then show ?case by simp
next
  case (Cons ch cs)
  show ?case
  proof (cases "hex_digit ch")
    case None
    then show ?thesis by simp
  next
    case (Some d)
    have u: "unat (push_bit 4 acc OR of_nat d) = unat acc * 16 + d"
      using Some Cons.prems hex_digit_lt by (simp add: hex_step)
    have over: "push_bit 4 acc OR of_nat d > uint32_max \<longleftrightarrow> 4294967295 < unat acc * 16 + d"
      by (simp add: word_less_nat_alt u)
    show ?thesis
      using Some over u Cons.IH [of "push_bit 4 acc OR of_nat d"] by (simp add: Let_def)
  qed
qed

lemma hex64_loop_capped:
  "result_value (hex64_loop acc cs) = capped 16 hex_digit 18446744073709551615 (unat acc) cs"
proof (induction cs arbitrary: acc)
  case Nil
  then show ?case by simp
next
  case (Cons ch cs)
  show ?case
  proof (cases "hex_digit ch")
    case None
    then show ?thesis by simp
  next
    case (Some d)
    have d: "d < 16" using Some by (rule hex_digit_lt)
    have lim: "drop_bit 4 uint64_max = 1152921504606846975" by simp
    have over: "acc > 1152921504606846975 \<longleftrightarrow> 18446744073709551615 < unat acc * 16 + d"
      using d by (auto simp: word_less_nat_alt)
    show ?thesis
    proof (cases "acc > 1152921504606846975")
      case True
      with over Some lim show ?thesis by simp
    next
      case False
      then have "unat acc \<le> 1152921504606846975" by (simp add: word_less_nat_alt not_less)
      with d have "unat (push_bit 4 acc OR of_nat d) = unat acc * 16 + d" by (rule hex_step)
      with False over Some lim Cons.IH [of "push_bit 4 acc OR of_nat d"] show ?thesis by simp
    qed
  qed
qed

section \<open>Exactness of the parsers\<close>

lemma result_value_eq: "result_value r = Some n \<longleftrightarrow> (\<exists>a. r = Inr a \<and> unat a = n)"
  by (cases r) auto

lemma signed_loop_exact:
  "(\<exists>a. signed_loop neg 0 cs = Inr a \<and> unat a = n) \<longleftrightarrow>
    horner 10 dec_digit 0 cs = Some n \<and> n \<le> signed_limit neg"
  using signed_loop_capped [of 0 neg cs] dec.capped_iff [of 0 "signed_limit neg" cs n]
  by (simp add: result_value_eq [symmetric])

lemma sint_of_int_32:
  "- 2147483648 \<le> k \<Longrightarrow> k < 2147483648 \<Longrightarrow> sint (word_of_int k :: 32 word) = k"
  by (simp add: signed_of_int signed_take_bit_int_eq_self)

lemma ucast_of_int: "(ucast (a :: 64 word) :: 32 word) = word_of_int (int (unat a))"
  by (simp add: of_nat_unat)

lemma parse_signed_32_body:
  assumes "cs \<noteq> []"
  shows "(\<exists>r. (case signed_loop neg 0 cs of Inl e \<Rightarrow> Inl e
              | Inr a \<Rightarrow> if \<not> neg then Inr (ucast a) else if a = int32_max + 1 then Inr 0x80000000
                        else Inr (- ucast a)) = (Inr r :: NumberErrorCode + 32 word) \<and> sint r = v)
    \<longleftrightarrow> map_option (\<lambda>n. if neg then - int n else int n) (horner 10 dec_digit 0 cs) = Some v
        \<and> - 2147483648 \<le> v \<and> v \<le> 2147483647" (is "?L \<longleftrightarrow> ?R")
proof -
  let ?val = "\<lambda>a :: 64 word. if neg then - int (unat a) else int (unat a)"
  have val: "(case signed_loop neg 0 cs of Inl e \<Rightarrow> Inl e
              | Inr a \<Rightarrow> if \<not> neg then Inr (ucast a) else if a = int32_max + 1 then Inr 0x80000000
                        else Inr (- ucast a))
      = map_sum id (\<lambda>a. word_of_int (?val a) :: 32 word) (signed_loop neg 0 cs)"
  proof (cases "signed_loop neg 0 cs")
    case (Inr a)
    have neg: "(word_of_int (- int (unat a)) :: 32 word) = - ucast a"
      by (simp only: ucast_of_int wi_hom_neg)
    show ?thesis
    proof (cases "a = int32_max + 1")
      case True
      then show ?thesis by (simp add: Inr)
    next
      case False
      then show ?thesis
        unfolding Inr sum.case map_sum.simps id_apply
        by (cases neg; simp only: if_True if_False not_True_eq_False not_False_eq_True
            ucast_of_int [symmetric] neg)
    qed
  qed simp
  have rng: "- 2147483648 \<le> ?val a \<and> ?val a < 2147483648" if "signed_loop neg 0 cs = Inr a" for a
    using signed_loop_exact [of neg cs "unat a"] that
    by (auto simp: signed_limit_def simp del: of_nat_unat split: if_splits)
  have "?L \<longleftrightarrow> (\<exists>a. signed_loop neg 0 cs = Inr a \<and> ?val a = v)"
    unfolding val using rng sint_of_int_32 by (cases "signed_loop neg 0 cs") auto
  also have "\<dots> \<longleftrightarrow> (\<exists>n. (\<exists>a. signed_loop neg 0 cs = Inr a \<and> unat a = n)
      \<and> (if neg then - int n else int n) = v)"
    by (cases neg) (auto simp del: of_nat_unat)
  also have "\<dots> \<longleftrightarrow> ?R"
    unfolding signed_loop_exact by (auto simp: signed_limit_def)
  finally show ?thesis .
qed

lemma parse_signed_32_exact:
  "(\<exists>r. parse_signed_32 text = Inr r \<and> sint r = v) \<longleftrightarrow>
    decimal_literal text = Some v \<and> - 2147483648 \<le> v \<and> v \<le> 2147483647"
proof (cases "text")
  case Nil
  then show ?thesis by (simp add: parse_signed_32_def decimal_literal_def)
next
  case (Cons ch tail)
  consider "ch = 0x2D" | "ch = 0x2B" | "ch \<noteq> 0x2D" "ch \<noteq> 0x2B" by blast
  then show ?thesis
  proof cases
    case 1
    then show ?thesis
      using parse_signed_32_body [of tail True v] Cons
      by (simp add: parse_signed_32_def decimal_literal_def)
  next
    case 2
    then show ?thesis
      using parse_signed_32_body [of tail False v] Cons
      by (simp add: parse_signed_32_def decimal_literal_def)
  next
    case 3
    then show ?thesis
      using parse_signed_32_body [of "text" False v] Cons
      by (simp add: parse_signed_32_def decimal_literal_def)
  qed
qed

definition unsigned_literal :: "wstring \<Rightarrow> nat option" where
  "unsigned_literal text =
     (case text of
        [] \<Rightarrow> None
      | ch # tail \<Rightarrow>
          if ch = 0x2B then (if tail = [] then None else horner 10 dec_digit 0 tail)
          else horner 10 dec_digit 0 text)"

definition hex_literal :: "wstring \<Rightarrow> bool \<Rightarrow> nat option" where
  "hex_literal text require_prefix =
     (if take 2 text = [0x30, 0x78] \<or> take 2 text = [0x30, 0x58]
      then (if drop 2 text = [] then None else horner 16 hex_digit 0 (drop 2 text))
      else if require_prefix \<or> text = [] then None
      else horner 16 hex_digit 0 text)"

lemma unat_ucast_small: "unat (a :: 64 word) \<le> 4294967295 \<Longrightarrow> unat (ucast a :: 32 word) = unat a"
  by (simp add: unat_ucast_mod)

lemma narrow_exact:
  fixes r :: "NumberErrorCode + 64 word"
  assumes "result_value r = capped base dig 4294967295 0 cs" and "positional base dig"
  shows "(\<exists>w. map_sum id ucast r = (Inr w :: NumberErrorCode + 32 word) \<and> unat w = n) \<longleftrightarrow>
    horner base dig 0 cs = Some n \<and> n \<le> 4294967295"
proof -
  have iff: "(\<exists>a. r = Inr a \<and> unat a = n) \<longleftrightarrow> horner base dig 0 cs = Some n \<and> n \<le> 4294967295" for n
    using positional.capped_iff [OF assms(2), of 0 4294967295 cs n]
    by (simp add: result_value_eq [symmetric] assms(1))
  show ?thesis
  proof (cases r)
    case (Inr a)
    have "unat a \<le> 4294967295" using iff [of "unat a"] Inr by simp
    then have "unat (ucast a :: 32 word) = unat a" by (rule unat_ucast_small)
    then show ?thesis using iff [of n] Inr by simp
  qed (use iff [of n] in simp)
qed

lemma parse_unsigned_32_exact:
  "(\<exists>r. parse_unsigned_32 text = Inr r \<and> unat r = n) \<longleftrightarrow>
    unsigned_literal text = Some n \<and> n \<le> 4294967295"
proof -
  have "result_value (unsigned_loop 0 cs) = capped 10 dec_digit 4294967295 0 cs" for cs
    using unsigned_loop_capped [of 0 cs] by simp
  note ex = narrow_exact [OF this dec.positional_axioms]
  show ?thesis
    by (cases "text") (simp_all add: parse_unsigned_32_def unsigned_literal_def Let_def ex
        del: unsigned_loop.simps horner.simps)
qed

lemma hex_body_literal:
  "(case hex_body text require_prefix of Inl _ \<Rightarrow> None | Inr body \<Rightarrow> horner 16 hex_digit 0 body) =
    hex_literal text require_prefix"
proof (cases "text")
  case Nil
  then show ?thesis by (simp add: hex_body_def hex_literal_def)
next
  case (Cons x xs)
  then show ?thesis by (cases xs) (auto simp: hex_body_def hex_literal_def)
qed

lemma parse_hex_unsigned_32_exact:
  "(\<exists>r. parse_hex_unsigned_32 text require_prefix = Inr r \<and> unat r = n) \<longleftrightarrow>
    hex_literal text require_prefix = Some n \<and> n \<le> 4294967295"
proof -
  have "result_value (hex32_loop 0 cs) = capped 16 hex_digit 4294967295 0 cs" for cs
    using hex32_loop_capped [of 0 cs] by simp
  note ex = narrow_exact [OF this hex.positional_axioms]
  show ?thesis
    unfolding hex_body_literal [symmetric] parse_hex_unsigned_32_def
    by (cases "hex_body text require_prefix") (simp_all add: ex)
qed

lemma parse_hex_unsigned_64_exact:
  "(\<exists>r. parse_hex_unsigned_64 text require_prefix = Inr r \<and> unat r = n) \<longleftrightarrow>
    hex_literal text require_prefix = Some n \<and> n \<le> 18446744073709551615"
proof -
  have ex: "(\<exists>a. hex64_loop 0 cs = Inr a \<and> unat a = n) \<longleftrightarrow>
      horner 16 hex_digit 0 cs = Some n \<and> n \<le> 18446744073709551615" for cs
    using hex64_loop_capped [of 0 cs] hex.capped_iff [of 0 18446744073709551615 cs n]
    by (simp add: result_value_eq [symmetric])
  show ?thesis
    unfolding hex_body_literal [symmetric] parse_hex_unsigned_64_def
    by (cases "hex_body text require_prefix") (simp_all add: ex)
qed

section \<open>Round trip\<close>

lemma dec_digit_of_nat: "d < 10 \<Longrightarrow> dec_digit (ucast (of_nat (48 + d) :: byte)) = Some d"
proof -
  assume "d < 10"
  then have "d \<in> {0,1,2,3,4,5,6,7,8,9}" by auto
  then show ?thesis by (auto simp: dec_digit_def)
qed

lemma horner_dec_digits: "horner 10 dec_digit 0 (map ucast (dec_digits n)) = Some n"
proof (induction n rule: dec_digits.induct)
  case (1 n)
  show ?case
  proof (cases "n < 10")
    case True
    then show ?thesis using dec_digit_of_nat [of n] by (simp add: dec_digits.simps [of n])
  next
    case False
    have d: "dec_digit (ucast (of_nat (48 + n mod 10) :: byte)) = Some (n mod 10)"
      by (rule dec_digit_of_nat) simp
    from False d "1.IH" show ?thesis
      by (simp add: dec_digits.simps [of n] dec.horner_append del: of_nat_add)
  qed
qed

lemma dec_digits_nonempty: "dec_digits n \<noteq> []"
  by (subst dec_digits.simps) simp

lemma length_dec_digits: "n < 10 ^ Suc k \<Longrightarrow> length (dec_digits n) \<le> Suc k"
proof (induction k arbitrary: n)
  case 0
  then show ?case by (simp add: dec_digits.simps [of n])
next
  case (Suc k)
  show ?case
  proof (cases "n < 10")
    case True
    then show ?thesis by (simp add: dec_digits.simps [of n])
  next
    case False
    have "n div 10 < 10 ^ Suc k" using Suc.prems by simp
    then have "length (dec_digits (n div 10)) \<le> Suc k" by (rule Suc.IH)
    with False show ?thesis by (simp add: dec_digits.simps [of n])
  qed
qed

lemma dec_digits_head: "\<exists>d < 10. hd (dec_digits n) = of_nat (48 + d)"
proof (induction n rule: dec_digits.induct)
  case (1 n)
  show ?case
  proof (cases "n < 10")
    case True
    then show ?thesis by (auto simp: dec_digits.simps [of n])
  next
    case False
    then show ?thesis
      using "1.IH" dec_digits_nonempty [of "n div 10"] by (simp add: dec_digits.simps [of n])
  qed
qed

lemma dec_digits_no_sign:
  "ucast (hd (dec_digits n)) \<noteq> (0x2B :: wchar)" "ucast (hd (dec_digits n)) \<noteq> (0x2D :: wchar)"
proof -
  obtain d where "d < 10" and hd: "hd (dec_digits n) = of_nat (48 + d)"
    using dec_digits_head by blast
  then have "d \<in> {0,1,2,3,4,5,6,7,8,9}" by auto
  then show "ucast (hd (dec_digits n)) \<noteq> (0x2B :: wchar)" "ucast (hd (dec_digits n)) \<noteq> (0x2D :: wchar)"
    by (auto simp: hd)
qed

lemma decimal_literal_digits: "decimal_literal (map ucast (dec_digits n)) = Some (int n)"
  using horner_dec_digits [of n] dec_digits_no_sign [of n] dec_digits_nonempty [of n]
  by (cases "dec_digits n") (simp_all add: decimal_literal_def)

lemma decimal_literal_neg: "decimal_literal (0x2D # map ucast (dec_digits n)) = Some (- int n)"
  using horner_dec_digits [of n] dec_digits_nonempty [of n] by (simp add: decimal_literal_def)

lemma format_integer_ok:
  assumes "\<bar>v\<bar> < 10 ^ 20"
  shows "\<exists>chars. format_integer v = Inr chars \<and> decimal_literal (map ucast chars) = Some v"
proof -
  have "nat \<bar>v\<bar> < 10 ^ Suc 19" using assms by (simp add: nat_less_iff)
  then have "length (dec_digits (nat \<bar>v\<bar>)) \<le> Suc 19" by (rule length_dec_digits)
  then show ?thesis
    using decimal_literal_digits [of "nat v"] decimal_literal_neg [of "nat (- v)"]
    by (cases "v < 0") (auto simp: format_integer_def to_chars_int_def Let_def)
qed

lemma signed_round_trip:
  fixes i :: "32 word"
  shows "\<exists>chars. format_i64 (scast i) = Inr chars \<and> parse_i32 (map ucast chars) = Inr i"
proof -
  have rng: "- 2147483648 \<le> sint i" "sint i \<le> 2147483647"
    using sint_ge [of i] sint_lt [of i] by simp_all
  have "sint (scast i :: 64 word) = sint i" using rng
    by (simp add: signed_scast_eq signed_take_bit_int_eq_self)
  moreover have "\<bar>sint i\<bar> < 10 ^ 20" using rng by simp
  ultimately obtain chars where c: "format_i64 (scast i) = Inr chars"
      and lit: "decimal_literal (map ucast chars) = Some (sint i)"
    using format_integer_ok [of "sint i"] unfolding format_i64_def by metis
  then obtain r where "parse_i32 (map ucast chars) = Inr r" "sint r = sint i"
    using parse_signed_32_exact [of "map ucast chars" "sint i"] rng by (auto simp: parse_i32_def)
  with c show ?thesis by (auto simp: signed_word_eqI)
qed

lemma unsigned_literal_digits: "unsigned_literal (map ucast (dec_digits n)) = Some n"
  using horner_dec_digits [of n] dec_digits_no_sign [of n] dec_digits_nonempty [of n]
  by (cases "dec_digits n") (simp_all add: unsigned_literal_def)

lemma unsigned_round_trip:
  fixes u :: "32 word"
  shows "\<exists>chars. format_u64 (ucast u) = Inr chars \<and> parse_u32 (map ucast chars) = Inr u"
proof -
  have lt: "unat u < 4294967296" using unsigned_less [of u] by simp
  have "unat (ucast u :: 64 word) = unat u" by (simp add: unat_ucast_up)
  then have "uint (ucast u :: 64 word) = int (unat u)" by (metis of_nat_unat)
  moreover have "length (dec_digits (unat u)) \<le> Suc 9"
    using lt by (intro length_dec_digits) simp
  ultimately have "format_u64 (ucast u) = Inr (dec_digits (unat u))"
    by (simp add: format_u64_def format_integer_def to_chars_int_def Let_def del: of_nat_unat)
  moreover obtain r where "parse_u32 (map ucast (dec_digits (unat u))) = Inr r" "unat r = unat u"
    using parse_unsigned_32_exact [of "map ucast (dec_digits (unat u))" "unat u"] lt
      unsigned_literal_digits [of "unat u"] by (auto simp: parse_u32_def)
  ultimately show ?thesis by (auto simp: unsigned_word_eqI)
qed

section \<open>Properties\<close>

text \<open>
  \<open>parse_i32\<close> is exact: it returns the 32-bit value \<open>v\<close> precisely when the text is a decimal
  literal (optional sign, at least one digit, nothing else) that denotes \<open>v\<close> and \<open>v\<close> fits into
  a signed 32-bit integer. In particular no accumulator wraps and \<open>INT32_MIN\<close> is accepted.
\<close>

theorem parse_i32_exact:
  "(\<exists>r. parse_i32 text = Inr r \<and> sint r = v) \<longleftrightarrow>
    decimal_literal text = Some v \<and> - (2 ^ 31) \<le> v \<and> v < 2 ^ 31"
  using parse_signed_32_exact [of "text" v] by (auto simp: parse_i32_def)

text \<open>
  \<open>parse_hex_u64\<close> is exact: with its optional or required \<open>0x\<close> prefix it returns the 64-bit
  value \<open>n\<close> precisely when the hexadecimal digits denote \<open>n\<close> and \<open>n < 2^64\<close>, although the
  overflow test looks only at the accumulator before the shift.
\<close>

theorem parse_hex_u64_exact:
  "(\<exists>r. parse_hex_u64 text require_prefix = Inr r \<and> unat r = n) \<longleftrightarrow>
    hex_literal text require_prefix = Some n \<and> n < 2 ^ 64"
  using parse_hex_unsigned_64_exact [of "text" require_prefix n] by (auto simp: parse_hex_u64_def)

text \<open>
  Formatting and parsing are inverse on every 32-bit value, signed and unsigned: the text
  that \<open>format_i64\<close> (\<open>format_u64\<close>) writes for the value, widened to UTF-16, is read back by
  \<open>parse_i32\<close> (\<open>parse_u32\<close>) as the same value.
\<close>

theorem format_parse_round_trip:
  fixes i u :: "32 word"
  shows "(\<exists>chars. format_i64 (scast i) = Inr chars \<and> parse_i32 (map ucast chars) = Inr i) \<and>
    (\<exists>chars. format_u64 (ucast u) = Inr chars \<and> parse_u32 (map ucast chars) = Inr u)"
  using signed_round_trip [of i] unsigned_round_trip [of u] by blast

end
