(* ===== verification/Vt_Csi.thy ===== *)
theory Vt_Csi
  imports Vt_Screen Vt_Sgr Fast_Number
begin

text \<open>
  The control sequences: the lambda \<open>apply_csi\<close> of \<open>apply_text_to_screen_buffer\<close>
  (\<open>condrv_server.hpp\<close>), one definition per branch, and the dispatch on the final character. An
  \<open>unsigned\<close> is a \<^typ>\<open>nat\<close>: the parser bounds the parameters, and every conversion to \<open>long\<close> is
  written out.
\<close>

definition param_or :: "nat \<Rightarrow> nat \<Rightarrow> VtCsiSequence \<Rightarrow> nat" where
  "param_or i d csi = (if length (csi_params csi) \<ge> i + 1 then csi_params csi ! i else d)"

text \<open>A count or a one-based position: absent and zero mean one.\<close>

definition count_param :: "nat \<Rightarrow> VtCsiSequence \<Rightarrow> nat" where
  "count_param i csi = (let n = param_or i 1 csi in if n = 0 then 1 else n)"

section \<open>Reports\<close>

text \<open>The response is built in an array of 32 bytes.\<close>

definition append_bytes :: "byte list \<Rightarrow> byte list \<Rightarrow> byte list" where
  "append_bytes bytes response = response @ take (32 - length response) bytes"

definition append_number :: "nat \<Rightarrow> byte list \<Rightarrow> byte list" where
  "append_number value response =
    (if 32 - length response = 0 then response
     else case to_chars_int (32 - length response) (int value) of None \<Rightarrow> response | Some chars \<Rightarrow> response @ chars)"

definition cursor_report :: "VtEnv \<Rightarrow> VtCsiSequence \<Rightarrow> VtRun \<Rightarrow> byte list" where
  "cursor_report e csi v =
    (let window = sb_window_rect (v_sb v); (tp, bt) = resolve_vertical_region e v;
         y_origin = (if v_origin_mode v then tp else r_top window);
         row = cy (v_cursor v) - y_origin + 1; col = cx (v_cursor v) - r_left window + 1;
         row = (if row < 1 then 1 else row); col = (if col < 1 then 1 else col);
         r = append_bytes [0x1B, 0x5B] [];
         r = (if csi_private_marker csi then append_bytes [0x3F] r else r);
         r = append_number (nat row) r;
         r = append_bytes [0x3B] r;
         r = append_number (nat col) r;
         r = (if csi_private_marker csi then append_bytes [0x3B, 0x31] r else r)
     in append_bytes [0x52] r)"

definition csi_dsr :: "VtEnv \<Rightarrow> VtCsiSequence \<Rightarrow> VtRun \<Rightarrow> VtRun" where
  "csi_dsr e csi v =
    (let ident = param_or 0 0 csi
     in if e_answers_queries e \<and> (ident = 5 \<or> ident = 6) then
          let response = (if ident = 5 then append_bytes [0x1B, 0x5B, 0x30, 0x6E] [] else cursor_report e csi v)
          in if response \<noteq> [] then v\<lparr>v_injected := v_injected v @ [response]\<rparr> else v
        else v)"

section \<open>Cursor movement\<close>

text \<open>The row an absolute position names: relative to the margins in origin mode, and clamped.\<close>

definition absolute_row :: "VtEnv \<Rightarrow> nat \<Rightarrow> VtRun \<Rightarrow> int" where
  "absolute_row e row_value v =
    (let (tp, bt) = resolve_vertical_region e v;
         y_offset = (if v_origin_mode v then tp else 0); y_min = (if v_origin_mode v then tp else 0);
         y_max = (if v_origin_mode v then bt else cy (e_size e) - 1);
         new_y = to_long (int (row_value - 1)) + y_offset
     in to_short (std_clamp new_y y_min y_max))"

definition absolute_column :: "VtEnv \<Rightarrow> nat \<Rightarrow> int" where
  "absolute_column e col_value = to_short (std_clamp (to_long (int (col_value - 1))) 0 (cx (e_size e) - 1))"

definition csi_cup :: "VtEnv \<Rightarrow> VtCsiSequence \<Rightarrow> VtRun \<Rightarrow> VtRun" where
  "csi_cup e csi v =
    v\<lparr>v_cursor := \<lparr>cx = absolute_column e (count_param 1 csi), cy = absolute_row e (count_param 0 csi) v\<rparr>\<rparr>"

definition csi_cha :: "VtEnv \<Rightarrow> VtCsiSequence \<Rightarrow> VtRun \<Rightarrow> VtRun" where
  "csi_cha e csi v = set_x (absolute_column e (count_param 0 csi)) v"

definition csi_vpa :: "VtEnv \<Rightarrow> VtCsiSequence \<Rightarrow> VtRun \<Rightarrow> VtRun" where
  "csi_vpa e csi v = set_y (absolute_row e (count_param 0 csi) v) v"

text \<open>The rows a relative movement may reach: the margins, when the cursor is inside them.\<close>

definition movement_rows :: "VtEnv \<Rightarrow> VtRun \<Rightarrow> int \<times> int" where
  "movement_rows e v =
    (let (tp, bt) = resolve_vertical_region e v;
         clamp_to_margins = (v_origin_mode v \<or>
           (v_vertical_margins v \<noteq> None \<and> cy (v_cursor v) \<ge> tp \<and> cy (v_cursor v) \<le> bt))
     in if clamp_to_margins then (tp, bt) else (0, cy (e_size e) - 1))"

definition csi_cnl_cpl :: "VtEnv \<Rightarrow> VtCsiSequence \<Rightarrow> VtRun \<Rightarrow> VtRun" where
  "csi_cnl_cpl e csi v =
    (let n = count_param 0 csi;
         delta = (if csi_final csi = 0x45 then to_long (int n) else - to_long (int n));
         (y_min, y_max) = movement_rows e v
     in v\<lparr>v_cursor := \<lparr>cx = 0, cy = to_short (std_clamp (cy (v_cursor v) + delta) y_min y_max)\<rparr>\<rparr>)"

definition csi_cursor_move :: "VtEnv \<Rightarrow> VtCsiSequence \<Rightarrow> VtRun \<Rightarrow> VtRun" where
  "csi_cursor_move e csi v =
    (let n = to_long (int (count_param 0 csi)); x = cx (v_cursor v); y = cy (v_cursor v); f = csi_final csi;
         new_y = (if f = 0x41 then y - n else if f = 0x42 then y + n else y);
         new_x = (if f = 0x43 then x + n else if f = 0x44 then x - n else x);
         (y_min, y_max) = movement_rows e v
     in v\<lparr>v_cursor := \<lparr>cx = to_short (std_clamp new_x 0 (cx (e_size e) - 1)),
                       cy = to_short (std_clamp new_y y_min y_max)\<rparr>\<rparr>)"

section \<open>Asserted calls\<close>

definition call_set_vt_vertical_margins :: "VtVerticalMargins option \<Rightarrow> VtRun \<Rightarrow> VtRun" where
  "call_set_vt_vertical_margins m v =
    (case set_vt_vertical_margins m (v_sb v) of None \<Rightarrow> v\<lparr>v_failed := True\<rparr> | Some sb \<Rightarrow> v\<lparr>v_sb := sb\<rparr>)"

definition csi_decstr :: "VtEnv \<Rightarrow> VtRun \<Rightarrow> VtRun" where
  "csi_decstr e v =
    (let v = v\<lparr>v_sb := set_cursor_info (sb_cursor_size (v_sb v)) True (v_sb v)\<rparr>;
         v = v\<lparr>v_autowrap := True, v_origin_mode := False, v_insert_mode := False, v_delayed_wrap_position := None,
               v_vertical_margins := None\<rparr>;
         v = call_set_vt_vertical_margins None v;
         v = v\<lparr>v_attributes := e_default_attributes e\<rparr>
     in v\<lparr>v_sb := save_cursor_state coord0 (v_attributes v) False False (v_sb v)\<rparr>)"

definition decstbm_request :: "VtEnv \<Rightarrow> VtCsiSequence \<Rightarrow> nat \<times> nat" where
  "decstbm_request e csi =
    (let requested_top = param_or 0 0 csi; requested_bottom = param_or 1 0 csi; page_height = nat (cy (e_size e))
     in (if requested_top = 0 then 1 else requested_top, if requested_bottom = 0 then page_height else requested_bottom))"

definition decstbm_margins :: "VtEnv \<Rightarrow> nat \<Rightarrow> nat \<Rightarrow> VtVerticalMargins option" where
  "decstbm_margins e actual_top actual_bottom =
    (if actual_top = 1 \<and> actual_bottom = nat (cy (e_size e)) then None
     else Some \<lparr>m_top = to_short (int (actual_top - 1)), m_bottom = to_short (int (actual_bottom - 1))\<rparr>)"

definition csi_decstbm :: "VtEnv \<Rightarrow> VtCsiSequence \<Rightarrow> VtRun \<Rightarrow> VtRun" where
  "csi_decstbm e csi v =
    (let (actual_top, actual_bottom) = decstbm_request e csi
     in if actual_top < actual_bottom \<and> actual_bottom \<le> nat (cy (e_size e)) then
          let margins = decstbm_margins e actual_top actual_bottom;
              v = call_set_vt_vertical_margins margins (v\<lparr>v_vertical_margins := margins\<rparr>);
              (tp, bt) = resolve_vertical_region e v
          in v\<lparr>v_cursor := \<lparr>cx = 0, cy = (if v_origin_mode v then tp else 0)\<rparr>\<rparr>
        else v)"

section \<open>Characters of a line\<close>

definition copy_cell :: "ushort \<Rightarrow> COORD \<Rightarrow> COORD \<Rightarrow> ScreenBuffer \<Rightarrow> ScreenBuffer" where
  "copy_cell attributes src dst sb =
    (let (n, chars) = read_output_characters src [0] sb; (m, attrs) = read_output_attributes src [0] sb;
         (ch, a) = (if n \<noteq> 1 \<or> m \<noteq> 1 then (0x20, attributes) else (chars ! 0, attrs ! 0))
     in snd (write_cell dst ch a sb))"

definition blank_cells :: "ushort \<Rightarrow> int \<Rightarrow> int list \<Rightarrow> ScreenBuffer \<Rightarrow> ScreenBuffer" where
  "blank_cells a y xs sb = fold (\<lambda>x sb. snd (write_cell \<lparr>cx = to_short x, cy = to_short y\<rparr> 0x20 a sb)) xs sb"

definition cursor_on_line :: "VtEnv \<Rightarrow> VtRun \<Rightarrow> bool" where
  "cursor_on_line e v \<longleftrightarrow> cx (e_size e) > 0 \<and> cx (v_cursor v) \<ge> 0 \<and> cy (v_cursor v) \<ge> 0
    \<and> cy (v_cursor v) < cy (e_size e) \<and> cx (v_cursor v) < cx (e_size e)"

definition line_count :: "VtEnv \<Rightarrow> VtCsiSequence \<Rightarrow> VtRun \<Rightarrow> int" where
  "line_count e csi v =
    (let n = count_param 0 csi; remaining = nat (cx (e_size e) - cx (v_cursor v))
     in int (if n > remaining then remaining else n))"

definition csi_ich :: "VtEnv \<Rightarrow> VtCsiSequence \<Rightarrow> VtRun \<Rightarrow> VtRun" where
  "csi_ich e csi v =
    (if cursor_on_line e v then
       let width = cx (e_size e); x0 = cx (v_cursor v); y = cy (v_cursor v); n = line_count e csi v;
           sb = fold (\<lambda>x. copy_cell (v_attributes v) \<lparr>cx = to_short (x - n), cy = to_short y\<rparr> \<lparr>cx = to_short x, cy = to_short y\<rparr>)
                  (rev [x0 + n..width - 1]) (v_sb v)
       in v\<lparr>v_sb := blank_cells (v_attributes v) y [x0..x0 + n - 1] sb\<rparr>
     else v)\<lparr>v_delayed_wrap_position := None\<rparr>"

definition csi_dch :: "VtEnv \<Rightarrow> VtCsiSequence \<Rightarrow> VtRun \<Rightarrow> VtRun" where
  "csi_dch e csi v =
    (if cursor_on_line e v then
       let width = cx (e_size e); x0 = cx (v_cursor v); y = cy (v_cursor v); n = line_count e csi v;
           limit = width - n;
           sb = fold (\<lambda>x. copy_cell (v_attributes v) \<lparr>cx = to_short (x + n), cy = to_short y\<rparr> \<lparr>cx = to_short x, cy = to_short y\<rparr>)
                  [x0..limit - 1] (v_sb v)
       in v\<lparr>v_sb := blank_cells (v_attributes v) y [limit..width - 1] sb\<rparr>
     else v)\<lparr>v_delayed_wrap_position := None\<rparr>"

definition csi_ech :: "VtEnv \<Rightarrow> VtCsiSequence \<Rightarrow> VtRun \<Rightarrow> VtRun" where
  "csi_ech e csi v =
    (if cursor_on_line e v then
       let x0 = cx (v_cursor v); y = cy (v_cursor v); n = line_count e csi v
       in v\<lparr>v_sb := blank_cells (v_attributes v) y [x0..x0 + n - 1] (v_sb v)\<rparr>
     else v)\<lparr>v_delayed_wrap_position := None\<rparr>"

section \<open>Lines and erasing\<close>

definition csi_scroll :: "VtEnv \<Rightarrow> VtCsiSequence \<Rightarrow> VtRun \<Rightarrow> VtRun" where
  "csi_scroll e csi v =
    (let n = count_param 0 csi; (tp, bt) = resolve_vertical_region e v
     in if csi_final csi = 0x53 then scroll_region_up e tp bt n v else scroll_region_down e tp bt n v)"

definition csi_il :: "VtEnv \<Rightarrow> VtCsiSequence \<Rightarrow> VtRun \<Rightarrow> VtRun" where
  "csi_il e csi v =
    (let n = count_param 0 csi; (tp, bt) = resolve_vertical_region e v; y = cy (v_cursor v)
     in if y \<ge> tp \<and> y \<le> bt then
          let region_height = nat (bt - y + 1)
          in if n \<ge> region_height
             then fill_run \<lparr>cx = 0, cy = y\<rparr> 0x20 (v_attributes v) (nat (cx (e_size e)) * region_height) v
             else
               let right = to_short (cx (e_size e) - 1)
               in scroll_rect e
                    \<lparr>r_left = 0, r_top = y, r_right = right, r_bottom = to_short (bt - to_long (int n))\<rparr>
                    \<lparr>r_left = 0, r_top = y, r_right = right, r_bottom = bt\<rparr>
                    \<lparr>cx = 0, cy = to_short (y + to_long (int n))\<rparr> v
        else v)"

definition csi_dl :: "VtEnv \<Rightarrow> VtCsiSequence \<Rightarrow> VtRun \<Rightarrow> VtRun" where
  "csi_dl e csi v =
    (let n = count_param 0 csi; (tp, bt) = resolve_vertical_region e v; y = cy (v_cursor v)
     in if y \<ge> tp \<and> y \<le> bt then
          let region_height = nat (bt - y + 1)
          in if n \<ge> region_height
             then fill_run \<lparr>cx = 0, cy = y\<rparr> 0x20 (v_attributes v) (nat (cx (e_size e)) * region_height) v
             else
               let right = to_short (cx (e_size e) - 1)
               in scroll_rect e
                    \<lparr>r_left = 0, r_top = to_short (y + to_long (int n)), r_right = right, r_bottom = bt\<rparr>
                    \<lparr>r_left = 0, r_top = y, r_right = right, r_bottom = bt\<rparr>
                    \<lparr>cx = 0, cy = y\<rparr> v
        else v)"

definition csi_ed :: "VtEnv \<Rightarrow> VtCsiSequence \<Rightarrow> VtRun \<Rightarrow> VtRun" where
  "csi_ed e csi v =
    (let mode = param_or 0 0 csi; width = nat (cx (e_size e)); total_cells = width * nat (cy (e_size e));
         cursor_index = nat (cy (v_cursor v)) * width + nat (cx (v_cursor v));
         (origin, len) =
           (if mode = 0 then (v_cursor v, if cursor_index < total_cells then total_cells - cursor_index else 0)
            else if mode = 1 then (coord0, if cursor_index < total_cells then cursor_index + 1 else total_cells)
            else if mode = 2 \<or> mode = 3 then (coord0, total_cells)
            else (coord0, 0))
     in (if len \<noteq> 0 then fill_run origin 0x20 (v_attributes v) len v else v)\<lparr>v_delayed_wrap_position := None\<rparr>)"

definition csi_el :: "VtEnv \<Rightarrow> VtCsiSequence \<Rightarrow> VtRun \<Rightarrow> VtRun" where
  "csi_el e csi v =
    (if cx (e_size e) > 0 then
       let mode = param_or 0 0 csi; width = nat (cx (e_size e)); c = v_cursor v;
           (origin, len) =
             (if mode = 0 then (c, if cx c < cx (e_size e) then width - nat (cx c) else 0)
              else if mode = 1 then (\<lparr>cx = 0, cy = cy c\<rparr>, if cx c < cx (e_size e) then nat (cx c) + 1 else width)
              else if mode = 2 then (\<lparr>cx = 0, cy = cy c\<rparr>, width)
              else (coord0, 0))
       in if len \<noteq> 0 then fill_run origin 0x20 (v_attributes v) len v else v
     else v)\<lparr>v_delayed_wrap_position := None\<rparr>"

section \<open>Saved state and modes\<close>

definition save_cursor :: "VtRun \<Rightarrow> VtRun" where
  "save_cursor v =
    v\<lparr>v_sb := save_cursor_state (v_cursor v) (v_attributes v) (at_delayed_wrap v) (v_origin_mode v) (v_sb v)\<rparr>"

definition restore_cursor :: "VtEnv \<Rightarrow> VtRun \<Rightarrow> VtRun" where
  "restore_cursor e v =
    (case restore_cursor_state (v_sb v) of
       None \<Rightarrow> v
     | Some (restored, a, delayed_eol_wrap, origin_mode_enabled) \<Rightarrow>
         let v = v\<lparr>v_cursor := restored, v_attributes := a, v_origin_mode := origin_mode_enabled\<rparr>;
             v = set_x (to_short (std_clamp (cx (v_cursor v)) 0 (cx (e_size e) - 1))) v;
             (tp, bt) = resolve_vertical_region e v;
             y_min = (if v_origin_mode v then tp else 0);
             y_max = (if v_origin_mode v then bt else cy (e_size e) - 1);
             v = set_y (to_short (std_clamp (cy (v_cursor v)) y_min y_max)) v
         in v\<lparr>v_delayed_wrap_position := (if delayed_eol_wrap then Some (v_cursor v) else None)\<rparr>)"

definition csi_mode :: "VtEnv \<Rightarrow> bool \<Rightarrow> bool \<Rightarrow> nat \<Rightarrow> VtRun \<Rightarrow> VtRun" where
  "csi_mode e private_marker enable param v =
    (if \<not> private_marker \<and> param = 4 then v\<lparr>v_insert_mode := enable\<rparr>
     else if param = 25 then v\<lparr>v_sb := set_cursor_info (sb_cursor_size (v_sb v)) enable (v_sb v)\<rparr>
     else if param = 6 then
       let v = v\<lparr>v_origin_mode := enable\<rparr>; (tp, bt) = resolve_vertical_region e v
       in v\<lparr>v_cursor := \<lparr>cx = 0, cy = (if v_origin_mode v then tp else 0)\<rparr>, v_delayed_wrap_position := None\<rparr>
     else if param = 7 then v\<lparr>v_autowrap := enable, v_delayed_wrap_position := None\<rparr>
     else if param = 1049 then
       let (ok, sb) = set_vt_using_alternate_screen_buffer (e_mem e (v_allocs v)) enable 0x20 (v_attributes v) (v_sb v);
           v = v\<lparr>v_sb := sb, v_allocs := v_allocs v + 1, v_switches := v_switches v + 1\<rparr>
       in if ok then v\<lparr>v_cursor := sb_cursor_position sb, v_attributes := sb_text_attributes sb,
              v_vertical_margins := sb_vt_vertical_margins sb, v_origin_mode := sb_vt_origin_mode_enabled sb,
              v_delayed_wrap_position := None\<rparr>
          else v
     else v)"

definition csi_modes :: "VtEnv \<Rightarrow> VtCsiSequence \<Rightarrow> VtRun \<Rightarrow> VtRun" where
  "csi_modes e csi v = fold (csi_mode e (csi_private_marker csi) (csi_final csi = 0x68)) (csi_params csi) v"

definition csi_sgr :: "VtEnv \<Rightarrow> VtCsiSequence \<Rightarrow> VtRun \<Rightarrow> VtRun" where
  "csi_sgr e csi v =
    v\<lparr>v_attributes := apply_sgr (sb_color_table (v_sb v)) (e_default_attributes e) (csi_params csi) (v_attributes v)\<rparr>"

definition apply_csi :: "VtEnv \<Rightarrow> VtCsiSequence \<Rightarrow> VtRun \<Rightarrow> VtRun" where
  "apply_csi e csi v =
    (let f = csi_final csi in
     if f = 0x6D then csi_sgr e csi v
     else if f = 0x6E then csi_dsr e csi v
     else if f = 0x48 \<or> f = 0x66 then csi_cup e csi v
     else if f = 0x70 \<and> csi_exclamation_marker csi then csi_decstr e v
     else if f = 0x47 \<or> f = 0x60 then csi_cha e csi v
     else if f = 0x64 then csi_vpa e csi v
     else if f = 0x45 \<or> f = 0x46 then csi_cnl_cpl e csi v
     else if f = 0x41 \<or> f = 0x42 \<or> f = 0x43 \<or> f = 0x44 then csi_cursor_move e csi v
     else if f = 0x40 then csi_ich e csi v
     else if f = 0x50 then csi_dch e csi v
     else if f = 0x58 then csi_ech e csi v
     else if f = 0x72 then csi_decstbm e csi v
     else if f = 0x53 \<or> f = 0x54 then csi_scroll e csi v
     else if f = 0x4C then csi_il e csi v
     else if f = 0x4D then csi_dl e csi v
     else if f = 0x4A then csi_ed e csi v
     else if f = 0x4B then csi_el e csi v
     else if f = 0x73 then (if csi_params csi = [] then save_cursor v else v)
     else if f = 0x75 then restore_cursor e v
     else if f = 0x68 \<or> f = 0x6C then csi_modes e csi v
     else v)"

section \<open>Every sequence keeps the run well-formed\<close>

lemma std_clamp_short:
  assumes "0 \<le> lo" "lo \<le> hi" "hi < w" "w \<le> 32767"
  shows "0 \<le> to_short (std_clamp v lo hi) \<and> to_short (std_clamp v lo hi) < w"
proof -
  have "lo \<le> std_clamp v lo hi" "std_clamp v lo hi \<le> hi" using std_clamp_bounds assms(2) by blast+
  with assms show ?thesis by (simp add: to_short_id)
qed

lemma absolute_row_bounds:
  assumes "run_ok e v"
  shows "0 \<le> absolute_row e n v \<and> absolute_row e n v < cy (e_size e)"
proof -
  note b = run_okD [OF assms]
  obtain tp bt where r: "resolve_vertical_region e v = (tp, bt)" by (rule prod.exhaust)
  note rb = region_bounds [OF assms r]
  show ?thesis
    unfolding absolute_row_def r prod.case Let_def
    by (rule std_clamp_short) (use b rb in simp_all)
qed

lemma absolute_column_bounds:
  assumes "run_ok e v"
  shows "0 \<le> absolute_column e n \<and> absolute_column e n < cx (e_size e)"
  unfolding absolute_column_def by (rule std_clamp_short) (use run_okD [OF assms] in simp_all)

lemma movement_rows_bounds:
  assumes "run_ok e v" and "movement_rows e v = (lo, hi)"
  shows "0 \<le> lo" "lo \<le> hi" "hi < cy (e_size e)"
proof -
  obtain tp bt where r: "resolve_vertical_region e v = (tp, bt)" by (rule prod.exhaust)
  show "0 \<le> lo" "lo \<le> hi" "hi < cy (e_size e)"
    using region_bounds [OF assms(1) r] run_okD [OF assms(1)] assms(2)
    by (auto simp: movement_rows_def r Let_def split: if_splits)
qed

lemma cursor_okI: "0 \<le> cx p \<Longrightarrow> cx p < cx sz \<Longrightarrow> 0 \<le> cy p \<Longrightarrow> cy p < cy sz \<Longrightarrow> cursor_ok sz p"
  by (simp add: cursor_ok_def in_extent_def)

lemma run_ok_csi_cup: "run_ok e v \<Longrightarrow> run_ok e (csi_cup e csi v)"
  unfolding csi_cup_def using absolute_row_bounds absolute_column_bounds
  by (intro run_ok_cursor cursor_okI) auto

lemma run_ok_csi_cha: "run_ok e v \<Longrightarrow> run_ok e (csi_cha e csi v)"
  unfolding csi_cha_def using absolute_column_bounds by (intro run_ok_set_x) auto

lemma run_ok_csi_vpa: "run_ok e v \<Longrightarrow> run_ok e (csi_vpa e csi v)"
  unfolding csi_vpa_def using absolute_row_bounds by (intro run_ok_set_y) auto

lemma run_ok_movement:
  assumes "run_ok e v" and "movement_rows e v = (lo, hi)" and "0 \<le> x" and "x < cx (e_size e)"
  shows "run_ok e (v\<lparr>v_cursor := \<lparr>cx = x, cy = to_short (std_clamp y lo hi)\<rparr>\<rparr>)"
proof -
  have "0 \<le> to_short (std_clamp y lo hi) \<and> to_short (std_clamp y lo hi) < cy (e_size e)"
    by (rule std_clamp_short) (use movement_rows_bounds [OF assms(1,2)] run_okD [OF assms(1)] in simp_all)
  then show ?thesis using assms by (intro run_ok_cursor cursor_okI) auto
qed

lemma run_ok_csi_cnl_cpl: "run_ok e v \<Longrightarrow> run_ok e (csi_cnl_cpl e csi v)"
  by (cases "movement_rows e v") (auto simp: csi_cnl_cpl_def Let_def dest: run_okD intro!: run_ok_movement)

lemma run_ok_csi_cursor_move:
  assumes "run_ok e v"
  shows "run_ok e (csi_cursor_move e csi v)"
proof -
  obtain lo hi where m: "movement_rows e v = (lo, hi)" by (rule prod.exhaust)
  have "0 \<le> to_short (std_clamp x 0 (cx (e_size e) - 1)) \<and> to_short (std_clamp x 0 (cx (e_size e) - 1)) < cx (e_size e)" for x
    by (rule std_clamp_short) (use run_okD [OF assms] in simp_all)
  then show ?thesis
    unfolding csi_cursor_move_def Let_def m prod.case using assms m by (intro run_ok_movement) auto
qed

lemma run_ok_screen:
  assumes "run_ok e v" and "sb_ok sb" and "sb_buffer_size sb = sb_buffer_size (v_sb v)"
    and "sb_vt_output_parse_state sb = sb_vt_output_parse_state (v_sb v)"
  shows "run_ok e (v\<lparr>v_sb := sb\<rparr>)"
  using assms by (simp add: run_ok_def)

lemma setters_frame [simp]:
  "sb_buffer_size (set_cursor_info n b sb) = sb_buffer_size sb"
  "sb_buffer_size (save_cursor_state p a d om sb) = sb_buffer_size sb"
  "sb_buffer_size (set_color_table t sb) = sb_buffer_size sb"
  "sb_vt_output_parse_state (set_cursor_info n b sb) = sb_vt_output_parse_state sb"
  "sb_vt_output_parse_state (save_cursor_state p a d om sb) = sb_vt_output_parse_state sb"
  "sb_vt_output_parse_state (set_color_table t sb) = sb_vt_output_parse_state sb"
  by (simp_all add: set_cursor_info_def save_cursor_state_def set_color_table_def Let_def)

lemma run_ok_set_cursor_info: "run_ok e v \<Longrightarrow> run_ok e (v\<lparr>v_sb := set_cursor_info n b (v_sb v)\<rparr>)"
  by (rule run_ok_screen) (auto dest: run_okD)

lemma run_ok_save_cursor_state: "run_ok e v \<Longrightarrow> run_ok e (v\<lparr>v_sb := save_cursor_state p a d om (v_sb v)\<rparr>)"
  by (rule run_ok_screen) (auto dest: run_okD)

text \<open>The asserts of \<open>set_vt_vertical_margins\<close> hold at both of its kinds of calls.\<close>

lemma run_ok_call_set_margins:
  assumes "run_ok e v" and "margins_ok (e_size e) m"
  shows "run_ok e (call_set_vt_vertical_margins m v)"
proof -
  obtain sb where sb: "set_vt_vertical_margins m (v_sb v) = Some sb"
    using set_vt_vertical_margins_Some [of "v_sb v" m] assms run_okD(9,10) [OF assms(1)] by auto
  moreover have "sb_ok sb" using sb_ok_set_vt_vertical_margins [OF _ sb] run_okD(9) [OF assms(1)] by simp
  moreover have "sb_buffer_size sb = sb_buffer_size (v_sb v)"
    "sb_vt_output_parse_state sb = sb_vt_output_parse_state (v_sb v)"
    using sb by (auto simp: set_vt_vertical_margins_def split: if_splits)
  ultimately show ?thesis using assms(1) by (simp add: call_set_vt_vertical_margins_def run_ok_screen)
qed

lemma run_ok_margins: "run_ok e v \<Longrightarrow> margins_ok (e_size e) m \<Longrightarrow> run_ok e (v\<lparr>v_vertical_margins := m\<rparr>)"
  by (simp add: run_ok_def)

lemma margins_ok_None [simp]: "margins_ok sz None"
  by (simp add: margins_ok_def)

lemma run_ok_csi_decstr: "run_ok e v \<Longrightarrow> run_ok e (csi_decstr e v)"
proof -
  assume "run_ok e v"
  then have "run_ok e (v\<lparr>v_sb := set_cursor_info (sb_cursor_size (v_sb v)) True (v_sb v)\<rparr>)"
    by (rule run_ok_set_cursor_info)
  then have "run_ok e (call_set_vt_vertical_margins None (v\<lparr>v_sb := set_cursor_info (sb_cursor_size (v_sb v)) True (v_sb v),
      v_autowrap := True, v_origin_mode := False, v_insert_mode := False, v_delayed_wrap_position := None,
      v_vertical_margins := None\<rparr>))" (is "run_ok e ?u")
    by (intro run_ok_call_set_margins run_ok_margins) simp_all
  then have "run_ok e (?u\<lparr>v_attributes := e_default_attributes e\<rparr>)" by simp
  from run_ok_save_cursor_state [OF this] show ?thesis by (simp add: csi_decstr_def Let_def)
qed

lemma decstbm_margins_ok:
  assumes "env_ok e" and "1 \<le> t" and "t < b" and "b \<le> nat (cy (e_size e))"
  shows "margins_ok (e_size e) (decstbm_margins e t b)"
proof -
  have "int (t - 1) < int (b - 1)" "int (b - 1) < cy (e_size e)" "cy (e_size e) \<le> 32767"
    using assms by (auto simp: env_ok_def)
  then show ?thesis by (auto simp: margins_ok_def decstbm_margins_def to_short_id)
qed

lemma run_ok_csi_decstbm:
  assumes "run_ok e v"
  shows "run_ok e (csi_decstbm e csi v)"
proof -
  obtain t b where q: "decstbm_request e csi = (t, b)" by (rule prod.exhaust)
  then have t: "1 \<le> t" by (auto simp: decstbm_request_def Let_def)
  show ?thesis
  proof (cases "t < b \<and> b \<le> nat (cy (e_size e))")
    case True
    let ?m = "decstbm_margins e t b"
    let ?u = "call_set_vt_vertical_margins ?m (v\<lparr>v_vertical_margins := ?m\<rparr>)"
    have "env_ok e" using assms by (simp add: run_ok_def)
    then have u: "run_ok e ?u"
      using assms True t by (intro run_ok_call_set_margins run_ok_margins decstbm_margins_ok) simp_all
    obtain tp bt where r: "resolve_vertical_region e ?u = (tp, bt)" by (rule prod.exhaust)
    have "run_ok e (?u\<lparr>v_cursor := \<lparr>cx = 0, cy = (if v_origin_mode ?u then tp else 0)\<rparr>\<rparr>)"
      using u region_bounds [OF u r] run_okD [OF u] by (intro run_ok_cursor cursor_okI) auto
    with True show ?thesis by (simp add: csi_decstbm_def Let_def r q)
  next
    case False
    then show ?thesis using assms by (auto simp: csi_decstbm_def q)
  qed
qed

lemma cells_only_copy_cell [simp]: "cells_only sb (copy_cell a p q sb)"
  by (simp add: copy_cell_def case_prod_beta Let_def)

lemma cells_only_fold:
  "(\<And>x sb. cells_only sb (f x sb)) \<Longrightarrow> cells_only sb (fold f xs sb)"
  by (induction xs arbitrary: sb) (auto intro: cells_only_trans)

lemma cells_only_blank_cells: "cells_only sb (blank_cells a y xs sb)"
  unfolding blank_cells_def by (rule cells_only_fold) simp

lemma run_ok_csi_ich: "run_ok e v \<Longrightarrow> run_ok e (csi_ich e csi v)"
  unfolding csi_ich_def Let_def
  by (auto intro!: run_ok_cells cells_only_trans [OF _ cells_only_blank_cells] cells_only_fold)

lemma run_ok_csi_dch: "run_ok e v \<Longrightarrow> run_ok e (csi_dch e csi v)"
  unfolding csi_dch_def Let_def
  by (auto intro!: run_ok_cells cells_only_trans [OF _ cells_only_blank_cells] cells_only_fold)

lemma run_ok_csi_ech: "run_ok e v \<Longrightarrow> run_ok e (csi_ech e csi v)"
  unfolding csi_ech_def Let_def by (auto intro!: run_ok_cells cells_only_blank_cells)

lemma run_ok_csi_scroll: "run_ok e v \<Longrightarrow> run_ok e (csi_scroll e csi v)"
  by (simp add: csi_scroll_def Let_def run_ok_scroll_region split: prod.split)

lemma run_ok_csi_il: "run_ok e v \<Longrightarrow> run_ok e (csi_il e csi v)"
  by (simp add: csi_il_def Let_def run_ok_fill_run run_ok_scroll_rect split: prod.split)

lemma run_ok_csi_dl: "run_ok e v \<Longrightarrow> run_ok e (csi_dl e csi v)"
  by (simp add: csi_dl_def Let_def run_ok_fill_run run_ok_scroll_rect split: prod.split)

lemma run_ok_csi_ed: "run_ok e v \<Longrightarrow> run_ok e (csi_ed e csi v)"
  by (simp add: csi_ed_def Let_def run_ok_fill_run split: prod.split)

lemma run_ok_csi_el: "run_ok e v \<Longrightarrow> run_ok e (csi_el e csi v)"
  by (simp add: csi_el_def Let_def run_ok_fill_run split: prod.split)

lemma run_ok_save_cursor: "run_ok e v \<Longrightarrow> run_ok e (save_cursor v)"
  unfolding save_cursor_def by (rule run_ok_save_cursor_state)

lemma run_ok_restore_cursor:
  assumes "run_ok e v"
  shows "run_ok e (restore_cursor e v)"
proof (cases "restore_cursor_state (v_sb v)")
  case None
  with assms show ?thesis by (simp add: restore_cursor_def)
next
  case (Some q)
  obtain p a d om where q: "q = (p, a, d, om)" by (cases q)
  let ?u = "v\<lparr>v_cursor := p, v_attributes := a, v_origin_mode := om\<rparr>"
  let ?x = "to_short (std_clamp (cx p) 0 (cx (e_size e) - 1))"
  have u: "run_ok e (set_x ?x ?u)"
  proof -
    have "cursor_ok (e_size e) p"
      using restore_cursor_state_ok [of "v_sb v" p a d om] Some q run_okD(9,10) [OF assms] by simp
    with assms have "run_ok e (v\<lparr>v_cursor := p\<rparr>)" by (rule run_ok_cursor)
    then have "run_ok e ?u" by simp
    moreover have "0 \<le> ?x \<and> ?x < cx (e_size e)" by (rule std_clamp_short) (use run_okD [OF assms] in simp_all)
    ultimately show ?thesis using run_ok_set_x [of e ?u ?x] by simp
  qed
  obtain tp bt where r: "resolve_vertical_region e (set_x ?x ?u) = (tp, bt)" by (rule prod.exhaust)
  let ?y = "to_short (std_clamp (cy p) (if om then tp else 0) (if om then bt else cy (e_size e) - 1))"
  have "0 \<le> ?y \<and> ?y < cy (e_size e)"
    by (rule std_clamp_short) (use run_okD [OF assms] region_bounds [OF u r] in simp_all)
  then have "run_ok e (set_y ?y (set_x ?x ?u))" using run_ok_set_y [OF u] by simp
  then have "run_ok e ((set_y ?y (set_x ?x ?u))\<lparr>v_delayed_wrap_position := w\<rparr>)" for w by simp
  with r show ?thesis by (simp add: restore_cursor_def Some q Let_def)
qed

text \<open>Switching screens keeps the size and the parser state and gives a cursor and margins in range.\<close>

lemma alternate_frame:
  assumes "set_vt_using_alternate_screen_buffer m b ch a sb = (ok, sb')" and "sb_ok sb"
  shows "sb_ok sb'" "sb_buffer_size sb' = sb_buffer_size sb" "sb_vt_output_parse_state sb' = sb_vt_output_parse_state sb"
    "cursor_ok (sb_buffer_size sb) (sb_cursor_position sb')" "margins_ok (sb_buffer_size sb) (sb_vt_vertical_margins sb')"
proof -
  show ok: "sb_ok sb'" using sb_ok_set_vt_using_alternate_screen_buffer [OF assms(2), of m b ch a] assms(1) by simp
  show sz: "sb_buffer_size sb' = sb_buffer_size sb" and "sb_vt_output_parse_state sb' = sb_vt_output_parse_state sb"
    using assms(1) by (auto simp: set_vt_using_alternate_screen_buffer_def restore_main_def split: if_splits option.splits)
  show "cursor_ok (sb_buffer_size sb) (sb_cursor_position sb')" "margins_ok (sb_buffer_size sb) (sb_vt_vertical_margins sb')"
    using ok by (simp_all add: sb_ok_def sz)
qed

lemma run_ok_switch_screen:
  assumes "run_ok e v" and "set_vt_using_alternate_screen_buffer m b ch a (v_sb v) = (ok, sb)"
  shows "run_ok e (v\<lparr>v_sb := sb, v_cursor := sb_cursor_position sb, v_vertical_margins := sb_vt_vertical_margins sb\<rparr>)"
    and "run_ok e (v\<lparr>v_sb := sb\<rparr>)"
  using alternate_frame [OF assms(2)] assms(1) by (simp_all add: run_ok_def)

lemma run_ok_csi_mode:
  assumes "run_ok e v"
  shows "run_ok e (csi_mode e pm b p v)"
proof (cases "p = 1049")
  case True
  obtain ok sb where s: "set_vt_using_alternate_screen_buffer (e_mem e (v_allocs v)) b 0x20 (v_attributes v) (v_sb v) = (ok, sb)"
    by (rule prod.exhaust)
  let ?c = "sb_cursor_position sb" and ?m = "sb_vt_vertical_margins sb"
  have "run_ok e (v\<lparr>v_sb := sb, v_allocs := n, v_switches := k, v_cursor := ?c, v_attributes := a,
      v_vertical_margins := ?m, v_origin_mode := om, v_delayed_wrap_position := w\<rparr>)" for n k a om w
    using run_ok_switch_screen(1) [OF assms s] by (simp add: run_ok_def)
  moreover have "run_ok e (v\<lparr>v_sb := sb, v_allocs := n, v_switches := k\<rparr>)" for n k
    using run_ok_switch_screen(2) [OF assms s] by simp
  ultimately show ?thesis using True s by (simp add: csi_mode_def Let_def)
next
  case False
  let ?u = "v\<lparr>v_origin_mode := b\<rparr>"
  obtain tp bt where r: "resolve_vertical_region e ?u = (tp, bt)" by (rule prod.exhaust)
  have u: "run_ok e ?u" using assms by simp
  have "run_ok e (?u\<lparr>v_cursor := \<lparr>cx = 0, cy = (if b then tp else 0)\<rparr>\<rparr>)"
    using u region_bounds [OF u r] run_okD [OF u] by (intro run_ok_cursor cursor_okI) auto
  then have "run_ok e (?u\<lparr>v_cursor := \<lparr>cx = 0, cy = (if b then tp else 0)\<rparr>, v_delayed_wrap_position := None\<rparr>)" by simp
  with False assms r show ?thesis
    by (simp add: csi_mode_def Let_def run_ok_set_cursor_info split: prod.split)
qed

lemma run_ok_fold: "(\<And>x v. run_ok e v \<Longrightarrow> run_ok e (f x v)) \<Longrightarrow> run_ok e v \<Longrightarrow> run_ok e (fold f xs v)"
  by (induction xs arbitrary: v) auto

lemma run_ok_csi_modes: "run_ok e v \<Longrightarrow> run_ok e (csi_modes e csi v)"
  unfolding csi_modes_def by (rule run_ok_fold) (rule run_ok_csi_mode)

lemma run_ok_csi_dsr: "run_ok e v \<Longrightarrow> run_ok e (csi_dsr e csi v)"
  by (simp add: csi_dsr_def Let_def)

lemma run_ok_csi_sgr: "run_ok e v \<Longrightarrow> run_ok e (csi_sgr e csi v)"
  by (simp add: csi_sgr_def)

lemmas run_ok_csi_cases =
  run_ok_csi_sgr run_ok_csi_dsr run_ok_csi_cup run_ok_csi_decstr run_ok_csi_cha run_ok_csi_vpa run_ok_csi_cnl_cpl
  run_ok_csi_cursor_move run_ok_csi_ich run_ok_csi_dch run_ok_csi_ech run_ok_csi_decstbm run_ok_csi_scroll
  run_ok_csi_il run_ok_csi_dl run_ok_csi_ed run_ok_csi_el run_ok_save_cursor run_ok_restore_cursor run_ok_csi_modes

lemma run_ok_apply_csi: "run_ok e v \<Longrightarrow> run_ok e (apply_csi e csi v)"
  by (simp add: apply_csi_def Let_def run_ok_csi_cases)

end
