(* ===== verification/Vt_Output.thy ===== *)
theory Vt_Output
  imports Vt_Csi
begin

text \<open>
  The output parser: the loop of \<open>apply_text_to_screen_buffer\<close> (\<open>condrv_server.hpp\<close>), one
  definition per phase of the parser, the processing of control characters, and the whole
  function from the reading of the buffer's state to its storing. The parser state lives in the
  screen buffer, so that a sequence may be split over several writes.

  A phase returns whether it consumed the character. The two phases after an escape inside a
  string hand the character back once; the loop is proved to end.
\<close>

section \<open>Parser state\<close>

definition on_parse :: "(VtOutputParseState \<Rightarrow> VtOutputParseState) \<Rightarrow> VtRun \<Rightarrow> VtRun" where
  "on_parse f v = v\<lparr>v_sb := (v_sb v)\<lparr>sb_vt_output_parse_state := f (sb_vt_output_parse_state (v_sb v))\<rparr>\<rparr>"

abbreviation parse_state :: "VtRun \<Rightarrow> VtOutputParseState" where
  "parse_state v \<equiv> sb_vt_output_parse_state (v_sb v)"

definition reset_esc :: "VtOutputParseState \<Rightarrow> VtOutputParseState" where
  "reset_esc ps = ps\<lparr>ps_phase := P_ground, ps_esc_intermediates := [], ps_esc_length := 0\<rparr>"

definition reset_csi :: "Phase \<Rightarrow> VtOutputParseState \<Rightarrow> VtOutputParseState" where
  "reset_csi ph ps = ps\<lparr>ps_phase := ph, ps_csi := empty_csi, ps_csi_current := 0, ps_csi_have_digits := False,
     ps_csi_last_was_separator := False, ps_csi_length := 0\<rparr>"

definition reset_osc :: "Phase \<Rightarrow> VtOutputParseState \<Rightarrow> VtOutputParseState" where
  "reset_osc ph ps = ps\<lparr>ps_phase := ph, ps_osc_param := 0, ps_osc_param_have_digits := False, ps_osc_in_param := True,
     ps_osc_action := 0, ps_osc_capture_payload := False, ps_osc_payload := []\<rparr>"

section \<open>Escape sequences\<close>

definition screen_cells_count :: "VtEnv \<Rightarrow> nat" where
  "screen_cells_count e = nat (cx (e_size e)) * nat (cy (e_size e))"

definition leave_alternate :: "VtEnv \<Rightarrow> VtRun \<Rightarrow> VtRun" where
  "leave_alternate e v =
    (if sb_vt_main_backup (v_sb v) \<noteq> None then
       let sb = snd (set_vt_using_alternate_screen_buffer (e_mem e (v_allocs v)) False 0x20 (v_attributes v) (v_sb v))
       in v\<lparr>v_sb := sb, v_allocs := v_allocs v + 1, v_switches := v_switches v + 1, v_cursor := sb_cursor_position sb,
            v_attributes := sb_text_attributes sb, v_vertical_margins := sb_vt_vertical_margins sb,
            v_origin_mode := sb_vt_origin_mode_enabled sb, v_insert_mode := sb_vt_insert_mode_enabled sb,
            v_delayed_wrap_position := sb_vt_delayed_wrap_position sb\<rparr>
     else v)"

definition hard_reset :: "VtEnv \<Rightarrow> VtRun \<Rightarrow> VtRun" where
  "hard_reset e v =
    (let v = leave_alternate e v;
         v = v\<lparr>v_sb := set_color_table (st_color_table default_settings) (v_sb v)\<rparr>;
         v = v\<lparr>v_sb := set_cursor_info (sb_cursor_size (v_sb v)) True (v_sb v)\<rparr>;
         v = v\<lparr>v_sb := save_cursor_state coord0 (e_default_attributes e) False False (v_sb v)\<rparr>;
         v = v\<lparr>v_autowrap := True, v_origin_mode := False, v_insert_mode := False, v_delayed_wrap_position := None,
               v_vertical_margins := None\<rparr>;
         v = call_set_vt_vertical_margins None v;
         v = v\<lparr>v_attributes := e_default_attributes e, v_cursor := coord0\<rparr>
     in fill_run coord0 0x20 (v_attributes v) (screen_cells_count e) v)"

definition phase_escape :: "VtEnv \<Rightarrow> wchar \<Rightarrow> VtRun \<Rightarrow> bool \<times> VtRun" where
  "phase_escape e ch v =
    (let v = on_parse reset_esc v
     in (True,
       if ch = 0x5B then on_parse (reset_csi P_csi) v
       else if ch = 0x5D then on_parse (reset_osc P_osc) v
       else if ch = 0x50 \<or> ch = 0x5E \<or> ch = 0x5F \<or> ch = 0x58 then on_parse (\<lambda>ps. ps\<lparr>ps_phase := P_string\<rparr>) v
       else if ch = 0x37 then save_cursor v
       else if ch = 0x38 then restore_cursor e v
       else if ch = 0x44 then line_feed e v
       else if ch = 0x4D then reverse_line_feed e v
       else if ch = 0x45 then line_feed e (set_x 0 v)
       else if ch = 0x63 then hard_reset e v
       else if ch = 0x5C then v
       else if ch \<ge> 0x20 \<and> ch \<le> 0x2F then
         on_parse (\<lambda>ps. ps\<lparr>ps_phase := P_esc_dispatch, ps_esc_length := 1, ps_esc_intermediates := [ch]\<rparr>) v
       else v))"

definition screen_alignment :: "VtEnv \<Rightarrow> VtRun \<Rightarrow> VtRun" where
  "screen_alignment e v =
    (let v = v\<lparr>v_delayed_wrap_position := None\<rparr>;
         v = fill_run coord0 0x45 (e_default_attributes e) (screen_cells_count e) v;
         v = v\<lparr>v_attributes := v_attributes v AND NOT (0x4000 OR 0x8000), v_origin_mode := False,
               v_vertical_margins := None\<rparr>;
         v = call_set_vt_vertical_margins None v
     in v\<lparr>v_cursor := coord0\<rparr>)"

definition push_intermediate :: "wchar \<Rightarrow> VtOutputParseState \<Rightarrow> VtOutputParseState" where
  "push_intermediate ch ps =
    (let ps = (if length (ps_esc_intermediates ps) < 8
               then ps\<lparr>ps_esc_intermediates := ps_esc_intermediates ps @ [ch]\<rparr> else ps);
         ps = ps\<lparr>ps_esc_length := ps_esc_length ps + 1\<rparr>
     in if ps_esc_length ps \<ge> 16 then reset_esc ps else ps)"

definition phase_esc_dispatch :: "VtEnv \<Rightarrow> wchar \<Rightarrow> VtRun \<Rightarrow> bool \<times> VtRun" where
  "phase_esc_dispatch e ch v =
    (True,
     if ch \<ge> 0x20 \<and> ch \<le> 0x2F then on_parse (push_intermediate ch) v
     else if ch \<ge> 0x30 \<and> ch \<le> 0x7E then
       on_parse reset_esc
         (if ps_esc_intermediates (parse_state v) = [0x23] \<and> ch = 0x38 then screen_alignment e v else v)
     else on_parse reset_esc v)"

section \<open>Control sequences\<close>

definition push_param :: "VtOutputParseState \<Rightarrow> VtOutputParseState" where
  "push_param ps =
    (if length (csi_params (ps_csi ps)) < 16
     then ps\<lparr>ps_csi := (ps_csi ps)\<lparr>csi_params := csi_params (ps_csi ps)
            @ [if ps_csi_have_digits ps then ps_csi_current ps else 0]\<rparr>\<rparr>
     else ps)"

text \<open>The digits, markers and separators that precede the final character.\<close>

definition csi_collect :: "wchar \<Rightarrow> VtOutputParseState \<Rightarrow> VtOutputParseState" where
  "csi_collect ch ps =
    (if ch \<ge> 0x30 \<and> ch \<le> 0x39 then
       ps\<lparr>ps_csi_have_digits := True, ps_csi_last_was_separator := False,
         ps_csi_current := (if ps_csi_current ps \<le> 1000000 then ps_csi_current ps * 10 + unat (ch - 0x30) else ps_csi_current ps)\<rparr>
     else if ch = 0x3F then ps\<lparr>ps_csi := (ps_csi ps)\<lparr>csi_private_marker := True\<rparr>\<rparr>
     else if ch = 0x21 then ps\<lparr>ps_csi := (ps_csi ps)\<lparr>csi_exclamation_marker := True\<rparr>\<rparr>
     else if ch = 0x3B then
       (push_param (ps\<lparr>ps_csi_last_was_separator := True\<rparr>))\<lparr>ps_csi_current := 0, ps_csi_have_digits := False\<rparr>
     else ps)"

definition csi_complete :: "wchar \<Rightarrow> VtOutputParseState \<Rightarrow> VtOutputParseState" where
  "csi_complete ch ps =
    (let ps = (if ps_csi_have_digits ps \<or> ps_csi_last_was_separator ps then push_param ps else ps);
         ps = ps\<lparr>ps_csi := (ps_csi ps)\<lparr>csi_final := ch\<rparr>\<rparr>
     in if ch = 0x6D \<and> csi_params (ps_csi ps) = [] then ps\<lparr>ps_csi := (ps_csi ps)\<lparr>csi_params := [0]\<rparr>\<rparr> else ps)"

definition phase_csi :: "VtEnv \<Rightarrow> wchar \<Rightarrow> VtRun \<Rightarrow> bool \<times> VtRun" where
  "phase_csi e ch v =
    (True,
     if ps_csi_length (parse_state v) \<ge> 128 then on_parse (reset_csi P_ground) v
     else
       let v = on_parse (\<lambda>ps. ps\<lparr>ps_csi_length := ps_csi_length ps + 1\<rparr>) v
       in if ch \<ge> 0x40 \<and> ch \<le> 0x7E then
            let v = on_parse (csi_complete ch) v
            in on_parse (reset_csi P_ground) (apply_csi e (ps_csi (parse_state v)) v)
          else on_parse (csi_collect ch) v)"

section \<open>Operating system commands and other strings\<close>

definition osc_dispatch :: "VtEnv \<Rightarrow> VtRun \<Rightarrow> VtRun" where
  "osc_dispatch e v =
    (let ps = parse_state v;
         v = (if e_has_title_state e \<and> ps_osc_capture_payload ps
                \<and> (ps_osc_action ps = 0 \<or> ps_osc_action ps = 1 \<or> ps_osc_action ps = 2 \<or> ps_osc_action ps = 21)
              then v\<lparr>v_titles := v_titles v @ [ps_osc_payload ps]\<rparr> else v)
     in on_parse (reset_osc P_ground) v)"

definition osc_parameter :: "wchar \<Rightarrow> VtOutputParseState \<Rightarrow> VtOutputParseState" where
  "osc_parameter ch ps =
    (if ch \<ge> 0x30 \<and> ch \<le> 0x39 then
       ps\<lparr>ps_osc_param_have_digits := True,
         ps_osc_param := (if ps_osc_param ps \<le> 1000000 then ps_osc_param ps * 10 + unat (ch - 0x30) else ps_osc_param ps)\<rparr>
     else if ch = 0x3B then
       let action = (if ps_osc_param_have_digits ps then ps_osc_param ps else 0)
       in ps\<lparr>ps_osc_action := action, ps_osc_capture_payload := (action = 0 \<or> action = 1 \<or> action = 2 \<or> action = 21),
            ps_osc_in_param := False, ps_osc_payload := []\<rparr>
     else reset_osc P_ground ps)"

definition osc_payload :: "wchar \<Rightarrow> VtOutputParseState \<Rightarrow> VtOutputParseState" where
  "osc_payload ch ps =
    (if ps_osc_capture_payload ps \<and> length (ps_osc_payload ps) < 4096
     then ps\<lparr>ps_osc_payload := ps_osc_payload ps @ [ch]\<rparr> else ps)"

definition phase_osc :: "VtEnv \<Rightarrow> wchar \<Rightarrow> VtRun \<Rightarrow> bool \<times> VtRun" where
  "phase_osc e ch v =
    (True,
     if ps_osc_in_param (parse_state v) then on_parse (osc_parameter ch) v
     else if ch = 0x07 \<or> ch = 0x9C then osc_dispatch e v
     else if ch = 0x1B then on_parse (\<lambda>ps. ps\<lparr>ps_phase := P_osc_escape\<rparr>) v
     else on_parse (osc_payload ch) v)"

definition phase_osc_escape :: "VtEnv \<Rightarrow> wchar \<Rightarrow> VtRun \<Rightarrow> bool \<times> VtRun" where
  "phase_osc_escape e ch v =
    (if ch = 0x5C then (True, osc_dispatch e v) else (False, on_parse (\<lambda>ps. ps\<lparr>ps_phase := P_osc\<rparr>) v))"

definition phase_string :: "wchar \<Rightarrow> VtRun \<Rightarrow> bool \<times> VtRun" where
  "phase_string ch v =
    (True,
     if ch = 0x9C then on_parse (\<lambda>ps. ps\<lparr>ps_phase := P_ground\<rparr>) v
     else if ch = 0x1B then on_parse (\<lambda>ps. ps\<lparr>ps_phase := P_string_escape\<rparr>) v
     else v)"

definition phase_string_escape :: "wchar \<Rightarrow> VtRun \<Rightarrow> bool \<times> VtRun" where
  "phase_string_escape ch v =
    (if ch = 0x5C then (True, on_parse (\<lambda>ps. ps\<lparr>ps_phase := P_ground\<rparr>) v)
     else (False, on_parse (\<lambda>ps. ps\<lparr>ps_phase := P_string\<rparr>) v))"

section \<open>Ground\<close>

definition write_tab :: "VtEnv \<Rightarrow> VtRun \<Rightarrow> VtRun" where
  "write_tab e v =
    (let tab_offset = (if cx (v_cursor v) < 0 then 0 else nat (cx (v_cursor v)) mod 8)
     in (write_printable e 0x20 ^^ (8 - tab_offset)) v)"

definition process_character :: "VtEnv \<Rightarrow> wchar \<Rightarrow> VtRun \<Rightarrow> VtRun" where
  "process_character e ch v =
    (if e_processed_output e \<and> ch = 0x0D then set_x 0 v
     else if e_processed_output e \<and> ch = 0x0A then
       line_feed e (if \<not> e_disable_newline_auto_return e then set_x 0 v else v)
     else if e_processed_output e \<and> ch = 0x08 then
       (if cx (v_cursor v) > 0 then set_x (to_short (cx (v_cursor v) - 1)) v else v)
     else if e_processed_output e \<and> ch = 0x09 then write_tab e v
     else write_printable e ch v)"

definition phase_ground :: "VtEnv \<Rightarrow> wchar \<Rightarrow> VtRun \<Rightarrow> VtRun" where
  "phase_ground e ch v =
    (if ch = 0x1B then on_parse (\<lambda>ps. ps\<lparr>ps_phase := P_escape\<rparr>) v
     else if ch = 0x9B then on_parse (reset_csi P_csi) v
     else if ch = 0x9D then on_parse (reset_osc P_osc) v
     else if ch = 0x9C then v
     else if ch = 0x90 \<or> ch = 0x98 \<or> ch = 0x9E \<or> ch = 0x9F then on_parse (\<lambda>ps. ps\<lparr>ps_phase := P_string\<rparr>) v
     else process_character e ch v)"

section \<open>The loop\<close>

definition text_step :: "VtEnv \<Rightarrow> wchar \<Rightarrow> VtRun \<Rightarrow> bool \<times> VtRun" where
  "text_step e ch v =
    (if e_vt_processing e then
       (case ps_phase (parse_state v) of
          P_escape \<Rightarrow> phase_escape e ch v
        | P_esc_dispatch \<Rightarrow> phase_esc_dispatch e ch v
        | P_csi \<Rightarrow> phase_csi e ch v
        | P_osc \<Rightarrow> phase_osc e ch v
        | P_osc_escape \<Rightarrow> phase_osc_escape e ch v
        | P_string \<Rightarrow> phase_string ch v
        | P_string_escape \<Rightarrow> phase_string_escape ch v
        | P_ground \<Rightarrow> (True, phase_ground e ch v))
     else (True, process_character e ch v))"

definition hands_back :: "VtRun \<Rightarrow> bool" where
  "hands_back v \<longleftrightarrow> ps_phase (parse_state v) = P_osc_escape \<or> ps_phase (parse_state v) = P_string_escape"

text \<open>A character is handed back only from the two escape phases, to a phase that consumes it.\<close>

lemma text_step_hands_back:
  "text_step e ch v = (False, v') \<Longrightarrow> hands_back v \<and> \<not> hands_back v'"
  by (auto simp: text_step_def phase_escape_def phase_esc_dispatch_def phase_csi_def phase_osc_def
      phase_osc_escape_def phase_string_def phase_string_escape_def hands_back_def on_parse_def Let_def
      split: if_splits Phase.splits)

function text_loop :: "VtEnv \<Rightarrow> wstring \<Rightarrow> VtRun \<Rightarrow> VtRun" where
  "text_loop e [] v = v"
| "text_loop e (ch # rest) v =
    (if fst (text_step e ch v) then text_loop e rest (snd (text_step e ch v))
     else text_loop e (ch # rest) (snd (text_step e ch v)))"
  by pat_completeness auto

termination
proof (relation "measures [\<lambda>(e, cs, v). length cs, \<lambda>(e, cs, v). if hands_back v then 1 else 0]", goal_cases)
  case (3 e ch rest v)
  then have "text_step e ch v = (False, snd (text_step e ch v))" by (simp add: prod_eq_iff)
  from text_step_hands_back [OF this] show ?case by simp
qed simp_all

declare text_loop.simps(2) [simp del]

section \<open>The whole function\<close>

text \<open>The parameters that stand for the caller: output mode, title sink, query answers, memory.\<close>

record VtCall =
  c_output_mode :: ulong
  c_has_title_state :: bool
  c_answers_queries :: bool
  c_mem :: "nat \<Rightarrow> bool"

definition call_env :: "VtCall \<Rightarrow> ScreenBuffer \<Rightarrow> VtEnv" where
  "call_env c sb =
    \<lparr>e_size = sb_buffer_size sb, e_default_attributes = sb_default_text_attributes sb,
     e_processed_output = (c_output_mode c AND 0x0001 \<noteq> 0), e_wrap_at_eol = (c_output_mode c AND 0x0002 \<noteq> 0),
     e_vt_processing = (c_output_mode c AND 0x0004 \<noteq> 0),
     e_disable_newline_auto_return = (c_output_mode c AND 0x0008 \<noteq> 0),
     e_has_title_state = c_has_title_state c, e_answers_queries = c_answers_queries c, e_mem = c_mem c\<rparr>"

definition begin_text :: "VtEnv \<Rightarrow> ScreenBuffer \<Rightarrow> VtRun" where
  "begin_text e sb =
    \<lparr>v_sb = (if e_vt_processing e then sb else sb\<lparr>sb_vt_output_parse_state := initial_parse_state\<rparr>),
     v_cursor = sb_cursor_position sb, v_attributes = sb_text_attributes sb,
     v_vertical_margins = sb_vt_vertical_margins sb, v_autowrap = sb_vt_autowrap_enabled sb,
     v_delayed_wrap_position = (if e_vt_processing e then sb_vt_delayed_wrap_position sb else None),
     v_origin_mode = sb_vt_origin_mode_enabled sb, v_insert_mode = sb_vt_insert_mode_enabled sb,
     v_titles = [], v_injected = [], v_allocs = 0, v_switches = 0, v_failed = False\<rparr>"

definition end_text :: "ScreenBuffer \<Rightarrow> VtRun \<Rightarrow> ScreenBuffer" where
  "end_text original v =
    (let sb = v_sb v;
         sb = (if v_autowrap v \<noteq> sb_vt_autowrap_enabled original then set_vt_autowrap_enabled (v_autowrap v) sb else sb);
         sb = (if v_origin_mode v \<noteq> sb_vt_origin_mode_enabled original then set_vt_origin_mode_enabled (v_origin_mode v) sb else sb);
         sb = (if v_insert_mode v \<noteq> sb_vt_insert_mode_enabled original then set_vt_insert_mode_enabled (v_insert_mode v) sb else sb);
         sb = set_vt_delayed_wrap_position (v_delayed_wrap_position v) sb;
         sb = set_cursor_position (v_cursor v) sb;
         sb = set_text_attributes (v_attributes v) sb
     in snap_window_to_cursor sb)"

definition run_text :: "VtCall \<Rightarrow> wstring \<Rightarrow> ScreenBuffer \<Rightarrow> VtRun" where
  "run_text c txt sb = text_loop (call_env c sb) txt (begin_text (call_env c sb) sb)"

text \<open>The result carries the buffer, the titles, the injected bytes and the assert flag.\<close>

definition apply_text_to_screen_buffer :: "VtCall \<Rightarrow> wstring \<Rightarrow> ScreenBuffer \<Rightarrow> VtRun" where
  "apply_text_to_screen_buffer c txt sb =
    (if cx (sb_buffer_size sb) \<le> 0 \<or> cy (sb_buffer_size sb) \<le> 0 then (begin_text (call_env c sb) sb)\<lparr>v_sb := sb\<rparr>
     else (run_text c txt sb)\<lparr>v_sb := end_text sb (run_text c txt sb)\<rparr>)"

section \<open>Every write keeps the buffer well-formed\<close>

lemma digit_value: "0x30 \<le> ch \<Longrightarrow> ch \<le> 0x39 \<Longrightarrow> unat (ch - 0x30 :: wchar) \<le> 9"
  using dec_digit_lt [of ch "unat (ch - 0x30)"] by (simp add: dec_digit_def)

lemma parse_ok_phase [simp]: "parse_ok (ps\<lparr>ps_phase := ph\<rparr>) = parse_ok ps"
  by (simp add: parse_ok_def)

lemma parse_ok_resets [simp]:
  "parse_ok ps \<Longrightarrow> parse_ok (reset_esc ps)" "parse_ok ps \<Longrightarrow> parse_ok (reset_csi ph ps)"
  "parse_ok ps \<Longrightarrow> parse_ok (reset_osc ph ps)" "parse_ok initial_parse_state"
  by (simp_all add: parse_ok_def reset_esc_def reset_csi_def reset_osc_def empty_csi_def initial_parse_state_def)

lemma parse_ok_push_intermediate: "parse_ok ps \<Longrightarrow> parse_ok (push_intermediate ch ps)"
  by (auto simp: parse_ok_def push_intermediate_def reset_esc_def Let_def)

lemma parse_ok_push_param: "parse_ok ps \<Longrightarrow> parse_ok (push_param ps)"
  by (auto simp: parse_ok_def push_param_def)

lemma parse_ok_csi_collect:
  assumes "parse_ok ps"
  shows "parse_ok (csi_collect ch ps)"
proof -
  have "parse_ok (ps\<lparr>ps_csi_last_was_separator := True\<rparr>)" using assms by (simp add: parse_ok_def)
  then have "parse_ok (push_param (ps\<lparr>ps_csi_last_was_separator := True\<rparr>))" by (rule parse_ok_push_param)
  then have "parse_ok ((push_param (ps\<lparr>ps_csi_last_was_separator := True\<rparr>))\<lparr>ps_csi_current := 0, ps_csi_have_digits := False\<rparr>)"
    by (simp add: parse_ok_def)
  moreover have "parse_ok (ps\<lparr>ps_csi_have_digits := True, ps_csi_last_was_separator := False,
      ps_csi_current := (if ps_csi_current ps \<le> 1000000 then ps_csi_current ps * 10 + unat (ch - 0x30) else ps_csi_current ps)\<rparr>)"
    if "0x30 \<le> ch" "ch \<le> 0x39"
    using assms digit_value [OF that] by (auto simp: parse_ok_def)
  moreover have "parse_ok (ps\<lparr>ps_csi := (ps_csi ps)\<lparr>csi_private_marker := True\<rparr>\<rparr>)"
    "parse_ok (ps\<lparr>ps_csi := (ps_csi ps)\<lparr>csi_exclamation_marker := True\<rparr>\<rparr>)"
    using assms by (simp_all add: parse_ok_def)
  ultimately show ?thesis using assms by (simp add: csi_collect_def)
qed

lemma parse_ok_csi_complete:
  assumes "parse_ok ps"
  shows "parse_ok (csi_complete ch ps)"
proof -
  have "parse_ok (if ps_csi_have_digits ps \<or> ps_csi_last_was_separator ps then push_param ps else ps)" (is "parse_ok ?q")
    using assms by (simp add: parse_ok_push_param)
  then show ?thesis unfolding csi_complete_def Let_def by (simp add: parse_ok_def)
qed

lemma parse_ok_osc_parameter:
  assumes "parse_ok ps"
  shows "parse_ok (osc_parameter ch ps)"
proof -
  have "parse_ok (ps\<lparr>ps_osc_param_have_digits := True,
      ps_osc_param := (if ps_osc_param ps \<le> 1000000 then ps_osc_param ps * 10 + unat (ch - 0x30) else ps_osc_param ps)\<rparr>)"
    if "0x30 \<le> ch" "ch \<le> 0x39"
    using assms digit_value [OF that] by (auto simp: parse_ok_def)
  moreover have "parse_ok (ps\<lparr>ps_osc_action := a, ps_osc_capture_payload := c, ps_osc_in_param := False, ps_osc_payload := []\<rparr>)"
    if "a \<le> 10000009" for a c
    using assms that by (simp add: parse_ok_def)
  moreover have "ps_osc_param ps \<le> 10000009" using assms by (simp add: parse_ok_def)
  ultimately show ?thesis using assms by (simp add: osc_parameter_def Let_def)
qed

lemma parse_ok_osc_payload: "parse_ok ps \<Longrightarrow> parse_ok (osc_payload ch ps)"
  by (auto simp: parse_ok_def osc_payload_def)

lemma sb_ok_parse_update [simp]: "sb_ok (sb\<lparr>sb_vt_output_parse_state := ps\<rparr>) = sb_ok sb"
  by (simp add: sb_ok_def)

lemma run_ok_on_parse: "run_ok e v \<Longrightarrow> parse_ok (f (parse_state v)) \<Longrightarrow> run_ok e (on_parse f v)"
  by (simp add: run_ok_def on_parse_def)

lemma run_ok_parse: "run_ok e v \<Longrightarrow> parse_ok (parse_state v)"
  by (simp add: run_ok_def)

lemma run_ok_leave_alternate:
  assumes "run_ok e v"
  shows "run_ok e (leave_alternate e v)"
proof -
  obtain ok sb where s: "set_vt_using_alternate_screen_buffer (e_mem e (v_allocs v)) False 0x20 (v_attributes v) (v_sb v) = (ok, sb)"
    by (rule prod.exhaust)
  from run_ok_switch_screen(1) [OF assms s] assms show ?thesis
    by (simp add: leave_alternate_def s run_ok_def)
qed

lemma run_ok_hard_reset:
  assumes "run_ok e v"
  shows "run_ok e (hard_reset e v)"
proof -
  let ?t = "st_color_table default_settings"
  define v1 where "v1 = leave_alternate e v"
  define v2 where "v2 = v1\<lparr>v_sb := set_color_table ?t (v_sb v1)\<rparr>"
  define v3 where "v3 = v2\<lparr>v_sb := set_cursor_info (sb_cursor_size (v_sb v2)) True (v_sb v2)\<rparr>"
  define v4 where "v4 = v3\<lparr>v_sb := save_cursor_state coord0 (e_default_attributes e) False False (v_sb v3)\<rparr>"
  define v5 where "v5 = v4\<lparr>v_autowrap := True, v_origin_mode := False, v_insert_mode := False,
    v_delayed_wrap_position := None, v_vertical_margins := None\<rparr>"
  define v6 where "v6 = call_set_vt_vertical_margins None v5"
  define v7 where "v7 = v6\<lparr>v_attributes := e_default_attributes e, v_cursor := coord0\<rparr>"
  have "run_ok e v1" using assms unfolding v1_def by (rule run_ok_leave_alternate)
  then have "run_ok e v2" unfolding v2_def by (rule run_ok_screen) (use run_okD [OF \<open>run_ok e v1\<close>] in simp_all)
  then have "run_ok e v3" unfolding v3_def by (rule run_ok_set_cursor_info)
  then have "run_ok e v4" unfolding v4_def by (rule run_ok_save_cursor_state)
  then have "run_ok e v5" unfolding v5_def by (simp add: run_ok_margins)
  then have "run_ok e v6" unfolding v6_def by (rule run_ok_call_set_margins) simp
  then have "run_ok e v7"
    unfolding v7_def using run_okD [OF \<open>run_ok e v6\<close>] by (intro run_ok_cursor cursor_okI) simp_all
  then show ?thesis
    unfolding hard_reset_def Let_def v7_def v6_def v5_def v4_def v3_def v2_def v1_def
    by (rule run_ok_fill_run)
qed

lemma run_ok_screen_alignment:
  assumes "run_ok e v"
  shows "run_ok e (screen_alignment e v)"
proof -
  let ?u = "fill_run coord0 0x45 (e_default_attributes e) (screen_cells_count e) (v\<lparr>v_delayed_wrap_position := None\<rparr>)"
  have "run_ok e ?u" using assms by (intro run_ok_fill_run) simp
  then have "run_ok e (call_set_vt_vertical_margins None (?u\<lparr>v_attributes := a, v_origin_mode := False, v_vertical_margins := None\<rparr>))" for a
    by (intro run_ok_call_set_margins) (simp_all add: run_ok_margins)
  then show ?thesis
    unfolding screen_alignment_def Let_def using run_okD [OF assms] by (intro run_ok_cursor cursor_okI) simp_all
qed

lemma run_ok_phase_escape:
  assumes "run_ok e v"
  shows "run_ok e (snd (phase_escape e ch v))"
proof -
  define u where "u = on_parse reset_esc v"
  have u: "run_ok e u" unfolding u_def using assms by (intro run_ok_on_parse) (simp_all add: run_ok_parse)
  have one: "parse_ok (ps\<lparr>ps_phase := P_esc_dispatch, ps_esc_length := Suc 0, ps_esc_intermediates := [ch]\<rparr>)" if "parse_ok ps" for ps
    using that by (simp add: parse_ok_def)
  have "run_ok e (line_feed e (set_x 0 u))" using u run_okD [OF u] by (intro run_ok_line_feed run_ok_set_x) simp_all
  with u run_ok_parse [OF u] show ?thesis
    by (simp add: phase_escape_def Let_def run_ok_on_parse one run_ok_save_cursor run_ok_restore_cursor
        run_ok_line_feed run_ok_reverse_line_feed run_ok_hard_reset flip: u_def)
qed

lemma run_ok_phase_esc_dispatch: "run_ok e v \<Longrightarrow> run_ok e (snd (phase_esc_dispatch e ch v))"
  using run_ok_screen_alignment [of e v] run_ok_parse [of e v] run_ok_parse [of e "screen_alignment e v"]
  by (simp add: phase_esc_dispatch_def run_ok_on_parse parse_ok_push_intermediate)

lemma run_ok_phase_csi:
  assumes "run_ok e v"
  shows "run_ok e (snd (phase_csi e ch v))"
proof (cases "ps_csi_length (parse_state v) \<ge> 128")
  case True
  with assms show ?thesis by (simp add: phase_csi_def run_ok_on_parse run_ok_parse)
next
  case False
  let ?inc = "\<lambda>ps. ps\<lparr>ps_csi_length := ps_csi_length ps + 1\<rparr>"
  define u where "u = on_parse ?inc v"
  have "parse_ok (?inc (parse_state v))" using False run_ok_parse [OF assms] by (simp add: parse_ok_def)
  then have u: "run_ok e u" unfolding u_def by (intro run_ok_on_parse assms)
  define w where "w = on_parse (csi_complete ch) u"
  have "run_ok e w" unfolding w_def using u by (intro run_ok_on_parse) (simp_all add: parse_ok_csi_complete run_ok_parse)
  then have "run_ok e (apply_csi e (ps_csi (parse_state w)) w)" by (rule run_ok_apply_csi)
  then have "run_ok e (on_parse (reset_csi P_ground) (apply_csi e (ps_csi (parse_state w)) w))"
    by (intro run_ok_on_parse) (simp_all add: run_ok_parse)
  moreover have "run_ok e (on_parse (csi_collect ch) u)"
    using u by (intro run_ok_on_parse) (simp_all add: parse_ok_csi_collect run_ok_parse)
  ultimately show ?thesis
    using False unfolding phase_csi_def Let_def snd_conv u_def [symmetric] w_def [symmetric] by simp
qed

lemma run_ok_osc_dispatch: "run_ok e v \<Longrightarrow> run_ok e (osc_dispatch e v)"
  unfolding osc_dispatch_def Let_def by (intro run_ok_on_parse) (simp_all add: run_ok_parse)

lemma run_ok_phase_osc: "run_ok e v \<Longrightarrow> run_ok e (snd (phase_osc e ch v))"
  by (simp add: phase_osc_def run_ok_on_parse run_ok_parse run_ok_osc_dispatch parse_ok_osc_parameter parse_ok_osc_payload)

lemma run_ok_phase_osc_escape: "run_ok e v \<Longrightarrow> run_ok e (snd (phase_osc_escape e ch v))"
  by (simp add: phase_osc_escape_def run_ok_on_parse run_ok_parse run_ok_osc_dispatch)

lemma run_ok_phase_string:
  "run_ok e v \<Longrightarrow> run_ok e (snd (phase_string ch v))" "run_ok e v \<Longrightarrow> run_ok e (snd (phase_string_escape ch v))"
  by (simp_all add: phase_string_def phase_string_escape_def run_ok_on_parse run_ok_parse)

lemma run_ok_funpow: "(\<And>v. run_ok e v \<Longrightarrow> run_ok e (f v)) \<Longrightarrow> run_ok e v \<Longrightarrow> run_ok e ((f ^^ n) v)"
  by (induction n) auto

lemma run_ok_process_character:
  assumes "run_ok e v"
  shows "run_ok e (process_character e ch v)"
proof -
  note b = run_okD [OF assms]
  have zero: "run_ok e (set_x 0 v)" using assms b by (intro run_ok_set_x) simp_all
  have left: "0 < cx (v_cursor v) \<Longrightarrow> run_ok e (set_x (cx (v_cursor v) - 1) v)"
    using assms b by (intro run_ok_set_x) simp_all
  have tab: "run_ok e (write_tab e v)"
    unfolding write_tab_def Let_def by (intro run_ok_funpow run_ok_write_printable assms)
  show ?thesis
    using assms zero left tab b run_ok_line_feed [OF zero] run_ok_line_feed [OF assms]
    by (simp add: process_character_def run_ok_write_printable to_short_id)
qed

lemma run_ok_phase_ground: "run_ok e v \<Longrightarrow> run_ok e (phase_ground e ch v)"
  by (simp add: phase_ground_def run_ok_on_parse run_ok_parse run_ok_process_character)

lemma run_ok_text_step: "run_ok e v \<Longrightarrow> run_ok e (snd (text_step e ch v))"
  by (simp add: text_step_def run_ok_phase_escape run_ok_phase_esc_dispatch run_ok_phase_csi run_ok_phase_osc
      run_ok_phase_osc_escape run_ok_phase_string run_ok_phase_ground run_ok_process_character split: Phase.split)

lemma run_ok_text_loop: "run_ok e v \<Longrightarrow> run_ok e (text_loop e txt v)"
proof (induction e "txt" v rule: text_loop.induct)
  case (2 e ch rest v)
  then show ?case using run_ok_text_step [of e v ch] by (simp add: text_loop.simps(2))
qed simp

definition screen_ok :: "ScreenBuffer \<Rightarrow> bool" where
  "screen_ok sb \<longleftrightarrow> sb_ok sb \<and> parse_ok (sb_vt_output_parse_state sb)"

lemma run_ok_begin_text:
  assumes "screen_ok sb" and "0 < cx (sb_buffer_size sb)" and "0 < cy (sb_buffer_size sb)"
  shows "run_ok (call_env c sb) (begin_text (call_env c sb) sb)"
  using assms by (auto simp: run_ok_def begin_text_def call_env_def env_ok_def screen_ok_def sb_ok_def size_ok_def)

lemma end_text_ok:
  assumes "run_ok e v"
  shows "screen_ok (end_text sb v) \<and> sb_buffer_size (end_text sb v) = e_size e"
proof -
  define s1 where "s1 = (if v_autowrap v \<noteq> sb_vt_autowrap_enabled sb then set_vt_autowrap_enabled (v_autowrap v) (v_sb v) else v_sb v)"
  define s2 where "s2 = (if v_origin_mode v \<noteq> sb_vt_origin_mode_enabled sb then set_vt_origin_mode_enabled (v_origin_mode v) s1 else s1)"
  define s3 where "s3 = (if v_insert_mode v \<noteq> sb_vt_insert_mode_enabled sb then set_vt_insert_mode_enabled (v_insert_mode v) s2 else s2)"
  define s4 where "s4 = set_vt_delayed_wrap_position (v_delayed_wrap_position v) s3"
  have "sb_ok s4" using run_okD(9) [OF assms] by (simp add: s4_def s3_def s2_def s1_def)
  moreover have "sb_buffer_size s4 = sb_buffer_size (v_sb v)" "sb_vt_output_parse_state s4 = parse_state v"
    by (simp_all add: s4_def s3_def s2_def s1_def set_vt_delayed_wrap_position_def
        set_vt_insert_mode_enabled_def set_vt_origin_mode_enabled_def set_vt_autowrap_enabled_def)
  ultimately have frame: "sb_ok s4" "sb_buffer_size s4 = e_size e" "parse_ok (sb_vt_output_parse_state s4)"
    using run_okD(10) [OF assms] run_ok_parse [OF assms] by simp_all
  have cur: "cursor_ok (sb_buffer_size s4) (v_cursor v)" using assms by (simp add: run_ok_def frame)
  have "sb_ok (set_text_attributes (v_attributes v) (set_cursor_position (v_cursor v) s4))"
    using sb_ok_set_cursor_position [OF frame(1) cur] by simp
  moreover have "sb_vt_output_parse_state (snap_window_to_cursor s) = sb_vt_output_parse_state s" for s
    by (simp add: snap_window_to_cursor_def Let_def)
  ultimately show ?thesis
    using frame unfolding end_text_def Let_def s1_def [symmetric] s2_def [symmetric] s3_def [symmetric] s4_def [symmetric]
    by (simp add: screen_ok_def set_text_attributes_def set_cursor_position_def)
qed

lemma apply_text_ok:
  assumes "screen_ok sb"
  shows "screen_ok (v_sb (apply_text_to_screen_buffer c txt sb))"
    and "sb_buffer_size (v_sb (apply_text_to_screen_buffer c txt sb)) = sb_buffer_size sb"
    and "\<not> v_failed (apply_text_to_screen_buffer c txt sb)"
proof -
  have "screen_ok (v_sb (apply_text_to_screen_buffer c txt sb))
      \<and> sb_buffer_size (v_sb (apply_text_to_screen_buffer c txt sb)) = sb_buffer_size sb
      \<and> \<not> v_failed (apply_text_to_screen_buffer c txt sb)"
  proof (cases "0 < cx (sb_buffer_size sb) \<and> 0 < cy (sb_buffer_size sb)")
    case True
    then have "run_ok (call_env c sb) (run_text c txt sb)"
      unfolding run_text_def using assms by (intro run_ok_text_loop run_ok_begin_text) simp_all
    moreover have "e_size (call_env c sb) = sb_buffer_size sb" by (simp add: call_env_def)
    ultimately show ?thesis
      using True end_text_ok [of "call_env c sb" "run_text c txt sb" sb] run_okD(12)
      by (auto simp: apply_text_to_screen_buffer_def)
  next
    case False
    then have "cx (sb_buffer_size sb) \<le> 0 \<or> cy (sb_buffer_size sb) \<le> 0" by auto
    with assms show ?thesis by (simp add: apply_text_to_screen_buffer_def begin_text_def)
  qed
  then show "screen_ok (v_sb (apply_text_to_screen_buffer c txt sb))"
    and "sb_buffer_size (v_sb (apply_text_to_screen_buffer c txt sb)) = sb_buffer_size sb"
    and "\<not> v_failed (apply_text_to_screen_buffer c txt sb)" by simp_all
qed

text \<open>A sequence of writes is a machine whose invariant is the well-formedness of the screen.\<close>

definition write_step :: "ScreenBuffer \<Rightarrow> VtCall \<times> wstring \<Rightarrow> ScreenBuffer" where
  "write_step sb w = v_sb (apply_text_to_screen_buffer (fst w) (snd w) sb)"

interpretation writes: invariant_machine write_step screen_ok
  by unfold_locales (simp add: write_step_def apply_text_ok)

end
