(* ===== verification/Vt_Streaming.thy ===== *)
theory Vt_Streaming
  imports Vt_Output
begin

text \<open>
  Output may arrive in pieces of any size. Two runs of the parser are similar when they agree on
  everything but the window, the revision, the collected effects and the members of the buffer
  that \<open>apply_text_to_screen_buffer\<close> caches in local variables and writes back at its end. Every
  step keeps similarity as long as the screens are not switched, so that a write gives the same
  screen as its pieces written one after the other.
\<close>

section \<open>Similar screens\<close>

definition core_sb :: "ScreenBuffer \<Rightarrow> ScreenBuffer" where
  "core_sb sb = sb\<lparr>sb_window_rect := rect0, sb_revision := 0, sb_cursor_position := coord0, sb_text_attributes := 0,
     sb_vt_autowrap_enabled := True, sb_vt_delayed_wrap_position := None, sb_vt_origin_mode_enabled := False,
     sb_vt_insert_mode_enabled := False\<rparr>"

lemma core_sb_fields [simp]:
  "sb_buffer_size (core_sb sb) = sb_buffer_size sb" "sb_cells (core_sb sb) = sb_cells sb"
  "sb_cursor_size (core_sb sb) = sb_cursor_size sb" "sb_color_table (core_sb sb) = sb_color_table sb"
  "sb_saved_cursor_state (core_sb sb) = sb_saved_cursor_state sb"
  "sb_vt_vertical_margins (core_sb sb) = sb_vt_vertical_margins sb"
  "sb_vt_main_backup (core_sb sb) = sb_vt_main_backup sb"
  "sb_vt_output_parse_state (core_sb sb) = sb_vt_output_parse_state sb"
  "sb_default_text_attributes (core_sb sb) = sb_default_text_attributes sb"
  by (simp_all add: core_sb_def)

lemma core_sb_idem [simp]: "core_sb (core_sb sb) = core_sb sb"
  by (simp add: core_sb_def)

lemma core_sb_touch [simp]: "core_sb (touch sb) = core_sb sb"
  by (simp add: core_sb_def touch_def)

lemma core_sb_updates:
  "core_sb (sb\<lparr>sb_cells := cs\<rparr>) = (core_sb sb)\<lparr>sb_cells := cs\<rparr>"
  "core_sb (sb\<lparr>sb_cursor_size := n\<rparr>) = (core_sb sb)\<lparr>sb_cursor_size := n\<rparr>"
  "core_sb (sb\<lparr>sb_cursor_visible := b\<rparr>) = (core_sb sb)\<lparr>sb_cursor_visible := b\<rparr>"
  "core_sb (sb\<lparr>sb_color_table := t\<rparr>) = (core_sb sb)\<lparr>sb_color_table := t\<rparr>"
  "core_sb (sb\<lparr>sb_saved_cursor_state := q\<rparr>) = (core_sb sb)\<lparr>sb_saved_cursor_state := q\<rparr>"
  "core_sb (sb\<lparr>sb_vt_vertical_margins := m\<rparr>) = (core_sb sb)\<lparr>sb_vt_vertical_margins := m\<rparr>"
  "core_sb (sb\<lparr>sb_vt_output_parse_state := ps\<rparr>) = (core_sb sb)\<lparr>sb_vt_output_parse_state := ps\<rparr>"
  by (simp_all add: core_sb_def)

text \<open>Two screens are alike when their cores are equal. Then they agree on all members but the cached ones.\<close>

definition alike :: "ScreenBuffer \<Rightarrow> ScreenBuffer \<Rightarrow> bool" where
  "alike sb sb' \<longleftrightarrow> core_sb sb = core_sb sb'"

lemma alike_refl [simp]: "alike sb sb"
  by (simp add: alike_def)

lemma alikeD:
  assumes "alike sb sb'"
  shows "core_sb sb = core_sb sb'"
    "sb_buffer_size sb = sb_buffer_size sb'" "sb_cells sb = sb_cells sb'" "sb_cursor_size sb = sb_cursor_size sb'"
    "sb_color_table sb = sb_color_table sb'" "sb_saved_cursor_state sb = sb_saved_cursor_state sb'"
    "sb_vt_main_backup sb = sb_vt_main_backup sb'" "sb_vt_output_parse_state sb = sb_vt_output_parse_state sb'"
    "sb_default_text_attributes sb = sb_default_text_attributes sb'"
    "sb_vt_vertical_margins sb = sb_vt_vertical_margins sb'"
    "coord_in_range c sb = coord_in_range c sb'" "linear_index c sb = linear_index c sb'"
    "linear_index c (touch sb) = linear_index c (touch sb')"
proof -
  show core: "core_sb sb = core_sb sb'" using assms by (simp add: alike_def)
  show "sb_buffer_size sb = sb_buffer_size sb'" "sb_cells sb = sb_cells sb'" "sb_cursor_size sb = sb_cursor_size sb'"
    "sb_color_table sb = sb_color_table sb'" "sb_saved_cursor_state sb = sb_saved_cursor_state sb'"
    "sb_vt_main_backup sb = sb_vt_main_backup sb'" "sb_vt_output_parse_state sb = sb_vt_output_parse_state sb'"
    "sb_default_text_attributes sb = sb_default_text_attributes sb'"
    "sb_vt_vertical_margins sb = sb_vt_vertical_margins sb'"
    using core_sb_fields [of sb] core_sb_fields [of sb'] core by simp_all
  then show "coord_in_range c sb = coord_in_range c sb'" "linear_index c sb = linear_index c sb'"
    "linear_index c (touch sb) = linear_index c (touch sb')"
    by (simp_all add: coord_in_range_def linear_index_def)
qed

named_theorems alike "operations that keep screens alike"

lemma alike_write_cell [alike]:
  assumes "alike sb sb'"
  shows "alike (snd (write_cell c ch a sb)) (snd (write_cell c ch a sb'))"
  using alikeD [OF assms] by (simp add: alike_def write_cell_def core_sb_updates)

lemma alike_insert_cell [alike]:
  assumes "alike sb sb'"
  shows "alike (snd (insert_cell c ch a sb)) (snd (insert_cell c ch a sb'))"
  using alikeD [OF assms] alike_write_cell [OF assms] by (simp add: alike_def insert_cell_def core_sb_updates Let_def)

lemma alike_write_run [alike]:
  assumes "alike sb sb'"
  shows "alike (snd (write_run put n c sb)) (snd (write_run put n c sb'))"
  using alikeD [OF assms] by (simp add: alike_def write_run_def core_sb_updates Let_def split: prod.split)

lemma alike_scroll [alike]:
  assumes "alike sb sb'"
  shows "alike (snd (scroll_screen_buffer m r clip d ch a sb)) (snd (scroll_screen_buffer m r clip d ch a sb'))"
  using alikeD [OF assms] by (simp add: alike_def scroll_screen_buffer_def core_sb_updates Let_def split: prod.split)

lemma alike_save_cursor_state [alike]:
  assumes "alike sb sb'"
  shows "alike (save_cursor_state p a d om sb) (save_cursor_state p a d om sb')"
  using alikeD [OF assms] by (simp add: alike_def save_cursor_state_def core_sb_updates Let_def)

lemma alike_set_cursor_info [alike]:
  assumes "alike sb sb'"
  shows "alike (set_cursor_info n b sb) (set_cursor_info n b sb')"
  using alikeD [OF assms] by (simp add: alike_def set_cursor_info_def core_sb_updates)

lemma alike_set_color_table [alike]:
  assumes "alike sb sb'"
  shows "alike (set_color_table t sb) (set_color_table t sb')"
  using alikeD [OF assms] by (simp add: alike_def set_color_table_def core_sb_updates)

lemma alike_parse [alike]:
  assumes "alike sb sb'"
  shows "alike (sb\<lparr>sb_vt_output_parse_state := ps\<rparr>) (sb'\<lparr>sb_vt_output_parse_state := ps\<rparr>)"
  using alikeD [OF assms] by (simp add: alike_def core_sb_updates)

lemma alike_restore:
  assumes "alike sb sb'"
  shows "restore_cursor_state sb = restore_cursor_state sb'"
  unfolding restore_cursor_state_def alikeD(2,6) [OF assms] ..

lemma alike_margins:
  assumes "alike sb sb'"
  shows "(set_vt_vertical_margins m sb = None) = (set_vt_vertical_margins m sb' = None)"
    and "set_vt_vertical_margins m sb = Some s \<Longrightarrow> set_vt_vertical_margins m sb' = Some s' \<Longrightarrow> alike s s'"
  using alikeD(1) [OF assms] unfolding set_vt_vertical_margins_def alikeD(2) [OF assms]
  by (auto simp: alike_def core_sb_updates split: if_splits)

lemma alike_copy_cell [alike]:
  assumes "alike sb sb'"
  shows "alike (copy_cell a p q sb) (copy_cell a p q sb')"
proof -
  have "read_output_characters p [0] sb = read_output_characters p [0] sb'"
    "read_output_attributes p [0] sb = read_output_attributes p [0] sb'"
    using alikeD [OF assms] by (simp_all add: read_output_characters_def read_output_attributes_def read_run_def)
  then show ?thesis using assms by (simp add: copy_cell_def Let_def alike split: prod.split)
qed

lemma alike_fold:
  "(\<And>x s s'. alike s s' \<Longrightarrow> alike (f x s) (f x s')) \<Longrightarrow> alike sb sb' \<Longrightarrow> alike (fold f xs sb) (fold f xs sb')"
  by (induction xs arbitrary: sb sb') auto

lemma alike_blank_cells [alike]: "alike sb sb' \<Longrightarrow> alike (blank_cells a y xs sb) (blank_cells a y xs sb')"
  unfolding blank_cells_def by (rule alike_fold) (rule alike)

section \<open>Similar runs\<close>

definition sim :: "VtRun \<Rightarrow> VtRun \<Rightarrow> bool" where
  "sim v v' \<longleftrightarrow> alike (v_sb v) (v_sb v') \<and> v_cursor v = v_cursor v' \<and> v_attributes v = v_attributes v'
    \<and> v_vertical_margins v = v_vertical_margins v' \<and> v_autowrap v = v_autowrap v'
    \<and> v_delayed_wrap_position v = v_delayed_wrap_position v' \<and> v_origin_mode v = v_origin_mode v'
    \<and> v_insert_mode v = v_insert_mode v' \<and> v_failed v = v_failed v' \<and> v_switches v = v_switches v'"

lemma simD:
  assumes "sim v v'"
  shows "alike (v_sb v) (v_sb v')" "v_cursor v = v_cursor v'" "v_attributes v = v_attributes v'"
    "v_vertical_margins v = v_vertical_margins v'" "v_autowrap v = v_autowrap v'"
    "v_delayed_wrap_position v = v_delayed_wrap_position v'" "v_origin_mode v = v_origin_mode v'"
    "v_insert_mode v = v_insert_mode v'" "v_failed v = v_failed v'" "v_switches v = v_switches v'"
  using assms by (simp_all add: sim_def)

lemma sim_refl [simp]: "sim v v"
  by (simp add: sim_def)

lemma sim_trans: "sim a b \<Longrightarrow> sim b c \<Longrightarrow> sim a c"
  by (simp add: sim_def alike_def)

lemma sim_region: "sim v v' \<Longrightarrow> resolve_vertical_region e v = resolve_vertical_region e v'"
  by (simp add: sim_def resolve_vertical_region_def)

lemma sim_screen:
  "sim v v' \<Longrightarrow> alike sb sb' \<Longrightarrow> sim (v\<lparr>v_sb := sb\<rparr>) (v'\<lparr>v_sb := sb'\<rparr>)"
  by (simp add: sim_def)

lemma sim_updates:
  "sim v v' \<Longrightarrow> sim (v\<lparr>v_cursor := p\<rparr>) (v'\<lparr>v_cursor := p\<rparr>)"
  "sim v v' \<Longrightarrow> sim (v\<lparr>v_attributes := a\<rparr>) (v'\<lparr>v_attributes := a\<rparr>)"
  "sim v v' \<Longrightarrow> sim (v\<lparr>v_vertical_margins := m\<rparr>) (v'\<lparr>v_vertical_margins := m\<rparr>)"
  "sim v v' \<Longrightarrow> sim (v\<lparr>v_autowrap := b\<rparr>) (v'\<lparr>v_autowrap := b\<rparr>)"
  "sim v v' \<Longrightarrow> sim (v\<lparr>v_delayed_wrap_position := q\<rparr>) (v'\<lparr>v_delayed_wrap_position := q\<rparr>)"
  "sim v v' \<Longrightarrow> sim (v\<lparr>v_origin_mode := b\<rparr>) (v'\<lparr>v_origin_mode := b\<rparr>)"
  "sim v v' \<Longrightarrow> sim (v\<lparr>v_insert_mode := b\<rparr>) (v'\<lparr>v_insert_mode := b\<rparr>)"
  "sim v v' \<Longrightarrow> sim (v\<lparr>v_titles := t\<rparr>) (v'\<lparr>v_titles := t'\<rparr>)"
  "sim v v' \<Longrightarrow> sim (v\<lparr>v_allocs := n\<rparr>) (v'\<lparr>v_allocs := n'\<rparr>)"
  by (simp_all add: sim_def)

text \<open>Assigning a coordinate of the cursor.\<close>

lemma sim_set_xy:
  assumes "sim v v'"
  shows "sim (set_x x v) (set_x x v')" "sim (set_y y v) (set_y y v')"
  using simD [OF assms] by (simp_all add: sim_def)

lemma sim_fill_run:
  assumes "sim v v'"
  shows "sim (fill_run p ch a n v) (fill_run p ch a n v')"
  unfolding fill_run_def fill_output_attributes_def fill_output_characters_def
  by (intro sim_screen alike assms simD(1))

lemma sim_scroll_rect:
  assumes "e_mem e = (\<lambda>_. True)" and "sim v v'"
  shows "sim (scroll_rect e r clip d v) (scroll_rect e r clip d v')"
proof -
  have "sim (v\<lparr>v_sb := snd (scroll_screen_buffer True r clip d 0x20 (v_attributes v) (v_sb v))\<rparr>)
      (v'\<lparr>v_sb := snd (scroll_screen_buffer True r clip d 0x20 (v_attributes v') (v_sb v'))\<rparr>)"
    unfolding simD(3) [OF assms(2)] by (intro sim_screen alike assms simD(1))
  then show ?thesis unfolding scroll_rect_def assms(1) by (rule sim_updates)
qed

lemma sim_scroll_region:
  assumes "e_mem e = (\<lambda>_. True)" and "sim v v'"
  shows "sim (scroll_region_up e t b n v) (scroll_region_up e t b n v')"
    and "sim (scroll_region_down e t b n v) (scroll_region_down e t b n v')"
  using sim_scroll_rect [OF assms] sim_fill_run [OF assms(2)] assms(2)
  by (simp_all add: scroll_region_up_def scroll_region_down_def Let_def simD(3) [OF assms(2)])

lemma sim_line_feed:
  assumes "e_mem e = (\<lambda>_. True)" and "sim v v'"
  shows "sim (line_feed e v) (line_feed e v')"
proof -
  have s: "sim (set_y y v) (set_y y v')" for y by (rule sim_set_xy [OF assms(2)])
  have "sim (set_y h (scroll_region_up e t b n (set_y y v))) (set_y h (scroll_region_up e t b n (set_y y v')))" for h t b n y
    by (intro sim_set_xy sim_scroll_region assms s)
  with sim_scroll_region [OF assms] s show ?thesis
    by (simp add: line_feed_def Let_def sim_region [OF assms(2)] simD(2) [OF assms(2)] split: prod.split)
qed

lemma sim_reverse_line_feed:
  assumes "e_mem e = (\<lambda>_. True)" and "sim v v'"
  shows "sim (reverse_line_feed e v) (reverse_line_feed e v')"
  using sim_scroll_region [OF assms] sim_set_xy [OF assms(2)]
  by (simp add: reverse_line_feed_def Let_def sim_region [OF assms(2)] simD(2) [OF assms(2)] split: prod.split)

lemma sim_advance_line:
  assumes "e_mem e = (\<lambda>_. True)" and "sim v v'"
  shows "sim (advance_line e v) (advance_line e v')"
  unfolding advance_line_def by (intro sim_line_feed sim_set_xy assms)

lemma sim_at_delayed_wrap:
  assumes "sim v v'"
  shows "at_delayed_wrap v = at_delayed_wrap v'"
  unfolding at_delayed_wrap_def simD(2,6) [OF assms] ..

lemma sim_maybe_apply_delayed_wrap:
  assumes "e_mem e = (\<lambda>_. True)" and "sim v v'"
  shows "sim (maybe_apply_delayed_wrap e v) (maybe_apply_delayed_wrap e v')"
  using sim_advance_line [OF assms] assms(2)
  by (simp add: maybe_apply_delayed_wrap_def sim_at_delayed_wrap [OF assms(2)] simD(5,6) [OF assms(2)] sim_updates)

lemma sim_put_cell:
  assumes "sim v v'"
  shows "sim (put_cell e ch v) (put_cell e ch v')"
  unfolding put_cell_def simD(2,3,8) [OF assms] by (simp add: sim_screen alike assms simD(1))

lemma sim_write_printable:
  assumes "e_mem e = (\<lambda>_. True)" and "sim v v'"
  shows "sim (write_printable e ch v) (write_printable e ch v')"
proof -
  define u where "u = put_cell e ch (maybe_apply_delayed_wrap e v)"
  define u' where "u' = put_cell e ch (maybe_apply_delayed_wrap e v')"
  have u: "sim u u'" unfolding u_def u'_def by (intro sim_put_cell sim_maybe_apply_delayed_wrap assms)
  have x: "sim (set_x x u) (set_x x u')" for x by (rule sim_set_xy [OF u])
  have a: "sim (advance_line e (set_x x u)) (advance_line e (set_x x u'))" for x by (intro sim_advance_line assms x)
  have d: "sim ((set_x x u)\<lparr>v_delayed_wrap_position := q\<rparr>) ((set_x x u')\<lparr>v_delayed_wrap_position := q\<rparr>)" for x q
    by (intro sim_updates x)
  have xx: "sim (set_x y (set_x x u)) (set_x y (set_x x u'))" for x y by (intro sim_set_xy x)
  show ?thesis
    using x a d xx unfolding write_printable_def Let_def u_def [symmetric] u'_def [symmetric]
    by (simp add: simD [OF u])
qed

section \<open>Control sequences\<close>

lemma sim_cursor_cong:
  "sim v v' \<Longrightarrow> p = p' \<Longrightarrow> sim (v\<lparr>v_cursor := p\<rparr>) (v'\<lparr>v_cursor := p'\<rparr>)"
  by (simp add: sim_updates)

lemma sim_absolute_row: "sim v v' \<Longrightarrow> absolute_row e n v = absolute_row e n v'"
  by (simp add: absolute_row_def sim_region [of v v'] simD(7))

lemma sim_movement_rows: "sim v v' \<Longrightarrow> movement_rows e v = movement_rows e v'"
  by (simp add: movement_rows_def sim_region [of v v'] simD(2,4,7) [of v v'])

lemma sim_csi_moves:
  assumes "sim v v'"
  shows "sim (csi_cup e csi v) (csi_cup e csi v')" "sim (csi_cha e csi v) (csi_cha e csi v')"
    "sim (csi_vpa e csi v) (csi_vpa e csi v')" "sim (csi_cnl_cpl e csi v) (csi_cnl_cpl e csi v')"
    "sim (csi_cursor_move e csi v) (csi_cursor_move e csi v')"
  using assms sim_absolute_row [OF assms] sim_movement_rows [OF assms] simD(2) [OF assms]
  by (simp_all add: csi_cup_def csi_cha_def csi_vpa_def csi_cnl_cpl_def csi_cursor_move_def Let_def sim_updates split: prod.split)

lemma sim_call_set_margins:
  assumes "sim v v'"
  shows "sim (call_set_vt_vertical_margins m v) (call_set_vt_vertical_margins m v')"
proof (cases "set_vt_vertical_margins m (v_sb v)")
  case None
  then have "set_vt_vertical_margins m (v_sb v') = None" using alike_margins(1) [OF simD(1) [OF assms]] by blast
  with None simD [OF assms] show ?thesis by (simp add: call_set_vt_vertical_margins_def sim_def)
next
  case (Some s)
  then obtain s' where s': "set_vt_vertical_margins m (v_sb v') = Some s'"
    using alike_margins(1) [OF simD(1) [OF assms], of m] by (cases "set_vt_vertical_margins m (v_sb v')") auto
  then have "alike s s'" using alike_margins(2) [OF simD(1) [OF assms] Some] by blast
  with assms Some s' show ?thesis by (simp add: call_set_vt_vertical_margins_def sim_screen)
qed

lemma sim_csi_decstr:
  assumes "sim v v'"
  shows "sim (csi_decstr e v) (csi_decstr e v')"
proof -
  define u where "u = v\<lparr>v_sb := set_cursor_info (sb_cursor_size (v_sb v)) True (v_sb v)\<rparr>"
  define u' where "u' = v'\<lparr>v_sb := set_cursor_info (sb_cursor_size (v_sb v')) True (v_sb v')\<rparr>"
  have "sim u u'"
    unfolding u_def u'_def alikeD(4) [OF simD(1) [OF assms]] by (intro sim_screen alike assms simD(1))
  then have "sim (call_set_vt_vertical_margins None (u\<lparr>v_autowrap := True, v_origin_mode := False, v_insert_mode := False,
      v_delayed_wrap_position := None, v_vertical_margins := None\<rparr>))
    (call_set_vt_vertical_margins None (u'\<lparr>v_autowrap := True, v_origin_mode := False, v_insert_mode := False,
      v_delayed_wrap_position := None, v_vertical_margins := None\<rparr>))"
    by (intro sim_call_set_margins sim_updates)
  from sim_updates(2) [OF this, of "e_default_attributes e"]
  have w: "sim (call_set_vt_vertical_margins None (u\<lparr>v_autowrap := True, v_origin_mode := False, v_insert_mode := False,
      v_delayed_wrap_position := None, v_vertical_margins := None\<rparr>)\<lparr>v_attributes := e_default_attributes e\<rparr>)
    (call_set_vt_vertical_margins None (u'\<lparr>v_autowrap := True, v_origin_mode := False, v_insert_mode := False,
      v_delayed_wrap_position := None, v_vertical_margins := None\<rparr>)\<lparr>v_attributes := e_default_attributes e\<rparr>)"
    (is "sim ?w ?w'") .
  have "sim (?w\<lparr>v_sb := save_cursor_state coord0 (v_attributes ?w) False False (v_sb ?w)\<rparr>)
      (?w'\<lparr>v_sb := save_cursor_state coord0 (v_attributes ?w') False False (v_sb ?w')\<rparr>)"
    unfolding simD(3) [OF w] by (intro sim_screen alike w simD(1))
  then show ?thesis unfolding csi_decstr_def Let_def u_def u'_def .
qed

lemma sim_csi_decstbm:
  assumes "sim v v'"
  shows "sim (csi_decstbm e csi v) (csi_decstbm e csi v')"
proof -
  have u: "sim (call_set_vt_vertical_margins m (v\<lparr>v_vertical_margins := m\<rparr>))
      (call_set_vt_vertical_margins m (v'\<lparr>v_vertical_margins := m\<rparr>))" for m
    by (intro sim_call_set_margins sim_updates assms)
  show ?thesis
    using assms u sim_region [OF u] simD(7) [OF u]
    by (simp add: csi_decstbm_def Let_def sim_updates split: prod.split)
qed

lemma sim_cursor_on_line: "sim v v' \<Longrightarrow> cursor_on_line e v = cursor_on_line e v'"
  by (simp add: cursor_on_line_def simD(2) [of v v'])

lemma sim_line_count: "sim v v' \<Longrightarrow> line_count e csi v = line_count e csi v'"
  by (simp add: line_count_def simD(2) [of v v'])

lemma sim_csi_line:
  assumes "sim v v'"
  shows "sim (csi_ich e csi v) (csi_ich e csi v')" "sim (csi_dch e csi v) (csi_dch e csi v')"
    "sim (csi_ech e csi v) (csi_ech e csi v')"
  unfolding csi_ich_def csi_dch_def csi_ech_def Let_def sim_cursor_on_line [OF assms] sim_line_count [OF assms]
    simD(2,3) [OF assms]
  by (auto intro!: sim_updates sim_screen alike alike_fold assms simD(1))

lemma sim_csi_lines:
  assumes "e_mem e = (\<lambda>_. True)" and "sim v v'"
  shows "sim (csi_scroll e csi v) (csi_scroll e csi v')" "sim (csi_il e csi v) (csi_il e csi v')"
    "sim (csi_dl e csi v) (csi_dl e csi v')"
  using sim_scroll_region [OF assms] sim_fill_run [OF assms(2)] sim_scroll_rect [OF assms] assms(2)
  by (simp_all add: csi_scroll_def csi_il_def csi_dl_def Let_def sim_region [OF assms(2)] simD(2,3) [OF assms(2)]
      split: prod.split)

lemma sim_csi_erase:
  assumes "sim v v'"
  shows "sim (csi_ed e csi v) (csi_ed e csi v')" "sim (csi_el e csi v) (csi_el e csi v')"
  using sim_fill_run [OF assms] assms
  by (simp_all add: csi_ed_def csi_el_def Let_def simD(2,3) [OF assms] sim_updates split: prod.split)

lemma sim_save_cursor:
  assumes "sim v v'"
  shows "sim (save_cursor v) (save_cursor v')"
  unfolding save_cursor_def simD(2,3,7) [OF assms] sim_at_delayed_wrap [OF assms]
  by (intro sim_screen alike assms simD(1))

lemma sim_restore_cursor:
  assumes "sim v v'"
  shows "sim (restore_cursor e v) (restore_cursor e v')"
proof (cases "restore_cursor_state (v_sb v')")
  case None
  with assms alike_restore [OF simD(1) [OF assms]] show ?thesis by (simp add: restore_cursor_def)
next
  case (Some q)
  obtain p a d om where q: "q = (p, a, d, om)" by (cases q)
  let ?u = "v\<lparr>v_cursor := p, v_attributes := a, v_origin_mode := om\<rparr>"
  let ?u' = "v'\<lparr>v_cursor := p, v_attributes := a, v_origin_mode := om\<rparr>"
  have "sim (set_x x ?u) (set_x x ?u')" for x by (intro sim_set_xy sim_updates assms)
  note r = sim_region [OF this]
  show ?thesis
    using assms r alike_restore [OF simD(1) [OF assms]]
    by (simp add: restore_cursor_def Some q Let_def sim_updates split: prod.split)
qed

lemma sim_csi_sgr:
  assumes "sim v v'"
  shows "sim (csi_sgr e csi v) (csi_sgr e csi v')"
  unfolding csi_sgr_def alikeD(5) [OF simD(1) [OF assms]] simD(3) [OF assms] by (intro sim_updates assms)

lemma sim_csi_dsr: "sim v v' \<Longrightarrow> sim (csi_dsr e csi v) (csi_dsr e csi v')"
  by (simp add: csi_dsr_def Let_def sim_def)

text \<open>
  Only the modes and the hard reset switch screens. A sequence that does not switch keeps runs
  similar; the count of switches never falls.
\<close>

lemma switches_updates [simp]:
  "v_switches (scroll_region_up e t b n v) = v_switches v" "v_switches (scroll_region_down e t b n v) = v_switches v"
  "v_switches (fill_run p ch a n v) = v_switches v" "v_switches (scroll_rect e r clip d v) = v_switches v"
  "v_switches (call_set_vt_vertical_margins m v) = v_switches v" "v_switches (on_parse f v) = v_switches v"
  "v_switches (put_cell e ch v) = v_switches v"
  by (simp_all add: scroll_region_up_def scroll_region_down_def fill_run_def scroll_rect_def Let_def
      call_set_vt_vertical_margins_def on_parse_def put_cell_def split: option.split)

lemma switches_lines [simp]:
  "v_switches (line_feed e v) = v_switches v" "v_switches (reverse_line_feed e v) = v_switches v"
  "v_switches (advance_line e v) = v_switches v"
  by (simp_all add: line_feed_def reverse_line_feed_def advance_line_def Let_def split: prod.split)

lemma switches_write_printable [simp]: "v_switches (write_printable e ch v) = v_switches v"
  by (simp add: write_printable_def maybe_apply_delayed_wrap_def Let_def)

lemma switches_csi [simp]:
  "v_switches (csi_sgr e csi v) = v_switches v" "v_switches (csi_dsr e csi v) = v_switches v"
  "v_switches (csi_cup e csi v) = v_switches v" "v_switches (csi_decstr e v) = v_switches v"
  "v_switches (csi_cha e csi v) = v_switches v" "v_switches (csi_vpa e csi v) = v_switches v"
  "v_switches (csi_ich e csi v) = v_switches v" "v_switches (csi_dch e csi v) = v_switches v"
  "v_switches (csi_ech e csi v) = v_switches v" "v_switches (save_cursor v) = v_switches v"
  by (simp_all add: csi_sgr_def csi_dsr_def csi_cup_def csi_decstr_def csi_cha_def csi_vpa_def csi_ich_def csi_dch_def
      csi_ech_def save_cursor_def Let_def)

lemma switches_csi_split [simp]:
  "v_switches (csi_cnl_cpl e csi v) = v_switches v" "v_switches (csi_cursor_move e csi v) = v_switches v"
  "v_switches (csi_decstbm e csi v) = v_switches v" "v_switches (csi_scroll e csi v) = v_switches v"
  "v_switches (csi_il e csi v) = v_switches v" "v_switches (csi_dl e csi v) = v_switches v"
  "v_switches (csi_ed e csi v) = v_switches v" "v_switches (csi_el e csi v) = v_switches v"
  "v_switches (restore_cursor e v) = v_switches v"
  by (simp_all add: csi_cnl_cpl_def csi_cursor_move_def csi_decstbm_def csi_scroll_def csi_il_def csi_dl_def csi_ed_def
      csi_el_def restore_cursor_def Let_def split: prod.split option.split)

lemma switches_csi_mode: "v_switches v \<le> v_switches (csi_mode e pm b p v)"
  by (simp add: csi_mode_def Let_def split: prod.split)

lemma switches_csi_mode_fold: "v_switches v \<le> v_switches (fold (csi_mode e pm b) ps v)"
proof (induction ps arbitrary: v)
  case (Cons p ps)
  from switches_csi_mode [of v e pm b p] Cons [of "csi_mode e pm b p v"] show ?case by simp
qed simp

lemma switches_apply_csi: "v_switches v \<le> v_switches (apply_csi e csi v)"
  by (simp add: apply_csi_def Let_def csi_modes_def switches_csi_mode_fold)

lemma sim_csi_mode:
  assumes "sim v v'" and "v_switches (csi_mode e pm b p v) = v_switches v"
  shows "sim (csi_mode e pm b p v) (csi_mode e pm b p v')"
proof -
  have info: "sim (v\<lparr>v_sb := set_cursor_info (sb_cursor_size (v_sb v)) b (v_sb v)\<rparr>)
      (v'\<lparr>v_sb := set_cursor_info (sb_cursor_size (v_sb v')) b (v_sb v')\<rparr>)"
    unfolding alikeD(4) [OF simD(1) [OF assms(1)]] by (intro sim_screen alike assms simD(1))
  have r: "resolve_vertical_region e (v\<lparr>v_origin_mode := b\<rparr>) = resolve_vertical_region e (v'\<lparr>v_origin_mode := b\<rparr>)"
    by (intro sim_region sim_updates assms)
  have "p \<noteq> 1049" if "\<not> (\<not> pm \<and> p = 4)" "p \<noteq> 25" "p \<noteq> 6" "p \<noteq> 7"
    using assms(2) that by (auto simp: csi_mode_def Let_def split: prod.splits if_splits)
  with assms(1) info r show ?thesis
    by (simp add: csi_mode_def Let_def sim_updates split: prod.split)
qed

lemma sim_csi_modes:
  "sim v v' \<Longrightarrow> v_switches (fold (csi_mode e pm b) ps v) = v_switches v \<Longrightarrow>
    sim (fold (csi_mode e pm b) ps v) (fold (csi_mode e pm b) ps v')"
proof (induction ps arbitrary: v v')
  case (Cons p ps)
  let ?w = "csi_mode e pm b p v"
  have "v_switches v \<le> v_switches ?w" "v_switches ?w \<le> v_switches (fold (csi_mode e pm b) ps ?w)"
    by (rule switches_csi_mode switches_csi_mode_fold)+
  with Cons.prems(2) have "v_switches ?w = v_switches v" "v_switches (fold (csi_mode e pm b) ps ?w) = v_switches ?w"
    by simp_all
  with Cons show ?case by (simp add: sim_csi_mode)
qed simp

lemmas sim_csi_cases =
  sim_csi_sgr sim_csi_dsr sim_csi_moves sim_csi_decstr sim_csi_line sim_csi_decstbm sim_csi_lines sim_csi_erase
  sim_save_cursor sim_restore_cursor

lemma sim_apply_csi:
  assumes "e_mem e = (\<lambda>_. True)" and "sim v v'" and "v_switches (apply_csi e csi v) = v_switches v"
  shows "sim (apply_csi e csi v) (apply_csi e csi v')"
proof (cases "csi_final csi = 0x68 \<or> csi_final csi = 0x6C")
  case True
  with assms(3) have "v_switches (csi_modes e csi v) = v_switches v" by (auto simp: apply_csi_def)
  with True assms(2) show ?thesis by (auto simp: apply_csi_def csi_modes_def sim_csi_modes)
next
  case False
  then show ?thesis using assms(1,2) by (simp add: apply_csi_def Let_def sim_csi_cases)
qed

section \<open>The parser\<close>

lemma sim_on_parse:
  assumes "sim v v'"
  shows "sim (on_parse f v) (on_parse f v')"
  unfolding on_parse_def alikeD(8) [OF simD(1) [OF assms]] by (intro sim_screen alike assms simD(1))

lemma sim_parse_state: "sim v v' \<Longrightarrow> parse_state v = parse_state v'"
  by (rule alikeD(8) [OF simD(1)])

lemma sim_hard_reset:
  assumes "sim v v'" and "v_switches (hard_reset e v) = v_switches v"
  shows "sim (hard_reset e v) (hard_reset e v')"
proof -
  let ?t = "st_color_table default_settings"
  have "sb_vt_main_backup (v_sb v) = None"
    using assms(2) by (auto simp: hard_reset_def leave_alternate_def Let_def split: if_splits)
  then have l: "leave_alternate e v = v" "leave_alternate e v' = v'"
    using alikeD(7) [OF simD(1) [OF assms(1)]] by (simp_all add: leave_alternate_def)
  define u where "u = v\<lparr>v_sb := set_color_table ?t (v_sb v)\<rparr>"
  define u' where "u' = v'\<lparr>v_sb := set_color_table ?t (v_sb v')\<rparr>"
  have u: "sim u u'" unfolding u_def u'_def by (intro sim_screen alike assms simD(1))
  define w where "w = u\<lparr>v_sb := set_cursor_info (sb_cursor_size (v_sb u)) True (v_sb u)\<rparr>"
  define w' where "w' = u'\<lparr>v_sb := set_cursor_info (sb_cursor_size (v_sb u')) True (v_sb u')\<rparr>"
  have w: "sim w w'"
    unfolding w_def w'_def alikeD(4) [OF simD(1) [OF u]] by (intro sim_screen alike u simD(1))
  have "sim (fill_run coord0 0x20 d n ((call_set_vt_vertical_margins None
        (w\<lparr>v_sb := save_cursor_state coord0 d False False (v_sb w), v_autowrap := True, v_origin_mode := False,
           v_insert_mode := False, v_delayed_wrap_position := None, v_vertical_margins := None\<rparr>))
        \<lparr>v_attributes := d, v_cursor := coord0\<rparr>))
      (fill_run coord0 0x20 d n ((call_set_vt_vertical_margins None
        (w'\<lparr>v_sb := save_cursor_state coord0 d False False (v_sb w'), v_autowrap := True, v_origin_mode := False,
           v_insert_mode := False, v_delayed_wrap_position := None, v_vertical_margins := None\<rparr>))
        \<lparr>v_attributes := d, v_cursor := coord0\<rparr>))" for d n
    by (intro sim_fill_run sim_updates sim_call_set_margins sim_screen alike w simD(1))
  then show ?thesis
    by (simp add: hard_reset_def Let_def l w_def w'_def u_def u'_def)
qed

lemma sim_screen_alignment:
  assumes "sim v v'"
  shows "sim (screen_alignment e v) (screen_alignment e v')"
proof -
  let ?f = "fill_run coord0 0x45 (e_default_attributes e) (screen_cells_count e)"
  have f: "sim (?f (v\<lparr>v_delayed_wrap_position := None\<rparr>)) (?f (v'\<lparr>v_delayed_wrap_position := None\<rparr>))"
    by (intro sim_fill_run sim_updates assms)
  show ?thesis
    unfolding screen_alignment_def Let_def simD(3) [OF f] by (intro sim_updates sim_call_set_margins f)
qed

lemma switches_hard_reset: "v_switches v \<le> v_switches (hard_reset e v)"
  by (simp add: hard_reset_def leave_alternate_def Let_def)

lemma switches_funpow: "\<And>f :: VtRun \<Rightarrow> VtRun. (\<And>v. v_switches (f v) = v_switches v) \<Longrightarrow> v_switches ((f ^^ n) v) = v_switches v"
  by (induction n) auto

lemma switches_process_character [simp]: "v_switches (process_character e ch v) = v_switches v"
  by (simp add: process_character_def write_tab_def switches_funpow)

lemma switches_screen_alignment [simp]: "v_switches (screen_alignment e v) = v_switches v"
  by (simp add: screen_alignment_def Let_def)

lemma switches_phase_csi: "v_switches v \<le> v_switches (snd (phase_csi e ch v))"
  using switches_apply_csi [of "on_parse f v" for f]
  by (auto simp: phase_csi_def Let_def intro: order_trans [OF _ switches_apply_csi])

lemma switches_text_step: "v_switches v \<le> v_switches (snd (text_step e ch v))"
  using switches_hard_reset [of "on_parse reset_esc v" e] switches_phase_csi [of v e ch]
  by (simp add: text_step_def phase_escape_def phase_esc_dispatch_def phase_osc_def phase_osc_escape_def
      phase_string_def phase_string_escape_def phase_ground_def osc_dispatch_def Let_def split: Phase.split)

lemma switches_text_loop: "v_switches v \<le> v_switches (text_loop e cs v)"
proof (induction e cs v rule: text_loop.induct)
  case (2 e ch rest v)
  with switches_text_step [of v e ch] show ?case by (subst text_loop.simps(2)) auto
qed simp

lemma sim_funpow: "(\<And>v v'. sim v v' \<Longrightarrow> sim (f v) (f v')) \<Longrightarrow> sim v v' \<Longrightarrow> sim ((f ^^ n) v) ((f ^^ n) v')"
  by (induction n) auto

lemma sim_process_character:
  assumes "e_mem e = (\<lambda>_. True)" and "sim v v'"
  shows "sim (process_character e ch v) (process_character e ch v')"
proof -
  have tab: "sim (write_tab e v) (write_tab e v')"
    unfolding write_tab_def Let_def simD(2) [OF assms(2)] by (intro sim_funpow sim_write_printable assms)
  have x: "sim (set_x x v) (set_x x v')" for x by (rule sim_set_xy [OF assms(2)])
  show ?thesis
    using tab x [of 0] x [of "to_short (cx (v_cursor v') - 1)"] sim_line_feed [OF assms(1) x [of 0]] assms(2)
      sim_line_feed [OF assms] sim_write_printable [OF assms]
    unfolding process_character_def simD(2) [OF assms(2)] by simp
qed

lemma sim_if: "sim a a' \<Longrightarrow> sim b b' \<Longrightarrow> sim (if c then a else b) (if c then a' else b')"
  by simp

lemma sim_osc_dispatch:
  assumes "sim v v'"
  shows "sim (osc_dispatch e v) (osc_dispatch e v')"
  unfolding osc_dispatch_def Let_def sim_parse_state [OF assms] by (intro sim_on_parse sim_if sim_updates assms)

lemma sim_phase_escape:
  assumes "e_mem e = (\<lambda>_. True)" and "sim v v'" and "v_switches (snd (phase_escape e ch v)) = v_switches v"
  shows "sim (snd (phase_escape e ch v)) (snd (phase_escape e ch v'))"
proof -
  define u where "u = on_parse reset_esc v"
  define u' where "u' = on_parse reset_esc v'"
  have u: "sim u u'" unfolding u_def u'_def by (intro sim_on_parse assms)
  have x: "sim (line_feed e (set_x 0 u)) (line_feed e (set_x 0 u'))" by (intro sim_line_feed sim_set_xy assms u)
  have "v_switches (snd (phase_escape e ch v)) = v_switches u" using assms(3) by (simp add: u_def)
  then have "sim (hard_reset e u) (hard_reset e u')" if "ch = 0x63"
    using that u by (simp add: phase_escape_def Let_def sim_hard_reset flip: u_def)
  with u x show ?thesis
    by (simp add: phase_escape_def Let_def sim_on_parse sim_save_cursor sim_restore_cursor sim_line_feed
        sim_reverse_line_feed assms(1) flip: u_def u'_def)
qed

lemma sim_phase_esc_dispatch:
  assumes "sim v v'"
  shows "sim (snd (phase_esc_dispatch e ch v)) (snd (phase_esc_dispatch e ch v'))"
  using assms sim_screen_alignment [OF assms]
  by (simp add: phase_esc_dispatch_def sim_parse_state [OF assms] sim_on_parse)

lemma sim_phase_csi:
  assumes "e_mem e = (\<lambda>_. True)" and "sim v v'" and "v_switches (snd (phase_csi e ch v)) = v_switches v"
  shows "sim (snd (phase_csi e ch v)) (snd (phase_csi e ch v'))"
proof (cases "ps_csi_length (parse_state v') \<ge> 128")
  case True
  with assms(2) show ?thesis by (simp add: phase_csi_def sim_on_parse sim_parse_state [OF assms(2)])
next
  case False
  let ?inc = "\<lambda>ps. ps\<lparr>ps_csi_length := ps_csi_length ps + 1\<rparr>"
  define u where "u = on_parse ?inc v"
  define u' where "u' = on_parse ?inc v'"
  have u: "sim u u'" unfolding u_def u'_def by (intro sim_on_parse assms)
  define w where "w = on_parse (csi_complete ch) u"
  define w' where "w' = on_parse (csi_complete ch) u'"
  have w: "sim w w'" unfolding w_def w'_def by (intro sim_on_parse u)
  have eqs: "snd (phase_csi e ch v) = (if ch \<ge> 0x40 \<and> ch \<le> 0x7E
        then on_parse (reset_csi P_ground) (apply_csi e (ps_csi (parse_state w')) w) else on_parse (csi_collect ch) u)"
    "snd (phase_csi e ch v') = (if ch \<ge> 0x40 \<and> ch \<le> 0x7E
        then on_parse (reset_csi P_ground) (apply_csi e (ps_csi (parse_state w')) w') else on_parse (csi_collect ch) u')"
    using False sim_parse_state [OF w] sim_parse_state [OF assms(2)]
    unfolding phase_csi_def Let_def snd_conv u_def [symmetric] u'_def [symmetric] w_def [symmetric] w'_def [symmetric]
    by simp_all
  have "v_switches w = v_switches v" by (simp add: w_def u_def)
  with assms(3) have "sim (apply_csi e (ps_csi (parse_state w')) w) (apply_csi e (ps_csi (parse_state w')) w')"
    if "ch \<ge> 0x40 \<and> ch \<le> 0x7E" using that eqs(1) by (intro sim_apply_csi assms(1) w) simp
  with u show ?thesis unfolding eqs by (simp add: sim_on_parse)
qed

lemma sim_text_step:
  assumes "e_mem e = (\<lambda>_. True)" and "sim v v'" and "v_switches (snd (text_step e ch v)) = v_switches v"
  shows "sim (snd (text_step e ch v)) (snd (text_step e ch v'))" and "fst (text_step e ch v) = fst (text_step e ch v')"
proof -
  have ph: "ps_phase (parse_state v) = ps_phase (parse_state v')" using sim_parse_state [OF assms(2)] by simp
  have simple: "sim (snd (phase_osc e ch v)) (snd (phase_osc e ch v'))"
    "sim (snd (phase_osc_escape e ch v)) (snd (phase_osc_escape e ch v'))"
    "sim (snd (phase_string ch v)) (snd (phase_string ch v'))"
    "sim (snd (phase_string_escape ch v)) (snd (phase_string_escape ch v'))"
    "sim (phase_ground e ch v) (phase_ground e ch v')"
    using sim_process_character [OF assms(1,2)] sim_osc_dispatch [OF assms(2)] sim_on_parse [OF assms(2)] assms(2)
    by (simp_all add: phase_osc_def phase_osc_escape_def phase_string_def phase_string_escape_def phase_ground_def
        sim_parse_state [OF assms(2)])
  show "sim (snd (text_step e ch v)) (snd (text_step e ch v'))"
    using assms(3) simple sim_process_character [OF assms(1,2)] sim_phase_escape [OF assms(1,2)]
      sim_phase_esc_dispatch [OF assms(2)] sim_phase_csi [OF assms(1,2)]
    unfolding text_step_def ph by (simp split: if_splits Phase.splits)
  show "fst (text_step e ch v) = fst (text_step e ch v')"
    unfolding text_step_def ph
    by (simp add: phase_escape_def phase_esc_dispatch_def phase_csi_def phase_osc_def phase_osc_escape_def
        phase_string_def phase_string_escape_def Let_def split: Phase.split)
qed

lemma sim_text_loop:
  "e_mem e = (\<lambda>_. True) \<Longrightarrow> sim v v' \<Longrightarrow> v_switches (text_loop e cs v) = v_switches v \<Longrightarrow>
    sim (text_loop e cs v) (text_loop e cs v')"
proof (induction e cs v arbitrary: v' rule: text_loop.induct)
  case (2 e ch rest v)
  define k where "k = (if fst (text_step e ch v) then rest else ch # rest)"
  have eq: "text_loop e (ch # rest) v = text_loop e k (snd (text_step e ch v))" by (simp add: text_loop.simps(2) k_def)
  with 2(5) switches_text_step [of v e ch] switches_text_loop [of "snd (text_step e ch v)" e k]
  have same: "v_switches (snd (text_step e ch v)) = v_switches v"
    "v_switches (text_loop e k (snd (text_step e ch v))) = v_switches (snd (text_step e ch v))" by simp_all
  note st = sim_text_step [OF 2(3,4) same(1)]
  have eq': "text_loop e (ch # rest) v' = text_loop e k (snd (text_step e ch v'))"
    using st(2) by (simp add: text_loop.simps(2) k_def)
  show ?case
    unfolding eq eq' using 2(1,2) 2(3) st(1) same(2) by (auto simp: k_def split: if_splits)
qed simp

section \<open>The members that are written back\<close>

text \<open>
  As long as the screens are not switched and no assert fails, the margins of the run are those of
  its buffer, and the buffer keeps the three modes and the default attributes it had at the start.
\<close>

definition mode_frame :: "ScreenBuffer \<Rightarrow> ushort \<times> bool \<times> bool \<times> bool" where
  "mode_frame sb = (sb_default_text_attributes sb, sb_vt_autowrap_enabled sb, sb_vt_origin_mode_enabled sb,
     sb_vt_insert_mode_enabled sb)"

definition attached :: "ScreenBuffer \<Rightarrow> VtRun \<Rightarrow> bool" where
  "attached sb v \<longleftrightarrow> v_failed v \<or> v_switches v \<noteq> 0 \<or>
    (v_vertical_margins v = sb_vt_vertical_margins (v_sb v) \<and> mode_frame (v_sb v) = mode_frame sb)"

lemma attached_updates [simp]:
  "attached sb (v\<lparr>v_cursor := p\<rparr>) = attached sb v" "attached sb (v\<lparr>v_attributes := a\<rparr>) = attached sb v"
  "attached sb (v\<lparr>v_autowrap := b\<rparr>) = attached sb v" "attached sb (v\<lparr>v_delayed_wrap_position := q\<rparr>) = attached sb v"
  "attached sb (v\<lparr>v_origin_mode := b\<rparr>) = attached sb v" "attached sb (v\<lparr>v_insert_mode := b\<rparr>) = attached sb v"
  "attached sb (v\<lparr>v_titles := ts\<rparr>) = attached sb v" "attached sb (v\<lparr>v_injected := bs\<rparr>) = attached sb v"
  "attached sb (v\<lparr>v_allocs := n\<rparr>) = attached sb v"
  by (simp_all add: attached_def)

lemma attached_screen:
  "attached sb v \<Longrightarrow> mode_frame s = mode_frame (v_sb v) \<Longrightarrow> sb_vt_vertical_margins s = sb_vt_vertical_margins (v_sb v) \<Longrightarrow>
    attached sb (v\<lparr>v_sb := s\<rparr>)"
  by (auto simp: attached_def)

lemma attached_cells: "attached sb v \<Longrightarrow> cells_only (v_sb v) s \<Longrightarrow> attached sb (v\<lparr>v_sb := s\<rparr>)"
  by (rule attached_screen) (auto simp: mode_frame_def cells_only_def)

lemma attached_setters:
  assumes "attached sb v"
  shows "attached sb (v\<lparr>v_sb := set_cursor_info n b (v_sb v)\<rparr>)"
    "attached sb (v\<lparr>v_sb := save_cursor_state p a d om (v_sb v)\<rparr>)"
    "attached sb (v\<lparr>v_sb := set_color_table t (v_sb v)\<rparr>)" "attached sb (on_parse f v)"
  using assms unfolding on_parse_def
  by (rule attached_screen; simp add: mode_frame_def set_cursor_info_def save_cursor_state_def set_color_table_def Let_def touch_def)+

lemma attached_margins:
  assumes "attached sb v"
  shows "attached sb (call_set_vt_vertical_margins m (v\<lparr>v_vertical_margins := m\<rparr>))"
  using assms by (auto simp: attached_def mode_frame_def call_set_vt_vertical_margins_def set_vt_vertical_margins_def touch_def
      split: option.splits)

lemma attached_fill_run: "attached sb v \<Longrightarrow> attached sb (fill_run p ch a n v)"
  unfolding fill_run_def
  by (rule attached_cells) (auto intro: cells_only_trans [OF cells_only_run_ops(1) cells_only_run_ops(2)])

lemma attached_scroll_rect: "attached sb v \<Longrightarrow> attached sb (scroll_rect e r clip d v)"
  using attached_cells [of sb v] by (simp add: scroll_rect_def)

lemma attached_scroll_region:
  "attached sb v \<Longrightarrow> attached sb (scroll_region_up e t b n v)" "attached sb v \<Longrightarrow> attached sb (scroll_region_down e t b n v)"
  by (simp_all add: scroll_region_up_def scroll_region_down_def Let_def attached_fill_run attached_scroll_rect)

lemma attached_lines:
  "attached sb v \<Longrightarrow> attached sb (line_feed e v)" "attached sb v \<Longrightarrow> attached sb (reverse_line_feed e v)"
  "attached sb v \<Longrightarrow> attached sb (advance_line e v)"
  by (simp_all add: line_feed_def reverse_line_feed_def advance_line_def Let_def attached_scroll_region split: prod.split)

lemma attached_write_printable: "attached sb v \<Longrightarrow> attached sb (write_printable e ch v)"
  by (simp add: write_printable_def maybe_apply_delayed_wrap_def put_cell_def Let_def attached_cells attached_lines)

lemma attached_csi_line:
  "attached sb v \<Longrightarrow> attached sb (csi_ich e csi v)" "attached sb v \<Longrightarrow> attached sb (csi_dch e csi v)"
  "attached sb v \<Longrightarrow> attached sb (csi_ech e csi v)"
  unfolding csi_ich_def csi_dch_def csi_ech_def Let_def
  by (auto intro!: attached_cells cells_only_blank_cells cells_only_trans [OF _ cells_only_blank_cells] cells_only_fold)

lemma attached_csi_simple:
  "attached sb v \<Longrightarrow> attached sb (csi_sgr e csi v)" "attached sb v \<Longrightarrow> attached sb (csi_dsr e csi v)"
  "attached sb v \<Longrightarrow> attached sb (csi_cup e csi v)" "attached sb v \<Longrightarrow> attached sb (csi_cha e csi v)"
  "attached sb v \<Longrightarrow> attached sb (csi_vpa e csi v)" "attached sb v \<Longrightarrow> attached sb (csi_cnl_cpl e csi v)"
  "attached sb v \<Longrightarrow> attached sb (csi_cursor_move e csi v)" "attached sb v \<Longrightarrow> attached sb (csi_scroll e csi v)"
  "attached sb v \<Longrightarrow> attached sb (csi_il e csi v)" "attached sb v \<Longrightarrow> attached sb (csi_dl e csi v)"
  "attached sb v \<Longrightarrow> attached sb (csi_ed e csi v)" "attached sb v \<Longrightarrow> attached sb (csi_el e csi v)"
  "attached sb v \<Longrightarrow> attached sb (save_cursor v)" "attached sb v \<Longrightarrow> attached sb (restore_cursor e v)"
  by (simp_all add: csi_sgr_def csi_dsr_def csi_cup_def csi_cha_def csi_vpa_def csi_cnl_cpl_def csi_cursor_move_def
      csi_scroll_def csi_il_def csi_dl_def csi_ed_def csi_el_def save_cursor_def restore_cursor_def Let_def
      attached_scroll_region attached_scroll_rect attached_fill_run attached_setters split: prod.split option.split)

lemma attached_csi_decstr:
  assumes "attached sb v"
  shows "attached sb (csi_decstr e v)"
proof -
  have "attached sb (v\<lparr>v_sb := set_cursor_info (sb_cursor_size (v_sb v)) True (v_sb v), v_autowrap := True,
      v_origin_mode := False, v_insert_mode := False, v_delayed_wrap_position := None\<rparr>)"
    using assms by (simp add: attached_setters)
  from attached_margins [OF this, of None]
  have "attached sb ((call_set_vt_vertical_margins None (v\<lparr>v_sb := set_cursor_info (sb_cursor_size (v_sb v)) True (v_sb v),
      v_autowrap := True, v_origin_mode := False, v_insert_mode := False, v_delayed_wrap_position := None,
      v_vertical_margins := None\<rparr>))\<lparr>v_attributes := e_default_attributes e\<rparr>)" by simp
  from attached_setters(2) [OF this] show ?thesis by (simp add: csi_decstr_def Let_def)
qed

lemma attached_csi_decstbm: "attached sb v \<Longrightarrow> attached sb (csi_decstbm e csi v)"
  by (simp add: csi_decstbm_def Let_def attached_margins split: prod.split)

lemma attached_csi_mode: "attached sb v \<Longrightarrow> attached sb (csi_mode e pm b p v)"
  by (simp add: csi_mode_def Let_def attached_setters split: prod.split) (simp add: attached_def)

lemma attached_fold: "(\<And>x v. attached sb v \<Longrightarrow> attached sb (f x v)) \<Longrightarrow> attached sb v \<Longrightarrow> attached sb (fold f xs v)"
  by (induction xs arbitrary: v) auto

lemma attached_csi_modes: "attached sb v \<Longrightarrow> attached sb (csi_modes e csi v)"
  unfolding csi_modes_def by (rule attached_fold) (rule attached_csi_mode)

lemma attached_apply_csi: "attached sb v \<Longrightarrow> attached sb (apply_csi e csi v)"
  by (simp add: apply_csi_def Let_def attached_csi_simple attached_csi_line attached_csi_decstr attached_csi_decstbm
      attached_csi_modes)

lemma attached_hard_reset:
  assumes "attached sb v"
  shows "attached sb (hard_reset e v)"
proof -
  let ?t = "st_color_table default_settings"
  define v1 where "v1 = leave_alternate e v"
  have "attached sb v1" using assms by (auto simp: v1_def leave_alternate_def Let_def attached_def)
  define v2 where "v2 = v1\<lparr>v_sb := set_color_table ?t (v_sb v1)\<rparr>"
  define v3 where "v3 = v2\<lparr>v_sb := set_cursor_info (sb_cursor_size (v_sb v2)) True (v_sb v2)\<rparr>"
  define v4 where "v4 = v3\<lparr>v_sb := save_cursor_state coord0 (e_default_attributes e) False False (v_sb v3)\<rparr>"
  have "attached sb v4" unfolding v4_def v3_def v2_def by (intro attached_setters \<open>attached sb v1\<close>)
  then have "attached sb (v4\<lparr>v_autowrap := True, v_origin_mode := False, v_insert_mode := False,
      v_delayed_wrap_position := None\<rparr>)" by simp
  from attached_margins [OF this, of None]
  have "attached sb ((call_set_vt_vertical_margins None (v4\<lparr>v_autowrap := True, v_origin_mode := False,
      v_insert_mode := False, v_delayed_wrap_position := None, v_vertical_margins := None\<rparr>))
      \<lparr>v_attributes := e_default_attributes e, v_cursor := coord0\<rparr>)" by simp
  then show ?thesis
    unfolding hard_reset_def Let_def v4_def v3_def v2_def v1_def by (rule attached_fill_run)
qed

lemma attached_screen_alignment:
  assumes "attached sb v"
  shows "attached sb (screen_alignment e v)"
proof -
  let ?u = "fill_run coord0 0x45 (e_default_attributes e) (screen_cells_count e) (v\<lparr>v_delayed_wrap_position := None\<rparr>)"
  have "attached sb (?u\<lparr>v_attributes := a, v_origin_mode := False\<rparr>)" for a using assms by (simp add: attached_fill_run)
  from attached_margins [OF this, of None] show ?thesis by (simp add: screen_alignment_def Let_def)
qed

lemma attached_process_character: "attached sb v \<Longrightarrow> attached sb (process_character e ch v)"
proof -
  assume a: "attached sb v"
  then have "attached sb ((write_printable e 0x20 ^^ n) v)" for n by (induction n) (auto intro: attached_write_printable)
  with a show ?thesis by (simp add: process_character_def write_tab_def Let_def attached_lines attached_write_printable)
qed

lemma attached_phase_csi: "attached sb v \<Longrightarrow> attached sb (snd (phase_csi e ch v))"
  by (simp add: phase_csi_def Let_def attached_setters attached_apply_csi)

lemma attached_text_step: "attached sb v \<Longrightarrow> attached sb (snd (text_step e ch v))"
  using attached_phase_csi [of sb v e ch]
  by (simp add: text_step_def phase_escape_def phase_esc_dispatch_def phase_osc_def phase_osc_escape_def phase_string_def
      phase_string_escape_def phase_ground_def osc_dispatch_def Let_def attached_setters(4) attached_hard_reset
      attached_screen_alignment attached_process_character attached_lines attached_csi_simple split: Phase.split)

lemma attached_text_loop: "attached sb v \<Longrightarrow> attached sb (text_loop e cs v)"
proof (induction e cs v rule: text_loop.induct)
  case (2 e ch rest v)
  with attached_text_step [of sb v e ch] show ?case by (subst text_loop.simps(2)) simp
qed simp

section \<open>Writes in pieces\<close>

text \<open>The screen an application sees: all members of the buffer but the window and the revision.\<close>

definition screen_view :: "ScreenBuffer \<Rightarrow> ScreenBuffer" where
  "screen_view sb = sb\<lparr>sb_window_rect := rect0, sb_revision := 0\<rparr>"

lemma screen_viewI:
  assumes "core_sb a = core_sb b" and "sb_cursor_position a = sb_cursor_position b"
    and "sb_text_attributes a = sb_text_attributes b" and "sb_vt_delayed_wrap_position a = sb_vt_delayed_wrap_position b"
    and "mode_frame a = mode_frame b"
  shows "screen_view a = screen_view b"
proof -
  have "screen_view s = (core_sb s)\<lparr>sb_cursor_position := sb_cursor_position s, sb_text_attributes := sb_text_attributes s,
      sb_vt_autowrap_enabled := sb_vt_autowrap_enabled s, sb_vt_delayed_wrap_position := sb_vt_delayed_wrap_position s,
      sb_vt_origin_mode_enabled := sb_vt_origin_mode_enabled s, sb_vt_insert_mode_enabled := sb_vt_insert_mode_enabled s\<rparr>" for s
    by (simp add: screen_view_def core_sb_def)
  with assms show ?thesis by (simp add: mode_frame_def)
qed

lemmas write_back_defs =
  set_text_attributes_def set_cursor_position_def set_vt_delayed_wrap_position_def set_vt_insert_mode_enabled_def
  set_vt_origin_mode_enabled_def set_vt_autowrap_enabled_def touch_def

lemma snap_view [simp]:
  "core_sb (snap_window_to_cursor sb) = core_sb sb" "mode_frame (snap_window_to_cursor sb) = mode_frame sb"
  "sb_cursor_position (snap_window_to_cursor sb) = sb_cursor_position sb"
  "sb_text_attributes (snap_window_to_cursor sb) = sb_text_attributes sb"
  "sb_vt_delayed_wrap_position (snap_window_to_cursor sb) = sb_vt_delayed_wrap_position sb"
  by (simp_all add: snap_window_to_cursor_def Let_def touch_def core_sb_def mode_frame_def)

lemma end_text_core: "core_sb (end_text sb v) = core_sb (v_sb v)"
proof -
  have "core_sb (set_vt_autowrap_enabled b s) = core_sb s" "core_sb (set_vt_origin_mode_enabled b s) = core_sb s"
    "core_sb (set_vt_insert_mode_enabled b s) = core_sb s" "core_sb (set_vt_delayed_wrap_position q s) = core_sb s"
    "core_sb (set_cursor_position p s) = core_sb s" "core_sb (set_text_attributes a s) = core_sb s" for b q p a s
    by (simp_all add: write_back_defs core_sb_def)
  then show ?thesis by (simp add: end_text_def Let_def)
qed

lemma end_text_members:
  "sb_cursor_position (end_text sb v) = v_cursor v" "sb_text_attributes (end_text sb v) = v_attributes v"
  "sb_vt_delayed_wrap_position (end_text sb v) = v_delayed_wrap_position v"
  by (simp_all add: end_text_def Let_def set_text_attributes_def set_cursor_position_def set_vt_delayed_wrap_position_def touch_def)

lemma end_text_modes:
  assumes "mode_frame (v_sb v) = mode_frame sb"
  shows "mode_frame (end_text sb v) = (sb_default_text_attributes sb, v_autowrap v, v_origin_mode v, v_insert_mode v)"
proof -
  have stored: "mode_frame (set_text_attributes a (set_cursor_position p (set_vt_delayed_wrap_position q s))) = mode_frame s" for s a p q
    by (simp add: write_back_defs mode_frame_def)
  define s1 where "s1 = (if v_autowrap v \<noteq> sb_vt_autowrap_enabled sb then set_vt_autowrap_enabled (v_autowrap v) (v_sb v) else v_sb v)"
  have 1: "mode_frame s1 = (sb_default_text_attributes sb, v_autowrap v, sb_vt_origin_mode_enabled sb, sb_vt_insert_mode_enabled sb)"
    using assms by (simp add: s1_def mode_frame_def write_back_defs)
  define s2 where "s2 = (if v_origin_mode v \<noteq> sb_vt_origin_mode_enabled sb then set_vt_origin_mode_enabled (v_origin_mode v) s1 else s1)"
  have 2: "mode_frame s2 = (sb_default_text_attributes sb, v_autowrap v, v_origin_mode v, sb_vt_insert_mode_enabled sb)"
    using 1 by (simp add: s2_def mode_frame_def write_back_defs)
  define s3 where "s3 = (if v_insert_mode v \<noteq> sb_vt_insert_mode_enabled sb then set_vt_insert_mode_enabled (v_insert_mode v) s2 else s2)"
  have 3: "mode_frame s3 = (sb_default_text_attributes sb, v_autowrap v, v_origin_mode v, v_insert_mode v)"
    using 2 by (simp add: s3_def mode_frame_def write_back_defs)
  then show ?thesis
    unfolding end_text_def Let_def s1_def [symmetric] s2_def [symmetric] s3_def [symmetric] by (simp add: stored)
qed

lemma text_loop_append: "text_loop e (s @ t) v = text_loop e t (text_loop e s v)"
proof (induction e s v rule: text_loop.induct)
  case (2 e ch rest v)
  show ?case
  proof (cases "fst (text_step e ch v)")
    case True
    with 2(1) show ?thesis by (simp add: text_loop.simps(2) [of e ch])
  next
    case False
    then have eq: "text_loop e (ch # cs) v = text_loop e (ch # cs) (snd (text_step e ch v))" for cs
      by (subst text_loop.simps(2)) simp
    show ?thesis using 2(2) [OF False] eq [of rest] eq [of "rest @ t"] by simp
  qed
qed simp

text \<open>A run that is stored and read back is similar to itself.\<close>

lemma resumed_run:
  assumes "attached sb v" and "\<not> v_failed v" and "v_switches v = 0" and "e_vt_processing e"
  shows "sim v (begin_text e (end_text sb v))"
proof -
  have m: "mode_frame (v_sb v) = mode_frame sb" and marg: "v_vertical_margins v = sb_vt_vertical_margins (v_sb v)"
    using assms by (simp_all add: attached_def)
  have "alike (v_sb v) (end_text sb v)" by (simp add: alike_def end_text_core)
  moreover note alikeD(10) [OF this] end_text_modes [OF m]
  ultimately show ?thesis
    using assms(2-4) marg by (simp add: sim_def begin_text_def end_text_members mode_frame_def)
qed

lemma attached_begin: "attached sb (begin_text e sb)"
  by (simp add: attached_def begin_text_def mode_frame_def)

lemma call_env_stored:
  assumes "attached sb v" and "\<not> v_failed v" and "v_switches v = 0" and "sb_buffer_size (end_text sb v) = sb_buffer_size sb"
  shows "call_env c (end_text sb v) = call_env c sb"
proof -
  have "mode_frame (v_sb v) = mode_frame sb" using assms by (simp add: attached_def)
  from end_text_modes [OF this] assms(4) show ?thesis by (simp add: call_env_def mode_frame_def)
qed

lemma stored_view:
  assumes "attached sb v" and "attached sb' v'" and "sim v v'" and "\<not> v_failed v" and "v_switches v = 0"
    and "sb_default_text_attributes sb = sb_default_text_attributes sb'"
  shows "screen_view (end_text sb v) = screen_view (end_text sb' v')"
proof (rule screen_viewI)
  show "core_sb (end_text sb v) = core_sb (end_text sb' v')"
    using alikeD(1) [OF simD(1) [OF assms(3)]] by (simp add: end_text_core)
  have "mode_frame (v_sb v) = mode_frame sb" "mode_frame (v_sb v') = mode_frame sb'"
    using assms simD(9,10) [OF assms(3)] by (simp_all add: attached_def)
  then show "mode_frame (end_text sb v) = mode_frame (end_text sb' v')"
    using simD [OF assms(3)] assms(6) by (simp add: end_text_modes)
qed (use simD [OF assms(3)] in \<open>simp_all add: end_text_members\<close>)

abbreviation write_text :: "VtCall \<Rightarrow> ScreenBuffer \<Rightarrow> wstring \<Rightarrow> ScreenBuffer" where
  "write_text c sb s \<equiv> v_sb (apply_text_to_screen_buffer c s sb)"

lemma write_append:
  assumes ok: "screen_ok sb" and size: "0 < cx (sb_buffer_size sb)" "0 < cy (sb_buffer_size sb)"
    and vt: "c_output_mode c AND 0x0004 \<noteq> 0" and mem: "c_mem c = (\<lambda>_. True)"
    and none: "v_switches (run_text c (s @ t) sb) = 0"
  shows "screen_view (write_text c sb (s @ t)) = screen_view (write_text c (write_text c sb s) t)"
    and "v_switches (run_text c t (write_text c sb s)) = 0"
proof -
  let ?e = "call_env c sb"
  define v where "v = run_text c s sb"
  have run: "run_ok ?e v"
    unfolding v_def run_text_def using ok size by (intro run_ok_text_loop run_ok_begin_text)
  have e: "e_mem ?e = (\<lambda>_. True)" "e_vt_processing ?e" "e_size ?e = sb_buffer_size sb"
    using vt mem by (simp_all add: call_env_def)
  have whole: "run_text c (s @ t) sb = text_loop ?e t v" by (simp add: run_text_def v_def text_loop_append)
  with none switches_text_loop [of v ?e t] have sw: "v_switches v = 0" by simp
  have att: "attached sb v" unfolding v_def run_text_def by (intro attached_text_loop attached_begin)
  have nf: "\<not> v_failed v" by (rule run_okD(12) [OF run])
  have first: "write_text c sb s = end_text sb v" using size by (simp add: apply_text_to_screen_buffer_def v_def)
  have sz: "sb_buffer_size (end_text sb v) = sb_buffer_size sb" using end_text_ok [OF run] e(3) by simp
  have env: "call_env c (end_text sb v) = ?e" by (rule call_env_stored [OF att nf sw sz])
  define u where "u = begin_text ?e (end_text sb v)"
  have "sim v u" unfolding u_def by (rule resumed_run [OF att nf sw e(2)])
  with none whole sw have both: "sim (text_loop ?e t v) (text_loop ?e t u)" by (intro sim_text_loop e) simp_all
  have second: "run_text c t (end_text sb v) = text_loop ?e t u" by (simp add: run_text_def env u_def)
  show "v_switches (run_text c t (write_text c sb s)) = 0"
    using none simD(10) [OF both] by (simp add: first second whole)
  have "run_ok ?e (text_loop ?e t v)" by (rule run_ok_text_loop [OF run])
  then have "screen_view (end_text sb (text_loop ?e t v)) = screen_view (end_text (end_text sb v) (text_loop ?e t u))"
    using att both none whole env unfolding u_def
    by (intro stored_view attached_text_loop attached_begin) (simp_all add: run_okD(12) call_env_def)
  then show "screen_view (write_text c sb (s @ t)) = screen_view (write_text c (write_text c sb s) t)"
    unfolding first using size sz by (simp add: second whole apply_text_to_screen_buffer_def)
qed

lemma write_nothing:
  assumes "screen_ok sb" and "c_output_mode c AND 0x0004 \<noteq> 0"
  shows "screen_view (write_text c sb []) = screen_view sb"
proof (cases "cx (sb_buffer_size sb) \<le> 0 \<or> cy (sb_buffer_size sb) \<le> 0")
  case True
  then show ?thesis by (simp add: apply_text_to_screen_buffer_def)
next
  case False
  let ?v = "begin_text (call_env c sb) sb"
  have v: "v_sb ?v = sb" "v_delayed_wrap_position ?v = sb_vt_delayed_wrap_position sb"
    using assms(2) by (simp_all add: begin_text_def call_env_def)
  have "screen_view (end_text sb ?v) = screen_view sb"
  proof (rule screen_viewI)
    have "mode_frame (end_text sb ?v) = (sb_default_text_attributes sb, v_autowrap ?v, v_origin_mode ?v, v_insert_mode ?v)"
      by (rule end_text_modes) (simp add: v)
    then show "mode_frame (end_text sb ?v) = mode_frame sb" by (simp add: begin_text_def mode_frame_def)
  qed (simp_all add: end_text_core end_text_members v, simp_all add: begin_text_def)
  with False show ?thesis by (simp add: apply_text_to_screen_buffer_def run_text_def)
qed

end
