(* ===== verification/Vt_Sequences.thy ===== *)
theory Vt_Sequences
  imports Vt_Streaming
begin

text \<open>
  Control sequences from their text: a sequence printed with its parameters is parsed to exactly
  those parameters and runs the command it names. From it follow the effects of whole writes: a
  positioned cursor, the answer to a status query, plain text, the hard reset.
\<close>

section \<open>Printing a control sequence\<close>

abbreviation wide_digits :: "nat \<Rightarrow> wstring" where
  "wide_digits n \<equiv> map ucast (dec_digits n)"

fun params_text :: "nat list \<Rightarrow> wstring" where
  "params_text [] = []"
| "params_text [p] = wide_digits p"
| "params_text (p # ps) = wide_digits p @ 0x3B # params_text ps"

definition csi_text :: "bool \<Rightarrow> nat list \<Rightarrow> wchar \<Rightarrow> wstring" where
  "csi_text private_marker ps final =
    [0x1B, 0x5B] @ (if private_marker then [0x3F] else []) @ params_text ps @ [final]"

text \<open>The sequence the parser reports: \<open>m\<close> without parameters is \<open>m\<close> with a zero.\<close>

definition csi_parsed :: "bool \<Rightarrow> nat list \<Rightarrow> wchar \<Rightarrow> VtCsiSequence" where
  "csi_parsed private_marker ps final =
    \<lparr>csi_final = final, csi_private_marker = private_marker, csi_exclamation_marker = False,
     csi_params = (if final = 0x6D \<and> ps = [] then [0] else ps)\<rparr>"

section \<open>The parser collects what was printed\<close>

lemma on_parse_comp [simp]: "on_parse f (on_parse g v) = on_parse (\<lambda>ps. f (g ps)) v"
  by (simp add: on_parse_def)

lemma parse_state_on_parse [simp]: "parse_state (on_parse f v) = f (parse_state v)"
  by (simp add: on_parse_def)

lemma on_parse_fields [simp]:
  "v_cursor (on_parse f v) = v_cursor v" "v_attributes (on_parse f v) = v_attributes v"
  "v_vertical_margins (on_parse f v) = v_vertical_margins v" "v_autowrap (on_parse f v) = v_autowrap v"
  "v_delayed_wrap_position (on_parse f v) = v_delayed_wrap_position v" "v_origin_mode (on_parse f v) = v_origin_mode v"
  "v_insert_mode (on_parse f v) = v_insert_mode v" "v_titles (on_parse f v) = v_titles v"
  "v_injected (on_parse f v) = v_injected v" "sb_cells (v_sb (on_parse f v)) = sb_cells (v_sb v)"
  "sb_window_rect (v_sb (on_parse f v)) = sb_window_rect (v_sb v)"
  by (simp_all add: on_parse_def)

lemma on_parse_id [simp]: "on_parse (\<lambda>ps. ps) v = v"
  by (simp add: on_parse_def)

lemma text_loop_consume:
  "text_step e ch v = (True, v') \<Longrightarrow> text_loop e (ch # rest) v = text_loop e rest v'"
  by (simp add: text_loop.simps(2))

definition is_final :: "wchar \<Rightarrow> bool" where
  "is_final ch \<longleftrightarrow> ch \<ge> 0x40 \<and> ch \<le> 0x7E"

lemma not_final_marks [simp]: "\<not> is_final 0x3B" "\<not> is_final 0x3F"
  by (simp_all add: is_final_def)

definition collect :: "wstring \<Rightarrow> VtOutputParseState \<Rightarrow> VtOutputParseState" where
  "collect cs ps = fold (\<lambda>ch ps. csi_collect ch (ps\<lparr>ps_csi_length := ps_csi_length ps + 1\<rparr>)) cs ps"

lemma collect_simps [simp]:
  "collect [] ps = ps"
  "collect (ch # cs) ps = collect cs (csi_collect ch (ps\<lparr>ps_csi_length := ps_csi_length ps + 1\<rparr>))"
  "collect (as @ bs) ps = collect bs (collect as ps)"
  by (simp_all add: collect_def)

lemma csi_collect_frame [simp]:
  "ps_phase (csi_collect ch ps) = ps_phase ps" "ps_csi_length (csi_collect ch ps) = ps_csi_length ps"
  by (simp_all add: csi_collect_def push_param_def)

lemma collect_frame [simp]:
  "ps_phase (collect cs ps) = ps_phase ps" "ps_csi_length (collect cs ps) = ps_csi_length ps + length cs"
  by (induction cs arbitrary: ps) simp_all

lemma parse_ok_collect: "parse_ok ps \<Longrightarrow> ps_csi_length ps + length cs \<le> 128 \<Longrightarrow> parse_ok (collect cs ps)"
proof (induction cs arbitrary: ps)
  case (Cons ch cs)
  have "parse_ok (ps\<lparr>ps_csi_length := ps_csi_length ps + 1\<rparr>)" using Cons.prems by (simp add: parse_ok_def)
  then show ?case using Cons.prems by (simp add: Cons.IH parse_ok_csi_collect)
qed simp

lemma text_loop_collect:
  assumes "e_vt_processing e" and "ps_phase (parse_state v) = P_csi" and "list_all (\<lambda>ch. \<not> is_final ch) cs"
    and "ps_csi_length (parse_state v) + length cs \<le> 128"
  shows "text_loop e (cs @ rest) v = text_loop e rest (on_parse (collect cs) v)"
  using assms(2-)
proof (induction cs arbitrary: v)
  case Nil
  then show ?case by simp
next
  case (Cons ch cs)
  let ?u = "on_parse (\<lambda>ps. csi_collect ch (ps\<lparr>ps_csi_length := ps_csi_length ps + 1\<rparr>)) v"
  have "text_step e ch v = (True, ?u)"
    using Cons.prems assms(1) by (auto simp: text_step_def phase_csi_def is_final_def Let_def)
  then have "text_loop e ((ch # cs) @ rest) v = text_loop e (cs @ rest) ?u" by (simp add: text_loop_consume)
  also have "\<dots> = text_loop e rest (on_parse (collect cs) ?u)" using Cons.prems by (intro Cons.IH) simp_all
  finally show ?case by simp
qed

lemma digit_char:
  assumes "d < 10"
  shows "(ucast (of_nat (48 + d) :: byte) :: wchar) \<ge> 0x30" "(ucast (of_nat (48 + d) :: byte) :: wchar) \<le> 0x39"
    "unat ((ucast (of_nat (48 + d) :: byte) :: wchar) - 0x30) = d"
  using dec_digit_of_nat [OF assms] by (auto simp: dec_digit_def split: if_splits)

lemma dec_digits_one: "n < 10 \<Longrightarrow> dec_digits n = [of_nat (48 + n)]"
  by (subst dec_digits.simps) simp

lemma dec_digits_more: "\<not> n < 10 \<Longrightarrow> dec_digits n = dec_digits (n div 10) @ [of_nat (48 + n mod 10)]"
  by (subst dec_digits.simps) simp

text \<open>The digits of a number below ten million are read back; the overflow guard never bites.\<close>

lemma collect_digits:
  assumes "ps_csi_current ps = 0" and "n < 10000000"
  shows "collect (wide_digits n) ps = ps\<lparr>ps_csi_have_digits := True, ps_csi_last_was_separator := False,
    ps_csi_current := n, ps_csi_length := ps_csi_length ps + length (dec_digits n)\<rparr>"
  using assms(2)
proof (induction n rule: dec_digits.induct)
  case (1 n)
  have last: "csi_collect (ucast (of_nat (48 + d) :: byte)) q =
      q\<lparr>ps_csi_have_digits := True, ps_csi_last_was_separator := False, ps_csi_current := ps_csi_current q * 10 + d\<rparr>"
    if "d < 10" "ps_csi_current q \<le> 1000000" for d q
    using digit_char [OF that(1)] that(2) by (simp add: csi_collect_def)
  show ?case
  proof (cases "n < 10")
    case True
    then show ?thesis
      using last [of n "ps\<lparr>ps_csi_length := ps_csi_length ps + 1\<rparr>"] assms(1) by (simp add: dec_digits_one)
  next
    case False
    then have "collect (wide_digits (n div 10)) ps = ps\<lparr>ps_csi_have_digits := True, ps_csi_last_was_separator := False,
        ps_csi_current := n div 10, ps_csi_length := ps_csi_length ps + length (dec_digits (n div 10))\<rparr>" (is "_ = ?q")
      using 1 by simp
    moreover have "csi_collect (ucast (of_nat (48 + n mod 10) :: byte)) (?q\<lparr>ps_csi_length := ps_csi_length ?q + 1\<rparr>) =
        ?q\<lparr>ps_csi_length := ps_csi_length ?q + 1, ps_csi_current := n\<rparr>"
      using 1(2) by (subst last) simp_all
    ultimately show ?thesis by (simp add: dec_digits_more [OF False])
  qed
qed

text \<open>After the parameters all but the last are pushed and the last is pending.\<close>

lemma collect_params:
  assumes "ps \<noteq> []" and "list_all (\<lambda>p. p < 10000000) ps" and "ps_csi_current q = 0"
    and "length (csi_params (ps_csi q)) + length ps \<le> 16"
  shows "\<exists>k. collect (params_text ps) q = q\<lparr>ps_csi_have_digits := True, ps_csi_last_was_separator := False,
    ps_csi_current := last ps, ps_csi := (ps_csi q)\<lparr>csi_params := csi_params (ps_csi q) @ butlast ps\<rparr>, ps_csi_length := k\<rparr>"
  using assms
proof (induction ps arbitrary: q rule: params_text.induct)
  case (2 p)
  then show ?case using collect_digits [of q p] by (intro exI [of _ "ps_csi_length q + length (dec_digits p)"]) simp
next
  case (3 p p' ps)
  define d where "d = collect (wide_digits p) q"
  define r where "r = csi_collect 0x3B (d\<lparr>ps_csi_length := ps_csi_length d + 1\<rparr>)"
  have d: "d = q\<lparr>ps_csi_have_digits := True, ps_csi_last_was_separator := False, ps_csi_current := p,
      ps_csi_length := ps_csi_length q + length (dec_digits p)\<rparr>" unfolding d_def using 3 by (intro collect_digits) simp_all
  have r: "r = q\<lparr>ps_csi_have_digits := False, ps_csi_last_was_separator := True, ps_csi_current := 0,
      ps_csi := (ps_csi q)\<lparr>csi_params := csi_params (ps_csi q) @ [p]\<rparr>,
      ps_csi_length := ps_csi_length q + length (dec_digits p) + 1\<rparr>"
    using 3(5) by (simp add: r_def d csi_collect_def push_param_def)
  have "\<exists>k. collect (params_text (p' # ps)) r = r\<lparr>ps_csi_have_digits := True, ps_csi_last_was_separator := False,
      ps_csi_current := last (p' # ps), ps_csi := (ps_csi r)\<lparr>csi_params := csi_params (ps_csi r) @ butlast (p' # ps)\<rparr>, ps_csi_length := k\<rparr>"
    by (rule 3(1)) (use 3(3-) in \<open>simp_all add: r\<close>)
  then obtain k where "collect (params_text (p' # ps)) r = r\<lparr>ps_csi_have_digits := True, ps_csi_last_was_separator := False,
      ps_csi_current := last (p' # ps), ps_csi := (ps_csi r)\<lparr>csi_params := csi_params (ps_csi r) @ butlast (p' # ps)\<rparr>, ps_csi_length := k\<rparr>"
    by blast
  moreover have "collect (params_text (p # p' # ps)) q = collect (params_text (p' # ps)) r" by (simp add: r_def d_def)
  ultimately show ?case by (intro exI [of _ k]) (simp add: r)
qed simp

text \<open>The characters of the parameters are no final characters.\<close>

lemma digits_not_final: "list_all (\<lambda>ch. \<not> is_final ch) (wide_digits n)"
proof (induction n rule: dec_digits.induct)
  case (1 n)
  have "\<not> is_final (ucast (of_nat (48 + d) :: byte))" if "d < 10" for d
    using digit_char(2) [OF that] by (auto simp: is_final_def word_le_nat_alt)
  with 1 show ?case by (cases "n < 10") (simp_all add: dec_digits_one dec_digits_more)
qed

lemma params_not_final: "list_all (\<lambda>ch. \<not> is_final ch) (params_text ps)"
  by (induction ps rule: params_text.induct) (simp_all add: digits_not_final)

text \<open>From the ground phase a printed sequence runs its command and leads back to the ground phase.\<close>

lemma csi_sequence:
  assumes "e_vt_processing e" and "ps_phase (parse_state v) = P_ground" and "list_all (\<lambda>p. p < 10000000) ps"
    and "length ps \<le> 16" and "length (csi_text pm ps f) \<le> 130" and "is_final f"
  shows "\<exists>q. ps_phase q = P_csi \<and> ps_csi q = csi_parsed pm ps f \<and> (parse_ok (parse_state v) \<longrightarrow> parse_ok q)
    \<and> text_loop e (csi_text pm ps f @ rest) v =
    text_loop e rest (on_parse (reset_csi P_ground) (apply_csi e (csi_parsed pm ps f) (on_parse (\<lambda>_. q) v)))"
proof -
  define q0 where "q0 = reset_csi P_csi (reset_esc ((parse_state v)\<lparr>ps_phase := P_escape\<rparr>))"
  have q0: "ps_phase q0 = P_csi" "ps_csi q0 = empty_csi" "ps_csi_current q0 = 0" "\<not> ps_csi_have_digits q0"
    "\<not> ps_csi_last_was_separator q0" "ps_csi_length q0 = 0" by (simp_all add: q0_def reset_csi_def)
  define q1 where "q1 = collect (if pm then [0x3F] else []) q0"
  have q1: "ps_phase q1 = P_csi" "ps_csi q1 = empty_csi\<lparr>csi_private_marker := pm\<rparr>" "ps_csi_current q1 = 0"
    "\<not> ps_csi_have_digits q1" "\<not> ps_csi_last_was_separator q1" using q0 by (simp_all add: q1_def csi_collect_def empty_csi_def)
  define q2 where "q2 = collect (params_text ps) q1"
  have "\<exists>k. q2 = (if ps = [] then q1 else q1\<lparr>ps_csi_have_digits := True, ps_csi_last_was_separator := False,
      ps_csi_current := last ps, ps_csi := (ps_csi q1)\<lparr>csi_params := butlast ps\<rparr>, ps_csi_length := k\<rparr>)"
  proof (cases "ps = []")
    case False
    with assms(3,4) q1(2,3) have "\<exists>k. q2 = q1\<lparr>ps_csi_have_digits := True, ps_csi_last_was_separator := False,
      ps_csi_current := last ps, ps_csi := (ps_csi q1)\<lparr>csi_params := csi_params (ps_csi q1) @ butlast ps\<rparr>, ps_csi_length := k\<rparr>"
      unfolding q2_def by (intro collect_params) (simp_all add: empty_csi_def)
    with False q1(2) show ?thesis by (simp add: empty_csi_def)
  qed (simp add: q2_def)
  then obtain k where q2: "q2 = (if ps = [] then q1 else q1\<lparr>ps_csi_have_digits := True, ps_csi_last_was_separator := False,
      ps_csi_current := last ps, ps_csi := (ps_csi q1)\<lparr>csi_params := butlast ps\<rparr>, ps_csi_length := k\<rparr>)" by blast
  let ?cs = "(if pm then [0x3F] else []) @ params_text ps"
  have len: "length ?cs \<le> 127" using assms(5) by (simp add: csi_text_def)
  have two: "text_loop e (0x1B # 0x5B # cs) v = text_loop e cs (on_parse (\<lambda>_. q0) v)" for cs
    using assms(1,2)
    by (subst text_loop_consume [of e "0x1B" v "on_parse (\<lambda>ps. ps\<lparr>ps_phase := P_escape\<rparr>) v"],
        simp add: text_step_def phase_ground_def,
        subst text_loop_consume [of e "0x5B" _ "on_parse (\<lambda>_. q0) v"],
        simp_all add: text_step_def phase_escape_def q0_def, simp add: on_parse_def)
  have "list_all (\<lambda>ch. \<not> is_final ch) ?cs" by (simp add: params_not_final)
  then have "text_loop e (csi_text pm ps f @ rest) v = text_loop e (f # rest) (on_parse (collect ?cs) (on_parse (\<lambda>_. q0) v))"
    using two text_loop_collect [of e "on_parse (\<lambda>_. q0) v" ?cs "f # rest"] assms(1) q0(1,6) len by (simp add: csi_text_def)
  also have "on_parse (collect ?cs) (on_parse (\<lambda>_. q0) v) = on_parse (\<lambda>_. q2) v" by (simp add: q2_def q1_def)
  finally have run: "text_loop e (csi_text pm ps f @ rest) v = text_loop e (f # rest) (on_parse (\<lambda>_. q2) v)" .
  define q3 where "q3 = csi_complete f (q2\<lparr>ps_csi_length := ps_csi_length q2 + 1\<rparr>)"
  have "ps_csi q3 = csi_parsed pm ps f"
    using assms(4) q1 by (auto simp: q3_def q2 csi_complete_def push_param_def csi_parsed_def empty_csi_def Let_def)
  moreover have ph: "ps_phase q2 = P_csi" "ps_csi_length q2 < 128" using len q0(6) q1(1) by (simp_all add: q2_def q1_def)
  moreover have "parse_ok q3" if "parse_ok (parse_state v)"
  proof -
    have "parse_ok (collect ?cs q0)" using that len q0(6) by (intro parse_ok_collect) (simp_all add: q0_def)
    then have "parse_ok (q2\<lparr>ps_csi_length := ps_csi_length q2 + 1\<rparr>)" using ph(2) by (simp add: q2_def q1_def parse_ok_def)
    then show ?thesis unfolding q3_def by (rule parse_ok_csi_complete)
  qed
  moreover have "ps_phase q3 = P_csi" using ph by (simp add: q3_def csi_complete_def push_param_def Let_def)
  moreover have "text_step e f (on_parse (\<lambda>_. q2) v) =
      (True, on_parse (reset_csi P_ground) (apply_csi e (ps_csi q3) (on_parse (\<lambda>_. q3) v)))"
    using ph assms(1,6) by (simp add: text_step_def phase_csi_def is_final_def Let_def q3_def)
  ultimately show ?thesis using run by (intro exI [of _ q3]) (simp add: text_loop_consume)
qed

text \<open>
  C24. A control sequence is read back from its printed form: from the ground phase the text
  \<open>ESC [ p1 ; ... ; pn F\<close>, with up to sixteen parameters below ten million and at most 127
  characters between the bracket and the final one, runs the command of exactly these parameters
  and leaves the parser in the ground phase.
\<close>

theorem csi_text_round_trip:
  assumes "e_vt_processing e" and "ps_phase (parse_state v) = P_ground" and "list_all (\<lambda>p. p < 10000000) ps"
    and "length ps \<le> 16" and "length (csi_text pm ps f) \<le> 130" and "is_final f"
  shows "\<exists>q. ps_csi q = csi_parsed pm ps f \<and> text_loop e (csi_text pm ps f) v =
    on_parse (reset_csi P_ground) (apply_csi e (csi_parsed pm ps f) (on_parse (\<lambda>_. q) v))"
  using csi_sequence [OF assms, of "[]"] by auto

section \<open>Whole writes\<close>

definition vt_on :: "VtCall \<Rightarrow> bool" where
  "vt_on c \<longleftrightarrow> c_output_mode c AND 0x0004 \<noteq> 0"

text \<open>A screen that is about to read a new sequence.\<close>

definition at_ground :: "ScreenBuffer \<Rightarrow> bool" where
  "at_ground sb \<longleftrightarrow> ps_phase (sb_vt_output_parse_state sb) = P_ground"

lemma begin_text_vt:
  assumes "vt_on c"
  shows "v_sb (begin_text (call_env c sb) sb) = sb" "e_vt_processing (call_env c sb)"
    "e_size (call_env c sb) = sb_buffer_size sb"
  using assms by (simp_all add: begin_text_def call_env_def vt_on_def)

lemma end_text_cells [simp]: "sb_cells (end_text sb v) = sb_cells (v_sb v)"
  using core_sb_fields(2) [of "end_text sb v"] core_sb_fields(2) [of "v_sb v"] end_text_core [of sb v] by simp

lemma end_text_parse [simp]: "sb_vt_output_parse_state (end_text sb v) = parse_state v"
  using core_sb_fields(8) [of "end_text sb v"] core_sb_fields(8) [of "v_sb v"] end_text_core [of sb v] by simp

lemma reset_csi_phase [simp]: "ps_phase (reset_csi ph ps) = ph"
  by (simp add: reset_csi_def)

lemma length_digits_small: "n < 10000000 \<Longrightarrow> length (dec_digits n) \<le> 7"
  using length_dec_digits [of n 6] by simp

text \<open>One control sequence with at most two parameters as a whole write.\<close>

lemma write_csi:
  assumes "vt_on c" and "at_ground sb" and "0 < cx (sb_buffer_size sb)" and "0 < cy (sb_buffer_size sb)"
    and "list_all (\<lambda>p. p < 10000000) ps" and "length ps \<le> 2" and "is_final f"
  shows "\<exists>q. (parse_ok (sb_vt_output_parse_state sb) \<longrightarrow> parse_ok q) \<and> apply_text_to_screen_buffer c (csi_text pm ps f) sb =
    (let r = on_parse (reset_csi P_ground) (apply_csi (call_env c sb) (csi_parsed pm ps f)
           (on_parse (\<lambda>_. q) (begin_text (call_env c sb) sb)))
     in r\<lparr>v_sb := end_text sb r\<rparr>)"
proof -
  have "length (params_text ps) \<le> 15"
    using assms(5,6) length_digits_small by (cases ps rule: params_text.cases) (auto simp: length_Suc_conv le_Suc_eq dest!: length_digits_small)
  then have "length (csi_text pm ps f) \<le> 130" by (simp add: csi_text_def)
  with assms begin_text_vt [OF assms(1), of sb]
  have "\<exists>q. (parse_ok (sb_vt_output_parse_state sb) \<longrightarrow> parse_ok q) \<and> text_loop (call_env c sb) (csi_text pm ps f) (begin_text (call_env c sb) sb) =
    on_parse (reset_csi P_ground) (apply_csi (call_env c sb) (csi_parsed pm ps f) (on_parse (\<lambda>_. q) (begin_text (call_env c sb) sb)))"
    using csi_sequence [of "call_env c sb" "begin_text (call_env c sb) sb" ps pm f "[]"] by (auto simp: at_ground_def)
  then obtain q where "parse_ok (sb_vt_output_parse_state sb) \<longrightarrow> parse_ok q"
    "text_loop (call_env c sb) (csi_text pm ps f) (begin_text (call_env c sb) sb) =
    on_parse (reset_csi P_ground) (apply_csi (call_env c sb) (csi_parsed pm ps f) (on_parse (\<lambda>_. q) (begin_text (call_env c sb) sb)))"
    by blast
  then show ?thesis using assms(3,4) by (intro exI [of _ q]) (simp add: apply_text_to_screen_buffer_def run_text_def Let_def)
qed

lemma screen_ok_size: "screen_ok sb \<Longrightarrow> cx (sb_buffer_size sb) \<le> 32767 \<and> cy (sb_buffer_size sb) \<le> 32767"
  by (auto simp: screen_ok_def sb_ok_def size_ok_def)

lemma absolute_in_range:
  assumes "\<not> v_origin_mode v" and "1 \<le> r" and "int r \<le> cy (e_size e)" and "cy (e_size e) \<le> 32767"
  shows "absolute_row e r v = int r - 1"
  using assms by (simp add: absolute_row_def std_clamp_def to_long_id to_short_id of_nat_diff split: prod.split)

lemma absolute_column_in_range:
  assumes "1 \<le> c" and "int c \<le> cx (e_size e)" and "cx (e_size e) \<le> 32767"
  shows "absolute_column e c = int c - 1"
  using assms by (simp add: absolute_column_def std_clamp_def to_long_id to_short_id of_nat_diff)

lemma apply_csi_cup:
  assumes "1 \<le> r" and "1 \<le> c"
  shows "apply_csi e (csi_parsed False [r, c] 0x48) v = v\<lparr>v_cursor := \<lparr>cx = absolute_column e c, cy = absolute_row e r v\<rparr>\<rparr>"
  using assms by (simp add: apply_csi_def csi_parsed_def csi_cup_def count_param_def param_or_def)

text \<open>
  Writing \<open>ESC [ r ; c H\<close> moves the cursor to row \<open>r\<close> and column \<open>c\<close>, counted from one, of
  the buffer, for every position of the buffer, when origin mode is off. No cell changes and the
  parser is ready for the next sequence.
\<close>

theorem cursor_position_sequence:
  assumes "screen_ok sb" and "vt_on c" and "at_ground sb" and "\<not> sb_vt_origin_mode_enabled sb"
    and "1 \<le> row" and "int row \<le> cy (sb_buffer_size sb)" and "1 \<le> col" and "int col \<le> cx (sb_buffer_size sb)"
  shows "let sb' = v_sb (apply_text_to_screen_buffer c (csi_text False [row, col] 0x48) sb)
    in sb_cursor_position sb' = \<lparr>cx = int col - 1, cy = int row - 1\<rparr> \<and> sb_cells sb' = sb_cells sb \<and> at_ground sb'"
proof -
  have lim: "cx (sb_buffer_size sb) \<le> 32767" "cy (sb_buffer_size sb) \<le> 32767" using screen_ok_size [OF assms(1)] by simp_all
  have "list_all (\<lambda>p. p < 10000000) [row, col]" using assms(6,8) lim by simp
  then obtain q where w: "apply_text_to_screen_buffer c (csi_text False [row, col] 0x48) sb =
    (let r = on_parse (reset_csi P_ground) (apply_csi (call_env c sb) (csi_parsed False [row, col] 0x48)
           (on_parse (\<lambda>_. q) (begin_text (call_env c sb) sb)))
     in r\<lparr>v_sb := end_text sb r\<rparr>)"
    using write_csi [of c sb "[row, col]" "0x48" False] assms by (auto simp: is_final_def)
  have "\<not> v_origin_mode (on_parse (\<lambda>_. q) (begin_text (call_env c sb) sb))" using assms(4) by (simp add: begin_text_def)
  then show ?thesis
    using assms lim begin_text_vt [OF assms(2), of sb]
    by (simp add: w Let_def apply_csi_cup end_text_members at_ground_def absolute_in_range absolute_column_in_range)
qed

text \<open>The bytes of an answer are a control sequence.\<close>

lemma append_bytes_fits: "length r + length bs \<le> 32 \<Longrightarrow> append_bytes bs r = r @ bs"
  by (simp add: append_bytes_def)

lemma append_number_fits:
  assumes "n < 10000000" and "length r \<le> 20"
  shows "append_number n r = r @ dec_digits n"
proof -
  have "length (dec_digits n) \<le> 32 - length r" using assms(2) length_digits_small [OF assms(1)] by simp
  then show ?thesis using assms(2) by (simp add: append_number_def to_chars_int_def Let_def)
qed

lemma cursor_report_bytes:
  assumes "\<not> v_origin_mode v" and "cy (v_cursor v) - r_top (sb_window_rect (v_sb v)) + 1 = int row"
    and "cx (v_cursor v) - r_left (sb_window_rect (v_sb v)) + 1 = int col" and "1 \<le> row" and "1 \<le> col"
    and "row < 10000000" and "col < 10000000" and "\<not> csi_private_marker csi"
  shows "map ucast (cursor_report e csi v) = csi_text False [row, col] 0x52"
proof -
  have l: "length (dec_digits row) \<le> 7" "length (dec_digits col) \<le> 7" using assms(6,7) by (simp_all add: length_digits_small)
  have n: "append_number row [0x1B, 0x5B] = [0x1B, 0x5B] @ dec_digits row"
    "append_number col ([0x1B, 0x5B] @ dec_digits row @ [0x3B]) = [0x1B, 0x5B] @ dec_digits row @ [0x3B] @ dec_digits col"
    using append_number_fits [of row "[0x1B, 0x5B]"] append_number_fits [of col "[0x1B, 0x5B] @ dec_digits row @ [0x3B]"] assms l
    by simp_all
  have "cursor_report e csi v = [0x1B, 0x5B] @ dec_digits row @ [0x3B] @ dec_digits col @ [0x52]"
    using assms n l unfolding cursor_report_def
    by (simp add: Let_def append_bytes_fits append_bytes_def split: prod.split)
  then show ?thesis by (simp add: csi_text_def)
qed

text \<open>
  The query \<open>ESC [ 6 n\<close> is answered by injecting exactly the text \<open>ESC [ r ; c R\<close> into the
  input, where row \<open>r\<close> and column \<open>c\<close> are the position of the cursor in the window, counted
  from one; the cells and the cursor stay.
\<close>

theorem cursor_position_report:
  assumes "screen_ok sb" and "vt_on c" and "at_ground sb" and "\<not> sb_vt_origin_mode_enabled sb" and "c_answers_queries c"
    and "0 < cx (sb_buffer_size sb)" and "0 < cy (sb_buffer_size sb)"
    and "cy (sb_cursor_position sb) - r_top (sb_window_rect sb) + 1 = int row" and "1 \<le> row" and "row < 10000000"
    and "cx (sb_cursor_position sb) - r_left (sb_window_rect sb) + 1 = int col" and "1 \<le> col" and "col < 10000000"
  shows "let r = apply_text_to_screen_buffer c (csi_text False [6] 0x6E) sb
    in map (map ucast) (v_injected r) = [csi_text False [row, col] 0x52] \<and> sb_cells (v_sb r) = sb_cells sb
      \<and> sb_cursor_position (v_sb r) = sb_cursor_position sb"
proof -
  let ?e = "call_env c sb" and ?csi = "csi_parsed False [6] 0x6E"
  obtain q where w: "apply_text_to_screen_buffer c (csi_text False [6] 0x6E) sb =
    (let r = on_parse (reset_csi P_ground) (apply_csi ?e ?csi (on_parse (\<lambda>_. q) (begin_text ?e sb))) in r\<lparr>v_sb := end_text sb r\<rparr>)"
    using write_csi [of c sb "[6]" "0x6E" False] assms by (auto simp: is_final_def)
  define v where "v = on_parse (\<lambda>_. q) (begin_text ?e sb)"
  have v: "\<not> v_origin_mode v" "v_cursor v = sb_cursor_position sb" "sb_window_rect (v_sb v) = sb_window_rect sb"
    "sb_cells (v_sb v) = sb_cells sb" "v_injected v = []"
    using assms(4) begin_text_vt [OF assms(2), of sb] by (simp_all add: v_def begin_text_def)
  have "map ucast (cursor_report ?e ?csi v) = csi_text False [row, col] 0x52"
    by (rule cursor_report_bytes) (use assms v in \<open>simp_all add: csi_parsed_def\<close>)
  moreover from this have "cursor_report ?e ?csi v \<noteq> []" by (auto simp: csi_text_def)
  moreover have "e_answers_queries ?e" using assms(5) by (simp add: call_env_def)
  ultimately show ?thesis
    using v unfolding w v_def [symmetric]
    by (simp add: Let_def apply_csi_def csi_dsr_def param_or_def end_text_members csi_parsed_def)
qed

section \<open>Plain text\<close>

definition printable :: "wchar \<Rightarrow> bool" where
  "printable ch \<longleftrightarrow> ch \<ge> 0x20 \<and> (ch < 0x80 \<or> ch > 0x9F)"

lemma text_step_printable:
  assumes "e_vt_processing e" and "ps_phase (parse_state v) = P_ground" and "printable ch"
  shows "text_step e ch v = (True, write_printable e ch v)"
proof -
  have "ch \<noteq> 0x1B" "ch \<noteq> 0x0D" "ch \<noteq> 0x0A" "ch \<noteq> 0x08" "ch \<noteq> 0x09"
    "ch \<noteq> 0x9B" "ch \<noteq> 0x9D" "ch \<noteq> 0x9C" "ch \<noteq> 0x90" "ch \<noteq> 0x98" "ch \<noteq> 0x9E" "ch \<noteq> 0x9F"
    using assms(3) by (auto simp: printable_def)
  with assms show ?thesis by (simp add: text_step_def phase_ground_def process_character_def)
qed

text \<open>
  The place of the next character, as an index of the cell array: a pending wrap stands for the
  first column of the next row.
\<close>

definition next_cell_index :: "int \<Rightarrow> COORD \<Rightarrow> COORD option \<Rightarrow> nat" where
  "next_cell_index width cursor delayed =
    (if \<exists>p. delayed = Some p \<and> cx p = cx cursor \<and> cy p = cy cursor then nat (cy cursor + 1) * nat width
     else nat (cy cursor) * nat width + nat (cx cursor))"

definition typing :: "VtEnv \<Rightarrow> VtRun \<Rightarrow> bool" where
  "typing e v \<longleftrightarrow> run_ok e v \<and> e_vt_processing e \<and> ps_phase (parse_state v) = P_ground \<and> v_vertical_margins v = None
    \<and> v_autowrap v \<and> \<not> v_insert_mode v"

abbreviation next_cell :: "VtEnv \<Rightarrow> VtRun \<Rightarrow> nat" where
  "next_cell e v \<equiv> next_cell_index (cx (e_size e)) (v_cursor v) (v_delayed_wrap_position v)"

lemma next_cell_wrap:
  "at_delayed_wrap v \<Longrightarrow> next_cell e v = nat (cy (v_cursor v) + 1) * nat (cx (e_size e))"
  "\<not> at_delayed_wrap v \<Longrightarrow> next_cell e v = nat (cy (v_cursor v)) * nat (cx (e_size e)) + nat (cx (v_cursor v))"
  by (auto simp: next_cell_index_def at_delayed_wrap_def split: option.splits)

text \<open>After the pending wrap is resolved the cursor is at the next cell.\<close>

lemma resolve_pending_wrap:
  assumes "typing e v" and "next_cell e v < nat (cx (e_size e)) * nat (cy (e_size e))"
  shows "\<exists>p. maybe_apply_delayed_wrap e v = v\<lparr>v_cursor := p, v_delayed_wrap_position := None\<rparr> \<and> cursor_ok (e_size e) p
    \<and> nat (cy p) * nat (cx (e_size e)) + nat (cx p) = next_cell e v"
proof (cases "at_delayed_wrap v")
  case False
  have "cursor_ok (e_size e) (v_cursor v)" using assms(1) by (simp add: typing_def run_ok_def)
  with False assms show ?thesis
    by (intro exI [of _ "v_cursor v"]) (auto simp: maybe_apply_delayed_wrap_def typing_def next_cell_wrap(2))
next
  case True
  have run: "run_ok e v" using assms(1) by (simp add: typing_def)
  note b = run_okD [OF run]
  let ?y = "cy (v_cursor v)"
  have "nat (?y + 1) < nat (cy (e_size e))" using assms(2) b by (simp add: next_cell_wrap(1) [OF True] mult.commute)
  then have y: "?y + 1 < cy (e_size e)" by linarith
  have "advance_line e v = v\<lparr>v_cursor := \<lparr>cx = 0, cy = ?y + 1\<rparr>\<rparr>"
    using y b assms(1) by (simp add: advance_line_def line_feed_def resolve_vertical_region_def typing_def to_short_id)
  moreover have "v_delayed_wrap_position v \<noteq> None" using True by (auto simp: at_delayed_wrap_def split: option.splits)
  moreover have "cursor_ok (e_size e) \<lparr>cx = 0, cy = ?y + 1\<rparr>" using y b by (intro cursor_okI) simp_all
  ultimately show ?thesis
    using True assms(1) by (intro exI [of _ "\<lparr>cx = 0, cy = ?y + 1\<rparr>"])
      (auto simp: maybe_apply_delayed_wrap_def typing_def next_cell_wrap(1))
qed

lemma type_character:
  assumes "typing e v" and "next_cell e v < nat (cx (e_size e)) * nat (cy (e_size e))"
  shows "typing e (write_printable e ch v)" and "next_cell e (write_printable e ch v) = Suc (next_cell e v)"
    and "sb_cells (v_sb (write_printable e ch v)) =
      (sb_cells (v_sb v))[next_cell e v := \<lparr>cell_character = ch, cell_attributes = v_attributes v\<rparr>]"
    and "v_attributes (write_printable e ch v) = v_attributes v"
proof -
  have run: "run_ok e v" and vt: "e_vt_processing e" and rest: "ps_phase (parse_state v) = P_ground"
    "v_vertical_margins v = None" "v_autowrap v" "\<not> v_insert_mode v" using assms(1) by (simp_all add: typing_def)
  note b = run_okD [OF run]
  obtain p where p: "maybe_apply_delayed_wrap e v = v\<lparr>v_cursor := p, v_delayed_wrap_position := None\<rparr>"
    "cursor_ok (e_size e) p" "nat (cy p) * nat (cx (e_size e)) + nat (cx p) = next_cell e v"
    using resolve_pending_wrap [OF assms] by blast
  have pb: "0 \<le> cx p" "cx p < cx (e_size e)" "0 \<le> cy p" "cy p < cy (e_size e)"
    using p(2) b by (auto simp: cursor_ok_def in_extent_def)
  define sb where "sb = touch ((v_sb v)\<lparr>sb_cells := (sb_cells (v_sb v))[next_cell e v :=
    \<lparr>cell_character = ch, cell_attributes = v_attributes v\<rparr>]\<rparr>)"
  have "length (sb_cells (v_sb v)) = nat (cx (e_size e)) * nat (cy (e_size e))"
    using b(1,2,9,10) by (simp add: sb_ok_def cells_ok_def)
  then have "sb_cells (v_sb v) \<noteq> []" using assms(2) by auto
  then have put: "put_cell e ch (maybe_apply_delayed_wrap e v) = v\<lparr>v_cursor := p, v_delayed_wrap_position := None, v_sb := sb\<rparr>"
    using p rest b(1,2,10) pb by (simp add: put_cell_def write_cell_def coord_in_range_def linear_index_def sb_def)
  have sb: "sb_cells sb = (sb_cells (v_sb v))[next_cell e v := \<lparr>cell_character = ch, cell_attributes = v_attributes v\<rparr>]"
    "sb_vt_output_parse_state sb = parse_state v" by (simp_all add: sb_def touch_def)
  let ?last = "cx (e_size e) - 1"
  have w: "write_printable e ch v =
    (if cx p \<ge> ?last then v\<lparr>v_cursor := p, v_delayed_wrap_position := Some p, v_sb := sb\<rparr>
     else v\<lparr>v_cursor := p\<lparr>cx := cx p + 1\<rparr>, v_delayed_wrap_position := None, v_sb := sb\<rparr>)"
  proof -
    have "p\<lparr>cx := ?last\<rparr> = p" if "cx p \<ge> ?last" using that pb by (cases p) simp
    then show ?thesis using vt rest b(1,3) pb by (simp add: write_printable_def put Let_def to_short_id)
  qed
  show "sb_cells (v_sb (write_printable e ch v)) =
      (sb_cells (v_sb v))[next_cell e v := \<lparr>cell_character = ch, cell_attributes = v_attributes v\<rparr>]"
    "v_attributes (write_printable e ch v) = v_attributes v" by (simp_all add: w sb)
  show "typing e (write_printable e ch v)"
    using run_ok_write_printable [OF run, of ch] rest vt by (simp add: typing_def w sb)
  show "next_cell e (write_printable e ch v) = Suc (next_cell e v)"
  proof (cases "cx p \<ge> ?last")
    case True
    then have "nat (cx p) + 1 = nat (cx (e_size e))" "nat (cy p + 1) = Suc (nat (cy p))" using pb by linarith+
    with True p(3) show ?thesis by (simp add: w next_cell_index_def)
  next
    case False
    have "nat (cx p + 1) = Suc (nat (cx p))" using pb by linarith
    with False p(3) show ?thesis by (simp add: w next_cell_index_def)
  qed
qed

lemma splice_step:
  "p < length xs \<Longrightarrow> take (Suc p) (xs[p := a]) @ as @ drop (Suc p + n) (xs[p := a]) = take p xs @ (a # as) @ drop (p + Suc n) xs"
  by (simp add: take_Suc_conv_app_nth)

lemma type_text:
  "typing e v \<Longrightarrow> list_all printable cs \<Longrightarrow> next_cell e v + length cs \<le> nat (cx (e_size e)) * nat (cy (e_size e)) \<Longrightarrow>
    typing e (text_loop e cs v) \<and> next_cell e (text_loop e cs v) = next_cell e v + length cs
    \<and> sb_cells (v_sb (text_loop e cs v)) = take (next_cell e v) (sb_cells (v_sb v))
        @ map (\<lambda>ch. \<lparr>cell_character = ch, cell_attributes = v_attributes v\<rparr>) cs
        @ drop (next_cell e v + length cs) (sb_cells (v_sb v))"
proof (induction cs arbitrary: v)
  case (Cons ch cs)
  let ?u = "write_printable e ch v"
  have lt: "next_cell e v < nat (cx (e_size e)) * nat (cy (e_size e))" using Cons.prems(3) by simp
  note t = type_character [OF Cons.prems(1) lt, of ch]
  have "text_step e ch v = (True, ?u)"
    using Cons.prems(1,2) by (intro text_step_printable) (simp_all add: typing_def)
  then have step: "text_loop e (ch # cs) v = text_loop e cs ?u" by (rule text_loop_consume)
  have "run_ok e v" using Cons.prems(1) by (simp add: typing_def)
  then have "length (sb_cells (v_sb v)) = nat (cx (e_size e)) * nat (cy (e_size e))"
    using run_okD(1,2,9,10) [of e v] by (simp add: sb_ok_def cells_ok_def)
  with lt have lt': "next_cell e v < length (sb_cells (v_sb v))" by simp
  have "typing e (text_loop e cs ?u) \<and> next_cell e (text_loop e cs ?u) = next_cell e ?u + length cs
    \<and> sb_cells (v_sb (text_loop e cs ?u)) = take (next_cell e ?u) (sb_cells (v_sb ?u))
        @ map (\<lambda>ch. \<lparr>cell_character = ch, cell_attributes = v_attributes ?u\<rparr>) cs
        @ drop (next_cell e ?u + length cs) (sb_cells (v_sb ?u))"
    using Cons.prems(2,3) t by (intro Cons.IH) simp_all
  then show ?case
    unfolding step t(2-4) using splice_step [OF lt', of "\<lparr>cell_character = ch, cell_attributes = v_attributes v\<rparr>"] by simp
qed simp

text \<open>
  C22. Plain text fills the cells in reading order: with autowrap on, insert mode off and no
  margins, writing printable characters from the cursor replaces exactly the run of cells that
  starts at the next cell, one cell per character with the current attributes, across the ends of
  rows. A wrap that is pending at the last column counts as the first column of the next row,
  before the write and after it. Every other cell stays, as long as the text fits the buffer.
\<close>

theorem plain_text_fills_cells:
  assumes "screen_ok sb" and "vt_on c" and "at_ground sb" and "sb_vt_vertical_margins sb = None"
    and "sb_vt_autowrap_enabled sb" and "\<not> sb_vt_insert_mode_enabled sb"
    and "0 < cx (sb_buffer_size sb)" and "0 < cy (sb_buffer_size sb)" and "list_all printable cs"
    and "next_cell_index (cx (sb_buffer_size sb)) (sb_cursor_position sb) (sb_vt_delayed_wrap_position sb) = start"
    and "start + length cs \<le> nat (cx (sb_buffer_size sb)) * nat (cy (sb_buffer_size sb))"
  shows "let sb' = v_sb (apply_text_to_screen_buffer c cs sb)
    in sb_cells sb' = take start (sb_cells sb)
         @ map (\<lambda>ch. \<lparr>cell_character = ch, cell_attributes = sb_text_attributes sb\<rparr>) cs
         @ drop (start + length cs) (sb_cells sb)
      \<and> next_cell_index (cx (sb_buffer_size sb)) (sb_cursor_position sb') (sb_vt_delayed_wrap_position sb') = start + length cs"
proof -
  let ?e = "call_env c sb" and ?v = "begin_text (call_env c sb) sb"
  note vt = begin_text_vt [OF assms(2), of sb]
  have v: "v_delayed_wrap_position ?v = sb_vt_delayed_wrap_position sb" "v_cursor ?v = sb_cursor_position sb"
    "v_attributes ?v = sb_text_attributes sb" "v_vertical_margins ?v = None" "v_autowrap ?v" "\<not> v_insert_mode ?v"
    using vt(2) assms(4-6) by (simp_all add: begin_text_def)
  have "typing ?e ?v"
    using assms(3,7,8) vt v run_ok_begin_text [OF assms(1)] by (simp add: typing_def at_ground_def)
  from type_text [OF this assms(9)] assms(7,8,10,11) vt v show ?thesis
    by (simp add: apply_text_to_screen_buffer_def run_text_def Let_def end_text_members)
qed

section \<open>Titles\<close>

lemma osc_digit:
  assumes "d < 10" and "ps_osc_param q \<le> 1000000"
  shows "osc_parameter (ucast (of_nat (48 + d) :: byte)) q =
    q\<lparr>ps_osc_param_have_digits := True, ps_osc_param := ps_osc_param q * 10 + d\<rparr>"
  using digit_char [OF assms(1)] assms(2) by (simp add: osc_parameter_def)

lemma text_loop_osc_digits:
  assumes "e_vt_processing e" and "n < 10000000"
  shows "ps_phase (parse_state v) = P_osc \<Longrightarrow> ps_osc_in_param (parse_state v) \<Longrightarrow> ps_osc_param (parse_state v) = 0 \<Longrightarrow>
    text_loop e (wide_digits n @ rest) v =
    text_loop e rest (on_parse (\<lambda>ps. ps\<lparr>ps_osc_param_have_digits := True, ps_osc_param := n\<rparr>) v)"
  using assms(2)
proof (induction n arbitrary: rest rule: dec_digits.induct)
  case (1 n)
  have one: "text_loop e (ucast (of_nat (48 + d) :: byte) # rest) u =
      text_loop e rest (on_parse (\<lambda>ps. ps\<lparr>ps_osc_param_have_digits := True, ps_osc_param := ps_osc_param ps * 10 + d\<rparr>) u)"
    if "d < 10" "ps_phase (parse_state u) = P_osc" "ps_osc_in_param (parse_state u)" "ps_osc_param (parse_state u) \<le> 1000000" for d u rest
  proof -
    have "text_step e (ucast (of_nat (48 + d) :: byte)) u = (True, on_parse (osc_parameter (ucast (of_nat (48 + d) :: byte))) u)"
      using that assms(1) by (simp add: text_step_def phase_osc_def)
    moreover have "on_parse (osc_parameter (ucast (of_nat (48 + d) :: byte))) u =
        on_parse (\<lambda>ps. ps\<lparr>ps_osc_param_have_digits := True, ps_osc_param := ps_osc_param ps * 10 + d\<rparr>) u"
      unfolding on_parse_def osc_digit [OF that(1,4)] ..
    ultimately show ?thesis by (simp add: text_loop_consume)
  qed
  show ?case
  proof (cases "n < 10")
    case True
    then show ?thesis using one [of n v rest] 1(2-) by (simp add: dec_digits_one on_parse_def)
  next
    case False
    let ?u = "on_parse (\<lambda>ps. ps\<lparr>ps_osc_param_have_digits := True, ps_osc_param := n div 10\<rparr>) v"
    have "text_loop e (wide_digits n @ rest) v = text_loop e (ucast (of_nat (48 + n mod 10) :: byte) # rest) ?u"
      using 1(1) [OF False] 1(2-) by (simp add: dec_digits_more [OF False])
    then show ?thesis using one [of "n mod 10" ?u rest] 1(2-) by (simp add: on_parse_def)
  qed
qed

text \<open>The payload is collected up to its limit of 4096 characters.\<close>

definition payload_char :: "wchar \<Rightarrow> bool" where
  "payload_char ch \<longleftrightarrow> ch \<noteq> 0x07 \<and> ch \<noteq> 0x9C \<and> ch \<noteq> 0x1B"

lemma fold_osc_payload_limit:
  assumes "m = 4096"
  shows "ps_osc_capture_payload ps \<Longrightarrow> length (ps_osc_payload ps) \<le> m \<Longrightarrow>
    fold osc_payload cs ps = ps\<lparr>ps_osc_payload := take m (ps_osc_payload ps @ cs)\<rparr>"
proof (induction cs arbitrary: ps)
  case (Cons c cs)
  have step: "osc_payload c ps = (if length (ps_osc_payload ps) < m then ps\<lparr>ps_osc_payload := ps_osc_payload ps @ [c]\<rparr> else ps)"
    using Cons.prems(1) by (simp add: osc_payload_def assms)
  show ?case
  proof (cases "length (ps_osc_payload ps) < m")
    case True
    then show ?thesis using Cons.prems Cons.IH [of "ps\<lparr>ps_osc_payload := ps_osc_payload ps @ [c]\<rparr>"] by (simp add: step)
  next
    case False
    then have "length (ps_osc_payload ps) = m" using Cons.prems(2) by simp
    then show ?thesis using Cons.prems Cons.IH [of ps] by (simp add: step)
  qed
qed simp

lemmas fold_osc_payload = fold_osc_payload_limit [OF refl]

lemma text_loop_payload:
  assumes "e_vt_processing e"
  shows "ps_phase (parse_state v) = P_osc \<Longrightarrow> \<not> ps_osc_in_param (parse_state v) \<Longrightarrow> list_all payload_char cs \<Longrightarrow>
    text_loop e (cs @ rest) v = text_loop e rest (on_parse (fold osc_payload cs) v)"
proof (induction cs arbitrary: v)
  case (Cons c cs)
  have "text_step e c v = (True, on_parse (osc_payload c) v)"
    using Cons.prems assms by (simp add: text_step_def phase_osc_def payload_char_def)
  then have "text_loop e ((c # cs) @ rest) v = text_loop e (cs @ rest) (on_parse (osc_payload c) v)"
    by (simp add: text_loop_consume)
  also have "\<dots> = text_loop e rest (on_parse (fold osc_payload cs) (on_parse (osc_payload c) v))"
    using Cons.prems by (intro Cons.IH) (simp_all add: osc_payload_def)
  finally show ?case by simp
qed (simp add: id_def)

definition title_text :: "nat \<Rightarrow> wstring \<Rightarrow> wstring" where
  "title_text n payload = [0x1B, 0x5D] @ wide_digits n @ [0x3B] @ payload @ [0x07]"

lemma title_loop:
  assumes "e_vt_processing e" and "e_has_title_state e" and "ps_phase (parse_state v) = P_ground"
    and "n = 0 \<or> n = 1 \<or> n = 2 \<or> n = 21" and "list_all payload_char payload"
  shows "\<exists>q. ps_phase q = P_ground \<and> text_loop e (title_text n payload) v =
    (on_parse (\<lambda>_. q) v)\<lparr>v_titles := v_titles v @ [take 4096 payload]\<rparr>"
proof -
  define q0 where "q0 = reset_osc P_osc (reset_esc ((parse_state v)\<lparr>ps_phase := P_escape\<rparr>))"
  define q1 where "q1 = q0\<lparr>ps_osc_param_have_digits := True, ps_osc_param := n\<rparr>"
  define q2 where "q2 = q1\<lparr>ps_osc_action := n, ps_osc_capture_payload := True, ps_osc_in_param := False, ps_osc_payload := []\<rparr>"
  define q3 where "q3 = q2\<lparr>ps_osc_payload := take 4096 payload\<rparr>"
  have q0: "ps_phase q0 = P_osc" "ps_osc_in_param q0" "ps_osc_param q0 = 0" by (simp_all add: q0_def reset_osc_def)
  have "text_loop e (0x1B # 0x5D # cs) v = text_loop e cs (on_parse (\<lambda>_. q0) v)" for cs
    using assms(1,3)
    by (subst text_loop_consume [of e "0x1B" v "on_parse (\<lambda>ps. ps\<lparr>ps_phase := P_escape\<rparr>) v"],
        simp add: text_step_def phase_ground_def,
        subst text_loop_consume [of e "0x5D" _ "on_parse (\<lambda>_. q0) v"],
        simp_all add: text_step_def phase_escape_def q0_def, simp add: on_parse_def)
  moreover have "text_loop e (wide_digits n @ cs) (on_parse (\<lambda>_. q0) v) = text_loop e cs (on_parse (\<lambda>_. q1) v)" for cs
    using text_loop_osc_digits [OF assms(1), of n "on_parse (\<lambda>_. q0) v" cs] q0 assms(4) by (auto simp: q1_def)
  moreover have "text_loop e (0x3B # cs) (on_parse (\<lambda>_. q1) v) = text_loop e cs (on_parse (\<lambda>_. q2) v)" for cs
    using assms(1,4) q0 by (intro text_loop_consume) (auto simp: text_step_def phase_osc_def q1_def q2_def osc_parameter_def)
  moreover have "text_loop e (payload @ cs) (on_parse (\<lambda>_. q2) v) = text_loop e cs (on_parse (\<lambda>_. q3) v)" for cs
    using text_loop_payload [OF assms(1), of "on_parse (\<lambda>_. q2) v" payload cs] fold_osc_payload [of q2 payload] q0 assms(5)
    by (simp add: q2_def q1_def q3_def)
  moreover have "text_loop e [0x07] (on_parse (\<lambda>_. q3) v) = osc_dispatch e (on_parse (\<lambda>_. q3) v)"
    using assms(1) q0 by (subst text_loop_consume [of _ _ _ "osc_dispatch e (on_parse (\<lambda>_. q3) v)"])
      (simp_all add: text_step_def phase_osc_def q3_def q2_def q1_def)
  ultimately have "text_loop e (title_text n payload) v = osc_dispatch e (on_parse (\<lambda>_. q3) v)" by (simp add: title_text_def)
  moreover have "ps_osc_capture_payload q3" "ps_osc_action q3 = n" "ps_osc_payload q3 = take 4096 payload"
    by (simp_all add: q3_def q2_def)
  ultimately show ?thesis
    using assms(2,4)
    by (intro exI [of _ "reset_osc P_ground q3"]) (auto simp: osc_dispatch_def Let_def on_parse_def reset_osc_def)
qed

text \<open>
  The operating system command \<open>ESC ] n ; title BEL\<close> with \<open>n\<close> one of 0, 1, 2 and 21 sets the
  title once, to the first 4096 characters of its payload; cells and cursor stay and the parser
  is ready for the next sequence.
\<close>

theorem title_sequence:
  assumes "vt_on c" and "at_ground sb" and "c_has_title_state c" and "0 < cx (sb_buffer_size sb)" and "0 < cy (sb_buffer_size sb)"
    and "n = 0 \<or> n = 1 \<or> n = 2 \<or> n = 21" and "list_all payload_char payload"
  shows "let r = apply_text_to_screen_buffer c (title_text n payload) sb
    in v_titles r = [take 4096 payload] \<and> sb_cells (v_sb r) = sb_cells sb
      \<and> sb_cursor_position (v_sb r) = sb_cursor_position sb \<and> at_ground (v_sb r)"
proof -
  let ?e = "call_env c sb" and ?v = "begin_text (call_env c sb) sb"
  note vt = begin_text_vt [OF assms(1), of sb]
  have "e_has_title_state ?e" using assms(3) by (simp add: call_env_def)
  then obtain q where "ps_phase q = P_ground"
    "text_loop ?e (title_text n payload) ?v = (on_parse (\<lambda>_. q) ?v)\<lparr>v_titles := v_titles ?v @ [take 4096 payload]\<rparr>"
    using title_loop [OF vt(2) _ _ assms(6,7), of ?v] assms(2) vt(1) by (auto simp: at_ground_def)
  moreover have "v_titles ?v = []" "v_cursor ?v = sb_cursor_position sb" by (simp_all add: begin_text_def)
  ultimately show ?thesis
    using assms(4,5) vt(1)
    by (simp add: apply_text_to_screen_buffer_def run_text_def Let_def end_text_members at_ground_def)
qed

section \<open>Writes in pieces\<close>

text \<open>
  C20. However a text is cut into pieces, writing the pieces one after the other gives the screen
  that one write of the whole text gives: the same cells, cursor, attributes, margins, modes,
  saved state and parser state, so that a control sequence may be split anywhere. The window may
  differ, and the text must not switch between the main and the alternate screen. Virtual
  terminal processing is on, and the allocations of the scrolls succeed.
\<close>

theorem writes_in_pieces:
  assumes "screen_ok sb" and "0 < cx (sb_buffer_size sb)" and "0 < cy (sb_buffer_size sb)"
    and "c_output_mode c AND 0x0004 \<noteq> 0" and "c_mem c = (\<lambda>_. True)"
    and "v_switches (run_text c (concat pieces) sb) = 0"
  shows "screen_view (v_sb (apply_text_to_screen_buffer c (concat pieces) sb)) =
    screen_view (foldl (\<lambda>sb piece. v_sb (apply_text_to_screen_buffer c piece sb)) sb pieces)"
  using assms
proof (induction pieces arbitrary: sb)
  case Nil
  then show ?case by (simp add: write_nothing)
next
  case (Cons p ps)
  have none: "v_switches (run_text c (p @ concat ps) sb) = 0" using Cons.prems(6) by simp
  note w = write_append [OF Cons.prems(1-5) none]
  have "screen_view (write_text c (write_text c sb p) (concat ps)) = screen_view (foldl (write_text c) (write_text c sb p) ps)"
    using Cons.prems w(2) by (intro Cons.IH) (simp_all add: apply_text_ok)
  with w(1) show ?case by simp
qed

section \<open>A concrete screen\<close>

text \<open>A screen of three columns and two rows and a call with all modes on.\<close>

definition vt_call :: VtCall where
  "vt_call = \<lparr>c_output_mode = 0x0007, c_has_title_state = True, c_answers_queries = True, c_mem = (\<lambda>_. True)\<rparr>"

lemma vt_call_facts: "vt_on vt_call" "c_has_title_state vt_call" "c_answers_queries vt_call" "c_mem vt_call = (\<lambda>_. True)"
  by (simp_all add: vt_call_def vt_on_def)

lemma small_screen_members:
  "sb_vt_origin_mode_enabled small_screen = False" "sb_vt_insert_mode_enabled small_screen = False"
  "sb_vt_autowrap_enabled small_screen = True" "sb_vt_vertical_margins small_screen = None"
  "sb_cursor_position small_screen = coord0" "sb_vt_delayed_wrap_position small_screen = None"
  "sb_text_attributes small_screen = 7" "sb_default_text_attributes small_screen = 7"
  "sb_window_rect small_screen = \<lparr>r_left = 0, r_top = 0, r_right = 2, r_bottom = 1\<rparr>"
  "sb_vt_output_parse_state small_screen = initial_parse_state"
  by (simp_all add: small_screen_def ScreenBuffer_ctor_def default_settings_def Let_def clamp_cursor_axis_def fit_extent_def
      fit_origin_def to_short_id)

lemma small_screen_vt: "screen_ok small_screen" "at_ground small_screen"
  using small_screen_facts(1)
  by (simp_all add: screen_ok_def at_ground_def small_screen_members) (simp add: initial_parse_state_def)

lemmas small_screen = small_screen_facts small_screen_members small_screen_vt vt_call_facts

theorem cursor_position_sequence_witness:
  "sb_cursor_position (v_sb (apply_text_to_screen_buffer vt_call (csi_text False [2, 3] 0x48) small_screen)) = \<lparr>cx = 2, cy = 1\<rparr>"
  using cursor_position_sequence [of small_screen vt_call 2 3] by (simp add: small_screen Let_def)

theorem cursor_position_report_witness:
  "map (map ucast) (v_injected (apply_text_to_screen_buffer vt_call (csi_text False [6] 0x6E) small_screen)) =
    [csi_text False [1, 1] 0x52]"
  using cursor_position_report [of small_screen vt_call 1 1] by (simp add: small_screen Let_def)

theorem title_sequence_witness:
  "v_titles (apply_text_to_screen_buffer vt_call (title_text 2 [0x68, 0x69]) small_screen) = [[0x68, 0x69]]"
proof -
  have "take 4096 [0x68, 0x69] = ([0x68, 0x69] :: wstring)" by (rule take_all) simp
  then show ?thesis
    using title_sequence [of vt_call small_screen 2 "[0x68, 0x69]"] by (simp add: small_screen Let_def payload_char_def)
qed

theorem plain_text_fills_cells_witness:
  "map cell_character (sb_cells (v_sb (apply_text_to_screen_buffer vt_call [0x41, 0x42, 0x43, 0x44] small_screen))) =
    [0x41, 0x42, 0x43, 0x44, 0x20, 0x20]"
proof -
  have two: "replicate 2 x = [x, x]" for x :: wchar by (simp add: numeral_2_eq_2)
  have "list_all printable [0x41, 0x42, 0x43, 0x44]" by (simp add: printable_def)
  moreover have "next_cell_index 3 coord0 None = 0" by (simp add: next_cell_index_def)
  ultimately show ?thesis
    using plain_text_fills_cells [of small_screen vt_call "[0x41, 0x42, 0x43, 0x44]" 0] by (simp add: small_screen Let_def two)
qed

theorem csi_text_round_trip_witness:
  "\<exists>q. ps_csi q = csi_parsed False [2, 3] 0x48 \<and>
    text_loop (call_env vt_call small_screen) (csi_text False [2, 3] 0x48) (begin_text (call_env vt_call small_screen) small_screen) =
    on_parse (reset_csi P_ground) (apply_csi (call_env vt_call small_screen) (csi_parsed False [2, 3] 0x48)
      (on_parse (\<lambda>_. q) (begin_text (call_env vt_call small_screen) small_screen)))"
  by (rule csi_text_round_trip)
    (use small_screen_vt begin_text_vt [OF vt_call_facts(1), of small_screen]
      in \<open>simp_all add: at_ground_def is_final_def csi_text_def dec_digits_one\<close>)

text \<open>A letter and a cursor position, cut inside the escape and inside the parameters.\<close>

theorem writes_in_pieces_witness:
  "screen_view (v_sb (apply_text_to_screen_buffer vt_call [0x41, 0x1B, 0x5B, 0x32, 0x3B, 0x33, 0x48] small_screen)) =
    screen_view (foldl (\<lambda>sb piece. v_sb (apply_text_to_screen_buffer vt_call piece sb)) small_screen
      [[0x41, 0x1B], [0x5B, 0x32, 0x3B], [0x33, 0x48]])"
proof -
  let ?e = "call_env vt_call small_screen" and ?v = "begin_text (call_env vt_call small_screen) small_screen"
  note vt = begin_text_vt [OF vt_call_facts(1), of small_screen]
  let ?u = "write_printable ?e 0x41 ?v"
  have "text_step ?e 0x41 ?v = (True, ?u)"
    by (rule text_step_printable) (use small_screen vt in \<open>simp_all add: at_ground_def printable_def\<close>)
  then have one: "text_loop ?e (0x41 # csi_text False [2, 3] 0x48) ?v = text_loop ?e (csi_text False [2, 3] 0x48) ?u"
    by (rule text_loop_consume)
  have start: "typing ?e ?v"
    using small_screen vt run_ok_begin_text [of small_screen vt_call] by (simp add: typing_def at_ground_def begin_text_def)
  have "typing ?e ?u"
    by (rule type_character(1) [OF start]) (simp add: vt small_screen begin_text_def next_cell_index_def)
  then have "ps_phase (parse_state ?u) = P_ground" by (simp add: typing_def)
  with csi_sequence [of ?e ?u "[2, 3]" False "0x48" "[]"] vt
  obtain q where "text_loop ?e (csi_text False [2, 3] 0x48) ?u =
      on_parse (reset_csi P_ground) (apply_csi ?e (csi_parsed False [2, 3] 0x48) (on_parse (\<lambda>_. q) ?u))"
    by (auto simp: is_final_def csi_text_def dec_digits_one)
  then have "v_switches (run_text vt_call (0x41 # csi_text False [2, 3] 0x48) small_screen) = v_switches ?v"
    by (simp add: run_text_def one apply_csi_cup)
  moreover have "0x41 # csi_text False [2, 3] 0x48 = concat [[0x41, 0x1B], [0x5B, 0x32, 0x3B], [0x33, 0x48]]"
    by (simp add: csi_text_def dec_digits_one)
  moreover have "v_switches ?v = 0" by (simp add: begin_text_def)
  ultimately show ?thesis
    using writes_in_pieces [of small_screen vt_call "[[0x41, 0x1B], [0x5B, 0x32, 0x3B], [0x33, 0x48]]"] small_screen
    by (simp add: vt_on_def)
qed

end
