(* ===== verification/Vt_Scrolling.thy ===== *)
theory Vt_Scrolling
  imports Vt_Sequences
begin

text \<open>
  Scrolling regions and erasing: what the line feeds, the scroll and line commands and the erase
  commands do to the cells, the reset of the terminal, and the safety of every interleaving of
  writes and direct calls.
\<close>

section \<open>Erasing a run\<close>

lemma coord_in_range_run:
  "run_ok e v \<Longrightarrow> 0 \<le> x \<Longrightarrow> x < cx (e_size e) \<Longrightarrow> 0 \<le> y \<Longrightarrow> y < cy (e_size e) \<Longrightarrow> coord_in_range \<lparr>cx = x, cy = y\<rparr> (v_sb v)"
proof -
  assume run: "run_ok e v" and r: "0 \<le> x" "x < cx (e_size e)" "0 \<le> y" "y < cy (e_size e)"
  note b = run_okD [OF run]
  then have "length (sb_cells (v_sb v)) = nat (cx (e_size e)) * nat (cy (e_size e))" by (simp add: sb_ok_def cells_ok_def)
  then have "sb_cells (v_sb v) \<noteq> []" using b(1,2) by auto
  with r b show ?thesis by (simp add: coord_in_range_def)
qed

lemma run_ok_cells_length: "run_ok e v \<Longrightarrow> length (sb_cells (v_sb v)) = nat (cx (e_size e)) * nat (cy (e_size e))"
  using run_okD(9,10) [of e v] by (simp add: sb_ok_def cells_ok_def)

lemma fill_run_cells:
  assumes "run_ok e v" and "0 \<le> x" "x < cx (e_size e)" "0 \<le> y" "y < cy (e_size e)" and "0 < n"
    and "k = nat y * nat (cx (e_size e)) + nat x" and "i < nat (cx (e_size e)) * nat (cy (e_size e))"
  shows "sb_cells (v_sb (fill_run \<lparr>cx = x, cy = y\<rparr> ch a n v)) ! i =
    (if k \<le> i \<and> i < k + n then \<lparr>cell_character = ch, cell_attributes = a\<rparr> else sb_cells (v_sb v) ! i)"
proof -
  let ?p = "\<lparr>cx = x, cy = y\<rparr>"
  note b = run_okD [OF assms(1)]
  have rng: "coord_in_range ?p (v_sb v)" using assms by (intro coord_in_range_run)
  have len: "length (sb_cells (v_sb v)) = nat (cx (e_size e)) * nat (cy (e_size e))" by (rule run_ok_cells_length [OF assms(1)])
  have lin: "linear_index ?p (v_sb v) = k" using b(10) assms(7) by (simp add: linear_index_def)
  obtain m1 s1 where w1: "fill_output_characters ?p ch n (v_sb v) = (m1, s1)" by (rule prod.exhaust)
  have co: "cells_only (v_sb v) s1" using cells_only_run_ops(1) [of "v_sb v" ?p ch n] by (simp add: w1)
  have "sb_ok s1" using sb_ok_cells_only [OF _ co] b(9) by simp
  obtain m2 s2 where w2: "fill_output_attributes ?p a n s1 = (m2, s2)" by (rule prod.exhaust)
  have "sb_cells s1 ! i = (if k \<le> i \<and> i - k < n then (sb_cells (v_sb v) ! i)\<lparr>cell_character := ch\<rparr> else sb_cells (v_sb v) ! i)"
    using write_run_spec(2) [OF b(9) rng assms(6) w1 [unfolded fill_output_characters_def], of i] len assms(8) by (simp add: lin)
  moreover have "sb_cells s2 ! i = (if k \<le> i \<and> i - k < n then (sb_cells s1 ! i)\<lparr>cell_attributes := a\<rparr> else sb_cells s1 ! i)"
    using write_run_spec(2) [OF \<open>sb_ok s1\<close> _ assms(6) w2 [unfolded fill_output_attributes_def], of i] len assms(8) rng
    by (simp add: lin linear_index_cells_only [OF co] coord_in_range_cells_only [OF co] cells_only_frame [OF co])
  ultimately show ?thesis by (auto simp: fill_run_def w1 w2)
qed

section \<open>Regions of rows\<close>

text \<open>
  The specification: rows \<open>tp\<close> to \<open>bt\<close> move up by \<open>k\<close> (down when \<open>k\<close> is negative), the vacated rows
  are blank, all other rows stay.
\<close>

definition region_shift :: "int \<Rightarrow> int \<Rightarrow> int \<Rightarrow> ScreenCell \<Rightarrow> (int \<Rightarrow> int \<Rightarrow> ScreenCell) \<Rightarrow> int \<Rightarrow> int \<Rightarrow> ScreenCell" where
  "region_shift tp bt k blank old x y =
    (if tp \<le> y \<and> y \<le> bt then (if tp \<le> y + k \<and> y + k \<le> bt then old x (y + k) else blank) else old x y)"

abbreviation blank_cell :: "VtRun \<Rightarrow> ScreenCell" where
  "blank_cell v \<equiv> \<lparr>cell_character = 0x20, cell_attributes = v_attributes v\<rparr>"

text \<open>Filling whole rows is a shift by their number.\<close>

lemma fill_rows:
  assumes "run_ok e v" and "0 \<le> tp" "tp \<le> bt" "bt < cy (e_size e)" and "0 \<le> x" "x < cx (e_size e)" "0 \<le> y" "y < cy (e_size e)"
  shows "cell_at (v_sb (fill_run \<lparr>cx = 0, cy = tp\<rparr> ch a (nat (cx (e_size e)) * nat (bt - tp + 1)) v)) x y =
    (if tp \<le> y \<and> y \<le> bt then \<lparr>cell_character = ch, cell_attributes = a\<rparr> else cell_at (v_sb v) x y)"
proof -
  note b = run_okD [OF assms(1)]
  let ?w = "nat (cx (e_size e))" and ?i = "nat y * nat (cx (e_size e)) + nat x"
  have sz: "sb_buffer_size (v_sb (fill_run \<lparr>cx = 0, cy = tp\<rparr> ch a n v)) = e_size e" for n
    using run_okD(10) [OF run_ok_fill_run [OF assms(1)]] by simp
  have x: "nat x < ?w" using assms(5,6) by simp
  have lt: "?i < ?w * nat (cy (e_size e))" using grid_index_less [OF x, of "nat y" "nat (cy (e_size e))"] assms(7,8) by (simp add: mult.commute)
  have "nat tp + nat (bt - tp + 1) = nat (bt + 1)" using assms(2,3) by simp
  then have "nat tp * ?w + ?w * nat (bt - tp + 1) = nat (bt + 1) * ?w" by (metis add_mult_distrib mult.commute)
  moreover have "nat tp * ?w \<le> ?i \<longleftrightarrow> tp \<le> y" "?i < nat (bt + 1) * ?w \<longleftrightarrow> y \<le> bt"
    using grid_rows [OF x] assms(2,3,7) by (simp_all add: nat_le_eq_zle)
  ultimately show ?thesis
    using fill_run_cells [OF assms(1), of 0 tp "?w * nat (bt - tp + 1)" "nat tp * ?w" ?i ch a] assms b lt
    by (simp add: cell_at_def sz)
qed

text \<open>
  The scroll of the remaining rows of a region: a row is filled only if it belongs to the rows
  that moved, so that the rows between the old and the new place stay when more than half of the
  region is vacated.
\<close>

lemma scroll_rows:
  assumes "run_ok e v" and "e_mem e (v_allocs v)" and "0 \<le> tp" "bt < cy (e_size e)" and "tp \<le> st" "st \<le> sb" "sb \<le> bt"
    and "0 \<le> x" "x < cx (e_size e)" "0 \<le> y" "y < cy (e_size e)" and "right = cx (e_size e) - 1" and "k = st - dt"
  shows "cell_at (v_sb (scroll_rect e \<lparr>r_left = 0, r_top = st, r_right = right, r_bottom = sb\<rparr>
      \<lparr>r_left = 0, r_top = tp, r_right = right, r_bottom = bt\<rparr> \<lparr>cx = 0, cy = dt\<rparr> v)) x y =
    (if tp \<le> y \<and> y \<le> bt then (if st \<le> y + k \<and> y + k \<le> sb then cell_at (v_sb v) x (y + k)
       else if st \<le> y \<and> y \<le> sb then blank_cell v else cell_at (v_sb v) x y)
     else cell_at (v_sb v) x y)"
proof -
  let ?r = "\<lparr>r_left = 0, r_top = st, r_right = right, r_bottom = sb\<rparr>"
  note b = run_okD [OF assms(1)]
  have "coord_in_range (rect_top_left ?r) (v_sb v)" "coord_in_range (rect_bottom_right ?r) (v_sb v)"
    using assms b coord_in_range_run [OF assms(1), of 0 st] coord_in_range_run [OF assms(1), of right sb]
    by (simp_all add: rect_top_left_def rect_bottom_right_def)
  moreover have "coord_in_range \<lparr>cx = x, cy = y\<rparr> (v_sb v)" using assms by (intro coord_in_range_run)
  ultimately show ?thesis
    using scroll_block [OF b(9), of ?r x y "\<lparr>cx = x, cy = y + k\<rparr>" "\<lparr>cx = 0, cy = dt\<rparr>"
        "\<lparr>r_left = 0, r_top = tp, r_right = right, r_bottom = bt\<rparr>" "0x20" "v_attributes v"] assms b
    by (simp add: scroll_rect_def rect_contains_def cell_at_def)
qed

text \<open>A shift by a count: the whole region is filled, or the rest of it is scrolled.\<close>

definition half_or_all :: "nat \<Rightarrow> int \<Rightarrow> bool" where
  "half_or_all n height \<longleftrightarrow> 2 * int n \<le> height \<or> height \<le> int n"

lemma shift_up_rows:
  assumes "run_ok e v" and "e_mem e (v_allocs v)" and "0 \<le> tp" "tp \<le> bt" "bt < cy (e_size e)" and "1 \<le> n"
    and "0 \<le> x" "x < cx (e_size e)" "0 \<le> y" "y < cy (e_size e)"
    and u: "u = (if n \<ge> nat (bt - tp + 1) then fill_run \<lparr>cx = 0, cy = tp\<rparr> 0x20 (v_attributes v) (nat (cx (e_size e)) * nat (bt - tp + 1)) v
      else scroll_rect e \<lparr>r_left = 0, r_top = to_short (tp + to_long (int n)), r_right = to_short (cx (e_size e) - 1), r_bottom = bt\<rparr>
        \<lparr>r_left = 0, r_top = tp, r_right = to_short (cx (e_size e) - 1), r_bottom = bt\<rparr> \<lparr>cx = 0, cy = tp\<rparr> v)"
  shows "cell_at (v_sb u) x y =
    (if tp \<le> y \<and> y \<le> bt then (if y + int n \<le> bt then cell_at (v_sb v) x (y + int n)
       else if tp + int n \<le> y \<or> bt - tp < int n then blank_cell v else cell_at (v_sb v) x y)
     else cell_at (v_sb v) x y)"
proof (cases "n \<ge> nat (bt - tp + 1)")
  case True
  then have "\<not> y + int n \<le> bt" if "tp \<le> y" using that by linarith
  moreover have "bt - tp < int n" using True by linarith
  ultimately show ?thesis using True fill_rows [OF assms(1,3-5,7-10), of "0x20" "v_attributes v"] by (auto simp: u)
next
  case False
  note b = run_okD [OF assms(1)]
  have n: "tp + int n \<le> bt" using False by linarith
  have "to_short (tp + to_long (int n)) = tp + int n" "to_short (cx (e_size e) - 1) = cx (e_size e) - 1"
    using n assms(3-5) b by (simp_all add: to_long_id to_short_id)
  then have "u = scroll_rect e \<lparr>r_left = 0, r_top = tp + int n, r_right = cx (e_size e) - 1, r_bottom = bt\<rparr>
      \<lparr>r_left = 0, r_top = tp, r_right = cx (e_size e) - 1, r_bottom = bt\<rparr> \<lparr>cx = 0, cy = tp\<rparr> v"
    using False by (simp add: u)
  moreover note scroll_rows [OF assms(1,2,3,5), of "tp + int n" bt x y "cx (e_size e) - 1" "int n" tp]
  moreover have "tp + int n \<le> y + int n \<longleftrightarrow> tp \<le> y" "bt - tp < int n \<longleftrightarrow> False" using n by simp_all
  ultimately show ?thesis using n assms(7-10) by simp
qed

lemma shift_down_rows:
  assumes "run_ok e v" and "e_mem e (v_allocs v)" and "0 \<le> tp" "tp \<le> bt" "bt < cy (e_size e)" and "1 \<le> n"
    and "0 \<le> x" "x < cx (e_size e)" "0 \<le> y" "y < cy (e_size e)"
    and u: "u = (if n \<ge> nat (bt - tp + 1) then fill_run \<lparr>cx = 0, cy = tp\<rparr> 0x20 (v_attributes v) (nat (cx (e_size e)) * nat (bt - tp + 1)) v
      else scroll_rect e \<lparr>r_left = 0, r_top = tp, r_right = to_short (cx (e_size e) - 1), r_bottom = to_short (bt - to_long (int n))\<rparr>
        \<lparr>r_left = 0, r_top = tp, r_right = to_short (cx (e_size e) - 1), r_bottom = bt\<rparr> \<lparr>cx = 0, cy = to_short (tp + to_long (int n))\<rparr> v)"
  shows "cell_at (v_sb u) x y =
    (if tp \<le> y \<and> y \<le> bt then (if tp \<le> y - int n then cell_at (v_sb v) x (y - int n)
       else if y \<le> bt - int n \<or> bt - tp < int n then blank_cell v else cell_at (v_sb v) x y)
     else cell_at (v_sb v) x y)"
proof (cases "n \<ge> nat (bt - tp + 1)")
  case True
  then have "\<not> tp \<le> y - int n" if "y \<le> bt" using that by linarith
  moreover have "bt - tp < int n" using True by linarith
  ultimately show ?thesis using True fill_rows [OF assms(1,3-5,7-10), of "0x20" "v_attributes v"] by (auto simp: u)
next
  case False
  note b = run_okD [OF assms(1)]
  have n: "tp + int n \<le> bt" using False by linarith
  have "to_short (tp + to_long (int n)) = tp + int n" "to_short (bt - to_long (int n)) = bt - int n"
    "to_short (cx (e_size e) - 1) = cx (e_size e) - 1"
    using n assms(3-5) b by (simp_all add: to_long_id to_short_id)
  then have u': "u = scroll_rect e \<lparr>r_left = 0, r_top = tp, r_right = cx (e_size e) - 1, r_bottom = bt - int n\<rparr>
      \<lparr>r_left = 0, r_top = tp, r_right = cx (e_size e) - 1, r_bottom = bt\<rparr> \<lparr>cx = 0, cy = tp + int n\<rparr> v"
    using False by (simp add: u)
  have "cell_at (v_sb u) x y =
    (if tp \<le> y \<and> y \<le> bt then (if tp \<le> y + - int n \<and> y + - int n \<le> bt - int n then cell_at (v_sb v) x (y + - int n)
       else if tp \<le> y \<and> y \<le> bt - int n then blank_cell v else cell_at (v_sb v) x y)
     else cell_at (v_sb v) x y)"
    unfolding u' using n assms(4-10) by (intro scroll_rows assms) simp_all
  moreover have "\<not> bt - tp < int n" "y + - int n = y - int n" "y - int n \<le> bt - int n \<longleftrightarrow> y \<le> bt" using n by simp_all
  ultimately show ?thesis by (auto simp only: split: if_split)
qed

text \<open>The region commands are such shifts.\<close>

lemma count_param_pos: "1 \<le> count_param i csi"
  by (simp add: count_param_def Let_def)

lemma scroll_commands:
  assumes "run_ok e v" and "resolve_vertical_region e v = (tp, bt)" and "tp < bt"
  shows "csi_final csi = 0x53 \<Longrightarrow> csi_scroll e csi v = scroll_region_up e tp bt (count_param 0 csi) v"
    and "csi_final csi = 0x54 \<Longrightarrow> csi_scroll e csi v = scroll_region_down e tp bt (count_param 0 csi) v"
    and "1 \<le> n \<Longrightarrow> scroll_region_up e tp bt n v = (if n \<ge> nat (bt - tp + 1)
      then fill_run \<lparr>cx = 0, cy = tp\<rparr> 0x20 (v_attributes v) (nat (cx (e_size e)) * nat (bt - tp + 1)) v
      else scroll_rect e \<lparr>r_left = 0, r_top = to_short (tp + to_long (int n)), r_right = to_short (cx (e_size e) - 1), r_bottom = bt\<rparr>
        \<lparr>r_left = 0, r_top = tp, r_right = to_short (cx (e_size e) - 1), r_bottom = bt\<rparr> \<lparr>cx = 0, cy = tp\<rparr> v)"
    and "1 \<le> n \<Longrightarrow> scroll_region_down e tp bt n v = (if n \<ge> nat (bt - tp + 1)
      then fill_run \<lparr>cx = 0, cy = tp\<rparr> 0x20 (v_attributes v) (nat (cx (e_size e)) * nat (bt - tp + 1)) v
      else scroll_rect e \<lparr>r_left = 0, r_top = tp, r_right = to_short (cx (e_size e) - 1), r_bottom = to_short (bt - to_long (int n))\<rparr>
        \<lparr>r_left = 0, r_top = tp, r_right = to_short (cx (e_size e) - 1), r_bottom = bt\<rparr> \<lparr>cx = 0, cy = to_short (tp + to_long (int n))\<rparr> v)"
proof -
  have r: "\<not> (cx (e_size e) \<le> 0 \<or> cy (e_size e) \<le> 1)" "\<not> (tp < 0 \<or> bt < tp \<or> bt \<ge> cy (e_size e))" "\<not> nat (bt - tp + 1) \<le> 1"
    using region_bounds [OF assms(1,2)] run_okD(1) [OF assms(1)] assms(3) by simp_all
  then show "1 \<le> n \<Longrightarrow> scroll_region_up e tp bt n v = (if n \<ge> nat (bt - tp + 1)
      then fill_run \<lparr>cx = 0, cy = tp\<rparr> 0x20 (v_attributes v) (nat (cx (e_size e)) * nat (bt - tp + 1)) v
      else scroll_rect e \<lparr>r_left = 0, r_top = to_short (tp + to_long (int n)), r_right = to_short (cx (e_size e) - 1), r_bottom = bt\<rparr>
        \<lparr>r_left = 0, r_top = tp, r_right = to_short (cx (e_size e) - 1), r_bottom = bt\<rparr> \<lparr>cx = 0, cy = tp\<rparr> v)"
    and "1 \<le> n \<Longrightarrow> scroll_region_down e tp bt n v = (if n \<ge> nat (bt - tp + 1)
      then fill_run \<lparr>cx = 0, cy = tp\<rparr> 0x20 (v_attributes v) (nat (cx (e_size e)) * nat (bt - tp + 1)) v
      else scroll_rect e \<lparr>r_left = 0, r_top = tp, r_right = to_short (cx (e_size e) - 1), r_bottom = to_short (bt - to_long (int n))\<rparr>
        \<lparr>r_left = 0, r_top = tp, r_right = to_short (cx (e_size e) - 1), r_bottom = bt\<rparr> \<lparr>cx = 0, cy = to_short (tp + to_long (int n))\<rparr> v)"
    unfolding scroll_region_up_def scroll_region_down_def Let_def by (simp_all only: if_False) simp_all
  show "csi_final csi = 0x53 \<Longrightarrow> csi_scroll e csi v = scroll_region_up e tp bt (count_param 0 csi) v"
    "csi_final csi = 0x54 \<Longrightarrow> csi_scroll e csi v = scroll_region_down e tp bt (count_param 0 csi) v"
    by (simp_all add: csi_scroll_def assms(2))
qed

lemma shift_spec:
  assumes "half_or_all n (bt - tp + 1)"
  shows "(if tp \<le> y \<and> y \<le> bt then (if y + int n \<le> bt then old x (y + int n)
       else if tp + int n \<le> y \<or> bt - tp < int n then blank else old x y) else old x y) = region_shift tp bt (int n) blank old x y"
    and "(if tp \<le> y \<and> y \<le> bt then (if tp \<le> y - int n then old x (y - int n)
       else if y \<le> bt - int n \<or> bt - tp < int n then blank else old x y) else old x y) = region_shift tp bt (- int n) blank old x y"
  using assms by (auto simp: region_shift_def half_or_all_def)

lemma region_up:
  assumes "run_ok e v" and "e_mem e (v_allocs v)" and "resolve_vertical_region e v = (tp, bt)" and "tp < bt" and "1 \<le> n"
    and "0 \<le> x" "x < cx (e_size e)" "0 \<le> y" "y < cy (e_size e)"
  shows "cell_at (v_sb (scroll_region_up e tp bt n v)) x y =
    (if tp \<le> y \<and> y \<le> bt then (if y + int n \<le> bt then cell_at (v_sb v) x (y + int n)
       else if tp + int n \<le> y \<or> bt - tp < int n then blank_cell v else cell_at (v_sb v) x y)
     else cell_at (v_sb v) x y)"
  by (rule shift_up_rows [OF assms(1,2) _ _ _ assms(5-9) scroll_commands(3) [OF assms(1,3,4,5)]])
    (use region_bounds [OF assms(1,3)] assms(4) in simp_all)

lemma region_down:
  assumes "run_ok e v" and "e_mem e (v_allocs v)" and "resolve_vertical_region e v = (tp, bt)" and "tp < bt" and "1 \<le> n"
    and "0 \<le> x" "x < cx (e_size e)" "0 \<le> y" "y < cy (e_size e)"
  shows "cell_at (v_sb (scroll_region_down e tp bt n v)) x y =
    (if tp \<le> y \<and> y \<le> bt then (if tp \<le> y - int n then cell_at (v_sb v) x (y - int n)
       else if y \<le> bt - int n \<or> bt - tp < int n then blank_cell v else cell_at (v_sb v) x y)
     else cell_at (v_sb v) x y)"
  by (rule shift_down_rows [OF assms(1,2) _ _ _ assms(5-9) scroll_commands(4) [OF assms(1,3,4,5)]])
    (use region_bounds [OF assms(1,3)] assms(4) in simp_all)

text \<open>Insert and delete line work on the rows from the cursor to the bottom of the region.\<close>

lemma line_commands:
  assumes "run_ok e v" and "e_mem e (v_allocs v)" and "resolve_vertical_region e v = (tp, bt)"
    and "row = cy (v_cursor v)" and "tp \<le> row" "row \<le> bt" and "n = count_param 0 csi"
    and "0 \<le> x" "x < cx (e_size e)" "0 \<le> y" "y < cy (e_size e)"
  shows "cell_at (v_sb (csi_dl e csi v)) x y =
    (if row \<le> y \<and> y \<le> bt then (if y + int n \<le> bt then cell_at (v_sb v) x (y + int n)
       else if row + int n \<le> y \<or> bt - row < int n then blank_cell v else cell_at (v_sb v) x y)
     else cell_at (v_sb v) x y)"
    and "cell_at (v_sb (csi_il e csi v)) x y =
    (if row \<le> y \<and> y \<le> bt then (if row \<le> y - int n then cell_at (v_sb v) x (y - int n)
       else if y \<le> bt - int n \<or> bt - row < int n then blank_cell v else cell_at (v_sb v) x y)
     else cell_at (v_sb v) x y)"
proof -
  have row: "0 \<le> row" and bt: "bt < cy (e_size e)" and n: "1 \<le> n"
    using region_bounds [OF assms(1,3)] assms(5) count_param_pos [of 0 csi] assms(7) by simp_all
  have d: "csi_dl e csi v = (if n \<ge> nat (bt - row + 1)
      then fill_run \<lparr>cx = 0, cy = row\<rparr> 0x20 (v_attributes v) (nat (cx (e_size e)) * nat (bt - row + 1)) v
      else scroll_rect e \<lparr>r_left = 0, r_top = to_short (row + to_long (int n)), r_right = to_short (cx (e_size e) - 1), r_bottom = bt\<rparr>
        \<lparr>r_left = 0, r_top = row, r_right = to_short (cx (e_size e) - 1), r_bottom = bt\<rparr> \<lparr>cx = 0, cy = row\<rparr> v)"
    using assms(5,6) unfolding csi_dl_def assms(3,4,7) by (simp add: Let_def)
  show "cell_at (v_sb (csi_dl e csi v)) x y =
    (if row \<le> y \<and> y \<le> bt then (if y + int n \<le> bt then cell_at (v_sb v) x (y + int n)
       else if row + int n \<le> y \<or> bt - row < int n then blank_cell v else cell_at (v_sb v) x y)
     else cell_at (v_sb v) x y)"
    by (rule shift_up_rows [OF assms(1,2) row assms(6) bt n assms(8-11) d])
  have i: "csi_il e csi v = (if n \<ge> nat (bt - row + 1)
      then fill_run \<lparr>cx = 0, cy = row\<rparr> 0x20 (v_attributes v) (nat (cx (e_size e)) * nat (bt - row + 1)) v
      else scroll_rect e \<lparr>r_left = 0, r_top = row, r_right = to_short (cx (e_size e) - 1), r_bottom = to_short (bt - to_long (int n))\<rparr>
        \<lparr>r_left = 0, r_top = row, r_right = to_short (cx (e_size e) - 1), r_bottom = bt\<rparr> \<lparr>cx = 0, cy = to_short (row + to_long (int n))\<rparr> v)"
    using assms(5,6) unfolding csi_il_def assms(3,4,7) by (simp add: Let_def)
  show "cell_at (v_sb (csi_il e csi v)) x y =
    (if row \<le> y \<and> y \<le> bt then (if row \<le> y - int n then cell_at (v_sb v) x (y - int n)
       else if y \<le> bt - int n \<or> bt - row < int n then blank_cell v else cell_at (v_sb v) x y)
     else cell_at (v_sb v) x y)"
    by (rule shift_down_rows [OF assms(1,2) row assms(6) bt n assms(8-11) i])
qed

text \<open>
  C29. The scroll commands \<open>CSI n S\<close> and \<open>CSI n T\<close>, the line commands \<open>CSI n L\<close> and \<open>CSI n M\<close>, and
  the line feeds at the edge of the scrolling region refine one specification: the rows of the
  region (from the cursor row, for the line commands) move by \<open>n\<close> and the vacated rows are blank
  in the current attributes; no row outside the region changes. It holds for a region of two
  rows or more and for counts that vacate at most half of the rows or all of them.
\<close>

theorem region_commands_shift:
  assumes "run_ok e v" and "e_mem e (v_allocs v)" and "resolve_vertical_region e v = (tp, bt)" and "tp < bt"
    and "0 \<le> x" "x < cx (e_size e)" "0 \<le> y" "y < cy (e_size e)" and "n = count_param 0 csi" and "row = cy (v_cursor v)"
  shows "(csi_final csi = 0x53 \<and> half_or_all n (bt - tp + 1) \<longrightarrow>
        cell_at (v_sb (csi_scroll e csi v)) x y = region_shift tp bt (int n) (blank_cell v) (cell_at (v_sb v)) x y)
    \<and> (csi_final csi = 0x54 \<and> half_or_all n (bt - tp + 1) \<longrightarrow>
        cell_at (v_sb (csi_scroll e csi v)) x y = region_shift tp bt (- int n) (blank_cell v) (cell_at (v_sb v)) x y)
    \<and> (tp \<le> row \<and> row \<le> bt \<and> half_or_all n (bt - row + 1) \<longrightarrow>
        cell_at (v_sb (csi_dl e csi v)) x y = region_shift row bt (int n) (blank_cell v) (cell_at (v_sb v)) x y
        \<and> cell_at (v_sb (csi_il e csi v)) x y = region_shift row bt (- int n) (blank_cell v) (cell_at (v_sb v)) x y)
    \<and> (row = bt \<longrightarrow> cell_at (v_sb (line_feed e v)) x y = region_shift tp bt 1 (blank_cell v) (cell_at (v_sb v)) x y)
    \<and> (row = tp \<longrightarrow> cell_at (v_sb (reverse_line_feed e v)) x y = region_shift tp bt (- 1) (blank_cell v) (cell_at (v_sb v)) x y)"
proof (intro conjI impI)
  have n: "1 \<le> n" using count_param_pos [of 0 csi] assms(9) by simp
  note up = region_up [OF assms(1-4) _ assms(5-8)] and down = region_down [OF assms(1-4) _ assms(5-8)]
  note lines = line_commands [OF assms(1-3,10) _ _ assms(9) assms(5-8)]
  have one: "half_or_all 1 (bt - tp + 1)" using assms(4) by (simp add: half_or_all_def)
  show "cell_at (v_sb (csi_scroll e csi v)) x y = region_shift tp bt (int n) (blank_cell v) (cell_at (v_sb v)) x y"
    if "csi_final csi = 0x53 \<and> half_or_all n (bt - tp + 1)"
    using that scroll_commands(1) [OF assms(1,3,4), of csi] up [OF n] shift_spec(1) [of n bt tp] by (simp add: assms(9))
  show "cell_at (v_sb (csi_scroll e csi v)) x y = region_shift tp bt (- int n) (blank_cell v) (cell_at (v_sb v)) x y"
    if "csi_final csi = 0x54 \<and> half_or_all n (bt - tp + 1)"
    using that scroll_commands(2) [OF assms(1,3,4), of csi] down [OF n] shift_spec(2) [of n bt tp] by (simp add: assms(9))
  show "cell_at (v_sb (csi_dl e csi v)) x y = region_shift row bt (int n) (blank_cell v) (cell_at (v_sb v)) x y"
    "cell_at (v_sb (csi_il e csi v)) x y = region_shift row bt (- int n) (blank_cell v) (cell_at (v_sb v)) x y"
    if "tp \<le> row \<and> row \<le> bt \<and> half_or_all n (bt - row + 1)"
    using that lines shift_spec [of n bt row] by simp_all
  show "cell_at (v_sb (line_feed e v)) x y = region_shift tp bt 1 (blank_cell v) (cell_at (v_sb v)) x y" if "row = bt"
    using that up [of 1] shift_spec(1) [OF one] assms(4,10) by (simp add: line_feed_def assms(3) Let_def)
  show "cell_at (v_sb (reverse_line_feed e v)) x y = region_shift tp bt (- 1) (blank_cell v) (cell_at (v_sb v)) x y" if "row = tp"
    using that down [of 1] shift_spec(2) [OF one] assms(4,10) by (simp add: reverse_line_feed_def assms(3) Let_def)
qed

text \<open>
  Scrolling up by more than half of the region, but not all of it, leaves rows behind: every
  row between the last row that received a moved row and the first row that was moved keeps its
  old contents, where the specification above has it blank. A region of three rows scrolled by
  two keeps its middle row.
\<close>

theorem scroll_up_leaves_rows:
  assumes "run_ok e v" and "e_mem e (v_allocs v)" and "resolve_vertical_region e v = (tp, bt)" and "tp < bt"
    and "0 \<le> x" "x < cx (e_size e)" and "bt - int n < y" and "y < tp + int n" and "tp + int n \<le> bt" and "1 \<le> n"
  shows "cell_at (v_sb (scroll_region_up e tp bt n v)) x y = cell_at (v_sb v) x y \<and> tp \<le> y \<and> y \<le> bt \<and> \<not> y + int n \<le> bt"
proof -
  have y: "tp \<le> y" "y \<le> bt" "0 \<le> y" "y < cy (e_size e)" "\<not> y + int n \<le> bt" "\<not> tp + int n \<le> y" "\<not> bt - tp < int n"
    using region_bounds [OF assms(1,3)] assms(7-9) by simp_all
  show ?thesis using region_up [OF assms(1-4,10,5,6) y(3,4)] y by simp
qed

section \<open>Erasing\<close>

lemma cursor_eta: "\<lparr>cx = cx c, cy = cy c\<rparr> = (c :: COORD)"
  by (cases c) simp

lemma csi_ed_cells:
  assumes "run_ok e v" and "i < nat (cx (e_size e)) * nat (cy (e_size e))" and "m = param_or 0 0 csi" and "m \<le> 3"
    and "k = nat (cy (v_cursor v)) * nat (cx (e_size e)) + nat (cx (v_cursor v))"
  shows "sb_cells (v_sb (csi_ed e csi v)) ! i =
    (if (m = 0 \<longrightarrow> k \<le> i) \<and> (m = 1 \<longrightarrow> i \<le> k) then blank_cell v else sb_cells (v_sb v) ! i)"
proof -
  note b = run_okD [OF assms(1)]
  let ?t = "nat (cx (e_size e)) * nat (cy (e_size e))"
  have k: "k < ?t"
    using b grid_index_less [of "nat (cx (v_cursor v))" "nat (cx (e_size e))" "nat (cy (v_cursor v))" "nat (cy (e_size e))"]
    by (simp add: assms(5) mult.commute)
  have c: "0 \<le> cx (v_cursor v)" "cx (v_cursor v) < cx (e_size e)" "0 \<le> cy (v_cursor v)" "cy (v_cursor v) < cy (e_size e)"
    using b by simp_all
  note here = fill_run_cells [OF assms(1) c, of "?t - k" k i "0x20" "v_attributes v", OF _ assms(5,2), unfolded cursor_eta]
  note start = fill_run_cells [OF assms(1) order_refl b(1) order_refl b(2), of _ 0 i "0x20" "v_attributes v", OF _ _ assms(2)]
  define t where "t = ?t"
  have "0 < t - k" "0 < t" using k unfolding t_def by linarith+
  have eq: "csi_ed e csi v = (let (origin, len) = (if m = 0 then (v_cursor v, t - k) else if m = 1 then (coord0, k + 1)
      else if m = 2 \<or> m = 3 then (coord0, t) else (coord0, 0))
    in (if len \<noteq> 0 then fill_run origin 0x20 (v_attributes v) len v else v)\<lparr>v_delayed_wrap_position := None\<rparr>)"
    using k unfolding csi_ed_def assms(3) [symmetric] assms(5) [symmetric] t_def Let_def by (simp only: if_True)
  consider "m = 0" | "m = 1" | "m = 2 \<or> m = 3" using assms(4) by linarith
  then show ?thesis
  proof cases
    case 1
    then show ?thesis using here \<open>0 < t - k\<close> assms(2) by (simp add: eq flip: t_def)
  next
    case 2
    then show ?thesis using start [of "k + 1"] by (simp add: eq less_Suc_eq_le)
  next
    case 3
    then have "m \<noteq> 0" "m \<noteq> 1" by auto
    then show ?thesis using 3 start [of t] \<open>0 < t\<close> assms(2) by (simp add: eq flip: t_def)
  qed
qed

lemma csi_el_cells:
  assumes "run_ok e v" and "0 \<le> x" "x < cx (e_size e)" "0 \<le> y" "y < cy (e_size e)" and "m = param_or 0 0 csi" and "m \<le> 2"
  shows "cell_at (v_sb (csi_el e csi v)) x y =
    (if y = cy (v_cursor v) \<and> (m = 0 \<longrightarrow> cx (v_cursor v) \<le> x) \<and> (m = 1 \<longrightarrow> x \<le> cx (v_cursor v))
     then blank_cell v else cell_at (v_sb v) x y)"
proof -
  note b = run_okD [OF assms(1)]
  let ?w = "nat (cx (e_size e))" and ?c = "v_cursor v"
  define i where "i = nat y * ?w + nat x"
  have i: "i < ?w * nat (cy (e_size e))"
    using grid_index_less [of "nat x" ?w "nat y" "nat (cy (e_size e))"] assms(2-5) by (simp add: i_def mult.commute)
  have run: "cell_at (v_sb (fill_run \<lparr>cx = x0, cy = cy ?c\<rparr> 0x20 (v_attributes v) n v)) x y =
      (if y = cy ?c \<and> x0 \<le> x \<and> x < x0 + int n then blank_cell v else cell_at (v_sb v) x y)"
    if "0 \<le> x0" "0 < n" "x0 + int n \<le> cx (e_size e)" for x0 n
  proof -
    have "nat (cy ?c) * ?w + nat x0 \<le> i \<and> i < nat (cy ?c) * ?w + nat x0 + n \<longleftrightarrow> y = cy ?c \<and> x0 \<le> x \<and> x < x0 + int n"
      using grid_row_interval [of "nat x" ?w "nat x0 + n" "nat (cy ?c)" "nat x0" "nat y"] that assms(2-5) b
      by (auto simp: i_def add.assoc)
    moreover have "sb_buffer_size (v_sb (fill_run \<lparr>cx = x0, cy = cy ?c\<rparr> 0x20 (v_attributes v) n v)) = e_size e"
      using run_okD(10) [OF run_ok_fill_run [OF assms(1)]] by simp
    ultimately show ?thesis
      using fill_run_cells [OF assms(1), of x0 "cy ?c" n "nat (cy ?c) * ?w + nat x0" i "0x20" "v_attributes v"] that b i
      by (simp add: cell_at_def i_def)
  qed
  consider "m = 0" | "m = 1" | "m = 2" using assms(7) by linarith
  then show ?thesis
  proof cases
    case 1
    have "cell_at (v_sb (csi_el e csi v)) x y = cell_at (v_sb (fill_run ?c 0x20 (v_attributes v) (?w - nat (cx ?c)) v)) x y"
      using 1 b by (simp add: csi_el_def assms(6) [symmetric] Let_def cell_at_def)
    with run [of "cx ?c" "?w - nat (cx ?c)"] 1 b assms(3) show ?thesis by (simp add: cursor_eta of_nat_diff)
  next
    case 2
    have "cell_at (v_sb (csi_el e csi v)) x y = cell_at (v_sb (fill_run \<lparr>cx = 0, cy = cy ?c\<rparr> 0x20 (v_attributes v) (nat (cx ?c) + 1) v)) x y"
      using 2 b by (simp add: csi_el_def assms(6) [symmetric] Let_def cell_at_def)
    moreover have "x < 0 + int (nat (cx ?c) + 1) \<longleftrightarrow> x \<le> cx ?c" "int (nat (cx ?c) + 1) \<le> cx (e_size e)" using b by linarith+
    moreover note run [of 0 "nat (cx ?c) + 1"]
    ultimately show ?thesis using 2 assms(2) by simp
  next
    case 3
    have "cell_at (v_sb (csi_el e csi v)) x y = cell_at (v_sb (fill_run \<lparr>cx = 0, cy = cy ?c\<rparr> 0x20 (v_attributes v) ?w v)) x y"
      using 3 b by (simp add: csi_el_def assms(6) [symmetric] Let_def cell_at_def)
    with run [of 0 ?w] 3 b assms(2,3) show ?thesis by simp
  qed
qed

text \<open>
  The erase commands clear exactly the cells they name, with spaces in the current
  attributes: \<open>CSI 0 J\<close> from the cursor to the end of the screen, \<open>CSI 1 J\<close> from the start up to and
  including the cursor, \<open>CSI 2 J\<close> and \<open>CSI 3 J\<close> everything; \<open>CSI 0 K\<close>, \<open>CSI 1 K\<close> and \<open>CSI 2 K\<close> the same
  within the cursor row. Every other cell and the cursor stay.
\<close>

theorem erase_commands:
  assumes "screen_ok sb" and "vt_on c" and "at_ground sb" and "sz = sb_buffer_size sb" and "0 < cx sz" and "0 < cy sz"
    and "0 \<le> x" "x < cx sz" "0 \<le> y" "y < cy sz"
    and "p = sb_cursor_position sb" and "blank = \<lparr>cell_character = 0x20, cell_attributes = sb_text_attributes sb\<rparr>"
    and "display = v_sb (apply_text_to_screen_buffer c (csi_text False [m] 0x4A) sb)"
    and "line = v_sb (apply_text_to_screen_buffer c (csi_text False [m] 0x4B) sb)"
  shows "(m \<le> 3 \<longrightarrow> cell_at display x y =
      (if (m = 0 \<longrightarrow> cy p < y \<or> cy p = y \<and> cx p \<le> x) \<and> (m = 1 \<longrightarrow> y < cy p \<or> y = cy p \<and> x \<le> cx p)
       then blank else cell_at sb x y) \<and> sb_cursor_position display = p)
    \<and> (m \<le> 2 \<longrightarrow> cell_at line x y =
      (if y = cy p \<and> (m = 0 \<longrightarrow> cx p \<le> x) \<and> (m = 1 \<longrightarrow> x \<le> cx p) then blank else cell_at sb x y) \<and> sb_cursor_position line = p)"
proof (cases "m \<le> 3")
  case m: True
  let ?e = "call_env c sb"
  note vt = begin_text_vt [OF assms(2), of sb]
  have run: "run_ok ?e (begin_text ?e sb)" using assms(1,4-6) by (intro run_ok_begin_text) simp_all
  have pos: "0 < cx (sb_buffer_size sb)" "0 < cy (sb_buffer_size sb)" using assms(4-6) by simp_all
  have par: "parse_ok (sb_vt_output_parse_state sb)" using assms(1) by (simp add: screen_ok_def)
  have small: "list_all (\<lambda>p. p < 10000000) [m]" using m by simp
  have written: "\<exists>v. run_ok ?e v \<and> v_cursor v = p \<and> blank_cell v = blank \<and> sb_cells (v_sb v) = sb_cells sb \<and>
      v_sb (apply_text_to_screen_buffer c (csi_text False [m] f) sb) =
      end_text sb (on_parse (reset_csi P_ground) (apply_csi ?e (csi_parsed False [m] f) v))" if fin: "is_final f" for f
  proof -
    obtain q where "parse_ok q" and d: "apply_text_to_screen_buffer c (csi_text False [m] f) sb =
      (let r = on_parse (reset_csi P_ground) (apply_csi ?e (csi_parsed False [m] f) (on_parse (\<lambda>_. q) (begin_text ?e sb)))
       in r\<lparr>v_sb := end_text sb r\<rparr>)"
      using write_csi [OF assms(2,3) pos small _ fin, of False] par by auto
    then have "run_ok ?e (on_parse (\<lambda>_. q) (begin_text ?e sb))" using run by (intro run_ok_on_parse)
    with d vt assms(11,12) show ?thesis
      by (intro exI [of _ "on_parse (\<lambda>_. q) (begin_text ?e sb)"]) (simp add: Let_def begin_text_def)
  qed
  have size: "sb_buffer_size (v_sb (apply_text_to_screen_buffer c s sb)) = sz" for s
    using apply_text_ok(2) [OF assms(1)] assms(4) by simp
  let ?i = "nat y * nat (cx sz) + nat x" and ?k = "nat (cy p) * nat (cx sz) + nat (cx p)"
  obtain v where v: "run_ok ?e v" "v_cursor v = p" "blank_cell v = blank" "sb_cells (v_sb v) = sb_cells sb"
    "display = end_text sb (on_parse (reset_csi P_ground) (csi_ed ?e (csi_parsed False [m] 0x4A) v))"
    using written [of "0x4A"] assms(13) by (auto simp: is_final_def apply_csi_def csi_parsed_def)
  obtain w where w: "run_ok ?e w" "v_cursor w = p" "blank_cell w = blank" "sb_cells (v_sb w) = sb_cells sb"
    "line = end_text sb (on_parse (reset_csi P_ground) (csi_el ?e (csi_parsed False [m] 0x4B) w))"
    using written [of "0x4B"] assms(14) by (auto simp: is_final_def apply_csi_def csi_parsed_def)
  have es: "e_size ?e = sz" using vt(3) assms(4) by simp
  have ps: "param_or 0 0 (csi_parsed False [m] f) = m" for f by (simp add: param_or_def csi_parsed_def)
  have keep: "v_cursor (csi_ed ?e csi v) = p" "v_cursor (csi_el ?e csi w) = p" for csi
    using v(2) w(2) by (simp_all add: csi_ed_def csi_el_def Let_def fill_run_def split: prod.split)
  have pb: "0 \<le> cx p" "cx p < cx sz" "0 \<le> cy p" "cy p < cy sz" using run_okD(5-8) [OF v(1)] by (simp_all add: v(2) es)
  have i: "?i < nat (cx sz) * nat (cy sz)"
    using grid_index_less [of "nat x" "nat (cx sz)" "nat y" "nat (cy sz)"] assms(7-10) by (simp add: mult.commute)
  have order: "?k \<le> ?i \<longleftrightarrow> cy p < y \<or> cy p = y \<and> cx p \<le> x" "?i \<le> ?k \<longleftrightarrow> y < cy p \<or> y = cy p \<and> x \<le> cx p"
    using pb assms(7-10) by (simp_all add: grid_lex nat_less_eq_zless eq_nat_nat_iff nat_le_eq_zle) (linarith+)
  have "m \<le> 3 \<longrightarrow> cell_at display x y =
      (if (m = 0 \<longrightarrow> cy p < y \<or> cy p = y \<and> cx p \<le> x) \<and> (m = 1 \<longrightarrow> y < cy p \<or> y = cy p \<and> x \<le> cx p) then blank else cell_at sb x y)"
  proof -
    have "sb_buffer_size display = sz" unfolding assms(13) by (rule size)
    moreover have "sb_cells display = sb_cells (v_sb (csi_ed ?e (csi_parsed False [m] 0x4A) v))" unfolding v(5) by simp
    ultimately have "cell_at display x y = sb_cells (v_sb (csi_ed ?e (csi_parsed False [m] 0x4A) v)) ! ?i"
      "cell_at sb x y = sb_cells (v_sb v) ! ?i" by (simp_all add: cell_at_def v(4) assms(4) [symmetric])
    then show ?thesis
      using csi_ed_cells [OF v(1), of ?i m "csi_parsed False [m] 0x4A" ?k] i v(2,3) by (simp add: ps es order)
  qed
  moreover have "m \<le> 2 \<longrightarrow> cell_at line x y =
      (if y = cy p \<and> (m = 0 \<longrightarrow> cx p \<le> x) \<and> (m = 1 \<longrightarrow> x \<le> cx p) then blank else cell_at sb x y)"
  proof -
    have "sb_buffer_size line = sz" unfolding assms(14) by (rule size)
    moreover have "sb_cells line = sb_cells (v_sb (csi_el ?e (csi_parsed False [m] 0x4B) w))" unfolding w(5) by simp
    ultimately have "cell_at line x y = cell_at (v_sb (csi_el ?e (csi_parsed False [m] 0x4B) w)) x y" "cell_at (v_sb w) x y = cell_at sb x y"
      using run_okD(10) [OF run_ok_csi_el [OF w(1)]] run_okD(10) [OF w(1)] by (simp_all add: cell_at_def es w(4) assms(4) [symmetric])
    then show ?thesis
      using csi_el_cells [OF w(1), of x y m "csi_parsed False [m] 0x4B"] assms(7-10) w(2,3) by (auto simp: ps es)
  qed
  ultimately show ?thesis using v(5) w(5) keep by (simp add: end_text_members)
qed simp

section \<open>The hard reset\<close>

lemma fold_copy:
  assumes "length t = length s"
  shows "fold (\<lambda>i t. t[i := s ! i]) [0..<length t] t = s"
proof -
  have "n \<le> length s \<Longrightarrow> fold (\<lambda>i t. t[i := s ! i]) [0..<n] t = take n s @ drop n t" for n
  proof (induction n)
    case (Suc n)
    then have n: "n < length s" "n < length t" using assms by simp_all
    then have "drop n t = t ! n # drop (Suc n) t" by (simp add: Cons_nth_drop_Suc)
    with Suc n show ?case by (simp add: take_Suc_conv_app_nth list_update_append)
  qed simp
  from this [of "length t"] assms show ?thesis by simp
qed

lemma end_text_shared:
  "sb_color_table (end_text sb v) = sb_color_table (v_sb v)" "sb_cursor_visible (end_text sb v) = sb_cursor_visible (v_sb v)"
  "sb_vt_vertical_margins (end_text sb v) = sb_vt_vertical_margins (v_sb v)"
proof -
  have "sb_cursor_visible (core_sb s) = sb_cursor_visible s" for s by (simp add: core_sb_def)
  from this [of "end_text sb v"] this [of "v_sb v"] show "sb_cursor_visible (end_text sb v) = sb_cursor_visible (v_sb v)"
    by (simp add: end_text_core)
  show "sb_color_table (end_text sb v) = sb_color_table (v_sb v)"
    "sb_vt_vertical_margins (end_text sb v) = sb_vt_vertical_margins (v_sb v)"
    using core_sb_fields(4,6) [of "end_text sb v"] core_sb_fields(4,6) [of "v_sb v"] by (simp_all add: end_text_core)
qed

lemma fill_run_frame [simp]:
  "v_cursor (fill_run p ch a n v) = v_cursor v" "v_attributes (fill_run p ch a n v) = v_attributes v"
  "v_autowrap (fill_run p ch a n v) = v_autowrap v" "v_origin_mode (fill_run p ch a n v) = v_origin_mode v"
  "v_insert_mode (fill_run p ch a n v) = v_insert_mode v" "v_vertical_margins (fill_run p ch a n v) = v_vertical_margins v"
  "v_delayed_wrap_position (fill_run p ch a n v) = v_delayed_wrap_position v"
  "sb_color_table (v_sb (fill_run p ch a n v)) = sb_color_table (v_sb v)"
  "sb_cursor_visible (v_sb (fill_run p ch a n v)) = sb_cursor_visible (v_sb v)"
  "parse_state (fill_run p ch a n v) = parse_state v"
proof -
  have "cells_only (v_sb v) (v_sb (fill_run p ch a n v))"
    unfolding fill_run_def by (auto intro: cells_only_trans [OF cells_only_run_ops(1) cells_only_run_ops(2)])
  then show "sb_color_table (v_sb (fill_run p ch a n v)) = sb_color_table (v_sb v)"
    "sb_cursor_visible (v_sb (fill_run p ch a n v)) = sb_cursor_visible (v_sb v)"
    "parse_state (fill_run p ch a n v) = parse_state v" by (auto simp: cells_only_def)
qed (simp_all add: fill_run_def)

text \<open>The last step of the reset fills a screen whose other members are already the defaults.\<close>

lemma hard_reset_last:
  assumes "run_ok e v" and "sb_vt_main_backup (v_sb v) = None" and "length (sb_color_table (v_sb v)) = 16"
  shows "\<exists>w. hard_reset e v = fill_run coord0 0x20 (e_default_attributes e) (screen_cells_count e) w \<and> run_ok e w
    \<and> v_cursor w = coord0 \<and> v_attributes w = e_default_attributes e \<and> v_autowrap w \<and> \<not> v_origin_mode w \<and> \<not> v_insert_mode w
    \<and> v_vertical_margins w = None \<and> v_delayed_wrap_position w = None \<and> v_switches w = v_switches v
    \<and> sb_color_table (v_sb w) = st_color_table default_settings \<and> sb_cursor_visible (v_sb w) \<and> parse_state w = parse_state v"
proof -
  let ?t = "st_color_table default_settings"
  define v2 where "v2 = v\<lparr>v_sb := set_color_table ?t (v_sb v)\<rparr>"
  define v3 where "v3 = v2\<lparr>v_sb := set_cursor_info (sb_cursor_size (v_sb v2)) True (v_sb v2)\<rparr>"
  define v4 where "v4 = v3\<lparr>v_sb := save_cursor_state coord0 (e_default_attributes e) False False (v_sb v3)\<rparr>"
  define v5 where "v5 = v4\<lparr>v_autowrap := True, v_origin_mode := False, v_insert_mode := False,
    v_delayed_wrap_position := None, v_vertical_margins := None\<rparr>"
  define v6 where "v6 = call_set_vt_vertical_margins None v5"
  define w where "w = v6\<lparr>v_attributes := e_default_attributes e, v_cursor := coord0\<rparr>"
  have "run_ok e v2" unfolding v2_def using assms(1) by (rule run_ok_screen) (use run_okD [OF assms(1)] in simp_all)
  then have "run_ok e v4" unfolding v4_def v3_def by (intro run_ok_save_cursor_state run_ok_set_cursor_info)
  then have "run_ok e v5" unfolding v5_def by (simp add: run_ok_margins)
  then have v6: "run_ok e v6" unfolding v6_def by (rule run_ok_call_set_margins) simp
  then have "run_ok e w" unfolding w_def using run_okD [OF v6] by (intro run_ok_cursor cursor_okI) simp_all
  have tab: "sb_color_table (v_sb v2) = ?t"
    using fold_copy [of "sb_color_table (v_sb v)" ?t] assms(3) by (simp add: v2_def set_color_table_def default_settings_def touch_def)
  have sb4: "sb_color_table (v_sb v4) = ?t" "sb_cursor_visible (v_sb v4)" "parse_state v4 = parse_state v"
    using tab by (simp_all add: v4_def v3_def save_cursor_state_def set_cursor_info_def Let_def touch_def)
      (simp_all add: v2_def set_color_table_def touch_def)
  have sb6: "sb_color_table (v_sb v6) = ?t" "sb_cursor_visible (v_sb v6)" "parse_state v6 = parse_state v"
    "v_autowrap v6" "\<not> v_origin_mode v6" "\<not> v_insert_mode v6" "v_delayed_wrap_position v6 = None" "v_vertical_margins v6 = None"
    using sb4 by (simp_all add: v6_def v5_def call_set_vt_vertical_margins_def set_vt_vertical_margins_def touch_def)
  have "v_switches v6 = v_switches v" by (simp add: v6_def v5_def v4_def v3_def v2_def)
  moreover have "hard_reset e v = fill_run coord0 0x20 (e_default_attributes e) (screen_cells_count e) w"
    unfolding hard_reset_def Let_def w_def v6_def v5_def v4_def v3_def v2_def by (simp add: leave_alternate_def assms(2))
  ultimately show ?thesis using sb6 \<open>run_ok e w\<close> by (intro exI [of _ w]) (simp add: w_def)
qed

text \<open>
  Outside the alternate screen the reset \<open>ESC c\<close> brings the terminal to its initial state
  whatever it was: every cell is a space in the default attributes, the cursor is at the origin
  and visible, the attributes and the colours are the defaults, autowrap is on, origin and insert
  mode are off, no margins, no pending wrap, and the parser is ready for the next sequence.
\<close>

theorem hard_reset_clears:
  assumes "screen_ok sb" and "vt_on c" and "at_ground sb" and "0 < cx (sb_buffer_size sb)" and "0 < cy (sb_buffer_size sb)"
    and "sb_vt_main_backup sb = None" and "length (sb_color_table sb) = 16" and "sb' = v_sb (apply_text_to_screen_buffer c [0x1B, 0x63] sb)"
  shows "sb_cells sb' = replicate (nat (cx (sb_buffer_size sb)) * nat (cy (sb_buffer_size sb)))
        \<lparr>cell_character = 0x20, cell_attributes = sb_default_text_attributes sb\<rparr>
    \<and> sb_cursor_position sb' = coord0 \<and> sb_cursor_visible sb' \<and> sb_text_attributes sb' = sb_default_text_attributes sb
    \<and> sb_color_table sb' = st_color_table default_settings \<and> sb_vt_autowrap_enabled sb' \<and> \<not> sb_vt_origin_mode_enabled sb'
    \<and> \<not> sb_vt_insert_mode_enabled sb' \<and> sb_vt_vertical_margins sb' = None \<and> sb_vt_delayed_wrap_position sb' = None
    \<and> at_ground sb'"
proof -
  let ?e = "call_env c sb" and ?v = "begin_text (call_env c sb) sb"
  note vt = begin_text_vt [OF assms(2), of sb]
  have run: "run_ok ?e ?v" using assms(1,4,5) by (rule run_ok_begin_text)
  define u where "u = on_parse reset_esc (on_parse (\<lambda>ps. ps\<lparr>ps_phase := P_escape\<rparr>) ?v)"
  have pu: "parse_ok (reset_esc ((parse_state ?v)\<lparr>ps_phase := P_escape\<rparr>))" using run_ok_parse [OF run] by simp
  have u: "run_ok ?e u" "sb_vt_main_backup (v_sb u) = None" "length (sb_color_table (v_sb u)) = 16"
    "ps_phase (parse_state u) = P_ground" "v_switches u = 0"
    using run assms(6,7) vt(1) pu by (simp_all add: u_def run_ok_def on_parse_def reset_esc_def begin_text_def)
  have "text_step ?e 0x1B ?v = (True, on_parse (\<lambda>ps. ps\<lparr>ps_phase := P_escape\<rparr>) ?v)"
    using vt assms(3) by (simp add: text_step_def phase_ground_def at_ground_def)
  moreover have "text_step ?e 0x63 (on_parse (\<lambda>ps. ps\<lparr>ps_phase := P_escape\<rparr>) ?v) = (True, hard_reset ?e u)"
    using vt by (simp add: text_step_def phase_escape_def u_def Let_def)
  ultimately have loop: "run_text c [0x1B, 0x63] sb = hard_reset ?e u" by (simp add: run_text_def text_loop_consume)
  obtain w where w: "hard_reset ?e u = fill_run coord0 0x20 (e_default_attributes ?e) (screen_cells_count ?e) w" "run_ok ?e w"
    "v_cursor w = coord0" "v_attributes w = e_default_attributes ?e" "v_autowrap w" "\<not> v_origin_mode w" "\<not> v_insert_mode w"
    "v_vertical_margins w = None" "v_delayed_wrap_position w = None" "v_switches w = v_switches u"
    "sb_color_table (v_sb w) = st_color_table default_settings" "sb_cursor_visible (v_sb w)" "parse_state w = parse_state u"
    using hard_reset_last [OF u(1-3)] by blast
  define r where "r = hard_reset ?e u"
  have "attached sb (run_text c [0x1B, 0x63] sb)" unfolding run_text_def by (intro attached_text_loop attached_begin)
  moreover have "run_ok ?e r" unfolding r_def by (rule run_ok_hard_reset [OF u(1)])
  moreover have "v_switches r = 0" using u(5) w(1,10) by (simp add: r_def)
  ultimately have mf: "mode_frame (v_sb r) = mode_frame sb" and marg: "sb_vt_vertical_margins (v_sb r) = v_vertical_margins r"
    using run_okD(12) by (auto simp: attached_def loop r_def)
  have d: "e_default_attributes ?e = sb_default_text_attributes sb" by (simp add: call_env_def)
  have cnt: "screen_cells_count ?e = nat (cx (e_size ?e)) * nat (cy (e_size ?e))" by (simp add: screen_cells_count_def)
  have pos: "0 < cx (e_size ?e)" "0 < cy (e_size ?e)" using vt(3) assms(4,5) by simp_all
  have "sb_cells (v_sb r) = replicate (screen_cells_count ?e) \<lparr>cell_character = 0x20, cell_attributes = sb_default_text_attributes sb\<rparr>"
  proof (rule nth_equalityI)
    show "length (sb_cells (v_sb r)) = length (replicate (screen_cells_count ?e)
        \<lparr>cell_character = 0x20, cell_attributes = sb_default_text_attributes sb\<rparr>)"
      using run_ok_cells_length [OF \<open>run_ok ?e r\<close>] by (simp add: cnt)
    show "sb_cells (v_sb r) ! i = replicate (screen_cells_count ?e)
        \<lparr>cell_character = 0x20, cell_attributes = sb_default_text_attributes sb\<rparr> ! i" if "i < length (sb_cells (v_sb r))" for i
      using fill_run_cells [OF w(2) order_refl pos(1) order_refl pos(2), of "screen_cells_count ?e" 0 i "0x20" "e_default_attributes ?e"]
        that run_ok_cells_length [OF \<open>run_ok ?e r\<close>] pos by (simp add: r_def w(1) d cnt)
  qed
  moreover have sb': "sb' = end_text sb r" using assms(4,5,8) by (simp add: apply_text_to_screen_buffer_def loop r_def)
  moreover note end_text_modes [OF mf]
  ultimately show ?thesis
    using w u(4) marg vt(3) cnt
    by (simp add: end_text_members end_text_shared at_ground_def mode_frame_def d r_def)
qed

section \<open>Writes and calls in any order\<close>

lemma screen_call_parse: "screen_call sb sb' \<Longrightarrow> sb_vt_output_parse_state sb' = sb_vt_output_parse_state sb"
proof (induction rule: screen_call.induct)
  case (call_margins m sb sb')
  then show ?case by (auto simp: set_vt_vertical_margins_def touch_def split: if_splits)
qed (simp_all add: set_window_rect_def set_window_size_def set_cursor_position_def set_text_attributes_def
    set_default_text_attributes_def set_cursor_info_def save_cursor_state_def set_vt_autowrap_enabled_def
    set_vt_delayed_wrap_position_def set_vt_origin_mode_enabled_def set_vt_insert_mode_enabled_def snap_window_to_cursor_def
    set_color_table_def Let_def touch_def cells_only_frame(7) [OF cells_only_write_cell] cells_only_frame(7) [OF cells_only_insert_cell]
    cells_only_frame(7) [OF cells_only_write_rect] cells_only_frame(7) [OF cells_only_scroll] cells_only_run_ops [THEN cells_only_frame(7)])

lemma screen_step_parse: "screen_step sb sb' \<Longrightarrow> sb_vt_output_parse_state sb' = sb_vt_output_parse_state sb"
proof (induction rule: screen_step.induct)
  case (step_call sb sb')
  then show ?case by (rule screen_call_parse)
next
  case (step_resize sz sb mem_ok)
  then show ?case by (simp add: set_screen_buffer_size_def snap_window_to_cursor_def resized_def Let_def touch_def)
next
  case (step_alternate sb mem_ok e ch a)
  then show ?case
    by (auto simp: set_vt_using_alternate_screen_buffer_def restore_main_def touch_def split: option.splits)
qed

text \<open>The life of a screen buffer: direct calls and writes of any text, in any order.\<close>

inductive console_step :: "ScreenBuffer \<Rightarrow> ScreenBuffer \<Rightarrow> bool" where
  console_call: "screen_step sb sb' \<Longrightarrow> console_step sb sb'"
| console_write: "console_step sb (v_sb (apply_text_to_screen_buffer c s sb))"

lemma console_step_ok: "console_step sb sb' \<Longrightarrow> screen_ok sb \<Longrightarrow> screen_ok sb'"
proof (induction rule: console_step.induct)
  case (console_call sb sb')
  then show ?case by (simp add: screen_ok_def screen_step_ok screen_step_parse)
next
  case (console_write sb c s)
  then show ?case by (rule apply_text_ok(1))
qed

text \<open>
  C19. No program can corrupt the screen: after any sequence of direct calls and of writes of
  arbitrary text, with any output modes, any sizes and any allocation failures, the buffer is
  well-formed, the parser stays inside its arrays (8 intermediates, 16 parameters, 4096
  characters of title, 128 characters of a sequence) with its numbers below ten million and ten,
  and no further write fails an assertion.
\<close>

theorem any_output_is_safe:
  assumes "create mem_ok settings = Inr sb0" and "short_coord (st_buffer_size settings)" and "console_step\<^sup>*\<^sup>* sb0 sb"
  shows "sb_ok sb \<and> parse_ok (sb_vt_output_parse_state sb) \<and> \<not> v_failed (apply_text_to_screen_buffer c s sb)"
proof -
  have "screen_ok sb"
    using assms(3)
  proof (induction rule: rtranclp_induct)
    case base
    have "sb0 = ScreenBuffer_ctor settings" using assms(1) by (auto simp: create_def split: if_splits)
    moreover have "sb_vt_output_parse_state (ScreenBuffer_ctor settings) = initial_parse_state"
      by (simp add: ScreenBuffer_ctor_def Let_def)
    ultimately show ?case using assms(2) by (simp add: screen_ok_def sb_ok_ctor)
  next
    case (step sb sb')
    then show ?case by (rule_tac console_step_ok)
  qed
  then show ?thesis using apply_text_ok(3) by (simp add: screen_ok_def)
qed

section \<open>Concrete runs\<close>

text \<open>The small screen with the letters \<open>abc\<close> in its second row.\<close>

definition written_screen :: ScreenBuffer where
  "written_screen = small_screen\<lparr>sb_cells := replicate 3 \<lparr>cell_character = 0x20, cell_attributes = 7\<rparr>
    @ map (\<lambda>u. \<lparr>cell_character = u, cell_attributes = 7\<rparr>) [0x61, 0x62, 0x63]\<rparr>"

lemma written_screen_ok: "screen_ok written_screen"
  using small_screen_vt(1) by (simp add: written_screen_def screen_ok_def sb_ok_def cells_ok_def small_screen)

lemma written_run:
  assumes "e = call_env vt_call written_screen" and "v = begin_text e written_screen"
  shows "run_ok e v" "e_mem e k" "resolve_vertical_region e v = (0, 1)" "e_size e = \<lparr>cx = 3, cy = 2\<rparr>"
    "v_sb v = written_screen" "v_cursor v = coord0" "v_attributes v = 7"
proof -
  show "run_ok e v" using written_screen_ok unfolding assms by (intro run_ok_begin_text) (simp_all add: written_screen_def small_screen)
  have vt: "v_sb v = written_screen" "e_size e = \<lparr>cx = 3, cy = 2\<rparr>"
    using begin_text_vt [OF vt_call_facts(1), of written_screen] by (simp_all add: assms written_screen_def small_screen)
  then show "v_sb v = written_screen" "e_size e = \<lparr>cx = 3, cy = 2\<rparr>" by simp_all
  show "v_cursor v = coord0" "v_attributes v = 7" by (simp_all add: assms(2) begin_text_def written_screen_def small_screen)
  show "e_mem e k" by (simp add: assms(1) call_env_def small_screen)
  show "resolve_vertical_region e v = (0, 1)"
    unfolding resolve_vertical_region_def vt(2) by (simp add: assms(2) begin_text_def written_screen_def small_screen to_short_id)
qed

text \<open>Scrolling the letters up by one row: they leave the second row, which is blank, for the first.\<close>

theorem region_commands_shift_witness:
  "let e = call_env vt_call written_screen; v = begin_text e written_screen; sb = v_sb (csi_scroll e (csi_parsed False [1] 0x53) v)
   in cell_at written_screen 1 0 = \<lparr>cell_character = 0x20, cell_attributes = 7\<rparr>
    \<and> cell_at written_screen 1 1 = \<lparr>cell_character = 0x62, cell_attributes = 7\<rparr>
    \<and> cell_at sb 1 0 = \<lparr>cell_character = 0x62, cell_attributes = 7\<rparr>
    \<and> cell_at sb 1 1 = \<lparr>cell_character = 0x20, cell_attributes = 7\<rparr>"
proof -
  let ?e = "call_env vt_call written_screen" and ?c = "csi_parsed False [1] 0x53"
  let ?v = "begin_text ?e written_screen"
  note r = written_run [OF refl refl]
  have c: "count_param 0 ?c = 1" "csi_final ?c = 0x53" by (simp_all add: count_param_def param_or_def csi_parsed_def)
  have before: "cell_at written_screen 1 0 = \<lparr>cell_character = 0x20, cell_attributes = 7\<rparr>"
    "cell_at written_screen 1 1 = \<lparr>cell_character = 0x62, cell_attributes = 7\<rparr>"
    by (simp_all add: cell_at_def written_screen_def small_screen numeral_eq_Suc)
  have "cell_at (v_sb (csi_scroll ?e ?c ?v)) 1 y = region_shift 0 1 1 (blank_cell ?v) (cell_at written_screen) 1 y" if "y = 0 \<or> y = 1" for y
    using region_commands_shift [OF r(1,2,3), of 1 y 1 ?c "cy (v_cursor ?v)"] that c by (auto simp: r(4,5) half_or_all_def)
  from this [of 0] this [of 1] before show ?thesis by (simp add: region_shift_def r(7) Let_def)
qed

definition tall_screen :: ScreenBuffer where
  "tall_screen = ScreenBuffer_ctor (default_settings\<lparr>st_buffer_size := \<lparr>cx = 2, cy = 3\<rparr>, st_window_size := \<lparr>cx = 2, cy = 3\<rparr>\<rparr>)"

lemma tall_screen_facts:
  "screen_ok tall_screen" "sb_buffer_size tall_screen = \<lparr>cx = 2, cy = 3\<rparr>"
  "sb_cells tall_screen = replicate 6 \<lparr>cell_character = 0x20, cell_attributes = 7\<rparr>" "sb_vt_vertical_margins tall_screen = None"
proof -
  have "sb_ok tall_screen" unfolding tall_screen_def by (rule sb_ok_ctor) (simp add: short_coord_def)
  moreover have "sb_vt_output_parse_state tall_screen = initial_parse_state"
    by (simp add: tall_screen_def ScreenBuffer_ctor_def Let_def)
  ultimately show "screen_ok tall_screen" by (simp add: screen_ok_def)
qed (simp_all add: tall_screen_def ScreenBuffer_ctor_def default_settings_def Let_def)

text \<open>Three blank rows scrolled by two in reverse attributes: the middle row keeps the old ones.\<close>

theorem scroll_up_leaves_rows_witness:
  "let e = call_env vt_call tall_screen; v = (begin_text e tall_screen)\<lparr>v_attributes := 0x70\<rparr>
   in cell_at (v_sb (scroll_region_up e 0 2 2 v)) 0 1 = \<lparr>cell_character = 0x20, cell_attributes = 7\<rparr>"
proof -
  let ?e = "call_env vt_call tall_screen"
  define v where "v = (begin_text ?e tall_screen)\<lparr>v_attributes := 0x70\<rparr>"
  note vt = begin_text_vt [OF vt_call_facts(1), of tall_screen]
  have "run_ok ?e (begin_text ?e tall_screen)" using tall_screen_facts by (intro run_ok_begin_text) simp_all
  then have run: "run_ok ?e v" by (simp add: v_def)
  have mem: "e_mem ?e (v_allocs v)" by (simp add: call_env_def small_screen)
  have r: "resolve_vertical_region ?e v = (0, 2)"
    unfolding resolve_vertical_region_def vt(3) by (simp add: v_def begin_text_def tall_screen_facts to_short_id)
  have "cell_at (v_sb v) 0 1 = \<lparr>cell_character = 0x20, cell_attributes = 7\<rparr>"
    using vt(1) by (simp add: v_def cell_at_def tall_screen_facts)
  with scroll_up_leaves_rows [OF run mem r, of 0 2 1] show ?thesis
    using vt(3) by (simp add: v_def Let_def tall_screen_facts)
qed

theorem erase_commands_witness:
  "cell_at (v_sb (apply_text_to_screen_buffer vt_call (csi_text False [1] 0x4A) small_screen)) 1 0 =
    \<lparr>cell_character = 0x20, cell_attributes = 7\<rparr>"
  using erase_commands [OF small_screen_vt(1) vt_call_facts(1) small_screen_vt(2) refl, of 1 0 _ _ _ 1 _, OF _ _ _ _ _ _ refl refl refl refl]
  by (simp add: small_screen cell_at_def)

theorem hard_reset_clears_witness:
  "sb_cells (v_sb (apply_text_to_screen_buffer vt_call [0x1B, 0x63] small_screen)) =
    replicate 6 \<lparr>cell_character = 0x20, cell_attributes = 7\<rparr>"
  using hard_reset_clears [of small_screen vt_call] small_screen
  by (simp add: small_screen_def ScreenBuffer_ctor_def default_settings_def Let_def)

theorem any_output_is_safe_witness:
  "\<not> v_failed (apply_text_to_screen_buffer vt_call [0x1B, 0x5B, 0x72]
     (v_sb (apply_text_to_screen_buffer vt_call [0x1B, 0x5B] (ScreenBuffer_ctor default_settings))))"
  using any_output_is_safe [of True default_settings "ScreenBuffer_ctor default_settings"
      "v_sb (apply_text_to_screen_buffer vt_call [0x1B, 0x5B] (ScreenBuffer_ctor default_settings))"]
    console_write [of "ScreenBuffer_ctor default_settings" vt_call "[0x1B, 0x5B]"]
  by (auto simp: create_def short_coord_def default_settings_def)

end
