(* ===== verification/Vt_Alternate.thy ===== *)
theory Vt_Alternate
  imports Vt_Scrolling
begin

text \<open>
  Switching screens inside a write. The interpreter keeps cursor, attributes and modes in local
  variables while the screen buffer saves and restores its members, and it stores a mode at the
  end only if it differs from the value at the start. The theorems state what follows.
\<close>

section \<open>Writing touches cells only\<close>

lemma cells_only_scroll_region:
  "cells_only (v_sb v) (v_sb (scroll_region_up e t b n v))"
  by (auto simp: scroll_region_up_def fill_run_def scroll_rect_def Let_def
      intro: cells_only_trans [OF cells_only_run_ops(1) cells_only_run_ops(2)])

lemma cells_only_line_feed: "cells_only (v_sb v) (v_sb (line_feed e v))"
proof -
  have "cells_only (v_sb v) (v_sb (scroll_region_up e t b n (set_y y v)))" for t b n y
    using cells_only_scroll_region [of "set_y y v"] by simp
  then show ?thesis
    by (simp add: line_feed_def Let_def cells_only_scroll_region split: prod.split)
qed

lemma cells_only_write_printable: "cells_only (v_sb v) (v_sb (write_printable e ch v))"
proof -
  have adv: "cells_only (v_sb u) (v_sb (advance_line e u))" for u
    using cells_only_line_feed [of "set_x 0 u" e] by (simp add: advance_line_def)
  have wrap: "cells_only (v_sb v) (v_sb (maybe_apply_delayed_wrap e v))"
    using adv [of v] by (simp add: maybe_apply_delayed_wrap_def)
  have put: "cells_only (v_sb v) (v_sb (put_cell e ch (maybe_apply_delayed_wrap e v)))"
    by (rule cells_only_trans [OF wrap]) (simp add: put_cell_def)
  have "cells_only (v_sb v) (v_sb (advance_line e (set_x x (put_cell e ch (maybe_apply_delayed_wrap e v)))))" for x
    using cells_only_trans [OF put] adv [of "set_x x (put_cell e ch (maybe_apply_delayed_wrap e v))"] by simp
  with put show ?thesis by (simp add: write_printable_def Let_def)
qed

lemma type_text_cells_only:
  "e_vt_processing e \<Longrightarrow> ps_phase (parse_state v) = P_ground \<Longrightarrow> list_all printable cs \<Longrightarrow> cells_only (v_sb v) (v_sb (text_loop e cs v))"
proof (induction cs arbitrary: v)
  case (Cons ch cs)
  let ?u = "write_printable e ch v"
  have step: "text_loop e (ch # cs) v = text_loop e cs ?u"
    using Cons.prems by (intro text_loop_consume text_step_printable) simp_all
  have u: "cells_only (v_sb v) (v_sb ?u)" by (rule cells_only_write_printable)
  then have "ps_phase (parse_state ?u) = P_ground" using Cons.prems(2) cells_only_frame(7) [OF u] by simp
  with Cons show ?case unfolding step by (intro cells_only_trans [OF u]) simp
qed simp

section \<open>The cursor that is restored\<close>

definition enter_alternate_text :: wstring where
  "enter_alternate_text = csi_text True [1049] 0x68"

definition leave_alternate_text :: wstring where
  "leave_alternate_text = csi_text True [1049] 0x6C"

lemma apply_csi_1049:
  "apply_csi e (csi_parsed True [1049] 0x68) v = csi_mode e True True 1049 v"
  "apply_csi e (csi_parsed True [1049] 0x6C) v = csi_mode e True False 1049 v"
  by (simp_all add: apply_csi_def csi_parsed_def csi_modes_def)

lemma enter_mode:
  assumes "sb_vt_main_backup (v_sb v) = None" and "e_mem e (v_allocs v)"
  shows "sb_vt_main_backup (v_sb (csi_mode e True True 1049 v)) = Some (main_backup (v_sb v))"
  using assms by (simp add: csi_mode_def set_vt_using_alternate_screen_buffer_def touch_def)

lemma leave_mode:
  assumes "sb_vt_main_backup (v_sb v) = Some bk"
  shows "v_cursor (csi_mode e True False 1049 v) = bk_cursor_position bk"
    "v_attributes (csi_mode e True False 1049 v) = bk_text_attributes bk"
    "sb_cells (v_sb (csi_mode e True False 1049 v)) = bk_cells bk"
  using assms by (simp_all add: csi_mode_def set_vt_using_alternate_screen_buffer_def restore_main_def touch_def)

lemma length_1049: "length (csi_text True [1049] f) \<le> 130"
  using length_dec_digits [of 1049 3] by (simp add: csi_text_def)

lemma switch_sequence:
  assumes "e_vt_processing e" and "ps_phase (parse_state v) = P_ground" and "is_final f"
  shows "\<exists>q. text_loop e (csi_text True [1049] f @ rest) v =
    text_loop e rest (on_parse (reset_csi P_ground) (apply_csi e (csi_parsed True [1049] f) (on_parse (\<lambda>_. q) v)))"
  using csi_sequence [OF assms(1,2) _ _ length_1049 assms(3), of rest] by auto

text \<open>
  Text followed by a visit to the alternate screen in the same write puts the cursor back to
  where the write began, not to where the text ended: the switch saves the member of the buffer,
  which is older than the position the interpreter works with. The text itself is kept.
\<close>

theorem alternate_screen_stale_cursor:
  assumes "screen_ok sb" and "vt_on c" and "at_ground sb" and "sb_vt_main_backup sb = None" and "c_mem c = (\<lambda>_. True)"
    and "0 < cx (sb_buffer_size sb)" and "0 < cy (sb_buffer_size sb)" and "list_all printable s"
    and "sb' = v_sb (apply_text_to_screen_buffer c (s @ enter_alternate_text @ leave_alternate_text) sb)"
  shows "sb_cursor_position sb' = sb_cursor_position sb \<and> sb_cells sb' = sb_cells (v_sb (apply_text_to_screen_buffer c s sb))"
proof -
  let ?e = "call_env c sb" and ?v = "begin_text (call_env c sb) sb"
  note vt = begin_text_vt [OF assms(2), of sb]
  define u where "u = text_loop ?e s ?v"
  have ground: "ps_phase (parse_state ?v) = P_ground" using assms(3) vt(1) by (simp add: at_ground_def)
  have u: "cells_only sb (v_sb u)" unfolding u_def using type_text_cells_only [OF vt(2) ground assms(8)] vt(1) by simp
  then have uf: "sb_vt_main_backup (v_sb u) = None" "sb_cursor_position (v_sb u) = sb_cursor_position sb"
    "ps_phase (parse_state u) = P_ground" using cells_only_frame [OF u] assms(3,4) by (simp_all add: at_ground_def)
  obtain q where q: "text_loop ?e (enter_alternate_text @ leave_alternate_text) u = text_loop ?e leave_alternate_text
      (on_parse (reset_csi P_ground) (csi_mode ?e True True 1049 (on_parse (\<lambda>_. q) u)))"
    using switch_sequence [OF vt(2) uf(3), of "0x68" leave_alternate_text]
    by (auto simp: enter_alternate_text_def is_final_def apply_csi_1049)
  define w where "w = on_parse (reset_csi P_ground) (csi_mode ?e True True 1049 (on_parse (\<lambda>_. q) u))"
  have "sb_vt_main_backup (v_sb w) = Some (main_backup (v_sb (on_parse (\<lambda>_. q) u)))"
    using enter_mode [of "on_parse (\<lambda>_. q) u" ?e] uf(1) assms(5) by (simp add: w_def on_parse_def call_env_def)
  moreover obtain q' where q': "text_loop ?e leave_alternate_text w =
      on_parse (reset_csi P_ground) (csi_mode ?e True False 1049 (on_parse (\<lambda>_. q') w))"
    using switch_sequence [OF vt(2), of w "0x6C" "[]"] by (auto simp: w_def leave_alternate_text_def is_final_def apply_csi_1049)
  moreover have "sb_vt_main_backup (v_sb (on_parse (\<lambda>_. q') w)) = sb_vt_main_backup (v_sb w)" by (simp add: on_parse_def)
  ultimately have "v_cursor (text_loop ?e leave_alternate_text w) = sb_cursor_position (v_sb u)"
    "sb_cells (v_sb (text_loop ?e leave_alternate_text w)) = sb_cells (v_sb u)"
    using leave_mode [of "on_parse (\<lambda>_. q') w"] by (simp_all add: main_backup_def on_parse_def)
  moreover have "run_text c (s @ enter_alternate_text @ leave_alternate_text) sb = text_loop ?e leave_alternate_text w"
    by (simp add: run_text_def text_loop_append flip: u_def) (simp add: q w_def flip: text_loop_append)
  moreover have "run_text c s sb = u" by (simp add: run_text_def u_def)
  ultimately show ?thesis
    using uf(2) assms(6,7,9) by (simp add: apply_text_to_screen_buffer_def end_text_members)
qed

section \<open>The reset inside the alternate screen\<close>

lemma leave_alternate_origin:
  assumes "sb_vt_main_backup (v_sb v) = Some bk"
  shows "sb_vt_origin_mode_enabled (v_sb (leave_alternate e v)) = bk_vt_origin_mode_enabled bk"
  using assms by (simp add: leave_alternate_def set_vt_using_alternate_screen_buffer_def restore_main_def touch_def)

lemma hard_reset_origin:
  assumes "sb_vt_main_backup (v_sb v) = Some bk"
  shows "sb_vt_origin_mode_enabled (v_sb (hard_reset e v)) = bk_vt_origin_mode_enabled bk" "\<not> v_origin_mode (hard_reset e v)"
proof -
  have fill: "sb_vt_origin_mode_enabled (v_sb (fill_run p ch a n u)) = sb_vt_origin_mode_enabled (v_sb u)" for p ch a n u
  proof -
    have "cells_only (v_sb u) (v_sb (fill_run p ch a n u))"
      unfolding fill_run_def by (auto intro: cells_only_trans [OF cells_only_run_ops(1) cells_only_run_ops(2)])
    then show ?thesis by (auto simp: cells_only_def)
  qed
  show "sb_vt_origin_mode_enabled (v_sb (hard_reset e v)) = bk_vt_origin_mode_enabled bk" "\<not> v_origin_mode (hard_reset e v)"
    unfolding leave_alternate_origin [OF assms, of e, symmetric]
    by (simp_all add: hard_reset_def Let_def fill call_set_vt_vertical_margins_def set_vt_vertical_margins_def save_cursor_state_def
        set_cursor_info_def set_color_table_def touch_def)
qed

lemma end_text_origin:
  assumes "v_origin_mode v = sb_vt_origin_mode_enabled sb"
  shows "sb_vt_origin_mode_enabled (end_text sb v) = sb_vt_origin_mode_enabled (v_sb v)"
proof -
  have "sb_vt_origin_mode_enabled (set_vt_autowrap_enabled b s) = sb_vt_origin_mode_enabled s"
    "sb_vt_origin_mode_enabled (set_vt_insert_mode_enabled b s) = sb_vt_origin_mode_enabled s"
    "sb_vt_origin_mode_enabled (snap_window_to_cursor s) = sb_vt_origin_mode_enabled s" for b s
    by (simp_all add: write_back_defs snap_window_to_cursor_def Let_def)
  then show ?thesis
    using assms by (simp add: end_text_def Let_def set_text_attributes_def set_cursor_position_def set_vt_delayed_wrap_position_def touch_def)
qed

text \<open>
  The reset \<open>ESC c\<close> inside the alternate screen does not reset origin mode: when the main screen
  was left with origin mode on and the alternate screen has it off, origin mode is on after the
  reset. The main screen's mode is restored into the buffer, and the reset value is not stored
  because it equals the value the write started with.
\<close>

theorem hard_reset_keeps_origin_mode:
  assumes "vt_on c" and "at_ground sb" and "0 < cx (sb_buffer_size sb)" and "0 < cy (sb_buffer_size sb)"
    and "sb_vt_main_backup sb = Some bk" and "bk_vt_origin_mode_enabled bk" and "\<not> sb_vt_origin_mode_enabled sb"
  shows "sb_vt_origin_mode_enabled (v_sb (apply_text_to_screen_buffer c [0x1B, 0x63] sb))"
proof -
  let ?e = "call_env c sb" and ?v = "begin_text (call_env c sb) sb"
  note vt = begin_text_vt [OF assms(1), of sb]
  define u where "u = on_parse reset_esc (on_parse (\<lambda>ps. ps\<lparr>ps_phase := P_escape\<rparr>) ?v)"
  have u: "sb_vt_main_backup (v_sb u) = Some bk" using assms(5) vt(1) by (simp add: u_def on_parse_def)
  have "text_step ?e 0x1B ?v = (True, on_parse (\<lambda>ps. ps\<lparr>ps_phase := P_escape\<rparr>) ?v)"
    using vt assms(2) by (simp add: text_step_def phase_ground_def at_ground_def)
  moreover have "text_step ?e 0x63 (on_parse (\<lambda>ps. ps\<lparr>ps_phase := P_escape\<rparr>) ?v) = (True, hard_reset ?e u)"
    using vt by (simp add: text_step_def phase_escape_def u_def Let_def)
  ultimately have "run_text c [0x1B, 0x63] sb = hard_reset ?e u" by (simp add: run_text_def text_loop_consume)
  with hard_reset_origin [OF u, of ?e] end_text_origin [of "hard_reset ?e u" sb] assms(3,4,6,7) show ?thesis
    by (simp add: apply_text_to_screen_buffer_def)
qed

section \<open>Concrete runs\<close>

theorem alternate_screen_stale_cursor_witness:
  "sb_cursor_position (v_sb (apply_text_to_screen_buffer vt_call ([0x58] @ enter_alternate_text @ leave_alternate_text) small_screen)) = coord0"
  using alternate_screen_stale_cursor [OF small_screen_vt(1) vt_call_facts(1) small_screen_vt(2), of "[0x58]"]
  by (simp add: small_screen printable_def)

definition switched_screen :: ScreenBuffer where
  "switched_screen = (snd (set_vt_using_alternate_screen_buffer True True 0x20 7
     (small_screen\<lparr>sb_vt_origin_mode_enabled := True\<rparr>)))\<lparr>sb_vt_origin_mode_enabled := False\<rparr>"

theorem hard_reset_keeps_origin_mode_witness:
  "sb_vt_origin_mode_enabled (v_sb (apply_text_to_screen_buffer vt_call [0x1B, 0x63] switched_screen))"
proof -
  have "sb_vt_main_backup switched_screen = Some (main_backup (small_screen\<lparr>sb_vt_origin_mode_enabled := True\<rparr>))"
    "at_ground switched_screen" "sb_buffer_size switched_screen = \<lparr>cx = 3, cy = 2\<rparr>" "\<not> sb_vt_origin_mode_enabled switched_screen"
    using small_screen by (simp_all add: switched_screen_def set_vt_using_alternate_screen_buffer_def touch_def at_ground_def)
  with hard_reset_keeps_origin_mode [OF vt_call_facts(1)] show ?thesis by (simp add: main_backup_def)
qed

end
