(* ===== verification/Line_Edit.thy ===== *)
theory Line_Edit
  imports Conhost_Prelude
begin

text \<open>
  The line editor of cooked reads: the lambdas of \<open>ConsolepReadConsole\<close> in \<open>dispatch_message\<close>
  (\<open>condrv_server.hpp\<close>) that move the cursor over the line, change it, and compute what is echoed.
  A line is a string of UTF-16 units, so the editor steps over surrogate pairs; every operation
  gives the new line, cursor and mode together with the pieces of text passed to \<open>echo_text\<close>. The
  second half shows that the operations refine an editor on two lists of characters.
\<close>

section \<open>The editor\<close>

record LineEdit =
  le_line :: wstring
  le_cursor :: nat
  le_insert :: bool

type_synonym edit = "LineEdit \<times> wstring list"

definition is_high_surrogate :: "wchar \<Rightarrow> bool" where
  "is_high_surrogate value \<longleftrightarrow> value \<ge> 0xD800 \<and> value \<le> 0xDBFF"

definition is_low_surrogate :: "wchar \<Rightarrow> bool" where
  "is_low_surrogate value \<longleftrightarrow> value \<ge> 0xDC00 \<and> value \<le> 0xDFFF"

definition normalize_cursor :: "LineEdit \<Rightarrow> LineEdit" where
  "normalize_cursor e =
    (let e = (if le_cursor e > length (le_line e) then e\<lparr>le_cursor := length (le_line e)\<rparr> else e); c = le_cursor e; line = le_line e
     in if c \<noteq> 0 \<and> c < length line \<and> is_low_surrogate (line ! c) \<and> is_high_surrogate (line ! (c - 1))
        then e\<lparr>le_cursor := c - 1\<rparr> else e)"

definition prev_index :: "wstring \<Rightarrow> nat \<Rightarrow> nat" where
  "prev_index line index =
    (if index = 0 then 0
     else
       let prev = index - 1
       in if prev \<noteq> 0 \<and> is_low_surrogate (line ! prev) \<and> is_high_surrogate (line ! (prev - 1)) then prev - 1 else prev)"

definition next_index :: "wstring \<Rightarrow> nat \<Rightarrow> nat" where
  "next_index line index =
    (if index \<ge> length line then length line
     else
       let next = index + 1
       in if next < length line \<and> is_high_surrogate (line ! index) \<and> is_low_surrogate (line ! (index + 1)) then index + 2 else next)"

definition is_word_delimiter :: "wstring \<Rightarrow> nat \<Rightarrow> bool" where
  "is_word_delimiter line index \<longleftrightarrow> \<not> index \<ge> length line \<and> (line ! index = 0x20 \<or> line ! index = 0x09)"

text \<open>The two loops of \<open>word_prev\<close>: over delimiters (\<open>d\<close> true), then over the others.\<close>

function word_back :: "wstring \<Rightarrow> bool \<Rightarrow> nat \<Rightarrow> nat" where
  "word_back line d pos =
    (if pos \<noteq> 0 \<and> is_word_delimiter line (prev_index line pos) = d then word_back line d (prev_index line pos) else pos)"
  by pat_completeness auto

termination
  by (relation "measure (\<lambda>(line, d, pos). pos)") (auto simp: prev_index_def Let_def)

function word_forward :: "wstring \<Rightarrow> bool \<Rightarrow> nat \<Rightarrow> nat" where
  "word_forward line d pos =
    (if pos < length line \<and> is_word_delimiter line pos = d then word_forward line d (next_index line pos) else pos)"
  by pat_completeness auto

termination
  by (relation "measure (\<lambda>(line, d, pos). length line - pos)") (auto simp: next_index_def Let_def)

declare word_back.simps [simp del] word_forward.simps [simp del]

definition word_prev :: "wstring \<Rightarrow> nat \<Rightarrow> nat" where
  "word_prev line index = word_back line False (word_back line True index)"

definition word_next :: "wstring \<Rightarrow> nat \<Rightarrow> nat" where
  "word_next line index = word_forward line True (word_forward line False index)"

subsection \<open>Echo\<close>

text \<open>Runs of one unit are echoed through an array of 64.\<close>

function echo_repeat :: "wchar \<Rightarrow> nat \<Rightarrow> wstring list" where
  "echo_repeat ch n = (if n = 0 then [] else replicate (min n 64) ch # echo_repeat ch (n - min n 64))"
  by pat_completeness auto

termination
  by (relation "measure snd") auto

declare echo_repeat.simps [simp del]

abbreviation echo_backspaces :: "nat \<Rightarrow> wstring list" where
  "echo_backspaces \<equiv> echo_repeat 0x08"

abbreviation echo_spaces :: "nat \<Rightarrow> wstring list" where
  "echo_spaces \<equiv> echo_repeat 0x20"

definition echo_range :: "wstring \<Rightarrow> nat \<Rightarrow> nat \<Rightarrow> wstring list" where
  "echo_range line start stop = (if start \<ge> stop \<or> stop > length line then [] else [take (stop - start) (drop start line)])"

subsection \<open>Units\<close>

definition erase_units :: "nat \<Rightarrow> nat \<Rightarrow> wstring \<Rightarrow> wstring" where
  "erase_units index n line = take index line @ drop (index + n) line"

definition erase_back :: "LineEdit \<Rightarrow> edit" where
  "erase_back e =
    (let new_cursor = prev_index (le_line e) (le_cursor e); removed_units = le_cursor e - new_cursor
     in if le_cursor e = 0 \<or> removed_units = 0 then (e, [])
        else
          let e = normalize_cursor (e\<lparr>le_line := erase_units new_cursor removed_units (le_line e), le_cursor := new_cursor\<rparr>);
              c = le_cursor e; line = le_line e
          in (e, echo_backspaces removed_units
                @ (if c < length line
                   then echo_range line c (length line) @ echo_spaces removed_units @ echo_backspaces (length line - c + removed_units)
                   else echo_spaces removed_units @ echo_backspaces removed_units)))"

definition insert_unit :: "wchar \<Rightarrow> LineEdit \<Rightarrow> edit" where
  "insert_unit value e =
    (let c = le_cursor e; line = le_line e;
         removed_units = (if \<not> le_insert e \<and> c < length line then next_index line c - c else 0);
         line = (if removed_units \<noteq> 0 then erase_units c removed_units line else line);
         e = normalize_cursor (e\<lparr>le_line := take c line @ value # drop c line, le_cursor := c + 1\<rparr>);
         tail_units = length (le_line e) - le_cursor e;
         clear_units = (if removed_units > 1 then removed_units - 1 else 0)
     in (e, [[value]] @ (if tail_units \<noteq> 0 then [drop (le_cursor e) (le_line e)] else [])
           @ echo_spaces clear_units @ echo_backspaces (tail_units + clear_units)))"

subsection \<open>Editing keys\<close>

definition escape_key :: "LineEdit \<Rightarrow> edit" where
  "escape_key e =
    (if le_line e = [] then (e, [])
     else (normalize_cursor (e\<lparr>le_line := [], le_cursor := 0\<rparr>),
           echo_backspaces (le_cursor e) @ echo_spaces (length (le_line e)) @ echo_backspaces (length (le_line e))))"

definition home_key :: "bool \<Rightarrow> LineEdit \<Rightarrow> edit" where
  "home_key ctrl e =
    (let removed_units = le_cursor e
     in if removed_units = 0 then (e, [])
        else if ctrl then
          let e = normalize_cursor (e\<lparr>le_line := erase_units 0 removed_units (le_line e), le_cursor := 0\<rparr>); line = le_line e
          in (e, echo_backspaces removed_units @ echo_range line 0 (length line) @ echo_spaces removed_units
                @ echo_backspaces (length line + removed_units))
        else (normalize_cursor (e\<lparr>le_cursor := 0\<rparr>), echo_backspaces removed_units))"

definition end_key :: "bool \<Rightarrow> LineEdit \<Rightarrow> edit" where
  "end_key ctrl e =
    (let line = le_line e; c = le_cursor e; removed_units = length line - c
     in if \<not> c < length line then (e, [])
        else if ctrl then
          (normalize_cursor (e\<lparr>le_line := erase_units c removed_units line\<rparr>), echo_spaces removed_units @ echo_backspaces removed_units)
        else (normalize_cursor (e\<lparr>le_cursor := length line\<rparr>), echo_range line c (length line)))"

definition left_step :: "bool \<Rightarrow> LineEdit \<Rightarrow> edit" where
  "left_step ctrl e =
    (let new_cursor = (if ctrl then word_prev (le_line e) (le_cursor e) else prev_index (le_line e) (le_cursor e))
     in (normalize_cursor (e\<lparr>le_cursor := new_cursor\<rparr>), echo_backspaces (le_cursor e - new_cursor)))"

definition right_step :: "bool \<Rightarrow> LineEdit \<Rightarrow> edit" where
  "right_step ctrl e =
    (let new_cursor = (if ctrl then word_next (le_line e) (le_cursor e) else next_index (le_line e) (le_cursor e))
     in (normalize_cursor (e\<lparr>le_cursor := new_cursor\<rparr>), echo_range (le_line e) (le_cursor e) new_cursor))"

definition delete_step :: "LineEdit \<Rightarrow> edit" where
  "delete_step e =
    (let removed_units = next_index (le_line e) (le_cursor e) - le_cursor e;
         e = normalize_cursor (e\<lparr>le_line := erase_units (le_cursor e) removed_units (le_line e)\<rparr>);
         c = le_cursor e; line = le_line e
     in (e, echo_range line c (length line) @ echo_spaces removed_units @ echo_backspaces (length line - c + removed_units)))"

text \<open>The loops over the repeat count of a key, with their early exits.\<close>

fun repeat_edit :: "(LineEdit \<Rightarrow> bool) \<Rightarrow> (LineEdit \<Rightarrow> edit) \<Rightarrow> nat \<Rightarrow> LineEdit \<Rightarrow> edit" where
  "repeat_edit stop step 0 e = (e, [])"
| "repeat_edit stop step (Suc n) e =
    (if stop e then (e, [])
     else case step e of (e', ps) \<Rightarrow> (case repeat_edit stop step n e' of (e'', ps') \<Rightarrow> (e'', ps @ ps')))"

definition left_key :: "bool \<Rightarrow> nat \<Rightarrow> LineEdit \<Rightarrow> edit" where
  "left_key ctrl n e = repeat_edit (\<lambda>e. le_cursor e = 0) (left_step ctrl) n e"

definition right_key :: "bool \<Rightarrow> nat \<Rightarrow> LineEdit \<Rightarrow> edit" where
  "right_key ctrl n e = repeat_edit (\<lambda>e. le_cursor e \<ge> length (le_line e)) (right_step ctrl) n e"

definition delete_key :: "nat \<Rightarrow> LineEdit \<Rightarrow> edit" where
  "delete_key n e =
    repeat_edit (\<lambda>e. le_cursor e \<ge> length (le_line e) \<or> next_index (le_line e) (le_cursor e) - le_cursor e = 0) delete_step n e"

datatype edit_vkey = VkInsert | VkEscape | VkHome | VkEnd | VkLeft | VkRight | VkDelete

definition edit_vkey_of :: "ushort \<Rightarrow> edit_vkey option" where
  "edit_vkey_of vkey =
    (if vkey = 0x2D then Some VkInsert
     else if vkey = 0x1B then Some VkEscape
     else if vkey = 0x24 then Some VkHome
     else if vkey = 0x23 then Some VkEnd
     else if vkey = 0x25 then Some VkLeft
     else if vkey = 0x27 then Some VkRight
     else if vkey = 0x2E then Some VkDelete
     else None)"

fun edit_key :: "edit_vkey \<Rightarrow> bool \<Rightarrow> nat \<Rightarrow> LineEdit \<Rightarrow> edit" where
  "edit_key VkInsert ctrl n e = ((if n mod 2 = 1 then e\<lparr>le_insert := \<not> le_insert e\<rparr> else e), [])"
| "edit_key VkEscape ctrl n e = escape_key e"
| "edit_key VkHome ctrl n e = home_key ctrl e"
| "edit_key VkEnd ctrl n e = end_key ctrl e"
| "edit_key VkLeft ctrl n e = left_key ctrl n e"
| "edit_key VkRight ctrl n e = right_key ctrl n e"
| "edit_key VkDelete ctrl n e = delete_key n e"

section \<open>The cursor stays on the line and out of surrogate pairs\<close>

definition inside_pair :: "wstring \<Rightarrow> nat \<Rightarrow> bool" where
  "inside_pair line c \<longleftrightarrow> 0 < c \<and> c < length line \<and> is_low_surrogate (line ! c) \<and> is_high_surrogate (line ! (c - 1))"

definition edit_ok :: "LineEdit \<Rightarrow> bool" where
  "edit_ok e \<longleftrightarrow> le_cursor e \<le> length (le_line e) \<and> \<not> inside_pair (le_line e) (le_cursor e)"

lemma not_both_surrogates: "is_high_surrogate u \<Longrightarrow> \<not> is_low_surrogate u"
  by (auto simp: is_high_surrogate_def is_low_surrogate_def word_le_nat_alt)

lemma normalize_ok: "edit_ok (normalize_cursor e)"
  using not_both_surrogates by (auto simp: edit_ok_def normalize_cursor_def inside_pair_def Let_def)

lemma normalize_id: "edit_ok e \<Longrightarrow> normalize_cursor e = e"
  by (auto simp: edit_ok_def normalize_cursor_def inside_pair_def Let_def)

lemma normalize_line [simp]: "le_line (normalize_cursor e) = le_line e" "le_insert (normalize_cursor e) = le_insert e"
  by (simp_all add: normalize_cursor_def Let_def)

lemma repeat_edit_keeps:
  assumes "\<And>e. P e \<Longrightarrow> \<not> stop e \<Longrightarrow> P (fst (step e))" and "P e"
  shows "P (fst (repeat_edit stop step n e))"
  using assms(2) by (induction n arbitrary: e) (simp_all add: assms(1) split_beta)

lemma edit_ok_units: "edit_ok e \<Longrightarrow> edit_ok (fst (erase_back e))" "edit_ok (fst (insert_unit value e))"
  by (simp_all add: erase_back_def insert_unit_def Let_def normalize_ok)

lemma edit_ok_steps: "edit_ok (fst (left_step ctrl e))" "edit_ok (fst (right_step ctrl e))" "edit_ok (fst (delete_step e))"
  by (simp_all add: left_step_def right_step_def delete_step_def Let_def normalize_ok)

lemma edit_ok_key: "edit_ok e \<Longrightarrow> edit_ok (fst (edit_key k ctrl n e))"
  by (cases k)
    (auto simp: escape_key_def home_key_def end_key_def left_key_def right_key_def delete_key_def Let_def normalize_ok
      intro!: repeat_edit_keeps [where P = edit_ok] edit_ok_steps, simp add: edit_ok_def)

section \<open>Characters\<close>

text \<open>A character is a surrogate pair or any other unit alone.\<close>

fun chars :: "wstring \<Rightarrow> wstring list" where
  "chars [] = []"
| "chars [u] = [[u]]"
| "chars (u # w # rest) = (if is_high_surrogate u \<and> is_low_surrogate w then [u, w] # chars rest else [u] # chars (w # rest))"

lemma concat_chars [simp]: "concat (chars us) = us"
  by (induction us rule: chars.induct) auto

lemma chars_nonempty: "ch \<in> set (chars us) \<Longrightarrow> ch \<noteq> []"
  by (induction us rule: chars.induct) (auto split: if_splits)

lemma chars_Nil [simp]: "chars us = [] \<longleftrightarrow> us = []"
  by (cases us rule: chars.cases) auto

text \<open>Characters can be split wherever no low surrogate follows.\<close>

lemma chars_append: "ys = [] \<or> \<not> is_low_surrogate (hd ys) \<Longrightarrow> chars (xs @ ys) = chars xs @ chars ys"
proof (induction xs rule: chars.induct)
  case (2 u)
  then show ?case by (cases ys) auto
qed auto

text \<open>No low surrogate stands without its high surrogate.\<close>

definition tidy :: "wstring \<Rightarrow> bool" where
  "tidy line \<longleftrightarrow> (\<forall>i < length line. is_low_surrogate (line ! i) \<longrightarrow> 0 < i \<and> is_high_surrogate (line ! (i - 1)))"

text \<open>Where the cursor of a tidy line may stand.\<close>

definition boundary :: "wstring \<Rightarrow> nat \<Rightarrow> bool" where
  "boundary line c \<longleftrightarrow> c \<le> length line \<and> (c < length line \<longrightarrow> \<not> is_low_surrogate (line ! c))"

lemma boundary_ok: "tidy (le_line e) \<Longrightarrow> edit_ok e \<longleftrightarrow> boundary (le_line e) (le_cursor e)"
  by (auto simp: tidy_def boundary_def edit_ok_def inside_pair_def)

lemma boundary_ends [simp]: "boundary line (length line)" "tidy line \<Longrightarrow> boundary line 0"
  by (auto simp: boundary_def tidy_def)

lemma chars_split:
  assumes "boundary line c"
  shows "chars line = chars (take c line) @ chars (drop c line)"
  using assms chars_append [of "drop c line" "take c line"]
  by (cases "c < length line") (auto simp: boundary_def hd_drop_conv_nth)

lemma chars_slice:
  assumes "boundary line c" and "p \<le> c"
  shows "chars (drop p line) = chars (take (c - p) (drop p line)) @ chars (drop c line)"
proof -
  have "boundary (drop p line) (c - p)" using assms by (auto simp: boundary_def)
  from chars_split [OF this] show ?thesis using assms(2) by simp
qed

lemma chars_take_slice:
  assumes "boundary line p" and "p \<le> c"
  shows "chars (take c line) = chars (take p line) @ chars (take (c - p) (drop p line))"
proof (cases "p < c")
  case True
  then have "boundary (take c line) p" using assms by (auto simp: boundary_def)
  from chars_split [OF this] show ?thesis using True by (simp add: drop_take min_def)
qed (use assms(2) in simp)

lemma prev_index_char:
  assumes "tidy line" and "boundary line c" and "c \<noteq> 0"
  shows "prev_index line c < c" and "boundary line (prev_index line c)"
    and "chars (take (c - prev_index line c) (drop (prev_index line c) line)) = [take (c - prev_index line c) (drop (prev_index line c) line)]"
proof -
  let ?p = "prev_index line c"
  have c: "c - 1 < length line" using assms(2,3) unfolding boundary_def by linarith
  have "?p < c \<and> boundary line ?p \<and> chars (take (c - ?p) (drop ?p line)) = [take (c - ?p) (drop ?p line)]"
  proof (cases "is_low_surrogate (line ! (c - 1))")
    case True
    with assms(1) c have h: "0 < c - 1" "is_high_surrogate (line ! (c - 2))"
      unfolding tidy_def by (force simp: numeral_2_eq_2)+
    then have p: "?p = c - 2" using True by (simp add: prev_index_def Let_def numeral_2_eq_2)
    have "drop (c - 2) line = line ! (c - 2) # line ! (c - 1) # drop c line"
      using h(1) c Cons_nth_drop_Suc [of "c - 2" line] Cons_nth_drop_Suc [of "c - 1" line]
      by (simp add: Suc_diff_Suc numeral_2_eq_2)
    moreover have "c - (c - 2) = 2" using h(1) by simp
    ultimately show ?thesis using p h True not_both_surrogates [OF h(2)] c by (auto simp: boundary_def)
  next
    case False
    then have p: "?p = c - 1" using assms(3) by (simp add: prev_index_def Let_def)
    have "drop (c - 1) line = line ! (c - 1) # drop c line" using c assms(3) Cons_nth_drop_Suc [of "c - 1" line] by simp
    moreover have "c - (c - 1) = 1" using assms(3) by simp
    ultimately show ?thesis using p False assms(3) c by (auto simp: boundary_def)
  qed
  then show "?p < c" "boundary line ?p" "chars (take (c - ?p) (drop ?p line)) = [take (c - ?p) (drop ?p line)]" by auto
qed

lemma next_index_char:
  assumes "tidy line" and "boundary line c" and "c < length line"
  shows "c < next_index line c" and "boundary line (next_index line c)"
    and "chars (take (next_index line c - c) (drop c line)) = [take (next_index line c - c) (drop c line)]"
proof -
  let ?n = "next_index line c"
  have d: "drop c line = line ! c # drop (Suc c) line" using assms(3) by (simp add: Cons_nth_drop_Suc)
  have "c < ?n \<and> boundary line ?n \<and> chars (take (?n - c) (drop c line)) = [take (?n - c) (drop c line)]"
  proof (cases "Suc c < length line \<and> is_low_surrogate (line ! Suc c)")
    case True
    then have h: "is_high_surrogate (line ! c)" using assms(1) unfolding tidy_def by force
    then have n: "?n = c + 2" using True assms(3) by (simp add: next_index_def Let_def)
    have "\<not> is_low_surrogate (line ! (c + 2))" if "c + 2 < length line"
      using that assms(1) True not_both_surrogates unfolding tidy_def by force
    moreover have "drop (Suc c) line = line ! Suc c # drop (c + 2) line" using True by (simp add: Cons_nth_drop_Suc)
    ultimately show ?thesis using n h True d by (auto simp: boundary_def)
  next
    case False
    then have n: "?n = Suc c" using assms(3) by (auto simp: next_index_def Let_def)
    then show ?thesis using False assms(3) d by (auto simp: boundary_def)
  qed
  then show "c < ?n" "boundary line ?n" "chars (take (?n - c) (drop c line)) = [take (?n - c) (drop c line)]" by auto
qed

section \<open>An editor on two lists of characters\<close>

text \<open>The characters before the cursor and those behind it.\<close>

type_synonym zipper = "wstring list \<times> wstring list"

definition edit_abs :: "LineEdit \<Rightarrow> zipper" where
  "edit_abs e = (chars (take (le_cursor e) (le_line e)), chars (drop (le_cursor e) (le_line e)))"

definition delimiter :: "wstring \<Rightarrow> bool" where
  "delimiter ch \<longleftrightarrow> ch = [0x20] \<or> ch = [0x09]"

fun z_backspace :: "zipper \<Rightarrow> zipper" where
  "z_backspace (l, r) = (butlast l, r)"

fun z_delete :: "zipper \<Rightarrow> zipper" where
  "z_delete (l, r) = (l, tl r)"

fun z_left :: "zipper \<Rightarrow> zipper" where
  "z_left (l, r) = (if l = [] then (l, r) else (butlast l, last l # r))"

fun z_right :: "zipper \<Rightarrow> zipper" where
  "z_right (l, r) = (if r = [] then (l, r) else (l @ [hd r], tl r))"

text \<open>Moves by words: over delimiters and then a word, or over the rest of a word and then delimiters.\<close>

definition strip_end :: "(wstring \<Rightarrow> bool) \<Rightarrow> wstring list \<Rightarrow> wstring list" where
  "strip_end P l = rev (dropWhile P (rev l))"

fun z_word_left :: "zipper \<Rightarrow> zipper" where
  "z_word_left (l, r) = (let l' = strip_end (\<lambda>ch. \<not> delimiter ch) (strip_end delimiter l) in (l', drop (length l') l @ r))"

fun z_word_right :: "zipper \<Rightarrow> zipper" where
  "z_word_right (l, r) = (let r' = dropWhile delimiter (dropWhile (\<lambda>ch. \<not> delimiter ch) r) in (l @ take (length r - length r') r, r'))"

fun z_insert :: "bool \<Rightarrow> wchar \<Rightarrow> zipper \<Rightarrow> zipper" where
  "z_insert ins v (l, r) = (chars (concat l @ [v]), if ins then r else tl r)"

fun z_key :: "edit_vkey \<Rightarrow> bool \<Rightarrow> nat \<Rightarrow> zipper \<Rightarrow> zipper" where
  "z_key VkInsert ctrl n z = z"
| "z_key VkEscape ctrl n z = ([], [])"
| "z_key VkHome ctrl n (l, r) = ([], if ctrl then r else l @ r)"
| "z_key VkEnd ctrl n (l, r) = (if ctrl then l else l @ r, [])"
| "z_key VkLeft ctrl n z = ((if ctrl then z_word_left else z_left) ^^ n) z"
| "z_key VkRight ctrl n z = ((if ctrl then z_word_right else z_right) ^^ n) z"
| "z_key VkDelete ctrl n z = (z_delete ^^ n) z"

text \<open>The lines and cursors the refinement is about.\<close>

definition tidy_edit :: "LineEdit \<Rightarrow> bool" where
  "tidy_edit e \<longleftrightarrow> tidy (le_line e) \<and> boundary (le_line e) (le_cursor e)"

lemma normalize_tidy: "tidy_edit e \<Longrightarrow> normalize_cursor e = e"
  using boundary_ok normalize_id by (simp add: tidy_edit_def)

text \<open>Cutting a tidy line between two boundaries.\<close>

lemma tidy_cut:
  assumes "tidy line" and "boundary line p" and "boundary line q" and "p \<le> q"
  shows "tidy (take p line @ drop q line)" and "boundary (take p line @ drop q line) p"
proof -
  have p: "p \<le> length line" using assms(2) by (simp add: boundary_def)
  show "tidy (take p line @ drop q line)"
    unfolding tidy_def
  proof (intro allI impI)
    fix i assume i: "i < length (take p line @ drop q line)" "is_low_surrogate ((take p line @ drop q line) ! i)"
    show "0 < i \<and> is_high_surrogate ((take p line @ drop q line) ! (i - 1))"
    proof (cases "i < p")
      case True
      then show ?thesis using i p assms(1) by (auto simp: tidy_def nth_append)
    next
      case False
      then have "(take p line @ drop q line) ! i = line ! (q + (i - p))" "q + (i - p) < length line"
        using i p by (auto simp: nth_append)
      moreover have "i \<noteq> p" using calculation i assms(3) by (auto simp: boundary_def)
      ultimately have "is_high_surrogate (line ! (q + (i - p) - 1))" using i assms(1) by (auto simp: tidy_def)
      moreover have "(take p line @ drop q line) ! (i - 1) = line ! (q + (i - 1 - p))"
        using False \<open>i \<noteq> p\<close> p i by (auto simp: nth_append)
      ultimately show ?thesis using False \<open>i \<noteq> p\<close> by (simp add: diff_right_commute)
    qed
  qed
  show "boundary (take p line @ drop q line) p" using assms(3) p by (auto simp: boundary_def nth_append)
qed

lemma tidy_edit_cut:
  assumes "tidy_edit e" and "boundary (le_line e) p" and "boundary (le_line e) q" and "p \<le> q"
  shows "tidy_edit (e\<lparr>le_line := erase_units p (q - p) (le_line e), le_cursor := p\<rparr>)"
  using tidy_cut [of "le_line e" p q] assms by (simp add: tidy_edit_def erase_units_def)

lemma tidy_edit_move: "tidy_edit e \<Longrightarrow> boundary (le_line e) c \<Longrightarrow> tidy_edit (e\<lparr>le_cursor := c\<rparr>)"
  by (simp add: tidy_edit_def)

lemma tidy_edit_fields:
  assumes "tidy_edit e"
  shows "tidy (le_line e)" "boundary (le_line e) (le_cursor e)" "le_cursor e \<le> length (le_line e)"
  using assms by (simp_all add: tidy_edit_def boundary_def)

section \<open>The editor refines it\<close>

lemma edit_abs_cut:
  assumes "tidy_edit e" and "boundary (le_line e) p" and "boundary (le_line e) q" and "p \<le> q"
  shows "edit_abs (e\<lparr>le_line := erase_units p (q - p) (le_line e), le_cursor := p\<rparr>) =
    (chars (take p (le_line e)), chars (drop q (le_line e)))"
  using assms by (simp add: edit_abs_def erase_units_def boundary_def)

lemma edit_abs_move: "edit_abs (e\<lparr>le_cursor := c\<rparr>) = (chars (take c (le_line e)), chars (drop c (le_line e)))"
  by (simp add: edit_abs_def)

lemma abs_back:
  assumes "tidy_edit e" and "le_cursor e \<noteq> 0"
  defines "p \<equiv> prev_index (le_line e) (le_cursor e)"
  shows "chars (take (le_cursor e) (le_line e)) = chars (take p (le_line e)) @ [take (le_cursor e - p) (drop p (le_line e))]"
    and "chars (drop p (le_line e)) = take (le_cursor e - p) (drop p (le_line e)) # chars (drop (le_cursor e) (le_line e))"
proof -
  note f = tidy_edit_fields [OF assms(1)]
  note c = prev_index_char [OF f(1,2) assms(2), folded p_def]
  show "chars (take (le_cursor e) (le_line e)) = chars (take p (le_line e)) @ [take (le_cursor e - p) (drop p (le_line e))]"
    using chars_take_slice [OF c(2) less_imp_le [OF c(1)]] unfolding c(3) .
  show "chars (drop p (le_line e)) = take (le_cursor e - p) (drop p (le_line e)) # chars (drop (le_cursor e) (le_line e))"
    using chars_slice [OF f(2) less_imp_le [OF c(1)]] unfolding c(3) by simp
qed

lemma abs_ahead:
  assumes "tidy_edit e" and "le_cursor e < length (le_line e)"
  defines "n \<equiv> next_index (le_line e) (le_cursor e)"
  shows "chars (take n (le_line e)) = chars (take (le_cursor e) (le_line e)) @ [take (n - le_cursor e) (drop (le_cursor e) (le_line e))]"
    and "chars (drop (le_cursor e) (le_line e)) = take (n - le_cursor e) (drop (le_cursor e) (le_line e)) # chars (drop n (le_line e))"
proof -
  note f = tidy_edit_fields [OF assms(1)]
  note c = next_index_char [OF f(1,2) assms(2), folded n_def]
  show "chars (take n (le_line e)) = chars (take (le_cursor e) (le_line e)) @ [take (n - le_cursor e) (drop (le_cursor e) (le_line e))]"
    using chars_take_slice [OF f(2) less_imp_le [OF c(1)]] unfolding c(3) .
  show "chars (drop (le_cursor e) (le_line e)) = take (n - le_cursor e) (drop (le_cursor e) (le_line e)) # chars (drop n (le_line e))"
    using chars_slice [OF c(2) less_imp_le [OF c(1)]] unfolding c(3) by simp
qed

text \<open>Each operation keeps the line tidy and does what the abstract editor does.\<close>

lemma erase_back_refines:
  assumes "tidy_edit e"
  shows "tidy_edit (fst (erase_back e)) \<and> edit_abs (fst (erase_back e)) = z_backspace (edit_abs e)"
proof (cases "le_cursor e = 0")
  case False
  note f = tidy_edit_fields [OF assms]
  note p = prev_index_char [OF f(1,2) False]
  note t = tidy_edit_cut [OF assms p(2) f(2)] and a = edit_abs_cut [OF assms p(2) f(2)]
  show ?thesis
    using False p(1) t a abs_back [OF assms False] by (simp add: erase_back_def Let_def normalize_tidy edit_abs_def)
qed (use assms in \<open>simp add: erase_back_def edit_abs_def\<close>)

lemma delete_step_refines:
  assumes "tidy_edit e" and "le_cursor e < length (le_line e)"
  shows "tidy_edit (fst (delete_step e)) \<and> edit_abs (fst (delete_step e)) = z_delete (edit_abs e)"
proof -
  note f = tidy_edit_fields [OF assms(1)]
  note n = next_index_char [OF f(1,2) assms(2)]
  note t = tidy_edit_cut [OF assms(1) f(2) n(2)] and a = edit_abs_cut [OF assms(1) f(2) n(2)]
  show ?thesis
    using n(1) t a abs_ahead [OF assms] by (simp add: delete_step_def Let_def normalize_tidy edit_abs_def)
qed

lemma left_step_refines:
  assumes "tidy_edit e" and "le_cursor e \<noteq> 0"
  shows "tidy_edit (fst (left_step False e)) \<and> edit_abs (fst (left_step False e)) = z_left (edit_abs e)"
  using tidy_edit_move [OF assms(1) prev_index_char(2)] tidy_edit_fields [OF assms(1)] assms(2) abs_back [OF assms]
  by (simp add: left_step_def Let_def normalize_tidy edit_abs_def)

lemma right_step_refines:
  assumes "tidy_edit e" and "le_cursor e < length (le_line e)"
  shows "tidy_edit (fst (right_step False e)) \<and> edit_abs (fst (right_step False e)) = z_right (edit_abs e)"
  using tidy_edit_move [OF assms(1) next_index_char(2)] tidy_edit_fields [OF assms(1)] assms(2) abs_ahead [OF assms]
  by (simp add: right_step_def Let_def normalize_tidy edit_abs_def)

text \<open>Moves by words.\<close>

lemma delimiter_char: "chars ch = [ch] \<Longrightarrow> delimiter ch \<longleftrightarrow> hd ch = 0x20 \<or> hd ch = 0x09"
  by (cases ch rule: chars.cases) (auto simp: delimiter_def is_high_surrogate_def split: if_splits)

lemma strip_end_simps [simp]:
  "strip_end P [] = []" "strip_end P (l @ [x]) = (if P x then strip_end P l else l @ [x])"
  by (simp_all add: strip_end_def)

lemma length_strip_end: "length (strip_end P l) \<le> length l"
  using length_dropWhile_le [of P "rev l"] by (simp add: strip_end_def)

lemma word_back_boundary:
  assumes "tidy line" and "boundary line pos"
  shows "boundary line (word_back line d pos) \<and> word_back line d pos \<le> pos
    \<and> chars (take (word_back line d pos) line) = strip_end (\<lambda>ch. delimiter ch = d) (chars (take pos line))"
  using assms
proof (induction line d pos rule: word_back.induct)
  case (1 line d pos)
  show ?case
  proof (cases "pos = 0")
    case False
    let ?p = "prev_index line pos" and ?ch = "take (pos - prev_index line pos) (drop (prev_index line pos) line)"
    note p = prev_index_char [OF "1.prems" False]
    have split: "chars (take pos line) = chars (take ?p line) @ [?ch]"
      using chars_take_slice [OF p(2) less_imp_le [OF p(1)]] unfolding p(3) .
    have "?p < length line" using p(1) "1.prems"(2) by (simp add: boundary_def)
    then have d: "is_word_delimiter line ?p = delimiter ?ch"
      unfolding delimiter_char [OF p(3)] using p(1) by (simp add: is_word_delimiter_def hd_drop_conv_nth)
    show ?thesis
      using False p(1) "1.IH" [OF _ "1.prems"(1) p(2)] "1.prems"(2)
      by (auto simp: word_back.simps [of line d pos] d split)
  qed (use "1.prems" in \<open>simp add: word_back.simps\<close>)
qed

lemma word_forward_boundary:
  assumes "tidy line" and "boundary line pos"
  shows "boundary line (word_forward line d pos) \<and> pos \<le> word_forward line d pos
    \<and> chars (drop (word_forward line d pos) line) = dropWhile (\<lambda>ch. delimiter ch = d) (chars (drop pos line))"
  using assms
proof (induction line d pos rule: word_forward.induct)
  case (1 line d pos)
  show ?case
  proof (cases "pos < length line")
    case True
    let ?n = "next_index line pos" and ?ch = "take (next_index line pos - pos) (drop pos line)"
    note n = next_index_char [OF "1.prems" True]
    have split: "chars (drop pos line) = ?ch # chars (drop ?n line)"
      using chars_slice [OF n(2) less_imp_le [OF n(1)]] unfolding n(3) by simp
    have d: "is_word_delimiter line pos = delimiter ?ch"
      unfolding delimiter_char [OF n(3)] using n(1) True by (simp add: is_word_delimiter_def hd_drop_conv_nth)
    show ?thesis
      using True n(1) "1.IH" [OF _ "1.prems"(1) n(2)] "1.prems"(2)
      by (auto simp: word_forward.simps [of line d pos] d split)
  qed (use "1.prems" in \<open>auto simp: word_forward.simps boundary_def\<close>)
qed

lemma append_cut_end:
  assumes "xs @ r' = l @ r" and "length r' \<le> length r"
  shows "xs = l @ take (length r - length r') r"
proof -
  have "xs = take (length xs) (l @ r)" by (simp flip: assms(1))
  moreover have "length xs = length l + (length r - length r')" using assms(2) arg_cong [OF assms(1), of length] by simp
  ultimately show ?thesis by simp
qed

lemma word_step_left:
  assumes "tidy_edit e"
  shows "tidy_edit (fst (left_step True e)) \<and> edit_abs (fst (left_step True e)) = z_word_left (edit_abs e)
    \<and> word_prev (le_line e) (le_cursor e) \<le> le_cursor e"
proof -
  let ?line = "le_line e" and ?c = "le_cursor e"
  note f = tidy_edit_fields [OF assms]
  note a = word_back_boundary [OF f(1,2), of True]
  note b = word_back_boundary [OF f(1) conjunct1 [OF a], of False, folded word_prev_def]
  let ?l = "chars (take ?c ?line)" and ?l' = "chars (take (word_prev ?line ?c) ?line)"
  have l': "?l' = strip_end (\<lambda>ch. \<not> delimiter ch) (strip_end delimiter ?l)" using a b by simp
  have "length ?l' \<le> length ?l"
    unfolding l' by (meson length_strip_end order_trans)
  moreover have "?l' @ chars (drop (word_prev ?line ?c) ?line) = ?l @ chars (drop ?c ?line)"
    using chars_split [OF conjunct1 [OF b]] chars_split [OF f(2)] by simp
  ultimately have "chars (drop (word_prev ?line ?c) ?line) = drop (length ?l') ?l @ chars (drop ?c ?line)"
    by (metis append_eq_conv_conj drop_append diff_is_0_eq drop0)
  then show ?thesis
    using a b tidy_edit_move [OF assms, of "word_prev ?line ?c"] l'
    by (simp add: left_step_def Let_def normalize_tidy edit_abs_def)
qed

lemma word_step_right:
  assumes "tidy_edit e"
  shows "tidy_edit (fst (right_step True e)) \<and> edit_abs (fst (right_step True e)) = z_word_right (edit_abs e)
    \<and> le_cursor e \<le> word_next (le_line e) (le_cursor e)"
proof -
  let ?line = "le_line e" and ?c = "le_cursor e"
  note f = tidy_edit_fields [OF assms]
  note a = word_forward_boundary [OF f(1,2), of False]
  note b = word_forward_boundary [OF f(1) conjunct1 [OF a], of True, folded word_next_def]
  let ?r = "chars (drop ?c ?line)" and ?r' = "chars (drop (word_next ?line ?c) ?line)"
  have r': "?r' = dropWhile delimiter (dropWhile (\<lambda>ch. \<not> delimiter ch) ?r)" using a b by simp
  have "length ?r' \<le> length ?r"
    unfolding r' by (meson length_dropWhile_le order_trans)
  moreover have "chars (take (word_next ?line ?c) ?line) @ ?r' = chars (take ?c ?line) @ ?r"
    using chars_split [OF conjunct1 [OF b]] chars_split [OF f(2)] by simp
  ultimately have "chars (take (word_next ?line ?c) ?line) = chars (take ?c ?line) @ take (length ?r - length ?r') ?r"
    by (rule append_cut_end [rotated])
  then show ?thesis
    using a b tidy_edit_move [OF assms, of "word_next ?line ?c"] r'
    by (simp add: right_step_def Let_def normalize_tidy edit_abs_def)
qed

text \<open>A low surrogate may be typed behind a high one.\<close>

definition pairs_up :: "wchar \<Rightarrow> wstring \<Rightarrow> bool" where
  "pairs_up v before \<longleftrightarrow> \<not> is_low_surrogate v \<or> (before \<noteq> [] \<and> is_high_surrogate (last before))"

lemma tidy_insert:
  assumes "tidy line" and "boundary line c" and "pairs_up v (take c line)"
  shows "tidy (take c line @ v # drop c line)" and "boundary (take c line @ v # drop c line) (Suc c)"
proof -
  have c: "c \<le> length line" using assms(2) by (simp add: boundary_def)
  let ?new = "take c line @ v # drop c line"
  show "tidy ?new"
    unfolding tidy_def
  proof (intro allI impI)
    fix i assume i: "i < length ?new" "is_low_surrogate (?new ! i)"
    consider "i < c" | "i = c" | "i > c" by linarith
    then show "0 < i \<and> is_high_surrogate (?new ! (i - 1))"
    proof cases
      case 1
      then show ?thesis using i c assms(1) by (auto simp: tidy_def nth_append)
    next
      case 2
      then have "c \<noteq> 0" "is_high_surrogate (line ! (c - 1))"
        using i c assms(3) by (auto simp: pairs_up_def nth_append last_conv_nth)
      then show ?thesis using 2 c by (auto simp: nth_append)
    next
      case 3
      then have e: "?new ! i = line ! (i - 1)" "i - 1 < length line" using i c by (auto simp: nth_append nth_Cons')
      then have "i - 1 \<noteq> c" using i assms(2) by (auto simp: boundary_def)
      moreover have "is_high_surrogate (line ! (i - 1 - 1))" "0 < i - 1" using i e assms(1) by (auto simp: tidy_def)
      ultimately show ?thesis using 3 c i by (auto simp: nth_append nth_Cons' numeral_2_eq_2)
    qed
  qed
  show "boundary ?new (Suc c)" using assms(2) c by (auto simp: boundary_def nth_append)
qed

lemma insert_unit_refines:
  assumes "tidy_edit e" and "pairs_up v (take (le_cursor e) (le_line e))"
  shows "tidy_edit (fst (insert_unit v e)) \<and> edit_abs (fst (insert_unit v e)) = z_insert (le_insert e) v (edit_abs e)
    \<and> le_insert (fst (insert_unit v e)) = le_insert e"
proof -
  note f = tidy_edit_fields [OF assms(1)]
  let ?c = "le_cursor e"
  define n where "n = (if \<not> le_insert e \<and> ?c < length (le_line e) then next_index (le_line e) ?c - ?c else 0)"
  define line where "line = (if n \<noteq> 0 then erase_units ?c n (le_line e) else le_line e)"
  have l: "tidy line \<and> boundary line ?c \<and> take ?c line = take ?c (le_line e)
      \<and> chars (drop ?c line) = (if le_insert e then chars (drop ?c (le_line e)) else tl (chars (drop ?c (le_line e))))"
  proof (cases "\<not> le_insert e \<and> ?c < length (le_line e)")
    case True
    note i = next_index_char [OF f(1,2) conjunct2 [OF True]]
    have "n = next_index (le_line e) ?c - ?c" "n \<noteq> 0" "?c + n = next_index (le_line e) ?c" using True i(1) by (simp_all add: n_def)
    then show ?thesis
      using tidy_cut [OF f(1,2) i(2)] i(1) abs_ahead(2) [OF assms(1)] True f(3) by (simp add: line_def erase_units_def)
  next
    case False
    then have "n = 0" unfolding n_def by (rule if_not_P)
    then show ?thesis using False f by (auto simp: line_def)
  qed
  let ?e = "e\<lparr>le_line := take ?c line @ v # drop ?c line, le_cursor := ?c + 1\<rparr>"
  have "pairs_up v (take ?c line)" using l assms(2) by simp
  then have t: "tidy_edit ?e" using tidy_insert [of line ?c v] l by (simp add: tidy_edit_def)
  have "length (take ?c line) = ?c" using l f(3) by simp
  then have "take (Suc ?c) (le_line ?e) = take ?c (le_line e) @ [v]" "drop (Suc ?c) (le_line ?e) = drop ?c line" using l by simp_all
  moreover have "fst (insert_unit v e) = ?e"
    unfolding insert_unit_def Let_def unfolding n_def [symmetric] unfolding line_def [symmetric]
    using normalize_tidy [OF t] by simp
  ultimately show ?thesis using t l by (simp add: edit_abs_def)
qed

section \<open>Whole sessions\<close>

lemma repeat_edit_refines:
  assumes step: "\<And>e. I e \<Longrightarrow> \<not> stop e \<Longrightarrow> I (fst (step e)) \<and> A (fst (step e)) = z (A e)"
    and stop: "\<And>e. I e \<Longrightarrow> stop e \<Longrightarrow> z (A e) = A e" and "I e"
  shows "I (fst (repeat_edit stop step n e)) \<and> A (fst (repeat_edit stop step n e)) = (z ^^ n) (A e)"
  using assms(3)
proof (induction n arbitrary: e)
  case (Suc n)
  show ?case
  proof (cases "stop e")
    case True
    then have "(z ^^ n) (A e) = A e" for n by (induction n) (simp_all add: stop Suc.prems)
    then show ?thesis using True Suc.prems by (simp add: stop)
  next
    case False
    then show ?thesis using Suc.IH [of "fst (step e)"] step [OF Suc.prems] by (simp add: split_beta funpow_swap1)
  qed
qed simp

lemma repeat_edit_insert:
  assumes "\<And>e. le_insert (fst (step e)) = le_insert e"
  shows "le_insert (fst (repeat_edit stop step n e)) = le_insert e"
  by (induction n arbitrary: e) (simp_all add: assms split_beta)

lemma edit_key_refines:
  assumes "tidy_edit e"
  shows "tidy_edit (fst (edit_key k ctrl n e)) \<and> edit_abs (fst (edit_key k ctrl n e)) = z_key k ctrl n (edit_abs e)"
proof (cases k)
  case VkInsert
  then show ?thesis using assms by (simp add: tidy_edit_def edit_abs_def)
next
  case VkEscape
  then show ?thesis using assms by (auto simp: escape_key_def normalize_tidy tidy_edit_def tidy_def edit_abs_def boundary_def)
next
  case VkHome
  note f = tidy_edit_fields [OF assms]
  then show ?thesis
    using VkHome assms tidy_edit_cut [OF assms boundary_ends(2) [OF f(1)] f(2)] tidy_edit_move [OF assms boundary_ends(2) [OF f(1)]]
      edit_abs_cut [OF assms boundary_ends(2) [OF f(1)] f(2)] chars_split [OF f(2), symmetric]
    by (cases "le_cursor e = 0"; cases ctrl) (simp_all add: home_key_def Let_def normalize_tidy edit_abs_def)
next
  case VkEnd
  note f = tidy_edit_fields [OF assms]
  then show ?thesis
    using VkEnd assms tidy_edit_cut [OF assms f(2) boundary_ends(1) f(3)] tidy_edit_move [OF assms boundary_ends(1)]
      edit_abs_cut [OF assms f(2) boundary_ends(1) f(3)] chars_split [OF f(2), symmetric]
    by (cases "le_cursor e < length (le_line e)"; cases ctrl) (simp_all add: end_key_def Let_def normalize_tidy edit_abs_def)
next
  case VkLeft
  have "tidy_edit (fst (left_step ctrl e)) \<and> edit_abs (fst (left_step ctrl e)) = (if ctrl then z_word_left else z_left) (edit_abs e)"
    if "tidy_edit e" "le_cursor e \<noteq> 0" for e
    using left_step_refines [OF that] word_step_left [OF that(1)] by (cases ctrl) auto
  note r = repeat_edit_refines [where I = tidy_edit and A = edit_abs and z = "if ctrl then z_word_left else z_left"
      and step = "left_step ctrl" and stop = "\<lambda>e. le_cursor e = 0", OF this _ assms]
  show ?thesis using VkLeft r by (cases ctrl) (simp_all add: left_key_def edit_abs_def Let_def)
next
  case VkRight
  have "tidy_edit (fst (right_step ctrl e)) \<and> edit_abs (fst (right_step ctrl e)) = (if ctrl then z_word_right else z_right) (edit_abs e)"
    if "tidy_edit e" "\<not> le_cursor e \<ge> length (le_line e)" for e
    using right_step_refines [of e] word_step_right [OF that(1)] that by (cases ctrl) auto
  note r = repeat_edit_refines [where I = tidy_edit and A = edit_abs and z = "if ctrl then z_word_right else z_right"
      and step = "right_step ctrl" and stop = "\<lambda>e. le_cursor e \<ge> length (le_line e)", OF this _ assms]
  show ?thesis using VkRight r by (cases ctrl) (simp_all add: right_key_def edit_abs_def Let_def)
next
  case VkDelete
  have "tidy_edit (fst (delete_step e)) \<and> edit_abs (fst (delete_step e)) = z_delete (edit_abs e)"
    if "tidy_edit e" "\<not> (le_cursor e \<ge> length (le_line e) \<or> next_index (le_line e) (le_cursor e) - le_cursor e = 0)" for e
    using delete_step_refines [of e] that by auto
  note r = repeat_edit_refines [where I = tidy_edit and A = edit_abs and z = z_delete and step = delete_step
      and stop = "\<lambda>e. le_cursor e \<ge> length (le_line e) \<or> next_index (le_line e) (le_cursor e) - le_cursor e = 0", OF this _ assms]
  have "drop (le_cursor e) (le_line e) = []"
    if "tidy_edit e" "le_cursor e \<ge> length (le_line e) \<or> next_index (le_line e) (le_cursor e) - le_cursor e = 0" for e
    using that next_index_char(1) [of "le_line e" "le_cursor e"] tidy_edit_fields [OF that(1)] by force
  with r show ?thesis using VkDelete by (simp add: delete_key_def edit_abs_def)
qed

lemma edit_key_mode:
  "le_insert (fst (edit_key k ctrl n e)) = (if k = VkInsert \<and> odd n then \<not> le_insert e else le_insert e)"
proof -
  have r: "le_insert (fst (left_key ctrl n e)) = le_insert e" "le_insert (fst (right_key ctrl n e)) = le_insert e"
    "le_insert (fst (delete_key n e)) = le_insert e"
    unfolding left_key_def right_key_def delete_key_def
    by (rule repeat_edit_insert; simp add: left_step_def right_step_def delete_step_def Let_def)+
  show ?thesis
    by (cases k) (simp_all add: r escape_key_def home_key_def end_key_def Let_def odd_iff_mod_2_eq_one)
qed

text \<open>What a user does to a line: units typed (backspace among them) and editing keys.\<close>

datatype edit_event = Typed wchar | Pressed edit_vkey bool nat

fun apply_edit :: "edit_event \<Rightarrow> LineEdit \<Rightarrow> edit" where
  "apply_edit (Typed v) e = (if v = 0x08 then erase_back e else insert_unit v e)"
| "apply_edit (Pressed k ctrl n) e = edit_key k ctrl n e"

fun z_apply :: "edit_event \<Rightarrow> zipper \<times> bool \<Rightarrow> zipper \<times> bool" where
  "z_apply (Typed v) (z, ins) = (if v = 0x08 then z_backspace z else z_insert ins v z, ins)"
| "z_apply (Pressed k ctrl n) (z, ins) = (z_key k ctrl n z, if k = VkInsert \<and> odd n then \<not> ins else ins)"

fun acceptable :: "edit_event \<Rightarrow> zipper \<Rightarrow> bool" where
  "acceptable (Typed v) (l, r) = pairs_up v (concat l)"
| "acceptable (Pressed k ctrl n) z = True"

fun well_typed :: "edit_event list \<Rightarrow> zipper \<times> bool \<Rightarrow> bool" where
  "well_typed [] z = True"
| "well_typed (ev # evs) z = (acceptable ev (fst z) \<and> well_typed evs (z_apply ev z))"

lemma apply_edit_refines:
  assumes "tidy_edit e" and "acceptable ev (edit_abs e)"
  shows "tidy_edit (fst (apply_edit ev e))
    \<and> (edit_abs (fst (apply_edit ev e)), le_insert (fst (apply_edit ev e))) = z_apply ev (edit_abs e, le_insert e)"
proof (cases ev)
  case (Typed v)
  have "le_insert (fst (erase_back e)) = le_insert e" by (simp add: erase_back_def Let_def)
  moreover have "pairs_up v (take (le_cursor e) (le_line e))" using assms(2) Typed by (simp add: edit_abs_def)
  ultimately show ?thesis using Typed erase_back_refines [OF assms(1)] insert_unit_refines [OF assms(1)] by auto
next
  case (Pressed k ctrl n)
  then show ?thesis using edit_key_refines [OF assms(1)] by (simp add: edit_key_mode)
qed

lemma session_refines:
  "tidy_edit e \<Longrightarrow> well_typed evs (edit_abs e, le_insert e) \<Longrightarrow>
    (let e' = fold (\<lambda>ev e. fst (apply_edit ev e)) evs e
     in tidy_edit e' \<and> (edit_abs e', le_insert e') = fold z_apply evs (edit_abs e, le_insert e))"
proof (induction evs arbitrary: e)
  case (Cons ev evs)
  show ?case
    using Cons.IH [of "fst (apply_edit ev e)"] apply_edit_refines [of e ev] Cons.prems by simp
qed simp

lemma new_line_tidy: "tidy_edit \<lparr>le_line = [], le_cursor = 0, le_insert = b\<rparr>"
  by (simp add: tidy_edit_def tidy_def boundary_def)

lemma edit_line: "le_line e = concat (fst (edit_abs e)) @ concat (snd (edit_abs e))"
  by (simp add: edit_abs_def)

text \<open>
  C5. The line editor is an editor of characters. Whatever is typed and whichever editing keys are
  pressed, with and without control and with any repeat counts, the line is the characters before
  the cursor followed by those behind it of the abstract editor, whose operations are the obvious
  ones on two lists: backspace drops the last character on the left, delete the first on the right,
  words are passed as runs of delimiters and others, insert and overwrite add at the end of the left
  list. Surrogate pairs count as one character; they may be typed unit by unit, as long as no low
  surrogate is typed without its high one.
\<close>

theorem line_editor_refines:
  assumes "tidy_edit e" and "well_typed evs (edit_abs e, le_insert e)"
  shows "let e' = fold (\<lambda>ev e. fst (apply_edit ev e)) evs e; ((l, r), ins) = fold z_apply evs (edit_abs e, le_insert e)
    in le_line e' = concat l @ concat r \<and> le_cursor e' = length (concat l) \<and> le_insert e' = ins
      \<and> chars (le_line e') = l @ r"
proof -
  define e' where "e' = fold (\<lambda>ev e. fst (apply_edit ev e)) evs e"
  have t: "tidy_edit e'" and z: "fold z_apply evs (edit_abs e, le_insert e) = (edit_abs e', le_insert e')"
    using session_refines [OF assms] by (simp_all add: Let_def e'_def)
  show ?thesis
    using chars_split [OF tidy_edit_fields(2) [OF t]] tidy_edit_fields(3) [OF t]
    unfolding e'_def [symmetric] z by (simp add: edit_abs_def)
qed

theorem line_editor_refines_witness:
  "le_line (fold (\<lambda>ev e. fst (apply_edit ev e))
      [Typed 0x61, Typed 0xD83D, Typed 0xDE00, Pressed VkLeft False 1, Typed 0x08, Typed 0x62]
      \<lparr>le_line = [], le_cursor = 0, le_insert = True\<rparr>) = [0x62, 0xD83D, 0xDE00]"
proof -
  let ?evs = "[Typed 0x61, Typed 0xD83D, Typed 0xDE00, Pressed VkLeft False 1, Typed 0x08, Typed 0x62]"
  let ?e = "\<lparr>le_line = [], le_cursor = 0, le_insert = True\<rparr>"
  have z: "fold z_apply ?evs (edit_abs ?e, le_insert ?e) = (([[0x62]], [[0xD83D, 0xDE00]]), True)"
    by (simp add: edit_abs_def is_high_surrogate_def is_low_surrogate_def)
  have "well_typed ?evs (edit_abs ?e, le_insert ?e)"
    by (simp add: edit_abs_def is_high_surrogate_def is_low_surrogate_def pairs_up_def)
  from line_editor_refines [OF new_line_tidy this] show ?thesis
    unfolding z by (simp add: Let_def)
qed

end
