(* ===== verification/Line_Display.thy ===== *)
theory Line_Display
  imports Line_Edit Vt_Sequences
begin

text \<open>
  What the echo of a cooked read shows. The interface \<open>line_display\<close> states what the editor relies
  on: printable text overwrites from the cursor and advances it, backspaces move it left. Over it,
  every operation of the editor leaves the display showing the new line with the cursor at its
  place. The interface is interpreted on a row of the screen buffer with
  \<open>apply_text_to_screen_buffer\<close>, which is what \<open>echo_text\<close> calls.
\<close>

section \<open>Sessions\<close>

lemma take_drop_rest [simp]: "take k ys @ drop k ys @ zs = ys @ zs"
  by (metis append.assoc append_take_drop_id)

text \<open>Typing and editing with echo, piece by piece, to a display.\<close>

definition session :: "(wstring \<Rightarrow> 's \<Rightarrow> 's) \<Rightarrow> edit_event list \<Rightarrow> LineEdit \<times> 's \<Rightarrow> LineEdit \<times> 's" where
  "session put evs es = fold (\<lambda>ev (e, s). (fst (apply_edit ev e), fold put (snd (apply_edit ev e)) s)) evs es"

lemma session_simps [simp]:
  "session put [] es = es"
  "session put (ev # evs) (e, s) = session put evs (fst (apply_edit ev e), fold put (snd (apply_edit ev e)) s)"
  by (simp_all add: session_def)

lemma session_line: "fst (session put evs (e, s)) = fold (\<lambda>ev e. fst (apply_edit ev e)) evs e"
  by (induction evs arbitrary: e s) simp_all

fun typed_visibly :: "edit_event \<Rightarrow> bool" where
  "typed_visibly (Typed v) = (v = 0x08 \<or> printable v)"
| "typed_visibly (Pressed k ctrl n) = True"

fun new_units :: "edit_event \<Rightarrow> nat" where
  "new_units (Typed v) = 1"
| "new_units (Pressed k ctrl n) = 0"

lemma length_erase_units: "length (erase_units i n line) \<le> length line"
  by (auto simp: erase_units_def)

lemma length_apply_edit: "length (le_line (fst (apply_edit ev e))) \<le> length (le_line e) + new_units ev"
proof -
  have unit: "length (le_line (fst (erase_back e))) \<le> length (le_line e)"
    "length (le_line (fst (insert_unit v e))) \<le> length (le_line e) + 1" for v
    using length_erase_units by (auto simp: erase_back_def insert_unit_def Let_def erase_units_def)
  have "length (le_line (fst (repeat_edit stop step n e))) \<le> length (le_line e)"
    if "\<And>e. length (le_line (fst (step e))) \<le> length (le_line e)" for stop step n
    by (rule repeat_edit_keeps [where P = "\<lambda>e'. length (le_line e') \<le> length (le_line e)"]) (use that order_trans in blast, simp)
  then have "length (le_line (fst (edit_key k ctrl n e))) \<le> length (le_line e)" for k ctrl n
    by (cases k) (simp_all add: escape_key_def home_key_def end_key_def left_key_def right_key_def delete_key_def left_step_def
        right_step_def delete_step_def Let_def length_erase_units)
  then show ?thesis using unit by (cases ev) (simp_all add: le_SucI)
qed

section \<open>The interface\<close>

text \<open>\<open>outside\<close> is what echo must leave alone.\<close>

locale line_display =
  fixes ready :: "'s \<Rightarrow> bool" and put :: "wstring \<Rightarrow> 's \<Rightarrow> 's" and shown :: "'s \<Rightarrow> wstring" and column :: "'s \<Rightarrow> nat"
    and outside :: "'s \<Rightarrow> 'o"
  assumes write_units: "ready s \<Longrightarrow> list_all printable us \<Longrightarrow> column s + length us < length (shown s) \<Longrightarrow>
      ready (put us s) \<and> shown (put us s) = take (column s) (shown s) @ us @ drop (column s + length us) (shown s)
      \<and> column (put us s) = column s + length us \<and> outside (put us s) = outside s"
    and write_backspaces: "ready s \<Longrightarrow> n \<le> column s \<Longrightarrow>
      ready (put (replicate n 0x08) s) \<and> shown (put (replicate n 0x08) s) = shown s
      \<and> column (put (replicate n 0x08) s) = column s - n \<and> outside (put (replicate n 0x08) s) = outside s"
begin

text \<open>The display is ready, shows \<open>xs\<close> before the cursor and \<open>zs\<close> from it on.\<close>

definition showing :: "'o \<Rightarrow> 's \<Rightarrow> wstring \<Rightarrow> wstring \<Rightarrow> bool" where
  "showing out s xs zs \<longleftrightarrow> ready s \<and> shown s = xs @ zs \<and> column s = length xs \<and> outside s = out"

abbreviation echo :: "wstring list \<Rightarrow> 's \<Rightarrow> 's" where
  "echo ps s \<equiv> fold put ps s"

lemma at_write:
  "showing out s xs (ys @ zs) \<Longrightarrow> list_all printable us \<Longrightarrow> length us = length ys \<Longrightarrow> zs \<noteq> [] \<Longrightarrow> showing out (put us s) (xs @ us) zs"
  using write_units [of s us] by (simp add: showing_def)

lemma at_backspaces: "showing out s (xs @ ys) zs \<Longrightarrow> length ys = n \<Longrightarrow> showing out (echo (echo_backspaces n) s) xs (ys @ zs)"
proof (induction n arbitrary: s ys zs rule: less_induct)
  case (less n)
  show ?case
  proof (cases "n = 0")
    case False
    let ?m = "min n 64" and ?s = "put (replicate (min n 64) 0x08) s"
    let ?a = "take (n - ?m) ys" and ?b = "drop (n - ?m) ys"
    have "showing out ?s (xs @ ?a) (?b @ zs)"
      using less.prems write_backspaces [of s ?m] by (auto simp: showing_def)
    from less.IH [OF _ this] have "showing out (echo (echo_backspaces (n - ?m)) ?s) xs (?a @ ?b @ zs)"
      using False less.prems(2) by simp
    then show ?thesis using False by (simp add: echo_repeat.simps [of _ n])
  qed (use less.prems in \<open>simp add: echo_repeat.simps\<close>)
qed

lemma at_spaces:
  "showing out s xs (ys @ zs) \<Longrightarrow> length ys = n \<Longrightarrow> zs \<noteq> [] \<Longrightarrow> showing out (echo (echo_spaces n) s) (xs @ replicate n 0x20) zs"
proof (induction n arbitrary: s xs ys rule: less_induct)
  case (less n)
  show ?case
  proof (cases "n = 0")
    case False
    let ?m = "min n 64" and ?s = "put (replicate (min n 64) 0x20) s"
    have "showing out s xs (take ?m ys @ (drop ?m ys @ zs))" using less.prems(1) by simp
    from at_write [OF this] have "showing out ?s (xs @ replicate ?m 0x20) (drop ?m ys @ zs)"
      using less.prems(2,3) by (simp add: printable_def list_all_length)
    from less.IH [OF _ this] have "showing out (echo (echo_spaces (n - ?m)) ?s) ((xs @ replicate ?m 0x20) @ replicate (n - ?m) 0x20) zs"
      using False less.prems(2,3) by simp
    moreover have "replicate ?m (0x20 :: wchar) @ replicate (n - ?m) 0x20 = replicate n 0x20" by (simp flip: replicate_add)
    ultimately show ?thesis using False by (simp add: echo_repeat.simps [of _ n])
  qed (use less.prems in \<open>simp add: echo_repeat.simps\<close>)
qed

text \<open>The line behind the cursor is written anew over what was removed, and the rest is blanked.\<close>

definition tail_piece :: "wstring \<Rightarrow> wstring list" where
  "tail_piece b = (if b = [] then [] else [b])"

lemma at_tail: "showing out s xs (ys @ zs) \<Longrightarrow> list_all printable b \<Longrightarrow> length b = length ys \<Longrightarrow> zs \<noteq> [] \<Longrightarrow>
    showing out (echo (tail_piece b) s) (xs @ b) zs"
  using at_write [of out s xs ys zs b] by (auto simp: tail_piece_def)

lemma at_redraw:
  assumes "showing out s xs (ys @ replicate k 0x20)" and "length ys = length b + n" and "list_all printable b" and "k \<noteq> 0"
  shows "showing out (echo (tail_piece b @ echo_spaces n @ echo_backspaces (length b + n)) s) xs (b @ replicate (n + k) 0x20)"
proof -
  let ?m = "length b"
  have "showing out s xs (take ?m ys @ (drop ?m ys @ replicate k 0x20))" using assms(1) by simp
  from at_tail [OF this assms(3)] have "showing out (echo (tail_piece b) s) (xs @ b) (drop ?m ys @ replicate k 0x20)"
    using assms(2,4) by simp
  from at_spaces [OF this, of n] have "showing out (echo (tail_piece b @ echo_spaces n) s) (xs @ (b @ replicate n 0x20)) (replicate k 0x20)"
    using assms(2,4) by simp
  from at_backspaces [OF this, of "?m + n"] show ?thesis by (simp add: replicate_add)
qed

text \<open>A display that shows a line behind \<open>pre\<close>: then only blanks follow, one at least.\<close>

definition shows_line :: "'o \<Rightarrow> wstring \<Rightarrow> nat \<Rightarrow> LineEdit \<Rightarrow> 's \<Rightarrow> bool" where
  "shows_line out pre width e s \<longleftrightarrow>
    (\<exists>k. k \<noteq> 0 \<and> length pre + length (le_line e) + k = width
      \<and> showing out s (pre @ take (le_cursor e) (le_line e)) (drop (le_cursor e) (le_line e) @ replicate k 0x20))"

lemma echo_range_tail: "echo_range line c (length line) = tail_piece (drop c line)"
  by (auto simp: echo_range_def tail_piece_def)

text \<open>A line whose cursor is at \<open>q\<close> loses the units from \<open>p\<close> to \<open>q\<close> or stays where it is.\<close>

lemma shows_lineI:
  "showing out s (pre @ a) (b @ replicate k 0x20) \<Longrightarrow> k \<noteq> 0 \<Longrightarrow> length pre + length a + length b + k = width \<Longrightarrow>
    le_line e = a @ b \<Longrightarrow> le_cursor e = length a \<Longrightarrow> shows_line out pre width e s"
  by (auto simp: shows_line_def)

lemma shows_lineD:
  assumes "shows_line out pre width e s" and "p \<le> le_cursor e" and "le_cursor e \<le> length (le_line e)"
  obtains k where "k \<noteq> 0" "length pre + length (le_line e) + k = width"
    "showing out (echo (echo_backspaces (le_cursor e - p)) s) (pre @ take p (le_line e)) (drop p (le_line e) @ replicate k 0x20)"
proof -
  obtain k where k: "k \<noteq> 0" "length pre + length (le_line e) + k = width"
    "showing out s (pre @ take (le_cursor e) (le_line e)) (drop (le_cursor e) (le_line e) @ replicate k 0x20)"
    using assms(1) by (auto simp: shows_line_def)
  have "take (le_cursor e) (le_line e) = take p (le_line e) @ take (le_cursor e - p) (drop p (le_line e))"
    using assms(2) by (simp add: take_add [symmetric])
  moreover have "take (le_cursor e - p) (drop p (le_line e)) @ drop (le_cursor e) (le_line e) = drop p (le_line e)"
    using assms(2) append_take_drop_id [of "le_cursor e - p" "drop p (le_line e)"] by simp
  ultimately show ?thesis
    using that k at_backspaces [of out s "pre @ take p (le_line e)" "take (le_cursor e - p) (drop p (le_line e))"
        "drop (le_cursor e) (le_line e) @ replicate k 0x20" "le_cursor e - p"] assms(2,3)
    by (simp flip: append_assoc)
qed

lemma shows_cut:
  assumes "shows_line out pre width e s" and "p \<le> le_cursor e" and "le_cursor e \<le> q" and "q \<le> length (le_line e)"
    and "list_all printable (le_line e)"
  shows "shows_line out pre width (e\<lparr>le_line := erase_units p (q - p) (le_line e), le_cursor := p\<rparr>)
    (echo (echo_backspaces (le_cursor e - p) @ tail_piece (drop q (le_line e)) @ echo_spaces (q - p)
      @ echo_backspaces (length (le_line e) - q + (q - p))) s)"
proof -
  have pq: "p \<le> q" "p \<le> length (le_line e)" using assms(2-4) by linarith+
  obtain k where k: "k \<noteq> 0" "length pre + length (le_line e) + k = width"
    "showing out (echo (echo_backspaces (le_cursor e - p)) s) (pre @ take p (le_line e)) (drop p (le_line e) @ replicate k 0x20)"
    using shows_lineD [OF assms(1,2) order_trans [OF assms(3,4)]] .
  have "list_all printable (drop q (le_line e))" using assms(5) by (meson in_set_dropD list_all_iff)
  from at_redraw [OF k(3) _ this k(1), of "q - p"]
  have "showing out (echo (echo_backspaces (le_cursor e - p) @ tail_piece (drop q (le_line e)) @ echo_spaces (q - p)
      @ echo_backspaces (length (le_line e) - q + (q - p))) s) (pre @ take p (le_line e)) (drop q (le_line e) @ replicate (q - p + k) 0x20)"
    using pq assms(4) by simp
  then show ?thesis
    by (rule shows_lineI) (use k pq assms(4) in \<open>simp_all add: erase_units_def\<close>)
qed

lemma shows_move_left:
  assumes "shows_line out pre width e s" and "p \<le> le_cursor e" and "le_cursor e \<le> length (le_line e)"
  shows "shows_line out pre width (e\<lparr>le_cursor := p\<rparr>) (echo (echo_backspaces (le_cursor e - p)) s)"
proof -
  obtain k where "k \<noteq> 0" "length pre + length (le_line e) + k = width"
    "showing out (echo (echo_backspaces (le_cursor e - p)) s) (pre @ take p (le_line e)) (drop p (le_line e) @ replicate k 0x20)"
    using shows_lineD [OF assms] .
  then show ?thesis unfolding shows_line_def by (intro exI [of _ k]) simp
qed

lemma shows_move_right:
  assumes "shows_line out pre width e s" and "le_cursor e \<le> n" and "n \<le> length (le_line e)" and "list_all printable (le_line e)"
  shows "shows_line out pre width (e\<lparr>le_cursor := n\<rparr>) (echo (echo_range (le_line e) (le_cursor e) n) s)"
proof -
  let ?m = "le_cursor e" and ?line = "le_line e"
  obtain k where k: "k \<noteq> 0" "length pre + length ?line + k = width"
    "showing out s (pre @ take ?m ?line) (drop ?m ?line @ replicate k 0x20)"
    using assms(1) by (auto simp: shows_line_def)
  let ?b = "take (n - ?m) (drop ?m ?line)"
  have d: "drop ?m ?line = ?b @ drop n ?line" using append_take_drop_id [of "n - ?m" "drop ?m ?line"] assms(2) by simp
  have "showing out s (pre @ take ?m ?line) (?b @ drop n ?line @ replicate k 0x20)"
    using k(3) by (subst (asm) d) (simp only: append_assoc)
  moreover have "list_all printable ?b" using assms(4) by (auto simp: list_all_iff dest!: in_set_takeD in_set_dropD)
  ultimately have "showing out (echo (tail_piece ?b) s) ((pre @ take ?m ?line) @ ?b) (drop n ?line @ replicate k 0x20)"
    using k(1) by (intro at_tail) auto
  moreover have "take ?m ?line @ ?b = take n ?line" using assms(2) by (simp add: take_add [symmetric])
  moreover have "tail_piece ?b = echo_range ?line ?m n" using assms(2,3) by (auto simp: tail_piece_def echo_range_def)
  ultimately show ?thesis using k(1,2) unfolding shows_line_def by (intro exI [of _ k]) simp
qed

text \<open>The states the display theorems are about.\<close>

definition plain :: "LineEdit \<Rightarrow> bool" where
  "plain e \<longleftrightarrow> tidy_edit e \<and> list_all printable (le_line e)"

lemma plainD: "plain e \<Longrightarrow> tidy_edit e" "plain e \<Longrightarrow> list_all printable (le_line e)"
  "plain e \<Longrightarrow> tidy (le_line e)" "plain e \<Longrightarrow> boundary (le_line e) (le_cursor e)" "plain e \<Longrightarrow> le_cursor e \<le> length (le_line e)"
  by (auto simp: plain_def tidy_edit_def boundary_def)

lemma plain_cut:
  "plain e \<Longrightarrow> boundary (le_line e) p \<Longrightarrow> boundary (le_line e) q \<Longrightarrow> p \<le> q \<Longrightarrow>
    plain (e\<lparr>le_line := erase_units p (q - p) (le_line e), le_cursor := p\<rparr>)"
  using tidy_edit_cut [of e p q] by (auto simp: plain_def erase_units_def list_all_iff dest: in_set_takeD in_set_dropD)

lemma plain_move: "plain e \<Longrightarrow> boundary (le_line e) c \<Longrightarrow> plain (e\<lparr>le_cursor := c\<rparr>)"
  using tidy_edit_move [of e c] by (simp add: plain_def)

lemma plain_normal: "plain e \<Longrightarrow> normalize_cursor e = e"
  by (simp add: plain_def normalize_tidy)

text \<open>An operation that keeps the display in step with the line.\<close>

definition faithful :: "LineEdit \<Rightarrow> edit \<Rightarrow> bool" where
  "faithful e r \<longleftrightarrow> plain (fst r) \<and>
    (\<forall>out pre width s. shows_line out pre width e s \<longrightarrow> shows_line out pre width (fst r) (echo (snd r) s))"

lemma echo_none [simp]: "echo_repeat ch 0 = []" "tail_piece [] = []"
  by (simp_all add: echo_repeat.simps tail_piece_def)

lemma faithful_cut:
  assumes "plain e" and "boundary (le_line e) p" and "p \<le> le_cursor e" and "boundary (le_line e) q" and "le_cursor e \<le> q"
  shows "faithful e (e\<lparr>le_line := erase_units p (q - p) (le_line e), le_cursor := p\<rparr>,
    echo_backspaces (le_cursor e - p) @ tail_piece (drop q (le_line e)) @ echo_spaces (q - p)
      @ echo_backspaces (length (le_line e) - q + (q - p)))"
  using assms plain_cut [OF assms(1,2,4)] shows_cut [of _ _ _ e _ p q] plainD(2) [OF assms(1)]
  by (auto simp: faithful_def boundary_def)

lemma faithful_left:
  assumes "plain e" and "boundary (le_line e) p" and "p \<le> le_cursor e"
  shows "faithful e (e\<lparr>le_cursor := p\<rparr>, echo_backspaces (le_cursor e - p))"
  using assms plain_move [OF assms(1,2)] shows_move_left [of _ _ _ e _ p] plainD(5) [OF assms(1)] by (simp add: faithful_def)

lemma faithful_right:
  assumes "plain e" and "boundary (le_line e) n" and "le_cursor e \<le> n"
  shows "faithful e (e\<lparr>le_cursor := n\<rparr>, echo_range (le_line e) (le_cursor e) n)"
  using assms plain_move [OF assms(1,2)] shows_move_right [of _ _ _ e _ n] plainD(2) [OF assms(1)]
  by (auto simp: faithful_def boundary_def)

lemma faithful_idle: "plain e \<Longrightarrow> faithful e (e, [])"
  by (simp add: faithful_def)

section \<open>Every operation keeps the display in step\<close>

lemma erase_line: "p \<le> q \<Longrightarrow> q \<le> length line \<Longrightarrow> drop p (erase_units p (q - p) line) = drop q line"
  "p \<le> q \<Longrightarrow> q \<le> length line \<Longrightarrow> length (erase_units p (q - p) line) = length line - (q - p)"
  by (simp_all add: erase_units_def)

lemma echo_range_erased:
  "p \<le> q \<Longrightarrow> q \<le> length line \<Longrightarrow>
    echo_range (erase_units p (q - p) line) p (length (erase_units p (q - p) line)) = tail_piece (drop q line)"
  by (simp only: echo_range_tail erase_line(1))

lemma faithful_erase_back:
  assumes "plain e"
  shows "faithful e (erase_back e)"
proof (cases "le_cursor e = 0")
  case False
  let ?p = "prev_index (le_line e) (le_cursor e)" and ?c = "le_cursor e"
  let ?e = "e\<lparr>le_line := erase_units ?p (?c - ?p) (le_line e), le_cursor := ?p\<rparr>"
  note d = plainD [OF assms]
  note p = prev_index_char [OF d(3,4) False]
  have n: "normalize_cursor ?e = ?e" using plain_normal [OF plain_cut [OF assms p(2) d(4)]] p(1) by simp
  have tail: "tail_piece (drop ?c (le_line e)) = echo_range (le_line ?e) ?p (length (le_line ?e))"
    using echo_range_erased [of ?p ?c "le_line e"] p(1) d(5) by simp
  note len = erase_line(2) [OF less_imp_le [OF p(1)] d(5)]
  have "erase_back e = (?e, echo_backspaces (?c - ?p) @ tail_piece (drop ?c (le_line e)) @ echo_spaces (?c - ?p)
      @ echo_backspaces (length (le_line e) - ?c + (?c - ?p)))"
  proof (cases "?p < length (le_line ?e)")
    case True
    then show ?thesis using False p(1) d(5) unfolding tail by (simp add: erase_back_def Let_def n len)
  next
    case out: False
    then have "drop ?c (le_line e) = []" "length (le_line e) - ?c = 0" using len d(5) p(1) by auto
    then show ?thesis using out False p(1) by (simp add: erase_back_def Let_def n len)
  qed
  then show ?thesis using faithful_cut [OF assms p(2) _ d(4)] p(1) by simp
qed (use assms in \<open>simp add: erase_back_def faithful_idle\<close>)

lemma faithful_delete_step:
  assumes "plain e" and "le_cursor e < length (le_line e)"
  shows "faithful e (delete_step e)"
proof -
  let ?q = "next_index (le_line e) (le_cursor e)" and ?c = "le_cursor e"
  let ?e = "e\<lparr>le_line := erase_units ?c (?q - ?c) (le_line e), le_cursor := ?c\<rparr>"
  note d = plainD [OF assms(1)]
  note q = next_index_char [OF d(3,4) assms(2)]
  have ql: "?q \<le> length (le_line e)" using q(2) by (simp add: boundary_def)
  have n: "normalize_cursor ?e = ?e" using plain_normal [OF plain_cut [OF assms(1) d(4) q(2)]] q(1) by simp
  have "echo_range (le_line ?e) ?c (length (le_line ?e)) = tail_piece (drop ?q (le_line e))"
    "length (le_line ?e) - ?c = length (le_line e) - ?q"
    using echo_range_erased [of ?c ?q "le_line e"] erase_line(2) [of ?c ?q "le_line e"] q(1) ql by simp_all
  then have "delete_step e = (?e, echo_backspaces (?c - ?c) @ tail_piece (drop ?q (le_line e)) @ echo_spaces (?q - ?c)
      @ echo_backspaces (length (le_line e) - ?q + (?q - ?c)))"
    using n by (simp add: delete_step_def Let_def)
  then show ?thesis using faithful_cut [OF assms(1) d(4) _ q(2)] q(1) by simp
qed

lemma faithful_escape:
  assumes "plain e"
  shows "faithful e (escape_key e)"
proof (cases "le_line e = []")
  case False
  let ?e = "e\<lparr>le_line := [], le_cursor := 0\<rparr>"
  note d = plainD [OF assms]
  have "plain ?e" by (simp add: plain_def tidy_edit_def tidy_def boundary_def)
  then show ?thesis
    using faithful_cut [OF assms boundary_ends(2) [OF d(3)] _ boundary_ends(1) d(5)] False
    by (simp add: escape_key_def plain_normal erase_units_def)
qed (use assms in \<open>simp add: escape_key_def faithful_idle\<close>)

lemma faithful_home:
  assumes "plain e"
  shows "faithful e (home_key ctrl e)"
proof (cases "le_cursor e = 0")
  case False
  note d = plainD [OF assms]
  note z = boundary_ends(2) [OF d(3)]
  have "normalize_cursor (e\<lparr>le_line := erase_units 0 (le_cursor e) (le_line e), le_cursor := 0\<rparr>) =
      e\<lparr>le_line := erase_units 0 (le_cursor e) (le_line e), le_cursor := 0\<rparr>"
    using plain_normal [OF plain_cut [OF assms z d(4)]] by simp
  moreover have "normalize_cursor (e\<lparr>le_cursor := 0\<rparr>) = e\<lparr>le_cursor := 0\<rparr>" using plain_normal [OF plain_move [OF assms z]] .
  moreover have "echo_range (erase_units 0 (le_cursor e) (le_line e)) 0 (length (erase_units 0 (le_cursor e) (le_line e)))
      = tail_piece (drop (le_cursor e) (le_line e))" by (simp only: echo_range_tail) (simp add: erase_units_def)
  ultimately show ?thesis
    using False faithful_cut [OF assms z _ d(4)] faithful_left [OF assms z] d(5)
    by (cases ctrl) (simp_all add: home_key_def Let_def erase_line(2) [of 0, simplified])
qed (use assms in \<open>simp add: home_key_def faithful_idle\<close>)

lemma faithful_end:
  assumes "plain e"
  shows "faithful e (end_key ctrl e)"
proof (cases "le_cursor e < length (le_line e)")
  case True
  note d = plainD [OF assms]
  note z = boundary_ends(1) [of "le_line e"]
  have "normalize_cursor (e\<lparr>le_line := erase_units (le_cursor e) (length (le_line e) - le_cursor e) (le_line e)\<rparr>) =
      e\<lparr>le_line := erase_units (le_cursor e) (length (le_line e) - le_cursor e) (le_line e)\<rparr>"
    using plain_normal [OF plain_cut [OF assms d(4) z d(5)]] by simp
  moreover have "normalize_cursor (e\<lparr>le_cursor := length (le_line e)\<rparr>) = e\<lparr>le_cursor := length (le_line e)\<rparr>"
    using plain_normal [OF plain_move [OF assms z]] .
  ultimately show ?thesis
    using True faithful_cut [OF assms d(4) _ z d(5)] faithful_right [OF assms z d(5)]
    by (cases ctrl) (simp_all add: end_key_def Let_def)
qed (use assms in \<open>simp add: end_key_def faithful_idle\<close>)

lemma faithful_left_step:
  assumes "plain e" and "le_cursor e \<noteq> 0"
  shows "faithful e (left_step ctrl e)"
proof -
  note d = plainD [OF assms(1)]
  note p = prev_index_char [OF d(3,4) assms(2)]
  have "boundary (le_line e) (word_prev (le_line e) (le_cursor e))"
    using word_back_boundary d(3,4) by (simp add: word_prev_def)
  moreover define p where "p = (if ctrl then word_prev (le_line e) (le_cursor e) else prev_index (le_line e) (le_cursor e))"
  ultimately have "boundary (le_line e) p"
    and "p \<le> le_cursor e"
    using p word_step_left [OF d(1)] by (simp_all add: p_def)
  from faithful_left [OF assms(1) this] plain_normal [OF plain_move [OF assms(1) this(1)]] show ?thesis
    by (simp add: left_step_def Let_def p_def)
qed

lemma faithful_right_step:
  assumes "plain e" and "le_cursor e < length (le_line e)"
  shows "faithful e (right_step ctrl e)"
proof -
  note d = plainD [OF assms(1)]
  note p = next_index_char [OF d(3,4) assms(2)]
  have "boundary (le_line e) (word_next (le_line e) (le_cursor e))"
    using word_forward_boundary d(3,4) by (simp add: word_next_def)
  moreover define p where "p = (if ctrl then word_next (le_line e) (le_cursor e) else next_index (le_line e) (le_cursor e))"
  ultimately have "boundary (le_line e) p"
    and "le_cursor e \<le> p"
    using p word_step_right [OF d(1)] by (simp_all add: p_def)
  from faithful_right [OF assms(1) this] plain_normal [OF plain_move [OF assms(1) this(1)]] show ?thesis
    by (simp add: right_step_def Let_def p_def)
qed

lemma shows_insert:
  assumes "plain e" and "pairs_up v (take (le_cursor e) (le_line e))" and "printable v"
    and "shows_line out pre width e s" and "length pre + length (le_line e) + 1 < width"
  shows "plain (fst (insert_unit v e)) \<and> shows_line out pre width (fst (insert_unit v e)) (echo (snd (insert_unit v e)) s)"
proof -
  note d = plainD [OF assms(1)]
  let ?c = "le_cursor e" and ?b = "drop (le_cursor e) (le_line e)"
  define n where "n = (if \<not> le_insert e \<and> ?c < length (le_line e) then next_index (le_line e) ?c - ?c else 0)"
  define line where "line = (if n \<noteq> 0 then erase_units ?c n (le_line e) else le_line e)"
  define e' where "e' = e\<lparr>le_line := take ?c line @ v # drop ?c line, le_cursor := ?c + 1\<rparr>"
  have t: "tidy_edit (fst (insert_unit v e))" using insert_unit_refines [OF d(1) assms(2)] by blast
  have "n \<le> length ?b" using next_index_char(2) [OF d(3,4)] by (auto simp: n_def boundary_def)
  then have line: "take ?c line = take ?c (le_line e)" "drop ?c line = drop n ?b" "length line = length (le_line e) - n"
    using d(5) by (simp_all add: line_def erase_units_def add.commute)
  let ?t = "drop n ?b"
  have pl: "list_all printable ?t" "list_all printable (le_line e')"
    using d(2) assms(3) line by (auto simp: list_all_iff e'_def dest!: in_set_takeD in_set_dropD)
  have raw: "insert_unit v e = (normalize_cursor e', [[v]] @ (if length (le_line e') - le_cursor (normalize_cursor e') \<noteq> 0
      then [drop (le_cursor (normalize_cursor e')) (le_line e')] else [])
      @ echo_spaces (if n > 1 then n - 1 else 0) @ echo_backspaces (length (le_line e') - le_cursor (normalize_cursor e') + (if n > 1 then n - 1 else 0)))"
    unfolding insert_unit_def Let_def unfolding n_def [symmetric] unfolding line_def [symmetric]
    by (simp add: e'_def)
  have "tidy_edit (normalize_cursor e')" using t by (simp add: raw)
  moreover have "normalize_cursor e' = e'"
  proof -
    have "\<not> is_low_surrogate (le_line e' ! Suc ?c)" if "Suc ?c < length (le_line e')"
    proof -
      have "boundary line ?c"
        using tidy_cut(2) [OF d(3,4)] next_index_char [OF d(3,4)] d(4) by (auto simp: line_def n_def erase_units_def)
      then show ?thesis using that by (auto simp: e'_def boundary_def nth_append)
    qed
    then show ?thesis using line d(5) by (auto simp: normalize_cursor_def Let_def e'_def)
  qed
  ultimately have te: "tidy_edit e'" by simp
  have ins: "insert_unit v e = (e', [v] # tail_piece ?t @ echo_spaces (n - 1) @ echo_backspaces (length ?t + (n - 1)))"
    using line d(5) by (auto simp: raw \<open>normalize_cursor e' = e'\<close> tail_piece_def) (auto simp: e'_def)
  obtain k where k: "k \<noteq> 0" "length pre + length (le_line e) + k = width"
    "showing out s (pre @ take ?c (le_line e)) (?b @ replicate k 0x20)"
    using assms(4) by (auto simp: shows_line_def)
  define j where "j = (if n = 0 then k - 1 else k)"
  obtain x ys where cells: "?b @ replicate k 0x20 = [x] @ ys @ replicate j 0x20" "length ys = length ?t + (n - 1)" and j: "j \<noteq> 0"
  proof (cases "n = 0")
    case True
    let ?all = "?b @ [0x20]"
    have "?all = [hd ?all] @ tl ?all" by simp
    moreover have "replicate k (0x20 :: wchar) = 0x20 # replicate j 0x20" using True k(1) by (cases k) (simp_all add: j_def)
    ultimately have "?b @ replicate k 0x20 = [hd ?all] @ tl ?all @ replicate j 0x20" by (metis append_Cons append_Nil append_assoc)
    moreover have "j \<noteq> 0" using True k(2) assms(5) by (simp add: j_def)
    ultimately show ?thesis using that True by simp
  next
    case False
    then have "?b = [hd ?b] @ tl ?b" using \<open>n \<le> length ?b\<close> by (cases ?b) auto
    then have "?b @ replicate k 0x20 = [hd ?b] @ tl ?b @ replicate k 0x20" by (metis append_assoc)
    then show ?thesis using that [of "hd ?b" "tl ?b"] False k(1) \<open>n \<le> length ?b\<close> by (simp add: j_def)
  qed
  have "showing out (put [v] s) ((pre @ take ?c (le_line e)) @ [v]) (ys @ replicate j 0x20)"
    using at_write [of out s "pre @ take ?c (le_line e)" "[x]" "ys @ replicate j 0x20" "[v]"] k(3) cells(1) assms(3) j by simp
  from at_redraw [OF this cells(2) pl(1) j]
  have "showing out (echo (snd (insert_unit v e)) s) (pre @ (take ?c (le_line e) @ [v])) (?t @ replicate (n - 1 + j) 0x20)"
    by (simp add: ins)
  then have "shows_line out pre width e' (echo (snd (insert_unit v e)) s)"
  proof (rule shows_lineI)
    show "length pre + length (take ?c (le_line e) @ [v]) + length ?t + (n - 1 + j) = width"
      using k(1,2) d(5) \<open>n \<le> length ?b\<close> by (auto simp: j_def)
  qed (use line d(5) j in \<open>simp_all add: e'_def\<close>)
  then show ?thesis using te pl(2) by (simp add: ins plain_def)
qed

lemma repeat_faithful:
  assumes "\<And>e. plain e \<Longrightarrow> \<not> stop e \<Longrightarrow> faithful e (step e)" and "plain e"
  shows "faithful e (repeat_edit stop step n e)"
  using assms(2)
proof (induction n arbitrary: e)
  case (Suc n)
  show ?case
  proof (cases "stop e")
    case False
    have "faithful e (step e)" using assms(1) [OF Suc.prems False] .
    then show ?thesis using False Suc.IH [of "fst (step e)"] by (auto simp: faithful_def split_beta)
  qed (simp add: faithful_idle Suc.prems)
qed (simp add: faithful_idle)

lemma faithful_key:
  assumes "plain e"
  shows "faithful e (edit_key k ctrl n e)"
proof (cases k)
  case VkInsert
  have "plain (e\<lparr>le_insert := b\<rparr>)" "shows_line out pre width (e\<lparr>le_insert := b\<rparr>) s = shows_line out pre width e s" for b out pre width s
    using assms by (simp_all add: plain_def tidy_edit_def shows_line_def)
  then show ?thesis using VkInsert assms by (simp add: faithful_def)
qed (use assms in \<open>auto simp: faithful_escape faithful_home faithful_end left_key_def right_key_def delete_key_def
      intro!: repeat_faithful faithful_left_step faithful_right_step faithful_delete_step\<close>)

lemma apply_edit_shows:
  assumes "plain e" and "acceptable ev (edit_abs e)" and "typed_visibly ev"
    and "shows_line out pre width e s" and "length pre + length (le_line e) + new_units ev < width"
  shows "plain (fst (apply_edit ev e)) \<and> shows_line out pre width (fst (apply_edit ev e)) (echo (snd (apply_edit ev e)) s)"
proof (cases ev)
  case (Typed v)
  then show ?thesis
    using assms shows_insert [OF assms(1) _ _ assms(4), of v] faithful_erase_back [OF assms(1)]
    by (auto simp: faithful_def edit_abs_def)
next
  case (Pressed k ctrl n)
  then show ?thesis using assms(4) faithful_key [OF assms(1)] by (simp add: faithful_def)
qed

lemma session_shows:
  assumes "plain e" and "well_typed evs (edit_abs e, le_insert e)" and "list_all typed_visibly evs"
    and "shows_line out pre width e s" and "length pre + length (le_line e) + sum_list (map new_units evs) < width"
  shows "plain (fst (session put evs (e, s))) \<and> shows_line out pre width (fst (session put evs (e, s))) (snd (session put evs (e, s)))"
  using assms
proof (induction evs arbitrary: e s)
  case (Cons ev evs)
  let ?e = "fst (apply_edit ev e)" and ?s = "echo (snd (apply_edit ev e)) s"
  have "acceptable ev (edit_abs e)" "typed_visibly ev" "length pre + length (le_line e) + new_units ev < width"
    using Cons.prems by auto
  note step = apply_edit_shows [OF Cons.prems(1) this(1,2) Cons.prems(4) this(3)]
  have abs: "(edit_abs ?e, le_insert ?e) = z_apply ev (edit_abs e, le_insert e)"
    using apply_edit_refines [OF plainD(1) [OF Cons.prems(1)] \<open>acceptable ev (edit_abs e)\<close>] by blast
  have "well_typed evs (edit_abs ?e, le_insert ?e)" using Cons.prems(2) by (simp add: abs)
  moreover have "length pre + length (le_line ?e) + sum_list (map new_units evs) < width"
    using Cons.prems(5) length_apply_edit [of ev e] by simp
  ultimately show ?case using Cons.IH [of ?e ?s] step Cons.prems(3) by simp
qed (simp add: session_def)

end

section \<open>A row of the screen\<close>

text \<open>The part of \<open>echo_text\<close> that changes the active screen buffer.\<close>

definition echo_to_screen :: "VtCall \<Rightarrow> wstring \<Rightarrow> ScreenBuffer \<Rightarrow> ScreenBuffer" where
  "echo_to_screen c us sb = v_sb (apply_text_to_screen_buffer c us sb)"

text \<open>A screen on which a line can be edited: VT processing and processed output, no margins, no pending wrap.\<close>

definition screen_ready :: "VtCall \<Rightarrow> ScreenBuffer \<Rightarrow> bool" where
  "screen_ready c sb \<longleftrightarrow> screen_ok sb \<and> vt_on c \<and> c_output_mode c AND 0x0001 \<noteq> 0 \<and> at_ground sb
    \<and> sb_vt_vertical_margins sb = None \<and> sb_vt_autowrap_enabled sb \<and> \<not> sb_vt_insert_mode_enabled sb
    \<and> 0 < cx (sb_buffer_size sb) \<and> 0 < cy (sb_buffer_size sb) \<and> sb_vt_delayed_wrap_position sb = None"

definition row_start :: "ScreenBuffer \<Rightarrow> nat" where
  "row_start sb = nat (cy (sb_cursor_position sb)) * nat (cx (sb_buffer_size sb))"

definition screen_row :: "ScreenBuffer \<Rightarrow> wstring" where
  "screen_row sb = map cell_character (take (nat (cx (sb_buffer_size sb))) (drop (row_start sb) (sb_cells sb)))"

definition screen_column :: "ScreenBuffer \<Rightarrow> nat" where
  "screen_column sb = nat (cx (sb_cursor_position sb))"

definition other_rows :: "ScreenBuffer \<Rightarrow> int \<times> ScreenCell list \<times> ScreenCell list" where
  "other_rows sb = (cy (sb_cursor_position sb), take (row_start sb) (sb_cells sb),
     drop (row_start sb + nat (cx (sb_buffer_size sb))) (sb_cells sb))"

text \<open>During a write that stays in its row.\<close>

definition in_row :: "VtEnv \<Rightarrow> ScreenBuffer \<Rightarrow> VtRun \<Rightarrow> bool" where
  "in_row e sb v \<longleftrightarrow> typing e v \<and> e_processed_output e \<and> v_delayed_wrap_position v = None \<and> mode_frame (v_sb v) = mode_frame sb
    \<and> sb_vt_vertical_margins (v_sb v) = None"

lemma in_row_print:
  assumes "in_row e sb v" and "cx (v_cursor v) + 1 < cx (e_size e)"
  shows "in_row e sb (write_printable e ch v)" and "v_cursor (write_printable e ch v) = (v_cursor v)\<lparr>cx := cx (v_cursor v) + 1\<rparr>"
proof -
  have t: "typing e v" "v_delayed_wrap_position v = None" using assms(1) by (simp_all add: in_row_def)
  have run: "run_ok e v" using t(1) by (simp add: typing_def)
  note b = run_okD [OF run]
  have w: "write_printable e ch v =
      v\<lparr>v_sb := snd (write_cell (v_cursor v) ch (v_attributes v) (v_sb v)), v_cursor := (v_cursor v)\<lparr>cx := cx (v_cursor v) + 1\<rparr>\<rparr>"
    using t assms(2) b by (simp add: write_printable_def maybe_apply_delayed_wrap_def put_cell_def typing_def to_short_id Let_def)
  show "v_cursor (write_printable e ch v) = (v_cursor v)\<lparr>cx := cx (v_cursor v) + 1\<rparr>" by (simp add: w)
  have "sb_vt_output_parse_state (v_sb (write_printable e ch v)) = parse_state v" "mode_frame (v_sb (write_printable e ch v)) = mode_frame (v_sb v)"
    "sb_vt_vertical_margins (v_sb (write_printable e ch v)) = sb_vt_vertical_margins (v_sb v)"
    by (simp_all add: w write_cell_def touch_def mode_frame_def)
  then show "in_row e sb (write_printable e ch v)"
    using assms(1) run_ok_write_printable [OF run, of ch] by (simp add: in_row_def typing_def) (simp add: w)
qed

lemma in_row_text:
  "in_row e sb v \<Longrightarrow> list_all printable us \<Longrightarrow> cx (v_cursor v) + int (length us) < cx (e_size e) \<Longrightarrow>
    in_row e sb (text_loop e us v) \<and> v_cursor (text_loop e us v) = (v_cursor v)\<lparr>cx := cx (v_cursor v) + int (length us)\<rparr>"
proof (induction us arbitrary: v)
  case (Cons u us)
  have "text_step e u v = (True, write_printable e u v)"
    using Cons.prems(1,2) by (intro text_step_printable) (simp_all add: in_row_def typing_def)
  then have step: "text_loop e (u # us) v = text_loop e us (write_printable e u v)" by (rule text_loop_consume)
  note p = in_row_print [OF Cons.prems(1), of u]
  show ?case
    unfolding step using Cons.IH [of "write_printable e u v"] p Cons.prems(2,3) by (simp add: algebra_simps)
qed simp

lemma in_row_backspaces:
  "in_row e sb v \<Longrightarrow> int n \<le> cx (v_cursor v) \<Longrightarrow>
    in_row e sb (text_loop e (replicate n 0x08) v) \<and> text_loop e (replicate n 0x08) v = v\<lparr>v_cursor := (v_cursor v)\<lparr>cx := cx (v_cursor v) - int n\<rparr>\<rparr>"
proof (induction n arbitrary: v)
  case (Suc n)
  let ?v = "set_x (cx (v_cursor v) - 1) v"
  have run: "run_ok e v" using Suc.prems(1) by (simp add: in_row_def typing_def)
  note b = run_okD [OF run]
  have "text_step e 0x08 v = (True, ?v)"
    using Suc.prems b by (simp add: in_row_def typing_def text_step_def phase_ground_def process_character_def to_short_id)
  then have step: "text_loop e (0x08 # replicate n 0x08) v = text_loop e (replicate n 0x08) ?v" by (rule text_loop_consume)
  have "run_ok e ?v" using run_ok_set_x [OF run] b Suc.prems(2) by simp
  then have "in_row e sb ?v" using Suc.prems(1) by (simp add: in_row_def typing_def)
  from Suc.IH [OF this] Suc.prems(2) show ?case unfolding replicate_Suc step by (auto simp: algebra_simps)
qed simp

lemma begin_in_row: "screen_ready c sb \<Longrightarrow> in_row (call_env c sb) sb (begin_text (call_env c sb) sb)"
  using run_ok_begin_text [of sb c]
  by (simp add: in_row_def typing_def screen_ready_def vt_on_def at_ground_def begin_text_def call_env_def)

lemma end_in_row:
  assumes "screen_ready c sb" and "in_row (call_env c sb) sb (run_text c us sb)"
  shows "screen_ready c (echo_to_screen c us sb)" and "sb_cells (echo_to_screen c us sb) = sb_cells (v_sb (run_text c us sb))"
    and "sb_cursor_position (echo_to_screen c us sb) = v_cursor (run_text c us sb)"
    and "sb_buffer_size (echo_to_screen c us sb) = sb_buffer_size sb"
proof -
  let ?v = "run_text c us sb" and ?e = "call_env c sb"
  have stored: "echo_to_screen c us sb = end_text sb ?v"
    using assms(1) by (simp add: echo_to_screen_def apply_text_to_screen_buffer_def screen_ready_def)
  have v: "typing ?e ?v" "v_delayed_wrap_position ?v = None" "mode_frame (v_sb ?v) = mode_frame sb" "sb_vt_vertical_margins (v_sb ?v) = None"
    using assms(2) by (simp_all add: in_row_def)
  note core = core_sb_fields [of "end_text sb ?v", unfolded end_text_core core_sb_fields, symmetric]
  show size: "sb_buffer_size (echo_to_screen c us sb) = sb_buffer_size sb"
    using v(1) core(1) unfolding stored by (simp add: typing_def run_ok_def call_env_def)
  have "screen_ok (echo_to_screen c us sb)"
    using apply_text_ok(1) [of sb c us] assms(1) unfolding echo_to_screen_def by (simp add: screen_ready_def)
  moreover have "at_ground (end_text sb ?v)" using v(1) by (simp add: at_ground_def typing_def)
  moreover have "sb_vt_autowrap_enabled (end_text sb ?v)" "\<not> sb_vt_insert_mode_enabled (end_text sb ?v)"
    using end_text_modes [OF v(3)] v(1) by (simp_all add: mode_frame_def typing_def)
  ultimately show "screen_ready c (echo_to_screen c us sb)"
    using assms(1) size v core unfolding stored by (simp add: screen_ready_def end_text_members)
  show "sb_cells (echo_to_screen c us sb) = sb_cells (v_sb ?v)" "sb_cursor_position (echo_to_screen c us sb) = v_cursor ?v"
    unfolding stored by (simp_all add: end_text_members)
qed

lemma row_bounds:
  assumes "screen_ready c sb"
  shows "row_start sb + nat (cx (sb_buffer_size sb)) \<le> length (sb_cells sb)" and "length (screen_row sb) = nat (cx (sb_buffer_size sb))"
    and "0 \<le> cx (sb_cursor_position sb)" and "cx (sb_cursor_position sb) < cx (sb_buffer_size sb)"
proof -
  have ok: "sb_ok sb" "0 < cx (sb_buffer_size sb)" "0 < cy (sb_buffer_size sb)" using assms by (simp_all add: screen_ready_def screen_ok_def)
  then have len: "length (sb_cells sb) = nat (cx (sb_buffer_size sb)) * nat (cy (sb_buffer_size sb))" by (simp add: sb_ok_def cells_ok_def)
  have c: "0 \<le> cx (sb_cursor_position sb)" "cx (sb_cursor_position sb) < cx (sb_buffer_size sb)"
    "0 \<le> cy (sb_cursor_position sb)" "cy (sb_cursor_position sb) < cy (sb_buffer_size sb)"
    using ok by (auto simp: sb_ok_def cursor_ok_def in_extent_def)
  have "Suc (nat (cy (sb_cursor_position sb))) \<le> nat (cy (sb_buffer_size sb))" using c by linarith
  then have "Suc (nat (cy (sb_cursor_position sb))) * nat (cx (sb_buffer_size sb)) \<le> nat (cy (sb_buffer_size sb)) * nat (cx (sb_buffer_size sb))"
    by (rule mult_le_mono1)
  then show fits: "row_start sb + nat (cx (sb_buffer_size sb)) \<le> length (sb_cells sb)"
    unfolding len row_start_def by (simp add: mult.commute add.commute)
  then show "length (screen_row sb) = nat (cx (sb_buffer_size sb))" by (simp add: screen_row_def)
  show "0 \<le> cx (sb_cursor_position sb)" "cx (sb_cursor_position sb) < cx (sb_buffer_size sb)" by fact+
qed

lemma row_overwrite:
  assumes "length pre = r" and "length new = n" and "x + n < w" and "r + w \<le> length cells" and "cells' = take (r + x) cells @ new @ drop (r + x + n) cells"
  shows "take w (drop r cells') = take x (take w (drop r cells)) @ new @ drop (x + n) (take w (drop r cells))"
    and "take r cells' = take r cells" and "drop (r + w) cells' = drop (r + w) cells"
  using assms by (simp_all add: drop_take min_def add.commute add.left_commute)

text \<open>
  The screen buffer is such a display: \<open>write_units\<close> and \<open>write_backspaces\<close> hold for
  \<open>apply_text_to_screen_buffer\<close> on every screen that is ready.
\<close>

interpretation screen: line_display "screen_ready c" "echo_to_screen c" screen_row screen_column other_rows
  for c
proof
  fix sb us
  assume ready: "screen_ready c sb" and us: "list_all printable us" and fits: "screen_column sb + length us < length (screen_row sb)"
  let ?e = "call_env c sb" and ?v = "begin_text (call_env c sb) sb"
  note b = row_bounds [OF ready]
  have e: "e_size ?e = sb_buffer_size sb" by (simp add: call_env_def)
  have v: "v_cursor ?v = sb_cursor_position sb" "sb_cells (v_sb ?v) = sb_cells sb" "v_delayed_wrap_position ?v = None"
    using ready by (simp_all add: begin_text_def screen_ready_def)
  have start: "next_cell ?e ?v = row_start sb + screen_column sb"
    by (simp add: next_cell_index_def v e row_start_def screen_column_def)
  have "cx (v_cursor ?v) + int (length us) < cx (e_size ?e)" using fits b v e by (simp add: screen_column_def)
  from in_row_text [OF begin_in_row [OF ready] us this]
  have row: "in_row ?e sb (run_text c us sb)" "v_cursor (run_text c us sb) = (sb_cursor_position sb)\<lparr>cx := cx (sb_cursor_position sb) + int (length us)\<rparr>"
    by (simp_all add: run_text_def v)
  have "length (sb_cells sb) = nat (cx (e_size ?e)) * nat (cy (e_size ?e))"
    using ready e by (simp add: screen_ready_def screen_ok_def sb_ok_def cells_ok_def)
  then have le: "next_cell ?e ?v + length us \<le> nat (cx (e_size ?e)) * nat (cy (e_size ?e))" using start fits b by simp
  have ty: "typing ?e ?v" using begin_in_row [OF ready] by (simp add: in_row_def)
  have cells: "sb_cells (v_sb (run_text c us sb)) = take (row_start sb + screen_column sb) (sb_cells sb)
      @ map (\<lambda>ch. \<lparr>cell_character = ch, cell_attributes = v_attributes ?v\<rparr>) us @ drop (row_start sb + screen_column sb + length us) (sb_cells sb)"
    using type_text [OF ty us le, unfolded start v(2)] by (simp add: run_text_def)
  note fin = end_in_row [OF ready row(1)]
  have x: "screen_column sb + length us < nat (cx (sb_buffer_size sb))" using fits b by simp
  note over = row_overwrite [OF length_replicate length_map x b(1) cells]
  have keep: "row_start (echo_to_screen c us sb) = row_start sb" using fin row(2) by (simp add: row_start_def)
  show "screen_ready c (echo_to_screen c us sb)
      \<and> screen_row (echo_to_screen c us sb) = take (screen_column sb) (screen_row sb) @ us @ drop (screen_column sb + length us) (screen_row sb)
      \<and> screen_column (echo_to_screen c us sb) = screen_column sb + length us \<and> other_rows (echo_to_screen c us sb) = other_rows sb"
    using fin row(2) over b(3)
    by (simp add: screen_row_def keep other_rows_def screen_column_def nat_add_distrib take_map drop_map comp_def)
next
  fix sb n
  assume ready: "screen_ready c sb" and n: "n \<le> screen_column sb"
  let ?e = "call_env c sb" and ?v = "begin_text (call_env c sb) sb" and ?us = "replicate n 0x08 :: wstring"
  note b = row_bounds [OF ready]
  have "int n \<le> cx (v_cursor ?v)" using n b by (simp add: begin_text_def screen_column_def)
  from in_row_backspaces [OF begin_in_row [OF ready] this]
  have row: "in_row ?e sb (run_text c ?us sb)" "run_text c ?us sb = ?v\<lparr>v_cursor := (v_cursor ?v)\<lparr>cx := cx (v_cursor ?v) - int n\<rparr>\<rparr>"
    unfolding run_text_def by blast+
  note fin = end_in_row [OF ready row(1)]
  have f: "sb_cells (echo_to_screen c ?us sb) = sb_cells sb"
    "sb_cursor_position (echo_to_screen c ?us sb) = (sb_cursor_position sb)\<lparr>cx := cx (sb_cursor_position sb) - int n\<rparr>"
    using fin(2,3) by (simp_all add: row(2) begin_text_def)
  show "screen_ready c (echo_to_screen c ?us sb) \<and> screen_row (echo_to_screen c ?us sb) = screen_row sb
      \<and> screen_column (echo_to_screen c ?us sb) = screen_column sb - n \<and> other_rows (echo_to_screen c ?us sb) = other_rows sb"
    using fin(1,4) f b(3) n by (simp add: screen_row_def other_rows_def row_start_def screen_column_def nat_diff_distrib)
qed

lemma edit_abs_empty: "edit_abs \<lparr>le_line = [], le_cursor = 0, le_insert = ins\<rparr> = ([], [])"
  by (simp add: edit_abs_def)

text \<open>
  C6. The echo of a cooked read shows the line. Start on a screen with VT processing, with blanks
  from the cursor to the end of its row, and type and edit anything: letters, surrogate pairs,
  backspaces, cursor keys by characters and by words, home, end, delete, escape, insert and
  overwrite, with repeat counts. As long as what is typed is printable and fits the row, the row
  shows the text before the line, the line and blanks, the cursor stands at the cursor of the
  line, and no other row has changed: the runs of backspaces, blanks and tails that the editor
  echoes always repaint exactly what has changed.
\<close>

theorem echo_shows_line:
  assumes "screen_ready c sb" and "screen_row sb = pre @ replicate k 0x20" and "screen_column sb = length pre"
    and "well_typed evs (([], []), ins)" and "list_all typed_visibly evs" and "sum_list (map new_units evs) < k"
  shows "let (e, sb') = session (echo_to_screen c) evs (\<lparr>le_line = [], le_cursor = 0, le_insert = ins\<rparr>, sb)
    in screen_row sb' = pre @ le_line e @ replicate (k - length (le_line e)) 0x20
      \<and> screen_column sb' = length pre + le_cursor e \<and> other_rows sb' = other_rows sb \<and> screen_ready c sb'"
proof -
  let ?e = "\<lparr>le_line = [], le_cursor = 0, le_insert = ins\<rparr>" and ?out = "other_rows sb" and ?width = "length pre + k"
  have k: "k \<noteq> 0" using assms(6) by simp
  have start: "screen.shows_line c ?out pre ?width ?e sb"
    unfolding screen.shows_line_def screen.showing_def using assms(1-3) k by (intro exI [of _ k]) simp
  have "screen.plain ?e" unfolding screen.plain_def by (simp add: new_line_tidy)
  from screen.session_shows [OF this _ assms(5) start] assms(4,6)
  have "screen.plain (fst (session (echo_to_screen c) evs (?e, sb)))"
    "screen.shows_line c ?out pre ?width (fst (session (echo_to_screen c) evs (?e, sb))) (snd (session (echo_to_screen c) evs (?e, sb)))"
    by (simp_all add: edit_abs_empty)
  moreover obtain e sb' where run: "session (echo_to_screen c) evs (?e, sb) = (e, sb')" by (cases "session (echo_to_screen c) evs (?e, sb)")
  ultimately have p: "screen.plain e" and "screen.shows_line c ?out pre ?width e sb'" by simp_all
  then obtain j where j: "length pre + length (le_line e) + j = ?width"
    "screen.showing c ?out sb' (pre @ take (le_cursor e) (le_line e)) (drop (le_cursor e) (le_line e) @ replicate j 0x20)"
    unfolding screen.shows_line_def by blast
  have "k - length (le_line e) = j" using j(1) by simp
  then show ?thesis
    using j(2) screen.plainD(5) [OF p] unfolding run screen.showing_def by simp
qed

theorem echo_shows_line_witness:
  "screen_row (snd (session (echo_to_screen vt_call) [Typed 0x61, Typed 0x62, Pressed VkLeft False 1]
      (\<lparr>le_line = [], le_cursor = 0, le_insert = True\<rparr>, small_screen))) = [0x61, 0x62, 0x20]"
proof -
  let ?evs = "[Typed 0x61, Typed 0x62, Pressed VkLeft False 1]" and ?e = "\<lparr>le_line = [], le_cursor = 0, le_insert = True\<rparr>"
  have "screen_ready vt_call small_screen" by (simp add: screen_ready_def small_screen) (simp add: vt_call_def)
  moreover have "screen_row small_screen = [] @ replicate 3 0x20"
    by (simp add: screen_row_def row_start_def small_screen numeral_eq_Suc)
  moreover have "screen_column small_screen = length ([] :: wstring)" by (simp add: screen_column_def small_screen)
  moreover have "well_typed ?evs (([], []), True)" by (simp add: pairs_up_def is_low_surrogate_def)
  moreover have "list_all typed_visibly ?evs" "sum_list (map new_units ?evs) < 3" by (simp_all add: printable_def)
  ultimately have shown: "let (e, sb') = session (echo_to_screen vt_call) ?evs (?e, small_screen)
      in screen_row sb' = [] @ le_line e @ replicate (3 - length (le_line e)) 0x20 \<and> screen_column sb' = length ([] :: wstring) + le_cursor e
        \<and> other_rows sb' = other_rows small_screen \<and> screen_ready vt_call sb'"
    by (rule echo_shows_line)
  have z: "fold z_apply ?evs (edit_abs ?e, le_insert ?e) = (([[0x61]], [[0x62]]), True)"
    by (simp add: edit_abs_def is_high_surrogate_def)
  have "well_typed ?evs (edit_abs ?e, le_insert ?e)" by (simp add: edit_abs_empty pairs_up_def is_low_surrogate_def)
  from session_refines [OF new_line_tidy this]
  have "edit_abs (fst (session (echo_to_screen vt_call) ?evs (?e, small_screen))) = ([[0x61]], [[0x62]])"
    unfolding z session_line by (simp only: Let_def) (simp only: prod.inject)
  then have line: "le_line (fst (session (echo_to_screen vt_call) ?evs (?e, small_screen))) = [0x61, 0x62]"
    using edit_line [of "fst (session (echo_to_screen vt_call) ?evs (?e, small_screen))"] by (simp only:) simp
  show ?thesis using shown unfolding split_beta Let_def line by simp
qed

end
