(* ===== verification/Command_History.thy ===== *)
theory Command_History
  imports Conhost_Prelude
begin

text \<open>
  \<open>src/src/condrv/command_history.hpp\<close> and \<open>command_history.cpp\<close>: the per-executable command
  histories and the pool that recycles them. A history is a record with the class's fields, the
  pool is the list \<open>_histories\<close> with the most recently used entry first. The Windows function
  \<open>CompareStringOrdinal(..., TRUE) == CSTR_EQUAL\<close> is the parameter \<open>eq_ci\<close>. Each place where the
  source catches an allocation failure takes a flag that says whether the allocation succeeds.
\<close>

section \<open>Definitions\<close>

subsection \<open>One history\<close>

record CommandHistory =
  h_commands :: "wstring list"
  h_max_commands :: nat
  h_app_name :: wstring
  h_process_handle :: "64 word"
  h_allocated :: bool

definition new_history :: CommandHistory where
  "new_history = \<lparr>h_commands = [], h_max_commands = 0, h_app_name = [], h_process_handle = 0,
     h_allocated = False\<rparr>"

abbreviation int_max :: nat where "int_max \<equiv> 2147483647"

definition app_name_matches :: "(wstring \<Rightarrow> wstring \<Rightarrow> bool) \<Rightarrow> wstring \<Rightarrow> CommandHistory \<Rightarrow> bool" where
  "app_name_matches eq_ci other h =
     (if length (h_app_name h) > int_max \<or> length other > int_max then False
      else eq_ci (h_app_name h) other)"

definition try_set_app_name :: "bool \<Rightarrow> wstring \<Rightarrow> CommandHistory \<Rightarrow> bool \<times> CommandHistory" where
  "try_set_app_name mem_ok app_name h =
     (if mem_ok then (True, h\<lparr>h_app_name := app_name\<rparr>) else (False, h\<lparr>h_app_name := []\<rparr>))"

definition assign_process :: "64 word \<Rightarrow> CommandHistory \<Rightarrow> CommandHistory" where
  "assign_process handle h = h\<lparr>h_process_handle := handle, h_allocated := True\<rparr>"

definition release_process :: "CommandHistory \<Rightarrow> CommandHistory" where
  "release_process h = h\<lparr>h_allocated := False, h_process_handle := 0\<rparr>"

definition clear_commands :: "CommandHistory \<Rightarrow> CommandHistory" where
  "clear_commands h = h\<lparr>h_commands := []\<rparr>"

definition realloc :: "nat \<Rightarrow> CommandHistory \<Rightarrow> CommandHistory" where
  "realloc max_commands h =
     (let h' = h\<lparr>h_max_commands := max_commands\<rparr>
      in if length (h_commands h') > max_commands
         then h'\<lparr>h_commands := take max_commands (h_commands h')\<rparr> else h')"

definition add :: "bool \<Rightarrow> wstring \<Rightarrow> bool \<Rightarrow> CommandHistory \<Rightarrow> CommandHistory" where
  "add mem_ok command suppress_duplicates h =
     (if h_max_commands h = 0 \<or> command = [] then h
      else if h_commands h \<noteq> [] \<and> last (h_commands h) = command then h
      else
        let cs1 = (if suppress_duplicates then remove1 command (h_commands h) else h_commands h);
            cs2 = (if length cs1 = h_max_commands h then tl cs1 else cs1);
            cs3 = (if mem_ok then cs2 @ [command] else cs2)
        in h\<lparr>h_commands := cs3\<rparr>)"

subsection \<open>The pool\<close>

type_synonym CommandHistoryPool = "CommandHistory list"

definition resize_all :: "nat \<Rightarrow> CommandHistoryPool \<Rightarrow> CommandHistoryPool" where
  "resize_all max_commands pool = map (realloc max_commands) pool"

definition owned_by :: "64 word \<Rightarrow> CommandHistory \<Rightarrow> bool" where
  "owned_by handle h \<longleftrightarrow> h_allocated h \<and> h_process_handle h = handle"

definition live_exe :: "(wstring \<Rightarrow> wstring \<Rightarrow> bool) \<Rightarrow> wstring \<Rightarrow> CommandHistory \<Rightarrow> bool" where
  "live_exe eq_ci exe_name h \<longleftrightarrow> h_allocated h \<and> app_name_matches eq_ci exe_name h"

definition find_by_process :: "64 word \<Rightarrow> CommandHistoryPool \<Rightarrow> CommandHistory option" where
  "find_by_process handle pool = List.find (owned_by handle) pool"

definition find_by_exe :: "(wstring \<Rightarrow> wstring \<Rightarrow> bool) \<Rightarrow> wstring \<Rightarrow> CommandHistoryPool \<Rightarrow> CommandHistory option" where
  "find_by_exe eq_ci exe_name pool = List.find (live_exe eq_ci exe_name) pool"

text \<open>The second scan of \<open>allocate_for_process\<close>: the running best candidate, as position and entry.\<close>

fun reuse_scan :: "nat \<Rightarrow> (nat \<times> CommandHistory) option \<Rightarrow> CommandHistoryPool \<Rightarrow> (nat \<times> CommandHistory) option" where
  "reuse_scan i best [] = best"
| "reuse_scan i best (h # rest) =
     (if h_allocated h then reuse_scan (Suc i) best rest
      else if h_commands h = [] \<or> best = None \<or> h_commands (snd (the best)) \<noteq> []
      then reuse_scan (Suc i) (Some (i, h)) rest
      else reuse_scan (Suc i) best rest)"

definition allocate_for_process ::
    "(wstring \<Rightarrow> wstring \<Rightarrow> bool) \<Rightarrow> bool \<Rightarrow> bool \<Rightarrow> wstring \<Rightarrow> 64 word \<Rightarrow> nat \<Rightarrow> nat
      \<Rightarrow> CommandHistoryPool \<Rightarrow> CommandHistoryPool" where
  "allocate_for_process eq_ci name_ok node_ok app_name handle max_histories default_max_commands pool =
     (let same = find_index (\<lambda>h. \<not> h_allocated h \<and> app_name_matches eq_ci app_name h) pool
      in if same = None \<and> length pool < max_histories
         then
           let history = assign_process handle
                 (realloc default_max_commands (snd (try_set_app_name name_ok app_name new_history)))
           in if node_ok then history # pool else pool
         else
           case (case same of Some i \<Rightarrow> Some i | None \<Rightarrow> map_option fst (reuse_scan 0 None pool)) of
             None \<Rightarrow> pool
           | Some i \<Rightarrow>
               if same = None
               then
                 let (set_ok, h) = try_set_app_name name_ok app_name (clear_commands (pool ! i))
                 in if \<not> set_ok then pool[i := h]
                    else move_front i (pool[i := assign_process handle h])
               else move_front i (pool[i := assign_process handle (pool ! i)]))"

definition free_for_process :: "64 word \<Rightarrow> CommandHistoryPool \<Rightarrow> CommandHistoryPool" where
  "free_for_process handle pool = update_first (owned_by handle) release_process pool"

definition expunge_by_exe :: "(wstring \<Rightarrow> wstring \<Rightarrow> bool) \<Rightarrow> wstring \<Rightarrow> CommandHistoryPool \<Rightarrow> CommandHistoryPool" where
  "expunge_by_exe eq_ci exe_name pool = update_first (live_exe eq_ci exe_name) clear_commands pool"

definition set_number_of_commands_by_exe ::
    "(wstring \<Rightarrow> wstring \<Rightarrow> bool) \<Rightarrow> wstring \<Rightarrow> nat \<Rightarrow> CommandHistoryPool \<Rightarrow> CommandHistoryPool" where
  "set_number_of_commands_by_exe eq_ci exe_name max_commands pool =
     (case find_index (live_exe eq_ci exe_name) pool of
        None \<Rightarrow> pool
      | Some i \<Rightarrow> move_front i (pool[i := realloc max_commands (pool ! i)]))"

text \<open>\<open>ServerState::add_command_history_for_process\<close> is the only caller of \<open>add\<close>.\<close>

definition add_for_process :: "bool \<Rightarrow> 64 word \<Rightarrow> wstring \<Rightarrow> bool \<Rightarrow> CommandHistoryPool \<Rightarrow> CommandHistoryPool" where
  "add_for_process mem_ok handle command suppress_duplicates pool =
     update_first (owned_by handle) (add mem_ok command suppress_duplicates) pool"

section \<open>Invariant\<close>

text \<open>
  A history never holds more commands than its limit and never an empty command; no two
  allocated entries belong to the same process.
\<close>

definition history_ok :: "CommandHistory \<Rightarrow> bool" where
  "history_ok h \<longleftrightarrow> length (h_commands h) \<le> h_max_commands h \<and> (\<forall>c \<in> set (h_commands h). c \<noteq> [])"

definition owners :: "CommandHistoryPool \<Rightarrow> 64 word list" where
  "owners pool = map h_process_handle (filter h_allocated pool)"

definition pool_ok :: "CommandHistoryPool \<Rightarrow> bool" where
  "pool_ok pool \<longleftrightarrow> list_all history_ok pool \<and> distinct (owners pool)"

lemma history_ok_new [simp]: "history_ok new_history"
  by (simp add: history_ok_def new_history_def)

lemma history_ok_realloc [simp]: "history_ok h \<Longrightarrow> history_ok (realloc n h)"
  by (auto simp: history_ok_def realloc_def Let_def dest: in_set_takeD)

lemma history_ok_clear [simp]: "history_ok (clear_commands h)"
  by (simp add: history_ok_def clear_commands_def)

lemma history_ok_fields [simp]:
  "history_ok (assign_process p h) = history_ok h"
  "history_ok (release_process h) = history_ok h"
  "history_ok (snd (try_set_app_name ok n h)) = history_ok h"
  by (simp_all add: history_ok_def assign_process_def release_process_def try_set_app_name_def)

lemma history_ok_add [simp]:
  assumes "history_ok h"
  shows "history_ok (add ok c sd h)"
proof -
  let ?cs1 = "if sd then remove1 c (h_commands h) else h_commands h"
  have len: "length ?cs1 \<le> h_max_commands h"
    using assms by (auto simp: history_ok_def length_remove1)
  have sub: "set ?cs1 \<subseteq> set (h_commands h)"
    using set_remove1_subset [of c "h_commands h"] by auto
  have tl_sub: "set (tl xs) \<subseteq> set xs" for xs :: "wstring list"
    by (cases xs) auto
  show ?thesis
    using assms len sub tl_sub [of ?cs1]
    by (auto simp: history_ok_def add_def Let_def split: if_splits)
qed

lemma allocated_fields [simp]:
  "h_allocated (realloc n h) = h_allocated h" "h_allocated (clear_commands h) = h_allocated h"
  "h_allocated (add ok c sd h) = h_allocated h" "h_allocated (snd (try_set_app_name ok n' h)) = h_allocated h"
  "h_process_handle (realloc n h) = h_process_handle h"
  "h_process_handle (clear_commands h) = h_process_handle h"
  "h_process_handle (add ok c sd h) = h_process_handle h"
  "h_process_handle (snd (try_set_app_name ok n' h)) = h_process_handle h"
  by (simp_all add: realloc_def clear_commands_def add_def try_set_app_name_def Let_def)

lemma assign_fields [simp]:
  "h_allocated (assign_process p h)" "h_process_handle (assign_process p h) = p"
  "h_commands (assign_process p h) = h_commands h" "h_app_name (assign_process p h) = h_app_name h"
  "\<not> h_allocated (release_process h)"
  by (simp_all add: assign_process_def release_process_def)

section \<open>Every operation keeps the invariant\<close>

text \<open>
  The second scan, as a specification: the last unallocated entry without commands if there is
  one, otherwise the last unallocated entry, that is the least recently used one.
\<close>

definition free_entries :: "CommandHistoryPool \<Rightarrow> (nat \<times> CommandHistory) list" where
  "free_entries pool = filter (\<lambda>(_, h). \<not> h_allocated h) (enumerate 0 pool)"

definition reuse_pick :: "CommandHistoryPool \<Rightarrow> (nat \<times> CommandHistory) option" where
  "reuse_pick pool =
     (let free = free_entries pool;
          empties = filter (\<lambda>(_, h). h_commands h = []) free
      in if empties \<noteq> [] then Some (last empties)
         else if free \<noteq> [] then Some (last free) else None)"

lemma reuse_scan_append:
  "reuse_scan i best (xs @ ys) = reuse_scan (i + length xs) (reuse_scan i best xs) ys"
  by (induction i best xs rule: reuse_scan.induct) auto

lemma last_in_filter: "filter P xs \<noteq> [] \<Longrightarrow> P (last (filter P xs))"
  using last_in_set [of "filter P xs"] by (auto simp del: last_in_set)

lemma reuse_scan_pick: "reuse_scan 0 None pool = reuse_pick pool"
proof (induction pool rule: rev_induct)
  case Nil
  then show ?case by (simp add: reuse_pick_def free_entries_def)
next
  case (snoc h pool)
  let ?free = "free_entries pool"
  let ?empties = "filter (\<lambda>(_, h). h_commands h = []) ?free"
  have e: "?empties \<noteq> [] \<Longrightarrow> h_commands (snd (last ?empties)) = []"
    using last_in_filter [of "\<lambda>(_, h). h_commands h = []" ?free] by (simp add: case_prod_beta)
  have f: "?empties = [] \<Longrightarrow> ?free \<noteq> [] \<Longrightarrow> h_commands (snd (last ?free)) \<noteq> []"
    using last_in_set [of ?free] by (auto simp: filter_empty_conv case_prod_beta)
  have app: "free_entries (pool @ [h]) = ?free @ (if h_allocated h then [] else [(length pool, h)])"
    by (simp add: free_entries_def enumerate_append_eq)
  show ?case
    using e f by (auto simp: reuse_scan_append snoc.IH reuse_pick_def app Let_def)
qed

lemma reuse_pick_in: "reuse_pick pool = Some x \<Longrightarrow> x \<in> set (free_entries pool)"
  unfolding reuse_pick_def Let_def
  by (metis (no_types, lifting) filter_is_subset last_in_set option.discI option.inject subsetD)

lemma reuse_scan_Some:
  assumes "reuse_scan 0 None pool = Some (k, h)"
  shows "k < length pool \<and> h = pool ! k \<and> \<not> h_allocated h"
  using reuse_pick_in [of pool "(k, h)"] assms
  by (auto simp: reuse_scan_pick free_entries_def in_set_enumerate_eq)

lemma free_entries_Nil: "free_entries pool = [] \<longleftrightarrow> (\<forall>h \<in> set pool. h_allocated h)"
proof -
  have "set pool = snd ` set (enumerate 0 pool)"
    by (metis list.set_map map_snd_enumerate)
  then show ?thesis by (auto simp: free_entries_def filter_empty_conv)
qed

lemma reuse_scan_None: "reuse_scan 0 None pool = None \<longleftrightarrow> (\<forall>h \<in> set pool. h_allocated h)"
  by (simp add: reuse_scan_pick reuse_pick_def Let_def free_entries_Nil [symmetric])

subsection \<open>What \<open>allocate_for_process\<close> does\<close>

text \<open>
  The three outcomes: a new entry in front, an existing entry moved to the front, or nothing.
\<close>

definition reuse_index :: "(wstring \<Rightarrow> wstring \<Rightarrow> bool) \<Rightarrow> wstring \<Rightarrow> CommandHistoryPool \<Rightarrow> nat option" where
  "reuse_index eq_ci app_name pool =
     find_index (\<lambda>h. \<not> h_allocated h \<and> app_name_matches eq_ci app_name h) pool"

lemma move_front_update:
  "i < length xs \<Longrightarrow> move_front i (xs[i := x]) = x # take i xs @ drop (Suc i) xs"
  by (simp add: move_front_def)

lemma allocate_same:
  "reuse_index eq_ci app_name pool = Some i \<Longrightarrow>
    allocate_for_process eq_ci name_ok node_ok app_name p mh dm pool =
      assign_process p (pool ! i) # take i pool @ drop (Suc i) pool"
  using find_index_Some [of "\<lambda>h. \<not> h_allocated h \<and> app_name_matches eq_ci app_name h" pool i]
  by (simp add: allocate_for_process_def reuse_index_def move_front_update)

lemma allocate_new:
  "reuse_index eq_ci app_name pool = None \<Longrightarrow> length pool < mh \<Longrightarrow>
    allocate_for_process eq_ci name_ok node_ok app_name p mh dm pool =
      (if node_ok then assign_process p (realloc dm (snd (try_set_app_name name_ok app_name new_history))) # pool
       else pool)"
  by (simp add: allocate_for_process_def reuse_index_def Let_def)

lemma allocate_full:
  "reuse_index eq_ci app_name pool = None \<Longrightarrow> \<not> length pool < mh \<Longrightarrow> reuse_scan 0 None pool = None \<Longrightarrow>
    allocate_for_process eq_ci name_ok node_ok app_name p mh dm pool = pool"
  by (simp add: allocate_for_process_def reuse_index_def Let_def)

lemma allocate_reuse:
  assumes "reuse_index eq_ci app_name pool = None" and "\<not> length pool < mh"
    and "reuse_scan 0 None pool = Some (i, h)"
  shows "allocate_for_process eq_ci name_ok node_ok app_name p mh dm pool =
    (if name_ok then assign_process p ((clear_commands h)\<lparr>h_app_name := app_name\<rparr>) # take i pool @ drop (Suc i) pool
     else pool[i := (clear_commands h)\<lparr>h_app_name := []\<rparr>])"
  using assms reuse_scan_Some [OF assms(3)]
  by (simp add: allocate_for_process_def reuse_index_def Let_def try_set_app_name_def move_front_update)

lemmas allocate_cases = allocate_same allocate_new allocate_full allocate_reuse

lemma allocate_cases_exhaust:
  obtains (same) i where "reuse_index eq_ci app_name pool = Some i"
  | (fresh) "reuse_index eq_ci app_name pool = None" "length pool < mh"
  | (full) "reuse_index eq_ci app_name pool = None" "\<not> length pool < mh" "reuse_scan 0 None pool = None"
  | (reuse) i h where "reuse_index eq_ci app_name pool = None" "\<not> length pool < mh"
      "reuse_scan 0 None pool = Some (i, h)"
  by (cases "reuse_index eq_ci app_name pool"; cases "reuse_scan 0 None pool") auto

lemma reuse_index_entry:
  "reuse_index eq_ci app_name pool = Some i \<Longrightarrow>
    i < length pool \<and> \<not> h_allocated (pool ! i) \<and> app_name_matches eq_ci app_name (pool ! i)"
  by (simp add: reuse_index_def find_index_Some)

lemma take_drop_subset: "set (take i xs @ drop (Suc i) xs) \<subseteq> set xs"
  by (auto dest: in_set_takeD in_set_dropD)

lemma allocate_histories_ok:
  assumes "list_all history_ok pool"
  shows "list_all history_ok (allocate_for_process eq_ci name_ok node_ok app_name p mh dm pool)"
proof -
  have rest: "list_all history_ok (take i pool @ drop (Suc i) pool)" for i
    using assms take_drop_subset [of i pool] unfolding list_all_iff by blast
  have ok: "i < length pool \<Longrightarrow> history_ok (pool ! i)" for i
    using assms by (simp add: list_all_length)
  show ?thesis
  proof (cases rule: allocate_cases_exhaust [where eq_ci = eq_ci and app_name = app_name and pool = pool and mh = mh])
    case (same i)
    then show ?thesis using rest ok [of i] reuse_index_entry [OF same] by (simp add: allocate_same)
  next
    case fresh
    then show ?thesis using assms by (simp add: allocate_new)
  next
    case full
    then show ?thesis using assms by (simp add: allocate_full)
  next
    case (reuse i h)
    have "history_ok ((clear_commands h)\<lparr>h_app_name := n\<rparr>)" for n
      by (simp add: history_ok_def clear_commands_def)
    then show ?thesis
      using rest assms reuse_scan_Some [OF reuse(3)]
      by (auto simp: allocate_reuse [OF reuse] list_all_iff dest!: set_update_subset_insert [THEN subsetD])
  qed
qed

lemma owners_assign: "owners (assign_process p h # hs) = p # owners hs"
  by (simp add: owners_def)

lemma owners_append [simp]: "owners (xs @ ys) = owners xs @ owners ys"
  by (simp add: owners_def)

lemma owners_nth:
  "i < length pool \<Longrightarrow> owners pool = owners (take i pool) @ owners [pool ! i] @ owners (drop (Suc i) pool)"
  by (simp add: owners_append [symmetric] id_take_nth_drop [symmetric] del: owners_append)

lemma owners_drop:
  "i < length pool \<Longrightarrow> \<not> h_allocated (pool ! i) \<Longrightarrow> owners (take i pool @ drop (Suc i) pool) = owners pool"
  using owners_nth [of i pool] by (simp add: owners_def)

lemma owners_update:
  "i < length pool \<Longrightarrow> \<not> h_allocated (pool ! i) \<Longrightarrow> \<not> h_allocated h \<Longrightarrow> owners (pool[i := h]) = owners pool"
  using owners_drop [of i pool] owners_drop [of i "pool[i := h]"] by simp

lemma owners_allocate:
  "owners (allocate_for_process eq_ci name_ok node_ok app_name p mh dm pool) \<in> {owners pool, p # owners pool}"
proof (cases rule: allocate_cases_exhaust [where eq_ci = eq_ci and app_name = app_name and pool = pool and mh = mh])
  case (same i)
  then show ?thesis using reuse_index_entry [OF same] by (simp add: allocate_same owners_assign owners_drop del: owners_append)
next
  case fresh
  then show ?thesis by (simp add: allocate_new owners_assign)
next
  case full
  then show ?thesis by (simp add: allocate_full)
next
  case (reuse i h)
  then show ?thesis using reuse_scan_Some [OF reuse(3)]
    by (auto simp: allocate_reuse owners_assign owners_drop owners_update clear_commands_def
        simp del: owners_append)
qed

lemma owners_update_first:
  "(\<And>h. h_allocated (f h) = h_allocated h \<and> h_process_handle (f h) = h_process_handle h) \<Longrightarrow>
    owners (update_first P f pool) = owners pool"
  by (induction pool) (auto simp: owners_def)

lemma owners_free: "owners (free_for_process p pool) = remove1 p (owners pool)"
  unfolding free_for_process_def
  by (induction pool) (auto simp: owners_def owned_by_def release_process_def)

lemma owners_move_update:
  assumes "i < length pool" and "h_allocated h = h_allocated (pool ! i)"
    and "h_process_handle h = h_process_handle (pool ! i)"
  shows "mset (owners (move_front i (pool[i := h]))) = mset (owners pool)"
proof -
  have "mset (owners (move_front i (pool[i := h]))) = mset (owners (pool[i := h]))"
    by (simp add: owners_def mset_filter mset_move_front)
  also have "owners (pool[i := h]) = owners pool"
    using assms owners_nth [of i pool] owners_nth [of i "pool[i := h]"] by (simp add: owners_def)
  finally show ?thesis .
qed

lemma histories_ok_update_first:
  "(\<And>h. history_ok h \<Longrightarrow> history_ok (f h)) \<Longrightarrow> list_all history_ok pool \<Longrightarrow>
    list_all history_ok (update_first P f pool)"
  by (induction pool) auto

lemma histories_ok_set_number:
  assumes "list_all history_ok pool"
  shows "list_all history_ok (set_number_of_commands_by_exe eq_ci exe n pool)"
proof (cases "find_index (live_exe eq_ci exe) pool")
  case None
  then show ?thesis using assms by (simp add: set_number_of_commands_by_exe_def)
next
  case (Some i)
  then have "i < length pool" by (simp add: find_index_Some)
  then have "list_all history_ok (pool[i := realloc n (pool ! i)])"
    using assms by (simp add: list_all_length nth_list_update)
  then show ?thesis using Some by (simp add: set_number_of_commands_by_exe_def list_all_iff)
qed

subsection \<open>The pool as a machine\<close>

datatype pool_op =
    ResizeAll nat
  | Allocate bool bool wstring "64 word" nat nat
  | FreeFor "64 word"
  | Expunge wstring
  | SetNumber wstring nat
  | AddCommand bool "64 word" wstring bool

fun pool_step :: "(wstring \<Rightarrow> wstring \<Rightarrow> bool) \<Rightarrow> CommandHistoryPool \<Rightarrow> pool_op \<Rightarrow> CommandHistoryPool" where
  "pool_step eq_ci pool (ResizeAll n) = resize_all n pool"
| "pool_step eq_ci pool (Allocate name_ok node_ok app_name p mh dm) =
     allocate_for_process eq_ci name_ok node_ok app_name p mh dm pool"
| "pool_step eq_ci pool (FreeFor p) = free_for_process p pool"
| "pool_step eq_ci pool (Expunge exe) = expunge_by_exe eq_ci exe pool"
| "pool_step eq_ci pool (SetNumber exe n) = set_number_of_commands_by_exe eq_ci exe n pool"
| "pool_step eq_ci pool (AddCommand mem_ok p command sd) = add_for_process mem_ok p command sd pool"

lemma pool_step_histories_ok:
  "list_all history_ok pool \<Longrightarrow> list_all history_ok (pool_step eq_ci pool op)"
  by (cases op) (auto simp: resize_all_def free_for_process_def expunge_by_exe_def add_for_process_def
      list_all_iff [of _ "map _ _"] intro!: allocate_histories_ok histories_ok_set_number
      histories_ok_update_first, simp add: list_all_iff)

interpretation pool: invariant_machine "pool_step eq_ci" "list_all history_ok" for eq_ci
  by unfold_locales (rule pool_step_histories_ok)

text \<open>The ownership part: only an allocation for a handle that already owns an entry could break it.\<close>

definition fresh_op :: "CommandHistoryPool \<Rightarrow> pool_op \<Rightarrow> bool" where
  "fresh_op pool op \<longleftrightarrow> (case op of Allocate _ _ _ p _ _ \<Rightarrow> p \<notin> set (owners pool) | _ \<Rightarrow> True)"

lemma pool_step_owners:
  assumes "distinct (owners pool)" and "fresh_op pool op"
  shows "distinct (owners (pool_step eq_ci pool op))"
proof (cases op)
  case (Allocate name_ok node_ok app_name p mh dm)
  then show ?thesis
    using assms owners_allocate [of eq_ci name_ok node_ok app_name p mh dm pool] by (auto simp: fresh_op_def)
next
  case (SetNumber exe n)
  show ?thesis
  proof (cases "find_index (live_exe eq_ci exe) pool")
    case (Some i)
    then have "mset (owners (move_front i (pool[i := realloc n (pool ! i)]))) = mset (owners pool)"
      by (intro owners_move_update) (simp_all add: find_index_Some)
    then show ?thesis
      using SetNumber Some assms(1) mset_eq_imp_distinct_iff
      by (fastforce simp: set_number_of_commands_by_exe_def)
  qed (use SetNumber assms in \<open>simp add: set_number_of_commands_by_exe_def\<close>)
next
  case (ResizeAll n)
  then show ?thesis using assms(1) by (simp add: resize_all_def owners_def filter_map o_def)
qed (use assms(1) in \<open>simp_all add: owners_free expunge_by_exe_def add_for_process_def owners_update_first\<close>)

lemma pool_step_ok: "pool_ok pool \<Longrightarrow> fresh_op pool op \<Longrightarrow> pool_ok (pool_step eq_ci pool op)"
  by (simp add: pool_ok_def pool_step_histories_ok pool_step_owners)

section \<open>Properties\<close>

lemma find_by_process_assign: "find_by_process p (assign_process p h # rest) = Some (assign_process p h)"
  by (simp add: find_by_process_def owned_by_def)

text \<open>
  C40. Starting from an empty pool, no sequence of pool operations, with any allocation outcomes,
  ever leaves a history with more commands than its limit or with an empty command.
\<close>

theorem pool_run_bounded:
  "h \<in> set (foldl (pool_step eq_ci) [] ops) \<Longrightarrow>
    length (h_commands h) \<le> h_max_commands h \<and> [] \<notin> set (h_commands h)"
  using pool.inv_run [of "[]" eq_ci ops] by (auto simp: list_all_iff history_ok_def)

theorem pool_run_bounded_witness:
  "\<exists>h \<in> set (foldl (pool_step (=)) [] [Allocate True True [99] 7 4 50, AddCommand True 7 [100] False]).
    length (h_commands h) \<le> h_max_commands h \<and> [] \<notin> set (h_commands h) \<and> h_commands h = [[100]]"
proof -
  let ?h = "\<lparr>h_commands = [[100]], h_max_commands = 50, h_app_name = [99], h_process_handle = 7,
    h_allocated = True\<rparr>"
  have m: "?h \<in> set (foldl (pool_step (=)) [] [Allocate True True [99] 7 4 50, AddCommand True 7 [100] False])"
    by (simp add: allocate_for_process_def add_for_process_def add_def try_set_app_name_def realloc_def
        assign_process_def new_history_def owned_by_def Let_def)
  show ?thesis by (rule bexI [OF _ m]) (use pool_run_bounded [OF m] in simp)
qed

text \<open>
  \<open>allocate_for_process\<close> serves every process it can: when memory suffices and the pool has
  room or an unallocated entry, the process owns the front entry of the new pool, under a
  matching application name, with the commands of the unallocated entry of that name if there
  was one and with no commands otherwise; and the pool never grows past its limit.
\<close>

theorem allocate_for_process_serves:
  assumes "length pool < max_histories \<or> (\<exists>h \<in> set pool. \<not> h_allocated h)"
    and "app_name_matches eq_ci app_name \<lparr>h_commands = [], h_max_commands = 0, h_app_name = app_name,
      h_process_handle = 0, h_allocated = False\<rparr>"
  shows "\<exists>h. find_by_process p (allocate_for_process eq_ci True True app_name p max_histories dm pool) = Some h
    \<and> hd (allocate_for_process eq_ci True True app_name p max_histories dm pool) = h
    \<and> app_name_matches eq_ci app_name h
    \<and> h_commands h = (case reuse_index eq_ci app_name pool of Some i \<Rightarrow> h_commands (pool ! i) | None \<Rightarrow> [])
    \<and> length (allocate_for_process eq_ci True True app_name p max_histories dm pool) \<le> max (length pool) max_histories"
proof (cases rule: allocate_cases_exhaust [where eq_ci = eq_ci and app_name = app_name and pool = pool and mh = max_histories])
  case (same i)
  then show ?thesis using reuse_index_entry [OF same]
    by (auto simp: allocate_same find_by_process_assign app_name_matches_def)
next
  case fresh
  then show ?thesis using assms(2)
    by (auto simp: allocate_new find_by_process_assign app_name_matches_def realloc_def Let_def
        try_set_app_name_def new_history_def)
next
  case full
  then show ?thesis using assms(1) by (auto simp: reuse_scan_None)
next
  case (reuse i h)
  then show ?thesis using assms(2) reuse_scan_Some [OF reuse(3)]
    by (auto simp: allocate_reuse find_by_process_assign app_name_matches_def clear_commands_def)
qed

theorem allocate_for_process_serves_witness:
  "\<exists>h. find_by_process 7 (allocate_for_process (=) True True [99] 7 4 50 []) = Some h \<and> h_commands h = []"
proof -
  have "length [] < (4::nat) \<or> (\<exists>h \<in> set ([] :: CommandHistoryPool). \<not> h_allocated h)" by simp
  moreover have "app_name_matches (=) [99] \<lparr>h_commands = [], h_max_commands = 0, h_app_name = [99],
      h_process_handle = 0, h_allocated = False\<rparr>"
    by (simp add: app_name_matches_def)
  ultimately show ?thesis
    using allocate_for_process_serves [where pool = "[]" and max_histories = 4 and eq_ci = "(=)"
        and app_name = "[99]" and p = 7 and dm = 50]
    by (auto simp: reuse_index_def)
qed

text \<open>
  A process that disconnects leaves its history behind for the next process of the same
  application: freeing the entry and allocating for a new process under the same name gives the
  new process exactly the old entry, commands and limit included, provided no other unallocated
  entry of that name was waiting.
\<close>

theorem reconnect_recovers_history:
  assumes own: "find_by_process p pool = Some h"
    and refl: "\<And>s. eq_ci s s" and short: "length (h_app_name h) \<le> int_max"
    and only: "\<forall>x \<in> set pool. \<not> h_allocated x \<longrightarrow> \<not> app_name_matches eq_ci (h_app_name h) x"
  shows "find_by_process q (allocate_for_process eq_ci name_ok node_ok (h_app_name h) q mh dm (free_for_process p pool))
    = Some (h\<lparr>h_process_handle := q\<rparr>)"
proof -
  let ?free = "free_for_process p pool"
  let ?Q = "\<lambda>x. \<not> h_allocated x \<and> app_name_matches eq_ci (h_app_name h) x"
  obtain i where i: "i < length pool" "pool ! i = h" "owned_by p h" "\<forall>j < i. \<not> owned_by p (pool ! j)"
    using own by (auto simp: find_by_process_def find_Some_iff)
  have upd: "?free = pool[i := release_process h]"
    using i update_first_nth [of i pool "owned_by p" release_process] by (simp add: free_for_process_def)
  have "?Q (?free ! i)"
    using i refl short by (simp add: upd app_name_matches_def release_process_def)
  moreover have "\<not> ?Q (?free ! j)" if "j < i" for j
    using that i(1) only nth_mem [of j pool] by (auto simp: upd)
  ultimately have "reuse_index eq_ci (h_app_name h) ?free = Some i"
    using i(1) by (simp add: reuse_index_def find_index_Some upd)
  moreover have "assign_process q (?free ! i) = h\<lparr>h_process_handle := q\<rparr>"
    using i by (simp add: upd assign_process_def release_process_def owned_by_def)
  moreover have "find_by_process q (assign_process q (?free ! i) # take i ?free @ drop (Suc i) ?free)
      = Some (assign_process q (?free ! i))"
    by (rule find_by_process_assign)
  ultimately show ?thesis
    by (simp add: allocate_same)
qed

theorem reconnect_recovers_history_witness:
  "find_by_process 8 (allocate_for_process (=) True True [99] 8 4 50
      (free_for_process 7 [\<lparr>h_commands = [[100]], h_max_commands = 5, h_app_name = [99],
        h_process_handle = 7, h_allocated = True\<rparr>])) =
    Some \<lparr>h_commands = [[100]], h_max_commands = 5, h_app_name = [99], h_process_handle = 8,
      h_allocated = True\<rparr>"
proof -
  let ?h = "\<lparr>h_commands = [[100]], h_max_commands = 5, h_app_name = [99], h_process_handle = 7,
    h_allocated = True\<rparr> :: CommandHistory"
  have "find_by_process 7 [?h] = Some ?h" by (simp add: find_by_process_def owned_by_def)
  moreover have "length (h_app_name ?h) \<le> int_max" by simp
  moreover have "\<forall>x \<in> set [?h]. \<not> h_allocated x \<longrightarrow> \<not> app_name_matches (=) (h_app_name ?h) x" by simp
  ultimately show ?thesis
    using reconnect_recovers_history [of 7 "[?h]" ?h "(=)" 8 True True 4 50] by simp
qed

text \<open>The entries that a new command leaves in place, before the eviction.\<close>

definition kept_commands :: "wstring \<Rightarrow> bool \<Rightarrow> CommandHistory \<Rightarrow> wstring list" where
  "kept_commands command sd h = (if sd then remove1 command (h_commands h) else h_commands h)"

text \<open>
  \<open>add\<close> records a command: on a well-formed history that keeps commands, a non-empty command
  becomes the last entry; the earlier entries stay in their order, except that the copy of the
  command is dropped when duplicates are suppressed and the oldest entry is dropped when the
  history is full; and with suppression a history without duplicates stays without.
\<close>

theorem add_records_command:
  assumes "history_ok h" and "0 < h_max_commands h" and "command \<noteq> []"
  shows "last (h_commands (add True command sd h)) = command
    \<and> length (h_commands (add True command sd h)) \<le> h_max_commands h
    \<and> (h_commands (add True command sd h) = h_commands h
       \<or> (\<exists>k \<le> 1. h_commands (add True command sd h) = drop k (kept_commands command sd h) @ [command]
            \<and> (k = 1 \<longleftrightarrow> length (kept_commands command sd h) = h_max_commands h)))
    \<and> (sd \<and> distinct (h_commands h) \<longrightarrow> distinct (h_commands (add True command sd h)))"
proof (cases "h_commands h \<noteq> [] \<and> last (h_commands h) = command")
  case True
  then show ?thesis using assms by (simp add: add_def history_ok_def)
next
  case False
  let ?k = "if length (kept_commands command sd h) = h_max_commands h then 1 else 0 :: nat"
  have eq: "h_commands (add True command sd h) = drop ?k (kept_commands command sd h) @ [command]"
    using False assms(2,3) by (auto simp: add_def kept_commands_def Let_def drop_Suc)
  have "history_ok (add True command sd h)" using assms(1) by (rule history_ok_add)
  moreover have "h_max_commands (add True command sd h) = h_max_commands h"
    by (simp add: add_def Let_def)
  ultimately have len: "length (h_commands (add True command sd h)) \<le> h_max_commands h"
    by (simp add: history_ok_def)
  have "distinct (h_commands (add True command sd h))" if "sd" "distinct (h_commands h)"
  proof -
    have "distinct (kept_commands command sd h)" "command \<notin> set (kept_commands command sd h)"
      using that by (simp_all add: kept_commands_def)
    then show ?thesis unfolding eq by (auto dest: in_set_dropD)
  qed
  with eq len show ?thesis by (auto intro: exI [of _ ?k])
qed

theorem add_records_command_witness:
  "let h = \<lparr>h_commands = [[1], [2], [3]], h_max_commands = 3, h_app_name = [], h_process_handle = 7,
      h_allocated = True\<rparr> :: CommandHistory
   in last (h_commands (add True [4] False h)) = [4] \<and> h_commands (add True [4] False h) = [[2], [3], [4]]"
proof -
  let ?h = "\<lparr>h_commands = [[1], [2], [3]], h_max_commands = 3, h_app_name = [], h_process_handle = 7,
      h_allocated = True\<rparr> :: CommandHistory"
  have "history_ok ?h" "0 < h_max_commands ?h" "[4 :: wchar] \<noteq> []" by (simp_all add: history_ok_def)
  from add_records_command [OF this, of False] show ?thesis by (simp add: add_def)
qed

end
