(* ===== verification/Vt_Input.thy ===== *)
theory Vt_Input
  imports Fast_Number
begin

text \<open>
  Keys as byte sequences: the decoder of terminal input (\<open>vt_input_decoder.cpp\<close>) and the encoder
  of window key events (\<open>key_input_encoder.cpp\<close>). A decoder reports that it needs more data, that
  it produced a token with the number of bytes it used, or that nothing it knows starts here. The
  interface \<open>incremental\<close> states what a reader that gets its bytes in pieces relies on.
\<close>

section \<open>Incremental decoders\<close>

text \<open>
  \<open>dec bs\<close> is None while the bytes may continue a sequence. A decision uses a nonempty prefix of
  the bytes and does not change when more bytes follow.
\<close>

locale incremental =
  fixes dec :: "byte list \<Rightarrow> 'r option" and used :: "'r \<Rightarrow> nat"
  assumes dec_bound: "dec bs = Some r \<Longrightarrow> used r \<le> length bs"
    and dec_stable: "dec bs = Some r \<Longrightarrow> dec (bs @ ext) = Some r"
begin

text \<open>No token is cut: every proper prefix of the bytes it used asks for more data.\<close>

lemma dec_minimal:
  assumes "dec bs = Some r" and "k < used r"
  shows "dec (take k bs) = None"
proof (cases "dec (take k bs)")
  case (Some r')
  have "dec bs = Some r'" using dec_stable [OF Some, of "drop k bs"] by simp
  then have "r' = r" using assms(1) by simp
  with dec_bound [OF Some] assms(2) show ?thesis by simp
qed simp

text \<open>Two inputs that agree on the bytes used give the same token.\<close>

lemma dec_prefix:
  assumes "dec (bs @ xs) = Some r" and "dec bs \<noteq> None"
  shows "dec (bs @ ys) = Some r"
proof -
  obtain r' where r': "dec bs = Some r'" using assms(2) by auto
  with dec_stable [OF r', of xs] assms(1) have "r' = r" by simp
  with dec_stable [OF r', of ys] show ?thesis by simp
qed

end

text \<open>Decoding as much as possible: the tokens, and the bytes that are left.\<close>

function drain :: "(byte list \<Rightarrow> 'r option) \<Rightarrow> ('r \<Rightarrow> nat) \<Rightarrow> byte list \<Rightarrow> 'r list \<times> byte list" where
  "drain dec used bs =
    (case dec bs of
       None \<Rightarrow> ([], bs)
     | Some r \<Rightarrow>
         if 0 < used r \<and> used r \<le> length bs
         then (let (rs, rest) = drain dec used (drop (used r) bs) in (r # rs, rest))
         else ([], bs))"
  by pat_completeness auto

termination
  by (relation "measure (\<lambda>(dec, used, bs). length bs)") auto

declare drain.simps [simp del]

text \<open>A decoder that always makes progress gives the same tokens however its input is cut.\<close>

locale progressive = incremental +
  assumes dec_progress: "dec bs = Some r \<Longrightarrow> 0 < used r"
begin

lemma drain_unfold:
  "dec bs = None \<Longrightarrow> drain dec used bs = ([], bs)"
  "dec bs = Some r \<Longrightarrow> drain dec used bs =
    (r # fst (drain dec used (drop (used r) bs)), snd (drain dec used (drop (used r) bs)))"
  using dec_bound [of bs r] dec_progress [of bs r]
  by (simp_all add: drain.simps [of dec used bs] split: prod.split)

lemma drain_append:
  "drain dec used (xs @ ys) =
    (fst (drain dec used xs) @ fst (drain dec used (snd (drain dec used xs) @ ys)),
     snd (drain dec used (snd (drain dec used xs) @ ys)))"
proof (induction xs rule: length_induct)
  case (1 xs)
  show ?case
  proof (cases "dec xs")
    case None
    then show ?thesis by (simp add: drain_unfold)
  next
    case (Some r)
    have "used r \<le> length xs" "0 < used r" using dec_bound [OF Some] dec_progress [OF Some] .
    then have ih: "drain dec used (drop (used r) xs @ ys) =
        (fst (drain dec used (drop (used r) xs)) @ fst (drain dec used (snd (drain dec used (drop (used r) xs)) @ ys)),
         snd (drain dec used (snd (drain dec used (drop (used r) xs)) @ ys)))"
      using 1 by simp
    have "drop (used r) (xs @ ys) = drop (used r) xs @ ys" using \<open>used r \<le> length xs\<close> by simp
    then show ?thesis
      using drain_unfold(2) [OF Some] drain_unfold(2) [OF dec_stable [OF Some, of ys]] ih by simp
  qed
qed

lemma drain_left: "dec (snd (drain dec used xs)) = None"
proof (induction xs rule: length_induct)
  case (1 xs)
  show ?case
  proof (cases "dec xs")
    case (Some r)
    have "0 < used r" "used r \<le> length xs" using dec_progress [OF Some] dec_bound [OF Some] .
    then have "dec (snd (drain dec used (drop (used r) xs))) = None" using 1 by simp
    then show ?thesis by (simp add: drain_unfold(2) [OF Some])
  qed (simp add: drain_unfold)
qed

end

section \<open>Data\<close>

record KEY_EVENT_RECORD =
  bKeyDown :: bool
  wRepeatCount :: ushort
  wVirtualKeyCode :: ushort
  wVirtualScanCode :: ushort
  UnicodeChar :: wchar
  dwControlKeyState :: ulong

datatype TokenKind = key_event | ignored_sequence | text_units

datatype DecodeResult = produced | need_more_data | no_match

record DecodedToken =
  tk_kind :: TokenKind
  tk_bytes_consumed :: nat
  tk_key :: KEY_EVENT_RECORD
  tk_text :: "wchar list"

definition zero_key :: KEY_EVENT_RECORD where
  "zero_key = \<lparr>bKeyDown = False, wRepeatCount = 0, wVirtualKeyCode = 0, wVirtualScanCode = 0, UnicodeChar = 0, dwControlKeyState = 0\<rparr>"

definition empty_token :: DecodedToken where
  "empty_token = \<lparr>tk_kind = text_units, tk_bytes_consumed = 0, tk_key = zero_key, tk_text = []\<rparr>"

record ParsedParam =
  pp_present :: bool
  pp_value :: ulong

section \<open>The decoder\<close>

definition saturating_mul_add_10 :: "ulong \<Rightarrow> ulong \<Rightarrow> ulong" where
  "saturating_mul_add_10 value digit = (if value > (0xFFFFFFFF - digit) div 10 then 0xFFFFFFFF else value * 10 + digit)"

definition saturate_word :: "ulong \<Rightarrow> ushort" where
  "saturate_word value = (if value > 0xFFFF then 0xFFFF else ucast value)"

definition saturate_wchar :: "ulong \<Rightarrow> wchar" where
  "saturate_wchar value = (if value > 0xFFFF then 0xFFFF else ucast value)"

definition make_simple_key_event :: "ushort \<Rightarrow> KEY_EVENT_RECORD" where
  "make_simple_key_event virtual_key =
    \<lparr>bKeyDown = True, wRepeatCount = 1, wVirtualKeyCode = virtual_key, wVirtualScanCode = 0, UnicodeChar = 0, dwControlKeyState = 0\<rparr>"

definition key_token :: "nat \<Rightarrow> KEY_EVENT_RECORD \<Rightarrow> DecodedToken" where
  "key_token n key = empty_token\<lparr>tk_kind := key_event, tk_bytes_consumed := n, tk_key := key\<rparr>"

definition ignored_token :: "nat \<Rightarrow> DecodedToken" where
  "ignored_token n = empty_token\<lparr>tk_kind := ignored_sequence, tk_bytes_consumed := n\<rparr>"

definition decode_ss3 :: "byte list \<Rightarrow> DecodeResult \<times> DecodedToken" where
  "decode_ss3 bytes =
    (if length bytes < 2 then (need_more_data, empty_token)
     else if bytes ! 0 \<noteq> 0x1B \<or> bytes ! 1 \<noteq> 0x4F then (no_match, empty_token)
     else if length bytes < 3 then (need_more_data, empty_token)
     else if bytes ! 2 = 0x50 then (produced, key_token 3 (make_simple_key_event 0x70))
     else if bytes ! 2 = 0x51 then (produced, key_token 3 (make_simple_key_event 0x71))
     else if bytes ! 2 = 0x52 then (produced, key_token 3 (make_simple_key_event 0x72))
     else if bytes ! 2 = 0x53 then (produced, key_token 3 (make_simple_key_event 0x73))
     else (no_match, empty_token))"

text \<open>The keys of \<open>CSI A\<close> to \<open>CSI D\<close>, \<open>CSI H\<close> and \<open>CSI F\<close>.\<close>

definition cursor_key :: "byte \<Rightarrow> ushort" where
  "cursor_key first =
    (if first = 0x41 then 0x26 else if first = 0x42 then 0x28 else if first = 0x43 then 0x27 else if first = 0x44 then 0x25
     else if first = 0x48 then 0x24 else if first = 0x46 then 0x23 else 0)"

fun da1_loop :: "nat \<Rightarrow> byte list \<Rightarrow> DecodeResult \<times> DecodedToken" where
  "da1_loop pos [] = (need_more_data, empty_token)"
| "da1_loop pos (ch # rest) =
    (if ch = 0x63 then (produced, ignored_token (pos + 1))
     else if \<not> (ch = 0x3B \<or> (ch \<ge> 0x30 \<and> ch \<le> 0x39)) then (no_match, empty_token)
     else da1_loop (pos + 1) rest)"

record ParamScan =
  sc_params :: "ParsedParam list"
  sc_index :: nat
  sc_current :: ulong
  sc_present :: bool

definition store_param :: "ParamScan \<Rightarrow> ParamScan" where
  "store_param s =
    (if sc_index s < 6 then s\<lparr>sc_params := (sc_params s)[sc_index s := \<lparr>pp_present = sc_present s, pp_value = sc_current s\<rparr>]\<rparr> else s)"

text \<open>The loop over digits and separators: the scan so far, the position and the bytes from there.\<close>

fun param_loop :: "ParamScan \<Rightarrow> nat \<Rightarrow> byte list \<Rightarrow> ParamScan \<times> nat \<times> byte list" where
  "param_loop s pos [] = (s, pos, [])"
| "param_loop s pos (ch # rest) =
    (if ch \<ge> 0x30 \<and> ch \<le> 0x39 then
       param_loop (s\<lparr>sc_present := True, sc_current := saturating_mul_add_10 (sc_current s) (ucast (ch - 0x30))\<rparr>) (pos + 1) rest
     else if ch = 0x3B then
       param_loop ((store_param s)\<lparr>sc_index := sc_index s + 1, sc_current := 0, sc_present := False\<rparr>) (pos + 1) rest
     else (s, pos, ch # rest))"

definition initial_scan :: ParamScan where
  "initial_scan = \<lparr>sc_params = replicate 6 \<lparr>pp_present = False, pp_value = 0\<rparr>, sc_index = 0, sc_current = 0, sc_present = False\<rparr>"

definition param_value :: "ParamScan \<Rightarrow> nat \<Rightarrow> ulong \<Rightarrow> ulong" where
  "param_value s i d = (if pp_present (sc_params s ! i) then pp_value (sc_params s ! i) else d)"

definition win32_key :: "ParamScan \<Rightarrow> KEY_EVENT_RECORD" where
  "win32_key s =
    \<lparr>bKeyDown = (param_value s 3 0 \<noteq> 0), wRepeatCount = saturate_word (param_value s 5 1),
     wVirtualKeyCode = saturate_word (param_value s 0 0), wVirtualScanCode = saturate_word (param_value s 1 0),
     UnicodeChar = saturate_wchar (param_value s 2 0), dwControlKeyState = param_value s 4 0\<rparr>"

definition tilde_key :: "ulong \<Rightarrow> ushort option" where
  "tilde_key value = (if value = 2 then Some 0x2D else if value = 3 then Some 0x2E else if value = 5 then Some 0x21
     else if value = 6 then Some 0x22 else None)"

definition decode_params :: "nat \<Rightarrow> byte list \<Rightarrow> DecodeResult \<times> DecodedToken" where
  "decode_params pos rest =
    (case param_loop initial_scan pos rest of
       (s, pos, []) \<Rightarrow> (need_more_data, empty_token)
     | (s, pos, terminator # _) \<Rightarrow>
         let s = store_param s
         in if terminator = 0x7E then
              (if sc_index s \<noteq> 0 \<or> \<not> pp_present (sc_params s ! 0) then (no_match, empty_token)
               else case tilde_key (pp_value (sc_params s ! 0)) of
                      None \<Rightarrow> (no_match, empty_token)
                    | Some vk \<Rightarrow> (produced, key_token (pos + 1) (make_simple_key_event vk)))
            else if terminator = 0x5F then (produced, key_token (pos + 1) (win32_key s))
            else (no_match, empty_token))"

definition csi_prefix :: "byte list \<Rightarrow> nat option" where
  "csi_prefix bytes =
    (if bytes \<noteq> [] \<and> bytes ! 0 = 0x9B then Some 1
     else if length bytes \<ge> 2 \<and> bytes ! 0 = 0x1B \<and> bytes ! 1 = 0x5B then Some 2 else None)"

definition decode_csi :: "byte list \<Rightarrow> DecodeResult \<times> DecodedToken" where
  "decode_csi bytes =
    (case csi_prefix bytes of
       None \<Rightarrow> (no_match, empty_token)
     | Some prefix_len \<Rightarrow>
         if length bytes \<le> prefix_len then (need_more_data, empty_token)
         else
           let first = bytes ! prefix_len
           in if first = 0x49 \<or> first = 0x4F then (produced, ignored_token (prefix_len + 1))
              else if first = 0x41 \<or> first = 0x42 \<or> first = 0x43 \<or> first = 0x44 \<or> first = 0x48 \<or> first = 0x46
              then (produced, key_token (prefix_len + 1) (make_simple_key_event (cursor_key first)))
              else if first = 0x3F then da1_loop (prefix_len + 1) (drop (prefix_len + 1) bytes)
              else decode_params prefix_len (drop prefix_len bytes))"

definition try_decode_vt :: "byte list \<Rightarrow> DecodeResult \<times> DecodedToken" where
  "try_decode_vt bytes =
    (if bytes = [] then (no_match, empty_token)
     else if length bytes = 1 \<and> bytes ! 0 = 0x1B then (need_more_data, empty_token)
     else if bytes ! 0 = 0x1B then
       let second = (if length bytes \<ge> 2 then bytes ! 1 else 0)
       in if second = 0x4F then decode_ss3 bytes
          else if second = 0x5B then decode_csi bytes
          else (no_match, empty_token)
     else if bytes ! 0 = 0x9B then decode_csi bytes
     else (no_match, empty_token))"

section \<open>Decisions are final\<close>

lemma da1_loop_bound: "da1_loop pos rest = (r, t) \<Longrightarrow> tk_bytes_consumed t \<le> pos + length rest"
  by (induction pos rest rule: da1_loop.induct) (auto simp: ignored_token_def empty_token_def split: if_splits)

lemma da1_loop_stable: "fst (da1_loop pos rest) \<noteq> need_more_data \<Longrightarrow> da1_loop pos (rest @ ext) = da1_loop pos rest"
  by (induction pos rest rule: da1_loop.induct) (auto split: if_splits)

lemma param_loop_length: "param_loop s pos rest = (s', pos', rest') \<Longrightarrow> pos' + length rest' = pos + length rest"
  by (induction s pos rest rule: param_loop.induct) (auto split: if_splits)

lemma param_loop_append:
  "param_loop s pos rest = (s', pos', c # rest') \<Longrightarrow> param_loop s pos (rest @ ext) = (s', pos', c # rest' @ ext)"
  by (induction s pos rest rule: param_loop.induct) (auto split: if_splits)

lemma token_consumed [simp]:
  "tk_bytes_consumed (key_token n k) = n" "tk_bytes_consumed (ignored_token n) = n" "tk_bytes_consumed empty_token = 0"
  by (simp_all add: key_token_def ignored_token_def empty_token_def)

lemma decode_params_bound:
  assumes "decode_params pos rest = (r, t)"
  shows "tk_bytes_consumed t \<le> pos + length rest"
proof -
  obtain s pos' rest' where l: "param_loop initial_scan pos rest = (s, pos', rest')" by (metis prod_cases3)
  show ?thesis
    using assms param_loop_length [OF l]
    by (auto simp: decode_params_def l Let_def split: list.splits if_splits option.splits)
qed

lemma decode_params_stable:
  assumes "fst (decode_params pos rest) \<noteq> need_more_data"
  shows "decode_params pos (rest @ ext) = decode_params pos rest"
proof -
  obtain s pos' rest' where l: "param_loop initial_scan pos rest = (s, pos', rest')" by (metis prod_cases3)
  then obtain c cs where "rest' = c # cs" using assms by (cases rest') (simp_all add: decode_params_def)
  then show ?thesis using l param_loop_append [of initial_scan pos rest s pos' c cs ext] by (simp add: decode_params_def)
qed

lemma csi_prefix_bound: "csi_prefix bytes = Some n \<Longrightarrow> n \<le> length bytes"
  by (cases bytes) (auto simp: csi_prefix_def split: if_splits)

lemma csi_prefix_append: "csi_prefix bytes = Some n \<Longrightarrow> csi_prefix (bytes @ ext) = Some n"
  by (cases bytes) (auto simp: csi_prefix_def nth_append split: if_splits)

lemma decode_csi_bound:
  assumes "decode_csi bytes = (r, t)"
  shows "tk_bytes_consumed t \<le> length bytes"
proof (cases "csi_prefix bytes")
  case None
  with assms show ?thesis by (auto simp: decode_csi_def)
next
  case (Some n)
  show ?thesis
  proof (cases "length bytes \<le> n")
    case True
    with assms Some show ?thesis by (auto simp: decode_csi_def)
  next
    case False
    then show ?thesis
      using assms Some da1_loop_bound [of "n + 1" "drop (n + 1) bytes"] decode_params_bound [of n "drop n bytes"]
      by (auto simp: decode_csi_def Let_def split: if_splits)
  qed
qed

lemma decode_csi_stable:
  assumes "csi_prefix bytes = Some n" and "fst (decode_csi bytes) \<noteq> need_more_data"
  shows "decode_csi (bytes @ ext) = decode_csi bytes"
proof -
  have n: "n < length bytes" using assms by (auto simp: decode_csi_def split: if_splits)
  then have "(bytes @ ext) ! n = bytes ! n" "drop n (bytes @ ext) = drop n bytes @ ext"
    "drop (n + 1) (bytes @ ext) = drop (n + 1) bytes @ ext" by (simp_all add: nth_append)
  then show ?thesis
    using assms n da1_loop_stable [of "n + 1" "drop (n + 1) bytes" ext] decode_params_stable [of n "drop n bytes" ext]
    by (auto simp: decode_csi_def csi_prefix_append Let_def split: if_splits)
qed

text \<open>A decision of the decoder: a token, or that nothing known starts here.\<close>

definition vt_step :: "byte list \<Rightarrow> (DecodeResult \<times> DecodedToken) option" where
  "vt_step bytes =
    (if bytes = [] \<or> fst (try_decode_vt bytes) = need_more_data then None else Some (try_decode_vt bytes))"

lemma try_decode_vt_bound: "tk_bytes_consumed (snd (try_decode_vt bytes)) \<le> length bytes"
  using decode_csi_bound [of bytes "fst (decode_csi bytes)" "snd (decode_csi bytes)"]
  by (auto simp: try_decode_vt_def decode_ss3_def Let_def)

lemma try_decode_vt_stable:
  assumes "bytes \<noteq> []" and "fst (try_decode_vt bytes) \<noteq> need_more_data"
  shows "try_decode_vt (bytes @ ext) = try_decode_vt bytes"
proof -
  obtain b rest where b: "bytes = b # rest" using assms(1) by (cases bytes) auto
  consider "b = 0x9B" | "b = 0x1B" | "b \<noteq> 0x9B" "b \<noteq> 0x1B" by blast
  then show ?thesis
  proof cases
    case 1
    then have "try_decode_vt (bytes @ xs) = decode_csi (bytes @ xs)" for xs by (simp add: try_decode_vt_def b)
    from this [of ext] this [of "[]"] assms(2) 1 show ?thesis
      using decode_csi_stable [of bytes 1 ext] by (simp add: b csi_prefix_def)
  next
    case 2
    then obtain c rest' where c: "rest = c # rest'" using assms(2) b by (cases rest) (simp_all add: try_decode_vt_def)
    show ?thesis
      using assms(2) 2 b c decode_csi_stable [of bytes 2 ext]
      by (cases rest') (auto simp: try_decode_vt_def decode_ss3_def csi_prefix_def Let_def split: if_splits)
  next
    case 3
    then show ?thesis by (simp add: try_decode_vt_def b)
  qed
qed

interpretation vt: incremental vt_step "\<lambda>r. tk_bytes_consumed (snd r)"
proof unfold_locales
  fix bs r ext
  assume "vt_step bs = Some r"
  then have r: "bs \<noteq> []" "fst (try_decode_vt bs) \<noteq> need_more_data" "r = try_decode_vt bs" by (auto simp: vt_step_def split: if_splits)
  then show "tk_bytes_consumed (snd r) \<le> length bs" by (simp add: try_decode_vt_bound)
  show "vt_step (bs @ ext) = Some r" using try_decode_vt_stable [OF r(1,2), of ext] r by (simp add: vt_step_def)
qed

text \<open>
  The input decoder may be given its bytes in pieces of any size. Once it has produced a
  token or rejected the bytes, the answer stays the same whatever follows; a token uses at most
  the bytes there are; and after every proper nonempty prefix of the bytes of a token the
  decoder asks for more data instead of guessing.
\<close>

theorem vt_decoder_incremental:
  assumes "bytes \<noteq> []" and "try_decode_vt bytes = (result, token)" and "result \<noteq> need_more_data"
  shows "try_decode_vt (bytes @ ext) = (result, token) \<and> tk_bytes_consumed token \<le> length bytes
    \<and> (0 < k \<and> k < tk_bytes_consumed token \<longrightarrow> fst (try_decode_vt (take k bytes)) = need_more_data)"
proof -
  have d: "vt_step bytes = Some (result, token)" using assms by (simp add: vt_step_def)
  have "try_decode_vt (bytes @ ext) = (result, token)" using try_decode_vt_stable [OF assms(1)] assms(2,3) by simp
  moreover have "tk_bytes_consumed token \<le> length bytes" using vt.dec_bound [OF d] by simp
  moreover have "fst (try_decode_vt (take k bytes)) = need_more_data" if "0 < k" "k < tk_bytes_consumed token"
    using vt.dec_minimal [OF d, of k] that assms(1) by (auto simp: vt_step_def split: if_splits)
  ultimately show ?thesis by blast
qed

theorem vt_decoder_incremental_witness:
  "fst (try_decode_vt [0x1B, 0x5B]) = need_more_data \<and> try_decode_vt ([0x1B, 0x5B, 0x41] @ [0x78]) = (produced, key_token 3 (make_simple_key_event 0x26))"
proof -
  have "try_decode_vt [0x1B, 0x5B, 0x41] = (produced, key_token 3 (make_simple_key_event 0x26))"
    by (simp add: try_decode_vt_def decode_csi_def csi_prefix_def cursor_key_def)
  from vt_decoder_incremental [OF _ this, of "[0x78]" 2] show ?thesis by simp
qed

section \<open>Keys that survive the wire\<close>

lemma unat_width: "unat (b :: byte) < 256" "unat (w :: ushort) < 65536" "unat (d :: ulong) < 4294967296"
  using unsigned_less [of b, where 'a = nat] unsigned_less [of w, where 'a = nat] unsigned_less [of d, where 'a = nat]
  by simp_all

lemma saturating_exact:
  assumes "unat value * 10 + unat digit < 4294967296"
  shows "saturating_mul_add_10 value digit = value * 10 + digit"
    and "unat (saturating_mul_add_10 value digit) = unat value * 10 + unat digit"
proof -
  have d: "unat (0xFFFFFFFF - digit) = 4294967295 - unat digit"
    using unat_sub [of digit "0xFFFFFFFF"] unat_width(3) [of digit] by (simp add: word_le_nat_alt)
  have "unat value \<le> (4294967295 - unat digit) div 10" using assms by linarith
  then have "\<not> value > (0xFFFFFFFF - digit) div 10" by (simp add: word_less_nat_alt unat_div d not_less)
  then show eq: "saturating_mul_add_10 value digit = value * 10 + digit" by (simp add: saturating_mul_add_10_def)
  show "unat (saturating_mul_add_10 value digit) = unat value * 10 + unat digit"
    unfolding eq using assms by (simp add: unat_word_ariths)
qed

lemma byte_digit:
  assumes "d < 10"
  shows "(of_nat (48 + d) :: byte) \<ge> 0x30" "(of_nat (48 + d) :: byte) \<le> 0x39" "unat ((of_nat (48 + d) :: byte) - 0x30) = d"
proof -
  have u: "unat (of_nat (48 + d) :: byte) = 48 + d"
    using assms by (simp only: unat_of_nat) simp
  then show le: "(of_nat (48 + d) :: byte) \<ge> 0x30" and "(of_nat (48 + d) :: byte) \<le> 0x39"
    using assms by (simp_all add: word_le_nat_alt)
  show "unat ((of_nat (48 + d) :: byte) - 0x30) = d" using unat_sub [OF le] u by simp
qed

lemma param_loop_digits:
  assumes "n < 4294967296" and "sc_current s = 0"
  shows "param_loop s pos (dec_digits n @ rest) =
    param_loop (s\<lparr>sc_present := True, sc_current := of_nat n\<rparr>) (pos + length (dec_digits n)) rest"
  using assms(1)
proof (induction n arbitrary: rest rule: dec_digits.induct)
  case (1 n)
  have one: "param_loop q p ((of_nat (48 + d) :: byte) # rest) =
      param_loop (q\<lparr>sc_present := True, sc_current := of_nat (k * 10 + d)\<rparr>) (p + 1) rest"
    if "d < 10" "sc_current q = of_nat k" "k * 10 + d < 4294967296" for d q p k rest
  proof -
    have k: "unat (of_nat k :: ulong) = k" using that(3) by (simp add: unat_of_nat)
    have u: "unat (ucast ((of_nat (48 + d) :: byte) - 0x30) :: ulong) = d" using byte_digit(3) [OF that(1)] by (simp add: unat_ucast_up del: of_nat_add)
    have "saturating_mul_add_10 (of_nat k) (ucast ((of_nat (48 + d) :: byte) - 0x30)) = of_nat (k * 10 + d)"
    proof -
      have "unat (saturating_mul_add_10 (of_nat k) (ucast ((of_nat (48 + d) :: byte) - 0x30))) = k * 10 + d"
        using saturating_exact(2) [of "of_nat k" "ucast ((of_nat (48 + d) :: byte) - 0x30)"] k u that(3) by simp
      from arg_cong [where f = "of_nat :: nat \<Rightarrow> ulong", OF this] show ?thesis by simp
    qed
    then show ?thesis using byte_digit(1,2) [OF that(1)] that(2) by simp
  qed
  show ?case
  proof (cases "n < 10")
    case True
    then have "dec_digits n = [of_nat (48 + n)]" by (subst dec_digits.simps) simp
    then show ?thesis using one [of n s 0 pos rest] True assms(2) by simp
  next
    case False
    then have d: "dec_digits n = dec_digits (n div 10) @ [of_nat (48 + n mod 10)]" by (subst dec_digits.simps) simp
    show ?thesis
      using 1(1) [OF False, of "of_nat (48 + n mod 10) # rest"] 1(2)
        one [of "n mod 10" "s\<lparr>sc_present := True, sc_current := of_nat (n div 10)\<rparr>" "n div 10"]
      by (simp add: d)
  qed
qed

text \<open>The sequence of the win32 input mode: six numbers and an underscore.\<close>

definition win32_sequence :: "KEY_EVENT_RECORD \<Rightarrow> byte list" where
  "win32_sequence key =
    [0x1B, 0x5B] @ dec_digits (unat (wVirtualKeyCode key)) @ [0x3B] @ dec_digits (unat (wVirtualScanCode key)) @ [0x3B]
    @ dec_digits (unat (UnicodeChar key)) @ [0x3B] @ dec_digits (if bKeyDown key then 1 else 0) @ [0x3B]
    @ dec_digits (unat (dwControlKeyState key)) @ [0x3B] @ dec_digits (unat (wRepeatCount key)) @ [0x5F]"

lemma param_loop_field:
  assumes "n < 4294967296" and "sc_current s = 0" and "sc_index s < 6"
  shows "param_loop s pos (dec_digits n @ 0x3B # rest) =
    param_loop (s\<lparr>sc_params := (sc_params s)[sc_index s := \<lparr>pp_present = True, pp_value = of_nat n\<rparr>],
      sc_index := sc_index s + 1, sc_current := 0, sc_present := False\<rparr>)
      (pos + length (dec_digits n) + 1) rest"
  using param_loop_digits [OF assms(1,2), of pos "0x3B # rest"] assms(3) by (simp add: store_param_def)

lemma saturate_small [simp]: "saturate_word (ucast (w :: ushort)) = w" "saturate_wchar (ucast (w :: wchar)) = w"
proof -
  have "\<not> (ucast w :: ulong) > 0xFFFF"
    using unat_width(2) [of w] by (simp add: word_less_nat_alt not_less unat_ucast_up)
  moreover have "ucast (ucast w :: ulong) = w" by transfer simp
  ultimately show "saturate_word (ucast w) = w" "saturate_wchar (ucast w) = w"
    by (simp_all add: saturate_word_def saturate_wchar_def)
qed

lemma win32_key_decoded:
  "try_decode_vt (win32_sequence key) = (produced, key_token (length (win32_sequence key)) key)"
proof -
  let ?p = "\<lambda>n. \<lparr>pp_present = True, pp_value = of_nat n\<rparr> :: ParsedParam"
  let ?vk = "unat (wVirtualKeyCode key)" and ?sc = "unat (wVirtualScanCode key)" and ?uc = "unat (UnicodeChar key)"
  let ?kd = "if bKeyDown key then 1 else 0 :: nat" and ?cs = "unat (dwControlKeyState key)" and ?rc = "unat (wRepeatCount key)"
  have lim: "?vk < 4294967296" "?sc < 4294967296" "?uc < 4294967296" "?kd < 4294967296" "?cs < 4294967296" "?rc < 4294967296"
    using unat_width(2) [of "wVirtualKeyCode key"] unat_width(2) [of "wVirtualScanCode key"] unat_width(2) [of "UnicodeChar key"]
      unat_width(3) [of "dwControlKeyState key"] unat_width(2) [of "wRepeatCount key"] by simp_all
  define body where "body = drop 2 (win32_sequence key)"
  have body: "win32_sequence key = 0x1B # 0x5B # body" by (simp add: body_def win32_sequence_def)
  define fin where "fin = \<lparr>sc_params = [?p ?vk, ?p ?sc, ?p ?uc, ?p ?kd, ?p ?cs, \<lparr>pp_present = False, pp_value = 0\<rparr>],
    sc_index = 5, sc_current = of_nat ?rc, sc_present = True\<rparr>"
  have init: "initial_scan = \<lparr>sc_params = [z, z, z, z, z, z], sc_index = 0, sc_current = 0, sc_present = False\<rparr>"
    if "z = \<lparr>pp_present = False, pp_value = 0\<rparr>" for z
    using that by (simp add: initial_scan_def eval_nat_numeral)
  obtain pos where l: "param_loop initial_scan 2 body = (fin, pos, [0x5F])"
    unfolding body_def win32_sequence_def init [OF refl]
    using lim param_loop_digits [OF lim(6)] by (simp add: param_loop_field fin_def)
  then have "pos + 1 = length (win32_sequence key)" using param_loop_length [OF l] by (simp add: body)
  moreover have "win32_key (store_param fin) = key"
    by (cases key) (simp add: win32_key_def store_param_def fin_def param_value_def)
  moreover obtain d where "d < 10" "hd body = of_nat (48 + d)" and ne: "body \<noteq> []"
    using dec_digits_head [of ?vk] dec_digits_nonempty [of ?vk] by (auto simp: body_def win32_sequence_def)
  then have "0x30 \<le> hd body" "hd body \<le> 0x39" using byte_digit by metis+
  then have "hd body \<notin> {0x49, 0x4F, 0x41, 0x42, 0x43, 0x44, 0x48, 0x46, 0x3F}" by (auto simp: word_le_nat_alt)
  with ne have "try_decode_vt (win32_sequence key) = decode_params 2 body"
    by (cases body) (simp_all add: body try_decode_vt_def decode_csi_def csi_prefix_def Let_def)
  ultimately show ?thesis by (simp add: decode_params_def l Let_def)
qed

text \<open>
  C28. Every key event survives the win32 input mode: the sequence of its six numbers is decoded
  to exactly the same event, all bits of every field included, and the token uses the whole
  sequence.
\<close>

theorem win32_key_round_trip:
  "try_decode_vt (win32_sequence key) = (produced, key_token (length (win32_sequence key)) key)"
  by (rule win32_key_decoded)

section \<open>The encoder of window keys\<close>

text \<open>
  \<open>WideCharToMultiByte\<close> on one code unit and the UTF-8 code page is the parameter \<open>wide_to_utf8\<close>;
  it gives no bytes when it fails.
\<close>

definition narrow_utf16_code_unit :: "(wchar \<Rightarrow> byte list) \<Rightarrow> wchar \<Rightarrow> byte list" where
  "narrow_utf16_code_unit wide_to_utf8 code_unit = (if code_unit = 0 then [] else wide_to_utf8 code_unit)"

definition has_modifier :: "ulong \<Rightarrow> bool" where
  "has_modifier state \<longleftrightarrow> state AND (0x10 OR 0x02 OR 0x01 OR 0x08 OR 0x04) \<noteq> 0"

text \<open>The switch over the virtual key code: the sequence of the keys that have one.\<close>

definition special_key_sequence :: "ushort \<Rightarrow> byte list option" where
  "special_key_sequence vk =
    (if vk = 0x26 then Some [0x1B, 0x5B, 0x41] else if vk = 0x28 then Some [0x1B, 0x5B, 0x42]
     else if vk = 0x27 then Some [0x1B, 0x5B, 0x43] else if vk = 0x25 then Some [0x1B, 0x5B, 0x44]
     else if vk = 0x24 then Some [0x1B, 0x5B, 0x48] else if vk = 0x23 then Some [0x1B, 0x5B, 0x46]
     else if vk = 0x21 then Some [0x1B, 0x5B, 0x35, 0x7E] else if vk = 0x22 then Some [0x1B, 0x5B, 0x36, 0x7E]
     else if vk = 0x2E then Some [0x1B, 0x5B, 0x33, 0x7E] else if vk = 0x2D then Some [0x1B, 0x5B, 0x32, 0x7E]
     else if vk = 0x70 then Some [0x1B, 0x4F, 0x50] else if vk = 0x71 then Some [0x1B, 0x4F, 0x51]
     else if vk = 0x72 then Some [0x1B, 0x4F, 0x52] else if vk = 0x73 then Some [0x1B, 0x4F, 0x53]
     else if vk = 0x0D then Some [0x0D] else if vk = 0x09 then Some [0x09]
     else if vk = 0x08 then Some [0x7F] else if vk = 0x1B then Some [0x1B] else None)"

definition encode_key :: "(wchar \<Rightarrow> byte list) \<Rightarrow> KEY_EVENT_RECORD \<Rightarrow> byte list" where
  "encode_key wide_to_utf8 key =
    (if \<not> bKeyDown key then []
     else
       let ctrl_pressed = (dwControlKeyState key AND (0x08 OR 0x04) \<noteq> 0);
           alt_pressed = (dwControlKeyState key AND (0x02 OR 0x01) \<noteq> 0)
       in if ctrl_pressed \<and> wVirtualKeyCode key = 0x43 then [0x03]
          else if ctrl_pressed \<and> wVirtualKeyCode key = 0x44 then [0x04]
          else case special_key_sequence (wVirtualKeyCode key) of
                 Some bytes \<Rightarrow> bytes
               | None \<Rightarrow>
                   if UnicodeChar key \<noteq> 0 then
                     let utf8 = narrow_utf16_code_unit wide_to_utf8 (UnicodeChar key)
                     in if utf8 \<noteq> [] \<and> alt_pressed then 0x1B # utf8 else utf8
                   else if has_modifier (dwControlKeyState key) then [] else [])"

text \<open>The navigation and function keys of the switch, whose sequences start with an escape.\<close>

definition navigation_keys :: "ushort list" where
  "navigation_keys = [0x26, 0x28, 0x27, 0x25, 0x24, 0x23, 0x21, 0x22, 0x2E, 0x2D, 0x70, 0x71, 0x72, 0x73]"

lemma csi_letter_decodes:
  "first \<in> {0x41, 0x42, 0x43, 0x44, 0x48, 0x46} \<Longrightarrow>
    try_decode_vt [0x1B, 0x5B, first] = (produced, key_token (Suc (Suc (Suc 0))) (make_simple_key_event (cursor_key first)))"
  by (auto simp: try_decode_vt_def decode_csi_def csi_prefix_def numeral_3_eq_3)

lemma csi_tilde_decodes:
  "first \<in> {0x32, 0x33, 0x35, 0x36} \<Longrightarrow> tilde_key (ucast (first - 0x30)) = Some vk \<Longrightarrow> n = 4 \<Longrightarrow>
    try_decode_vt [0x1B, 0x5B, first, 0x7E] = (produced, key_token n (make_simple_key_event vk))"
  by (auto simp: try_decode_vt_def decode_csi_def csi_prefix_def decode_params_def initial_scan_def store_param_def
      saturating_mul_add_10_def tilde_key_def)

lemma navigation_decodes:
  assumes "vk \<in> set navigation_keys" and "special_key_sequence vk = Some bytes"
  shows "try_decode_vt bytes = (produced, key_token (length bytes) (make_simple_key_event vk))"
proof -
  have ss3: "try_decode_vt [0x1B, 0x4F, c] = (produced, key_token (Suc (Suc (Suc 0))) (make_simple_key_event v))"
    if "(c, v) \<in> {(0x50, 0x70), (0x51, 0x71), (0x52, 0x72), (0x53, 0x73)}" for c v
    using that by (auto simp: try_decode_vt_def decode_ss3_def numeral_3_eq_3)
  have four: "key_token 4 k = key_token (Suc (Suc (Suc (Suc 0)))) k" for k by (simp add: eval_nat_numeral)
  have "list_all (\<lambda>vk. special_key_sequence vk = Some bytes \<longrightarrow>
      try_decode_vt bytes = (produced, key_token (length bytes) (make_simple_key_event vk))) navigation_keys"
    using four by (auto simp: navigation_keys_def special_key_sequence_def csi_letter_decodes cursor_key_def tilde_key_def
        csi_tilde_decodes ss3)
  then show ?thesis using assms by (auto simp: list_all_iff)
qed

end
