(* ===== verification/Console_Input.thy ===== *)
theory Console_Input
  imports Vt_Input
begin

text \<open>
  Input bytes as characters and keys (\<open>condrv_server.hpp\<close>, \<open>decode_one_console_input_unit\<close> and the
  functions over it): one unit at a time, one token at a time, and whole buffers. The conversion
  functions of the system, \<open>MultiByteToWideChar\<close> and \<open>IsDBCSLeadByteEx\<close>, are parameters of the model.
\<close>

section \<open>Data\<close>

text \<open>
  What \<open>MultiByteToWideChar\<close> gives for a buffer of two units: a failure, or one or two units.
\<close>

datatype conversion = conversion_failed | one_unit wchar | two_units wchar wchar

fun converted_units :: "conversion \<Rightarrow> wchar list" where
  "converted_units conversion_failed = []"
| "converted_units (one_unit a) = [a]"
| "converted_units (two_units a b) = [a, b]"

text \<open>
  The system's code pages: \<open>to_wide cp strict bytes\<close> is the conversion with or without
  \<open>MB_ERR_INVALID_CHARS\<close>, \<open>lead_byte cp b\<close> is \<open>IsDBCSLeadByteEx\<close>.
\<close>

record code_pages =
  to_wide :: "ulong \<Rightarrow> bool \<Rightarrow> byte list \<Rightarrow> conversion"
  lead_byte :: "ulong \<Rightarrow> byte \<Rightarrow> bool"

abbreviation CP_UTF8 :: ulong where
  "CP_UTF8 \<equiv> 65001"

text \<open>The units of a chunk are the first \<open>char_count\<close> entries of its array.\<close>

record InputDecodeChunk =
  ck_chars :: "wchar list"
  ck_bytes_consumed :: nat

record INPUT_RECORD =
  EventType :: ushort
  KeyEvent :: KEY_EVENT_RECORD

section \<open>Keys and records\<close>

definition ctrl_mask :: ulong where
  "ctrl_mask = 0x08 OR 0x04"

definition alt_mask :: ulong where
  "alt_mask = 0x02 OR 0x01"

definition key_event_matches_ctrl_c :: "KEY_EVENT_RECORD \<Rightarrow> bool" where
  "key_event_matches_ctrl_c key \<longleftrightarrow>
    dwControlKeyState key AND ctrl_mask \<noteq> 0 \<and> dwControlKeyState key AND alt_mask = 0 \<and> wVirtualKeyCode key = 0x43"

definition key_event_matches_ctrl_break :: "KEY_EVENT_RECORD \<Rightarrow> bool" where
  "key_event_matches_ctrl_break key \<longleftrightarrow>
    dwControlKeyState key AND ctrl_mask \<noteq> 0 \<and> dwControlKeyState key AND alt_mask = 0 \<and> wVirtualKeyCode key = 0x03"

definition make_simple_character_key_event :: "wchar \<Rightarrow> KEY_EVENT_RECORD" where
  "make_simple_character_key_event value =
    \<lparr>bKeyDown = True, wRepeatCount = 1, wVirtualKeyCode = 0, wVirtualScanCode = 0, UnicodeChar = value, dwControlKeyState = 0\<rparr>"

text \<open>
  \<open>AsciiChar\<close> shares its storage with the low byte of \<open>UnicodeChar\<close>; a store leaves the high byte.
\<close>

definition store_ascii_char :: "byte \<Rightarrow> wchar \<Rightarrow> wchar" where
  "store_ascii_char b u = (u AND 0xFF00) OR ucast b"

definition ascii_char :: "wchar \<Rightarrow> byte" where
  "ascii_char value = (if value \<le> 0xFF then ucast value else 0x3F)"

definition make_input_record_from_key :: "KEY_EVENT_RECORD \<Rightarrow> bool \<Rightarrow> INPUT_RECORD" where
  "make_input_record_from_key key unicode =
    \<lparr>EventType = 1,
     KeyEvent = (if unicode then key else key\<lparr>UnicodeChar := store_ascii_char (ascii_char (UnicodeChar key)) (UnicodeChar key)\<rparr>)\<rparr>"

section \<open>One unit, one token\<close>

definition replacement_chunk :: InputDecodeChunk where
  "replacement_chunk = \<lparr>ck_chars = [0xFFFD], ck_bytes_consumed = 1\<rparr>"

definition chunk_of :: "nat \<Rightarrow> conversion \<Rightarrow> InputDecodeChunk" where
  "chunk_of seq c = (if c = conversion_failed then replacement_chunk else \<lparr>ck_chars = converted_units c, ck_bytes_consumed = seq\<rparr>)"

text \<open>The length a UTF-8 sequence announces in its first byte; None for a byte that starts none.\<close>

definition utf8_sequence :: "byte \<Rightarrow> nat option" where
  "utf8_sequence b0 =
    (if b0 < 0x80 then Some 1 else if b0 AND 0xE0 = 0xC0 then Some 2 else if b0 AND 0xF0 = 0xE0 then Some 3
     else if b0 AND 0xF8 = 0xF0 then Some 4 else None)"

text \<open>The common end of both branches: wait for the sequence, convert it. None is the outcome \<open>need_more_data\<close>.\<close>

definition convert_sequence :: "(byte list \<Rightarrow> conversion) \<Rightarrow> nat \<Rightarrow> byte list \<Rightarrow> InputDecodeChunk option" where
  "convert_sequence conv seq bytes = (if length bytes < seq then None else Some (chunk_of seq (conv (take seq bytes))))"

definition decode_one_console_input_unit :: "code_pages \<Rightarrow> ulong \<Rightarrow> byte list \<Rightarrow> InputDecodeChunk option" where
  "decode_one_console_input_unit sys code_page bytes =
    (case bytes of
       [] \<Rightarrow> None
     | b0 # _ \<Rightarrow>
         if code_page = CP_UTF8 then
           (case utf8_sequence b0 of
              None \<Rightarrow> Some replacement_chunk
            | Some seq \<Rightarrow> convert_sequence (to_wide sys CP_UTF8 True) seq bytes)
         else convert_sequence (to_wide sys code_page False) (if lead_byte sys code_page b0 then 2 else 1) bytes)"

definition decode_one_input_token :: "code_pages \<Rightarrow> ulong \<Rightarrow> byte list \<Rightarrow> DecodedToken option" where
  "decode_one_input_token sys code_page bytes =
    (case try_decode_vt bytes of
       (produced, token) \<Rightarrow> Some token
     | (need_more_data, _) \<Rightarrow> None
     | (no_match, out) \<Rightarrow>
         (case decode_one_console_input_unit sys code_page bytes of
            None \<Rightarrow> None
          | Some chunk \<Rightarrow>
              Some (out\<lparr>tk_kind := text_units, tk_bytes_consumed := ck_bytes_consumed chunk, tk_text := ck_chars chunk\<rparr>)))"

section \<open>Buffers\<close>

text \<open>
  The loop of \<open>decode_console_input_bytes_to_wchars\<close>: \<open>room\<close> is the free part of the destination,
  \<open>rest\<close> the bytes from the current offset. The result is the bytes used and the units stored.
\<close>

function decode_wchars :: "code_pages \<Rightarrow> ulong \<Rightarrow> bool \<Rightarrow> nat \<Rightarrow> byte list \<Rightarrow> nat \<times> wchar list" where
  "decode_wchars sys code_page processed_input room rest =
    (if room = 0 \<or> rest = [] then (0, [])
     else case decode_one_console_input_unit sys code_page rest of
            None \<Rightarrow> (0, [])
          | Some chunk \<Rightarrow>
              if ck_chars chunk = [] \<or> ck_bytes_consumed chunk = 0 then (0, [])
              else if processed_input \<and> ck_chars chunk = [3] then
                let (n, us) = decode_wchars sys code_page processed_input room (drop (ck_bytes_consumed chunk) rest)
                in (ck_bytes_consumed chunk + n, us)
              else if length (ck_chars chunk) > room then (0, [])
              else
                let (n, us) = decode_wchars sys code_page processed_input (room - length (ck_chars chunk)) (drop (ck_bytes_consumed chunk) rest)
                in (ck_bytes_consumed chunk + n, ck_chars chunk @ us))"
  by pat_completeness auto

termination
  by (relation "measure (\<lambda>(sys, code_page, processed_input, room, rest). length rest)") auto

declare decode_wchars.simps [simp del]

definition decode_console_input_bytes_to_wchars :: "code_pages \<Rightarrow> ulong \<Rightarrow> byte list \<Rightarrow> nat \<Rightarrow> bool \<Rightarrow> nat \<times> wchar list" where
  "decode_console_input_bytes_to_wchars sys code_page bytes room processed_input = decode_wchars sys code_page processed_input room bytes"

text \<open>The record built for one unit: all its fields start at zero.\<close>

definition unit_record :: "bool \<Rightarrow> wchar \<Rightarrow> INPUT_RECORD" where
  "unit_record unicode value =
    \<lparr>EventType = 1,
     KeyEvent = \<lparr>bKeyDown = True, wRepeatCount = 1, wVirtualKeyCode = 0, wVirtualScanCode = 0,
       UnicodeChar = (if unicode then value else store_ascii_char (ascii_char value) 0), dwControlKeyState = 0\<rparr>\<rparr>"

function decode_key_events :: "code_pages \<Rightarrow> ulong \<Rightarrow> bool \<Rightarrow> nat \<Rightarrow> byte list \<Rightarrow> nat \<times> INPUT_RECORD list" where
  "decode_key_events sys code_page unicode room rest =
    (if room = 0 \<or> rest = [] then (0, [])
     else case decode_one_console_input_unit sys code_page rest of
            None \<Rightarrow> (0, [])
          | Some chunk \<Rightarrow>
              if ck_chars chunk = [] \<or> ck_bytes_consumed chunk = 0 then (0, [])
              else if length (ck_chars chunk) > room then (0, [])
              else
                let (n, rs) = decode_key_events sys code_page unicode (room - length (ck_chars chunk)) (drop (ck_bytes_consumed chunk) rest)
                in (ck_bytes_consumed chunk + n, map (unit_record unicode) (ck_chars chunk) @ rs))"
  by pat_completeness auto

termination
  by (relation "measure (\<lambda>(sys, code_page, unicode, room, rest). length rest)") auto

declare decode_key_events.simps [simp del]

definition decode_console_input_bytes_to_key_events :: "code_pages \<Rightarrow> ulong \<Rightarrow> byte list \<Rightarrow> nat \<Rightarrow> bool \<Rightarrow> nat \<times> INPUT_RECORD list" where
  "decode_console_input_bytes_to_key_events sys code_page bytes room unicode = decode_key_events sys code_page unicode room bytes"

function count_console_input_units_utf8 :: "code_pages \<Rightarrow> byte list \<Rightarrow> nat" where
  "count_console_input_units_utf8 sys rest =
    (if rest = [] then 0
     else case decode_one_console_input_unit sys CP_UTF8 rest of
            None \<Rightarrow> 0
          | Some chunk \<Rightarrow>
              if ck_bytes_consumed chunk = 0 then 0
              else (if ck_chars chunk = [] then 1 else length (ck_chars chunk))
                   + count_console_input_units_utf8 sys (drop (ck_bytes_consumed chunk) rest))"
  by pat_completeness auto

termination
  by (relation "measure (\<lambda>(sys, rest). length rest)") auto

declare count_console_input_units_utf8.simps [simp del]

section \<open>Both decoders make progress\<close>

lemma chunk_of_bounds:
  "0 < seq \<Longrightarrow> 0 < ck_bytes_consumed (chunk_of seq c) \<and> ck_bytes_consumed (chunk_of seq c) \<le> seq"
  "ck_chars (chunk_of seq c) \<noteq> []" "length (ck_chars (chunk_of seq c)) \<le> 2"
  by (cases c; simp add: chunk_of_def replacement_chunk_def)+

lemma utf8_sequence_pos: "utf8_sequence b = Some seq \<Longrightarrow> 0 < seq"
  by (auto simp: utf8_sequence_def split: if_splits)

lemma convert_sequence_bounds:
  assumes "convert_sequence conv seq bytes = Some chunk" and "0 < seq"
  shows "0 < ck_bytes_consumed chunk" "ck_bytes_consumed chunk \<le> length bytes" "ck_chars chunk \<noteq> []" "length (ck_chars chunk) \<le> 2"
  using assms chunk_of_bounds [of seq "conv (take seq bytes)"] by (auto simp: convert_sequence_def split: if_splits)

lemma convert_sequence_stable:
  "convert_sequence conv seq bytes = Some chunk \<Longrightarrow> convert_sequence conv seq (bytes @ ext) = Some chunk"
  by (auto simp: convert_sequence_def split: if_splits)

text \<open>A unit is the replacement character for a byte that starts none, or the conversion of a sequence.\<close>

lemma unit_cases:
  assumes "decode_one_console_input_unit sys cp bytes = Some chunk"
  obtains (invalid) b rest where "bytes = b # rest" "cp = CP_UTF8" "utf8_sequence b = None" "chunk = replacement_chunk"
    | (converted) conv seq where "bytes \<noteq> []" "0 < seq" "convert_sequence conv seq bytes = Some chunk"
        "\<And>ext. decode_one_console_input_unit sys cp (bytes @ ext) = convert_sequence conv seq (bytes @ ext)"
proof -
  obtain b rest where b: "bytes = b # rest" using assms by (cases bytes) (auto simp: decode_one_console_input_unit_def)
  show thesis
  proof (cases "cp = CP_UTF8")
    case True
    then show thesis
      using assms b utf8_sequence_pos [of b] that
      by (cases "utf8_sequence b") (auto simp: decode_one_console_input_unit_def)
  next
    case False
    then show thesis
      using assms b that(2) [of "if lead_byte sys cp b then 2 else 1" "to_wide sys cp False"]
      by (auto simp: decode_one_console_input_unit_def)
  qed
qed

lemma unit_bounds:
  assumes "decode_one_console_input_unit sys cp bytes = Some chunk"
  shows "0 < ck_bytes_consumed chunk" "ck_bytes_consumed chunk \<le> length bytes" "ck_chars chunk \<noteq> []" "length (ck_chars chunk) \<le> 2"
  using assms by (cases rule: unit_cases; force simp: replacement_chunk_def dest: convert_sequence_bounds)+

lemma unit_stable:
  assumes "decode_one_console_input_unit sys cp bytes = Some chunk"
  shows "decode_one_console_input_unit sys cp (bytes @ ext) = Some chunk"
  using assms
proof (cases rule: unit_cases)
  case (invalid b rest)
  then show ?thesis by (simp add: decode_one_console_input_unit_def)
next
  case (converted conv seq)
  then show ?thesis using convert_sequence_stable by simp
qed

interpretation unit: progressive "decode_one_console_input_unit sys cp" ck_bytes_consumed for sys cp
  by unfold_locales (auto dest: unit_bounds unit_stable)

text \<open>A token the sequence decoder produced uses at least one byte.\<close>

lemma da1_loop_progress: "da1_loop pos rest = (produced, t) \<Longrightarrow> pos < tk_bytes_consumed t"
  by (induction pos rest rule: da1_loop.induct) (auto split: if_splits)

lemma decode_params_progress: "decode_params pos rest = (produced, t) \<Longrightarrow> 0 < tk_bytes_consumed t"
  by (auto simp: decode_params_def Let_def split: prod.splits list.splits if_splits option.splits)

lemma produced_progress: "try_decode_vt bytes = (produced, t) \<Longrightarrow> 0 < tk_bytes_consumed t"
  using da1_loop_progress decode_params_progress
  by (fastforce simp: try_decode_vt_def decode_csi_def decode_ss3_def Let_def split: if_splits option.splits)

lemma token_cases:
  assumes "decode_one_input_token sys cp bytes = Some token"
  obtains (sequence) "try_decode_vt bytes = (produced, token)"
    | (character) out chunk where "try_decode_vt bytes = (no_match, out)" "decode_one_console_input_unit sys cp bytes = Some chunk"
        "token = out\<lparr>tk_kind := text_units, tk_bytes_consumed := ck_bytes_consumed chunk, tk_text := ck_chars chunk\<rparr>"
  using assms by (auto simp: decode_one_input_token_def split: prod.splits DecodeResult.splits option.splits)

interpretation tok: progressive "decode_one_input_token sys cp" tk_bytes_consumed for sys cp
proof unfold_locales
  fix bs r ext
  assume d: "decode_one_input_token sys cp bs = Some r"
  then show "tk_bytes_consumed r \<le> length bs" and "0 < tk_bytes_consumed r"
    by (cases rule: token_cases; use try_decode_vt_bound [of bs] produced_progress in \<open>force dest: unit_bounds\<close>)+
  have "bs \<noteq> []" using d by (auto simp: decode_one_input_token_def try_decode_vt_def decode_one_console_input_unit_def)
  with d show "decode_one_input_token sys cp (bs @ ext) = Some r"
    using try_decode_vt_stable [of bs ext]
    by (cases rule: token_cases) (auto simp: decode_one_input_token_def unit_stable)
qed

section \<open>Reading through a small buffer\<close>

text \<open>
  The text of a byte stream: the units of all its complete sequences. In processed mode a
  control-C is not part of the text.
\<close>

definition keeps :: "bool \<Rightarrow> InputDecodeChunk \<Rightarrow> bool" where
  "keeps processed chunk \<longleftrightarrow> \<not> (processed \<and> ck_chars chunk = [3])"

definition stream_text :: "code_pages \<Rightarrow> ulong \<Rightarrow> bool \<Rightarrow> byte list \<Rightarrow> wchar list" where
  "stream_text sys cp processed bytes =
    concat (map ck_chars (filter (keeps processed) (fst (drain (decode_one_console_input_unit sys cp) ck_bytes_consumed bytes))))"

lemma stream_text_step:
  "decode_one_console_input_unit sys cp bytes = None \<Longrightarrow> stream_text sys cp processed bytes = []"
  "decode_one_console_input_unit sys cp bytes = Some chunk \<Longrightarrow> stream_text sys cp processed bytes =
    (if keeps processed chunk then ck_chars chunk else []) @ stream_text sys cp processed (drop (ck_bytes_consumed chunk) bytes)"
  by (simp_all add: stream_text_def unit.drain_unfold)

lemma unit_none_empty [simp]: "decode_one_console_input_unit sys cp [] = None"
  by (simp add: decode_one_console_input_unit_def)

lemma decode_wchars_step:
  "room = 0 \<Longrightarrow> decode_wchars sys cp processed room rest = (0, [])"
  "decode_one_console_input_unit sys cp rest = None \<Longrightarrow> decode_wchars sys cp processed room rest = (0, [])"
  "decode_one_console_input_unit sys cp rest = Some chunk \<Longrightarrow> 0 < room \<Longrightarrow> keeps processed chunk \<Longrightarrow> room < length (ck_chars chunk) \<Longrightarrow>
    decode_wchars sys cp processed room rest = (0, [])"
  "decode_one_console_input_unit sys cp rest = Some chunk \<Longrightarrow> 0 < room \<Longrightarrow> \<not> keeps processed chunk \<Longrightarrow>
    decode_wchars sys cp processed room rest =
    (ck_bytes_consumed chunk + fst (decode_wchars sys cp processed room (drop (ck_bytes_consumed chunk) rest)),
     snd (decode_wchars sys cp processed room (drop (ck_bytes_consumed chunk) rest)))"
  "decode_one_console_input_unit sys cp rest = Some chunk \<Longrightarrow> keeps processed chunk \<Longrightarrow> length (ck_chars chunk) \<le> room \<Longrightarrow>
    decode_wchars sys cp processed room rest =
    (ck_bytes_consumed chunk + fst (decode_wchars sys cp processed (room - length (ck_chars chunk)) (drop (ck_bytes_consumed chunk) rest)),
     ck_chars chunk @ snd (decode_wchars sys cp processed (room - length (ck_chars chunk)) (drop (ck_bytes_consumed chunk) rest)))"
proof -
  show "room = 0 \<Longrightarrow> decode_wchars sys cp processed room rest = (0, [])"
    and "decode_one_console_input_unit sys cp rest = None \<Longrightarrow> decode_wchars sys cp processed room rest = (0, [])"
    by (subst decode_wchars.simps, simp)+
  assume chunk: "decode_one_console_input_unit sys cp rest = Some chunk"
  note b = unit_bounds [OF chunk]
  have "0 < length (ck_chars chunk)" using b(3) by simp
  have "rest \<noteq> []" using b(1,2) by auto
  note unfold = decode_wchars.simps [of sys cp processed room rest] chunk keeps_def this
  show "0 < room \<Longrightarrow> keeps processed chunk \<Longrightarrow> room < length (ck_chars chunk) \<Longrightarrow> decode_wchars sys cp processed room rest = (0, [])"
    using b by (auto simp: unfold)
  show "0 < room \<Longrightarrow> \<not> keeps processed chunk \<Longrightarrow> decode_wchars sys cp processed room rest =
    (ck_bytes_consumed chunk + fst (decode_wchars sys cp processed room (drop (ck_bytes_consumed chunk) rest)),
     snd (decode_wchars sys cp processed room (drop (ck_bytes_consumed chunk) rest)))"
    using b(1) \<open>rest \<noteq> []\<close> unfolding unfold by (simp split: prod.split)
  show "keeps processed chunk \<Longrightarrow> length (ck_chars chunk) \<le> room \<Longrightarrow> decode_wchars sys cp processed room rest =
    (ck_bytes_consumed chunk + fst (decode_wchars sys cp processed (room - length (ck_chars chunk)) (drop (ck_bytes_consumed chunk) rest)),
     ck_chars chunk @ snd (decode_wchars sys cp processed (room - length (ck_chars chunk)) (drop (ck_bytes_consumed chunk) rest)))"
    using b(1) \<open>rest \<noteq> []\<close> less_le_trans [OF \<open>0 < length (ck_chars chunk)\<close>, of room] b(3)
    unfolding unfold by (auto split: prod.split)
qed

text \<open>
  Reading console input into a buffer of any size loses and repeats nothing: the units stored
  fit the buffer, and the text of the bytes is the units stored followed by the text of the bytes
  that were not used. Reading stops early only because the buffer is full up to one unit, or
  because the bytes left do not hold a complete sequence.
\<close>

theorem read_in_pieces:
  assumes "decode_console_input_bytes_to_wchars sys cp bytes room processed = (n, units)"
  shows "length units \<le> room \<and> n \<le> length bytes
    \<and> stream_text sys cp processed bytes = units @ stream_text sys cp processed (drop n bytes)
    \<and> (room \<le> length units + 1 \<or> decode_one_console_input_unit sys cp (drop n bytes) = None)"
  using assms unfolding decode_console_input_bytes_to_wchars_def
proof (induction "length bytes" arbitrary: bytes room n units rule: less_induct)
  case less
  show ?case
  proof (cases "decode_one_console_input_unit sys cp bytes")
    case None
    then show ?thesis using less.prems by (simp add: decode_wchars_step)
  next
    case (Some chunk)
    let ?k = "ck_bytes_consumed chunk" and ?cs = "ck_chars chunk"
    note b = unit_bounds [OF Some]
    have lt: "length (drop ?k bytes) < length bytes" using b(1,2) by simp
    consider "room = 0" | "0 < room" "keeps processed chunk" "room < length ?cs"
      | "0 < room" "\<not> keeps processed chunk" | "keeps processed chunk" "length ?cs \<le> room" by linarith
    then show ?thesis
    proof cases
      case 1
      then show ?thesis using less.prems by (simp add: decode_wchars_step)
    next
      case 2
      then show ?thesis using less.prems b by (simp add: decode_wchars_step(3) [OF Some])
    next
      case 3
      let ?r = "decode_wchars sys cp processed room (drop ?k bytes)"
      have "n = ?k + fst ?r" "units = snd ?r" using less.prems 3 by (simp_all add: decode_wchars_step(4) [OF Some])
      then show ?thesis
        using less.hyps [OF lt, of room "fst ?r" "snd ?r"] b 3
        by (auto simp: stream_text_step(2) [OF Some] add.commute)
    next
      case 4
      let ?r = "decode_wchars sys cp processed (room - length ?cs) (drop ?k bytes)"
      have "n = ?k + fst ?r" "units = ?cs @ snd ?r" using less.prems 4 by (simp_all add: decode_wchars_step(5) [OF Some])
      then show ?thesis
        using less.hyps [OF lt, of "room - length ?cs" "fst ?r" "snd ?r"] b 4
        by (auto simp: stream_text_step(2) [OF Some] add.commute)
    qed
  qed
qed

theorem read_in_pieces_witness:
  "decode_console_input_bytes_to_wchars \<lparr>to_wide = \<lambda>cp strict bs. two_units 0xD83D 0xDE00, lead_byte = \<lambda>cp b. False\<rparr>
     CP_UTF8 [0xF0, 0x9F, 0x98, 0x80] 1 True = (0, [])
   \<and> stream_text \<lparr>to_wide = \<lambda>cp strict bs. two_units 0xD83D 0xDE00, lead_byte = \<lambda>cp b. False\<rparr>
     CP_UTF8 True [0xF0, 0x9F, 0x98, 0x80] = [0xD83D, 0xDE00]"
  (is "?a \<and> ?b")
proof -
  let ?sys = "\<lparr>to_wide = \<lambda>cp strict bs. two_units 0xD83D 0xDE00, lead_byte = \<lambda>cp b. False\<rparr>"
  have dec: "decode_one_console_input_unit ?sys CP_UTF8 [0xF0, 0x9F, 0x98, 0x80] =
      Some \<lparr>ck_chars = [0xD83D, 0xDE00], ck_bytes_consumed = 4\<rparr>"
    by (simp add: decode_one_console_input_unit_def utf8_sequence_def convert_sequence_def chunk_of_def)
  have two: "decode_console_input_bytes_to_wchars ?sys CP_UTF8 [0xF0, 0x9F, 0x98, 0x80] 2 True = (4, [0xD83D, 0xDE00])"
    by (simp add: decode_console_input_bytes_to_wchars_def decode_wchars_step(5) [OF dec] decode_wchars_step(1) keeps_def)
  have ?b using read_in_pieces [OF two] by (simp add: stream_text_step(1))
  moreover have ?a by (simp add: decode_console_input_bytes_to_wchars_def decode_wchars_step(3) [OF dec] keeps_def)
  ultimately show ?thesis by simp
qed

text \<open>The key events of a buffer are the records of its units, control-C included.\<close>

lemma decode_key_events_units:
  "decode_key_events sys cp unicode room bytes =
    (fst (decode_wchars sys cp False room bytes), map (unit_record unicode) (snd (decode_wchars sys cp False room bytes)))"
proof (induction sys cp unicode room bytes rule: decode_key_events.induct)
  case (1 sys cp unicode room rest)
  show ?case
    using 1 by (auto simp: decode_key_events.simps [of sys cp unicode room rest] decode_wchars.simps [of sys cp False room rest]
        split: option.split prod.split)
qed

text \<open>
  The two readers of a buffer agree: the key events that a record read makes of a buffer are
  the events of exactly the units a character read without control processing stores, in the same
  order, from the same bytes; and the unit count of a buffer is the number of units of its text.
\<close>

theorem key_events_agree_with_units:
  "decode_console_input_bytes_to_key_events sys cp bytes room unicode =
     (let (n, units) = decode_console_input_bytes_to_wchars sys cp bytes room False in (n, map (unit_record unicode) units))
   \<and> count_console_input_units_utf8 sys bytes = length (stream_text sys CP_UTF8 False bytes)"
proof
  show "decode_console_input_bytes_to_key_events sys cp bytes room unicode =
     (let (n, units) = decode_console_input_bytes_to_wchars sys cp bytes room False in (n, map (unit_record unicode) units))"
    by (simp add: decode_console_input_bytes_to_key_events_def decode_console_input_bytes_to_wchars_def decode_key_events_units
        split: prod.split)
  show "count_console_input_units_utf8 sys bytes = length (stream_text sys CP_UTF8 False bytes)"
  proof (induction sys bytes rule: count_console_input_units_utf8.induct)
    case (1 sys rest)
    show ?case
    proof (cases "decode_one_console_input_unit sys CP_UTF8 rest")
      case None
      then show ?thesis by (simp add: count_console_input_units_utf8.simps [of sys rest] stream_text_step)
    next
      case (Some chunk)
      have "rest \<noteq> []" "0 < ck_bytes_consumed chunk" "ck_chars chunk \<noteq> []" using unit_bounds [OF Some] by auto
      then show ?thesis
        using 1 [OF _ Some] by (simp add: count_console_input_units_utf8.simps [of sys rest] Some stream_text_step(2) [OF Some] keeps_def)
    qed
  qed
qed

section \<open>From a window to an application\<close>

text \<open>Pieces that decode to one token each give these tokens, and nothing is left.\<close>

lemma drain_pieces:
  assumes "list_all2 (\<lambda>bs t. decode_one_input_token sys cp bs = Some t \<and> tk_bytes_consumed t = length bs) pieces tokens"
  shows "drain (decode_one_input_token sys cp) tk_bytes_consumed (concat pieces) = (tokens, [])"
  using assms
proof (induction rule: list_all2_induct)
  case Nil
  have "decode_one_input_token sys cp [] = None" by (simp add: decode_one_input_token_def try_decode_vt_def)
  then show ?case by (simp add: tok.drain_unfold)
next
  case (Cons bs pieces t tokens)
  then show ?case using tok.drain_unfold(2) [OF tok.dec_stable, of sys cp bs t "concat pieces"] by simp
qed

text \<open>
  Keys a window can send through the pseudo console without loss: a navigation or function key, or
  a key of a printable character without a control or alt modifier.
\<close>

definition plain_key :: "KEY_EVENT_RECORD \<Rightarrow> bool" where
  "plain_key key \<longleftrightarrow> bKeyDown key \<and>
    (wVirtualKeyCode key \<in> set navigation_keys
     \<or> (special_key_sequence (wVirtualKeyCode key) = None \<and> 0x20 \<le> UnicodeChar key \<and> UnicodeChar key \<le> 0x7E
        \<and> dwControlKeyState key AND ctrl_mask = 0 \<and> dwControlKeyState key AND alt_mask = 0))"

definition received_token :: "KEY_EVENT_RECORD \<Rightarrow> DecodedToken" where
  "received_token key =
    (case special_key_sequence (wVirtualKeyCode key) of
       Some bytes \<Rightarrow> key_token (length bytes) (make_simple_key_event (wVirtualKeyCode key))
     | None \<Rightarrow> empty_token\<lparr>tk_kind := text_units, tk_bytes_consumed := 1, tk_text := [UnicodeChar key]\<rparr>)"

lemma navigation_special: "vk \<in> set navigation_keys \<Longrightarrow> \<exists>bytes. special_key_sequence vk = Some bytes"
  by (auto simp: navigation_keys_def special_key_sequence_def)

text \<open>What the code relies on: both conversions are the identity on ASCII.\<close>

definition ascii_identity :: "code_pages \<Rightarrow> (wchar \<Rightarrow> byte list) \<Rightarrow> bool" where
  "ascii_identity sys wide_to_utf8 \<longleftrightarrow>
    (\<forall>b < 0x80. wide_to_utf8 (ucast b) = [b] \<and> to_wide sys CP_UTF8 True [b] = one_unit (ucast b))"

lemma ascii_byte:
  assumes "0x20 \<le> (u :: wchar)" and "u \<le> 0x7E"
  shows "ucast (ucast u :: byte) = u" "(ucast u :: byte) < 0x80" "(ucast u :: byte) \<noteq> 0x1B" "(ucast u :: byte) \<noteq> 0x9B"
proof -
  have n: "unat (ucast u :: byte) = unat u" "32 \<le> unat u" "unat u \<le> 126"
    using assms by (simp_all add: word_le_nat_alt unat_ucast_mod)
  then show "ucast (ucast u :: byte) = u" by (simp add: word_unat_eq_iff unat_ucast_up)
  show "(ucast u :: byte) < 0x80" using n by (simp add: word_less_nat_alt)
  show "(ucast u :: byte) \<noteq> 0x1B" "(ucast u :: byte) \<noteq> 0x9B" using n by (auto simp: word_unat_eq_iff)
qed

lemma plain_key_received:
  assumes "plain_key key" and "ascii_identity sys wide_to_utf8"
  shows "decode_one_input_token sys CP_UTF8 (encode_key wide_to_utf8 key) = Some (received_token key)
    \<and> tk_bytes_consumed (received_token key) = length (encode_key wide_to_utf8 key)"
proof (cases "wVirtualKeyCode key \<in> set navigation_keys")
  case True
  then obtain bytes where b: "special_key_sequence (wVirtualKeyCode key) = Some bytes" using navigation_special by blast
  have "wVirtualKeyCode key \<noteq> 0x43" "wVirtualKeyCode key \<noteq> 0x44" using True by (auto simp: navigation_keys_def)
  then have "encode_key wide_to_utf8 key = bytes" using assms(1) b by (simp add: encode_key_def plain_key_def)
  then show ?thesis using navigation_decodes [OF True b] b by (simp add: decode_one_input_token_def received_token_def)
next
  case False
  then have p: "bKeyDown key" "special_key_sequence (wVirtualKeyCode key) = None" "0x20 \<le> UnicodeChar key" "UnicodeChar key \<le> 0x7E"
    "dwControlKeyState key AND ctrl_mask = 0" "dwControlKeyState key AND alt_mask = 0"
    using assms(1) by (auto simp: plain_key_def)
  let ?b = "ucast (UnicodeChar key) :: byte"
  note a = ascii_byte [OF p(3,4)]
  have w: "wide_to_utf8 (UnicodeChar key) = [?b]" "to_wide sys CP_UTF8 True [?b] = one_unit (UnicodeChar key)"
    using assms(2) a(1,2) by (auto simp: ascii_identity_def)
  have "UnicodeChar key \<noteq> 0" using p(3) by (auto simp: word_le_nat_alt)
  then have "encode_key wide_to_utf8 key = [?b]"
    using p w by (simp add: encode_key_def narrow_utf16_code_unit_def ctrl_mask_def alt_mask_def)
  moreover have "try_decode_vt [?b] = (no_match, empty_token)" using a(3,4) by (simp add: try_decode_vt_def)
  ultimately show ?thesis
    using a(2) w p(2)
    by (simp add: decode_one_input_token_def decode_one_console_input_unit_def utf8_sequence_def convert_sequence_def
        chunk_of_def received_token_def)
qed

text \<open>
  C27. Plain keys arrive. A plain key is the press of a navigation or function key, or a key press
  without Ctrl or Alt that types a printable ASCII character (0x20 to 0x7E). A sequence of plain keys,
  encoded one after the other by the window and decoded by the server, gives one token per key, in
  order: the same virtual key, or the same character. No byte is left over, and the tokens are
  the same when the bytes arrive in two pieces cut anywhere. The two conversions are the identity
  on ASCII. Nothing is said of the other keys: Alt with a character is a prefix of its own,
  Escape waits for the bytes behind it, and Enter, Tab and characters outside ASCII are not covered.
\<close>

theorem typed_keys_arrive:
  assumes "list_all plain_key keys" and "ascii_identity sys wide_to_utf8"
    and "concat (map (encode_key wide_to_utf8) keys) = xs @ ys"
  shows "drain (decode_one_input_token sys CP_UTF8) tk_bytes_consumed (xs @ ys) = (map received_token keys, [])
    \<and> fst (drain (decode_one_input_token sys CP_UTF8) tk_bytes_consumed xs)
      @ fst (drain (decode_one_input_token sys CP_UTF8) tk_bytes_consumed
          (snd (drain (decode_one_input_token sys CP_UTF8) tk_bytes_consumed xs) @ ys)) = map received_token keys"
proof -
  have "list_all2 (\<lambda>bs t. decode_one_input_token sys CP_UTF8 bs = Some t \<and> tk_bytes_consumed t = length bs)
      (map (encode_key wide_to_utf8) keys) (map received_token keys)"
    using assms(1) plain_key_received [OF _ assms(2)] by (induction keys) auto
  from drain_pieces [OF this] show ?thesis
    using tok.drain_append [of sys CP_UTF8 xs ys] by (simp add: assms(3))
qed

theorem typed_keys_arrive_witness:
  "drain (decode_one_input_token \<lparr>to_wide = \<lambda>cp strict bs. one_unit (ucast (hd bs)), lead_byte = \<lambda>cp b. False\<rparr> CP_UTF8) tk_bytes_consumed
     (concat (map (encode_key (\<lambda>u. [ucast u]))
       [\<lparr>bKeyDown = True, wRepeatCount = 1, wVirtualKeyCode = 0x58, wVirtualScanCode = 0, UnicodeChar = 0x78, dwControlKeyState = 0\<rparr>,
        make_simple_key_event 0x26])) =
   ([empty_token\<lparr>tk_bytes_consumed := 1, tk_text := [0x78]\<rparr>, key_token 3 (make_simple_key_event 0x26)], [])
   \<and> concat (map (encode_key (\<lambda>u. [ucast u]))
       [\<lparr>bKeyDown = True, wRepeatCount = 1, wVirtualKeyCode = 0x58, wVirtualScanCode = 0, UnicodeChar = 0x78, dwControlKeyState = 0\<rparr>,
        make_simple_key_event 0x26]) = [0x78, 0x1B, 0x5B] @ [0x41]"
proof -
  let ?x = "\<lparr>bKeyDown = True, wRepeatCount = 1, wVirtualKeyCode = 0x58, wVirtualScanCode = 0, UnicodeChar = 0x78, dwControlKeyState = 0\<rparr>"
  let ?keys = "[?x, make_simple_key_event 0x26]" and ?w = "\<lambda>u :: wchar. [ucast u :: byte]"
  let ?sys = "\<lparr>to_wide = \<lambda>cp strict bs. one_unit (ucast (hd bs)), lead_byte = \<lambda>cp b. False\<rparr>"
  have plain: "list_all plain_key ?keys"
    by (simp add: plain_key_def special_key_sequence_def make_simple_key_event_def navigation_keys_def)
  have id: "ascii_identity ?sys ?w" 
    unfolding ascii_identity_def by (auto, transfer, simp)
  have bytes: "concat (map (encode_key ?w) ?keys) = [0x78, 0x1B, 0x5B] @ [0x41]"
    by (simp add: encode_key_def narrow_utf16_code_unit_def special_key_sequence_def make_simple_key_event_def)
  have "drain (decode_one_input_token ?sys CP_UTF8) tk_bytes_consumed ([0x78, 0x1B, 0x5B] @ [0x41]) = (map received_token ?keys, [])"
    using typed_keys_arrive [OF plain id bytes] by blast
  moreover have "map received_token ?keys = [empty_token\<lparr>tk_bytes_consumed := 1, tk_text := [0x78]\<rparr>, key_token 3 (make_simple_key_event 0x26)]"
    by (simp add: received_token_def special_key_sequence_def make_simple_key_event_def numeral_3_eq_3 empty_token_def)
  ultimately show ?thesis by (simp only: bytes simp_thms)
qed

end
