(* ===== verification/Input_Queue.thy ===== *)
theory Input_Queue
  imports Console_Input
begin

text \<open>
  The bytes on their way to an application: the queue the input monitor fills (\<open>InputQueue\<close> of
  \<open>condrv_server.cpp\<close>, a vector with a read offset and an event handle), the prefix a handle keeps
  across pending reads (\<open>PendingInputBytes\<close> of \<open>condrv_server.hpp\<close>, a fixed array of 64 bytes), and
  the operations of \<open>HostIo\<close> over them. Both containers refine a list of bytes through the interface
  \<open>byte_source\<close>. The operations on the bytes of the queue hold its mutex, so those of the monitor and
  of the server are interleaved whole. \<open>mark_disconnected\<close> does not take the mutex: as one step it is
  part of the refinement below, and the section after it splits it, and the update of the event, into
  their accesses to the flag and the event and says what every interleaving of these leaves behind.
\<close>

section \<open>The interface\<close>

text \<open>Containers with bytes at the front: what is in them, how many there are, how to drop some.\<close>

locale byte_source =
  fixes wf :: "'q \<Rightarrow> bool" and contents :: "'q \<Rightarrow> byte list" and amount :: "'q \<Rightarrow> nat" and remove :: "nat \<Rightarrow> 'q \<Rightarrow> 'q"
  assumes amount_contents: "wf q \<Longrightarrow> amount q = length (contents q)"
    and remove_contents: "wf q \<Longrightarrow> contents (remove n q) = drop n (contents q)"
    and remove_wf: "wf q \<Longrightarrow> wf (remove n q)"
begin

lemma amount_zero: "wf q \<Longrightarrow> amount q = 0 \<longleftrightarrow> contents q = []"
  by (simp add: amount_contents)

lemma remove_amount: "wf q \<Longrightarrow> amount (remove n q) = amount q - n"
  by (simp add: amount_contents remove_contents remove_wf)

text \<open>Removing in several goes is removing the sum.\<close>

lemma remove_fold: "wf q \<Longrightarrow> contents (fold remove ns q) = drop (sum_list ns) (contents q) \<and> wf (fold remove ns q)"
proof (induction ns arbitrary: q)
  case (Cons n ns)
  then show ?case using Cons.IH [OF remove_wf [OF Cons.prems, of n]] by (simp add: remove_contents add.commute)
qed simp

end

section \<open>The queue of the server\<close>

text \<open>\<open>iq_event\<close> is the state of the manual-reset event, None when there is no handle.\<close>

record InputQueue =
  iq_storage :: "byte list"
  iq_read_offset :: nat
  iq_disconnected :: bool
  iq_event :: "bool option"

definition new_queue :: "bool option \<Rightarrow> InputQueue" where
  "new_queue event = \<lparr>iq_storage = [], iq_read_offset = 0, iq_disconnected = False, iq_event = event\<rparr>"

definition update_event_locked :: "InputQueue \<Rightarrow> InputQueue" where
  "update_event_locked q =
    (case iq_event q of None \<Rightarrow> q | Some _ \<Rightarrow> q\<lparr>iq_event := Some (iq_storage q \<noteq> [] \<or> iq_disconnected q)\<rparr>)"

definition mark_disconnected :: "InputQueue \<Rightarrow> InputQueue" where
  "mark_disconnected q = q\<lparr>iq_disconnected := True, iq_event := map_option (\<lambda>_. True) (iq_event q)\<rparr>"

definition available :: "InputQueue \<Rightarrow> nat" where
  "available q = length (iq_storage q) - iq_read_offset q"

definition queue_clear :: "InputQueue \<Rightarrow> InputQueue" where
  "queue_clear q = update_event_locked (q\<lparr>iq_storage := [], iq_read_offset := 0\<rparr>)"

text \<open>Without memory for the new bytes (\<open>mem_ok\<close> false) they are lost: the exception is caught before the event is updated.\<close>

definition queue_push :: "bool \<Rightarrow> byte list \<Rightarrow> InputQueue \<Rightarrow> InputQueue" where
  "queue_push mem_ok data q =
    (if data = [] then q
     else
       let q = (if iq_read_offset q = length (iq_storage q) then q\<lparr>iq_storage := [], iq_read_offset := 0\<rparr> else q)
       in if \<not> mem_ok then q else update_event_locked (q\<lparr>iq_storage := iq_storage q @ data\<rparr>))"

text \<open>The bytes copied to a destination of \<open>n\<close> bytes.\<close>

definition queue_peek :: "nat \<Rightarrow> InputQueue \<Rightarrow> byte list" where
  "queue_peek n q = (if n = 0 then [] else take (min (available q) n) (drop (iq_read_offset q) (iq_storage q)))"

definition queue_pop :: "nat \<Rightarrow> InputQueue \<Rightarrow> byte list \<times> InputQueue" where
  "queue_pop n q =
    (if n = 0 then ([], q)
     else
       let to_copy = min (available q) n;
           bytes = take to_copy (drop (iq_read_offset q) (iq_storage q));
           q' = q\<lparr>iq_read_offset := iq_read_offset q + to_copy\<rparr>;
           q' = (if iq_read_offset q' = length (iq_storage q') then q'\<lparr>iq_storage := [], iq_read_offset := 0\<rparr> else q')
       in (bytes, update_event_locked q'))"

text \<open>
  The offset stays inside the storage and the storage holds no read bytes only, so the event, where
  there is one, is set exactly when there is something to read or the input is gone.
\<close>

definition queue_inv :: "InputQueue \<Rightarrow> bool" where
  "queue_inv q \<longleftrightarrow> (iq_read_offset q < length (iq_storage q) \<or> (iq_storage q = [] \<and> iq_read_offset q = 0))
    \<and> (\<forall>e. iq_event q = Some e \<longrightarrow> e = (available q \<noteq> 0 \<or> iq_disconnected q))"

definition queue_bytes :: "InputQueue \<Rightarrow> byte list" where
  "queue_bytes q = drop (iq_read_offset q) (iq_storage q)"

named_theorems queue_defs "operations of the input queue"

lemmas [queue_defs] = queue_inv_def queue_bytes_def available_def update_event_locked_def queue_push_def queue_pop_def
  queue_peek_def queue_clear_def mark_disconnected_def new_queue_def

lemma queue_inv_ops:
  assumes "queue_inv q"
  shows "queue_inv (queue_push ok data q)" "queue_inv (snd (queue_pop n q))" "queue_inv (queue_clear q)" "queue_inv (mark_disconnected q)"
  using assms by (auto simp: queue_defs Let_def split: option.splits)

text \<open>The bytes that a push adds.\<close>

definition kept_bytes :: "bool \<Rightarrow> byte list \<Rightarrow> byte list" where
  "kept_bytes mem_ok data = (if mem_ok then data else [])"

lemma kept_bytes_simps [simp]: "kept_bytes True data = data" "kept_bytes False data = []"
  by (simp_all add: kept_bytes_def)

lemma queue_push_bytes: "queue_inv q \<Longrightarrow> queue_bytes (queue_push ok data q) = queue_bytes q @ kept_bytes ok data"
  by (auto simp: queue_defs Let_def split: option.splits)

lemma queue_pop_bytes:
  assumes "queue_inv q"
  shows "fst (queue_pop n q) = take n (queue_bytes q)" "queue_bytes (snd (queue_pop n q)) = drop n (queue_bytes q)"
  using assms by (auto simp: queue_defs Let_def min_def add.commute split: option.splits)

lemma queue_peek_bytes: "queue_inv q \<Longrightarrow> queue_peek n q = take n (queue_bytes q)"
  by (auto simp: queue_defs min_def)

lemma queue_clear_bytes [simp]: "queue_bytes (queue_clear q) = []"
  by (auto simp: queue_defs split: option.splits)

lemma queue_disconnected [simp]:
  "iq_disconnected (queue_push ok data q) = iq_disconnected q" "iq_disconnected (snd (queue_pop n q)) = iq_disconnected q"
  "iq_disconnected (queue_clear q) = iq_disconnected q"
  by (auto simp: queue_defs Let_def split: option.splits)

lemma update_event_handle [simp]: "iq_event (update_event_locked q) = None \<longleftrightarrow> iq_event q = None"
  by (simp add: update_event_locked_def split: option.splits)

lemma queue_event_handle [simp]:
  "iq_event (queue_push ok data q) = None \<longleftrightarrow> iq_event q = None" "iq_event (snd (queue_pop n q)) = None \<longleftrightarrow> iq_event q = None"
  "iq_event (queue_clear q) = None \<longleftrightarrow> iq_event q = None" "iq_event (mark_disconnected q) = None \<longleftrightarrow> iq_event q = None"
  by (simp_all add: queue_push_def queue_pop_def queue_clear_def mark_disconnected_def Let_def)

lemma mark_disconnected_bytes [simp]: "queue_bytes (mark_disconnected q) = queue_bytes q" "iq_disconnected (mark_disconnected q)"
  by (simp_all add: mark_disconnected_def queue_bytes_def)

interpretation queue: byte_source queue_inv queue_bytes available "\<lambda>n q. snd (queue_pop n q)"
  by unfold_locales (auto simp: queue_inv_ops queue_pop_bytes, simp add: queue_defs)

text \<open>What the threads do to the queue.\<close>

datatype queue_event = Pushed bool "byte list" | Popped nat | Cleared | Disconnected

fun queue_apply :: "InputQueue \<Rightarrow> queue_event \<Rightarrow> InputQueue" where
  "queue_apply q (Pushed mem_ok data) = queue_push mem_ok data q"
| "queue_apply q (Popped n) = snd (queue_pop n q)"
| "queue_apply q Cleared = queue_clear q"
| "queue_apply q Disconnected = mark_disconnected q"

text \<open>The same events on a list of bytes and a flag; bytes for which there is no memory are lost.\<close>

fun list_apply :: "byte list \<times> bool \<Rightarrow> queue_event \<Rightarrow> byte list \<times> bool" where
  "list_apply (bs, d) (Pushed mem_ok data) = (if mem_ok then bs @ data else bs, d)"
| "list_apply (bs, d) (Popped n) = (drop n bs, d)"
| "list_apply (bs, d) Cleared = ([], d)"
| "list_apply (bs, d) Disconnected = (bs, True)"

lemma queue_apply_refines:
  "queue_inv q \<Longrightarrow> queue_inv (queue_apply q e) \<and>
    (queue_bytes (queue_apply q e), iq_disconnected (queue_apply q e)) = list_apply (queue_bytes q, iq_disconnected q) e
    \<and> (iq_event (queue_apply q e) = None \<longleftrightarrow> iq_event q = None)"
  by (cases e) (simp_all add: queue_inv_ops queue_push_bytes queue_pop_bytes kept_bytes_def)

text \<open>
  C25. The input queue is a list of bytes, whatever the order in which the monitor thread and the
  server use it: after any sequence of pushes, pops, flushes and a disconnect that run one after
  another the bytes in it are the bytes of the list after the same operations (those of a push that
  finds no memory are lost and change nothing else), and the event the clients wait on is set exactly
  when there are bytes to read or the input is disconnected.
\<close>

theorem input_queue_refines_list:
  "let q = foldl queue_apply (new_queue (Some False)) es; (bs, d) = foldl list_apply ([], False) es
   in queue_bytes q = bs \<and> iq_disconnected q = d \<and> available q = length bs
     \<and> queue_peek n q = take n bs \<and> fst (queue_pop n q) = take n bs \<and> iq_event q = Some (0 < length bs \<or> d)"
proof -
  have run: "queue_inv (foldl queue_apply q es) \<and>
      (queue_bytes (foldl queue_apply q es), iq_disconnected (foldl queue_apply q es)) =
        foldl list_apply (queue_bytes q, iq_disconnected q) es
      \<and> (iq_event (foldl queue_apply q es) = None \<longleftrightarrow> iq_event q = None)"
    if "queue_inv q" for q
    using that
  proof (induction es arbitrary: q)
    case (Cons e es)
    then show ?case using queue_apply_refines [OF Cons.prems, of e] Cons.IH [of "queue_apply q e"] by auto
  qed simp
  have new: "queue_inv (new_queue (Some False))" by (simp add: queue_defs)
  note r = run [OF new]
  let ?q = "foldl queue_apply (new_queue (Some False)) es"
  have "(queue_bytes ?q, iq_disconnected ?q) = foldl list_apply ([], False) es" using r by (simp add: queue_defs)
  then obtain bs d where l: "foldl list_apply ([], False) es = (bs, d)" "queue_bytes ?q = bs" "iq_disconnected ?q = d"
    by (metis prod.collapse prod.inject)
  obtain e where e: "iq_event ?q = Some e" using r by (cases "iq_event ?q") (auto simp: new_queue_def)
  have a: "available ?q = length bs" using r queue.amount_contents l by blast
  have "e = (bs \<noteq> [] \<or> d)" using r e a l by (simp add: queue_inv_def)
  moreover have "queue_peek n ?q = take n bs" "fst (queue_pop n ?q) = take n bs"
    using r queue_peek_bytes queue_pop_bytes(1) l by metis+
  ultimately show ?thesis using e a l by (simp add: Let_def)
qed

section \<open>A disconnect beside an operation\<close>

text \<open>
  The accesses of \<open>update_event_locked\<close> and of \<open>mark_disconnected\<close>: the first looks at storage and flag,
  then sets or resets the event; the second, without the mutex, stores the flag, then sets the event.
  The state has the queue and what \<open>update_event_locked\<close> has decided.
\<close>

datatype event_access = DecideSignal | ApplySignal | StoreFlag | SignalFlag

fun event_access_step :: "InputQueue \<times> bool \<Rightarrow> event_access \<Rightarrow> InputQueue \<times> bool" where
  "event_access_step (q, d) DecideSignal = (q, iq_storage q \<noteq> [] \<or> iq_disconnected q)"
| "event_access_step (q, d) ApplySignal = (q\<lparr>iq_event := map_option (\<lambda>_. d) (iq_event q)\<rparr>, d)"
| "event_access_step (q, d) StoreFlag = (q\<lparr>iq_disconnected := True\<rparr>, d)"
| "event_access_step (q, d) SignalFlag = (q\<lparr>iq_event := map_option (\<lambda>_. True) (iq_event q)\<rparr>, d)"

text \<open>Each operation is its accesses in a row.\<close>

lemma update_event_accesses: "fst (foldl event_access_step (q, d) [DecideSignal, ApplySignal]) = update_event_locked q"
  by (cases "iq_event q") (simp_all add: update_event_locked_def)

lemma mark_disconnected_accesses: "fst (foldl event_access_step (q, d) [StoreFlag, SignalFlag]) = mark_disconnected q"
  by (cases "iq_event q") (simp_all add: mark_disconnected_def)

text \<open>
  C26. The signal of a disconnect can be lost. When the monitor marks the input as disconnected while
  a pop or a flush that has emptied the queue updates the event, five of the six interleavings leave
  the event set; in the sixth the update looks at the flag before it is stored and resets the event
  after it has been set, so that the event stays unset although the input is gone and a client that
  waits for it is not woken.
\<close>

theorem disconnect_signal_lost:
  assumes "iq_event q = Some e" and "iq_storage q = []" and "\<not> iq_disconnected q"
    and "es \<in> shuffles [DecideSignal, ApplySignal] [StoreFlag, SignalFlag]"
  shows "let q' = fst (foldl event_access_step (q, d) es)
    in iq_disconnected q' \<and> iq_event q' = Some (es \<noteq> [DecideSignal, StoreFlag, SignalFlag, ApplySignal])"
  using assms by (auto simp: Let_def)

theorem disconnect_signal_lost_witness:
  "iq_event (fst (foldl event_access_step (new_queue (Some True), False) [DecideSignal, StoreFlag, SignalFlag, ApplySignal])) = Some False
   \<and> iq_event (fst (foldl event_access_step (new_queue (Some True), False) [StoreFlag, DecideSignal, SignalFlag, ApplySignal])) = Some True"
  using disconnect_signal_lost [of "new_queue (Some True)" True "[DecideSignal, StoreFlag, SignalFlag, ApplySignal]" False]
    disconnect_signal_lost [of "new_queue (Some True)" True "[StoreFlag, DecideSignal, SignalFlag, ApplySignal]" False]
  by (simp add: new_queue_def Let_def)

section \<open>The prefix kept by a handle\<close>

record PendingInputBytes =
  pi_storage :: "byte list"
  pi_size :: nat

definition no_pending_bytes :: PendingInputBytes where
  "no_pending_bytes = \<lparr>pi_storage = replicate 64 0, pi_size = 0\<rparr>"

definition pending_bytes :: "PendingInputBytes \<Rightarrow> byte list" where
  "pending_bytes p = take (pi_size p) (pi_storage p)"

definition pending_clear :: "PendingInputBytes \<Rightarrow> PendingInputBytes" where
  "pending_clear p = p\<lparr>pi_size := 0\<rparr>"

definition pending_append :: "byte list \<Rightarrow> PendingInputBytes \<Rightarrow> bool \<times> PendingInputBytes" where
  "pending_append data p =
    (if data = [] then (True, p)
     else if length data > length (pi_storage p) - pi_size p then (False, p)
     else (True, p\<lparr>pi_storage := take (pi_size p) (pi_storage p) @ data @ drop (pi_size p + length data) (pi_storage p),
                  pi_size := pi_size p + length data\<rparr>))"

definition consume_prefix :: "nat \<Rightarrow> PendingInputBytes \<Rightarrow> PendingInputBytes" where
  "consume_prefix n p =
    (let to_consume = min n (pi_size p)
     in if to_consume = 0 then p
        else
          let left = pi_size p - to_consume
          in if left \<noteq> 0
             then p\<lparr>pi_storage := take left (drop to_consume (pi_storage p)) @ drop left (pi_storage p), pi_size := left\<rparr>
             else p\<lparr>pi_size := left\<rparr>)"

definition pending_inv :: "PendingInputBytes \<Rightarrow> bool" where
  "pending_inv p \<longleftrightarrow> length (pi_storage p) = 64 \<and> pi_size p \<le> 64"

named_theorems pending_defs "operations of the pending prefix"

lemmas [pending_defs] = no_pending_bytes_def pending_bytes_def pending_clear_def pending_append_def consume_prefix_def pending_inv_def

lemma pending_inv_ops:
  assumes "pending_inv p"
  shows "pending_inv (snd (pending_append data p))" "pending_inv (consume_prefix n p)" "pending_inv (pending_clear p)"
  using assms by (auto simp: pending_defs Let_def)

lemma consume_prefix_bytes:
  assumes "pending_inv p"
  shows "pending_bytes (consume_prefix n p) = drop n (pending_bytes p)"
proof -
  have "take (a - m) (drop m xs) = drop m (take a xs)" for a m and xs :: "byte list" by (simp add: drop_take)
  then show ?thesis using assms by (auto simp: pending_defs Let_def min_def)
qed

lemma pending_append_bytes:
  assumes "pending_inv p"
  shows "fst (pending_append data p) \<longleftrightarrow> length (pending_bytes p @ data) \<le> 64"
    and "pending_bytes (snd (pending_append data p)) = (if length (pending_bytes p @ data) \<le> 64 then pending_bytes p @ data else pending_bytes p)"
  using assms by (auto simp: pending_defs)

lemma pending_clear_bytes [simp]: "pending_bytes (pending_clear p) = []"
  by (simp add: pending_defs)

lemma pending_size: "pending_inv p \<Longrightarrow> pi_size p = length (pending_bytes p)" "pending_inv p \<Longrightarrow> length (pending_bytes p) \<le> 64"
  by (auto simp: pending_defs)

interpretation pending: byte_source pending_inv pending_bytes pi_size consume_prefix
  by unfold_locales (simp_all add: pending_size pending_inv_ops consume_prefix_bytes)

section \<open>Host I/O\<close>

text \<open>
  The server's view of the host: the queue, whether there is an output handle to a terminal and a
  signal pipe, and the end-task packets written to the pipe (process, event, flags).
\<close>

record HostIo =
  ho_queue :: InputQueue
  ho_output :: bool
  ho_signal_pipe :: bool
  ho_end_tasks :: "(ulong \<times> ulong \<times> ulong) list"

definition input_bytes_available :: "HostIo \<Rightarrow> nat" where
  "input_bytes_available h = available (ho_queue h)"

definition peek_input_bytes :: "nat \<Rightarrow> HostIo \<Rightarrow> byte list" where
  "peek_input_bytes n h = queue_peek n (ho_queue h)"

definition read_input_bytes :: "nat \<Rightarrow> HostIo \<Rightarrow> byte list \<times> HostIo" where
  "read_input_bytes n h = (fst (queue_pop n (ho_queue h)), h\<lparr>ho_queue := snd (queue_pop n (ho_queue h))\<rparr>)"

definition input_disconnected :: "HostIo \<Rightarrow> bool" where
  "input_disconnected h \<longleftrightarrow> iq_event (ho_queue h) = None \<or> iq_disconnected (ho_queue h)"

definition inject_input_bytes :: "bool \<Rightarrow> byte list \<Rightarrow> HostIo \<Rightarrow> HostIo" where
  "inject_input_bytes mem_ok bytes h = (if bytes = [] then h else h\<lparr>ho_queue := queue_push mem_ok bytes (ho_queue h)\<rparr>)"

text \<open>A host without a terminal behind its output answers status queries itself.\<close>

definition vt_should_answer_queries :: "HostIo \<Rightarrow> bool" where
  "vt_should_answer_queries h \<longleftrightarrow> \<not> ho_output h"

definition flush_input_buffer :: "HostIo \<Rightarrow> HostIo" where
  "flush_input_buffer h = h\<lparr>ho_queue := queue_clear (ho_queue h)\<rparr>"

definition send_end_task :: "ulong \<Rightarrow> ulong \<Rightarrow> ulong \<Rightarrow> HostIo \<Rightarrow> HostIo" where
  "send_end_task pid event flags h = (if \<not> ho_signal_pipe h then h else h\<lparr>ho_end_tasks := ho_end_tasks h @ [(pid, event, flags)]\<rparr>)"

text \<open>Control-C and control-break go to every connected process.\<close>

definition forward_ctrl_c :: "ulong list \<Rightarrow> HostIo \<Rightarrow> HostIo" where
  "forward_ctrl_c pids h = fold (\<lambda>pid. send_end_task pid 0 1) pids h"

definition forward_ctrl_break :: "ulong list \<Rightarrow> HostIo \<Rightarrow> HostIo" where
  "forward_ctrl_break pids h = fold (\<lambda>pid. send_end_task pid 1 2) pids h"

text \<open>The loops that throw away bytes already looked at, through a scratch array of \<open>buf\<close> bytes.\<close>

function discard_input :: "nat \<Rightarrow> nat \<Rightarrow> HostIo \<Rightarrow> HostIo" where
  "discard_input buf remaining h =
    (if remaining = 0 then h
     else
       let (removed, h') = read_input_bytes (min remaining buf) h
       in if removed = [] then h' else discard_input buf (remaining - length removed) h')"
  by pat_completeness auto

termination
  by (relation "measure (\<lambda>(buf, remaining, h). remaining)") auto

declare discard_input.simps [simp del]

lemma discard_input_queue:
  assumes "queue_inv (ho_queue h)" and "0 < buf"
  shows "queue_inv (ho_queue (discard_input buf n h)) \<and> queue_bytes (ho_queue (discard_input buf n h)) = drop n (queue_bytes (ho_queue h))
    \<and> (\<exists>q. discard_input buf n h = h\<lparr>ho_queue := q\<rparr>) \<and> input_disconnected (discard_input buf n h) = input_disconnected h"
  using assms
proof (induction buf n h rule: discard_input.induct)
  case (1 buf n h)
  let ?b = "fst (queue_pop (min n buf) (ho_queue h))" and ?q = "snd (queue_pop (min n buf) (ho_queue h))"
  note pop = queue_pop_bytes [OF "1.prems"(1), of "min n buf"] queue_inv_ops(2) [OF "1.prems"(1), of "min n buf"]
  have h': "\<exists>q. h = h\<lparr>ho_queue := q\<rparr>" by (rule exI [of _ "ho_queue h"]) simp
  consider "n = 0" | "n \<noteq> 0" "?b = []" | "n \<noteq> 0" "?b \<noteq> []" by blast
  then show ?case
  proof cases
    case 1
    then show ?thesis using "1.prems" h' by (simp add: discard_input.simps [of buf 0 h])
  next
    case 2
    then have "queue_bytes (ho_queue h) = []" using pop(1) "1.prems"(2) by (auto simp: min_def split: if_splits)
    then show ?thesis
      using 2 pop by (auto simp: discard_input.simps [of buf n h] read_input_bytes_def input_disconnected_def)
  next
    case 3
    have "length ?b = min (min n buf) (length (queue_bytes (ho_queue h)))" using pop(1) by simp
    moreover have "drop (n - length ?b) (drop (min n buf) (queue_bytes (ho_queue h))) = drop n (queue_bytes (ho_queue h))"
      using calculation by (cases "min n buf \<le> length (queue_bytes (ho_queue h))") auto
    ultimately show ?thesis
      using 3 "1.IH" [OF 3(1) _ _ 3(2)] pop "1.prems"(2)
      by (auto simp: discard_input.simps [of buf n h] read_input_bytes_def input_disconnected_def)
  qed
qed

section \<open>The input stream of a handle\<close>

text \<open>The fields of an \<open>ObjectHandle\<close> that belong to input.\<close>

record InputHandle =
  ih_decoded_pending :: "wchar option"
  ih_pending_bytes :: PendingInputBytes
  ih_cooked_pending :: wstring
  ih_line :: wstring
  ih_line_cursor :: nat
  ih_insert_mode :: bool

definition new_input_handle :: InputHandle where
  "new_input_handle = \<lparr>ih_decoded_pending = None, ih_pending_bytes = no_pending_bytes, ih_cooked_pending = [],
    ih_line = [], ih_line_cursor = 0, ih_insert_mode = True\<rparr>"

text \<open>A reader sees the prefix of its handle, then the queue.\<close>

definition input_stream :: "InputHandle \<Rightarrow> HostIo \<Rightarrow> byte list" where
  "input_stream ih h = pending_bytes (ih_pending_bytes ih) @ queue_bytes (ho_queue h)"

definition input_inv :: "InputHandle \<Rightarrow> HostIo \<Rightarrow> bool" where
  "input_inv ih h \<longleftrightarrow> pending_inv (ih_pending_bytes ih) \<and> queue_inv (ho_queue h)"

text \<open>Using up bytes: from the prefix first, then from the queue.\<close>

definition consume_from_stream :: "nat \<Rightarrow> nat \<Rightarrow> InputHandle \<Rightarrow> HostIo \<Rightarrow> InputHandle \<times> HostIo" where
  "consume_from_stream buf n ih h =
    (let pending_consumed = min n (pi_size (ih_pending_bytes ih))
     in (ih\<lparr>ih_pending_bytes := consume_prefix pending_consumed (ih_pending_bytes ih)\<rparr>, discard_input buf (n - pending_consumed) h))"

text \<open>Moving the bytes just peeked from the queue to the prefix, when they fit.\<close>

definition park_input :: "byte list \<Rightarrow> InputHandle \<Rightarrow> HostIo \<Rightarrow> InputHandle \<times> HostIo" where
  "park_input peeked ih h =
    (if peeked = [] then (ih, h)
     else case pending_append peeked (ih_pending_bytes ih) of
            (True, p) \<Rightarrow> (ih\<lparr>ih_pending_bytes := p\<rparr>, discard_input 16 (length peeked) h)
          | (False, _) \<Rightarrow> (ih, h))"

text \<open>What an interrupt leaves of a handle.\<close>

definition reset_input_handle :: "InputHandle \<Rightarrow> InputHandle" where
  "reset_input_handle ih = ih\<lparr>ih_decoded_pending := None, ih_pending_bytes := pending_clear (ih_pending_bytes ih),
    ih_cooked_pending := [], ih_line := []\<rparr>"

text \<open>The parts of the host a reader of input does not touch when it only moves bytes.\<close>

definition same_host :: "HostIo \<Rightarrow> HostIo \<Rightarrow> bool" where
  "same_host h h' \<longleftrightarrow> ho_output h' = ho_output h \<and> ho_signal_pipe h' = ho_signal_pipe h \<and> ho_end_tasks h' = ho_end_tasks h \<and> input_disconnected h' = input_disconnected h"

lemma discard_same_host: "queue_inv (ho_queue h) \<Longrightarrow> 0 < buf \<Longrightarrow> same_host h (discard_input buf n h)"
  using discard_input_queue [of h buf n] by (auto simp: same_host_def)

lemma consume_stream:
  assumes "input_inv ih h" and "0 < buf"
  shows "input_stream (fst (consume_from_stream buf n ih h)) (snd (consume_from_stream buf n ih h)) = drop n (input_stream ih h)"
    and "input_inv (fst (consume_from_stream buf n ih h)) (snd (consume_from_stream buf n ih h))"
    and "same_host h (snd (consume_from_stream buf n ih h))"
    and "ih_decoded_pending (fst (consume_from_stream buf n ih h)) = ih_decoded_pending ih"
  using assms pending_size(1) [of "ih_pending_bytes ih"] discard_input_queue [of h buf "n - min n (pi_size (ih_pending_bytes ih))"]
    discard_same_host [of h buf]
  by (auto simp: consume_from_stream_def input_inv_def input_stream_def Let_def consume_prefix_bytes pending_inv_ops min_def)

lemma park_stream:
  assumes "input_inv ih h" and "peeked = take n (queue_bytes (ho_queue h))"
  shows "input_stream (fst (park_input peeked ih h)) (snd (park_input peeked ih h)) = input_stream ih h"
    and "input_inv (fst (park_input peeked ih h)) (snd (park_input peeked ih h))"
    and "same_host h (snd (park_input peeked ih h))"
    and "ih_decoded_pending (fst (park_input peeked ih h)) = ih_decoded_pending ih"
proof -
  have d: "drop (length peeked) (queue_bytes (ho_queue h)) = drop n (queue_bytes (ho_queue h))" using assms(2) by (simp add: min_def)
  have "peeked @ drop n (queue_bytes (ho_queue h)) = queue_bytes (ho_queue h)" using assms(2) by simp
  then show "input_stream (fst (park_input peeked ih h)) (snd (park_input peeked ih h)) = input_stream ih h"
    and "input_inv (fst (park_input peeked ih h)) (snd (park_input peeked ih h))"
    and "same_host h (snd (park_input peeked ih h))"
    and "ih_decoded_pending (fst (park_input peeked ih h)) = ih_decoded_pending ih"
    using assms(1) d pending_append_bytes [of "ih_pending_bytes ih" peeked] pending_inv_ops(1) [of "ih_pending_bytes ih" peeked]
      discard_input_queue [of h 16 "length peeked"] discard_same_host [of h 16]
    by (auto simp: park_input_def input_inv_def input_stream_def same_host_def split: prod.splits bool.splits)
qed

end
