(* ===== verification/Server_State.thy ===== *)
theory Server_State
  imports Command_History Vt_Scrolling Input_Queue
begin

text \<open>
  The state of the server (\<open>class ServerState\<close>, \<open>ObjectHandle\<close> and \<open>ProcessState\<close> of
  \<open>condrv_server.hpp\<close>, with their operations in \<open>condrv_server.cpp\<close>): the connected processes,
  the handles they hold, the screen buffers, the aliases, the titles, the fonts and the flags.

  Handles are the addresses of the objects, so an allocation is an argument of the operation that
  makes it: it fails, or it gives an address, and the insertion of the new entry succeeds or
  throws. A \<open>std::unordered_map\<close> is an association list; the order of its entries, which the
  standard leaves open, is that of the list, and no theorem depends on it. Screen buffers are
  shared by pointers: they live in one list, a pointer is an index into it, and a buffer no
  pointer refers to any more stays in the list unseen.
\<close>

section \<open>Hash maps\<close>

type_synonym ('k, 'v) hash_map = "('k \<times> 'v) list"

definition hm_keys :: "('k, 'v) hash_map \<Rightarrow> 'k list" where
  "hm_keys m = map fst m"

definition hm_erase :: "'k \<Rightarrow> ('k, 'v) hash_map \<Rightarrow> ('k, 'v) hash_map" where
  "hm_erase k m = filter (\<lambda>e. fst e \<noteq> k) m"

text \<open>\<open>emplace\<close> keeps the entry that is there, \<open>insert_or_assign\<close> replaces its value.\<close>

definition hm_emplace :: "'k \<Rightarrow> 'v \<Rightarrow> ('k, 'v) hash_map \<Rightarrow> bool \<times> ('k, 'v) hash_map" where
  "hm_emplace k v m = (if map_of m k = None then (True, (k, v) # m) else (False, m))"

definition hm_assign :: "'k \<Rightarrow> 'v \<Rightarrow> ('k, 'v) hash_map \<Rightarrow> ('k, 'v) hash_map" where
  "hm_assign k v m = (if map_of m k = None then (k, v) # m else map (\<lambda>e. if fst e = k then (k, v) else e) m)"

section \<open>Data\<close>

type_synonym handle = "64 word"

datatype ObjectKind = K_input | K_output

text \<open>The part of a handle that only reads use is \<^typ>\<open>InputHandle\<close>.\<close>

record ObjectHandle =
  ob_kind :: ObjectKind
  ob_desired_access :: ulong
  ob_share_mode :: ulong
  ob_owning_process :: handle
  ob_screen_buffer :: "nat option"
  ob_input :: InputHandle

record ProcessState =
  pr_pid :: ulong
  pr_tid :: ulong
  pr_connect_sequence :: "64 word"
  pr_process_handle :: handle
  pr_input_handle :: handle
  pr_output_handle :: handle

record ConnectionInformation =
  ci_process :: handle
  ci_input :: handle
  ci_output :: handle

record CONSOLE_CURRENTFONT_MSG =
  fm_MaximumWindow :: bool
  fm_FontIndex :: ulong
  fm_FontSize :: COORD
  fm_FontFamily :: ulong
  fm_FontWeight :: ulong
  fm_FaceName :: wstring

record ServerState =
  ss_processes :: "(handle, ProcessState) hash_map"
  ss_objects :: "(handle, ObjectHandle) hash_map"
  ss_aliases :: "(wstring, (wstring, wstring) hash_map) hash_map"
  ss_input_mode :: ulong
  ss_output_mode :: ulong
  ss_input_code_page :: ulong
  ss_output_code_page :: ulong
  ss_title :: wstring
  ss_original_title :: wstring
  ss_history_buffer_size :: ulong
  ss_history_buffer_count :: ulong
  ss_history_flags :: ulong
  ss_command_histories :: CommandHistoryPool
  ss_font_index :: ulong
  ss_font_size :: COORD
  ss_font_family :: ulong
  ss_font_weight :: ulong
  ss_font_face_name :: wstring
  ss_cursor_blink :: bool
  ss_cursor_db_enable :: bool
  ss_nls_mode :: ulong
  ss_menu_close :: bool
  ss_key_shortcuts_enabled :: bool
  ss_reserved_keys :: byte
  ss_os2_registered :: bool
  ss_os2_oem_format :: bool
  ss_main_screen_buffer :: "nat option"
  ss_active_screen_buffer :: "nat option"
  ss_next_connect_sequence :: "64 word"
  ss_screens :: "ScreenBuffer list"

datatype allocation = AllocFailed | Allocated handle bool

abbreviation comm_error :: "string \<Rightarrow> ulong \<Rightarrow> DeviceCommError" where
  "comm_error ctx e \<equiv> \<lparr>dce_context = ctx, dce_win32_error = e\<rparr>"

section \<open>Construction\<close>

text \<open>The input modes are \<open>PROCESSED | LINE | ECHO | MOUSE | EXTENDED_FLAGS\<close>, the output modes
  \<open>PROCESSED | WRAP_AT_EOL\<close>; \<open>FF_MODERN\<close> is 48 and \<open>FW_NORMAL\<close> 400.\<close>

definition default_face_name :: wstring where
  "default_face_name = [67, 111, 110, 115, 111, 108, 97, 115] @ replicate 24 0"

definition ServerState_ctor :: "ulong \<Rightarrow> bool \<Rightarrow> bool \<Rightarrow> ServerState" where
  "ServerState_ctor oem_cp mem_ok fallback_ok =
    (let settings = default_settings;
         created = create mem_ok settings;
         created = (case created of
             Inl _ \<Rightarrow> create fallback_ok (settings\<lparr>st_buffer_size := coord0, st_window_size := coord0,
                        st_maximum_window_size := coord0, st_cursor_position := coord0\<rparr>)
           | Inr sb \<Rightarrow> Inr sb);
         screens = (case created of Inl _ \<Rightarrow> [] | Inr sb \<Rightarrow> [sb]);
         main = (case created of Inl _ \<Rightarrow> None | Inr _ \<Rightarrow> Some 0)
     in \<lparr>ss_processes = [], ss_objects = [], ss_aliases = [], ss_input_mode = 0x97, ss_output_mode = 0x03,
         ss_input_code_page = oem_cp, ss_output_code_page = oem_cp, ss_title = [], ss_original_title = [],
         ss_history_buffer_size = 50, ss_history_buffer_count = 4, ss_history_flags = 0, ss_command_histories = [],
         ss_font_index = 0, ss_font_size = \<lparr>cx = 8, cy = 16\<rparr>, ss_font_family = 48, ss_font_weight = 400,
         ss_font_face_name = default_face_name, ss_cursor_blink = True, ss_cursor_db_enable = False, ss_nls_mode = 0,
         ss_menu_close = True, ss_key_shortcuts_enabled = False, ss_reserved_keys = 0, ss_os2_registered = False,
         ss_os2_oem_format = False, ss_main_screen_buffer = main, ss_active_screen_buffer = main,
         ss_next_connect_sequence = 1, ss_screens = screens\<rparr>)"

section \<open>Handles and processes\<close>

definition process_count :: "ServerState \<Rightarrow> nat" where
  "process_count s = length (ss_processes s)"

definition has_process :: "handle \<Rightarrow> ServerState \<Rightarrow> bool" where
  "has_process p s \<longleftrightarrow> map_of (ss_processes s) p \<noteq> None"

definition find_object :: "handle \<Rightarrow> ServerState \<Rightarrow> ObjectHandle option" where
  "find_object h s = map_of (ss_objects s) h"

definition new_object :: "ObjectKind \<Rightarrow> ulong \<Rightarrow> ulong \<Rightarrow> handle \<Rightarrow> ObjectHandle" where
  "new_object kind desired_access share_mode owner =
    \<lparr>ob_kind = kind, ob_desired_access = desired_access, ob_share_mode = share_mode, ob_owning_process = owner,
     ob_screen_buffer = None, ob_input = new_input_handle\<rparr>"

definition create_object :: "allocation \<Rightarrow> ObjectHandle \<Rightarrow> ServerState \<Rightarrow> (DeviceCommError + handle) \<times> ServerState" where
  "create_object alloc ob s =
    (let ob = (if ob_kind ob = K_output \<and> ob_screen_buffer ob = None
               then ob\<lparr>ob_screen_buffer := ss_active_screen_buffer s\<rparr> else ob)
     in if ob_kind ob = K_output \<and> ob_screen_buffer ob = None
        then (Inl (comm_error ''Output handle created without an active screen buffer'' 5023), s)
        else case alloc of
          AllocFailed \<Rightarrow> (Inl (comm_error ''Failed to allocate ObjectHandle'' 14), s)
        | Allocated handle_id node_ok \<Rightarrow>
            if \<not> node_ok then (Inl (comm_error ''Failed to insert object handle'' 14), s)
            else
              let (inserted, objects) = hm_emplace handle_id ob (ss_objects s)
              in if \<not> inserted then (Inl (comm_error ''Object handle already existed'' 183), s)
                 else (Inr handle_id, s\<lparr>ss_objects := objects\<rparr>))"

definition close_object :: "handle \<Rightarrow> ServerState \<Rightarrow> bool \<times> ServerState" where
  "close_object handle_id s =
    (if map_of (ss_objects s) handle_id = None then (False, s)
     else (True, s\<lparr>ss_objects := hm_erase handle_id (ss_objects s)\<rparr>))"

text \<open>The outcomes of the allocations of one connection.\<close>

record connect_memory =
  cm_process :: allocation
  cm_input :: allocation
  cm_output :: allocation
  cm_name :: bool
  cm_history :: bool

definition erase_process :: "handle \<Rightarrow> ServerState \<Rightarrow> ServerState" where
  "erase_process p s = s\<lparr>ss_processes := hm_erase p (ss_processes s)\<rparr>"

definition connect_client ::
    "(wstring \<Rightarrow> wstring \<Rightarrow> bool) \<Rightarrow> connect_memory \<Rightarrow> ulong \<Rightarrow> ulong \<Rightarrow> wstring \<Rightarrow> ServerState
      \<Rightarrow> (DeviceCommError + ConnectionInformation) \<times> ServerState" where
  "connect_client eq_ci mem pid tid app_name s =
    (case cm_process mem of
       AllocFailed \<Rightarrow> (Inl (comm_error ''Failed to allocate ProcessState'' 14), s)
     | Allocated p node_ok \<Rightarrow>
         let process = \<lparr>pr_pid = pid, pr_tid = tid, pr_connect_sequence = ss_next_connect_sequence s,
               pr_process_handle = p, pr_input_handle = 0, pr_output_handle = 0\<rparr>;
             s = s\<lparr>ss_next_connect_sequence := ss_next_connect_sequence s + 1\<rparr>;
             (inserted, processes) = hm_emplace p process (ss_processes s)
         in if \<not> node_ok then (Inl (comm_error ''Failed to insert process state'' 14), s)
            else if \<not> inserted then (Inl (comm_error ''Process handle already existed'' 183), s)
            else
              let s = s\<lparr>ss_processes := processes\<rparr>
              in case create_object (cm_input mem) (new_object K_input 0xC0000000 3 p) s of
                   (Inl e, s) \<Rightarrow> (Inl e, erase_process p s)
                 | (Inr input_handle, s) \<Rightarrow>
                     (case create_object (cm_output mem) (new_object K_output 0xC0000000 3 p) s of
                        (Inl e, s) \<Rightarrow> (Inl e, erase_process p (snd (close_object input_handle s)))
                      | (Inr output_handle, s) \<Rightarrow>
                          (Inr \<lparr>ci_process = p, ci_input = input_handle, ci_output = output_handle\<rparr>,
                           s\<lparr>ss_processes := hm_assign p (process\<lparr>pr_input_handle := input_handle, pr_output_handle := output_handle\<rparr>)
                                 (ss_processes s),
                             ss_command_histories := allocate_for_process eq_ci (cm_name mem) (cm_history mem) app_name p
                                 (unat (ss_history_buffer_count s)) (unat (ss_history_buffer_size s)) (ss_command_histories s)\<rparr>)))"

definition disconnect_client :: "handle \<Rightarrow> ServerState \<Rightarrow> bool \<times> ServerState" where
  "disconnect_client p s =
    (if map_of (ss_processes s) p = None then (False, s)
     else
       let s = s\<lparr>ss_command_histories := free_for_process p (ss_command_histories s)\<rparr>;
           s = s\<lparr>ss_objects := filter (\<lambda>(_, ob). ob_owning_process ob \<noteq> p) (ss_objects s)\<rparr>
       in (True, erase_process p s))"

text \<open>The process identifiers in the order of the table, as control events are forwarded.\<close>

definition process_ids :: "ServerState \<Rightarrow> ulong list" where
  "process_ids s = map (\<lambda>(_, process). pr_pid process) (ss_processes s)"

section \<open>Screen buffers\<close>

definition set_active_screen_buffer :: "nat option \<Rightarrow> ServerState \<Rightarrow> bool \<times> ServerState" where
  "set_active_screen_buffer buffer s =
    (if buffer = None then (False, s)
     else
       let s = s\<lparr>ss_active_screen_buffer := buffer\<rparr>
       in (True, if ss_main_screen_buffer s = None then s\<lparr>ss_main_screen_buffer := buffer\<rparr> else s))"

definition create_screen_buffer_like_active :: "bool \<Rightarrow> ServerState \<Rightarrow> (DeviceCommError + nat) \<times> ServerState" where
  "create_screen_buffer_like_active mem_ok s =
    (case ss_active_screen_buffer s of
       None \<Rightarrow> (Inl (comm_error ''No active screen buffer'' 5023), s)
     | Some i \<Rightarrow>
         (case create_blank_like mem_ok (ss_screens s ! i) of
            Inl e \<Rightarrow> (Inl e, s)
          | Inr sb \<Rightarrow> (Inr (length (ss_screens s)), s\<lparr>ss_screens := ss_screens s @ [sb]\<rparr>)))"

section \<open>Titles, fonts, histories and aliases\<close>

text \<open>The overload that moves its argument copies at most once, the one on views twice.\<close>

definition set_title :: "bool \<Rightarrow> wstring \<Rightarrow> ServerState \<Rightarrow> bool \<times> ServerState" where
  "set_title copy_ok new_title s =
    (if ss_original_title s = [] \<and> \<not> copy_ok then (False, s)
     else
       let s = (if ss_original_title s = [] then s\<lparr>ss_original_title := new_title\<rparr> else s)
       in (True, s\<lparr>ss_title := new_title\<rparr>))"

definition set_title_view :: "bool \<Rightarrow> bool \<Rightarrow> wstring \<Rightarrow> ServerState \<Rightarrow> bool \<times> ServerState" where
  "set_title_view original_ok title_ok new_title s =
    (if ss_original_title s = [] \<and> \<not> original_ok then (False, s)
     else
       let s = (if ss_original_title s = [] then s\<lparr>ss_original_title := new_title\<rparr> else s)
       in if \<not> title_ok then (False, s) else (True, s\<lparr>ss_title := new_title\<rparr>))"

definition title :: "bool \<Rightarrow> ServerState \<Rightarrow> wstring" where
  "title original s = (if original then ss_original_title s else ss_title s)"

definition fill_current_font :: "CONSOLE_CURRENTFONT_MSG \<Rightarrow> ServerState \<Rightarrow> CONSOLE_CURRENTFONT_MSG" where
  "fill_current_font body s =
    body\<lparr>fm_FontIndex := ss_font_index s, fm_FontSize := ss_font_size s, fm_FontFamily := ss_font_family s,
      fm_FontWeight := ss_font_weight s, fm_FaceName := ss_font_face_name s\<rparr>"

definition apply_current_font :: "CONSOLE_CURRENTFONT_MSG \<Rightarrow> ServerState \<Rightarrow> ServerState" where
  "apply_current_font body s =
    (let s = s\<lparr>ss_font_index := 0\<rparr>;
         s = (if cx (fm_FontSize body) > 0 \<and> cy (fm_FontSize body) > 0 then s\<lparr>ss_font_size := fm_FontSize body\<rparr> else s);
         s = (if fm_FontFamily body \<noteq> 0 then s\<lparr>ss_font_family := fm_FontFamily body\<rparr> else s);
         s = (if fm_FontWeight body \<noteq> 0 then s\<lparr>ss_font_weight := fm_FontWeight body\<rparr> else s)
     in if fm_FaceName body ! 0 \<noteq> 0 then s\<lparr>ss_font_face_name := (fm_FaceName body)[31 := 0]\<rparr> else s)"

definition set_history_info :: "ulong \<Rightarrow> ulong \<Rightarrow> ulong \<Rightarrow> ServerState \<Rightarrow> ServerState" where
  "set_history_info buffer_size buffer_count flags s =
    s\<lparr>ss_history_buffer_size := buffer_size, ss_history_buffer_count := buffer_count, ss_history_flags := flags,
      ss_command_histories := resize_all (unat buffer_size) (ss_command_histories s)\<rparr>"

definition add_command_history_for_process :: "bool \<Rightarrow> handle \<Rightarrow> wstring \<Rightarrow> bool \<Rightarrow> ServerState \<Rightarrow> ServerState" where
  "add_command_history_for_process mem_ok p command suppress_duplicates s =
    s\<lparr>ss_command_histories := add_for_process mem_ok p command suppress_duplicates (ss_command_histories s)\<rparr>"

definition expunge_command_history :: "(wstring \<Rightarrow> wstring \<Rightarrow> bool) \<Rightarrow> wstring \<Rightarrow> ServerState \<Rightarrow> ServerState" where
  "expunge_command_history eq_ci exe_name s =
    s\<lparr>ss_command_histories := expunge_by_exe eq_ci exe_name (ss_command_histories s)\<rparr>"

definition set_command_history_number_of_commands ::
    "(wstring \<Rightarrow> wstring \<Rightarrow> bool) \<Rightarrow> wstring \<Rightarrow> nat \<Rightarrow> ServerState \<Rightarrow> ServerState" where
  "set_command_history_number_of_commands eq_ci exe_name max_commands s =
    s\<lparr>ss_command_histories := set_number_of_commands_by_exe eq_ci exe_name max_commands (ss_command_histories s)\<rparr>"

text \<open>
  The table of the executable is created first, so when the entry itself cannot be stored an
  empty table stays behind.
\<close>

definition set_alias :: "bool \<Rightarrow> bool \<Rightarrow> wstring \<Rightarrow> wstring \<Rightarrow> wstring \<Rightarrow> ServerState \<Rightarrow> DeviceCommError option \<times> ServerState" where
  "set_alias table_ok entry_ok exe_name source target s =
    (if source = [] then (Some (comm_error ''Console alias source was empty'' 87), s)
     else if target = [] then
       (None,
        case map_of (ss_aliases s) exe_name of
          None \<Rightarrow> s
        | Some table \<Rightarrow>
            if map_of table source = None then s
            else
              let table = hm_erase source table
              in s\<lparr>ss_aliases := (if table = [] then hm_erase exe_name (ss_aliases s)
                                   else hm_assign exe_name table (ss_aliases s))\<rparr>)
     else
       let failed = Some (comm_error ''Failed to store console alias data'' 14)
       in case map_of (ss_aliases s) exe_name of
            None \<Rightarrow>
              if \<not> table_ok then (failed, s)
              else if \<not> entry_ok then (failed, s\<lparr>ss_aliases := hm_assign exe_name [] (ss_aliases s)\<rparr>)
              else (None, s\<lparr>ss_aliases := hm_assign exe_name (hm_assign source target []) (ss_aliases s)\<rparr>)
          | Some table \<Rightarrow>
              if \<not> entry_ok then (failed, s)
              else (None, s\<lparr>ss_aliases := hm_assign exe_name (hm_assign source target table) (ss_aliases s)\<rparr>))"

definition try_get_alias :: "wstring \<Rightarrow> wstring \<Rightarrow> ServerState \<Rightarrow> wstring option" where
  "try_get_alias exe_name source s =
    (case map_of (ss_aliases s) exe_name of
       None \<Rightarrow> None
     | Some table \<Rightarrow>
         (case map_of table source of
            None \<Rightarrow> None
          | Some target \<Rightarrow> if target = [] then None else Some target))"

definition aliases_of :: "wstring \<Rightarrow> ServerState \<Rightarrow> (wstring \<times> wstring) list" where
  "aliases_of exe_name s = (case map_of (ss_aliases s) exe_name of None \<Rightarrow> [] | Some table \<Rightarrow> table)"

definition alias_exes :: "ServerState \<Rightarrow> wstring list" where
  "alias_exes s = hm_keys (ss_aliases s)"


section \<open>Laws of the hash maps\<close>

abbreviation hm_ok :: "('k, 'v) hash_map \<Rightarrow> bool" where
  "hm_ok m \<equiv> distinct (hm_keys m)"

lemma map_of_hm_erase [simp]: "map_of (hm_erase k m) = (map_of m)(k := None)"
  by (induction m) (auto simp: hm_erase_def fun_eq_iff)

lemma set_hm_erase: "set (hm_erase k m) = {e \<in> set m. fst e \<noteq> k}"
  by (auto simp: hm_erase_def)

lemma hm_keys_erase [simp]: "set (hm_keys (hm_erase k m)) = set (hm_keys m) - {k}"
  by (auto simp: hm_keys_def hm_erase_def)

lemma hm_ok_erase [simp]: "hm_ok m \<Longrightarrow> hm_ok (hm_erase k m)"
  by (induction m) (auto simp: hm_keys_def hm_erase_def)

lemma hm_erase_absent [simp]: "k \<notin> set (hm_keys m) \<Longrightarrow> hm_erase k m = m"
  by (auto simp: hm_erase_def hm_keys_def intro!: filter_True)

lemma map_of_None_keys: "map_of m k = None \<longleftrightarrow> k \<notin> set (hm_keys m)"
  by (simp add: hm_keys_def map_of_eq_None_iff)

lemma hm_keys_Cons [simp]: "hm_keys (e # m) = fst e # hm_keys m"
  by (simp add: hm_keys_def)

lemma hm_keys_Nil [simp]: "hm_keys [] = []"
  by (simp add: hm_keys_def)

lemma hm_keys_filter: "set (hm_keys (filter P m)) \<subseteq> set (hm_keys m)"
  by (auto simp: hm_keys_def)

lemma hm_ok_filter [simp]: "hm_ok m \<Longrightarrow> hm_ok (filter P m)"
  by (induction m) (auto simp: hm_keys_def)

lemma hm_keys_assign: "hm_keys (hm_assign k v m) = (if k \<in> set (hm_keys m) then hm_keys m else k # hm_keys m)"
  by (auto simp: hm_assign_def map_of_None_keys) (auto simp: hm_keys_def)

lemma hm_ok_assign [simp]: "hm_ok m \<Longrightarrow> hm_ok (hm_assign k v m)"
  by (simp add: hm_keys_assign)

lemma map_of_hm_assign [simp]: "map_of (hm_assign k v m) = (map_of m)(k \<mapsto> v)"
proof -
  have "map_of (map (\<lambda>e. if fst e = k then (k, v) else e) m) x = (if x = k \<and> map_of m k \<noteq> None then Some v else map_of m x)" for x
    by (induction m) auto
  then show ?thesis by (auto simp: hm_assign_def fun_eq_iff)
qed

lemma set_hm_assign: "set (hm_assign k v m) \<subseteq> insert (k, v) {e \<in> set m. fst e \<noteq> k}"
  by (auto simp: hm_assign_def map_of_eq_None_iff)

lemma map_of_in_set: "hm_ok m \<Longrightarrow> map_of m k = Some v \<longleftrightarrow> (k, v) \<in> set m"
  by (simp add: hm_keys_def)

lemma hm_emplace_cases:
  "hm_emplace k v m = (if k \<in> set (hm_keys m) then (False, m) else (True, (k, v) # m))"
  by (simp add: hm_emplace_def map_of_None_keys)

section \<open>The alias store\<close>

text \<open>
  What a client of a keyed store relies on: an invariant, and the effect of every event on what
  lookups return. A run of events is then a run of updates of a partial function.
\<close>

locale keyed_store =
  fixes lookup :: "'t \<Rightarrow> 'k \<Rightarrow> 'v option"
    and step :: "'t \<Rightarrow> 'e \<Rightarrow> 't"
    and effect :: "('k \<Rightarrow> 'v option) \<Rightarrow> 'e \<Rightarrow> 'k \<Rightarrow> 'v option"
    and store_inv :: "'t \<Rightarrow> bool"
  assumes step_inv: "store_inv t \<Longrightarrow> store_inv (step t e)"
    and lookup_step: "store_inv t \<Longrightarrow> lookup (step t e) = effect (lookup t) e"
begin

lemma run_inv: "store_inv t \<Longrightarrow> store_inv (foldl step t es)"
  by (induction es arbitrary: t) (auto intro: step_inv)

lemma lookup_run: "store_inv t \<Longrightarrow> lookup (foldl step t es) = foldl effect (lookup t) es"
  by (induction es arbitrary: t) (simp_all add: lookup_step step_inv)

lemma untouched:
  assumes "store_inv t" and "\<And>m e. e \<in> set es \<Longrightarrow> effect m e k = m k"
  shows "lookup (foldl step t es) k = lookup t k"
  using assms by (induction es arbitrary: t) (auto simp: lookup_step step_inv)

end

text \<open>
  An event: how the allocations went, the executable, the alias and its target. The table of the
  executable may not be stored, or it is and the entry is not; \<open>alias_outcomes\<close> below shows that there are no
  further cases.
\<close>

datatype alias_memory = AliasStored | EntryFailed | TableFailed

type_synonym alias_event = "alias_memory \<times> wstring \<times> wstring \<times> wstring"

definition alias_step :: "ServerState \<Rightarrow> alias_event \<Rightarrow> ServerState" where
  "alias_step s = (\<lambda>(mem, exe, source, target). snd (set_alias (mem \<noteq> TableFailed) (mem = AliasStored) exe source target s))"

definition alias_effect :: "(wstring \<times> wstring \<Rightarrow> wstring option) \<Rightarrow> alias_event \<Rightarrow> wstring \<times> wstring \<Rightarrow> wstring option" where
  "alias_effect m = (\<lambda>(mem, exe, source, target).
    if source = [] then m
    else if target = [] then m((exe, source) := None)
    else if mem = AliasStored then m((exe, source) \<mapsto> target) else m)"

lemma alias_outcomes: "\<exists>mem. snd (set_alias table_ok entry_ok exe source target s) = alias_step s (mem, exe, source, target)"
proof -
  have "snd (set_alias table_ok entry_ok exe source target s) =
      alias_step s (if \<not> table_ok \<and> map_of (ss_aliases s) exe = None then TableFailed else if entry_ok then AliasStored else EntryFailed,
        exe, source, target)"
    by (auto simp: alias_step_def set_alias_def Let_def split: option.split)
  then show ?thesis by blast
qed

definition alias_table_ok :: "(wstring, wstring) hash_map \<Rightarrow> bool" where
  "alias_table_ok table \<longleftrightarrow> hm_ok table \<and> (\<forall>(source, target) \<in> set table. source \<noteq> [] \<and> target \<noteq> [])"

definition aliases_ok :: "ServerState \<Rightarrow> bool" where
  "aliases_ok s \<longleftrightarrow> hm_ok (ss_aliases s) \<and> (\<forall>(exe, table) \<in> set (ss_aliases s). alias_table_ok table)"

definition aliases_tidy :: "ServerState \<Rightarrow> bool" where
  "aliases_tidy s \<longleftrightarrow> aliases_ok s \<and> (\<forall>(exe, table) \<in> set (ss_aliases s). table \<noteq> [])"

abbreviation alias_lookup :: "ServerState \<Rightarrow> wstring \<times> wstring \<Rightarrow> wstring option" where
  "alias_lookup s \<equiv> \<lambda>(exe, source). try_get_alias exe source s"

lemma alias_table_ok_simps [simp]:
  "alias_table_ok []"
  "alias_table_ok table \<Longrightarrow> alias_table_ok (hm_erase source table)"
  "alias_table_ok table \<Longrightarrow> source \<noteq> [] \<Longrightarrow> target \<noteq> [] \<Longrightarrow> alias_table_ok (hm_assign source target table)"
  using set_hm_assign [of source target table] by (auto simp: alias_table_ok_def set_hm_erase)

lemma aliases_ok_assign [simp]:
  "aliases_ok s \<Longrightarrow> alias_table_ok table \<Longrightarrow> aliases_ok (s\<lparr>ss_aliases := hm_assign exe table (ss_aliases s)\<rparr>)"
  "aliases_ok s \<Longrightarrow> aliases_ok (s\<lparr>ss_aliases := hm_erase exe (ss_aliases s)\<rparr>)"
  using set_hm_assign [of exe table "ss_aliases s"] by (auto simp: aliases_ok_def set_hm_erase)

lemma aliases_ok_table: "aliases_ok s \<Longrightarrow> map_of (ss_aliases s) exe = Some table \<Longrightarrow> alias_table_ok table"
  by (auto simp: aliases_ok_def dest!: map_of_SomeD)

lemma set_alias_ok: "aliases_ok s \<Longrightarrow> aliases_ok (snd (set_alias table_ok entry_ok exe source target s))"
  by (auto simp: set_alias_def Let_def aliases_ok_table split: option.splits)

lemma aliases_tidy_assign:
  "aliases_tidy s \<Longrightarrow> alias_table_ok table \<Longrightarrow> table \<noteq> [] \<Longrightarrow> aliases_tidy (s\<lparr>ss_aliases := hm_assign exe table (ss_aliases s)\<rparr>)"
  "aliases_tidy s \<Longrightarrow> aliases_tidy (s\<lparr>ss_aliases := hm_erase exe (ss_aliases s)\<rparr>)"
  using set_hm_assign [of exe table "ss_aliases s"] by (auto simp: aliases_tidy_def set_hm_erase)

lemma hm_assign_nonempty [simp]: "hm_assign k v m \<noteq> []"
  by (auto simp: hm_assign_def)

lemma aliases_tidy_table:
  "aliases_tidy s \<Longrightarrow> map_of (ss_aliases s) exe = Some table \<Longrightarrow> alias_table_ok table"
  using aliases_ok_table [of s exe table] by (simp add: aliases_tidy_def)

lemma set_alias_tidy:
  "aliases_tidy s \<Longrightarrow> table_ok \<longrightarrow> entry_ok \<Longrightarrow> aliases_tidy (snd (set_alias table_ok entry_ok exe source target s))"
  by (auto simp: set_alias_def Let_def aliases_tidy_assign aliases_tidy_table split: option.splits)

lemma alias_step_lookup:
  assumes "aliases_ok s"
  shows "alias_lookup (alias_step s (mem, exe, source, target)) = alias_effect (alias_lookup s) (mem, exe, source, target)"
proof -
  have erased: "hm_erase source table = [] \<Longrightarrow> map_of table x = Some v \<Longrightarrow> x = source" for table x and v :: wstring
    using map_of_SomeD [of table x v] by (auto simp: hm_erase_def filter_empty_conv)
  show ?thesis
    by (auto simp: fun_eq_iff alias_step_def set_alias_def alias_effect_def try_get_alias_def Let_def dest: erased split: option.splits)
qed

interpretation aliases: keyed_store alias_lookup alias_step alias_effect aliases_ok
proof
  fix s :: ServerState and e :: alias_event
  assume ok: "aliases_ok s"
  show "aliases_ok (alias_step s e)" using set_alias_ok [OF ok] by (simp add: alias_step_def split: prod.split)
  show "alias_lookup (alias_step s e) = alias_effect (alias_lookup s) e"
    using alias_step_lookup [OF ok] by (cases e) simp
qed

text \<open>An empty table is left behind only by an entry that could not be stored.\<close>

lemma alias_run_tidy:
  assumes "aliases_tidy s" and "list_all (\<lambda>e. fst e \<noteq> EntryFailed) es"
  shows "aliases_tidy (foldl alias_step s es)"
  using assms
proof (induction es arbitrary: s)
  case (Cons e es)
  obtain mem exe source target where e: "e = (mem, exe, source, target)" by (cases e) auto
  have "aliases_tidy (alias_step s e)"
    using Cons.prems e set_alias_tidy [of s "mem \<noteq> TableFailed" "mem = AliasStored"] by (cases mem) (simp_all add: alias_step_def)
  then show ?case using Cons by simp
qed simp

lemma alias_entries:
  assumes "aliases_ok s"
  shows "(source, target) \<in> set (aliases_of exe s) \<longleftrightarrow> try_get_alias exe source s = Some target"
proof (cases "map_of (ss_aliases s) exe")
  case None
  then show ?thesis by (simp add: aliases_of_def try_get_alias_def)
next
  case (Some table)
  then have t: "alias_table_ok table" using aliases_ok_table assms by blast
  then have "(source, target) \<in> set table \<longleftrightarrow> map_of table source = Some target"
    by (simp add: alias_table_ok_def map_of_in_set)
  with t Some show ?thesis
    by (auto simp: aliases_of_def try_get_alias_def alias_table_ok_def dest!: map_of_SomeD split: option.splits)
qed

lemma alias_exes_used:
  assumes "aliases_tidy s"
  shows "exe \<in> set (alias_exes s) \<longleftrightarrow> (\<exists>source target. try_get_alias exe source s = Some target)"
proof
  assume "exe \<in> set (alias_exes s)"
  then have "map_of (ss_aliases s) exe \<noteq> None" by (simp add: alias_exes_def map_of_None_keys)
  then obtain table where t: "map_of (ss_aliases s) exe = Some table" by blast
  then have "table \<noteq> []" using assms by (auto simp: aliases_tidy_def dest!: map_of_SomeD)
  then obtain source target where "(source, target) \<in> set table" by (metis list.set_intros(1) neq_Nil_conv surj_pair)
  then show "\<exists>source target. try_get_alias exe source s = Some target"
    using alias_entries [of s source target exe] assms t by (auto simp: aliases_of_def aliases_tidy_def)
next
  assume "\<exists>source target. try_get_alias exe source s = Some target"
  then have "map_of (ss_aliases s) exe \<noteq> None" by (cases "map_of (ss_aliases s) exe") (auto simp: try_get_alias_def)
  then show "exe \<in> set (alias_exes s)" by (simp add: alias_exes_def map_of_None_keys)
qed

lemma aliases_tidy_ctor [simp]: "aliases_tidy (ServerState_ctor oem_cp m f)"
  by (simp add: aliases_tidy_def aliases_ok_def ServerState_ctor_def Let_def)

lemma alias_lookup_ctor [simp]: "try_get_alias exe source (ServerState_ctor oem_cp m f) = None"
  by (simp add: try_get_alias_def ServerState_ctor_def Let_def)

text \<open>
  C37. The alias store is a partial function: after any sequence of alias definitions and removals
  on a fresh server, with any allocation failures, an alias of an executable has exactly the
  target the last effective request gave it, the listing of an executable shows exactly its
  aliases, each once, and the listing of executables shows each one that has an alias once; it shows
  exactly those unless an entry could not be stored after the table of its executable had been.
\<close>

theorem alias_store_refines:
  "let s = foldl alias_step (ServerState_ctor oem_cp m f) es; store = foldl alias_effect (\<lambda>_. None) es
   in try_get_alias exe source s = store (exe, source)
    \<and> set (aliases_of exe s) = {(source, target). store (exe, source) = Some target} \<and> distinct (map fst (aliases_of exe s))
    \<and> {exe. \<exists>source. store (exe, source) \<noteq> None} \<subseteq> set (alias_exes s) \<and> distinct (alias_exes s)
    \<and> (list_all (\<lambda>e. fst e \<noteq> EntryFailed) es \<longrightarrow> set (alias_exes s) = {exe. \<exists>source. store (exe, source) \<noteq> None})"
proof -
  define s where "s = foldl alias_step (ServerState_ctor oem_cp m f) es"
  have start: "aliases_ok (ServerState_ctor oem_cp m f)" using aliases_tidy_ctor [of oem_cp m f] by (simp add: aliases_tidy_def del: aliases_tidy_ctor)
  have ok: "aliases_ok s" unfolding s_def by (rule aliases.run_inv [OF start])
  have "alias_lookup s = foldl alias_effect (alias_lookup (ServerState_ctor oem_cp m f)) es"
    unfolding s_def by (rule aliases.lookup_run [OF start])
  also have "alias_lookup (ServerState_ctor oem_cp m f) = (\<lambda>_. None)" by (simp add: fun_eq_iff)
  finally have look: "foldl alias_effect (\<lambda>_. None) es (x, y) = try_get_alias x y s" for x y
    by (metis (no_types, lifting) case_prod_conv)
  have "distinct (map fst (aliases_of exe s))"
    using aliases_ok_table [OF ok, of exe]
    by (auto simp: aliases_of_def alias_table_ok_def hm_keys_def split: option.splits)
  moreover have "distinct (alias_exes s)" using ok by (simp add: aliases_ok_def alias_exes_def)
  moreover have "{exe. \<exists>source. try_get_alias exe source s \<noteq> None} \<subseteq> set (alias_exes s)"
  proof -
    have "exe \<in> set (alias_exes s)" if "try_get_alias exe source s \<noteq> None" for exe source
      using that map_of_None_keys [of "ss_aliases s" exe] by (cases "map_of (ss_aliases s) exe") (simp_all add: try_get_alias_def alias_exes_def)
    then show ?thesis by blast
  qed
  moreover have "set (alias_exes s) = {exe. \<exists>source. try_get_alias exe source s \<noteq> None}" if "list_all (\<lambda>e. fst e \<noteq> EntryFailed) es"
  proof -
    have "aliases_tidy s" unfolding s_def using that by (intro alias_run_tidy) simp_all
    then show ?thesis using alias_exes_used by blast
  qed
  moreover have "set (aliases_of exe s) = {(source, target). try_get_alias exe source s = Some target}"
    using alias_entries [OF ok] by auto
  ultimately show ?thesis by (simp add: s_def [symmetric] Let_def look)
qed

theorem alias_store_refines_witness:
  "let es = [(AliasStored, [0x61], [0x78], [0x79]), (TableFailed, [0x62], [0x78], [0x79]), (AliasStored, [0x61], [0x7A], [0x79]),
             (AliasStored, [0x61], [0x7A], [])]
   in set (alias_exes (foldl alias_step (ServerState_ctor 437 True True) es)) = {[0x61]}"
  using alias_store_refines [of 437 True True "[(AliasStored, [0x61], [0x78], [0x79]), (TableFailed, [0x62], [0x78], [0x79]),
      (AliasStored, [0x61], [0x7A], [0x79]), (AliasStored, [0x61], [0x7A], [])]" "[]" "[]"]
  by (auto simp: Let_def alias_effect_def)

section \<open>The invariant of the server\<close>

text \<open>
  Every handle belongs to a connected process; an output handle refers to a screen buffer that
  exists; a command history in use belongs to a connected process; all the parts are well-formed.
\<close>

definition screen_ref :: "ServerState \<Rightarrow> nat option \<Rightarrow> bool" where
  "screen_ref s r \<longleftrightarrow> pred_option (\<lambda>i. i < length (ss_screens s)) r"

definition reader_ok :: "InputHandle \<Rightarrow> bool" where
  "reader_ok ih \<longleftrightarrow> pending_inv (ih_pending_bytes ih)"

lemma reader_ok_new: "reader_ok new_input_handle"
  by (simp add: reader_ok_def new_input_handle_def pending_defs)

definition object_ok :: "ServerState \<Rightarrow> ObjectHandle \<Rightarrow> bool" where
  "object_ok s ob \<longleftrightarrow> ob_owning_process ob \<in> set (hm_keys (ss_processes s)) \<and> screen_ref s (ob_screen_buffer ob)
    \<and> (ob_kind ob = K_output \<longrightarrow> ob_screen_buffer ob \<noteq> None) \<and> reader_ok (ob_input ob)"

definition tables_ok :: "ServerState \<Rightarrow> bool" where
  "tables_ok s \<longleftrightarrow> hm_ok (ss_processes s) \<and> hm_ok (ss_objects s)
    \<and> (\<forall>(p, process) \<in> set (ss_processes s). pr_process_handle process = p)
    \<and> (\<forall>(h, ob) \<in> set (ss_objects s). object_ok s ob)"

definition screens_ok :: "ServerState \<Rightarrow> bool" where
  "screens_ok s \<longleftrightarrow> (\<forall>sb \<in> set (ss_screens s). screen_ok sb)
    \<and> screen_ref s (ss_main_screen_buffer s) \<and> screen_ref s (ss_active_screen_buffer s)"

definition histories_ok :: "ServerState \<Rightarrow> bool" where
  "histories_ok s \<longleftrightarrow> pool_ok (ss_command_histories s)
    \<and> set (owners (ss_command_histories s)) \<subseteq> set (hm_keys (ss_processes s))"

definition server_ok :: "ServerState \<Rightarrow> bool" where
  "server_ok s \<longleftrightarrow> tables_ok s \<and> screens_ok s \<and> histories_ok s \<and> aliases_ok s \<and> length (ss_font_face_name s) = 32"

lemma screen_ok_ctor: "short_coord (st_buffer_size settings) \<Longrightarrow> screen_ok (ScreenBuffer_ctor settings)"
  by (simp add: screen_ok_def sb_ok_ctor) (simp add: ScreenBuffer_ctor_def Let_def)

lemma create_screen_ok:
  "create mem_ok settings = Inr sb \<Longrightarrow> short_coord (st_buffer_size settings) \<Longrightarrow> screen_ok sb"
  by (auto simp: create_def screen_ok_ctor split: if_splits)

lemma server_ok_ctor: "server_ok (ServerState_ctor oem_cp m f)"
  by (auto simp: server_ok_def tables_ok_def screens_ok_def screen_ref_def histories_ok_def pool_ok_def owners_def
      aliases_ok_def ServerState_ctor_def default_face_name_def Let_def short_coord_def default_settings_def
      intro!: create_screen_ok split: sum.splits)

text \<open>What the parts of the invariant depend on.\<close>

lemma object_ok_mono:
  assumes "object_ok s ob" and "set (hm_keys (ss_processes s)) \<subseteq> set (hm_keys (ss_processes s'))"
    and "length (ss_screens s) \<le> length (ss_screens s')"
  shows "object_ok s' ob"
  using assms by (auto simp: object_ok_def screen_ref_def option.pred_set)

lemma tables_ok_cong:
  assumes "ss_processes s' = ss_processes s" and "ss_objects s' = ss_objects s" and "length (ss_screens s) \<le> length (ss_screens s')"
    and "tables_ok s"
  shows "tables_ok s'"
  using assms object_ok_mono [of s _ s'] by (fastforce simp: tables_ok_def)

lemma hm_assign_head: "k \<notin> set (hm_keys m) \<Longrightarrow> hm_assign k v ((k, w) # m) = (k, v) # m"
  by (induction m) (auto simp: hm_assign_def)

lemma hm_erase_head: "k \<notin> set (hm_keys m) \<Longrightarrow> hm_erase k ((k, v) # m) = m"
  using hm_erase_absent [of k m] by (simp add: hm_erase_def)

text \<open>The fields the invariant does not mention.\<close>

lemma server_ok_frame [simp]:
  "server_ok (s\<lparr>ss_input_mode := x\<rparr>) = server_ok s" "server_ok (s\<lparr>ss_output_mode := x\<rparr>) = server_ok s"
  "server_ok (s\<lparr>ss_input_code_page := x\<rparr>) = server_ok s" "server_ok (s\<lparr>ss_output_code_page := x\<rparr>) = server_ok s"
  "server_ok (s\<lparr>ss_title := w\<rparr>) = server_ok s" "server_ok (s\<lparr>ss_original_title := w\<rparr>) = server_ok s"
  "server_ok (s\<lparr>ss_history_buffer_size := x\<rparr>) = server_ok s" "server_ok (s\<lparr>ss_history_buffer_count := x\<rparr>) = server_ok s"
  "server_ok (s\<lparr>ss_history_flags := x\<rparr>) = server_ok s" "server_ok (s\<lparr>ss_font_index := x\<rparr>) = server_ok s"
  "server_ok (s\<lparr>ss_font_size := c\<rparr>) = server_ok s" "server_ok (s\<lparr>ss_font_family := x\<rparr>) = server_ok s"
  "server_ok (s\<lparr>ss_font_weight := x\<rparr>) = server_ok s" "server_ok (s\<lparr>ss_cursor_blink := b\<rparr>) = server_ok s"
  "server_ok (s\<lparr>ss_cursor_db_enable := b\<rparr>) = server_ok s" "server_ok (s\<lparr>ss_nls_mode := x\<rparr>) = server_ok s"
  "server_ok (s\<lparr>ss_menu_close := b\<rparr>) = server_ok s" "server_ok (s\<lparr>ss_key_shortcuts_enabled := b\<rparr>) = server_ok s"
  "server_ok (s\<lparr>ss_reserved_keys := y\<rparr>) = server_ok s" "server_ok (s\<lparr>ss_os2_registered := b\<rparr>) = server_ok s"
  "server_ok (s\<lparr>ss_os2_oem_format := b\<rparr>) = server_ok s" "server_ok (s\<lparr>ss_next_connect_sequence := n\<rparr>) = server_ok s"
  by (simp_all add: server_ok_def tables_ok_def object_ok_def screens_ok_def screen_ref_def histories_ok_def aliases_ok_def)

section \<open>Connections\<close>

lemma create_object_cases:
  obtains (failed) e where "create_object alloc ob s = (Inl e, s)"
  | (created) h ob' where "create_object alloc ob s = (Inr h, s\<lparr>ss_objects := (h, ob') # ss_objects s\<rparr>)"
      "h \<notin> set (hm_keys (ss_objects s))"
      "ob' = ob\<lparr>ob_screen_buffer := (if ob_kind ob = K_output \<and> ob_screen_buffer ob = None then ss_active_screen_buffer s else ob_screen_buffer ob)\<rparr>"
      "ob_kind ob = K_output \<longrightarrow> ob_screen_buffer ob' \<noteq> None" "alloc = Allocated h True"
proof (cases alloc)
  case AllocFailed
  then have "fst (create_object alloc ob s) = Inl (comm_error ''Output handle created without an active screen buffer'' 5023)
      \<or> fst (create_object alloc ob s) = Inl (comm_error ''Failed to allocate ObjectHandle'' 14)"
    and "snd (create_object alloc ob s) = s" by (simp_all add: create_object_def Let_def)
  then show ?thesis using failed by (metis prod.collapse)
next
  case (Allocated h node_ok)
  define ob' where "ob' = ob\<lparr>ob_screen_buffer := (if ob_kind ob = K_output \<and> ob_screen_buffer ob = None then ss_active_screen_buffer s else ob_screen_buffer ob)\<rparr>"
  have "(if ob_kind ob = K_output \<and> ob_screen_buffer ob = None then ob\<lparr>ob_screen_buffer := ss_active_screen_buffer s\<rparr> else ob) = ob'"
    by (simp add: ob'_def)
  then have "create_object alloc ob s =
      (if ob_kind ob = K_output \<and> ob_screen_buffer ob' = None then (Inl (comm_error ''Output handle created without an active screen buffer'' 5023), s)
       else if \<not> node_ok then (Inl (comm_error ''Failed to insert object handle'' 14), s)
       else if h \<in> set (hm_keys (ss_objects s)) then (Inl (comm_error ''Object handle already existed'' 183), s)
       else (Inr h, s\<lparr>ss_objects := (h, ob') # ss_objects s\<rparr>))"
    unfolding create_object_def Let_def Allocated by (auto simp: hm_emplace_cases ob'_def)
  then show ?thesis using failed created [OF _ _ ob'_def] Allocated by (auto split: if_splits)
qed

lemma create_object_ok:
  assumes "server_ok s" and "ob_owning_process ob \<in> set (hm_keys (ss_processes s))" and "screen_ref s (ob_screen_buffer ob)"
    and "reader_ok (ob_input ob)"
  shows "server_ok (snd (create_object alloc ob s))"
proof (cases rule: create_object_cases [of alloc ob s])
  case (created h ob')
  then have "object_ok s ob'"
    using assms by (auto simp: object_ok_def server_ok_def screens_ok_def)
  then have "object_ok (s\<lparr>ss_objects := (h, ob') # ss_objects s\<rparr>) ob'" by (rule object_ok_mono) simp_all
  moreover have "object_ok (s\<lparr>ss_objects := (h, ob') # ss_objects s\<rparr>) x = object_ok s x" for x
    by (simp add: object_ok_def screen_ref_def)
  ultimately show ?thesis
    using assms created by (simp add: server_ok_def tables_ok_def screens_ok_def screen_ref_def histories_ok_def aliases_ok_def)
qed (simp add: assms)

definition connected_output :: "handle \<Rightarrow> ServerState \<Rightarrow> ObjectHandle" where
  "connected_output p s = (new_object K_output 0xC0000000 3 p)\<lparr>ob_screen_buffer := ss_active_screen_buffer s\<rparr>"

definition connected_state ::
    "(wstring \<Rightarrow> wstring \<Rightarrow> bool) \<Rightarrow> connect_memory \<Rightarrow> ulong \<Rightarrow> ulong \<Rightarrow> wstring \<Rightarrow> handle \<Rightarrow> handle \<Rightarrow> handle \<Rightarrow> ServerState \<Rightarrow> ServerState" where
  "connected_state eq_ci mem pid tid app_name p i out s =
    s\<lparr>ss_processes := (p, \<lparr>pr_pid = pid, pr_tid = tid, pr_connect_sequence = ss_next_connect_sequence s, pr_process_handle = p,
        pr_input_handle = i, pr_output_handle = out\<rparr>) # ss_processes s,
      ss_objects := (out, connected_output p s) # (i, new_object K_input 0xC0000000 3 p) # ss_objects s,
      ss_command_histories := allocate_for_process eq_ci (cm_name mem) (cm_history mem) app_name p
        (unat (ss_history_buffer_count s)) (unat (ss_history_buffer_size s)) (ss_command_histories s),
      ss_next_connect_sequence := ss_next_connect_sequence s + 1\<rparr>"

lemma connect_client_cases:
  obtains (failed) e s' where "connect_client eq_ci mem pid tid app_name s = (Inl e, s')"
      "s' = s \<or> s' = s\<lparr>ss_next_connect_sequence := ss_next_connect_sequence s + 1\<rparr>"
  | (connected) p i out where
      "connect_client eq_ci mem pid tid app_name s =
        (Inr \<lparr>ci_process = p, ci_input = i, ci_output = out\<rparr>, connected_state eq_ci mem pid tid app_name p i out s)"
      "p \<notin> set (hm_keys (ss_processes s))" "i \<notin> set (hm_keys (ss_objects s))" "out \<notin> set (hm_keys (ss_objects s))" "out \<noteq> i"
      "ss_active_screen_buffer s \<noteq> None" "cm_process mem = Allocated p True" "cm_input mem = Allocated i True" "cm_output mem = Allocated out True"
proof (cases "cm_process mem")
  case AllocFailed
  then show ?thesis using failed by (auto simp: connect_client_def)
next
  case p: (Allocated p node_ok)
  define process where "process = \<lparr>pr_pid = pid, pr_tid = tid, pr_connect_sequence = ss_next_connect_sequence s,
    pr_process_handle = p, pr_input_handle = 0, pr_output_handle = 0\<rparr>"
  define s1 where "s1 = s\<lparr>ss_next_connect_sequence := ss_next_connect_sequence s + 1\<rparr>"
  define s2 where "s2 = s1\<lparr>ss_processes := (p, process) # ss_processes s\<rparr>"
  show ?thesis
  proof (cases "node_ok \<and> p \<notin> set (hm_keys (ss_processes s))")
    case False
    then have "\<exists>e. connect_client eq_ci mem pid tid app_name s = (Inl e, s1)"
      by (auto simp: connect_client_def p Let_def hm_emplace_cases s1_def)
    then show ?thesis using failed s1_def by blast
  next
    case True
    have undo: "erase_process p s2 = s1" using True by (simp add: erase_process_def s2_def s1_def hm_erase_head)
    show ?thesis
    proof (cases rule: create_object_cases [of "cm_input mem" "new_object K_input 0xC0000000 3 p" s2])
      case (failed e)
      then have "connect_client eq_ci mem pid tid app_name s = (Inl e, s1)"
        using True undo by (simp add: connect_client_def p Let_def hm_emplace_cases s1_def s2_def process_def)
      then show ?thesis using that(1) s1_def by blast
    next
      case (created i ob)
      then have ob: "ob = new_object K_input 0xC0000000 3 p" by (simp add: new_object_def)
      define s3 where "s3 = s2\<lparr>ss_objects := (i, ob) # ss_objects s2\<rparr>"
      have i: "i \<notin> set (hm_keys (ss_objects s))" using created(2) by (simp add: s2_def s1_def)
      show ?thesis
      proof (cases rule: create_object_cases [of "cm_output mem" "new_object K_output 0xC0000000 3 p" s3])
        case (failed e)
        have "erase_process p (snd (close_object i s3)) = s1"
          using undo i by (simp add: close_object_def s3_def hm_erase_head s2_def s1_def)
        then have "connect_client eq_ci mem pid tid app_name s = (Inl e, s1)"
          using True created(1) failed
          by (simp add: connect_client_def p Let_def hm_emplace_cases s1_def s2_def s3_def process_def)
        then show ?thesis using that(1) s1_def by blast
      next
        case out: (created out ob')
        have ob': "ob' = connected_output p s"
          using out(3) by (simp add: connected_output_def new_object_def s3_def s2_def s1_def)
        have "connect_client eq_ci mem pid tid app_name s =
            (Inr \<lparr>ci_process = p, ci_input = i, ci_output = out\<rparr>, connected_state eq_ci mem pid tid app_name p i out s)"
          using True created(1) out(1)
          by (simp add: connect_client_def p Let_def hm_emplace_cases s1_def s2_def s3_def process_def hm_assign_head
              connected_state_def ob ob')
        moreover have "ss_active_screen_buffer s \<noteq> None"
          using out(4) ob' by (simp add: connected_output_def new_object_def)
        ultimately show ?thesis
          using that(2) [of p i out] True i out(2,5) created(5) p by (simp add: s3_def s2_def s1_def)
      qed
    qed
  qed
qed

subsection \<open>Every operation keeps the invariant\<close>

lemma pool_step_owner_set:
  "set (owners (pool_step eq_ci pool op)) \<subseteq>
    (case op of Allocate _ _ _ p _ _ \<Rightarrow> insert p (set (owners pool)) | _ \<Rightarrow> set (owners pool))"
proof (cases op)
  case (Allocate name_ok node_ok app_name p mh dm)
  then show ?thesis using owners_allocate [of eq_ci name_ok node_ok app_name p mh dm pool] by auto
next
  case (SetNumber exe n)
  show ?thesis
  proof (cases "find_index (live_exe eq_ci exe) pool")
    case (Some i)
    then have "mset (owners (move_front i (pool[i := realloc n (pool ! i)]))) = mset (owners pool)"
      by (intro owners_move_update) (simp_all add: find_index_Some)
    then have "set (owners (move_front i (pool[i := realloc n (pool ! i)]))) = set (owners pool)" by (metis set_mset_mset)
    then show ?thesis using SetNumber Some by (simp add: set_number_of_commands_by_exe_def)
  qed (use SetNumber in \<open>simp add: set_number_of_commands_by_exe_def\<close>)
next
  case (ResizeAll n)
  then show ?thesis by (simp add: resize_all_def owners_def filter_map o_def)
next
  case (FreeFor p)
  then show ?thesis by (simp add: owners_free set_remove1_subset)
qed (simp_all add: expunge_by_exe_def add_for_process_def owners_update_first)

lemma server_ok_pool:
  assumes "server_ok s" and "case op of Allocate _ _ _ _ _ _ \<Rightarrow> False | _ \<Rightarrow> True"
  shows "server_ok (s\<lparr>ss_command_histories := pool_step eq_ci (ss_command_histories s) op\<rparr>)"
proof -
  let ?pool = "ss_command_histories s"
  have "set (owners (pool_step eq_ci ?pool op)) \<subseteq> set (owners ?pool)"
    using pool_step_owner_set [of eq_ci ?pool op] assms(2) by (cases op) auto
  moreover have "fresh_op ?pool op" using assms(2) by (cases op) (auto simp: fresh_op_def)
  ultimately have "histories_ok (s\<lparr>ss_command_histories := pool_step eq_ci ?pool op\<rparr>)"
    using assms(1) pool_step_ok [of ?pool op eq_ci] by (auto simp: server_ok_def histories_ok_def)
  then show ?thesis
    using assms(1) by (simp add: server_ok_def tables_ok_def object_ok_def screens_ok_def screen_ref_def aliases_ok_def)
qed

lemmas server_ok_pool_ops [simp] =
  server_ok_pool [of _ "ResizeAll n" for n, simplified] server_ok_pool [of _ "FreeFor p" for p, simplified]
  server_ok_pool [of _ "Expunge exe" for exe, simplified] server_ok_pool [of _ "SetNumber exe n" for exe n, simplified]
  server_ok_pool [of _ "AddCommand mem_ok p command sd" for mem_ok p command sd, simplified]

lemma erase_process_ok:
  assumes "server_ok s" and "p \<notin> set (owners (ss_command_histories s))"
    and "\<And>h ob. (h, ob) \<in> set (ss_objects s) \<Longrightarrow> ob_owning_process ob \<noteq> p"
  shows "server_ok (erase_process p s)"
  using assms unfolding server_ok_def tables_ok_def histories_ok_def
  by (fastforce simp: erase_process_def object_ok_def screens_ok_def screen_ref_def aliases_ok_def set_hm_erase)

lemma owners_after_free: "pool_ok pool \<Longrightarrow> p \<notin> set (owners (free_for_process p pool))"
  by (simp add: owners_free pool_ok_def)

lemma filter_objects_ok: "server_ok s \<Longrightarrow> server_ok (s\<lparr>ss_objects := filter P (ss_objects s)\<rparr>)"
  by (auto simp: server_ok_def tables_ok_def object_ok_def screens_ok_def screen_ref_def histories_ok_def aliases_ok_def)

lemma disconnect_client_ok: "server_ok s \<Longrightarrow> server_ok (snd (disconnect_client p s))"
proof -
  assume ok: "server_ok s"
  then have "p \<notin> set (owners (free_for_process p (ss_command_histories s)))"
    by (simp add: owners_after_free server_ok_def histories_ok_def)
  moreover have "server_ok (s\<lparr>ss_command_histories := free_for_process p (ss_command_histories s)\<rparr>)" using ok by simp
  from filter_objects_ok [OF this]
  have "server_ok (s\<lparr>ss_command_histories := free_for_process p (ss_command_histories s),
      ss_objects := filter (\<lambda>(_, ob). ob_owning_process ob \<noteq> p) (ss_objects s)\<rparr>)" by simp
  ultimately show ?thesis using ok by (auto simp: disconnect_client_def Let_def intro!: erase_process_ok)
qed

lemma close_object_ok: "server_ok s \<Longrightarrow> server_ok (snd (close_object h s))"
  by (simp add: close_object_def hm_erase_def filter_objects_ok)

lemma connected_state_ok:
  assumes "server_ok s" and "p \<notin> set (hm_keys (ss_processes s))" and "i \<notin> set (hm_keys (ss_objects s))"
    and "out \<notin> set (hm_keys (ss_objects s))" and "out \<noteq> i" and "ss_active_screen_buffer s \<noteq> None"
  shows "server_ok (connected_state eq_ci mem pid tid app_name p i out s)"
proof -
  let ?s = "connected_state eq_ci mem pid tid app_name p i out s" and ?pool = "ss_command_histories s"
  let ?op = "Allocate (cm_name mem) (cm_history mem) app_name p (unat (ss_history_buffer_count s)) (unat (ss_history_buffer_size s))"
  have fresh: "p \<notin> set (owners ?pool)" using assms(1,2) by (auto simp: server_ok_def histories_ok_def)
  have "pool_ok (pool_step eq_ci ?pool ?op)"
    by (rule pool_step_ok) (use assms(1) fresh in \<open>simp_all add: server_ok_def histories_ok_def fresh_op_def\<close>)
  then have "histories_ok ?s"
    using pool_step_owner_set [of eq_ci ?pool ?op] assms(1)
    by (auto simp: histories_ok_def connected_state_def server_ok_def)
  moreover have "object_ok ?s ob" if "(h, ob) \<in> set (ss_objects s)" for h ob
  proof (rule object_ok_mono [of s])
    show "object_ok s ob" using that assms(1) by (auto simp: server_ok_def tables_ok_def)
  qed (auto simp: connected_state_def)
  moreover note reader_ok_new
  ultimately show ?thesis
    using assms unfolding server_ok_def tables_ok_def
    by (auto simp: connected_state_def connected_output_def new_object_def object_ok_def screens_ok_def
        screen_ref_def aliases_ok_def)
qed

lemma connect_client_ok: "server_ok s \<Longrightarrow> server_ok (snd (connect_client eq_ci mem pid tid app_name s))"
proof (cases rule: connect_client_cases [of eq_ci mem pid tid app_name s])
  case (connected p i out)
  then show "server_ok s \<Longrightarrow> ?thesis" using connected_state_ok by simp
qed auto

text \<open>One screen buffer changes, or one handle changes the state of its reads.\<close>

definition update_screen :: "nat \<Rightarrow> ScreenBuffer \<Rightarrow> ServerState \<Rightarrow> ServerState" where
  "update_screen i sb s = s\<lparr>ss_screens := (ss_screens s)[i := sb]\<rparr>"

definition update_input :: "handle \<Rightarrow> InputHandle \<Rightarrow> ServerState \<Rightarrow> ServerState" where
  "update_input h ih s = s\<lparr>ss_objects := map (\<lambda>e. if fst e = h then (h, (snd e)\<lparr>ob_input := ih\<rparr>) else e) (ss_objects s)\<rparr>"

lemma update_screen_ok:
  assumes "server_ok s" and "screen_ok sb"
  shows "server_ok (update_screen i sb s)"
proof -
  have "screen_ok x" if "x \<in> set ((ss_screens s)[i := sb])" for x
    using set_update_subset_insert [of "ss_screens s" i sb] that assms by (auto simp: server_ok_def screens_ok_def)
  then show ?thesis
    using assms(1) by (simp add: server_ok_def tables_ok_def object_ok_def screens_ok_def screen_ref_def histories_ok_def aliases_ok_def
        update_screen_def)
qed

lemma hm_keys_update_input: "hm_keys (ss_objects (update_input h ih s)) = hm_keys (ss_objects s)"
  by (auto simp: update_input_def hm_keys_def)

lemma update_input_ok:
  assumes "server_ok s" and "reader_ok ih"
  shows "server_ok (update_input h ih s)"
  using assms hm_keys_update_input [of h ih s] unfolding server_ok_def tables_ok_def
  by (fastforce simp: update_input_def object_ok_def screens_ok_def screen_ref_def histories_ok_def aliases_ok_def)

lemma set_active_screen_buffer_ok:
  "server_ok s \<Longrightarrow> screen_ref s b \<Longrightarrow> server_ok (snd (set_active_screen_buffer b s))"
  by (auto simp: set_active_screen_buffer_def Let_def server_ok_def tables_ok_def object_ok_def screens_ok_def screen_ref_def
      histories_ok_def aliases_ok_def)

lemma create_blank_like_ok:
  assumes "screen_ok template" and "create_blank_like mem_ok template = Inr sb"
  shows "screen_ok sb"
  using assms unfolding create_blank_like_def
  by (elim create_screen_ok) (auto simp: screen_ok_def sb_ok_def size_ok_def short_coord_def)

lemma create_screen_buffer_like_active_ok:
  assumes "server_ok s" and "create_screen_buffer_like_active mem_ok s = (r, s')"
  shows "server_ok s' \<and> (\<forall>i. r = Inr i \<longrightarrow> i < length (ss_screens s')) \<and> ss_processes s' = ss_processes s"
proof (cases "ss_active_screen_buffer s")
  case None
  then show ?thesis using assms by (auto simp: create_screen_buffer_like_active_def)
next
  case (Some i)
  then have i: "screen_ok (ss_screens s ! i)" using assms(1) by (auto simp: server_ok_def screens_ok_def screen_ref_def)
  show ?thesis
  proof (cases "create_blank_like mem_ok (ss_screens s ! i)")
    case (Inl e)
    then show ?thesis using assms Some by (auto simp: create_screen_buffer_like_active_def)
  next
    case (Inr sb)
    then have "screen_ok sb" using create_blank_like_ok i by blast
    moreover have "tables_ok (s\<lparr>ss_screens := ss_screens s @ [sb]\<rparr>)"
      by (rule tables_ok_cong [of _ s]) (use assms(1) in \<open>simp_all add: server_ok_def\<close>)
    ultimately show ?thesis
      using assms Some Inr unfolding create_screen_buffer_like_active_def
      by (auto simp: server_ok_def screens_ok_def screen_ref_def histories_ok_def aliases_ok_def option.pred_set)
  qed
qed

lemma set_alias_server_ok: "server_ok s \<Longrightarrow> server_ok (snd (set_alias t e exe source target s))"
proof -
  assume ok: "server_ok s"
  define a where "a = ss_aliases (snd (set_alias t e exe source target s))"
  have a: "snd (set_alias t e exe source target s) = s\<lparr>ss_aliases := a\<rparr>"
    unfolding a_def by (auto simp: set_alias_def Let_def split: option.splits)
  then have "aliases_ok (s\<lparr>ss_aliases := a\<rparr>)" using ok set_alias_ok [of s t e exe source target] by (simp add: server_ok_def)
  then show ?thesis
    using ok by (simp add: a server_ok_def tables_ok_def object_ok_def screens_ok_def screen_ref_def histories_ok_def)
qed

lemma set_title_ok: "server_ok s \<Longrightarrow> server_ok (snd (set_title m t s))"
  by (simp add: set_title_def Let_def)

lemma set_title_view_ok: "server_ok s \<Longrightarrow> server_ok (snd (set_title_view m m' t s))"
  by (simp add: set_title_view_def Let_def)

lemma font_face_ok: "server_ok s \<Longrightarrow> length w = 32 \<Longrightarrow> server_ok (s\<lparr>ss_font_face_name := w\<rparr>)"
  by (simp add: server_ok_def tables_ok_def object_ok_def screens_ok_def screen_ref_def histories_ok_def aliases_ok_def)

lemma apply_current_font_ok:
  "server_ok s \<Longrightarrow> length (fm_FaceName body) = 32 \<Longrightarrow> server_ok (apply_current_font body s)"
  by (simp add: apply_current_font_def Let_def font_face_ok)

lemma set_history_info_ok: "server_ok s \<Longrightarrow> server_ok (set_history_info a b c s)"
proof -
  assume "server_ok s"
  then have "server_ok (s\<lparr>ss_history_buffer_size := a, ss_history_buffer_count := b, ss_history_flags := c\<rparr>)" by simp
  from server_ok_pool_ops(1) [OF this] show ?thesis by (simp add: set_history_info_def)
qed

section \<open>Connecting and disconnecting\<close>

lemma map_of_filter_objects:
  "hm_ok m \<Longrightarrow> map_of (filter (\<lambda>(k, v). P v) m) h = (case map_of m h of Some v \<Rightarrow> if P v then Some v else None | None \<Rightarrow> None)"
proof (induction m)
  case (Cons e m)
  show ?case
  proof (cases "fst e = h")
    case True
    then have "map_of (filter (\<lambda>(k, v). P v) m) h = None"
      using Cons.prems hm_keys_filter [of "\<lambda>(k, v). P v" m] by (auto simp: map_of_None_keys)
    then show ?thesis using True by (cases e) auto
  qed (use Cons in \<open>cases e; auto\<close>)
qed simp

lemma disconnect_tables:
  assumes "server_ok s" and "has_process p s"
  shows "fst (disconnect_client p s)"
    "find_object h (snd (disconnect_client p s)) =
      (case find_object h s of Some ob \<Rightarrow> if ob_owning_process ob = p then None else Some ob | None \<Rightarrow> None)"
    "has_process q (snd (disconnect_client p s)) \<longleftrightarrow> has_process q s \<and> q \<noteq> p"
    "find_by_process p (ss_command_histories (snd (disconnect_client p s))) = None"
proof -
  show "fst (disconnect_client p s)" using assms by (simp add: disconnect_client_def has_process_def Let_def)
  have "hm_ok (ss_objects s)" using assms(1) by (simp add: server_ok_def tables_ok_def)
  from map_of_filter_objects [OF this, of "\<lambda>ob. ob_owning_process ob \<noteq> p" h]
  show "find_object h (snd (disconnect_client p s)) =
      (case find_object h s of Some ob \<Rightarrow> if ob_owning_process ob = p then None else Some ob | None \<Rightarrow> None)"
    using assms by (auto simp: disconnect_client_def has_process_def find_object_def Let_def erase_process_def split: option.splits)
  show "has_process q (snd (disconnect_client p s)) \<longleftrightarrow> has_process q s \<and> q \<noteq> p"
    using assms by (auto simp: disconnect_client_def has_process_def Let_def erase_process_def)
  have "p \<notin> set (owners (free_for_process p (ss_command_histories s)))"
    using assms(1) by (simp add: owners_after_free server_ok_def histories_ok_def)
  then have "find_by_process p (free_for_process p (ss_command_histories s)) = None"
    by (auto simp: find_by_process_def owned_by_def owners_def find_None_iff)
  then show "find_by_process p (ss_command_histories (snd (disconnect_client p s))) = None"
    using assms by (auto simp: disconnect_client_def has_process_def Let_def erase_process_def)
qed

lemma disconnect_connected:
  assumes "server_ok s" and "p \<notin> set (hm_keys (ss_processes s))"
  shows "ss_processes (snd (disconnect_client p (connected_state eq_ci mem pid tid app_name p i out s))) = ss_processes s"
    and "ss_objects (snd (disconnect_client p (connected_state eq_ci mem pid tid app_name p i out s))) = ss_objects s"
proof -
  have "filter (\<lambda>(_, ob). ob_owning_process ob \<noteq> p) (ss_objects s) = ss_objects s"
    using assms by (intro filter_True) (auto simp: server_ok_def tables_ok_def object_ok_def)
  then show "ss_objects (snd (disconnect_client p (connected_state eq_ci mem pid tid app_name p i out s))) = ss_objects s"
    by (simp add: disconnect_client_def connected_state_def Let_def erase_process_def connected_output_def new_object_def)
  show "ss_processes (snd (disconnect_client p (connected_state eq_ci mem pid tid app_name p i out s))) = ss_processes s"
    using assms(2) by (simp add: disconnect_client_def connected_state_def Let_def erase_process_def hm_erase_head)
qed

text \<open>
  C36. A connection succeeds as a whole or not at all: when any allocation on the way fails, the
  server is as before except for the counter of connections; when it succeeds, a process that was
  not there is connected, its two standard handles are an input handle and an output handle on
  the active screen buffer that both belong to it, every older handle still means what it meant,
  and disconnecting the process gives back exactly the tables of before.
\<close>

theorem connection_all_or_nothing:
  assumes "server_ok s" and "connect_client eq_ci mem pid tid app_name s = (r, s')"
  shows "case r of
      Inl e \<Rightarrow> s'\<lparr>ss_next_connect_sequence := ss_next_connect_sequence s\<rparr> = s
    | Inr info \<Rightarrow> \<not> has_process (ci_process info) s \<and> has_process (ci_process info) s' \<and> process_count s' = process_count s + 1
        \<and> (\<exists>ob. find_object (ci_input info) s' = Some ob \<and> ob_kind ob = K_input \<and> ob_owning_process ob = ci_process info)
        \<and> (\<exists>ob. find_object (ci_output info) s' = Some ob \<and> ob_kind ob = K_output \<and> ob_owning_process ob = ci_process info
              \<and> ob_screen_buffer ob = ss_active_screen_buffer s \<and> ss_active_screen_buffer s \<noteq> None)
        \<and> (\<forall>h. find_object h s = None \<or> find_object h s' = find_object h s)
        \<and> ss_processes (snd (disconnect_client (ci_process info) s')) = ss_processes s
        \<and> ss_objects (snd (disconnect_client (ci_process info) s')) = ss_objects s"
proof (cases rule: connect_client_cases [of eq_ci mem pid tid app_name s])
  case (failed e s'')
  then show ?thesis using assms(2) by auto
next
  case (connected p i out)
  have "find_object h s = None \<or> find_object h (connected_state eq_ci mem pid tid app_name p i out s) = find_object h s" for h
    using connected(3,4) by (auto simp: find_object_def connected_state_def map_of_None_keys)
  then show ?thesis
    using connected assms disconnect_connected [OF assms(1) connected(2), of eq_ci mem pid tid app_name i out]
    by (auto simp: has_process_def process_count_def find_object_def connected_state_def connected_output_def
        new_object_def map_of_None_keys)
qed

text \<open>A server with one client at address 16, whose handles are 32 and 48.\<close>

definition plenty :: connect_memory where
  "plenty = \<lparr>cm_process = Allocated 16 True, cm_input = Allocated 32 True, cm_output = Allocated 48 True, cm_name = True, cm_history = True\<rparr>"

definition fresh_server :: ServerState where
  "fresh_server = ServerState_ctor 437 True True"

lemma fresh_server_facts:
  "server_ok fresh_server" "ss_processes fresh_server = []" "ss_objects fresh_server = []"
  "ss_active_screen_buffer fresh_server = Some 0" "ss_screens fresh_server = [ScreenBuffer_ctor default_settings]"
  by (simp_all add: fresh_server_def server_ok_ctor) (simp_all add: ServerState_ctor_def Let_def create_def)

lemma fresh_connect:
  "connect_client (=) plenty 7 8 [99] fresh_server =
    (Inr \<lparr>ci_process = 16, ci_input = 32, ci_output = 48\<rparr>, connected_state (=) plenty 7 8 [99] 16 32 48 fresh_server)"
proof (cases rule: connect_client_cases [of "(=)" plenty 7 8 "[99]" fresh_server])
  case (failed e s')
  then show ?thesis
    by (simp add: connect_client_def plenty_def fresh_server_facts hm_emplace_def Let_def create_object_def new_object_def)
next
  case (connected p i out)
  then show ?thesis by (simp add: plenty_def)
qed

theorem connection_all_or_nothing_witness:
  "has_process 16 (snd (connect_client (=) plenty 7 8 [99] fresh_server))
   \<and> ss_objects (snd (disconnect_client 16 (snd (connect_client (=) plenty 7 8 [99] fresh_server)))) = []"
  using connection_all_or_nothing [OF fresh_server_facts(1) fresh_connect]
  by (simp add: fresh_connect fresh_server_facts)

end
