(* ===== verification/Raw_Read.thy ===== *)
theory Raw_Read
  imports Input_Queue
begin

text \<open>
  Raw reads: the request \<open>console_io_raw_read\<close> of \<open>dispatch_message\<close> (\<open>condrv_server.hpp\<close>). Each turn
  of its loop looks at the first 64 bytes of the handle's stream, decodes a key sequence or takes
  one byte, and uses up what it took; an incomplete sequence suspends the request. The theory also
  holds the specification over a plain list of bytes that the loop refines.
\<close>

section \<open>The handler\<close>

abbreviation status_success :: ulong where "status_success \<equiv> 0"
abbreviation status_alerted :: ulong where "status_alerted \<equiv> 0x101"
abbreviation status_unsuccessful :: ulong where "status_unsuccessful \<equiv> 0xC0000001"
abbreviation status_invalid_parameter :: ulong where "status_invalid_parameter \<equiv> 0xC000000D"

text \<open>The answer to a request: a status with the number of bytes, or none yet.\<close>

datatype reply = Reply ulong nat | ReplyPending

record RawRead =
  rr_handle :: InputHandle
  rr_host :: HostIo
  rr_output :: "byte list"
  rr_written :: nat

datatype 's turn = Continue 's | Break 's | Return reply 's

definition raw_consume :: "nat \<Rightarrow> RawRead \<Rightarrow> RawRead" where
  "raw_consume n s =
    (let (ih, h) = consume_from_stream 16 n (rr_handle s) (rr_host s) in s\<lparr>rr_handle := ih, rr_host := h\<rparr>)"

definition raw_forward_ctrl_c :: "ulong list \<Rightarrow> RawRead \<Rightarrow> RawRead" where
  "raw_forward_ctrl_c pids s = s\<lparr>rr_host := forward_ctrl_c pids (rr_host s)\<rparr>"

text \<open>End of file: a zero at the front of the output and no bytes.\<close>

definition raw_end_of_file :: "nat \<Rightarrow> RawRead \<Rightarrow> RawRead turn" where
  "raw_end_of_file n s = (let s = raw_consume n s in Return (Reply status_success 0) (s\<lparr>rr_output := (rr_output s)[0 := 0]\<rparr>))"

definition raw_need_more :: "byte list \<Rightarrow> RawRead \<Rightarrow> RawRead turn" where
  "raw_need_more peeked s =
    (if rr_written s \<noteq> 0 then Break s
     else
       let (ih, h) = park_input peeked (rr_handle s) (rr_host s);
           s = s\<lparr>rr_handle := ih, rr_host := h\<rparr>
       in if input_disconnected (rr_host s) then Return (Reply status_unsuccessful 0) s else Return ReplyPending s)"

text \<open>
  \<open>narrow\<close> is \<open>WideCharToMultiByte\<close> on one unit and the input code page; it gives no bytes when it
  fails. The scratch array holds 16 bytes.
\<close>

definition raw_store_char :: "(wchar \<Rightarrow> byte list) \<Rightarrow> nat \<Rightarrow> wchar \<Rightarrow> RawRead \<Rightarrow> RawRead turn" where
  "raw_store_char narrow n value s =
    (let remaining = length (rr_output s) - rr_written s; encoded = narrow value; required = length encoded
     in if required = 0 then Return (Reply status_invalid_parameter 0) s
        else if required > remaining then Break s
        else if required > 16 then Return (Reply status_invalid_parameter 0) s
        else Continue (raw_consume n
          (s\<lparr>rr_output := take (rr_written s) (rr_output s) @ encoded @ drop (rr_written s + required) (rr_output s),
            rr_written := rr_written s + required\<rparr>)))"

definition raw_key :: "(wchar \<Rightarrow> byte list) \<Rightarrow> ulong list \<Rightarrow> bool \<Rightarrow> nat \<Rightarrow> KEY_EVENT_RECORD \<Rightarrow> RawRead \<Rightarrow> RawRead turn" where
  "raw_key narrow pids processed n key s =
    (if processed \<and> bKeyDown key \<and> key_event_matches_ctrl_break key then
       let s = raw_consume n s;
           h = flush_input_buffer (rr_host s);
           s = s\<lparr>rr_handle := reset_input_handle (rr_handle s), rr_host := forward_ctrl_break pids h\<rparr>
       in Return (Reply status_alerted 0) s
     else if processed \<and> bKeyDown key \<and> key_event_matches_ctrl_c key then Continue (raw_forward_ctrl_c pids (raw_consume n s))
     else if \<not> bKeyDown key then Continue (raw_consume n s)
     else if UnicodeChar key = 0 then Continue (raw_consume n s)
     else if rr_written s = 0 \<and> UnicodeChar key = 0x1A then raw_end_of_file n s
     else raw_store_char narrow n (UnicodeChar key) s)"

definition raw_token :: "(wchar \<Rightarrow> byte list) \<Rightarrow> ulong list \<Rightarrow> bool \<Rightarrow> DecodedToken \<Rightarrow> RawRead \<Rightarrow> RawRead turn" where
  "raw_token narrow pids processed token s =
    (if tk_bytes_consumed token = 0 then Break s
     else if tk_kind token = ignored_sequence then Continue (raw_consume (tk_bytes_consumed token) s)
     else if tk_kind token = key_event then raw_key narrow pids processed (tk_bytes_consumed token) (tk_key token) s
     else Continue (raw_consume (tk_bytes_consumed token) s))"

definition raw_byte :: "ulong list \<Rightarrow> bool \<Rightarrow> byte \<Rightarrow> RawRead \<Rightarrow> RawRead turn" where
  "raw_byte pids processed value s =
    (if processed \<and> value = 0x03 then Continue (raw_forward_ctrl_c pids (raw_consume 1 s))
     else if rr_written s = 0 \<and> value = 0x1A then raw_end_of_file 1 s
     else Continue (raw_consume 1 (s\<lparr>rr_output := (rr_output s)[rr_written s := value], rr_written := rr_written s + 1\<rparr>)))"

text \<open>The bytes of the queue that fit behind the prefix in the head of 64 bytes.\<close>

definition raw_peek :: "RawRead \<Rightarrow> byte list" where
  "raw_peek s =
    (let pending_before = pi_size (ih_pending_bytes (rr_handle s))
     in if pending_before < 64 then
          let to_peek = min (input_bytes_available (rr_host s)) (64 - pending_before)
          in if to_peek \<noteq> 0 then peek_input_bytes to_peek (rr_host s) else []
        else [])"

text \<open>A sequence that does not end within the head is read as bytes.\<close>

definition head_token :: "byte list \<Rightarrow> DecodeResult \<times> DecodedToken" where
  "head_token head =
    (case try_decode_vt head of
       (r, token) \<Rightarrow> (if r = need_more_data \<and> length head = 64 then no_match else r, token))"

definition raw_turn :: "(wchar \<Rightarrow> byte list) \<Rightarrow> ulong list \<Rightarrow> bool \<Rightarrow> RawRead \<Rightarrow> RawRead turn" where
  "raw_turn narrow pids processed s =
    (if rr_written s \<ge> length (rr_output s) then Break s
     else if input_bytes_available (rr_host s) = 0 \<and> pi_size (ih_pending_bytes (rr_handle s)) = 0 then Break s
     else
       let peeked = raw_peek s; head = pending_bytes (ih_pending_bytes (rr_handle s)) @ peeked
       in if head = [] then Break s
          else case head_token head of
                 (need_more_data, _) \<Rightarrow> raw_need_more peeked s
               | (produced, token) \<Rightarrow> raw_token narrow pids processed token s
               | (no_match, _) \<Rightarrow> raw_byte pids processed (hd head) s)"

section \<open>Every turn that goes on uses up input\<close>

definition stream_left :: "InputHandle \<Rightarrow> HostIo \<Rightarrow> nat" where
  "stream_left ih h = pi_size (ih_pending_bytes ih) + available (ho_queue h)"

definition raw_left :: "RawRead \<Rightarrow> nat" where
  "raw_left s = stream_left (rr_handle s) (rr_host s)"

lemma queue_pop_available: "available (snd (queue_pop n q)) \<le> available q - n"
  by (auto simp: queue_pop_def available_def update_event_locked_def Let_def min_def split: option.splits)

lemma queue_pop_some: "0 < n \<Longrightarrow> 0 < available q \<Longrightarrow> fst (queue_pop n q) \<noteq> []"
  by (auto simp: queue_pop_def available_def Let_def min_def)

lemma discard_input_available: "available (ho_queue (discard_input buf n h)) \<le> available (ho_queue h)"
proof (induction buf n h rule: discard_input.induct)
  case (1 buf n h)
  have "available (ho_queue (snd (read_input_bytes (min n buf) h))) \<le> available (ho_queue h)"
    using queue_pop_available [of "min n buf" "ho_queue h"] by (simp add: read_input_bytes_def)
  then show ?case
    using 1 [OF _ refl prod.collapse]
    by (subst discard_input.simps) (auto simp: Let_def split_beta intro: order_trans)
qed

lemma discard_input_less:
  assumes "0 < n" and "0 < buf" and "0 < available (ho_queue h)"
  shows "available (ho_queue (discard_input buf n h)) < available (ho_queue h)"
proof -
  have some: "fst (queue_pop (min n buf) (ho_queue h)) \<noteq> []" using queue_pop_some [of "min n buf" "ho_queue h"] assms by simp
  then have d: "discard_input buf n h =
      discard_input buf (n - length (fst (read_input_bytes (min n buf) h))) (snd (read_input_bytes (min n buf) h))"
    using assms(1) by (subst discard_input.simps) (simp add: read_input_bytes_def)
  have "available (ho_queue (snd (read_input_bytes (min n buf) h))) < available (ho_queue h)"
    using queue_pop_available [of "min n buf" "ho_queue h"] assms by (simp add: read_input_bytes_def)
  then show ?thesis unfolding d by (rule le_less_trans [OF discard_input_available])
qed

lemma consume_stream_less:
  assumes "0 < n" and "0 < buf" and "0 < stream_left ih h"
  shows "stream_left (fst (consume_from_stream buf n ih h)) (snd (consume_from_stream buf n ih h)) < stream_left ih h"
proof -
  let ?p = "ih_pending_bytes ih"
  have size: "pi_size (consume_prefix (min n (pi_size ?p)) ?p) = pi_size ?p - min n (pi_size ?p)"
    by (auto simp: consume_prefix_def Let_def)
  have "available (ho_queue (discard_input buf (n - min n (pi_size ?p)) h)) \<le> available (ho_queue h)"
    by (rule discard_input_available)
  moreover have "available (ho_queue (discard_input buf (n - min n (pi_size ?p)) h)) < available (ho_queue h)"
    if "pi_size ?p = 0" using discard_input_less [of n buf h] that assms by (simp add: stream_left_def)
  ultimately show ?thesis
    using size assms by (cases "pi_size ?p = 0") (auto simp: stream_left_def consume_from_stream_def Let_def)
qed

lemma raw_consume_less: "0 < n \<Longrightarrow> 0 < raw_left s \<Longrightarrow> raw_left (raw_consume n s) < raw_left s"
  using consume_stream_less [of n 16 "rr_handle s" "rr_host s"] by (simp add: raw_left_def raw_consume_def split_beta)

lemma fold_end_task [simp]: "ho_queue (fold (\<lambda>pid. send_end_task pid e f) pids h) = ho_queue h"
  by (induction pids arbitrary: h) (simp_all add: send_end_task_def)

lemma raw_forward_left [simp]: "raw_left (raw_forward_ctrl_c pids s) = raw_left s"
  by (simp add: raw_forward_ctrl_c_def raw_left_def stream_left_def forward_ctrl_c_def)

lemma raw_left_output [simp]: "raw_left (s\<lparr>rr_output := out, rr_written := w\<rparr>) = raw_left s"
  by (simp add: raw_left_def)

lemma raw_turn_less:
  assumes "raw_turn narrow pids processed s = Continue s'"
  shows "raw_left s' < raw_left s"
proof -
  have "0 < raw_left s"
    using assms by (auto simp: raw_turn_def raw_left_def stream_left_def input_bytes_available_def split: if_splits)
  note less = raw_consume_less [OF _ this]
  have less': "raw_left (raw_consume n (s\<lparr>rr_output := out, rr_written := w\<rparr>)) < raw_left s" if "0 < n" for n out w
    using raw_consume_less [of n "s\<lparr>rr_output := out, rr_written := w\<rparr>"] that \<open>0 < raw_left s\<close> by simp
  have key: "0 < n \<Longrightarrow> raw_key narrow pids processed n k s = Continue s' \<Longrightarrow> ?thesis" for n k
    by (auto simp: raw_key_def raw_end_of_file_def raw_store_char_def Let_def less less' split: if_splits)
  have token: "raw_token narrow pids processed t s = Continue s' \<Longrightarrow> ?thesis" for t
    by (auto simp: raw_token_def less intro: key split: if_splits)
  have byte: "raw_byte pids processed v s = Continue s' \<Longrightarrow> ?thesis" for v
    by (auto simp: raw_byte_def raw_end_of_file_def less less' Let_def split: if_splits)
  show ?thesis
    using assms token byte
    by (auto simp: raw_turn_def raw_need_more_def Let_def split: if_splits prod.splits DecodeResult.splits)
qed

function raw_loop :: "(wchar \<Rightarrow> byte list) \<Rightarrow> ulong list \<Rightarrow> bool \<Rightarrow> RawRead \<Rightarrow> reply option \<times> RawRead" where
  "raw_loop narrow pids processed s =
    (case raw_turn narrow pids processed s of
       Continue s' \<Rightarrow> raw_loop narrow pids processed s'
     | Break s' \<Rightarrow> (None, s')
     | Return r s' \<Rightarrow> (Some r, s'))"
  by pat_completeness auto

termination
  by (relation "measure (\<lambda>(narrow, pids, processed, s). raw_left s)") (auto dest: raw_turn_less)

declare raw_loop.simps [simp del]

text \<open>The request, with the output buffer of the message.\<close>

definition raw_read :: "(wchar \<Rightarrow> byte list) \<Rightarrow> ulong list \<Rightarrow> bool \<Rightarrow> byte list \<Rightarrow> InputHandle \<Rightarrow> HostIo \<Rightarrow> reply \<times> RawRead" where
  "raw_read narrow pids processed output ih h =
    (case raw_loop narrow pids processed \<lparr>rr_handle = ih, rr_host = h, rr_output = output, rr_written = 0\<rparr> of
       (Some r, s) \<Rightarrow> (r, s)
     | (None, s) \<Rightarrow>
         if rr_written s = 0 \<and> input_bytes_available (rr_host s) = 0 \<and> pi_size (ih_pending_bytes (rr_handle s)) = 0 then
           (if input_disconnected (rr_host s) then (Reply status_unsuccessful 0, s) else (ReplyPending, s))
         else (Reply status_success (rr_written s), s))"

section \<open>Specification over a list of bytes\<close>

text \<open>What stands at the front of a stream, and how many bytes it takes.\<close>

datatype raw_item = Deliver "byte list" | Skip | Interrupt | BreakKey | EndOfFile | Unencodable | Incomplete

definition char_item :: "(wchar \<Rightarrow> byte list) \<Rightarrow> wchar \<Rightarrow> raw_item" where
  "char_item narrow value = (if narrow value = [] then Unencodable else Deliver (narrow value))"

definition key_item :: "(wchar \<Rightarrow> byte list) \<Rightarrow> bool \<Rightarrow> bool \<Rightarrow> KEY_EVENT_RECORD \<Rightarrow> raw_item" where
  "key_item narrow processed first key =
    (if \<not> bKeyDown key then Skip
     else if processed \<and> key_event_matches_ctrl_break key then BreakKey
     else if processed \<and> key_event_matches_ctrl_c key then Interrupt
     else if UnicodeChar key = 0 then Skip
     else if first \<and> UnicodeChar key = 0x1A then EndOfFile
     else char_item narrow (UnicodeChar key))"

definition byte_item :: "bool \<Rightarrow> bool \<Rightarrow> byte \<Rightarrow> raw_item" where
  "byte_item processed first value =
    (if processed \<and> value = 0x03 then Interrupt else if first \<and> value = 0x1A then EndOfFile else Deliver [value])"

definition raw_item_at :: "(wchar \<Rightarrow> byte list) \<Rightarrow> bool \<Rightarrow> bool \<Rightarrow> byte list \<Rightarrow> raw_item \<times> nat" where
  "raw_item_at narrow processed first bs =
    (case head_token (take 64 bs) of
       (need_more_data, _) \<Rightarrow> (Incomplete, 0)
     | (produced, t) \<Rightarrow> (if tk_kind t = key_event then key_item narrow processed first (tk_key t) else Skip, tk_bytes_consumed t)
     | (no_match, _) \<Rightarrow> (byte_item processed first (hd bs), 1))"

datatype raw_end = Stopped | Waiting | Ended | Broken | Failed

lemma raw_item_progress: "raw_item_at narrow processed first bs = (item, n) \<Longrightarrow> item \<noteq> Incomplete \<Longrightarrow> 0 < n"
  by (auto simp: raw_item_at_def head_token_def split: prod.splits DecodeResult.splits if_splits dest: produced_progress)

text \<open>
  Items are taken until the output is full, the stream is empty or an item ends the read. The result
  is the end, the bytes delivered, the number of interrupts and the bytes not used.
\<close>

function raw_spec :: "(wchar \<Rightarrow> byte list) \<Rightarrow> bool \<Rightarrow> nat \<Rightarrow> byte list \<Rightarrow> nat \<Rightarrow> byte list \<Rightarrow> raw_end \<times> byte list \<times> nat \<times> byte list" where
  "raw_spec narrow processed room acc k bs =
    (if room \<le> length acc \<or> bs = [] then (Stopped, acc, k, bs)
     else case raw_item_at narrow processed (acc = []) bs of
            (Deliver xs, n) \<Rightarrow>
              if room < length acc + length xs then (Stopped, acc, k, bs)
              else if 16 < length xs then (Failed, acc, k, bs)
              else raw_spec narrow processed room (acc @ xs) k (drop n bs)
          | (Skip, n) \<Rightarrow> raw_spec narrow processed room acc k (drop n bs)
          | (Interrupt, n) \<Rightarrow> raw_spec narrow processed room acc (k + 1) (drop n bs)
          | (BreakKey, n) \<Rightarrow> (Broken, acc, k, [])
          | (EndOfFile, n) \<Rightarrow> (Ended, acc, k, drop n bs)
          | (Unencodable, n) \<Rightarrow> (Failed, acc, k, bs)
          | (Incomplete, n) \<Rightarrow> (if acc = [] then Waiting else Stopped, acc, k, bs))"
  by pat_completeness auto

termination
  by (relation "measure (\<lambda>(narrow, processed, room, acc, k, bs). length bs)") (auto dest!: sym [THEN raw_item_progress])

declare raw_spec.simps [simp del]

text \<open>The answer to the request.\<close>

definition raw_answer :: "bool \<Rightarrow> raw_end \<Rightarrow> byte list \<Rightarrow> byte list \<Rightarrow> reply" where
  "raw_answer disconnected e acc rest =
    (case e of
       Stopped \<Rightarrow>
         if acc = [] \<and> rest = [] then (if disconnected then Reply status_unsuccessful 0 else ReplyPending)
         else Reply status_success (length acc)
     | Waiting \<Rightarrow> if disconnected then Reply status_unsuccessful 0 else ReplyPending
     | Ended \<Rightarrow> Reply status_success 0
     | Broken \<Rightarrow> Reply status_alerted 0
     | Failed \<Rightarrow> Reply status_invalid_parameter 0)"

section \<open>Refinement\<close>

text \<open>The packets of \<open>k\<close> interrupts.\<close>

definition ctrl_c_packets :: "ulong list \<Rightarrow> HostIo \<Rightarrow> nat \<Rightarrow> (ulong \<times> ulong \<times> ulong) list" where
  "ctrl_c_packets pids h k = (if ho_signal_pipe h then concat (replicate k (map (\<lambda>pid. (pid, 0, 1)) pids)) else [])"

definition ctrl_break_packets :: "ulong list \<Rightarrow> HostIo \<Rightarrow> (ulong \<times> ulong \<times> ulong) list" where
  "ctrl_break_packets pids h = (if ho_signal_pipe h then map (\<lambda>pid. (pid, 1, 2)) pids else [])"

lemma end_tasks_fold:
  "fold (\<lambda>pid. send_end_task pid e f) pids h =
    h\<lparr>ho_end_tasks := ho_end_tasks h @ (if ho_signal_pipe h then map (\<lambda>pid. (pid, e, f)) pids else [])\<rparr>"
  by (induction pids arbitrary: h) (simp_all add: send_end_task_def)

text \<open>A state of the loop started on \<open>h\<close> that has delivered \<open>acc\<close>, with \<open>bs\<close> still to come.\<close>

definition raw_rel :: "ulong list \<Rightarrow> HostIo \<Rightarrow> nat \<Rightarrow> RawRead \<Rightarrow> byte list \<Rightarrow> nat \<Rightarrow> byte list \<Rightarrow> bool" where
  "raw_rel pids h room s acc k bs \<longleftrightarrow>
    input_inv (rr_handle s) (rr_host s) \<and> input_stream (rr_handle s) (rr_host s) = bs
    \<and> length (rr_output s) = room \<and> rr_written s = length acc \<and> take (length acc) (rr_output s) = acc \<and> length acc \<le> room
    \<and> ho_signal_pipe (rr_host s) = ho_signal_pipe h \<and> input_disconnected (rr_host s) = input_disconnected h
    \<and> ho_end_tasks (rr_host s) = ho_end_tasks h @ ctrl_c_packets pids h k"

lemma rel_consume:
  assumes "raw_rel pids h room s acc k bs"
  shows "raw_rel pids h room (raw_consume n s) acc k (drop n bs)"
  using assms consume_stream [of "rr_handle s" "rr_host s" 16 n]
  by (auto simp: raw_rel_def raw_consume_def same_host_def split: prod.split)

lemma concat_replicate_Suc: "concat (replicate (Suc k) xs) = concat (replicate k xs) @ xs"
  by (induction k) simp_all

lemma rel_interrupt:
  assumes "raw_rel pids h room s acc k bs"
  shows "raw_rel pids h room (raw_forward_ctrl_c pids s) acc (k + 1) bs"
proof -
  have "ctrl_c_packets pids h (k + 1) = ctrl_c_packets pids h k @ (if ho_signal_pipe h then map (\<lambda>pid. (pid, 0, 1)) pids else [])"
    by (simp add: ctrl_c_packets_def concat_replicate_Suc del: replicate_Suc)
  then show ?thesis
    using assms
    by (simp add: raw_rel_def raw_forward_ctrl_c_def forward_ctrl_c_def end_tasks_fold input_inv_def input_stream_def input_disconnected_def)
qed

lemma rel_store:
  assumes "raw_rel pids h room s acc k bs" and "length acc + length xs \<le> room"
  shows "raw_rel pids h room (s\<lparr>rr_output := take (rr_written s) (rr_output s) @ xs @ drop (rr_written s + length xs) (rr_output s),
    rr_written := rr_written s + length xs\<rparr>) (acc @ xs) k bs"
  using assms by (auto simp: raw_rel_def)

lemma rel_park:
  assumes "raw_rel pids h room s acc k bs" and "peeked = take n (queue_bytes (ho_queue (rr_host s)))"
  shows "raw_rel pids h room (s\<lparr>rr_handle := fst (park_input peeked (rr_handle s) (rr_host s)),
    rr_host := snd (park_input peeked (rr_handle s) (rr_host s))\<rparr>) acc k bs"
  using assms park_stream [of "rr_handle s" "rr_host s" peeked n] by (auto simp: raw_rel_def same_host_def)

lemma rel_head:
  assumes "raw_rel pids h room s acc k bs"
  shows "pending_bytes (ih_pending_bytes (rr_handle s)) @ raw_peek s = take 64 bs"
    and "\<exists>n. raw_peek s = take n (queue_bytes (ho_queue (rr_host s)))"
    and "input_bytes_available (rr_host s) = 0 \<and> pi_size (ih_pending_bytes (rr_handle s)) = 0 \<longleftrightarrow> bs = []"
proof -
  let ?p = "ih_pending_bytes (rr_handle s)" and ?q = "ho_queue (rr_host s)"
  have i: "pending_inv ?p" "queue_inv ?q" "bs = pending_bytes ?p @ queue_bytes ?q"
    using assms by (auto simp: raw_rel_def input_inv_def input_stream_def)
  then have peek: "raw_peek s = take (64 - length (pending_bytes ?p)) (queue_bytes ?q)"
    using pending_size [of ?p] queue.amount_contents [of ?q] queue_peek_bytes [of ?q]
    by (auto simp: raw_peek_def peek_input_bytes_def input_bytes_available_def Let_def min_def)
  then show "pending_bytes ?p @ raw_peek s = take 64 bs" and "\<exists>n. raw_peek s = take n (queue_bytes ?q)"
    using i pending_size(2) [of ?p] by auto
  show "input_bytes_available (rr_host s) = 0 \<and> pi_size ?p = 0 \<longleftrightarrow> bs = []"
    using i queue.amount_zero [of ?q] pending.amount_zero [of ?p] by (auto simp: input_bytes_available_def)
qed

text \<open>A turn of the loop is the item at the front of the stream.\<close>

definition raw_store :: "byte list \<Rightarrow> RawRead \<Rightarrow> RawRead" where
  "raw_store xs s = s\<lparr>rr_output := take (rr_written s) (rr_output s) @ xs @ drop (rr_written s + length xs) (rr_output s),
    rr_written := rr_written s + length xs\<rparr>"

definition raw_interrupted :: "ulong list \<Rightarrow> RawRead \<Rightarrow> RawRead" where
  "raw_interrupted pids s =
    s\<lparr>rr_handle := reset_input_handle (rr_handle s), rr_host := forward_ctrl_break pids (flush_input_buffer (rr_host s))\<rparr>"

lemma rel_turn:
  assumes rel: "raw_rel pids h room s acc k bs" and "length acc < room" and "bs \<noteq> []"
    and item: "raw_item_at narrow processed (acc = []) bs = (item, n)"
  shows "raw_turn narrow pids processed s =
    (case item of
       Deliver xs \<Rightarrow>
         if room < length acc + length xs then Break s
         else if 16 < length xs then Return (Reply status_invalid_parameter 0) s
         else Continue (raw_consume n (raw_store xs s))
     | Skip \<Rightarrow> Continue (raw_consume n s)
     | Interrupt \<Rightarrow> Continue (raw_forward_ctrl_c pids (raw_consume n s))
     | BreakKey \<Rightarrow> Return (Reply status_alerted 0) (raw_interrupted pids (raw_consume n s))
     | EndOfFile \<Rightarrow> raw_end_of_file n s
     | Unencodable \<Rightarrow> Return (Reply status_invalid_parameter 0) s
     | Incomplete \<Rightarrow> raw_need_more (raw_peek s) s)"
proof -
  have w: "rr_written s = length acc" "length (rr_output s) = room" using rel by (simp_all add: raw_rel_def)
  have head: "take 64 bs \<noteq> []" "hd (take 64 bs) = hd bs" using assms(3) by (cases bs; simp)+
  have turn: "raw_turn narrow pids processed s =
      (case head_token (take 64 bs) of
         (need_more_data, _) \<Rightarrow> raw_need_more (raw_peek s) s
       | (produced, token) \<Rightarrow> raw_token narrow pids processed token s
       | (no_match, _) \<Rightarrow> raw_byte pids processed (hd bs) s)"
    using assms(2,3) w rel_head(3) [OF rel] head(1)
    unfolding raw_turn_def Let_def rel_head(1) [OF rel] head(2) by auto
  have one: "(rr_output s)[length acc := v] = take (length acc) (rr_output s) @ v # drop (Suc (length acc)) (rr_output s)" for v
    using w assms(2) by (simp add: upd_conv_take_nth_drop)
  obtain r t where ht: "head_token (take 64 bs) = (r, t)" by fastforce
  show ?thesis
  proof (cases r)
    case produced
    have pos: "0 < tk_bytes_consumed t"
      using ht produced produced_progress by (auto simp: head_token_def split: prod.splits if_splits)
    show ?thesis
      using item w assms(2) pos unfolding turn ht
      by (auto simp: produced raw_item_at_def ht raw_token_def raw_key_def key_item_def char_item_def raw_store_char_def raw_store_def
          raw_interrupted_def Let_def split: if_splits)
  next
    case need_more_data
    then show ?thesis using item unfolding turn ht by (auto simp: raw_item_at_def ht)
  next
    case no_match
    then show ?thesis
      using item w assms(2) unfolding turn ht
      by (auto simp: raw_item_at_def ht raw_byte_def byte_item_def raw_store_def one split: if_splits)
  qed
qed

text \<open>What the end of the loop shows of the end of the specification.\<close>

definition raw_final :: "ulong list \<Rightarrow> HostIo \<Rightarrow> nat \<Rightarrow> reply option \<times> RawRead \<Rightarrow> raw_end \<times> byte list \<times> nat \<times> byte list \<Rightarrow> bool" where
  "raw_final pids h room result outcome \<longleftrightarrow>
    (case (result, outcome) of ((r, s), (e, acc, k, rest)) \<Rightarrow>
      (if e = Stopped then r = None \<and> raw_rel pids h room s acc k rest
       else r = Some (raw_answer (input_disconnected h) e acc rest)
         \<and> input_inv (rr_handle s) (rr_host s) \<and> input_stream (rr_handle s) (rr_host s) = rest
         \<and> ho_end_tasks (rr_host s) =
             ho_end_tasks h @ ctrl_c_packets pids h k @ (if e = Broken then ctrl_break_packets pids h else [])))"

lemma raw_final_return:
  assumes "raw_rel pids h room s acc k bs" and "e \<noteq> Stopped" and "e \<noteq> Broken"
  shows "raw_final pids h room (Some (raw_answer (input_disconnected h) e acc bs), s) (e, acc, k, bs)"
  using assms by (simp add: raw_final_def raw_rel_def)

lemma raw_final_broken:
  assumes "raw_rel pids h room s acc k bs"
  shows "raw_final pids h room (Some (Reply status_alerted 0), raw_interrupted pids s) (Broken, acc, k, [])"
  using assms
  by (simp add: raw_final_def raw_rel_def raw_answer_def raw_interrupted_def forward_ctrl_break_def end_tasks_fold ctrl_break_packets_def
      input_inv_def input_stream_def flush_input_buffer_def reset_input_handle_def pending_inv_ops queue_inv_ops)

lemma raw_loop_refines:
  assumes "raw_rel pids h room s acc k bs"
  shows "raw_final pids h room (raw_loop narrow pids processed s) (raw_spec narrow processed room acc k bs)"
  using assms
proof (induction narrow pids processed s arbitrary: acc k bs rule: raw_loop.induct)
  case (1 narrow pids processed s)
  note rel = "1.prems"
  note loop = raw_loop.simps [of narrow pids processed s] and spec = raw_spec.simps [of narrow processed room acc k bs]
  show ?case
  proof (cases "room \<le> length acc \<or> bs = []")
    case True
    then have "raw_turn narrow pids processed s = Break s"
      using rel rel_head(3) [OF rel] by (auto simp: raw_turn_def raw_rel_def)
    then show ?thesis using True rel by (simp add: loop spec raw_final_def)
  next
    case False
    obtain item n where item: "raw_item_at narrow processed (acc = []) bs = (item, n)" by fastforce
    note turn = rel_turn [OF rel _ _ item]
    note go = "1.IH"
    show ?thesis
    proof (cases item)
      case (Deliver xs)
      consider "room < length acc + length xs" | "length acc + length xs \<le> room" "16 < length xs"
        | "length acc + length xs \<le> room" "\<not> 16 < length xs" by linarith
      then show ?thesis
      proof cases
        case 1
        then show ?thesis using False turn Deliver rel by (simp add: loop spec item raw_final_def)
      next
        case 2
        then show ?thesis
          using False turn Deliver raw_final_return [OF rel, of Failed] by (simp add: loop spec item raw_answer_def)
      next
        case 3
        then show ?thesis
          using False turn Deliver go [OF _ rel_consume [OF rel_store [OF rel 3(1)]]] by (simp add: loop spec item raw_store_def)
      qed
    next
      case Skip
      then show ?thesis using False turn go [OF _ rel_consume [OF rel]] by (simp add: loop spec item)
    next
      case Interrupt
      then show ?thesis using False turn go [OF _ rel_interrupt [OF rel_consume [OF rel]]] by (simp add: loop spec item)
    next
      case BreakKey
      then show ?thesis using False turn raw_final_broken [OF rel_consume [OF rel]] by (simp add: loop spec item)
    next
      case EndOfFile
      then show ?thesis
        using False turn rel_consume [OF rel, of n]
        by (simp add: loop spec item raw_end_of_file_def Let_def raw_final_def raw_rel_def raw_answer_def)
    next
      case Unencodable
      then show ?thesis using False turn raw_final_return [OF rel, of Failed] by (simp add: loop spec item raw_answer_def)
    next
      case Incomplete
      obtain m where m: "raw_peek s = take m (queue_bytes (ho_queue (rr_host s)))" using rel_head(2) [OF rel] by blast
      note park = rel_park [OF rel m]
      have "input_disconnected (snd (park_input (raw_peek s) (rr_handle s) (rr_host s))) = input_disconnected h"
        using park by (simp add: raw_rel_def)
      moreover have "rr_written s = length acc" using rel by (simp add: raw_rel_def)
      ultimately show ?thesis
        using False turn Incomplete rel raw_final_return [OF park, of Waiting]
        by (auto simp: loop spec item raw_need_more_def raw_final_def raw_answer_def Let_def split: prod.splits)
    qed
  qed
qed

lemma raw_read_meets_spec:
  assumes "input_inv ih h" and "raw_spec narrow processed (length output) [] 0 (input_stream ih h) = (e, acc, k, rest)"
    and "raw_read narrow pids processed output ih h = (r, s)"
  shows "r = raw_answer (input_disconnected h) e acc rest
    \<and> input_inv (rr_handle s) (rr_host s) \<and> input_stream (rr_handle s) (rr_host s) = rest
    \<and> (e = Stopped \<longrightarrow> length (rr_output s) = length output \<and> take (length acc) (rr_output s) = acc)
    \<and> ho_end_tasks (rr_host s) = ho_end_tasks h @ ctrl_c_packets pids h k @ (if e = Broken then ctrl_break_packets pids h else [])"
proof -
  let ?s = "\<lparr>rr_handle = ih, rr_host = h, rr_output = output, rr_written = 0\<rparr>"
  have "raw_rel pids h (length output) ?s [] 0 (input_stream ih h)"
    using assms(1) by (simp add: raw_rel_def ctrl_c_packets_def)
  from raw_loop_refines [OF this, of narrow processed]
  have final: "raw_final pids h (length output) (raw_loop narrow pids processed ?s) (e, acc, k, rest)" by (simp only: assms(2))
  obtain ro t where loop: "raw_loop narrow pids processed ?s = (ro, t)" by fastforce
  show ?thesis
  proof (cases "e = Stopped")
    case True
    then have rel: "raw_rel pids h (length output) t acc k rest" and "ro = None" using final loop by (auto simp: raw_final_def)
    note empty = rel_head(3) [OF rel]
    have "s = t" "r = raw_answer (input_disconnected h) e acc rest"
      using assms(3) rel empty \<open>ro = None\<close> True
      by (auto simp: raw_read_def loop raw_answer_def raw_rel_def split: if_splits)
    then show ?thesis using rel True by (simp add: raw_rel_def)
  next
    case False
    then show ?thesis using final loop assms(3) by (auto simp: raw_final_def raw_read_def)
  qed
qed

section \<open>What a raw read delivers\<close>

definition raw_plain :: "byte \<Rightarrow> bool" where
  "raw_plain b \<longleftrightarrow> b \<noteq> 0x1B \<and> b \<noteq> 0x9B \<and> b \<noteq> 0x03 \<and> b \<noteq> 0x1A"

lemma raw_item_plain: "raw_plain b \<Longrightarrow> raw_item_at narrow processed first (b # bs) = (Deliver [b], 1)"
  by (simp add: raw_item_at_def head_token_def try_decode_vt_def raw_plain_def byte_item_def)

lemma raw_spec_plain:
  "list_all raw_plain bs \<Longrightarrow> length acc \<le> room \<Longrightarrow>
    raw_spec narrow processed room acc k bs = (Stopped, acc @ take (room - length acc) bs, k, drop (room - length acc) bs)"
proof (induction bs arbitrary: acc)
  case Nil
  then show ?case by (simp add: raw_spec.simps)
next
  case (Cons b bs)
  show ?case
  proof (cases "length acc = room")
    case True
    then show ?thesis by (simp add: raw_spec.simps)
  next
    case False
    then have "room - length acc = Suc (room - length (acc @ [b]))" using Cons.prems by simp
    then show ?thesis
      using False Cons.prems Cons.IH [of "acc @ [b]"]
      by (simp add: raw_spec.simps [of narrow processed room acc k "b # bs"] raw_item_plain)
  qed
qed

text \<open>
  Text without escape, CSI, control-C and control-Z bytes passes through a raw read unchanged:
  as many bytes as fit are delivered, in order, and the rest stays in the stream for the next read.
\<close>

theorem raw_read_plain_text:
  assumes "input_inv ih h" and "list_all raw_plain (input_stream ih h)" and "input_stream ih h \<noteq> []" and "output \<noteq> []"
    and "raw_read narrow pids processed output ih h = (r, s)"
  shows "r = Reply status_success (min (length output) (length (input_stream ih h)))
    \<and> take (min (length output) (length (input_stream ih h))) (rr_output s) = take (length output) (input_stream ih h)
    \<and> input_stream (rr_handle s) (rr_host s) = drop (length output) (input_stream ih h)"
proof -
  let ?bs = "input_stream ih h"
  have spec: "raw_spec narrow processed (length output) [] 0 ?bs = (Stopped, take (length output) ?bs, 0, drop (length output) ?bs)"
    using raw_spec_plain [OF assms(2), of "[]" "length output"] by simp
  from raw_read_meets_spec [OF assms(1) spec assms(5)] show ?thesis
    using assms(3,4) by (auto simp: raw_answer_def min_def split: if_splits)
qed

text \<open>A handle without a prefix over a queue that holds the bytes.\<close>

definition queued :: "byte list \<Rightarrow> HostIo" where
  "queued bs = \<lparr>ho_queue = queue_push True bs (new_queue (Some False)), ho_output = True, ho_signal_pipe = True, ho_end_tasks = []\<rparr>"

lemma queued_input: "input_inv new_input_handle (queued bs)" "input_stream new_input_handle (queued bs) = bs"
proof -
  have "queue_inv (new_queue (Some False))" "queue_bytes (new_queue (Some False)) = []" by (simp_all add: queue_defs)
  then show "input_inv new_input_handle (queued bs)" "input_stream new_input_handle (queued bs) = bs"
    by (simp_all add: input_inv_def input_stream_def queued_def new_input_handle_def queue_inv_ops queue_push_bytes pending_defs)
qed

theorem raw_read_plain_text_witness:
  "fst (raw_read (\<lambda>u. []) [] True [0, 0] new_input_handle (queued [0x61, 0x62, 0x63])) = Reply status_success 2"
proof -
  obtain r s where run: "raw_read (\<lambda>u. []) [] True [0, 0] new_input_handle (queued [0x61, 0x62, 0x63]) = (r, s)" by fastforce
  show ?thesis
    using raw_read_plain_text [OF _ _ _ _ run] run by (simp add: queued_input raw_plain_def)
qed

text \<open>
  C23. A raw read depends only on the bytes of its stream, not on where they are. The handler, which
  keeps a 64-byte prefix in the handle, peeks at a shared queue and drains it through a 16-byte
  array, gives exactly the answer that the specification gives for the prefix followed by the
  queue: the same status and length, the same bytes in the output, the same control events sent to
  the processes, and it leaves exactly the unused bytes, with both containers well formed.
\<close>

theorem raw_read_refines:
  assumes "input_inv ih h" and "raw_spec narrow processed (length output) [] 0 (input_stream ih h) = (e, acc, k, rest)"
    and "raw_read narrow pids processed output ih h = (r, s)"
  shows "r = raw_answer (input_disconnected h) e acc rest
    \<and> input_inv (rr_handle s) (rr_host s) \<and> input_stream (rr_handle s) (rr_host s) = rest
    \<and> (e = Stopped \<longrightarrow> length (rr_output s) = length output \<and> take (length acc) (rr_output s) = acc)
    \<and> ho_end_tasks (rr_host s) = ho_end_tasks h @ ctrl_c_packets pids h k @ (if e = Broken then ctrl_break_packets pids h else [])"
  using assms by (rule raw_read_meets_spec)

theorem raw_read_refines_witness:
  "fst (raw_read (\<lambda>u. []) [7] True [0] new_input_handle (queued [0x03, 0x61])) = Reply status_success 1
   \<and> ho_end_tasks (rr_host (snd (raw_read (\<lambda>u. []) [7] True [0] new_input_handle (queued [0x03, 0x61])))) = [(7, 0, 1)]"
proof -
  obtain r s where run: "raw_read (\<lambda>u. []) [7] True [0] new_input_handle (queued [0x03, 0x61]) = (r, s)" by fastforce
  have item: "raw_item_at (\<lambda>u. []) True True [0x03, 0x61] = (Interrupt, 1)"
    by (simp add: raw_item_at_def head_token_def try_decode_vt_def byte_item_def)
  have "raw_spec (\<lambda>u. []) True (length [0 :: byte]) [] 0 (input_stream new_input_handle (queued [0x03, 0x61])) = (Stopped, [0x61], 1, [])"
    using raw_spec_plain [of "[0x61]" "[]" 1]
    by (simp add: queued_input raw_spec.simps [of _ _ _ _ _ "[0x03, 0x61]"] item raw_plain_def)
  from raw_read_refines [OF queued_input(1) this run] show ?thesis
    using run by (simp add: raw_answer_def ctrl_c_packets_def queued_def)
qed

text \<open>
  A raw read is not transparent for UTF-8. The continuation bytes of a character go through the
  sequence decoder one by one, and the byte 9B, which ends characters such as U+00DB, is taken for
  the eight-bit CSI. The bytes C3 9B 41, the text of U+00DB and the letter A, are read as the single
  byte C3: the other two are taken for a cursor key and disappear.
\<close>

theorem raw_read_drops_utf8:
  assumes "input_inv ih h" and "input_stream ih h = [0xC3, 0x9B, 0x41]" and "3 \<le> length output"
    and "raw_read narrow pids processed output ih h = (r, s)"
  shows "r = Reply status_success 1 \<and> take 1 (rr_output s) = [0xC3] \<and> input_stream (rr_handle s) (rr_host s) = []"
proof -
  have "raw_item_at narrow processed True [0xC3, 0x9B, 0x41] = (Deliver [0xC3], 1)" by (rule raw_item_plain) (simp add: raw_plain_def)
  moreover have "raw_item_at narrow processed False [0x9B, 0x41] = (Skip, 2)"
    by (simp add: raw_item_at_def head_token_def try_decode_vt_def decode_csi_def csi_prefix_def cursor_key_def make_simple_key_event_def
        key_token_def key_item_def key_event_matches_ctrl_break_def key_event_matches_ctrl_c_def)
  ultimately have spec: "raw_spec narrow processed (length output) [] 0 (input_stream ih h) = (Stopped, [0xC3], 0, [])"
    using assms(3) by (auto simp: assms(2) raw_spec.simps [of _ _ _ _ _ "[0xC3, 0x9B, 0x41]"]
        raw_spec.simps [of _ _ _ _ _ "[0x9B, 0x41]"] raw_spec.simps [of _ _ _ _ _ "[]"])
  show ?thesis using raw_read_meets_spec [OF assms(1) spec assms(4)] by (simp add: raw_answer_def)
qed

theorem raw_read_drops_utf8_witness:
  "fst (raw_read (\<lambda>u. []) [] False [0, 0, 0] new_input_handle (queued [0xC3, 0x9B, 0x41])) = Reply status_success 1"
proof -
  obtain r s where run: "raw_read (\<lambda>u. []) [] False [0, 0, 0] new_input_handle (queued [0xC3, 0x9B, 0x41]) = (r, s)" by fastforce
  show ?thesis using raw_read_drops_utf8 [OF queued_input(1) queued_input(2) _ run] run by simp
qed

end
