(* ===== verification/Record_Read.thy ===== *)
theory Record_Read
  imports Raw_Read
begin

text \<open>
  Reads of input records: the request \<open>ConsolepGetConsoleInput\<close> of \<open>dispatch_message\<close>
  (\<open>condrv_server.hpp\<close>). The handler decodes a window of the handle's stream into records, keeps the
  second unit of a surrogate pair that did not fit, sends control events, and starts again when it
  used bytes but found no record. Peeks leave the stream as it is.
\<close>

section \<open>The handler\<close>

record RecordScan =
  rs_records :: "INPUT_RECORD list"
  rs_consumed :: nat
  rs_ctrl_c :: nat
  rs_ctrl_break :: nat
  rs_decoded :: "wchar option"

definition char_record :: "bool \<Rightarrow> wchar \<Rightarrow> INPUT_RECORD" where
  "char_record unicode value = make_input_record_from_key (make_simple_character_key_event value) unicode"

text \<open>What one token does to the scan, and whether the loop goes on.\<close>

definition scan_key :: "bool \<Rightarrow> bool \<Rightarrow> KEY_EVENT_RECORD \<Rightarrow> nat \<Rightarrow> RecordScan \<Rightarrow> bool \<times> RecordScan" where
  "scan_key processed unicode key n s =
    (let s = s\<lparr>rs_consumed := rs_consumed s + n\<rparr>
     in if processed \<and> key_event_matches_ctrl_break key then
          (if bKeyDown key then (False, s\<lparr>rs_ctrl_break := rs_ctrl_break s + 1, rs_records := []\<rparr>) else (True, s))
        else if processed \<and> key_event_matches_ctrl_c key then
          (True, if bKeyDown key then s\<lparr>rs_ctrl_c := rs_ctrl_c s + 1\<rparr> else s)
        else (True, s\<lparr>rs_records := rs_records s @ [make_input_record_from_key key unicode]\<rparr>))"

definition scan_text :: "bool \<Rightarrow> bool \<Rightarrow> bool \<Rightarrow> nat \<Rightarrow> wchar list \<Rightarrow> nat \<Rightarrow> RecordScan \<Rightarrow> bool \<times> RecordScan" where
  "scan_text processed is_peek unicode capacity units n s =
    (let s' = s\<lparr>rs_consumed := rs_consumed s + n\<rparr>;
         remaining_capacity = capacity - length (rs_records s)
     in if units = [] then (False, s)
        else if processed \<and> units = [3] then (True, s'\<lparr>rs_ctrl_c := rs_ctrl_c s + 1\<rparr>)
        else if length units > remaining_capacity then
          (False,
           if length units = 2 \<and> remaining_capacity = 1 then
             (if is_peek then s\<lparr>rs_records := rs_records s @ [char_record unicode (units ! 0)]\<rparr>
              else s'\<lparr>rs_records := rs_records s @ [char_record unicode (units ! 0)], rs_decoded := Some (units ! 1)\<rparr>)
           else s)
        else (True, s'\<lparr>rs_records := rs_records s @ map (char_record unicode) units\<rparr>))"

definition scan_token :: "bool \<Rightarrow> bool \<Rightarrow> bool \<Rightarrow> nat \<Rightarrow> DecodedToken \<Rightarrow> RecordScan \<Rightarrow> bool \<times> RecordScan" where
  "scan_token processed is_peek unicode capacity token s =
    (case tk_kind token of
       ignored_sequence \<Rightarrow> (True, s\<lparr>rs_consumed := rs_consumed s + tk_bytes_consumed token\<rparr>)
     | key_event \<Rightarrow> scan_key processed unicode (tk_key token) (tk_bytes_consumed token) s
     | text_units \<Rightarrow> scan_text processed is_peek unicode capacity (tk_text token) (tk_bytes_consumed token) s)"

function scan_records :: "code_pages \<Rightarrow> ulong \<Rightarrow> bool \<Rightarrow> bool \<Rightarrow> bool \<Rightarrow> nat \<Rightarrow> RecordScan \<Rightarrow> byte list \<Rightarrow> RecordScan" where
  "scan_records sys cp processed is_peek unicode capacity s rest =
    (if capacity \<le> length (rs_records s) \<or> rest = [] then s
     else case decode_one_input_token sys cp rest of
            None \<Rightarrow> s
          | Some token \<Rightarrow>
              if tk_bytes_consumed token = 0 then s
              else
                let (go, s') = scan_token processed is_peek unicode capacity token s
                in if go then scan_records sys cp processed is_peek unicode capacity s' (drop (tk_bytes_consumed token) rest) else s')"
  by pat_completeness auto

termination
  by (relation "measure (\<lambda>(sys, cp, processed, is_peek, unicode, capacity, s, rest). length rest)") auto

declare scan_records.simps [simp del]

lemma read_one_less: "input_bytes_available h \<noteq> 0 \<Longrightarrow> available (ho_queue (snd (read_input_bytes 1 h))) < available (ho_queue h)"
  using queue_pop_available [of 1 "ho_queue h"] by (simp add: read_input_bytes_def input_bytes_available_def)

text \<open>Control-C bytes at the front of the queue are sent and removed first, also for a peek.\<close>

function strip_ctrl_c :: "ulong list \<Rightarrow> HostIo \<Rightarrow> HostIo" where
  "strip_ctrl_c pids h =
    (if input_bytes_available h = 0 then h
     else if peek_input_bytes 1 h \<noteq> [3] then h
     else if length (fst (read_input_bytes 1 h)) \<noteq> 1 then snd (read_input_bytes 1 h)
     else strip_ctrl_c pids (forward_ctrl_c pids (snd (read_input_bytes 1 h))))"
  by pat_completeness auto

termination
  by (relation "measure (\<lambda>(pids, h). available (ho_queue h))") (simp_all add: forward_ctrl_c_def read_one_less [simplified])

declare strip_ctrl_c.simps [simp del]

record RecordRead =
  gi_handle :: InputHandle
  gi_host :: HostIo
  gi_records :: "INPUT_RECORD list"

text \<open>The bytes decoded in a turn: the prefix, then what is peeked of the queue.\<close>

definition record_window :: "nat \<Rightarrow> RecordRead \<Rightarrow> byte list" where
  "record_window capacity s =
    (let to_peek = min (input_bytes_available (gi_host s)) (min (capacity * 64) 65536)
     in if to_peek \<noteq> 0 then peek_input_bytes to_peek (gi_host s) else [])"

definition initial_records :: "bool \<Rightarrow> bool \<Rightarrow> InputHandle \<Rightarrow> RecordScan" where
  "initial_records is_peek unicode ih =
    (case ih_decoded_pending ih of
       None \<Rightarrow> \<lparr>rs_records = [], rs_consumed = 0, rs_ctrl_c = 0, rs_ctrl_break = 0, rs_decoded = None\<rparr>
     | Some value \<Rightarrow>
         \<lparr>rs_records = [char_record unicode value], rs_consumed = 0, rs_ctrl_c = 0, rs_ctrl_break = 0,
          rs_decoded = (if is_peek then Some value else None)\<rparr>)"

text \<open>The part of a turn after the scan.\<close>

definition finish_turn :: "ulong list \<Rightarrow> bool \<Rightarrow> bool \<Rightarrow> bool \<Rightarrow> RecordScan \<Rightarrow> RecordRead \<Rightarrow> RecordRead turn" where
  "finish_turn pids processed is_peek wait_allowed r s =
    (let (ih, h) = (if \<not> is_peek \<and> rs_consumed r \<noteq> 0 then consume_from_stream 256 (rs_consumed r) (gi_handle s) (gi_host s)
                    else (gi_handle s, gi_host s));
         ih = ih\<lparr>ih_decoded_pending := rs_decoded r\<rparr>;
         (ih, h) = (if processed \<and> rs_ctrl_break r \<noteq> 0
                    then (reset_input_handle ih, ((forward_ctrl_break pids) ^^ rs_ctrl_break r) (flush_input_buffer h))
                    else (ih, h));
         h = (if \<not> is_peek then ((forward_ctrl_c pids) ^^ rs_ctrl_c r) h else h);
         s = \<lparr>gi_handle = ih, gi_host = h, gi_records = rs_records r\<rparr>
     in if \<not> is_peek \<and> wait_allowed \<and> rs_records r = [] then
          (if input_disconnected h then Return (Reply status_unsuccessful 0) s
           else if input_bytes_available h = 0 \<and> pi_size (ih_pending_bytes ih) = 0 \<and> ih_decoded_pending ih = None then Return ReplyPending s
           else if rs_consumed r \<noteq> 0 then Continue s
           else Break s)
        else Break s)"

definition record_turn ::
  "code_pages \<Rightarrow> ulong \<Rightarrow> ulong list \<Rightarrow> bool \<Rightarrow> bool \<Rightarrow> bool \<Rightarrow> bool \<Rightarrow> nat \<Rightarrow> RecordRead \<Rightarrow> RecordRead turn" where
  "record_turn sys cp pids processed is_peek wait_allowed unicode capacity s =
    (let s = s\<lparr>gi_records := []\<rparr>; ih = gi_handle s; h = gi_host s
     in if wait_allowed \<and> ih_decoded_pending ih = None \<and> pi_size (ih_pending_bytes ih) = 0 \<and> input_bytes_available h = 0 then
          (if input_disconnected h then Return (Reply status_unsuccessful 0) s else Return ReplyPending s)
        else
          let peeked = record_window capacity s;
              input_bytes = pending_bytes (ih_pending_bytes ih) @ peeked;
              r = scan_records sys cp processed is_peek unicode capacity (initial_records is_peek unicode ih) input_bytes
          in if \<not> is_peek \<and> wait_allowed \<and> rs_records r = [] \<and> rs_consumed r = 0 then
               (if input_disconnected h then Return (Reply status_unsuccessful 0) s
                else if input_bytes = [] then Return ReplyPending s
                else if decode_one_input_token sys cp input_bytes = None then
                  (case park_input peeked ih h of (ih', h') \<Rightarrow> Return ReplyPending (s\<lparr>gi_handle := ih', gi_host := h'\<rparr>))
                else finish_turn pids processed is_peek wait_allowed r s)
             else finish_turn pids processed is_peek wait_allowed r s)"

text \<open>A turn that is repeated has used up input.\<close>

lemma scan_token_consumed:
  "rs_consumed (snd (scan_token processed is_peek unicode capacity token s)) \<le> rs_consumed s + tk_bytes_consumed token"
  by (auto simp: scan_token_def scan_key_def scan_text_def Let_def split: TokenKind.split)

lemma scan_consumed:
  "rs_consumed (scan_records sys cp processed is_peek unicode capacity s rest) \<le> rs_consumed s + length rest"
proof (induction sys cp processed is_peek unicode capacity s rest rule: scan_records.induct)
  case (1 sys cp processed is_peek unicode capacity s rest)
  show ?case
  proof (cases "decode_one_input_token sys cp rest")
    case None
    then show ?thesis by (simp add: scan_records.simps)
  next
    case (Some token)
    obtain go s' where t: "scan_token processed is_peek unicode capacity token s = (go, s')" by fastforce
    have le: "tk_bytes_consumed token \<le> length rest" using tok.dec_bound [OF Some] .
    have "rs_consumed s' \<le> rs_consumed s + tk_bytes_consumed token"
      using scan_token_consumed [of processed is_peek unicode capacity token s] t by simp
    then show ?thesis
      using 1 [OF _ Some _ t [symmetric] refl] le
      by (subst scan_records.simps) (auto simp: Some t)
  qed
qed

lemma forward_power_queue [simp]:
  "ho_queue (((forward_ctrl_c pids) ^^ n) h) = ho_queue h" "ho_queue (((forward_ctrl_break pids) ^^ n) h) = ho_queue h"
  by (induction n) (simp_all add: forward_ctrl_c_def forward_ctrl_break_def)

lemma finish_turn_less:
  assumes "finish_turn pids processed is_peek wait_allowed r s = Continue s'" and "0 < stream_left (gi_handle s) (gi_host s)"
  shows "stream_left (gi_handle s') (gi_host s') < stream_left (gi_handle s) (gi_host s)"
proof -
  let ?c = "consume_from_stream 256 (rs_consumed r) (gi_handle s) (gi_host s)"
  have c: "\<not> is_peek" "rs_consumed r \<noteq> 0"
    using assms(1) by (auto simp: finish_turn_def Let_def split: if_splits prod.splits)
  have less: "stream_left (fst ?c) (snd ?c) < stream_left (gi_handle s) (gi_host s)"
    using consume_stream_less [of "rs_consumed r" 256] c assms(2) by simp
  have "stream_left (gi_handle s') (gi_host s') \<le> stream_left (fst ?c) (snd ?c)"
    using assms(1) c
    by (auto simp: finish_turn_def Let_def stream_left_def reset_input_handle_def pending_clear_def flush_input_buffer_def
        queue_clear_def available_def update_event_locked_def split: if_splits prod.splits option.splits)
  with less show ?thesis by (rule le_less_trans [rotated])
qed

lemma finish_turn_again: "finish_turn pids processed is_peek wait_allowed r s = Continue s' \<Longrightarrow> rs_consumed r \<noteq> 0"
  by (auto simp: finish_turn_def Let_def split: if_splits prod.splits)

lemma record_turn_less:
  assumes "record_turn sys cp pids processed is_peek wait_allowed unicode capacity s = Continue s'"
  shows "stream_left (gi_handle s') (gi_host s') < stream_left (gi_handle s) (gi_host s)"
proof -
  let ?s = "s\<lparr>gi_records := []\<rparr>" and ?ih = "gi_handle s"
  let ?bytes = "pending_bytes (ih_pending_bytes ?ih) @ record_window capacity ?s"
  let ?r = "scan_records sys cp processed is_peek unicode capacity (initial_records is_peek unicode ?ih) ?bytes"
  have f: "finish_turn pids processed is_peek wait_allowed ?r ?s = Continue s'"
    using assms by (auto simp: record_turn_def Let_def split: if_splits prod.splits)
  have "rs_consumed (initial_records is_peek unicode ?ih) = 0" by (simp add: initial_records_def split: option.split)
  then have "?bytes \<noteq> []" using scan_consumed [of sys cp processed is_peek unicode capacity "initial_records is_peek unicode ?ih" ?bytes]
      finish_turn_again [OF f] by auto
  then have "0 < stream_left ?ih (gi_host s)"
    by (auto simp: stream_left_def pending_bytes_def record_window_def input_bytes_available_def Let_def split: if_splits)
  then show ?thesis using finish_turn_less [OF f] by simp
qed

function record_loop ::
  "code_pages \<Rightarrow> ulong \<Rightarrow> ulong list \<Rightarrow> bool \<Rightarrow> bool \<Rightarrow> bool \<Rightarrow> bool \<Rightarrow> nat \<Rightarrow> RecordRead \<Rightarrow> reply option \<times> RecordRead" where
  "record_loop sys cp pids processed is_peek wait_allowed unicode capacity s =
    (case record_turn sys cp pids processed is_peek wait_allowed unicode capacity s of
       Continue s' \<Rightarrow> record_loop sys cp pids processed is_peek wait_allowed unicode capacity s'
     | Break s' \<Rightarrow> (None, s')
     | Return r s' \<Rightarrow> (Some r, s'))"
  by pat_completeness auto

termination
  by (relation "measure (\<lambda>(sys, cp, pids, processed, is_peek, wait_allowed, unicode, capacity, s). stream_left (gi_handle s) (gi_host s))")
    (auto dest: record_turn_less)

declare record_loop.simps [simp del]

text \<open>
  The request: \<open>flags\<close> holds \<open>CONSOLE_READ_NOREMOVE\<close> (1) and \<open>CONSOLE_READ_NOWAIT\<close> (2), an
  \<open>INPUT_RECORD\<close> takes 20 bytes of the output.
\<close>

definition get_console_input ::
  "code_pages \<Rightarrow> ulong \<Rightarrow> ulong list \<Rightarrow> bool \<Rightarrow> ushort \<Rightarrow> bool \<Rightarrow> nat \<Rightarrow> InputHandle \<Rightarrow> HostIo \<Rightarrow> reply \<times> RecordRead" where
  "get_console_input sys cp pids processed flags unicode output_size ih h =
    (let capacity = output_size div 20; is_peek = (flags AND 1 \<noteq> 0); wait_allowed = (flags AND 2 = 0)
     in if flags AND NOT 3 \<noteq> 0 then (Reply status_invalid_parameter 0, \<lparr>gi_handle = ih, gi_host = h, gi_records = []\<rparr>)
        else if capacity = 0 then (Reply status_success 0, \<lparr>gi_handle = ih, gi_host = h, gi_records = []\<rparr>)
        else
          let h = (if processed then strip_ctrl_c pids h else h)
          in case record_loop sys cp pids processed is_peek wait_allowed unicode capacity \<lparr>gi_handle = ih, gi_host = h, gi_records = []\<rparr> of
               (Some r, s) \<Rightarrow> (r, s)
             | (None, s) \<Rightarrow> (Reply status_success (length (gi_records s) * 20), s))"

section \<open>The records of a stream\<close>

text \<open>What a token is to a reader: its records, the interrupts it makes, and whether it is a control-break.\<close>

definition token_records :: "bool \<Rightarrow> bool \<Rightarrow> DecodedToken \<Rightarrow> INPUT_RECORD list" where
  "token_records processed unicode t =
    (case tk_kind t of
       ignored_sequence \<Rightarrow> []
     | key_event \<Rightarrow>
         if processed \<and> (key_event_matches_ctrl_break (tk_key t) \<or> key_event_matches_ctrl_c (tk_key t)) then []
         else [make_input_record_from_key (tk_key t) unicode]
     | text_units \<Rightarrow> if processed \<and> tk_text t = [3] then [] else map (char_record unicode) (tk_text t))"

definition token_interrupts :: "bool \<Rightarrow> DecodedToken \<Rightarrow> nat" where
  "token_interrupts processed t =
    (if processed \<and> ((tk_kind t = key_event \<and> key_event_matches_ctrl_c (tk_key t) \<and> bKeyDown (tk_key t)
                     \<and> \<not> key_event_matches_ctrl_break (tk_key t))
                    \<or> (tk_kind t = text_units \<and> tk_text t = [3]))
     then 1 else 0)"

definition breaks :: "bool \<Rightarrow> DecodedToken \<Rightarrow> bool" where
  "breaks processed t \<longleftrightarrow> processed \<and> tk_kind t = key_event \<and> key_event_matches_ctrl_break (tk_key t) \<and> bKeyDown (tk_key t)"

abbreviation tokens :: "code_pages \<Rightarrow> ulong \<Rightarrow> byte list \<Rightarrow> DecodedToken list" where
  "tokens sys cp bs \<equiv> fst (drain (decode_one_input_token sys cp) tk_bytes_consumed bs)"

definition stream_records :: "code_pages \<Rightarrow> ulong \<Rightarrow> bool \<Rightarrow> bool \<Rightarrow> byte list \<Rightarrow> INPUT_RECORD list" where
  "stream_records sys cp processed unicode bs = concat (map (token_records processed unicode) (tokens sys cp bs))"

definition stream_interrupts :: "code_pages \<Rightarrow> ulong \<Rightarrow> bool \<Rightarrow> byte list \<Rightarrow> nat" where
  "stream_interrupts sys cp processed bs = sum_list (map (token_interrupts processed) (tokens sys cp bs))"

definition unbroken :: "code_pages \<Rightarrow> ulong \<Rightarrow> bool \<Rightarrow> byte list \<Rightarrow> bool" where
  "unbroken sys cp processed bs \<longleftrightarrow> list_all (\<lambda>t. \<not> breaks processed t) (tokens sys cp bs)"

lemma stream_step:
  assumes "decode_one_input_token sys cp bs = Some t"
  shows "stream_records sys cp processed unicode bs =
      token_records processed unicode t @ stream_records sys cp processed unicode (drop (tk_bytes_consumed t) bs)"
    and "stream_interrupts sys cp processed bs =
      token_interrupts processed t + stream_interrupts sys cp processed (drop (tk_bytes_consumed t) bs)"
    and "unbroken sys cp processed bs \<longleftrightarrow> \<not> breaks processed t \<and> unbroken sys cp processed (drop (tk_bytes_consumed t) bs)"
  by (simp_all add: stream_records_def stream_interrupts_def unbroken_def tok.drain_unfold(2) [OF assms])

text \<open>The records a handle still owes its reader: the kept unit, then the stream.\<close>

definition kept_records :: "bool \<Rightarrow> wchar option \<Rightarrow> INPUT_RECORD list" where
  "kept_records unicode u = (case u of None \<Rightarrow> [] | Some value \<Rightarrow> [char_record unicode value])"

text \<open>
  One token of a read that removes: what it stores and keeps is what the token stands for.
\<close>

lemma scan_token_records:
  assumes "scan_token processed False unicode capacity t s = (go, s')" and "\<not> breaks processed t" and "rs_decoded s = None"
    and "tk_kind t = text_units \<longrightarrow> tk_text t \<noteq> [] \<and> length (tk_text t) \<le> 2" and "length (rs_records s) < capacity"
  shows "(rs_consumed s' = rs_consumed s + tk_bytes_consumed t
      \<and> rs_records s' @ kept_records unicode (rs_decoded s') = rs_records s @ token_records processed unicode t
      \<and> rs_ctrl_c s' = rs_ctrl_c s + token_interrupts processed t)
    \<and> rs_ctrl_break s' = rs_ctrl_break s \<and> (go \<longrightarrow> rs_decoded s' = None)"
proof (cases "tk_kind t")
  case key_event
  then show ?thesis
    using assms(1-3)
    by (auto simp: scan_token_def scan_key_def token_records_def token_interrupts_def breaks_def kept_records_def Let_def split: if_splits)
next
  case ignored_sequence
  then show ?thesis
    using assms(1,3) by (auto simp: scan_token_def token_records_def token_interrupts_def kept_records_def)
next
  case text_units
  then consider a where "tk_text t = [a]" | a b where "tk_text t = [a, b]"
    using assms(4) by (cases "tk_text t" rule: list.exhaust [case_names Nil Cons]; cases "tl (tk_text t)") auto
  then show ?thesis
    using assms(1,3,5) text_units
    by cases (auto simp: scan_token_def scan_text_def token_records_def token_interrupts_def kept_records_def Let_def split: if_splits)
qed

lemma produced_kind: "try_decode_vt bytes = (produced, t) \<Longrightarrow> tk_kind t \<noteq> text_units"
proof -
  have "da1_loop pos rest = (produced, t) \<Longrightarrow> tk_kind t \<noteq> text_units" for pos rest
    by (induction pos rest rule: da1_loop.induct) (auto simp: ignored_token_def split: if_splits)
  moreover have "decode_params pos rest = (produced, t) \<Longrightarrow> tk_kind t \<noteq> text_units" for pos rest
    by (auto simp: decode_params_def key_token_def Let_def split: prod.splits list.splits if_splits option.splits)
  ultimately show "try_decode_vt bytes = (produced, t) \<Longrightarrow> tk_kind t \<noteq> text_units"
    by (fastforce simp: try_decode_vt_def decode_csi_def decode_ss3_def Let_def key_token_def ignored_token_def
        split: if_splits option.splits)
qed

lemma token_text:
  "decode_one_input_token sys cp bs = Some t \<Longrightarrow> tk_kind t = text_units \<Longrightarrow> tk_text t \<noteq> [] \<and> length (tk_text t) \<le> 2"
  by (erule token_cases) (auto dest: produced_kind unit_bounds)

text \<open>
  From the scan \<open>s\<close> with the bytes \<open>bs\<close> to come to the scan \<open>s'\<close> with \<open>bs'\<close> to come, no record and no
  interrupt was lost or made up.
\<close>

definition served :: "code_pages \<Rightarrow> ulong \<Rightarrow> bool \<Rightarrow> bool \<Rightarrow> RecordScan \<Rightarrow> byte list \<Rightarrow> RecordScan \<Rightarrow> byte list \<Rightarrow> bool" where
  "served sys cp processed unicode s bs s' bs' \<longleftrightarrow>
    rs_records s @ stream_records sys cp processed unicode bs
      = rs_records s' @ kept_records unicode (rs_decoded s') @ stream_records sys cp processed unicode bs'
    \<and> rs_ctrl_c s + stream_interrupts sys cp processed bs = rs_ctrl_c s' + stream_interrupts sys cp processed bs'
    \<and> rs_ctrl_break s' = rs_ctrl_break s \<and> unbroken sys cp processed bs'"

lemma served_trans:
  "served sys cp processed unicode s bs s1 bs1 \<Longrightarrow> rs_decoded s1 = None \<Longrightarrow> served sys cp processed unicode s1 bs1 s2 bs2
    \<Longrightarrow> served sys cp processed unicode s bs s2 bs2"
  by (simp add: served_def kept_records_def)

lemma scan_token_served:
  assumes "decode_one_input_token sys cp bs = Some t" and "scan_token processed False unicode capacity t s = (go, s1)"
    and "unbroken sys cp processed bs" and "rs_decoded s = None" and "length (rs_records s) < capacity"
  shows "served sys cp processed unicode s bs s1 (drop (tk_bytes_consumed t) bs)"
    and "rs_consumed s1 = rs_consumed s + tk_bytes_consumed t" and "go \<Longrightarrow> rs_decoded s1 = None"
  using scan_token_records [OF assms(2) _ assms(4) _ assms(5)] token_text [OF assms(1)] assms(3) stream_step [OF assms(1)]
  by (auto simp: served_def)

lemma scan_records_served:
  assumes "unbroken sys cp processed (rest @ later)" and "rs_decoded s = None"
  shows "\<exists>c \<le> length rest. rs_consumed (scan_records sys cp processed False unicode capacity s rest) = rs_consumed s + c
    \<and> served sys cp processed unicode s (rest @ later) (scan_records sys cp processed False unicode capacity s rest) (drop c (rest @ later))"
  using assms
proof (induction "length rest" arbitrary: rest s rule: less_induct)
  case less
  have stay: "?case" if "scan_records sys cp processed False unicode capacity s rest = s"
    using less.prems that by (intro exI [of _ 0]) (simp add: kept_records_def served_def)
  show ?case
  proof (cases "decode_one_input_token sys cp rest = None \<or> capacity \<le> length (rs_records s)")
    case True
    then show ?thesis by (intro stay) (auto simp: scan_records.simps)
  next
    case False
    then obtain t where Some: "decode_one_input_token sys cp rest = Some t" and room: "length (rs_records s) < capacity" by auto
    let ?n = "tk_bytes_consumed t"
    have n: "0 < ?n" "?n \<le> length rest" using tok.dec_progress [OF Some] tok.dec_bound [OF Some] .
    have dr: "drop ?n (rest @ later) = drop ?n rest @ later" using n by simp
    obtain go s1 where t: "scan_token processed False unicode capacity t s = (go, s1)" by fastforce
    note one = scan_token_served [OF tok.dec_stable [OF Some] t less.prems room, unfolded dr]
    have run: "scan_records sys cp processed False unicode capacity s rest =
        (if go then scan_records sys cp processed False unicode capacity s1 (drop ?n rest) else s1)"
      using room n by (subst scan_records.simps) (auto simp: Some t)
    show ?thesis
    proof (cases go)
      case True
      have "length (drop ?n rest) < length rest" "unbroken sys cp processed (drop ?n rest @ later)"
        using n one(1) by (auto simp: served_def)
      from less.hyps [OF this one(3) [OF True]] obtain c where c: "c \<le> length (drop ?n rest)"
        "rs_consumed (scan_records sys cp processed False unicode capacity s1 (drop ?n rest)) = rs_consumed s1 + c"
        "served sys cp processed unicode s1 (drop ?n rest @ later)
          (scan_records sys cp processed False unicode capacity s1 (drop ?n rest)) (drop c (drop ?n rest @ later))"
        by blast
      have "drop (?n + c) (rest @ later) = drop c (drop ?n rest @ later)" using dr by (metis drop_drop add.commute)
      then show ?thesis
        using served_trans [OF one(1) one(3) [OF True] c(3)] c(1,2) one(2) n True unfolding run
        by (intro exI [of _ "?n + c"]) simp
    next
      case False
      then show ?thesis using one(1,2) n unfolding run by (intro exI [of _ ?n]) (simp add: dr)
    qed
  qed
qed

section \<open>Exactly once\<close>

text \<open>The records a handle still owes its reader: the kept unit, then the stream.\<close>

definition owed_records :: "code_pages \<Rightarrow> ulong \<Rightarrow> bool \<Rightarrow> bool \<Rightarrow> InputHandle \<Rightarrow> HostIo \<Rightarrow> INPUT_RECORD list" where
  "owed_records sys cp processed unicode ih h =
    kept_records unicode (ih_decoded_pending ih) @ stream_records sys cp processed unicode (input_stream ih h)"

definition record_rel ::
  "code_pages \<Rightarrow> ulong \<Rightarrow> ulong list \<Rightarrow> bool \<Rightarrow> bool \<Rightarrow> InputHandle \<Rightarrow> HostIo \<Rightarrow> RecordRead \<Rightarrow> nat \<Rightarrow> bool" where
  "record_rel sys cp pids processed unicode ih h s k \<longleftrightarrow>
    input_inv (gi_handle s) (gi_host s) \<and> unbroken sys cp processed (input_stream (gi_handle s) (gi_host s))
    \<and> owed_records sys cp processed unicode ih h = gi_records s @ owed_records sys cp processed unicode (gi_handle s) (gi_host s)
    \<and> stream_interrupts sys cp processed (input_stream ih h)
      = k + stream_interrupts sys cp processed (input_stream (gi_handle s) (gi_host s))
    \<and> ho_signal_pipe (gi_host s) = ho_signal_pipe h \<and> input_disconnected (gi_host s) = input_disconnected h
    \<and> ho_end_tasks (gi_host s) = ho_end_tasks h @ ctrl_c_packets pids h k
    \<and> length (input_stream (gi_handle s) (gi_host s)) \<le> length (input_stream ih h)"

lemma forward_ctrl_c_power:
  "((forward_ctrl_c pids) ^^ n) h = h\<lparr>ho_end_tasks := ho_end_tasks h @ ctrl_c_packets pids h n\<rparr>"
proof (induction n)
  case (Suc n)
  then show ?case
    by (simp add: forward_ctrl_c_def end_tasks_fold ctrl_c_packets_def concat_replicate_Suc del: replicate_Suc)
qed (simp add: ctrl_c_packets_def)

lemma ctrl_c_packets_add: "ctrl_c_packets pids h (m + n) = ctrl_c_packets pids h m @ ctrl_c_packets pids h n"
  by (simp add: ctrl_c_packets_def replicate_add)

primrec turn_state :: "'s turn \<Rightarrow> 's" where
  "turn_state (Continue s) = s"
| "turn_state (Break s) = s"
| "turn_state (Return r s) = s"

lemma initial_served:
  "rs_records (initial_records False unicode ih) = kept_records unicode (ih_decoded_pending ih)"
  "rs_consumed (initial_records False unicode ih) = 0" "rs_ctrl_c (initial_records False unicode ih) = 0"
  "rs_ctrl_break (initial_records False unicode ih) = 0" "rs_decoded (initial_records False unicode ih) = None"
  by (simp_all add: initial_records_def kept_records_def split: option.split)

lemma finish_turn_rel:
  assumes rel: "record_rel sys cp pids processed unicode ih h s k" and "gi_records s = []"
    and served: "served sys cp processed unicode (initial_records False unicode (gi_handle s)) (input_stream (gi_handle s) (gi_host s))
      r (drop (rs_consumed r) (input_stream (gi_handle s) (gi_host s)))"
  shows "record_rel sys cp pids processed unicode ih h (turn_state (finish_turn pids processed False wait_allowed r s)) (k + rs_ctrl_c r)
    \<and> gi_records (turn_state (finish_turn pids processed False wait_allowed r s)) = rs_records r"
proof -
  obtain ih1 h1 where c: "(if rs_consumed r \<noteq> 0 then consume_from_stream 256 (rs_consumed r) (gi_handle s) (gi_host s)
      else (gi_handle s, gi_host s)) = (ih1, h1)" by fastforce
  have one: "input_stream ih1 h1 = drop (rs_consumed r) (input_stream (gi_handle s) (gi_host s))" "input_inv ih1 h1" "same_host (gi_host s) h1"
    using rel c consume_stream [of "gi_handle s" "gi_host s" 256 "rs_consumed r"]
    by (auto simp: record_rel_def same_host_def split: if_splits)
  let ?ih = "ih1\<lparr>ih_decoded_pending := rs_decoded r\<rparr>" and ?h = "((forward_ctrl_c pids) ^^ rs_ctrl_c r) h1"
  have state: "turn_state (finish_turn pids processed False wait_allowed r s) = \<lparr>gi_handle = ?ih, gi_host = ?h, gi_records = rs_records r\<rparr>"
    using served c by (simp add: finish_turn_def served_def initial_served Let_def)
  have stream: "input_stream ?ih ?h = drop (rs_consumed r) (input_stream (gi_handle s) (gi_host s))" "input_inv ?ih ?h"
    using one(1,2) by (simp_all add: input_stream_def input_inv_def)
  have host: "ho_signal_pipe ?h = ho_signal_pipe (gi_host s)" "input_disconnected ?h = input_disconnected (gi_host s)"
    "ho_end_tasks ?h = ho_end_tasks (gi_host s) @ ctrl_c_packets pids h1 (rs_ctrl_c r)"
    using one(3) by (simp_all add: forward_ctrl_c_power same_host_def input_disconnected_def)
  have "ctrl_c_packets pids h1 n = ctrl_c_packets pids h n" for n
    using one(3) rel by (simp add: ctrl_c_packets_def same_host_def record_rel_def)
  then show ?thesis
    using rel assms(2) served stream host unfolding state
    by (auto simp: record_rel_def owed_records_def served_def initial_served ctrl_c_packets_add)
qed

lemma record_window_queue: "queue_inv (ho_queue (gi_host s)) \<Longrightarrow> \<exists>n. record_window capacity s = take n (queue_bytes (ho_queue (gi_host s)))"
  by (auto simp: record_window_def Let_def peek_input_bytes_def queue_peek_bytes intro: exI [of _ 0])

lemma record_turn_rel:
  assumes rel: "record_rel sys cp pids processed unicode ih h s k" and none: "gi_records s = []"
  shows "\<exists>k'. record_rel sys cp pids processed unicode ih h
      (turn_state (record_turn sys cp pids processed False wait_allowed unicode capacity s)) k'"
    and "record_turn sys cp pids processed False wait_allowed unicode capacity s = Continue s' \<Longrightarrow> gi_records s' = []"
    and "record_turn sys cp pids processed False wait_allowed unicode capacity s = Return r s' \<Longrightarrow>
      gi_records s' = [] \<and> (r = ReplyPending \<or> r = Reply status_unsuccessful 0)"
proof -
  let ?ih = "gi_handle s" and ?h = "gi_host s"
  have s: "s\<lparr>gi_records := []\<rparr> = s" using none by simp
  obtain n where n: "record_window capacity s = take n (queue_bytes (ho_queue ?h))"
    using record_window_queue [of s capacity] rel by (auto simp: record_rel_def input_inv_def)
  define w where "w = pending_bytes (ih_pending_bytes ?ih) @ record_window capacity s"
  define r0 where "r0 = scan_records sys cp processed False unicode capacity (initial_records False unicode ?ih) w"
  have stream: "input_stream ?ih ?h = w @ drop n (queue_bytes (ho_queue ?h))" by (simp add: input_stream_def w_def n)
  have "unbroken sys cp processed (w @ drop n (queue_bytes (ho_queue ?h)))" using rel stream by (simp add: record_rel_def)
  from scan_records_served [OF this initial_served(5), of unicode capacity unicode ?ih]
  have served: "served sys cp processed unicode (initial_records False unicode ?ih) (input_stream ?ih ?h) r0
      (drop (rs_consumed r0) (input_stream ?ih ?h))"
    by (auto simp: r0_def stream initial_served)
  note fin = finish_turn_rel [OF rel none served, of wait_allowed]
  note turn = record_turn_def [of sys cp pids processed False wait_allowed unicode capacity s, unfolded s Let_def, folded w_def, folded r0_def]
  have park: "record_rel sys cp pids processed unicode ih h
      (s\<lparr>gi_handle := fst (park_input (record_window capacity s) ?ih ?h), gi_host := snd (park_input (record_window capacity s) ?ih ?h)\<rparr>) k"
    using rel none park_stream [OF _ n, of ?ih] by (simp add: record_rel_def owed_records_def same_host_def)
  show "\<exists>k'. record_rel sys cp pids processed unicode ih h
      (turn_state (record_turn sys cp pids processed False wait_allowed unicode capacity s)) k'"
    using rel park fin unfolding turn by (auto split: prod.split)
  show "gi_records s' = []" if "record_turn sys cp pids processed False wait_allowed unicode capacity s = Continue s'"
    using that fin unfolding turn by (auto simp: finish_turn_def Let_def split: if_splits prod.splits)
  show "gi_records s' = [] \<and> (r = ReplyPending \<or> r = Reply status_unsuccessful 0)"
    if "record_turn sys cp pids processed False wait_allowed unicode capacity s = Return r s'"
    using that none fin unfolding turn by (auto simp: finish_turn_def Let_def split: if_splits prod.splits)
qed

lemma record_loop_rel:
  assumes "record_rel sys cp pids processed unicode ih h s k" and "gi_records s = []" and "\<not> is_peek"
    and "record_loop sys cp pids processed is_peek wait_allowed unicode capacity s = (ro, s')"
  shows "\<exists>k'. record_rel sys cp pids processed unicode ih h s' k'
    \<and> (\<forall>r. ro = Some r \<longrightarrow> gi_records s' = [] \<and> (r = ReplyPending \<or> r = Reply status_unsuccessful 0))"
  using assms
proof (induction sys cp pids processed is_peek wait_allowed unicode capacity s arbitrary: k rule: record_loop.induct)
  case (1 sys cp pids processed is_peek wait_allowed unicode capacity s)
  note turn = record_turn_rel [OF "1.prems"(1,2), of wait_allowed capacity]
  note loop = record_loop.simps [of sys cp pids processed is_peek wait_allowed unicode capacity s]
  show ?case
  proof (cases "record_turn sys cp pids processed is_peek wait_allowed unicode capacity s")
    case (Continue s1)
    then show ?thesis using "1.IH" [OF Continue] turn "1.prems" loop by auto
  next
    case (Break s1)
    then show ?thesis using turn(1) "1.prems" loop by auto
  next
    case (Return r s1)
    then show ?thesis using turn(1,3) "1.prems" loop by auto
  qed
qed

text \<open>What the code relies on: the code page maps the byte 03 to the unit 03.\<close>

definition control_c_plain :: "code_pages \<Rightarrow> ulong \<Rightarrow> bool" where
  "control_c_plain sys cp \<longleftrightarrow> to_wide sys cp (cp = CP_UTF8) [3] = one_unit 3 \<and> \<not> lead_byte sys cp 3"

lemma ctrl_c_token:
  assumes "control_c_plain sys cp"
  shows "decode_one_input_token sys cp (3 # bs) = Some (empty_token\<lparr>tk_kind := text_units, tk_bytes_consumed := 1, tk_text := [3]\<rparr>)"
  using assms
  by (cases "cp = CP_UTF8")
    (auto simp: control_c_plain_def decode_one_input_token_def try_decode_vt_def decode_one_console_input_unit_def utf8_sequence_def
      convert_sequence_def chunk_of_def)

lemma strip_rel:
  assumes "record_rel sys cp pids True unicode ih0 h0 \<lparr>gi_handle = ih, gi_host = h, gi_records = []\<rparr> k"
    and "control_c_plain sys cp" and "pending_bytes (ih_pending_bytes ih) = []"
  shows "\<exists>k'. record_rel sys cp pids True unicode ih0 h0 \<lparr>gi_handle = ih, gi_host = strip_ctrl_c pids h, gi_records = []\<rparr> k'"
  using assms(1)
proof (induction pids h arbitrary: k rule: strip_ctrl_c.induct)
  case (1 pids h)
  let ?h1 = "forward_ctrl_c pids (snd (read_input_bytes 1 h))"
  have q: "queue_inv (ho_queue h)" using "1.prems" by (simp add: record_rel_def input_inv_def)
  show ?case
  proof (cases "input_bytes_available h = 0 \<or> peek_input_bytes 1 h \<noteq> [3]")
    case True
    then have "strip_ctrl_c pids h = h" by (subst strip_ctrl_c.simps) auto
    then show ?thesis using "1.prems" by auto
  next
    case False
    then have "take 1 (queue_bytes (ho_queue h)) = [3]" using queue_peek_bytes [OF q] by (simp add: peek_input_bytes_def)
    then obtain bs where bs: "queue_bytes (ho_queue h) = 3 # bs" by (cases "queue_bytes (ho_queue h)") auto
    have read: "length (fst (read_input_bytes 1 h)) = 1" "queue_bytes (ho_queue ?h1) = bs" "queue_inv (ho_queue ?h1)"
      using queue_pop_bytes [OF q, of 1] queue_inv_ops(2) [OF q] by (simp_all add: read_input_bytes_def bs forward_ctrl_c_def)
    have host: "ho_signal_pipe ?h1 = ho_signal_pipe h" "input_disconnected ?h1 = input_disconnected h"
      "ho_end_tasks ?h1 = ho_end_tasks h @ ctrl_c_packets pids h 1"
      by (simp_all add: read_input_bytes_def forward_ctrl_c_def end_tasks_fold ctrl_c_packets_def input_disconnected_def)
    have stream: "input_stream ih h = 3 # bs" "input_stream ih ?h1 = bs" using bs read assms(3) by (simp_all add: input_stream_def)
    have step: "stream_records sys cp True unicode (3 # bs) = stream_records sys cp True unicode bs"
      "stream_interrupts sys cp True (3 # bs) = Suc (stream_interrupts sys cp True bs)"
      "unbroken sys cp True (3 # bs) = unbroken sys cp True bs"
      by (simp_all add: stream_step [OF ctrl_c_token [OF assms(2)]] token_records_def token_interrupts_def breaks_def)
    have "ctrl_c_packets pids h0 (Suc k) = ctrl_c_packets pids h0 k @ ctrl_c_packets pids h 1"
      using ctrl_c_packets_add [of pids h0 k 1] "1.prems" by (simp add: record_rel_def ctrl_c_packets_def)
    then have "record_rel sys cp pids True unicode ih0 h0 \<lparr>gi_handle = ih, gi_host = ?h1, gi_records = []\<rparr> (Suc k)"
      using "1.prems" read host stream step by (simp add: record_rel_def owed_records_def input_inv_def)
    from "1.IH" [OF _ _ _ this] False read(1) show ?thesis by (subst strip_ctrl_c.simps) auto
  qed
qed

lemma read_serves_records:
  assumes "input_inv ih h" and "unbroken sys cp processed (input_stream ih h)" and "flags AND 1 = 0"
    and "processed \<longrightarrow> pending_bytes (ih_pending_bytes ih) = [] \<and> control_c_plain sys cp"
    and "get_console_input sys cp pids processed flags unicode output_size ih h = (reply, s)"
  shows "owed_records sys cp processed unicode ih h = gi_records s @ owed_records sys cp processed unicode (gi_handle s) (gi_host s)
    \<and> input_inv (gi_handle s) (gi_host s)
    \<and> (gi_records s \<noteq> [] \<longrightarrow> reply = Reply status_success (length (gi_records s) * 20))
    \<and> (\<exists>k. stream_interrupts sys cp processed (input_stream ih h)
           = k + stream_interrupts sys cp processed (input_stream (gi_handle s) (gi_host s))
         \<and> ho_end_tasks (gi_host s) = ho_end_tasks h @ ctrl_c_packets pids h k)
    \<and> length (input_stream (gi_handle s) (gi_host s)) \<le> length (input_stream ih h)"
proof -
  let ?s = "\<lambda>h. \<lparr>gi_handle = ih, gi_host = h, gi_records = []\<rparr>"
  have start: "record_rel sys cp pids processed unicode ih h (?s h) 0"
    using assms(1,2) by (simp add: record_rel_def ctrl_c_packets_def)
  have strip: "\<exists>k. record_rel sys cp pids processed unicode ih h (?s (if processed then strip_ctrl_c pids h else h)) k"
  proof (cases processed)
    case True
    then show ?thesis using strip_rel [of sys cp pids unicode ih h ih h 0] start assms(4) by auto
  qed (use start in auto)
  have "\<exists>k. record_rel sys cp pids processed unicode ih h s k \<and> (gi_records s \<noteq> [] \<longrightarrow> reply = Reply status_success (length (gi_records s) * 20))"
  proof (cases "flags AND NOT 3 \<noteq> 0 \<or> output_size div 20 = 0")
    case True
    then have "s = ?s h" using assms(5) by (auto simp: get_console_input_def Let_def split: if_splits)
    then show ?thesis using start by auto
  next
    case False
    obtain ro t where loop: "record_loop sys cp pids processed False (flags AND 2 = 0) unicode (output_size div 20)
        (?s (if processed then strip_ctrl_c pids h else h)) = (ro, t)" by fastforce
    obtain k0 where "record_rel sys cp pids processed unicode ih h (?s (if processed then strip_ctrl_c pids h else h)) k0"
      using strip by blast
    from record_loop_rel [OF this _ _ loop] obtain k where "record_rel sys cp pids processed unicode ih h t k"
      and ret: "\<forall>r. ro = Some r \<longrightarrow> gi_records t = []" by auto
    moreover have "s = t" "ro = None \<Longrightarrow> reply = Reply status_success (length (gi_records t) * 20)"
      using assms(3,5) False loop by (auto simp: get_console_input_def Let_def split: option.splits)
    ultimately show ?thesis by (cases ro) auto
  qed
  then show ?thesis by (auto simp: record_rel_def)
qed

text \<open>
  C21. Every record is delivered exactly once, as long as no control-break is pressed in processed mode.
  Take the records a handle owes its reader: the unit kept from a split surrogate pair and the
  records of all complete tokens of its stream. A read that removes returns the first of them, and the
  handle then owes exactly the others, whatever the buffer size and whether it waits. Without
  processed input this holds however the bytes are spread over the prefix and the queue; with it, for
  reads that start with an empty prefix, since control-C bytes are then taken from the front of the
  queue first. The control-C events sent to the processes are those of the bytes used, once each.
\<close>

theorem records_exactly_once:
  assumes "input_inv ih h" and "unbroken sys cp processed (input_stream ih h)" and "flags AND 1 = 0"
    and "processed \<longrightarrow> pending_bytes (ih_pending_bytes ih) = [] \<and> control_c_plain sys cp"
    and "get_console_input sys cp pids processed flags unicode output_size ih h = (reply, s)"
  shows "owed_records sys cp processed unicode ih h = gi_records s @ owed_records sys cp processed unicode (gi_handle s) (gi_host s)
    \<and> input_inv (gi_handle s) (gi_host s)
    \<and> (gi_records s \<noteq> [] \<longrightarrow> reply = Reply status_success (length (gi_records s) * 20))
    \<and> (\<exists>k. stream_interrupts sys cp processed (input_stream ih h)
           = k + stream_interrupts sys cp processed (input_stream (gi_handle s) (gi_host s))
         \<and> ho_end_tasks (gi_host s) = ho_end_tasks h @ ctrl_c_packets pids h k)"
  using read_serves_records [OF assms] by blast

text \<open>A code page whose conversions are the identity on bytes.\<close>

definition latin_pages :: code_pages where
  "latin_pages = \<lparr>to_wide = \<lambda>cp strict bs. one_unit (ucast (hd bs)), lead_byte = \<lambda>cp b. False\<rparr>"

lemma latin_token:
  "b \<noteq> 0x1B \<Longrightarrow> b \<noteq> 0x9B \<Longrightarrow> decode_one_input_token latin_pages 1252 (b # bs) =
    Some (empty_token\<lparr>tk_kind := text_units, tk_bytes_consumed := 1, tk_text := [ucast b]\<rparr>)"
  by (simp add: decode_one_input_token_def try_decode_vt_def decode_one_console_input_unit_def convert_sequence_def
      latin_pages_def chunk_of_def)

lemma stream_empty:
  "stream_records sys cp processed unicode [] = []" "stream_interrupts sys cp processed [] = 0" "unbroken sys cp processed []"
proof -
  have "decode_one_input_token sys cp [] = None" by (simp add: decode_one_input_token_def try_decode_vt_def)
  then show "stream_records sys cp processed unicode [] = []" "stream_interrupts sys cp processed [] = 0" "unbroken sys cp processed []"
    by (simp_all add: stream_records_def stream_interrupts_def unbroken_def tok.drain_unfold)
qed

theorem records_exactly_once_witness:
  "let s = snd (get_console_input latin_pages 1252 [7] True 2 True 40 new_input_handle (queued [0x03, 0x61]))
   in gi_records s @ owed_records latin_pages 1252 True True (gi_handle s) (gi_host s) = [char_record True 0x61]"
proof -
  obtain r s where run: "get_console_input latin_pages 1252 [7] True 2 True 40 new_input_handle (queued [0x03, 0x61]) = (r, s)" by fastforce
  have "unbroken latin_pages 1252 True [0x03, 0x61]" "stream_records latin_pages 1252 True True [0x03, 0x61] = [char_record True 0x61]"
    by (simp_all add: stream_step [OF latin_token] stream_empty breaks_def token_records_def)
  moreover have "control_c_plain latin_pages 1252" by (simp add: control_c_plain_def latin_pages_def)
  moreover have "pending_bytes (ih_pending_bytes new_input_handle) = []" "ih_decoded_pending new_input_handle = None"
    by (simp_all add: new_input_handle_def pending_defs)
  ultimately have "[char_record True 0x61] = gi_records s @ owed_records latin_pages 1252 True True (gi_handle s) (gi_host s)"
    using records_exactly_once [OF queued_input(1) _ _ _ run]
    by (simp add: queued_input(2) owed_records_def [of _ _ _ _ new_input_handle] kept_records_def)
  then show ?thesis by (simp add: run)
qed

section \<open>Bounds and peeks\<close>

lemma scan_token_length:
  "length (rs_records s) < capacity \<Longrightarrow> length (rs_records (snd (scan_token processed is_peek unicode capacity t s))) \<le> capacity"
  by (auto simp: scan_token_def scan_key_def scan_text_def Let_def split: TokenKind.split)

lemma scan_token_peek: "rs_decoded (snd (scan_token processed True unicode capacity t s)) = rs_decoded s"
  by (auto simp: scan_token_def scan_key_def scan_text_def Let_def split: TokenKind.split)

text \<open>A step of the scan: it stops, or it goes on behind a token.\<close>

lemma scan_records_cases:
  obtains (stop) "scan_records sys cp processed is_peek unicode capacity s rest = s"
    | (last) t where "decode_one_input_token sys cp rest = Some t" "length (rs_records s) < capacity"
        "scan_records sys cp processed is_peek unicode capacity s rest = snd (scan_token processed is_peek unicode capacity t s)"
        "\<not> fst (scan_token processed is_peek unicode capacity t s)"
    | (again) t where "decode_one_input_token sys cp rest = Some t" "length (rs_records s) < capacity" "0 < tk_bytes_consumed t" "rest \<noteq> []"
        "scan_records sys cp processed is_peek unicode capacity s rest =
         scan_records sys cp processed is_peek unicode capacity (snd (scan_token processed is_peek unicode capacity t s))
           (drop (tk_bytes_consumed t) rest)" "fst (scan_token processed is_peek unicode capacity t s)"
proof -
  note eq = scan_records.simps [of sys cp processed is_peek unicode capacity s rest]
  show thesis
  proof (cases "decode_one_input_token sys cp rest = None \<or> capacity \<le> length (rs_records s) \<or> rest = []")
    case True
    then show thesis by (intro stop) (auto simp: eq)
  next
    case False
    then obtain t where t: "decode_one_input_token sys cp rest = Some t" and room: "length (rs_records s) < capacity" "rest \<noteq> []" by auto
    note n = tok.dec_progress [OF t]
    show thesis
      using last [OF t room(1)] again [OF t room(1) n room(2)] n room t eq
      by (cases "scan_token processed is_peek unicode capacity t s") (auto split: if_splits)
  qed
qed

lemma scan_records_length:
  "length (rs_records s) \<le> capacity \<Longrightarrow>
    length (rs_records (scan_records sys cp processed is_peek unicode capacity s rest)) \<le> capacity"
proof (induction "length rest" arbitrary: rest s rule: less_induct)
  case less
  show ?case
  proof (cases rule: scan_records_cases [of sys cp processed is_peek unicode capacity s rest])
    case stop
    then show ?thesis using less.prems by simp
  next
    case (last t)
    then show ?thesis using scan_token_length by simp
  next
    case (again t)
    then show ?thesis using less.hyps [of "drop (tk_bytes_consumed t) rest"] scan_token_length by simp
  qed
qed

lemma scan_records_peek: "rs_decoded (scan_records sys cp processed True unicode capacity s rest) = rs_decoded s"
proof (induction "length rest" arbitrary: rest s rule: less_induct)
  case less
  show ?case
  proof (cases rule: scan_records_cases [of sys cp processed True unicode capacity s rest])
    case (again t)
    then show ?thesis using less.hyps [of "drop (tk_bytes_consumed t) rest"] scan_token_peek by simp
  qed (simp_all add: scan_token_peek)
qed

lemma record_turn_length:
  assumes "0 < capacity"
  shows "length (gi_records (turn_state (record_turn sys cp pids processed is_peek wait_allowed unicode capacity s))) \<le> capacity"
proof -
  have "length (rs_records (initial_records p unicode ih)) \<le> capacity" for p ih
    using assms by (simp add: initial_records_def split: option.split)
  note le = scan_records_length [OF this]
  have "gi_records (turn_state (finish_turn pids processed p w r s)) = rs_records r" for p w r s
    by (simp add: finish_turn_def Let_def split_beta)
  then have "length (gi_records (turn_state (finish_turn pids processed p w
      (scan_records sys cp processed p unicode capacity (initial_records p unicode ih) bytes) s))) \<le> capacity" for p w ih bytes s
    using le by simp
  then show ?thesis unfolding record_turn_def Let_def split_beta by simp
qed

lemma record_loop_length:
  "0 < capacity \<Longrightarrow> length (gi_records (snd (record_loop sys cp pids processed is_peek wait_allowed unicode capacity s))) \<le> capacity"
proof (induction sys cp pids processed is_peek wait_allowed unicode capacity s rule: record_loop.induct)
  case (1 sys cp pids processed is_peek wait_allowed unicode capacity s)
  note turn = record_turn_length [OF "1.prems", of sys cp pids processed is_peek wait_allowed unicode s]
  show ?case
    using 1 turn
    by (cases "record_turn sys cp pids processed is_peek wait_allowed unicode capacity s")
      (simp_all add: record_loop.simps [of sys cp pids processed is_peek wait_allowed unicode capacity s])
qed

text \<open>
  A record read never writes past the output buffer, in any mode and for any input: the records
  it stores take at most the bytes of the buffer.
\<close>

theorem records_fit_buffer:
  "length (gi_records (snd (get_console_input sys cp pids processed flags unicode output_size ih h))) * 20 \<le> output_size"
proof -
  have "output_size div 20 * 20 \<le> output_size" by simp
  moreover have "length (gi_records (snd (get_console_input sys cp pids processed flags unicode output_size ih h))) \<le> output_size div 20"
    using record_loop_length [of "output_size div 20" sys cp pids processed "flags AND 1 \<noteq> 0" "flags AND 2 = 0" unicode]
    by (auto simp: get_console_input_def Let_def split: prod.split option.split) (metis snd_conv)+
  ultimately show ?thesis by (meson mult_le_mono1 order_trans)
qed

text \<open>A peek shows a beginning of the records to come.\<close>

lemma scan_token_shows:
  assumes "\<not> breaks processed t" and "tk_kind t = text_units \<longrightarrow> tk_text t \<noteq> []"
  shows "\<exists>ys. rs_records s @ token_records processed unicode t = rs_records (snd (scan_token processed True unicode capacity t s)) @ ys
    \<and> (fst (scan_token processed True unicode capacity t s) \<longrightarrow> ys = [])"
    and "rs_ctrl_break (snd (scan_token processed True unicode capacity t s)) = rs_ctrl_break s"
  using assms
  by (cases "tk_text t"; auto simp: scan_token_def scan_key_def scan_text_def token_records_def breaks_def Let_def split: TokenKind.split)+

lemma scan_peek_prefix:
  assumes "unbroken sys cp processed (rest @ later)"
  shows "(\<exists>ys. rs_records s @ stream_records sys cp processed unicode (rest @ later) =
      rs_records (scan_records sys cp processed True unicode capacity s rest) @ ys)
    \<and> rs_ctrl_break (scan_records sys cp processed True unicode capacity s rest) = rs_ctrl_break s"
  using assms
proof (induction "length rest" arbitrary: rest s rule: less_induct)
  case less
  show ?case
  proof (cases rule: scan_records_cases [of sys cp processed True unicode capacity s rest])
    case stop
    then show ?thesis by simp
  next
    case (last t)
    let ?s = "snd (scan_token processed True unicode capacity t s)"
    have st: "stream_records sys cp processed unicode (rest @ later) =
        token_records processed unicode t @ stream_records sys cp processed unicode (drop (tk_bytes_consumed t) (rest @ later))"
      and b: "\<not> breaks processed t"
      using stream_step [OF tok.dec_stable [OF last(1), of later]] less.prems by auto
    obtain ys where "rs_records s @ token_records processed unicode t = rs_records ?s @ ys" "rs_ctrl_break ?s = rs_ctrl_break s"
      using scan_token_shows [OF b] token_text [OF last(1)] by blast
    then show ?thesis
      unfolding last(3) st append_assoc [symmetric] by simp
  next
    case (again t)
    let ?s = "snd (scan_token processed True unicode capacity t s)" and ?rest = "drop (tk_bytes_consumed t) rest"
    have dr: "drop (tk_bytes_consumed t) (rest @ later) = ?rest @ later" using tok.dec_bound [OF again(1)] by simp
    have st: "stream_records sys cp processed unicode (rest @ later) =
        token_records processed unicode t @ stream_records sys cp processed unicode (?rest @ later)"
      and b: "\<not> breaks processed t" and unb: "unbroken sys cp processed (?rest @ later)"
      using stream_step [OF tok.dec_stable [OF again(1), of later], unfolded dr] less.prems by auto
    have "rs_records s @ token_records processed unicode t = rs_records ?s" "rs_ctrl_break ?s = rs_ctrl_break s"
      using scan_token_shows [OF b, where s = s and unicode = unicode and capacity = capacity] token_text [OF again(1)] again(6) by auto
    moreover have "length ?rest < length rest" using again(3,4) by simp
    note less.hyps [OF this unb, of ?s]
    ultimately show ?thesis unfolding again(5) st append_assoc [symmetric] by simp
  qed
qed

text \<open>
  A peek changes nothing: in unprocessed mode a read with the no-remove flag leaves the handle,
  the queue and the signals exactly as they were, and the records it shows are the first of those
  the handle owes its reader, the ones the next read will return.
\<close>

theorem peek_shows_next_records:
  assumes "input_inv ih h" and "flags AND 1 \<noteq> 0"
    and "get_console_input sys cp pids False flags unicode output_size ih h = (reply, s)"
  shows "gi_handle s = ih \<and> gi_host s = h \<and> (\<exists>ys. owed_records sys cp False unicode ih h = gi_records s @ ys)"
proof -
  let ?s = "\<lparr>gi_handle = ih, gi_host = h, gi_records = []\<rparr>" and ?c = "output_size div 20" and ?w = "flags AND 2 = 0"
  obtain n where n: "record_window ?c ?s = take n (queue_bytes (ho_queue h))"
    using record_window_queue [of ?s ?c] assms(1) by (auto simp: input_inv_def)
  define w where "w = pending_bytes (ih_pending_bytes ih) @ record_window ?c ?s"
  define r where "r = scan_records sys cp False True unicode ?c (initial_records True unicode ih) w"
  have stream: "input_stream ih h = w @ drop n (queue_bytes (ho_queue h))" by (simp add: input_stream_def w_def n)
  have unb: "unbroken sys cp False bs" for bs by (simp add: unbroken_def breaks_def list_all_iff)
  have init: "rs_records (initial_records True unicode ih) = kept_records unicode (ih_decoded_pending ih)"
    "rs_ctrl_break (initial_records True unicode ih) = 0" "rs_decoded (initial_records True unicode ih) = ih_decoded_pending ih"
    by (simp_all add: initial_records_def kept_records_def split: option.split)
  obtain ys where "owed_records sys cp False unicode ih h = rs_records r @ ys"
    using scan_peek_prefix [OF unb, of "initial_records True unicode ih" unicode w _ ?c]
    by (auto simp: owed_records_def init stream r_def)
  moreover have "rs_decoded r = ih_decoded_pending ih" by (simp add: r_def scan_records_peek init)
  then have fin: "finish_turn pids False True ?w r ?s = Break \<lparr>gi_handle = ih, gi_host = h, gi_records = rs_records r\<rparr>"
    by (simp add: finish_turn_def)
  moreover have "\<exists>x. record_turn sys cp pids False True ?w unicode ?c ?s = Return x ?s
      \<or> record_turn sys cp pids False True ?w unicode ?c ?s = Break \<lparr>gi_handle = ih, gi_host = h, gi_records = rs_records r\<rparr>"
    unfolding record_turn_def Let_def using fin by (simp add: r_def w_def)
  then have "s = ?s \<or> s = \<lparr>gi_handle = ih, gi_host = h, gi_records = rs_records r\<rparr>"
    using assms(2,3) by (auto simp: get_console_input_def record_loop.simps Let_def split: if_splits)
  ultimately show ?thesis by auto
qed

theorem peek_shows_next_records_witness:
  "gi_host (snd (get_console_input latin_pages 1252 [] False 1 True 40 new_input_handle (queued [0x61]))) = queued [0x61]"
proof -
  obtain r s where run: "get_console_input latin_pages 1252 [] False 1 True 40 new_input_handle (queued [0x61]) = (r, s)" by fastforce
  show ?thesis using peek_shows_next_records [OF queued_input(1) _ run] run by simp
qed

section \<open>A sequence longer than the prefix\<close>

definition digit_byte :: "byte \<Rightarrow> bool" where
  "digit_byte b \<longleftrightarrow> 0x30 \<le> b \<and> b \<le> 0x39"

lemma param_loop_digit_run: "list_all digit_byte bs \<Longrightarrow> \<exists>s' pos'. param_loop s pos bs = (s', pos', [])"
  by (induction bs arbitrary: s pos) (auto simp: digit_byte_def)

lemma digit_run_incomplete:
  assumes "list_all digit_byte ds" and "ds \<noteq> []"
  shows "try_decode_vt (0x1B # 0x5B # ds) = (need_more_data, empty_token)"
proof -
  obtain d ds' where d: "ds = d # ds'" "digit_byte d" using assms by (cases ds) auto
  then have "d \<notin> {0x49, 0x4F, 0x41, 0x42, 0x43, 0x44, 0x48, 0x46, 0x3F}" by (auto simp: digit_byte_def word_le_nat_alt)
  then have "try_decode_vt (0x1B # 0x5B # ds) = decode_params 2 ds"
    using d by (simp add: try_decode_vt_def decode_csi_def csi_prefix_def)
  then show ?thesis using param_loop_digit_run [OF assms(1), of initial_scan 2] by (auto simp: decode_params_def)
qed

text \<open>
  A long sequence blocks record reads for good. When a handle's prefix is full with a CSI and 62
  digits and the queue continues with 64 digits, a waiting read for one record stays pending and
  changes nothing, whatever follows in the queue: the window is too short to see the end of the
  sequence, the prefix too small to take more of it, and unlike the raw read this handler has no
  way to give up on it. Every later read of this kind finds the same state.
\<close>

theorem long_sequence_blocks_reader:
  assumes "input_inv ih h" and "ih_decoded_pending ih = None" and "\<not> input_disconnected h"
    and "pending_bytes (ih_pending_bytes ih) = [0x1B, 0x5B] @ ds" and "length ds = 62" and "list_all digit_byte ds"
    and "queue_bytes (ho_queue h) = es @ later" and "length es = 64" and "list_all digit_byte es"
  shows "get_console_input sys cp pids False 0 unicode 20 ih h = (ReplyPending, \<lparr>gi_handle = ih, gi_host = h, gi_records = []\<rparr>)"
proof -
  let ?s = "\<lparr>gi_handle = ih, gi_host = h, gi_records = []\<rparr>" and ?p = "ih_pending_bytes ih"
  have i: "pending_inv ?p" "queue_inv (ho_queue h)" using assms(1) by (simp_all add: input_inv_def)
  have size: "pi_size ?p = 64" using pending_size(1) [OF i(1)] assms(4,5) by simp
  have avail: "input_bytes_available h = 64 + length later"
    using queue.amount_contents [OF i(2)] assms(7,8) by (simp add: input_bytes_available_def)
  have window: "record_window 1 ?s = es"
    using avail queue_peek_bytes [OF i(2)] assms(7,8) by (simp add: record_window_def peek_input_bytes_def)
  have "list_all digit_byte (ds @ es)" "ds @ es \<noteq> []" using assms(5,6,9) by auto
  then have none: "decode_one_input_token sys cp (pending_bytes ?p @ es) = None"
    using digit_run_incomplete [of "ds @ es"] assms(4) by (simp add: decode_one_input_token_def)
  have scan: "scan_records sys cp False False unicode 1 (initial_records False unicode ih) (pending_bytes ?p @ es) = initial_records False unicode ih"
    by (simp add: scan_records.simps none)
  have init: "rs_records (initial_records False unicode ih) = []" "rs_consumed (initial_records False unicode ih) = 0"
    using assms(2) by (simp_all add: initial_records_def)
  have park: "park_input es ih h = (ih, h)"
    using pending_append_bytes(1) [OF i(1), of es] assms(4,5,8)
    by (cases "pending_append es ?p") (auto simp: park_input_def split: bool.split)
  have "record_turn sys cp pids False False True unicode 1 ?s = Return ReplyPending ?s"
    using assms(3) size window scan init none park assms(4) by (simp add: record_turn_def Let_def)
  then show ?thesis by (simp add: get_console_input_def record_loop.simps)
qed

theorem long_sequence_blocks_reader_witness:
  "let ih = new_input_handle\<lparr>ih_pending_bytes := snd (pending_append ([0x1B, 0x5B] @ replicate 62 0x31) no_pending_bytes)\<rparr>;
       h = queued (replicate 64 0x31 @ [0x7E, 0x61])
   in get_console_input latin_pages 1252 [] False 0 True 20 ih h = (ReplyPending, \<lparr>gi_handle = ih, gi_host = h, gi_records = []\<rparr>)"
proof -
  let ?p = "snd (pending_append ([0x1B, 0x5B] @ replicate 62 0x31) no_pending_bytes)"
  let ?ih = "new_input_handle\<lparr>ih_pending_bytes := ?p\<rparr>" and ?h = "queued (replicate 64 0x31 @ [0x7E, 0x61])"
  have empty: "pending_inv no_pending_bytes" "pending_bytes no_pending_bytes = []" by (simp_all add: pending_defs)
  have p: "pending_inv ?p" "pending_bytes ?p = [0x1B, 0x5B] @ replicate 62 0x31"
    using pending_inv_ops(1) [OF empty(1)] pending_append_bytes(2) [OF empty(1)] empty(2) by simp_all
  have q: "queue_inv (ho_queue ?h)" "queue_bytes (ho_queue ?h) = replicate 64 0x31 @ [0x7E, 0x61]"
    using queued_input [of "replicate 64 0x31 @ [0x7E, 0x61]"] by (simp_all add: input_inv_def input_stream_def new_input_handle_def pending_defs)
  have ones: "list_all digit_byte (replicate n 0x31)" for n by (simp add: list_all_iff digit_byte_def)
  have h: "\<not> input_disconnected ?h" "input_inv ?ih ?h"
    using p(1) q(1) by (simp_all add: input_inv_def) (simp add: queued_def input_disconnected_def new_queue_def queue_push_def
        update_event_locked_def Let_def)
  show ?thesis
    using long_sequence_blocks_reader [OF h(2) _ h(1), of "replicate 62 0x31" "replicate 64 0x31" "[0x7E, 0x61]" latin_pages 1252 "[]" True]
      p(2) q(2) ones by (simp add: new_input_handle_def Let_def)
qed

end
