(* ===== verification/Cooked_Read.thy ===== *)
theory Cooked_Read
  imports Line_Edit Record_Read
begin

text \<open>
  Cooked reads: \<open>ConsolepReadConsole\<close> of \<open>dispatch_message\<close> (\<open>condrv_server.hpp\<close>) with line input. The
  request reads tokens from the stream of its handle, edits the line in progress, echoes, and
  answers when a line is complete; what does not fit the caller's buffer waits in the handle for
  the next read. An unfinished line waits there too.
\<close>

section \<open>The handler\<close>

abbreviation status_buffer_too_small :: ulong where "status_buffer_too_small \<equiv> 0xC0000023"

text \<open>
  What a request brings with it: the input code page and its conversions, the processes, the three
  mode bits, the fields of the message. \<open>k_narrow\<close> is \<open>WideCharToMultiByte\<close> with the input code page; it gives
  no bytes when it fails, as it does for no units.
\<close>

record CookedCall =
  k_sys :: code_pages
  k_code_page :: ulong
  k_narrow :: "wstring \<Rightarrow> byte list"
  k_pids :: "ulong list"
  k_processed :: bool
  k_echo :: bool
  k_unicode :: bool
  k_process_control_z :: bool

text \<open>Besides handle, host and output buffer: the pieces echoed and the commands given to the history.\<close>

record CookedRead =
  cr_handle :: InputHandle
  cr_host :: HostIo
  cr_output :: "byte list"
  cr_echoed :: "wstring list"
  cr_commands :: "wstring list"

definition line_of :: "InputHandle \<Rightarrow> LineEdit" where
  "line_of ih = \<lparr>le_line = ih_line ih, le_cursor = ih_line_cursor ih, le_insert = ih_insert_mode ih\<rparr>"

definition put_line :: "LineEdit \<Rightarrow> InputHandle \<Rightarrow> InputHandle" where
  "put_line e ih = ih\<lparr>ih_line := le_line e, ih_line_cursor := le_cursor e, ih_insert_mode := le_insert e\<rparr>"

text \<open>
  Echoed text is written to the active screen buffer, and a status query that it completes is answered
  into the input queue. \<open>an es p\<close> is what the echo of the piece \<open>p\<close> after the pieces \<open>es\<close> injects, in order,
  each answer with the outcome of its allocation; the screen determines it (\<open>answers_of_echo\<close> of
  \<open>Server_Requests\<close>). With a terminal behind the output, and without echo, there are no answers: \<open>silent\<close>.
\<close>

type_synonym echo_answers = "wstring list \<Rightarrow> wstring \<Rightarrow> (bool \<times> byte list) list"

definition silent :: echo_answers where
  "silent es p = []"

definition echo_piece :: "echo_answers \<Rightarrow> wstring \<Rightarrow> CookedRead \<Rightarrow> CookedRead" where
  "echo_piece an p s =
    s\<lparr>cr_host := fold (\<lambda>(mem_ok, bytes). inject_input_bytes mem_ok bytes) (an (cr_echoed s) p) (cr_host s),
      cr_echoed := cr_echoed s @ [p]\<rparr>"

definition echo_pieces :: "echo_answers \<Rightarrow> CookedCall \<Rightarrow> wstring list \<Rightarrow> CookedRead \<Rightarrow> CookedRead" where
  "echo_pieces an k ps s = (if k_echo k then fold (echo_piece an) ps s else s)"

text \<open>An operation of the editor applied to the handle.\<close>

definition run_edit :: "echo_answers \<Rightarrow> CookedCall \<Rightarrow> (LineEdit \<Rightarrow> edit) \<Rightarrow> CookedRead \<Rightarrow> CookedRead" where
  "run_edit an k f s =
    (case f (line_of (cr_handle s)) of (e, ps) \<Rightarrow> echo_pieces an k ps (s\<lparr>cr_handle := put_line e (cr_handle s)\<rparr>))"

definition newline_suffix :: "bool \<Rightarrow> wstring" where
  "newline_suffix processed_input = (if processed_input then [0x0D, 0x0A] else [0x0D])"

subsection \<open>Delivery\<close>

definition wchar_bytes :: "wchar \<Rightarrow> byte list" where
  "wchar_bytes u = [ucast u, ucast (drop_bit 8 u)]"

definition store_front :: "byte list \<Rightarrow> byte list \<Rightarrow> byte list" where
  "store_front data output = data @ drop (length data) output"

text \<open>The binary search for the longest prefix whose encoding fits; the indices are of type \<open>int\<close>.\<close>

function ansi_search :: "(wstring \<Rightarrow> byte list) \<Rightarrow> wstring \<Rightarrow> nat \<Rightarrow> int \<Rightarrow> int \<Rightarrow> int \<Rightarrow> int" where
  "ansi_search narrow data capacity low high best =
    (if low \<le> high then
       let mid = low + (high - low) div 2; required = length (narrow (take (nat mid) data))
       in if required = 0 then ansi_search narrow data capacity low (mid - 1) best
          else if required \<le> capacity then ansi_search narrow data capacity (mid + 1) high mid
          else ansi_search narrow data capacity low (mid - 1) best
     else best)"
  by pat_completeness auto

termination
  by (relation "measure (\<lambda>(narrow, data, capacity, low, high, best). nat (high - low + 1))") auto

declare ansi_search.simps [simp del]

text \<open>A high surrogate at the end of the prefix is left for the next read.\<close>

definition ansi_prefix :: "(wstring \<Rightarrow> byte list) \<Rightarrow> wstring \<Rightarrow> nat \<Rightarrow> nat" where
  "ansi_prefix narrow data capacity =
    (let max_units = min (length data) 0x7FFFFFFF;
         best = nat (ansi_search narrow data capacity 0 (int max_units) 0)
     in if best \<noteq> 0 \<and> best < length data then
          (if is_high_surrogate (data ! (best - 1)) \<and> is_low_surrogate (data ! best) then best - 1
           else if is_high_surrogate (data ! (best - 1)) then best - 1
           else best)
        else best)"

definition deliver_unicode :: "CookedRead \<Rightarrow> reply \<times> CookedRead" where
  "deliver_unicode s =
    (let pending = ih_cooked_pending (cr_handle s); to_copy = min (length pending) (length (cr_output s) div 2)
     in (Reply status_success (min (to_copy * 2) 0xFFFFFFFF),
         s\<lparr>cr_output := store_front (concat (map wchar_bytes (take to_copy pending))) (cr_output s),
           cr_handle := (cr_handle s)\<lparr>ih_cooked_pending := drop to_copy pending\<rparr>\<rparr>))"

definition deliver_ansi :: "(wstring \<Rightarrow> byte list) \<Rightarrow> CookedRead \<Rightarrow> reply \<times> CookedRead" where
  "deliver_ansi narrow s =
    (let pending = ih_cooked_pending (cr_handle s); capacity = length (cr_output s)
     in if pending = [] \<or> capacity = 0 then (Reply status_success 0, s)
        else
          let best = ansi_prefix narrow pending capacity
          in if best = 0 then
               let minimal_units = (if length pending \<ge> 2 \<and> is_high_surrogate (pending ! 0) \<and> is_low_surrogate (pending ! 1) then 2 else 1)
               in (Reply (if narrow (take minimal_units pending) = [] then status_invalid_parameter else status_buffer_too_small) 0, s)
             else
               let encoded = narrow (take best pending);
                   written = (if length encoded \<le> min capacity 0x7FFFFFFF then encoded else [])
               in if written = [] then (Reply status_invalid_parameter 0, s)
                  else (Reply status_success (length written),
                        s\<lparr>cr_output := store_front written (cr_output s),
                          cr_handle := (cr_handle s)\<lparr>ih_cooked_pending := drop best pending\<rparr>\<rparr>))"

definition deliver_pending :: "CookedCall \<Rightarrow> CookedRead \<Rightarrow> reply \<times> CookedRead" where
  "deliver_pending k s =
    (if ih_cooked_pending (cr_handle s) = [] then (Reply status_success 0, s)
     else if k_unicode k then deliver_unicode s
     else deliver_ansi (k_narrow k) s)"

subsection \<open>Units and keys\<close>

definition cooked_consume :: "nat \<Rightarrow> CookedRead \<Rightarrow> CookedRead" where
  "cooked_consume n s = (let (ih, h) = consume_from_stream 16 n (cr_handle s) (cr_host s) in s\<lparr>cr_handle := ih, cr_host := h\<rparr>)"

definition cooked_peek :: "CookedRead \<Rightarrow> byte list" where
  "cooked_peek s =
    (let pending_before = pi_size (ih_pending_bytes (cr_handle s))
     in if pending_before < 64 then peek_input_bytes (64 - pending_before) (cr_host s) else [])"

definition cooked_head :: "CookedRead \<Rightarrow> byte list" where
  "cooked_head s = pending_bytes (ih_pending_bytes (cr_handle s)) @ cooked_peek s"

definition stream_empty_now :: "CookedRead \<Rightarrow> bool" where
  "stream_empty_now s \<longleftrightarrow> input_bytes_available (cr_host s) = 0 \<and> pi_size (ih_pending_bytes (cr_handle s)) = 0"

text \<open>A line feed that follows a carriage return is part of the same key.\<close>

definition is_lf_token :: "DecodedToken \<Rightarrow> bool" where
  "is_lf_token t \<longleftrightarrow> (tk_kind t = text_units \<and> length (tk_text t) = 1 \<and> tk_text t ! 0 = 0x0A)
    \<or> (tk_kind t = key_event \<and> bKeyDown (tk_key t) \<and> UnicodeChar (tk_key t) = 0x0A)"

definition skip_line_feed :: "CookedCall \<Rightarrow> CookedRead \<Rightarrow> CookedRead" where
  "skip_line_feed k s =
    (if stream_empty_now s then s
     else if cooked_head s = [] then s
     else case decode_one_input_token (k_sys k) (k_code_page k) (cooked_head s) of
            None \<Rightarrow> s
          | Some t \<Rightarrow> if tk_bytes_consumed t \<noteq> 0 \<and> is_lf_token t then cooked_consume (tk_bytes_consumed t) s else s)"

definition finish_line :: "echo_answers \<Rightarrow> CookedCall \<Rightarrow> wchar \<Rightarrow> CookedRead \<Rightarrow> CookedRead turn" where
  "finish_line an k value s =
    (let s = run_edit an k (\<lambda>e. if le_cursor e < length (le_line e)
                             then (e\<lparr>le_cursor := length (le_line e)\<rparr>, echo_range (le_line e) (le_cursor e) (length (le_line e)))
                             else (e, [])) s;
         s = (if value = 0x0D then skip_line_feed k s else s);
         s = echo_pieces an k [newline_suffix (k_processed k)] s;
         line = ih_line (cr_handle s);
         s = (if k_echo k then s\<lparr>cr_commands := cr_commands s @ [line]\<rparr> else s);
         s = s\<lparr>cr_handle := (cr_handle s)\<lparr>ih_cooked_pending := line @ newline_suffix (k_processed k), ih_line := [], ih_line_cursor := 0\<rparr>\<rparr>;
         (r, s) = deliver_pending k s
     in Return r s)"

definition handle_single_unit :: "echo_answers \<Rightarrow> CookedCall \<Rightarrow> wchar \<Rightarrow> CookedRead \<Rightarrow> CookedRead turn" where
  "handle_single_unit an k value s =
    (let s = s\<lparr>cr_handle := put_line (normalize_cursor (line_of (cr_handle s))) (cr_handle s)\<rparr>
     in if k_process_control_z k \<and> ih_line (cr_handle s) = [] \<and> value = 0x001A then
          Return (Reply status_success 0) (s\<lparr>cr_output := (cr_output s)[0 := 0]\<rparr>)
        else if k_processed k \<and> value = 0x0003 then
          Return (Reply status_alerted 0) (s\<lparr>cr_host := forward_ctrl_c (k_pids k) (cr_host s)\<rparr>)
        else if value = 0x08 then Continue (run_edit an k erase_back s)
        else if value = 0x0D \<or> value = 0x0A then finish_line an k value s
        else Continue (run_edit an k (insert_unit value) s))"

fun unit_loop :: "echo_answers \<Rightarrow> CookedCall \<Rightarrow> wstring \<Rightarrow> CookedRead \<Rightarrow> CookedRead turn" where
  "unit_loop an k [] s = Continue s"
| "unit_loop an k (v # vs) s =
    (case handle_single_unit an k v s of
       Continue s' \<Rightarrow> unit_loop an k vs s'
     | Break s' \<Rightarrow> Break s'
     | Return r s' \<Rightarrow> Return r s')"

definition break_cooked :: "CookedCall \<Rightarrow> CookedRead \<Rightarrow> CookedRead" where
  "break_cooked k s =
    s\<lparr>cr_handle := (reset_input_handle (cr_handle s))\<lparr>ih_line_cursor := 0, ih_insert_mode := True\<rparr>,
      cr_host := forward_ctrl_break (k_pids k) (flush_input_buffer (cr_host s))\<rparr>"

definition cooked_key :: "echo_answers \<Rightarrow> CookedCall \<Rightarrow> KEY_EVENT_RECORD \<Rightarrow> CookedRead \<Rightarrow> CookedRead turn" where
  "cooked_key an k key s =
    (if \<not> bKeyDown key then Continue s
     else if k_processed k \<and> key_event_matches_ctrl_break key then Return (Reply status_alerted 0) (break_cooked k s)
     else if k_processed k \<and> key_event_matches_ctrl_c key then
       Return (Reply status_alerted 0) (s\<lparr>cr_host := forward_ctrl_c (k_pids k) (cr_host s)\<rparr>)
     else
       let repeats = max 1 (unat (wRepeatCount key)); ctrl_pressed = (dwControlKeyState key AND ctrl_mask \<noteq> 0)
       in case edit_vkey_of (wVirtualKeyCode key) of
            Some vk \<Rightarrow> Continue (run_edit an k (edit_key vk ctrl_pressed repeats) s)
          | None \<Rightarrow>
              if UnicodeChar key = 0 then Continue s
              else unit_loop an k (replicate repeats (UnicodeChar key)) s)"

subsection \<open>The loop\<close>

text \<open>A token whose bytes have been used up.\<close>

definition cooked_token :: "echo_answers \<Rightarrow> CookedCall \<Rightarrow> DecodedToken \<Rightarrow> CookedRead \<Rightarrow> CookedRead turn" where
  "cooked_token an k token s =
    (case tk_kind token of
       ignored_sequence \<Rightarrow> Continue s
     | key_event \<Rightarrow> cooked_key an k (tk_key token) s
     | text_units \<Rightarrow> if tk_text token = [] then Break s else unit_loop an k (tk_text token) s)"

definition cooked_turn :: "echo_answers \<Rightarrow> CookedCall \<Rightarrow> CookedRead \<Rightarrow> CookedRead turn" where
  "cooked_turn an k s =
    (if stream_empty_now s then Break s
     else if cooked_head s = [] then Break s
     else case decode_one_input_token (k_sys k) (k_code_page k) (cooked_head s) of
            None \<Rightarrow>
              let (ih, h) = park_input (cooked_peek s) (cr_handle s) (cr_host s) in Break (s\<lparr>cr_handle := ih, cr_host := h\<rparr>)
          | Some token \<Rightarrow>
              if tk_bytes_consumed token = 0 then Break s
              else cooked_token an k token (cooked_consume (tk_bytes_consumed token) s))"

section \<open>Every turn that goes on uses up input\<close>

definition cooked_left :: "CookedRead \<Rightarrow> nat" where
  "cooked_left s = stream_left (cr_handle s) (cr_host s)"

lemma put_line_fields [simp]:
  "ih_pending_bytes (put_line e ih) = ih_pending_bytes ih" "ih_decoded_pending (put_line e ih) = ih_decoded_pending ih"
  "ih_cooked_pending (put_line e ih) = ih_cooked_pending ih" "ih_line (put_line e ih) = le_line e"
  "ih_line_cursor (put_line e ih) = le_cursor e" "ih_insert_mode (put_line e ih) = le_insert e" "line_of (put_line e ih) = e"
  by (simp_all add: put_line_def line_of_def)

lemma fold_echo_piece:
  "cr_handle (fold (echo_piece an) ps s) = cr_handle s \<and> cr_output (fold (echo_piece an) ps s) = cr_output s
    \<and> cr_commands (fold (echo_piece an) ps s) = cr_commands s \<and> cr_echoed (fold (echo_piece an) ps s) = cr_echoed s @ ps
    \<and> cr_host (fold (echo_piece silent) ps s) = cr_host s"
  by (induction ps arbitrary: s) (simp_all add: echo_piece_def silent_def)

lemma echo_pieces_fields [simp]:
  "cr_handle (echo_pieces an k ps s) = cr_handle s" "cr_output (echo_pieces an k ps s) = cr_output s"
  "cr_commands (echo_pieces an k ps s) = cr_commands s" "cr_echoed (echo_pieces an k ps s) = cr_echoed s @ (if k_echo k then ps else [])"
  "cr_host (echo_pieces silent k ps s) = cr_host s"
  by (simp_all add: echo_pieces_def fold_echo_piece)

lemma run_edit_fields [simp]:
  "ih_pending_bytes (cr_handle (run_edit an k f s)) = ih_pending_bytes (cr_handle s)" "cr_host (run_edit silent k f s) = cr_host s"
  "ih_cooked_pending (cr_handle (run_edit an k f s)) = ih_cooked_pending (cr_handle s)"
  "ih_decoded_pending (cr_handle (run_edit an k f s)) = ih_decoded_pending (cr_handle s)"
  "line_of (cr_handle (run_edit an k f s)) = fst (f (line_of (cr_handle s)))"
  "cr_output (run_edit an k f s) = cr_output s" "cr_commands (run_edit an k f s) = cr_commands s"
  by (simp_all add: run_edit_def split: prod.split)

lemma handle_single_unit_goes_on:
  assumes "handle_single_unit silent k v s = Continue s'"
  shows "ih_pending_bytes (cr_handle s') = ih_pending_bytes (cr_handle s)" "cr_host s' = cr_host s"
    "ih_cooked_pending (cr_handle s') = ih_cooked_pending (cr_handle s)"
  using assms by (auto simp: handle_single_unit_def finish_line_def Let_def split: if_splits prod.splits)

lemma unit_loop_goes_on:
  "unit_loop silent k vs s = Continue s' \<Longrightarrow> ih_pending_bytes (cr_handle s') = ih_pending_bytes (cr_handle s) \<and> cr_host s' = cr_host s
    \<and> ih_cooked_pending (cr_handle s') = ih_cooked_pending (cr_handle s)"
  by (induction vs arbitrary: s) (auto split: turn.splits dest: handle_single_unit_goes_on)

lemma cooked_key_goes_on:
  "cooked_key silent k key s = Continue s' \<Longrightarrow> ih_pending_bytes (cr_handle s') = ih_pending_bytes (cr_handle s) \<and> cr_host s' = cr_host s
    \<and> ih_cooked_pending (cr_handle s') = ih_cooked_pending (cr_handle s)"
  by (auto simp: cooked_key_def Let_def split: if_splits option.splits dest: unit_loop_goes_on)

lemma cooked_token_goes_on:
  "cooked_token silent k t s = Continue s' \<Longrightarrow> ih_pending_bytes (cr_handle s') = ih_pending_bytes (cr_handle s) \<and> cr_host s' = cr_host s
    \<and> ih_cooked_pending (cr_handle s') = ih_cooked_pending (cr_handle s)"
  by (auto simp: cooked_token_def split: TokenKind.splits if_splits dest: unit_loop_goes_on cooked_key_goes_on)

lemma cooked_consume_less: "0 < n \<Longrightarrow> 0 < cooked_left s \<Longrightarrow> cooked_left (cooked_consume n s) < cooked_left s"
  using consume_stream_less [of n 16 "cr_handle s" "cr_host s"] by (simp add: cooked_left_def cooked_consume_def split_beta)

lemma cooked_turn_less:
  assumes "cooked_turn silent k s = Continue s'"
  shows "cooked_left s' < cooked_left s"
proof -
  have pos: "0 < cooked_left s"
    using assms by (auto simp: cooked_turn_def cooked_left_def stream_left_def stream_empty_now_def input_bytes_available_def split: if_splits)
  obtain token where t: "0 < tk_bytes_consumed token" "cooked_token silent k token (cooked_consume (tk_bytes_consumed token) s) = Continue s'"
    using assms by (auto simp: cooked_turn_def Let_def split: if_splits option.splits prod.splits)
  have "cooked_left s' = cooked_left (cooked_consume (tk_bytes_consumed token) s)"
    using cooked_token_goes_on [OF t(2)] by (simp add: cooked_left_def stream_left_def)
  then show ?thesis using cooked_consume_less [OF t(1) pos] by simp
qed

text \<open>The loop of a read whose echo answers no queries.\<close>

function cooked_loop :: "CookedCall \<Rightarrow> CookedRead \<Rightarrow> reply option \<times> CookedRead" where
  "cooked_loop k s =
    (case cooked_turn silent k s of
       Continue s' \<Rightarrow> cooked_loop k s'
     | Break s' \<Rightarrow> (None, s')
     | Return r s' \<Rightarrow> (Some r, s'))"
  by pat_completeness auto

termination
  by (relation "measure (\<lambda>(k, s). cooked_left s)") (auto dest: cooked_turn_less)

declare cooked_loop.simps [simp del]

text \<open>
  The request in line mode, with the output buffer of the message: \<open>cooked_read\<close> when the echo answers no
  queries, \<open>answering_read\<close> in general.
\<close>

definition cooked_state :: "byte list \<Rightarrow> InputHandle \<Rightarrow> HostIo \<Rightarrow> CookedRead" where
  "cooked_state output ih h = \<lparr>cr_handle = ih, cr_host = h, cr_output = output, cr_echoed = [], cr_commands = []\<rparr>"

definition end_of_input :: "reply option \<times> CookedRead \<Rightarrow> reply \<times> CookedRead" where
  "end_of_input e =
    (case e of
       (Some r, s) \<Rightarrow> (r, s)
     | (None, s) \<Rightarrow>
         if input_disconnected (cr_host s) then
           (Reply status_unsuccessful 0,
            s\<lparr>cr_handle := (cr_handle s)\<lparr>ih_pending_bytes := pending_clear (ih_pending_bytes (cr_handle s)), ih_line := [], ih_line_cursor := 0\<rparr>\<rparr>)
         else (ReplyPending, s))"

definition cooked_read :: "CookedCall \<Rightarrow> byte list \<Rightarrow> InputHandle \<Rightarrow> HostIo \<Rightarrow> reply \<times> CookedRead" where
  "cooked_read k output ih h =
    (if output = [] then (Reply status_success 0, cooked_state output ih h)
     else
       let s = cooked_state output (put_line (normalize_cursor (line_of ih)) ih) h
       in if ih_cooked_pending ih \<noteq> [] then deliver_pending k s else end_of_input (cooked_loop k s))"

text \<open>
  The request whatever the echo answers. The answers lengthen the stream the loop reads, so it need not
  end for every \<open>an\<close>: None is a loop that never returns.
\<close>

partial_function (option) answering_loop :: "echo_answers \<Rightarrow> CookedCall \<Rightarrow> CookedRead \<Rightarrow> (reply option \<times> CookedRead) option" where
  "answering_loop an k s =
    (case cooked_turn an k s of
       Continue s' \<Rightarrow> answering_loop an k s'
     | Break s' \<Rightarrow> Some (None, s')
     | Return r s' \<Rightarrow> Some (Some r, s'))"

definition answering_read ::
  "echo_answers \<Rightarrow> CookedCall \<Rightarrow> byte list \<Rightarrow> InputHandle \<Rightarrow> HostIo \<Rightarrow> (reply \<times> CookedRead) option" where
  "answering_read an k output ih h =
    (if output = [] then Some (Reply status_success 0, cooked_state output ih h)
     else
       let s = cooked_state output (put_line (normalize_cursor (line_of ih)) ih) h
       in if ih_cooked_pending ih \<noteq> [] then Some (deliver_pending k s) else map_option end_of_input (answering_loop an k s))"

text \<open>Without answers both are the same, and the loop ends.\<close>

lemma answering_loop_silent: "answering_loop silent k s = Some (cooked_loop k s)"
proof (induction k s rule: cooked_loop.induct)
  case (1 k s)
  then show ?case by (subst answering_loop.simps, subst cooked_loop.simps) (simp split: turn.split)
qed

lemma answering_read_silent: "answering_read silent k output ih h = Some (cooked_read k output ih h)"
  by (simp add: answering_read_def cooked_read_def answering_loop_silent Let_def)

section \<open>Delivery of a finished line\<close>

text \<open>The search looks at the empty prefix, whose encoding fails, when only one unit is left.\<close>

lemma ansi_search_single:
  assumes "narrow [] = []"
  shows "ansi_search narrow data capacity 0 1 0 = 0"
proof -
  have "ansi_search narrow data capacity 0 1 0 = ansi_search narrow data capacity 0 (- 1) 0"
    by (subst ansi_search.simps) (simp add: assms)
  then show ?thesis by (simp add: ansi_search.simps)
qed

text \<open>
  What the search finds when it finds something: \<open>fits i\<close> says that the prefix of \<open>i\<close> units has an
  encoding that fits. A longer prefix never has a shorter encoding.
\<close>

definition fits :: "(wstring \<Rightarrow> byte list) \<Rightarrow> wstring \<Rightarrow> nat \<Rightarrow> int \<Rightarrow> bool" where
  "fits narrow data capacity i \<longleftrightarrow> narrow (take (nat i) data) \<noteq> [] \<and> length (narrow (take (nat i) data)) \<le> capacity"

definition encoder :: "(wstring \<Rightarrow> byte list) \<Rightarrow> wstring \<Rightarrow> bool" where
  "encoder narrow data \<longleftrightarrow> narrow [] = [] \<and> (\<forall>i. 0 < i \<longrightarrow> i \<le> length data \<longrightarrow> narrow (take i data) \<noteq> [])
    \<and> (\<forall>i j. i \<le> j \<longrightarrow> j \<le> length data \<longrightarrow> length (narrow (take i data)) \<le> length (narrow (take j data)))"

lemma ansi_search_step:
  assumes "encoder narrow data" and "0 \<le> low" and "low \<le> high" and "high \<le> int (length data)"
  defines "mid \<equiv> low + (high - low) div 2"
  shows "low \<le> mid" and "mid \<le> high"
    and "fits narrow data capacity mid \<Longrightarrow> 0 < mid \<and> ansi_search narrow data capacity low high best = ansi_search narrow data capacity (mid + 1) high mid"
    and "\<not> fits narrow data capacity mid \<Longrightarrow> ansi_search narrow data capacity low high best = ansi_search narrow data capacity low (mid - 1) best"
    and "\<not> fits narrow data capacity mid \<Longrightarrow> 0 < mid \<Longrightarrow> mid \<le> i \<Longrightarrow> i \<le> int (length data) \<Longrightarrow> \<not> fits narrow data capacity i"
proof -
  show m: "low \<le> mid" "mid \<le> high" using assms(3) by (simp_all add: mid_def)
  have zero: "narrow [] = []" using assms(1) by (simp add: encoder_def)
  note step = ansi_search.simps [of narrow data capacity low high best, folded mid_def, unfolded Let_def]
  show "0 < mid \<and> ansi_search narrow data capacity low high best = ansi_search narrow data capacity (mid + 1) high mid"
    if "fits narrow data capacity mid"
    using that assms(2,3) m zero unfolding step by (cases "mid = 0") (auto simp: fits_def)
  show "ansi_search narrow data capacity low high best = ansi_search narrow data capacity low (mid - 1) best"
    if "\<not> fits narrow data capacity mid"
    using that assms(3) unfolding step by (auto simp: fits_def)
  show "\<not> fits narrow data capacity i" if "\<not> fits narrow data capacity mid" "0 < mid" "mid \<le> i" "i \<le> int (length data)"
  proof -
    have "narrow (take (nat mid) data) \<noteq> []" "length (narrow (take (nat mid) data)) \<le> length (narrow (take (nat i) data))"
      using assms(1) that by (simp_all add: encoder_def)
    then show ?thesis using that(1) by (auto simp: fits_def)
  qed
qed

lemma ansi_search_best:
  "encoder narrow data \<Longrightarrow> 0 \<le> low \<Longrightarrow> (if low = 0 then best = 0 else 0 < best \<and> best = low - 1 \<and> fits narrow data capacity best) \<Longrightarrow>
    (\<forall>i. high < i \<and> i \<le> int (length data) \<longrightarrow> \<not> fits narrow data capacity i) \<Longrightarrow> high \<le> int (length data) \<Longrightarrow> low \<le> high + 1 \<Longrightarrow>
    ansi_search narrow data capacity low high best = r \<Longrightarrow> r \<noteq> 0 \<Longrightarrow>
    0 < r \<and> r \<le> int (length data) \<and> fits narrow data capacity r \<and> (\<forall>i. r < i \<and> i \<le> int (length data) \<longrightarrow> \<not> fits narrow data capacity i)"
proof (induction "nat (high - low + 1)" arbitrary: low high best rule: less_induct)
  case less
  show ?case
  proof (cases "low \<le> high")
    case False
    then have "r = best" using less.prems(7) by (simp add: ansi_search.simps)
    then show ?thesis using False less.prems by (auto split: if_splits)
  next
    case True
    define mid where "mid = low + (high - low) div 2"
    note step = ansi_search_step [OF less.prems(1,2) True less.prems(5), folded mid_def]
    show ?thesis
    proof (cases "fits narrow data capacity mid")
      case f: True
      have "ansi_search narrow data capacity (mid + 1) high mid = r" using step(3) [OF f] less.prems(7) by metis
      then show ?thesis
        using f step(1,2) step(3) [OF f] less.prems by (intro less.hyps [of high "mid + 1" mid]) simp_all
    next
      case f: False
      have r: "ansi_search narrow data capacity low (mid - 1) best = r" using step(4) [OF f] less.prems(7) by metis
      have "mid \<noteq> 0"
      proof
        assume "mid = 0"
        then have "low = 0" "r = best" using step(1) less.prems(2) r by (simp_all add: ansi_search.simps)
        then show False using less.prems(3,8) by simp
      qed
      then show ?thesis
        using f r step(1,2) step(5) [OF f] less.prems by (intro less.hyps [of "mid - 1" low best]) auto
    qed
  qed
qed

lemma ansi_prefix_fits:
  assumes "encoder narrow data" and "length data \<le> 0x7FFFFFFF" and "ansi_prefix narrow data capacity = m" and "m \<noteq> 0"
  shows "m \<le> length data" and "narrow (take m data) \<noteq> []" and "length (narrow (take m data)) \<le> capacity"
    and "m + 1 < j \<Longrightarrow> j \<le> length data \<Longrightarrow> capacity < length (narrow (take j data))"
proof -
  define r where "r = ansi_search narrow data capacity 0 (int (length data)) 0"
  have m: "m = nat r \<or> m + 1 = nat r" using assms(2-4) by (auto simp: ansi_prefix_def r_def Let_def min_def split: if_splits)
  then have "r \<noteq> 0" using assms(4) by auto
  then have best: "0 < r \<and> r \<le> int (length data) \<and> fits narrow data capacity r \<and> (\<forall>i. r < i \<and> i \<le> int (length data) \<longrightarrow> \<not> fits narrow data capacity i)"
    using assms(1) by (intro ansi_search_best [of narrow data 0 0 capacity "int (length data)" r]) (auto simp: r_def)
  show le: "m \<le> length data" using m best by linarith
  show "narrow (take m data) \<noteq> []" using assms(1,4) le by (simp add: encoder_def)
  have "m \<le> nat r" "nat r \<le> length data" using m best by linarith+
  then have "length (narrow (take m data)) \<le> length (narrow (take (nat r) data))" using assms(1) by (simp add: encoder_def)
  then show "length (narrow (take m data)) \<le> capacity" using best by (simp add: fits_def)
  show "capacity < length (narrow (take j data))" if "m + 1 < j" "j \<le> length data"
  proof -
    have "r < int j" using m that best by linarith
    then have "\<not> fits narrow data capacity (int j)" using best that by simp
    moreover have "narrow (take j data) \<noteq> []" using assms(1) that by (simp add: encoder_def)
    ultimately show ?thesis by (simp add: fits_def)
  qed
qed

text \<open>
  The search gives up only on prefixes of fewer than two units: as long as nothing has been found, the
  upper bound stays at or above the longest prefix that fits, and the middle is not 0.
\<close>

lemma ansi_search_finds:
  assumes "encoder narrow data" and "2 \<le> l" and "fits narrow data capacity l" and "l \<le> high" and "high \<le> int (length data)"
    and "\<forall>i. high < i \<and> i \<le> int (length data) \<longrightarrow> \<not> fits narrow data capacity i"
  shows "ansi_search narrow data capacity 0 high 0 \<noteq> 0"
  using assms(4-6)
proof (induction "nat high" arbitrary: high rule: less_induct)
  case less
  define mid where "mid = 0 + (high - 0) div 2"
  have mid: "0 < mid" "mid \<le> high" using less.prems(1) assms(2) by (simp_all add: mid_def)
  note step = ansi_search_step [OF assms(1), where low = 0 and high = high, folded mid_def]
  show ?case
  proof (cases "fits narrow data capacity mid")
    case True
    have "0 < ansi_search narrow data capacity low h best" if "0 < low" "0 < best" for low h best
      using that
    proof (induction "nat (h - low + 1)" arbitrary: low h best rule: less_induct)
      case less
      then show ?case by (subst ansi_search.simps) (auto simp: Let_def)
    qed
    then have "0 < ansi_search narrow data capacity (mid + 1) high mid" using mid by simp
    then show ?thesis using step(3) [OF _ _ _ True, of 0] assms(2) less.prems by simp
  next
    case False
    have above: "\<not> fits narrow data capacity i" if "mid \<le> i" "i \<le> int (length data)" for i
      using step(5) [where i = i] False mid that less.prems by simp
    then have "l \<le> mid - 1" using assms(3) less.prems by force
    then have "ansi_search narrow data capacity 0 (mid - 1) 0 \<noteq> 0" using above mid less.prems by (intro less.hyps) auto
    then show ?thesis using step(4) False less.prems mid by simp
  qed
qed

definition longest_fit :: "(wstring \<Rightarrow> byte list) \<Rightarrow> wstring \<Rightarrow> nat \<Rightarrow> nat \<Rightarrow> bool" where
  "longest_fit narrow data capacity l \<longleftrightarrow> l \<le> length data \<and> length (narrow (take l data)) \<le> capacity
    \<and> (\<forall>j. l < j \<longrightarrow> j \<le> length data \<longrightarrow> capacity < length (narrow (take j data)))"

lemma ansi_prefix_longest:
  assumes "encoder narrow data" and "length data \<le> 0x7FFFFFFF" and "2 \<le> length data" and "length (narrow (take 2 data)) \<le> capacity"
  shows "\<exists>l. 2 \<le> l \<and> longest_fit narrow data capacity l
    \<and> ansi_prefix narrow data capacity = (if l < length data \<and> is_high_surrogate (data ! (l - 1)) then l - 1 else l)"
proof -
  let ?r = "ansi_search narrow data capacity 0 (int (length data)) 0"
  have two: "fits narrow data capacity 2" using assms(1,3,4) by (simp add: fits_def encoder_def)
  then have "?r \<noteq> 0" using assms(1,3) by (intro ansi_search_finds [of _ _ 2]) auto
  then have best: "0 < ?r \<and> ?r \<le> int (length data) \<and> fits narrow data capacity ?r
      \<and> (\<forall>i. ?r < i \<and> i \<le> int (length data) \<longrightarrow> \<not> fits narrow data capacity i)"
    using assms(1) by (intro ansi_search_best [of narrow data 0 0 capacity "int (length data)"]) auto
  then have "\<not> ?r < 2" using two assms(3) by auto
  then have l: "2 \<le> nat ?r" by simp
  have "capacity < length (narrow (take j data))" if "nat ?r < j" "j \<le> length data" for j
  proof -
    have "?r < int j" using that(1) by linarith
    then have "\<not> fits narrow data capacity (int j)" using best that(2) by simp
    moreover have "narrow (take j data) \<noteq> []" using assms(1) that by (simp add: encoder_def)
    ultimately show ?thesis by (simp add: fits_def)
  qed
  then have "longest_fit narrow data capacity (nat ?r)" using best by (simp add: longest_fit_def fits_def nat_le_iff)
  moreover have "ansi_prefix narrow data capacity = (if nat ?r < length data \<and> is_high_surrogate (data ! (nat ?r - 1)) then nat ?r - 1 else nat ?r)"
    using assms(2) l by (auto simp: ansi_prefix_def Let_def min_def)
  ultimately show ?thesis using l by blast
qed

text \<open>The bytes a caller gets for units.\<close>

definition encoded :: "CookedCall \<Rightarrow> wstring \<Rightarrow> byte list" where
  "encoded k us = (if k_unicode k then concat (map wchar_bytes us) else k_narrow k us)"

lemma length_wchar_bytes [simp]: "length (concat (map wchar_bytes us)) = 2 * length us"
  by (induction us) (simp_all add: wchar_bytes_def)

text \<open>Delivery cuts the pending text in two: what is stored and what is left.\<close>

definition delivers :: "CookedCall \<Rightarrow> wstring \<Rightarrow> byte list \<Rightarrow> nat \<Rightarrow> reply \<Rightarrow> CookedRead \<Rightarrow> bool" where
  "delivers k pending output m r s \<longleftrightarrow>
    r = Reply (if m = 0 \<and> \<not> k_unicode k then status_buffer_too_small else status_success) (length (encoded k (take m pending)))
    \<and> length (encoded k (take m pending)) \<le> length output
    \<and> cr_output s = store_front (encoded k (take m pending)) output \<and> ih_cooked_pending (cr_handle s) = drop m pending"

text \<open>
  Where it cuts: for Unicode readers after as many units as fit; for the others, when the first two units
  fit, after the longest prefix that fits, less a high surrogate at its end, and otherwise after
  the first unit or not at all.
\<close>

definition maximal_cut :: "CookedCall \<Rightarrow> wstring \<Rightarrow> nat \<Rightarrow> nat \<Rightarrow> bool" where
  "maximal_cut k pending capacity m \<longleftrightarrow>
    (if k_unicode k then m = min (length pending) (capacity div 2)
     else if 2 \<le> length pending \<and> length (k_narrow k (take 2 pending)) \<le> capacity then
       \<exists>l. 2 \<le> l \<and> longest_fit (k_narrow k) pending capacity l
         \<and> m = (if l < length pending \<and> is_high_surrogate (pending ! (l - 1)) then l - 1 else l)
     else m \<le> 1)"

lemma ansi_cut_maximal:
  assumes "\<not> k_unicode k" and "encoder (k_narrow k) pending" and "length pending \<le> 0x7FFFFFFF"
  shows "maximal_cut k pending capacity (ansi_prefix (k_narrow k) pending capacity)"
proof (cases "2 \<le> length pending \<and> length (k_narrow k (take 2 pending)) \<le> capacity")
  case True
  then show ?thesis using ansi_prefix_longest [OF assms(2,3)] assms(1) by (simp add: maximal_cut_def)
next
  case False
  let ?m = "ansi_prefix (k_narrow k) pending capacity"
  have "?m \<le> 1"
  proof (rule ccontr)
    assume "\<not> ?m \<le> 1"
    then have "2 \<le> ?m" "?m \<le> length pending" "length (k_narrow k (take ?m pending)) \<le> capacity"
      using ansi_prefix_fits [OF assms(2,3) refl, of capacity] by simp_all
    moreover have "length (k_narrow k (take 2 pending)) \<le> length (k_narrow k (take ?m pending))"
      using assms(2) calculation by (simp add: encoder_def)
    ultimately show False using False by linarith
  qed
  then show ?thesis using False assms(1) by (auto simp: maximal_cut_def)
qed

lemma deliver_pending_delivers:
  assumes "ih_cooked_pending (cr_handle s) = pending" and "pending \<noteq> []" and "length pending \<le> 0x7FFFFFFF" and "length (cr_output s) \<le> 0x7FFFFFFF"
    and "k_unicode k \<or> encoder (k_narrow k) pending" and "cr_output s \<noteq> []" and "deliver_pending k s = (r, s')"
  shows "\<exists>m. delivers k pending (cr_output s) m r s' \<and> maximal_cut k pending (length (cr_output s)) m \<and> cr_host s' = cr_host s
    \<and> line_of (cr_handle s') = line_of (cr_handle s) \<and> ih_pending_bytes (cr_handle s') = ih_pending_bytes (cr_handle s)
    \<and> cr_echoed s' = cr_echoed s \<and> cr_commands s' = cr_commands s"
proof (cases "k_unicode k")
  case True
  let ?m = "min (length pending) (length (cr_output s) div 2)"
  have "?m * 2 \<le> length (cr_output s)" by linarith
  then have "min (?m * 2) 0xFFFFFFFF = 2 * ?m" using assms(4) by simp
  then show ?thesis
    using assms(1,2,7) True \<open>?m * 2 \<le> length (cr_output s)\<close>
    by (intro exI [of _ ?m]) (auto simp: deliver_pending_def deliver_unicode_def delivers_def maximal_cut_def encoded_def line_of_def Let_def)
next
  case False
  let ?best = "ansi_prefix (k_narrow k) pending (length (cr_output s))"
  have enc: "encoder (k_narrow k) pending" using False assms(5) by simp
  note fit = ansi_prefix_fits [OF enc assms(3) refl, of "length (cr_output s)"]
  show ?thesis
  proof (cases "?best = 0")
    case True
    have "k_narrow k (take i pending) \<noteq> []" if "0 < i" "i \<le> length pending" for i using enc that by (simp add: encoder_def)
    then have "k_narrow k (take 1 pending) \<noteq> []" "2 \<le> length pending \<Longrightarrow> k_narrow k (take 2 pending) \<noteq> []"
      using assms(2) by (auto simp: Suc_le_eq)
    moreover have "maximal_cut k pending (length (cr_output s)) 0" using ansi_cut_maximal [OF False enc assms(3)] True by metis
    ultimately show ?thesis
      using assms(1,2,6,7) False enc True
      by (intro exI [of _ 0])
        (auto simp: deliver_pending_def deliver_ansi_def delivers_def encoded_def encoder_def store_front_def Let_def)
  next
    case some: False
    then show ?thesis
      using assms(1,2,4,6,7) False fit ansi_cut_maximal [OF False enc assms(3), of "length (cr_output s)"]
      by (intro exI [of _ ?best])
        (auto simp: deliver_pending_def deliver_ansi_def delivers_def encoded_def line_of_def Let_def)
  qed
qed

text \<open>
  C8. A finished line is handed out in pieces without loss. When a line waits in the handle, a read
  takes it from there and touches neither the input nor the line in progress: it stores the
  encoding of a prefix, reports exactly its length, and keeps exactly the rest for the next read. For
  Unicode readers the prefix has as many units as fit. For others, under a conversion that gives
  longer texts no shorter encodings, it is the longest prefix that fits, less a high surrogate at its
  end, whenever the first two units fit; when only one unit is left or fits, it has at most one unit, and
  a read that stores nothing answers STATUS_BUFFER_TOO_SMALL and keeps everything.
\<close>

theorem cooked_delivery_exact:
  assumes "ih_cooked_pending ih = pending" and "pending \<noteq> []" and "output \<noteq> []"
    and "length pending \<le> 0x7FFFFFFF" and "length output \<le> 0x7FFFFFFF" and "k_unicode k \<or> encoder (k_narrow k) pending"
  shows "\<exists>r s m. answering_read an k output ih h = Some (r, s) \<and> delivers k pending output m r s \<and> maximal_cut k pending (length output) m
    \<and> cr_host s = h \<and> ih_line (cr_handle s) = ih_line ih \<and> ih_pending_bytes (cr_handle s) = ih_pending_bytes ih"
proof -
  let ?s = "cooked_state output (put_line (normalize_cursor (line_of ih)) ih) h"
  obtain r s where run: "deliver_pending k ?s = (r, s)" by fastforce
  then have "answering_read an k output ih h = Some (r, s)" using assms(1-3) by (simp add: answering_read_def)
  moreover have "ih_cooked_pending (cr_handle ?s) = pending" "cr_output ?s = output" "cr_host ?s = h"
    "ih_pending_bytes (cr_handle ?s) = ih_pending_bytes ih" "le_line (line_of (cr_handle ?s)) = ih_line ih"
    using assms(1) by (simp_all add: cooked_state_def) (simp add: line_of_def)
  moreover obtain m where "delivers k pending output m r s" "maximal_cut k pending (length output) m" "cr_host s = h"
    "line_of (cr_handle s) = line_of (cr_handle ?s)" "ih_pending_bytes (cr_handle s) = ih_pending_bytes ih"
    using deliver_pending_delivers [of ?s pending k r s] assms(2-6) run calculation by auto
  moreover have "ih_line (cr_handle s) = le_line (line_of (cr_handle s))" by (simp add: line_of_def)
  ultimately show ?thesis by auto
qed

definition unicode_call :: "bool \<Rightarrow> bool \<Rightarrow> CookedCall" where
  "unicode_call processed echo = \<lparr>k_sys = latin_pages, k_code_page = 1252, k_narrow = map ucast, k_pids = [7], k_processed = processed,
     k_echo = echo, k_unicode = True, k_process_control_z = False\<rparr>"

definition ansi_call :: CookedCall where
  "ansi_call = (unicode_call True True)\<lparr>k_unicode := False\<rparr>"

lemma map_encoder: "encoder (map f) data"
  by (auto simp: encoder_def)

theorem cooked_delivery_exact_witness:
  "(\<exists>r s. answering_read silent (unicode_call True True) [0, 0, 0] (new_input_handle\<lparr>ih_cooked_pending := [0x61, 0x0D, 0x0A]\<rparr>) (queued []) = Some (r, s)
     \<and> delivers (unicode_call True True) [0x61, 0x0D, 0x0A] [0, 0, 0] 1 r s)
   \<and> (\<exists>r s. answering_read silent ansi_call [0, 0, 0] (new_input_handle\<lparr>ih_cooked_pending := [0x61, 0x62, 0x0D, 0x0A]\<rparr>) (queued []) = Some (r, s)
     \<and> r = Reply status_success 3 \<and> cr_output s = [0x61, 0x62, 0x0D] \<and> ih_cooked_pending (cr_handle s) = [0x0A])"
proof
  show "\<exists>r s. answering_read silent (unicode_call True True) [0, 0, 0] (new_input_handle\<lparr>ih_cooked_pending := [0x61, 0x0D, 0x0A]\<rparr>) (queued []) = Some (r, s)
     \<and> delivers (unicode_call True True) [0x61, 0x0D, 0x0A] [0, 0, 0] 1 r s"
    using cooked_delivery_exact [of "new_input_handle\<lparr>ih_cooked_pending := [0x61, 0x0D, 0x0A]\<rparr>" _ "[0, 0, 0]" "unicode_call True True" silent "queued []"]
    by (auto simp: maximal_cut_def unicode_call_def)
  let ?p = "[0x61, 0x62, 0x0D, 0x0A] :: wstring"
  obtain r s m where run: "answering_read silent ansi_call [0, 0, 0] (new_input_handle\<lparr>ih_cooked_pending := ?p\<rparr>) (queued []) = Some (r, s)"
    "delivers ansi_call ?p [0, 0, 0] m r s" "maximal_cut ansi_call ?p (length [0, 0, 0 :: byte]) m"
    using cooked_delivery_exact [of "new_input_handle\<lparr>ih_cooked_pending := ?p\<rparr>" _ "[0, 0, 0]" ansi_call silent "queued []"] map_encoder
    by (auto simp: ansi_call_def unicode_call_def)
  have "l = 3" if "longest_fit (k_narrow ansi_call) ?p (length [0, 0, 0 :: byte]) l" for l
  proof -
    have "l \<le> 4" "length (map f (take l ?p)) \<le> 3" "\<not> l < 3" for f :: "wchar \<Rightarrow> byte"
      using that by (auto simp: longest_fit_def ansi_call_def unicode_call_def dest!: spec [of _ 3])
    then show ?thesis by (cases "l = 4") auto
  qed
  moreover obtain l where l: "longest_fit (k_narrow ansi_call) ?p (length [0, 0, 0 :: byte]) l"
    "m = (if l < length ?p \<and> is_high_surrogate (?p ! (l - 1)) then l - 1 else l)"
    using run(3) by (auto simp: maximal_cut_def ansi_call_def unicode_call_def simp del: One_nat_def)
  ultimately have "l = 3" by blast
  then have "m = 3" using l(2) by (simp add: is_high_surrogate_def)
  then show "\<exists>r s. answering_read silent ansi_call [0, 0, 0] (new_input_handle\<lparr>ih_cooked_pending := ?p\<rparr>) (queued []) = Some (r, s)
     \<and> r = Reply status_success 3 \<and> cr_output s = [0x61, 0x62, 0x0D] \<and> ih_cooked_pending (cr_handle s) = [0x0A]"
    using run(1,2) by (auto simp: delivers_def encoded_def store_front_def ansi_call_def unicode_call_def)
qed

text \<open>
  A last unit is never delivered to an ANSI reader. The binary search of \<open>deliver_pending\<close>
  starts with \<open>low = 0\<close>, so with one unit pending it asks for the length of the empty prefix, for which
  \<open>WideCharToMultiByte\<close> fails, and stops with no prefix at all. Whatever the size of the buffer, the
  read reports STATUS_BUFFER_TOO_SMALL and changes nothing, so every later read of the handle
  fails the same way. It happens to an empty line without processed input (the unit is the
  carriage return), and to any line read through a buffer that leaves one unit over.
\<close>

theorem last_unit_stuck:
  assumes "ih_cooked_pending ih = [u]" and "\<not> k_unicode k" and "k_narrow k [] = []" and "k_narrow k [u] \<noteq> []" and "output \<noteq> []"
    and "edit_ok (line_of ih)"
  shows "cooked_read k output ih h = (Reply status_buffer_too_small 0, cooked_state output ih h)"
proof -
  have "put_line (normalize_cursor (line_of ih)) ih = ih"
    using normalize_id [OF assms(6)] by (simp add: put_line_def line_of_def)
  moreover have "ansi_prefix (k_narrow k) [u] (length output) = 0"
    using ansi_search_single [of "k_narrow k", OF assms(3)] by (simp add: ansi_prefix_def Let_def)
  ultimately show ?thesis
    using assms(1-5) by (simp add: cooked_read_def deliver_pending_def deliver_ansi_def cooked_state_def Let_def)
qed

theorem last_unit_stuck_witness:
  "cooked_read \<lparr>k_sys = latin_pages, k_code_page = 1252, k_narrow = map ucast, k_pids = [], k_processed = False, k_echo = False,
       k_unicode = False, k_process_control_z = False\<rparr> (replicate 100 0) (new_input_handle\<lparr>ih_cooked_pending := [0x0D]\<rparr>) (queued [])
     = (Reply status_buffer_too_small 0, cooked_state (replicate 100 0) (new_input_handle\<lparr>ih_cooked_pending := [0x0D]\<rparr>) (queued []))"
  by (rule last_unit_stuck) (simp_all add: new_input_handle_def line_of_def edit_ok_def inside_pair_def)

section \<open>Typed lines\<close>

text \<open>A state between two turns: what is in the stream, what is in the line, nothing delivered yet.\<close>

definition cooked_at :: "CookedRead \<Rightarrow> LineEdit \<Rightarrow> byte list \<Rightarrow> bool" where
  "cooked_at s e bs \<longleftrightarrow> input_inv (cr_handle s) (cr_host s) \<and> input_stream (cr_handle s) (cr_host s) = bs
    \<and> line_of (cr_handle s) = e \<and> ih_cooked_pending (cr_handle s) = []"

lemma cooked_head_stream:
  assumes "cooked_at s e bs"
  shows "cooked_head s = take 64 bs" and "stream_empty_now s \<longleftrightarrow> bs = []"
proof -
  let ?p = "ih_pending_bytes (cr_handle s)" and ?q = "ho_queue (cr_host s)"
  have i: "pending_inv ?p" "queue_inv ?q" "bs = pending_bytes ?p @ queue_bytes ?q"
    using assms by (auto simp: cooked_at_def input_inv_def input_stream_def)
  note p = pending_size [OF i(1)]
  have "cooked_peek s = take (64 - length (pending_bytes ?p)) (queue_bytes ?q)"
    using p by (simp add: cooked_peek_def Let_def peek_input_bytes_def queue_peek_bytes [OF i(2)])
  then show "cooked_head s = take 64 bs" using p i(3) by (simp add: cooked_head_def)
  show "stream_empty_now s \<longleftrightarrow> bs = []"
    using queue.amount_zero [OF i(2)] p i(3) by (auto simp: stream_empty_now_def input_bytes_available_def)
qed

lemma cooked_consume_at: "cooked_at s e bs \<Longrightarrow> cooked_at (cooked_consume n s) e (drop n bs)"
  using consume_stream [of "cr_handle s" "cr_host s" 16 n]
  by (auto simp: cooked_at_def cooked_consume_def split_beta line_of_def consume_from_stream_def Let_def)

lemma cooked_consume_rest [simp]:
  "cr_output (cooked_consume n s) = cr_output s" "cr_echoed (cooked_consume n s) = cr_echoed s" "cr_commands (cooked_consume n s) = cr_commands s"
  by (simp_all add: cooked_consume_def split_beta)

text \<open>A byte that is a unit of its own wherever it stands in the stream.\<close>

definition text_byte :: "CookedCall \<Rightarrow> byte \<Rightarrow> wchar \<Rightarrow> bool" where
  "text_byte k b u \<longleftrightarrow> (\<forall>rest. \<exists>t. decode_one_input_token (k_sys k) (k_code_page k) (b # rest) = Some t
    \<and> tk_kind t = text_units \<and> tk_bytes_consumed t = 1 \<and> tk_text t = [u])"

lemma cooked_turn_text:
  assumes "cooked_at s e (b # bs)" and "text_byte k b u"
  shows "cooked_turn silent k s = handle_single_unit silent k u (cooked_consume 1 s)"
proof -
  obtain t where "decode_one_input_token (k_sys k) (k_code_page k) (b # take 63 bs) = Some t" "tk_kind t = text_units"
    "tk_bytes_consumed t = 1" "tk_text t = [u]" using assms(2) unfolding text_byte_def by blast
  moreover have "take 64 (b # bs) = b # take 63 bs" by (simp add: take_Cons')
  ultimately show ?thesis
    using cooked_head_stream [OF assms(1)]
    by (simp add: cooked_turn_def cooked_token_def split: turn.split)
qed

text \<open>Units that are neither edited away nor end the line.\<close>

definition ordinary :: "wchar \<Rightarrow> bool" where
  "ordinary u \<longleftrightarrow> u \<noteq> 0x08 \<and> u \<noteq> 0x0D \<and> u \<noteq> 0x0A \<and> u \<noteq> 0x03 \<and> u \<noteq> 0x1A"

abbreviation line_end :: "wstring \<Rightarrow> bool \<Rightarrow> LineEdit" where
  "line_end line ins \<equiv> \<lparr>le_line = line, le_cursor = length line, le_insert = ins\<rparr>"

lemma normalize_line_end [simp]: "normalize_cursor (line_end line ins) = line_end line ins"
  by (simp add: normalize_cursor_def)

lemma insert_line_end: "insert_unit u (line_end line ins) = (line_end (line @ [u]) ins, [[u]])"
  using normalize_line_end [of "line @ [u]" ins] by (simp add: insert_unit_def Let_def echo_repeat.simps del: normalize_line_end)

lemma put_line_same [simp]: "line_of ih = e \<Longrightarrow> put_line e ih = ih"
  by (auto simp: put_line_def line_of_def)

lemma at_line_end: "cooked_at s (line_end line ins) bs \<Longrightarrow> put_line (normalize_cursor (line_of (cr_handle s))) (cr_handle s) = cr_handle s"
  by (simp add: cooked_at_def)

lemma type_unit:
  assumes "cooked_at s (line_end line ins) (b # bs)" and "text_byte k b u" and "ordinary u"
  shows "\<exists>s'. cooked_turn silent k s = Continue s' \<and> cooked_at s' (line_end (line @ [u]) ins) bs
    \<and> cr_output s' = cr_output s \<and> cr_commands s' = cr_commands s \<and> cr_echoed s' = cr_echoed s @ (if k_echo k then [[u]] else [])"
proof -
  let ?s = "cooked_consume 1 s"
  have at: "cooked_at ?s (line_end line ins) bs" using cooked_consume_at [OF assms(1), of 1] by simp
  then have l: "line_of (cr_handle ?s) = line_end line ins" by (simp add: cooked_at_def)
  have turn: "cooked_turn silent k s = Continue (run_edit silent k (insert_unit u) ?s)"
    using assms(3) l unfolding cooked_turn_text [OF assms(1,2)] by (simp add: handle_single_unit_def ordinary_def)
  have "cooked_at (run_edit silent k (insert_unit u) ?s) (line_end (line @ [u]) ins) bs"
    using at by (simp add: cooked_at_def input_inv_def input_stream_def insert_line_end)
  then show ?thesis
    using turn l by (auto simp: run_edit_def insert_line_end)
qed

lemma type_units:
  assumes "cooked_at s (line_end line ins) (map fst ps @ rest)" and "list_all (\<lambda>(b, u). text_byte k b u \<and> ordinary u) ps"
  shows "\<exists>s'. cooked_loop k s = cooked_loop k s' \<and> cooked_at s' (line_end (line @ map snd ps) ins) rest
    \<and> cr_output s' = cr_output s \<and> cr_commands s' = cr_commands s
    \<and> cr_echoed s' = cr_echoed s @ (if k_echo k then map (\<lambda>p. [snd p]) ps else [])"
  using assms
proof (induction ps arbitrary: s line)
  case (Cons p ps)
  obtain b u where p: "p = (b, u)" by (cases p)
  then obtain t where t: "cooked_turn silent k s = Continue t" "cooked_at t (line_end (line @ [u]) ins) (map fst ps @ rest)"
    "cr_output t = cr_output s" "cr_commands t = cr_commands s" "cr_echoed t = cr_echoed s @ (if k_echo k then [[u]] else [])"
    using type_unit [of s line ins b "map fst ps @ rest" k u] Cons.prems by auto
  from Cons.IH [OF t(2)] Cons.prems(2) obtain s' where
    "cooked_loop k t = cooked_loop k s'" "cooked_at s' (line_end ((line @ [u]) @ map snd ps) ins) rest"
    "cr_output s' = cr_output t" "cr_commands s' = cr_commands t"
    "cr_echoed s' = cr_echoed t @ (if k_echo k then map (\<lambda>p. [snd p]) ps else [])" by auto
  then show ?case using t p by (intro exI [of _ s']) (auto simp: cooked_loop.simps [of k s])
qed auto

text \<open>The line feed behind a carriage return, if the stream shows one.\<close>

definition after_line_feed :: "CookedCall \<Rightarrow> byte list \<Rightarrow> byte list" where
  "after_line_feed k bs =
    (case decode_one_input_token (k_sys k) (k_code_page k) (take 64 bs) of
       None \<Rightarrow> bs
     | Some t \<Rightarrow> if tk_bytes_consumed t \<noteq> 0 \<and> is_lf_token t then drop (tk_bytes_consumed t) bs else bs)"

lemma skip_line_feed_at:
  assumes "cooked_at s e bs"
  shows "cooked_at (skip_line_feed k s) e (after_line_feed k bs)"
    and "cr_output (skip_line_feed k s) = cr_output s" "cr_echoed (skip_line_feed k s) = cr_echoed s" "cr_commands (skip_line_feed k s) = cr_commands s"
proof -
  note h = cooked_head_stream [OF assms]
  have "decode_one_input_token (k_sys k) (k_code_page k) [] = None" by (simp add: decode_one_input_token_def try_decode_vt_def)
  then show "cooked_at (skip_line_feed k s) e (after_line_feed k bs)"
    using assms h cooked_consume_at [OF assms] by (auto simp: skip_line_feed_def after_line_feed_def split: option.splits)
  show "cr_output (skip_line_feed k s) = cr_output s" "cr_echoed (skip_line_feed k s) = cr_echoed s" "cr_commands (skip_line_feed k s) = cr_commands s"
    by (simp_all add: skip_line_feed_def split: option.split)
qed

lemma finish_at:
  assumes "cooked_at s (line_end line ins) bs"
  shows "\<exists>t. finish_line silent k 0x0D s = Return (fst (deliver_pending k t)) (snd (deliver_pending k t))
    \<and> input_inv (cr_handle t) (cr_host t) \<and> input_stream (cr_handle t) (cr_host t) = after_line_feed k bs
    \<and> line_of (cr_handle t) = line_end [] ins \<and> ih_cooked_pending (cr_handle t) = line @ newline_suffix (k_processed k)
    \<and> cr_output t = cr_output s
    \<and> cr_echoed t = cr_echoed s @ (if k_echo k then [newline_suffix (k_processed k)] else [])
    \<and> cr_commands t = cr_commands s @ (if k_echo k then [line] else [])"
proof -
  let ?u = "skip_line_feed k s"
  note u = skip_line_feed_at [OF assms, of k]
  have l: "line_of (cr_handle s) = line_end line ins" using assms by (simp add: cooked_at_def)
  have idle: "run_edit silent k (\<lambda>e. if le_cursor e < length (le_line e)
      then (e\<lparr>le_cursor := length (le_line e)\<rparr>, echo_range (le_line e) (le_cursor e) (length (le_line e))) else (e, [])) s = s"
    using l by (simp add: run_edit_def echo_pieces_def)
  have lu: "ih_line (cr_handle ?u) = line" "ih_insert_mode (cr_handle ?u) = ins" using u(1) by (auto simp: cooked_at_def line_of_def)
  let ?v = "echo_pieces silent k [newline_suffix (k_processed k)] ?u"
  let ?w = "if k_echo k then ?v\<lparr>cr_commands := cr_commands ?v @ [line]\<rparr> else ?v"
  let ?t = "?w\<lparr>cr_handle := (cr_handle ?w)\<lparr>ih_cooked_pending := line @ newline_suffix (k_processed k), ih_line := [], ih_line_cursor := 0\<rparr>\<rparr>"
  have h: "cr_handle ?w = cr_handle ?u" "cr_host ?w = cr_host ?u" "ih_line (cr_handle ?v) = line" using lu by simp_all
  have "finish_line silent k 0x0D s = Return (fst (deliver_pending k ?t)) (snd (deliver_pending k ?t))"
    unfolding finish_line_def Let_def idle by (simp add: lu split_beta)
  moreover have "input_inv (cr_handle ?t) (cr_host ?t) \<and> input_stream (cr_handle ?t) (cr_host ?t) = after_line_feed k bs"
    using u(1) h by (simp add: cooked_at_def input_inv_def input_stream_def)
  moreover have "line_of (cr_handle ?t) = line_end [] ins" using lu h by (simp add: line_of_def)
  ultimately show ?thesis
    using u(2-) by (intro exI [of _ ?t]) simp
qed

lemma cooked_start:
  assumes "input_inv ih h" and "ih_cooked_pending ih = []" and "ih_line_cursor ih = length (ih_line ih)" and "input_stream ih h = bs"
  shows "cooked_at (cooked_state output (put_line (normalize_cursor (line_of ih)) ih) h) (line_end (ih_line ih) (ih_insert_mode ih)) bs"
proof -
  have "line_of ih = line_end (ih_line ih) (ih_insert_mode ih)" using assms(3) by (simp add: line_of_def)
  then show ?thesis using assms by (simp add: cooked_at_def cooked_state_def)
qed

text \<open>The line in progress, the typed text and the carriage return: one read.\<close>

lemma typed_line:
  assumes "input_inv ih h" and "ih_cooked_pending ih = []" and "ih_line_cursor ih = length (ih_line ih)"
    and "input_stream ih h = map fst ps @ cr # rest" and "list_all (\<lambda>(b, u). text_byte k b u \<and> ordinary u) ps" and "text_byte k cr 0x0D"
    and "k_unicode k" and "line = ih_line ih @ map snd ps @ newline_suffix (k_processed k)"
    and "2 * length line \<le> length output" and "length output \<le> 0x7FFFFFFF"
    and "cooked_read k output ih h = (r, s)"
  shows "r = Reply status_success (2 * length line) \<and> cr_output s = store_front (concat (map wchar_bytes line)) output
    \<and> input_inv (cr_handle s) (cr_host s) \<and> input_stream (cr_handle s) (cr_host s) = after_line_feed k rest
    \<and> line_of (cr_handle s) = line_end [] (ih_insert_mode ih) \<and> ih_cooked_pending (cr_handle s) = []
    \<and> concat (cr_echoed s) = (if k_echo k then map snd ps @ newline_suffix (k_processed k) else [])
    \<and> cr_commands s = (if k_echo k then [ih_line ih @ map snd ps] else [])"
proof -
  let ?s = "cooked_state output (put_line (normalize_cursor (line_of ih)) ih) h"
  have line: "line \<noteq> []" "length line \<le> 0x7FFFFFFF" using assms(8-10) by (auto simp: newline_suffix_def)
  then have out: "output \<noteq> []" using assms(9) by auto
  obtain u where u: "cooked_loop k ?s = cooked_loop k u" "cooked_at u (line_end (ih_line ih @ map snd ps) (ih_insert_mode ih)) (cr # rest)"
    "cr_output u = output" "cr_commands u = []" "cr_echoed u = (if k_echo k then map (\<lambda>p. [snd p]) ps else [])"
    using type_units [OF cooked_start [OF assms(1-3) assms(4)] assms(5)] by (auto simp: cooked_state_def)
  let ?c = "cooked_consume 1 u"
  have c: "cooked_at ?c (line_end (ih_line ih @ map snd ps) (ih_insert_mode ih)) rest" using cooked_consume_at [OF u(2), of 1] by simp
  then have turn: "cooked_turn silent k u = finish_line silent k 0x0D ?c"
    unfolding cooked_turn_text [OF u(2) assms(6)] by (simp add: handle_single_unit_def at_line_end [OF c] del: One_nat_def)
  obtain t where t: "finish_line silent k 0x0D ?c = Return (fst (deliver_pending k t)) (snd (deliver_pending k t))"
    "input_inv (cr_handle t) (cr_host t)" "input_stream (cr_handle t) (cr_host t) = after_line_feed k rest"
    "line_of (cr_handle t) = line_end [] (ih_insert_mode ih)" "ih_cooked_pending (cr_handle t) = line"
    "cr_output t = output" "cr_echoed t = cr_echoed u @ (if k_echo k then [newline_suffix (k_processed k)] else [])"
    "cr_commands t = (if k_echo k then [ih_line ih @ map snd ps] else [])"
    using finish_at [OF c, of k] u(3-5) assms(8) by auto
  have "cooked_loop k ?s = (Some (fst (deliver_pending k t)), snd (deliver_pending k t))"
    unfolding u(1) cooked_loop.simps [of k u] turn t(1) by simp
  then have rs: "deliver_pending k t = (r, s)" using assms(2,11) out by (simp add: cooked_read_def end_of_input_def)
  from deliver_pending_delivers [OF t(5) line _ _ _ rs] t(6) out assms(7,10) obtain m where
    m: "delivers k line output m r s" "maximal_cut k line (length output) m" "cr_host s = cr_host t"
    "line_of (cr_handle s) = line_of (cr_handle t)" "ih_pending_bytes (cr_handle s) = ih_pending_bytes (cr_handle t)"
    "cr_echoed s = cr_echoed t" "cr_commands s = cr_commands t" by auto
  have "m = length line" using m(2) assms(7,9) by (simp add: maximal_cut_def)
  then have "r = Reply status_success (2 * length line)" "cr_output s = store_front (concat (map wchar_bytes line)) output"
    "ih_cooked_pending (cr_handle s) = []"
    using m(1) assms(7) line(1) by (auto simp: delivers_def encoded_def)
  moreover have "concat (map (\<lambda>p. [snd p]) ps) = map snd ps" by (induction ps) simp_all
  ultimately show ?thesis
    using t u(5) m by (auto simp: input_inv_def input_stream_def)
qed


lemma latin_text_byte: "b \<noteq> 0x1B \<Longrightarrow> b \<noteq> 0x9B \<Longrightarrow> text_byte (unicode_call p e) b (ucast b)"
  using latin_token [of b] by (simp add: text_byte_def unicode_call_def)

lemma fresh_handle: "ih_cooked_pending new_input_handle = []" "ih_line_cursor new_input_handle = length (ih_line new_input_handle)"
  "ih_line new_input_handle = []"
  by (simp_all add: new_input_handle_def)


section \<open>Control-C and the line in progress\<close>

lemma interrupted_line:
  assumes "input_inv ih h" and "ih_cooked_pending ih = []" and "ih_line_cursor ih = length (ih_line ih)"
    and "input_stream ih h = map fst ps @ c # rest" and "list_all (\<lambda>(b, u). text_byte k b u \<and> ordinary u) ps" and "text_byte k c 0x03"
    and "k_processed k" and "output \<noteq> []" and "cooked_read k output ih h = (r, s)"
  shows "r = Reply status_alerted 0 \<and> ih_cooked_pending (cr_handle s) = [] \<and> input_inv (cr_handle s) (cr_host s)
    \<and> input_stream (cr_handle s) (cr_host s) = rest
    \<and> line_of (cr_handle s) = line_end (ih_line ih @ map snd ps) (ih_insert_mode ih)"
proof -
  let ?s = "cooked_state output (put_line (normalize_cursor (line_of ih)) ih) h"
  obtain u where u: "cooked_loop k ?s = cooked_loop k u" "cooked_at u (line_end (ih_line ih @ map snd ps) (ih_insert_mode ih)) (c # rest)"
    using type_units [OF cooked_start [OF assms(1-3) assms(4)] assms(5)] by blast
  let ?c = "cooked_consume 1 u" and ?l = "line_end (ih_line ih @ map snd ps) (ih_insert_mode ih)"
  have c: "cooked_at ?c ?l rest" using cooked_consume_at [OF u(2), of 1] by simp
  then have "cooked_turn silent k u = Return (Reply status_alerted 0) (?c\<lparr>cr_host := forward_ctrl_c (k_pids k) (cr_host ?c)\<rparr>)"
    unfolding cooked_turn_text [OF u(2) assms(6)] using assms(7) by (simp add: handle_single_unit_def Let_def at_line_end [OF c] del: One_nat_def)
  then have "(r, s) = (Reply status_alerted 0, ?c\<lparr>cr_host := forward_ctrl_c (k_pids k) (cr_host ?c)\<rparr>)"
    using assms(2,8,9) u(1) by (simp add: cooked_read_def end_of_input_def cooked_loop.simps [of k u])
  then show ?thesis
    using c by (auto simp: cooked_at_def input_inv_def input_stream_def forward_ctrl_c_def)
qed

text \<open>
  Control-C does not abandon the line. A read interrupted by control-C answers STATUS_ALERTED,
  but unlike one interrupted by control-break it leaves what was typed in the handle: the next line
  that is read starts with the text typed before the interrupt.
\<close>

theorem interrupted_text_leaks:
  assumes "input_inv ih h" and "ih_cooked_pending ih = []" and "ih_line ih = []" and "ih_line_cursor ih = 0"
    and "input_stream ih h = map fst ps @ c # map fst qs @ cr # rest"
    and "list_all (\<lambda>(b, u). text_byte k b u \<and> ordinary u) (ps @ qs)" and "text_byte k c 0x03" and "text_byte k cr 0x0D"
    and "k_unicode k" and "k_processed k" and "line = map snd ps @ map snd qs @ [0x0D, 0x0A]"
    and "2 * length line \<le> length output" and "length output \<le> 0x7FFFFFFF"
    and "cooked_read k output ih h = (r1, s1)" and "cooked_read k output (cr_handle s1) (cr_host s1) = (r2, s2)"
  shows "r1 = Reply status_alerted 0 \<and> r2 = Reply status_success (2 * length line)
    \<and> cr_output s2 = store_front (concat (map wchar_bytes line)) output"
proof -
  have l: "list_all (\<lambda>(b, u). text_byte k b u \<and> ordinary u) ps" "list_all (\<lambda>(b, u). text_byte k b u \<and> ordinary u) qs"
    using assms(6) by simp_all
  have out: "output \<noteq> []" using assms(11,12) by auto
  have start: "ih_line_cursor ih = length (ih_line ih)" using assms(3,4) by simp
  have first: "r1 = Reply status_alerted 0" "ih_cooked_pending (cr_handle s1) = []" "input_inv (cr_handle s1) (cr_host s1)"
    "input_stream (cr_handle s1) (cr_host s1) = map fst qs @ cr # rest"
    "line_of (cr_handle s1) = line_end (map snd ps) (ih_insert_mode ih)"
    using interrupted_line [OF assms(1,2) start assms(5) l(1) assms(7,10) out assms(14)] assms(3) by simp_all
  then have "ih_line (cr_handle s1) = map snd ps" "ih_line_cursor (cr_handle s1) = length (ih_line (cr_handle s1))"
    by (simp_all add: line_of_def)
  from typed_line [OF first(3,2) this(2) first(4) l(2) assms(8,9) _ assms(12,13,15)] this(1) show ?thesis
    using first(1) assms(10,11) by (simp add: newline_suffix_def)
qed

theorem interrupted_text_leaks_witness:
  "\<exists>r1 s1 r2 s2. cooked_read (unicode_call True False) (replicate 10 0) new_input_handle (queued [0x61, 0x03, 0x62, 0x0D]) = (r1, s1)
     \<and> cooked_read (unicode_call True False) (replicate 10 0) (cr_handle s1) (cr_host s1) = (r2, s2)
     \<and> r1 = Reply status_alerted 0 \<and> r2 = Reply status_success 8
     \<and> cr_output s2 = store_front (concat (map wchar_bytes [0x61, 0x62, 0x0D, 0x0A])) (replicate 10 0)"
proof -
  let ?k = "unicode_call True False" and ?h = "queued [0x61, 0x03, 0x62, 0x0D]"
  obtain r1 s1 where one: "cooked_read ?k (replicate 10 0) new_input_handle ?h = (r1, s1)" by fastforce
  obtain r2 s2 where two: "cooked_read ?k (replicate 10 0) (cr_handle s1) (cr_host s1) = (r2, s2)" by fastforce
  have "text_byte ?k 0x61 0x61" "text_byte ?k 0x62 0x62" "text_byte ?k 0x0D 0x0D" "text_byte ?k 0x03 0x03"
    using latin_text_byte [of "0x61"] latin_text_byte [of "0x62"] latin_text_byte [of "0x0D"] latin_text_byte [of "0x03"] by simp_all
  then have "r1 = Reply status_alerted 0 \<and> r2 = Reply status_success 8
      \<and> cr_output s2 = store_front (concat (map wchar_bytes [0x61, 0x62, 0x0D, 0x0A])) (replicate 10 0)"
    using interrupted_text_leaks [OF queued_input(1) [of "[0x61, 0x03, 0x62, 0x0D]"] fresh_handle(1,3), where ps = "[(0x61, 0x61)]" and c = "0x03" and qs = "[(0x62, 0x62)]"
        and cr = "0x0D" and rest = "[]" and k = ?k, OF _ _ _ _ _ _ _ refl _ _ one two]
    by (simp add: queued_input fresh_handle ordinary_def unicode_call_def)
  then show ?thesis using one two by blast
qed

section \<open>Every cooked read is well behaved\<close>

text \<open>What the echo of pieces adds to the queue.\<close>

definition kept_answers :: "(bool \<times> byte list) list \<Rightarrow> byte list" where
  "kept_answers as = concat (map (\<lambda>(mem_ok, bytes). kept_bytes mem_ok bytes) as)"

definition answer_bytes :: "echo_answers \<Rightarrow> wstring list \<Rightarrow> byte list" where
  "answer_bytes an es = concat (map (\<lambda>i. kept_answers (an (take i es) (es ! i))) [0..<length es])"

lemma answer_bytes_Nil [simp]: "answer_bytes an [] = []"
  by (simp add: answer_bytes_def)

lemma answer_bytes_snoc [simp]: "answer_bytes an (es @ [p]) = answer_bytes an es @ kept_answers (an es p)"
proof -
  have old: "map (\<lambda>i. kept_answers (an (take i (es @ [p])) ((es @ [p]) ! i))) [0..<length es] =
      map (\<lambda>i. kept_answers (an (take i es) (es ! i))) [0..<length es]"
    by (rule map_cong) (simp_all add: nth_append)
  have "answer_bytes an (es @ [p]) =
      concat (map (\<lambda>i. kept_answers (an (take i (es @ [p])) ((es @ [p]) ! i))) [0..<length es]) @ kept_answers (an es p)"
    by (simp add: answer_bytes_def)
  then show ?thesis by (simp only: old answer_bytes_def)
qed

lemma answer_bytes_silent [simp]: "answer_bytes silent es = []"
  by (simp add: answer_bytes_def silent_def kept_answers_def)

lemma inject_bytes:
  assumes "queue_inv (ho_queue h)"
  shows "queue_inv (ho_queue (inject_input_bytes ok bs h)) \<and> queue_bytes (ho_queue (inject_input_bytes ok bs h)) = queue_bytes (ho_queue h) @ kept_bytes ok bs"
  using assms by (simp add: inject_input_bytes_def queue_inv_ops queue_push_bytes) (simp add: kept_bytes_def)

lemma inject_answers:
  assumes "queue_inv (ho_queue h)"
  shows "queue_inv (ho_queue (fold (\<lambda>(ok, bs). inject_input_bytes ok bs) as h))
    \<and> queue_bytes (ho_queue (fold (\<lambda>(ok, bs). inject_input_bytes ok bs) as h)) = queue_bytes (ho_queue h) @ kept_answers as"
  using assms
proof (induction as arbitrary: h)
  case (Cons a as)
  obtain ok bs where "a = (ok, bs)" by (cases a)
  then show ?case using inject_bytes [OF Cons.prems, of ok bs] Cons.IH [of "inject_input_bytes ok bs h"] by (simp add: kept_answers_def)
qed (simp add: kept_answers_def)

text \<open>The stream of \<open>t\<close> is the stream of \<open>s\<close> with the answers to what was echoed between them behind it.\<close>

definition stream_grows :: "echo_answers \<Rightarrow> CookedRead \<Rightarrow> CookedRead \<Rightarrow> bool" where
  "stream_grows an s t \<longleftrightarrow> ih_pending_bytes (cr_handle t) = ih_pending_bytes (cr_handle s)
    \<and> (queue_inv (ho_queue (cr_host s)) \<longrightarrow> queue_inv (ho_queue (cr_host t))
       \<and> (\<exists>x. queue_bytes (ho_queue (cr_host t)) = queue_bytes (ho_queue (cr_host s)) @ x
            \<and> answer_bytes an (cr_echoed t) = answer_bytes an (cr_echoed s) @ x))"

lemma stream_grows_refl:
  "ih_pending_bytes (cr_handle t) = ih_pending_bytes (cr_handle s) \<Longrightarrow> ho_queue (cr_host t) = ho_queue (cr_host s) \<Longrightarrow>
    cr_echoed t = cr_echoed s \<Longrightarrow> stream_grows an s t"
  by (simp add: stream_grows_def)

lemma stream_grows_trans: "stream_grows an s t \<Longrightarrow> stream_grows an t u \<Longrightarrow> stream_grows an s u"
  unfolding stream_grows_def by (metis append.assoc)

lemma echo_pieces_grow: "stream_grows an s (echo_pieces an k ps s)"
proof -
  have one: "stream_grows an s (echo_piece an p s)" for p s
    using inject_answers [of "cr_host s" "an (cr_echoed s) p"] by (simp add: stream_grows_def echo_piece_def)
  have "stream_grows an s (fold (echo_piece an) ps s)" for ps s
  proof (induction ps arbitrary: s)
    case (Cons p ps)
    show ?case using stream_grows_trans [OF one Cons.IH] by simp
  qed (simp add: stream_grows_refl)
  then show ?thesis by (simp add: echo_pieces_def stream_grows_refl)
qed

lemma run_edit_grow: "stream_grows an s (run_edit an k f s)"
proof -
  have "stream_grows an s (s\<lparr>cr_handle := put_line e (cr_handle s)\<rparr>)" for e by (rule stream_grows_refl) simp_all
  then show ?thesis using stream_grows_trans [OF _ echo_pieces_grow] by (simp add: run_edit_def split: prod.split)
qed

definition cooked_inv :: "echo_answers \<Rightarrow> byte list \<Rightarrow> nat \<Rightarrow> CookedRead \<Rightarrow> bool" where
  "cooked_inv an bs room s \<longleftrightarrow> input_inv (cr_handle s) (cr_host s) \<and> edit_ok (line_of (cr_handle s))
    \<and> (\<exists>used. bs @ answer_bytes an (cr_echoed s) = used @ input_stream (cr_handle s) (cr_host s)) \<and> length (cr_output s) = room"

text \<open>The three ways in which a turn ends keep a property.\<close>

fun turn_keeps :: "('s \<Rightarrow> bool) \<Rightarrow> 's turn \<Rightarrow> bool" where
  "turn_keeps P (Continue s) = P s"
| "turn_keeps P (Break s) = P s"
| "turn_keeps P (Return r s) = P s"

lemma cooked_inv_line:
  assumes "cooked_inv an bs room s" and "ih_pending_bytes (cr_handle t) = ih_pending_bytes (cr_handle s)"
    and "ho_queue (cr_host t) = ho_queue (cr_host s)" and "edit_ok (line_of (cr_handle t))" and "length (cr_output t) = length (cr_output s)"
    and "cr_echoed t = cr_echoed s"
  shows "cooked_inv an bs room t"
  using assms by (simp add: cooked_inv_def input_inv_def input_stream_def)

lemma cooked_inv_grow:
  assumes "cooked_inv an bs room s" and "stream_grows an s t" and "edit_ok (line_of (cr_handle t))" and "length (cr_output t) = length (cr_output s)"
  shows "cooked_inv an bs room t"
proof -
  obtain used where used: "bs @ answer_bytes an (cr_echoed s) = used @ input_stream (cr_handle s) (cr_host s)"
    using assms(1) by (auto simp: cooked_inv_def)
  obtain x where x: "queue_inv (ho_queue (cr_host t))" "queue_bytes (ho_queue (cr_host t)) = queue_bytes (ho_queue (cr_host s)) @ x"
    "answer_bytes an (cr_echoed t) = answer_bytes an (cr_echoed s) @ x" "ih_pending_bytes (cr_handle t) = ih_pending_bytes (cr_handle s)"
    using assms(1,2) by (auto simp: stream_grows_def cooked_inv_def input_inv_def)
  then have "bs @ answer_bytes an (cr_echoed t) = used @ input_stream (cr_handle t) (cr_host t)"
    using used by (simp add: input_stream_def)
  then show ?thesis using assms x by (auto simp: cooked_inv_def input_inv_def)
qed

lemma cooked_inv_edit:
  assumes "cooked_inv an bs room s" and "\<And>e. edit_ok e \<Longrightarrow> edit_ok (fst (f e))"
  shows "cooked_inv an bs room (run_edit an k f s)"
  by (rule cooked_inv_grow [OF assms(1) run_edit_grow]) (use assms in \<open>simp_all add: cooked_inv_def\<close>)

lemma cooked_inv_consume:
  assumes "cooked_inv an bs room s"
  shows "cooked_inv an bs room (cooked_consume n s)"
proof -
  have i: "input_inv (cr_handle s) (cr_host s)" using assms by (simp add: cooked_inv_def)
  have "input_stream (cr_handle (cooked_consume n s)) (cr_host (cooked_consume n s)) = drop n (input_stream (cr_handle s) (cr_host s))"
    using consume_stream(1) [OF i, of 16 n] by (simp add: cooked_consume_def split_beta)
  then have "input_stream (cr_handle s) (cr_host s) =
      take n (input_stream (cr_handle s) (cr_host s)) @ input_stream (cr_handle (cooked_consume n s)) (cr_host (cooked_consume n s))" by simp
  then have "\<exists>used. bs @ answer_bytes an (cr_echoed s) = used @ input_stream (cr_handle (cooked_consume n s)) (cr_host (cooked_consume n s))"
    using assms unfolding cooked_inv_def by (metis append.assoc)
  moreover have "input_inv (cr_handle (cooked_consume n s)) (cr_host (cooked_consume n s))"
    using consume_stream(2) [OF i, of 16 n] by (simp add: cooked_consume_def split_beta)
  moreover have "line_of (cr_handle (cooked_consume n s)) = line_of (cr_handle s)"
    by (simp add: cooked_consume_def consume_from_stream_def line_of_def Let_def)
  ultimately show ?thesis using assms unfolding cooked_inv_def by auto
qed

lemma store_front_length: "length data \<le> length output \<Longrightarrow> length (store_front data output) = length output"
  by (simp add: store_front_def)

lemma cooked_inv_deliver:
  assumes "cooked_inv an bs room s"
  shows "cooked_inv an bs room (snd (deliver_pending k s))"
proof (rule cooked_inv_line [OF assms])
  have "length (store_front (concat (map wchar_bytes (take (min (length pending) (length (cr_output s) div 2)) pending))) (cr_output s)) =
      length (cr_output s)" for pending
    by (rule store_front_length) (auto simp: min_def less_eq_div_iff_mult_less_eq)
  then show "length (cr_output (snd (deliver_pending k s))) = length (cr_output s)"
    by (auto simp: deliver_pending_def deliver_unicode_def deliver_ansi_def Let_def store_front_length)
qed (use assms in \<open>auto simp: deliver_pending_def deliver_unicode_def deliver_ansi_def Let_def cooked_inv_def line_of_def\<close>)

lemma cooked_inv_finish:
  assumes "cooked_inv an bs room s"
  shows "turn_keeps (cooked_inv an bs room) (finish_line an k v s)"
proof -
  let ?f = "\<lambda>e. if le_cursor e < length (le_line e)
      then (e\<lparr>le_cursor := length (le_line e)\<rparr>, echo_range (le_line e) (le_cursor e) (length (le_line e))) else (e, [])"
  have a: "cooked_inv an bs room (run_edit an k ?f s)"
    by (rule cooked_inv_edit [OF assms]) (simp add: edit_ok_def inside_pair_def)
  have "cooked_inv an bs room (skip_line_feed k t)" if "cooked_inv an bs room t" for t
    using that cooked_inv_consume by (simp add: skip_line_feed_def split: option.split)
  with a have b: "cooked_inv an bs room (if v = 0x0D then skip_line_feed k (run_edit an k ?f s) else run_edit an k ?f s)" (is "cooked_inv an bs room ?u") by simp
  let ?w = "echo_pieces an k [newline_suffix (k_processed k)] ?u"
  have w: "cooked_inv an bs room ?w"
    by (rule cooked_inv_grow [OF b echo_pieces_grow]) (use b in \<open>simp_all add: cooked_inv_def\<close>)
  let ?x = "if k_echo k then ?w\<lparr>cr_commands := cr_commands ?w @ [ih_line (cr_handle ?w)]\<rparr> else ?w"
  have c: "cooked_inv an bs room (?x\<lparr>cr_handle := (cr_handle ?x)\<lparr>ih_cooked_pending := p, ih_line := [], ih_line_cursor := 0\<rparr>\<rparr>)" for p
    by (rule cooked_inv_line [OF w]) (simp_all add: line_of_def edit_ok_def inside_pair_def)
  show ?thesis unfolding finish_line_def Let_def using cooked_inv_deliver [OF c] by (simp add: split_beta)
qed

lemma cooked_inv_unit:
  assumes "cooked_inv an bs room s"
  shows "turn_keeps (cooked_inv an bs room) (handle_single_unit an k v s)"
proof -
  define t where "t = s\<lparr>cr_handle := put_line (normalize_cursor (line_of (cr_handle s))) (cr_handle s)\<rparr>"
  have t: "cooked_inv an bs room t" by (rule cooked_inv_line [OF assms]) (simp_all add: t_def normalize_ok)
  have "cooked_inv an bs room (t\<lparr>cr_output := (cr_output t)[0 := 0]\<rparr>)" "cooked_inv an bs room (t\<lparr>cr_host := forward_ctrl_c (k_pids k) (cr_host t)\<rparr>)"
    by (rule cooked_inv_line [OF t]; use t in \<open>simp add: cooked_inv_def forward_ctrl_c_def\<close>)+
  then show ?thesis
    unfolding handle_single_unit_def Let_def t_def [symmetric]
    by (auto simp: cooked_inv_finish [OF t] intro!: cooked_inv_edit [OF t] edit_ok_units)
qed

lemma cooked_inv_units: "cooked_inv an bs room s \<Longrightarrow> turn_keeps (cooked_inv an bs room) (unit_loop an k vs s)"
proof (induction vs arbitrary: s)
  case (Cons v vs)
  show ?case using cooked_inv_unit [OF Cons.prems, of k v] Cons.IH by (cases "handle_single_unit an k v s") simp_all
qed simp

lemma cooked_inv_break:
  assumes "cooked_inv an bs room s"
  shows "cooked_inv an bs room (break_cooked k s)"
proof -
  have "input_stream (cr_handle (break_cooked k s)) (cr_host (break_cooked k s)) = []"
    by (simp add: break_cooked_def reset_input_handle_def input_stream_def flush_input_buffer_def forward_ctrl_break_def)
  then show ?thesis
    using assms unfolding cooked_inv_def
    by (auto simp: break_cooked_def reset_input_handle_def input_inv_def flush_input_buffer_def forward_ctrl_break_def line_of_def
        edit_ok_def inside_pair_def pending_inv_ops queue_inv_ops)
qed

lemma cooked_inv_turn:
  assumes "cooked_inv an bs room s"
  shows "turn_keeps (cooked_inv an bs room) (cooked_turn an k s)"
proof -
  have key: "turn_keeps (cooked_inv an bs room) (cooked_key an k key t)" if t: "cooked_inv an bs room t" for key t
  proof -
    have "cooked_inv an bs room (t\<lparr>cr_host := forward_ctrl_c (k_pids k) (cr_host t)\<rparr>)"
      by (rule cooked_inv_line [OF t]; use t in \<open>simp add: cooked_inv_def forward_ctrl_c_def\<close>)
    then show ?thesis
      using t cooked_inv_break [OF t] cooked_inv_units [OF t]
      by (auto simp: cooked_key_def Let_def split: option.split intro!: cooked_inv_edit [OF t] edit_ok_key)
  qed
  have token: "turn_keeps (cooked_inv an bs room) (cooked_token an k tk (cooked_consume n s))" for tk n
    using key cooked_inv_units cooked_inv_consume [OF assms, of n]
    by (auto simp: cooked_token_def split: TokenKind.split)
  let ?i = "cr_handle s" and ?h = "cr_host s"
  have i: "input_inv ?i ?h" using assms by (simp add: cooked_inv_def)
  have "\<exists>n. cooked_peek s = take n (queue_bytes (ho_queue ?h))"
    using i queue_peek_bytes [of "ho_queue ?h"] by (auto simp: cooked_peek_def Let_def peek_input_bytes_def input_inv_def intro: exI [of _ 0])
  then obtain n where n: "cooked_peek s = take n (queue_bytes (ho_queue ?h))" ..
  note p = park_stream [OF i n]
  have "line_of (fst (park_input (cooked_peek s) ?i ?h)) = line_of ?i" by (auto simp: park_input_def line_of_def split: prod.split bool.split)
  then have park: "cooked_inv an bs room (s\<lparr>cr_handle := fst (park_input (cooked_peek s) ?i ?h), cr_host := snd (park_input (cooked_peek s) ?i ?h)\<rparr>)"
    using assms p by (auto simp: cooked_inv_def)
  show ?thesis using token park assms by (simp add: cooked_turn_def split_beta split: option.split)
qed

lemma answering_loop_inv:
  assumes "answering_loop an k s = Some y"
  shows "cooked_inv an bs room s \<longrightarrow> cooked_inv an bs room (snd y)"
  using assms
proof (rule answering_loop.raw_induct [rotated], intro impI)
  fix loop an k s y
  assume ih: "\<And>an k s y. loop an k s = Some y \<Longrightarrow> cooked_inv an bs room s \<longrightarrow> cooked_inv an bs room (snd y)"
    and turn: "(case cooked_turn an k s of Continue s' \<Rightarrow> loop an k s' | Break s' \<Rightarrow> Some (None, s') | Return r s' \<Rightarrow> Some (Some r, s')) = Some y"
    and inv: "cooked_inv an bs room s"
  show "cooked_inv an bs room (snd y)" using cooked_inv_turn [OF inv, of k] turn ih by (cases "cooked_turn an k s") auto
qed

subsection \<open>The loop ends when the answers are bounded\<close>

lemma handle_single_unit_grow: "handle_single_unit an k v s = Continue t \<Longrightarrow> stream_grows an s t"
proof -
  have "stream_grows an s (s\<lparr>cr_handle := put_line e (cr_handle s)\<rparr>)" for e by (rule stream_grows_refl) simp_all
  then show "handle_single_unit an k v s = Continue t \<Longrightarrow> stream_grows an s t"
    by (auto simp: handle_single_unit_def finish_line_def Let_def split: if_splits prod.splits
        intro: stream_grows_trans [OF _ run_edit_grow])
qed

lemma unit_loop_grow: "unit_loop an k vs s = Continue t \<Longrightarrow> stream_grows an s t"
  by (induction vs arbitrary: s)
    (auto simp: stream_grows_refl split: turn.splits dest!: handle_single_unit_grow intro: stream_grows_trans)

lemma cooked_token_grow: "cooked_token an k token s = Continue t \<Longrightarrow> stream_grows an s t"
  by (auto simp: cooked_token_def cooked_key_def Let_def stream_grows_refl run_edit_grow split: TokenKind.splits if_splits option.splits
      dest: unit_loop_grow)

definition loop_measure :: "echo_answers \<Rightarrow> nat \<Rightarrow> CookedRead \<Rightarrow> nat" where
  "loop_measure an bound s = length (input_stream (cr_handle s) (cr_host s)) + (bound - length (answer_bytes an (cr_echoed s)))"

lemma cooked_turn_measure:
  assumes "cooked_turn an k s = Continue t" and "input_inv (cr_handle s) (cr_host s)" and "\<forall>es. length (answer_bytes an es) \<le> bound"
  shows "loop_measure an bound t < loop_measure an bound s"
proof -
  let ?bs = "input_stream (cr_handle s) (cr_host s)"
  have bs: "cooked_head s \<noteq> []" using assms(1) by (auto simp: cooked_turn_def split: if_splits)
  have at: "cooked_at s' (line_of (cr_handle s)) ?bs" if "s' = s\<lparr>cr_handle := (cr_handle s)\<lparr>ih_cooked_pending := []\<rparr>\<rparr>" for s'
    using that assms(2) by (simp add: cooked_at_def input_inv_def input_stream_def line_of_def)
  have "cooked_head s = take 64 ?bs" using cooked_head_stream(1) [OF at [OF refl]] by (simp add: cooked_head_def cooked_peek_def Let_def split: if_splits)
  then have ne: "?bs \<noteq> []" using bs by auto
  obtain n token where t: "0 < n" "cooked_token an k token (cooked_consume n s) = Continue t"
    using assms(1) by (auto simp: cooked_turn_def Let_def split: if_splits option.splits prod.splits)
  let ?c = "cooked_consume n s"
  have c: "input_stream (cr_handle ?c) (cr_host ?c) = drop n ?bs" "input_inv (cr_handle ?c) (cr_host ?c)"
    using consume_stream [OF assms(2), of 16 n] by (simp_all add: cooked_consume_def split_beta)
  obtain x where x: "input_stream (cr_handle t) (cr_host t) = drop n ?bs @ x" "answer_bytes an (cr_echoed t) = answer_bytes an (cr_echoed s) @ x"
    using cooked_token_grow [OF t(2)] c by (auto simp: stream_grows_def input_stream_def input_inv_def)
  moreover have "length (answer_bytes an (cr_echoed t)) \<le> bound" using assms(3) by blast
  moreover have "0 < length ?bs" using ne by simp
  ultimately show ?thesis using t(1) unfolding loop_measure_def by (simp only: length_append length_drop)
qed

lemma answering_loop_ends:
  assumes "cooked_inv an bs room s" and "\<forall>es. length (answer_bytes an es) \<le> bound"
  shows "\<exists>y. answering_loop an k s = Some y"
  using assms(1)
proof (induction "loop_measure an bound s" arbitrary: s rule: less_induct)
  case less
  show ?case
  proof (cases "cooked_turn an k s")
    case (Continue t)
    have "cooked_inv an bs room t" using cooked_inv_turn [OF less.prems, of k] Continue by simp
    moreover have "loop_measure an bound t < loop_measure an bound s"
      using cooked_turn_measure [OF Continue _ assms(2)] less.prems by (simp add: cooked_inv_def)
    ultimately show ?thesis using less.hyps Continue by (subst answering_loop.simps) simp
  qed (subst answering_loop.simps, simp)+
qed

subsection \<open>The request\<close>

lemma cooked_start_inv:
  assumes "input_inv ih h" and "edit_ok (line_of ih)"
  shows "cooked_inv an (input_stream ih h) (length output) (cooked_state output ih h)"
  using assms by (simp add: cooked_inv_def cooked_state_def)

lemma end_of_input_inv: "cooked_inv an bs room (snd e) \<Longrightarrow> cooked_inv an bs room (snd (end_of_input e))"
proof -
  assume i: "cooked_inv an bs room (snd e)"
  let ?c = "\<lambda>t. t\<lparr>cr_handle := (cr_handle t)\<lparr>ih_pending_bytes := pending_clear (ih_pending_bytes (cr_handle t)), ih_line := [], ih_line_cursor := 0\<rparr>\<rparr>"
  obtain used where "bs @ answer_bytes an (cr_echoed (snd e)) = (used @ pending_bytes (ih_pending_bytes (cr_handle (snd e)))) @ queue_bytes (ho_queue (cr_host (snd e)))"
    using i by (auto simp: cooked_inv_def input_stream_def)
  then have "cooked_inv an bs room (?c (snd e))"
    using i unfolding cooked_inv_def
    by (auto simp: input_inv_def input_stream_def pending_inv_ops line_of_def edit_ok_def inside_pair_def)
  then show ?thesis using i by (auto simp: end_of_input_def split: prod.split option.split)
qed

lemma answering_read_keeps:
  assumes "input_inv ih h" and "edit_ok (line_of ih)" and "answering_read an k output ih h = Some (r, s)"
  shows "input_inv (cr_handle s) (cr_host s) \<and> edit_ok (line_of (cr_handle s)) \<and> length (cr_output s) = length output
    \<and> (\<exists>used. input_stream ih h @ answer_bytes an (cr_echoed s) = used @ input_stream (cr_handle s) (cr_host s))"
proof -
  have "line_of ih = normalize_cursor (line_of ih)" using normalize_id [OF assms(2)] by simp
  then have start: "cooked_state output (put_line (normalize_cursor (line_of ih)) ih) h = cooked_state output ih h" by simp
  have whole: "cooked_inv an (input_stream ih h) (length output) (cooked_state output ih h)" by (rule cooked_start_inv [OF assms(1,2)])
  have "cooked_inv an (input_stream ih h) (length output) (snd (end_of_input e))" if "answering_loop an k (cooked_state output ih h) = Some e" for e
    using end_of_input_inv answering_loop_inv [OF that] whole by blast
  then have "cooked_inv an (input_stream ih h) (length output) s"
    using assms(3) whole cooked_inv_deliver [OF whole, of k] unfolding answering_read_def Let_def start
    by (cases "output = []"; cases "ih_cooked_pending ih = []"; force)
  then show ?thesis by (auto simp: cooked_inv_def)
qed

text \<open>
  C7. Whatever the terminal sends and whatever the echo answers, a cooked read that returns keeps its
  state well formed: the queue and the prefix of the handle satisfy their invariants, the cursor
  stays on the line and never inside a surrogate pair, the output buffer keeps its size. What is left
  in the stream is an end of the old stream with the answers that the host itself queued for the
  echoed text behind it, so that no input is repeated, reordered or invented. The read does return
  whenever the answers are bounded, in particular when there are none: each turn of its loop uses up
  input.
\<close>

theorem cooked_read_safe:
  assumes "input_inv ih h" and "edit_ok (line_of ih)"
  shows "(\<forall>r s. answering_read an k output ih h = Some (r, s) \<longrightarrow>
      input_inv (cr_handle s) (cr_host s) \<and> edit_ok (line_of (cr_handle s)) \<and> length (cr_output s) = length output
      \<and> (\<exists>used. input_stream ih h @ answer_bytes an (cr_echoed s) = used @ input_stream (cr_handle s) (cr_host s)))
    \<and> ((\<exists>bound. \<forall>es. length (answer_bytes an es) \<le> bound) \<longrightarrow> (\<exists>r s. answering_read an k output ih h = Some (r, s)))"
proof (intro conjI allI impI)
  assume "\<exists>bound. \<forall>es. length (answer_bytes an es) \<le> bound"
  then obtain bound where b: "\<forall>es. length (answer_bytes an es) \<le> bound" ..
  have "put_line (normalize_cursor (line_of ih)) ih = ih" using normalize_id [OF assms(2)] by simp
  then show "\<exists>r s. answering_read an k output ih h = Some (r, s)"
    using answering_loop_ends [OF cooked_start_inv [OF assms] b] by (auto simp: answering_read_def Let_def) (metis prod.collapse)+
qed (use answering_read_keeps [OF assms] in blast)+

text \<open>A host that answers the status query in the echoed text once.\<close>

definition answers_once :: echo_answers where
  "answers_once es p = (if es = [] then [(True, [0x1B, 0x5B, 0x30, 0x6E])] else [])"

lemma answers_once_bounded: "length (answer_bytes answers_once es) \<le> 4"
proof (induction es rule: rev_induct)
  case (snoc p es)
  have "kept_answers (answers_once es p) = (if es = [] then [0x1B, 0x5B, 0x30, 0x6E] else [])" by (simp add: answers_once_def kept_answers_def)
  then have "answer_bytes answers_once (es @ [p]) = answer_bytes answers_once es @ (if es = [] then [0x1B, 0x5B, 0x30, 0x6E] else [])"
    by (simp only: answer_bytes_snoc)
  then show ?case using snoc by (cases "es = []") simp_all
qed simp

theorem cooked_read_safe_witness:
  "\<exists>r s. answering_read answers_once (unicode_call True True) [0, 0] new_input_handle (queued [0x1B, 0x5B, 0x44]) = Some (r, s)
     \<and> edit_ok (line_of (cr_handle s)) \<and> length (cr_output s) = 2"
proof -
  have "edit_ok (line_of new_input_handle)" by (simp add: line_of_def new_input_handle_def edit_ok_def inside_pair_def)
  note safe = cooked_read_safe [OF queued_input(1) [of "[0x1B, 0x5B, 0x44]"] this, of answers_once "unicode_call True True" "[0, 0]"]
  obtain r s where run: "answering_read answers_once (unicode_call True True) [0, 0] new_input_handle (queued [0x1B, 0x5B, 0x44]) = Some (r, s)"
    using conjunct2 [OF safe] answers_once_bounded by blast
  then show ?thesis using conjunct1 [OF safe] by auto
qed

section \<open>Backspace in the window\<close>

text \<open>
  The backspace key of the window does not erase. \<open>KeyInputEncoder\<close> sends the byte 7F for it, and
  the line editor erases only for the unit 8: the key adds a delete character to the line, and the
  caller reads it in the middle of the text that should have been shortened.
\<close>

theorem window_backspace_not_erased:
  assumes "bKeyDown key" and "wVirtualKeyCode key = 0x08"
    and "input_inv ih h" and "ih_cooked_pending ih = []" and "ih_line ih = []" and "ih_line_cursor ih = 0"
    and "input_stream ih h = map fst ps @ encode_key wide_to_utf8 key @ [cr]"
    and "list_all (\<lambda>(b, u). text_byte k b u \<and> ordinary u) ps" and "text_byte k 0x7F 0x7F" and "text_byte k cr 0x0D"
    and "k_unicode k" and "line = map snd ps @ [0x7F] @ newline_suffix (k_processed k)"
    and "2 * length line \<le> length output" and "length output \<le> 0x7FFFFFFF" and "cooked_read k output ih h = (r, s)"
  shows "r = Reply status_success (2 * length line) \<and> cr_output s = store_front (concat (map wchar_bytes line)) output"
proof -
  have "encode_key wide_to_utf8 key = [0x7F]"
    using assms(1,2) by (simp add: encode_key_def special_key_sequence_def Let_def)
  then have stream: "input_stream ih h = map fst (ps @ [(0x7F, 0x7F)]) @ cr # []" using assms(7) by simp
  have all: "list_all (\<lambda>(b, u). text_byte k b u \<and> ordinary u) (ps @ [(0x7F, 0x7F)])"
    using assms(8,9) by (simp add: ordinary_def)
  have start: "ih_line_cursor ih = length (ih_line ih)" using assms(5,6) by simp
  have line: "line = ih_line ih @ map snd (ps @ [(0x7F, 0x7F)]) @ newline_suffix (k_processed k)" using assms(5,12) by simp
  from typed_line [OF assms(3,4) start stream all assms(10,11) line assms(13-15)] show ?thesis by simp
qed

theorem window_backspace_not_erased_witness:
  "let key = \<lparr>bKeyDown = True, wRepeatCount = 1, wVirtualKeyCode = 0x08, wVirtualScanCode = 0, UnicodeChar = 0x08, dwControlKeyState = 0\<rparr>
   in fst (cooked_read (unicode_call True True) (replicate 10 0) new_input_handle (queued ([0x61] @ encode_key (\<lambda>u. []) key @ [0x0D])))
     = Reply status_success 8"
proof -
  let ?key = "\<lparr>bKeyDown = True, wRepeatCount = 1, wVirtualKeyCode = 0x08, wVirtualScanCode = 0, UnicodeChar = 0x08, dwControlKeyState = 0\<rparr>"
  let ?k = "unicode_call True True" and ?bs = "[0x61] @ encode_key (\<lambda>u. []) ?key @ [0x0D]"
  obtain r s where run: "cooked_read ?k (replicate 10 0) new_input_handle (queued ?bs) = (r, s)" by fastforce
  have t: "text_byte ?k 0x61 0x61" "text_byte ?k 0x7F 0x7F" "text_byte ?k 0x0D 0x0D"
    using latin_text_byte [of "0x61"] latin_text_byte [of "0x7F"] latin_text_byte [of "0x0D"] by simp_all
  have "r = Reply status_success (2 * length ([0x61, 0x7F] @ newline_suffix True :: wstring))"
    using window_backspace_not_erased [OF _ _ queued_input(1) [of ?bs] fresh_handle(1,3), where key = ?key
        and ps = "[(0x61, 0x61)]" and cr = "0x0D" and k = ?k, OF _ _ _ _ _ t(2,3) _ refl _ _ run] t(1)
    by (simp add: queued_input(2) fresh_handle ordinary_def unicode_call_def newline_suffix_def)
  then show ?thesis using run by (simp add: newline_suffix_def Let_def)
qed

end
