(* ===== verification/Screen_Requests.thy ===== *)
theory Screen_Requests
  imports Server_State Cooked_Read
begin

text \<open>
  The requests of a client on the screen buffer behind an output handle
  (\<open>dispatch_message\<close> in \<open>condrv_server.hpp\<close>): cursor, buffer, window, attributes, scrolling, and
  reading and writing cells. A request takes the fields of its message, the bytes of its input
  or output buffer and the screen buffer; it gives the status of the reply, the fields it sets
  and the screen buffer after it.
\<close>

section \<open>Status codes and byte layouts\<close>

abbreviation status_not_implemented :: ulong where "status_not_implemented \<equiv> 0xC0000002"
abbreviation status_invalid_handle :: ulong where "status_invalid_handle \<equiv> 0xC0000008"
abbreviation status_no_memory :: ulong where "status_no_memory \<equiv> 0xC0000017"
abbreviation status_buffer_too_small :: ulong where "status_buffer_too_small \<equiv> 0xC0000023"

text \<open>Arrays of 16-bit values and of \<open>CHAR_INFO\<close> in memory, low byte first.\<close>

fun units_of :: "byte list \<Rightarrow> wstring" where
  "units_of (a # b # bs) = (ucast a OR push_bit 8 (ucast b)) # units_of bs"
| "units_of _ = []"

fun infos_of_units :: "wstring \<Rightarrow> CHAR_INFO list" where
  "infos_of_units (c # a # us) = \<lparr>ci_unicode_char = c, ci_attributes = a\<rparr> # infos_of_units us"
| "infos_of_units _ = []"

definition info_bytes :: "CHAR_INFO \<Rightarrow> byte list" where
  "info_bytes info = wchar_bytes (ci_unicode_char info) @ wchar_bytes (ci_attributes info)"

section \<open>Cursor and buffer information\<close>

definition get_cursor_info :: "ScreenBuffer \<Rightarrow> ulong \<times> bool" where
  "get_cursor_info sb = (sb_cursor_size sb, sb_cursor_visible sb)"

definition set_cursor_info_request :: "ulong \<Rightarrow> bool \<Rightarrow> ScreenBuffer \<Rightarrow> ulong \<times> ScreenBuffer" where
  "set_cursor_info_request sz visible sb =
    (if sz < 1 \<or> sz > 100 then (status_invalid_parameter, sb) else (status_success, set_cursor_info sz visible sb))"

record CONSOLE_SCREENBUFFERINFO_MSG =
  bi_Size :: COORD
  bi_CursorPosition :: COORD
  bi_ScrollPosition :: COORD
  bi_Attributes :: ushort
  bi_CurrentWindowSize :: COORD
  bi_MaximumWindowSize :: COORD
  bi_PopupAttributes :: ushort
  bi_FullscreenSupported :: bool
  bi_ColorTable :: "ulong list"

definition get_screen_buffer_info :: "ScreenBuffer \<Rightarrow> CONSOLE_SCREENBUFFERINFO_MSG" where
  "get_screen_buffer_info sb =
    (let r = sb_window_rect sb
     in \<lparr>bi_Size = sb_buffer_size sb, bi_CursorPosition = sb_cursor_position sb, bi_ScrollPosition = scroll_position sb,
         bi_Attributes = sb_text_attributes sb,
         bi_CurrentWindowSize = \<lparr>cx = to_short (r_right r - r_left r), cy = to_short (r_bottom r - r_top r)\<rparr>,
         bi_MaximumWindowSize = sb_maximum_window_size sb, bi_PopupAttributes = sb_text_attributes sb,
         bi_FullscreenSupported = False, bi_ColorTable = sb_color_table sb\<rparr>)"

definition outside :: "COORD \<Rightarrow> COORD \<Rightarrow> bool" where
  "outside sz c \<longleftrightarrow> cx c < 0 \<or> cy c < 0 \<or> cx c \<ge> cx sz \<or> cy c \<ge> cy sz"

text \<open>The checks are interleaved with the changes: what is set before a failing check stays.\<close>

definition set_screen_buffer_info :: "bool \<Rightarrow> CONSOLE_SCREENBUFFERINFO_MSG \<Rightarrow> ScreenBuffer \<Rightarrow> ulong \<times> ScreenBuffer" where
  "set_screen_buffer_info mem_ok body sb =
    (if cx (bi_Size body) \<le> 0 \<or> cy (bi_Size body) \<le> 0 then (status_invalid_parameter, sb)
     else
       let (ok, sb) = set_screen_buffer_size mem_ok (bi_Size body) sb
       in if \<not> ok then (status_no_memory, sb)
          else if outside (bi_Size body) (bi_CursorPosition body) then (status_invalid_parameter, sb)
          else
            let sb = set_color_table (bi_ColorTable body) (set_default_text_attributes (bi_Attributes body)
                       (set_text_attributes (bi_Attributes body) (set_cursor_position (bi_CursorPosition body) sb)));
                scroll = bi_ScrollPosition body; window = bi_CurrentWindowSize body
            in if cx scroll < 0 \<or> cy scroll < 0 \<or> cx window < 0 \<or> cy window < 0 then (status_invalid_parameter, sb)
               else
                 let left = cx scroll; top = cy scroll; right = left + cx window; bottom = top + cy window;
                     sz = sb_buffer_size sb
                 in if right < left \<or> bottom < top then (status_invalid_parameter, sb)
                    else if left \<ge> cx sz \<or> top \<ge> cy sz \<or> right \<ge> cx sz \<or> bottom \<ge> cy sz then (status_invalid_parameter, sb)
                    else
                      let (ok, sb) = set_window_rect \<lparr>r_left = to_short left, r_top = to_short top,
                            r_right = to_short right, r_bottom = to_short bottom\<rparr> sb
                      in (if ok then status_success else status_invalid_parameter, sb))"

definition set_screen_buffer_size_request :: "bool \<Rightarrow> COORD \<Rightarrow> ScreenBuffer \<Rightarrow> ulong \<times> ScreenBuffer" where
  "set_screen_buffer_size_request mem_ok sz sb =
    (if cx sz \<le> 0 \<or> cy sz \<le> 0 then (status_invalid_parameter, sb)
     else
       let (ok, sb) = set_screen_buffer_size mem_ok sz sb
       in (if ok then status_success else status_no_memory, sb))"

definition set_cursor_position_request :: "COORD \<Rightarrow> ScreenBuffer \<Rightarrow> ulong \<times> ScreenBuffer" where
  "set_cursor_position_request position sb =
    (if outside (sb_buffer_size sb) position then (status_invalid_parameter, sb)
     else (status_success, snap_window_to_cursor (set_cursor_position position sb)))"

definition set_window_info :: "bool \<Rightarrow> SMALL_RECT \<Rightarrow> ScreenBuffer \<Rightarrow> ulong \<times> ScreenBuffer" where
  "set_window_info absolute window sb =
    (let current = sb_window_rect sb; sz = sb_buffer_size sb;
         left = r_left current + r_left window; top = r_top current + r_top window;
         right = r_right current + r_right window; bottom = r_bottom current + r_bottom window;
         apply_window = (\<lambda>w. let (ok, sb) = set_window_rect w sb in (if ok then status_success else status_invalid_parameter, sb))
     in if absolute then apply_window window
        else if right < left \<or> bottom < top then (status_invalid_parameter, sb)
        else if left < 0 \<or> top < 0 \<or> right < 0 \<or> bottom < 0 \<or> left \<ge> cx sz \<or> top \<ge> cy sz \<or> right \<ge> cx sz \<or> bottom \<ge> cy sz
        then (status_invalid_parameter, sb)
        else apply_window \<lparr>r_left = to_short left, r_top = to_short top, r_right = to_short right, r_bottom = to_short bottom\<rparr>)"

section \<open>Scrolling\<close>

record CONSOLE_SCROLLSCREENBUFFER_MSG =
  sm_ScrollRectangle :: SMALL_RECT
  sm_ClipRectangle :: SMALL_RECT
  sm_Clip :: bool
  sm_Unicode :: bool
  sm_DestinationOrigin :: COORD
  sm_Fill :: CHAR_INFO

definition clamp_rect :: "int \<Rightarrow> int \<Rightarrow> SMALL_RECT \<Rightarrow> SMALL_RECT" where
  "clamp_rect max_x max_y r =
    \<lparr>r_left = (if r_left r < 0 then 0 else r_left r), r_top = (if r_top r < 0 then 0 else r_top r),
     r_right = (if r_right r > max_x then max_x else r_right r), r_bottom = (if r_bottom r > max_y then max_y else r_bottom r)\<rparr>"

definition empty_rect :: "SMALL_RECT \<Rightarrow> bool" where
  "empty_rect r \<longleftrightarrow> r_left r > r_right r \<or> r_top r > r_bottom r"

definition scroll_request :: "bool \<Rightarrow> CONSOLE_SCROLLSCREENBUFFER_MSG \<Rightarrow> ScreenBuffer \<Rightarrow> ulong \<times> ScreenBuffer" where
  "scroll_request mem_ok body sb =
    (let sz = sb_buffer_size sb; scroll = sm_ScrollRectangle body; clip = sm_ClipRectangle body;
         max_x = to_short (cx sz - 1); max_y = to_short (cy sz - 1);
         fill_char = (if sm_Unicode body then ci_unicode_char (sm_Fill body) else ucast (ucast (ci_unicode_char (sm_Fill body)) :: byte));
         scroll_with = (\<lambda>clip. let (ok, sb) = scroll_screen_buffer mem_ok (clamp_rect max_x max_y scroll) clip
                                   (sm_DestinationOrigin body) fill_char (ci_attributes (sm_Fill body)) sb
                               in (if ok then status_success else status_no_memory, sb))
     in if cx sz \<le> 0 \<or> cy sz \<le> 0 then (status_no_memory, sb)
        else if empty_rect scroll then (status_invalid_parameter, sb)
        else if empty_rect (clamp_rect max_x max_y scroll) then (status_success, sb)
        else if \<not> sm_Clip body then scroll_with \<lparr>r_left = 0, r_top = 0, r_right = max_x, r_bottom = max_y\<rparr>
        else if empty_rect clip then (status_invalid_parameter, sb)
        else if empty_rect (clamp_rect max_x max_y clip) then (status_success, sb)
        else scroll_with (clamp_rect max_x max_y clip))"

section \<open>Reading and writing cells\<close>

text \<open>The element types of the messages.\<close>

abbreviation CONSOLE_ASCII :: ulong where "CONSOLE_ASCII \<equiv> 1"
abbreviation CONSOLE_REAL_UNICODE :: ulong where "CONSOLE_REAL_UNICODE \<equiv> 2"
abbreviation CONSOLE_ATTRIBUTE :: ulong where "CONSOLE_ATTRIBUTE \<equiv> 3"
abbreviation CONSOLE_FALSE_UNICODE :: ulong where "CONSOLE_FALSE_UNICODE \<equiv> 4"

definition fill_console_output :: "ulong \<Rightarrow> COORD \<Rightarrow> ushort \<Rightarrow> ulong \<Rightarrow> ScreenBuffer \<Rightarrow> (ulong \<times> ulong) \<times> ScreenBuffer" where
  "fill_console_output element_type origin element requested sb =
    (let sz = sb_buffer_size sb; answer = (\<lambda>(written, sb). ((status_success, of_nat written), sb))
     in if cx sz \<le> 0 \<or> cy sz \<le> 0 then ((status_no_memory, 0), sb)
        else if outside sz origin then ((status_invalid_parameter, 0), sb)
        else if element_type = CONSOLE_ATTRIBUTE then answer (fill_output_attributes origin element (unat requested) sb)
        else if element_type = CONSOLE_REAL_UNICODE \<or> element_type = CONSOLE_FALSE_UNICODE
        then answer (fill_output_characters origin element (unat requested) sb)
        else if element_type = CONSOLE_ASCII
        then answer (fill_output_characters origin (ucast (ucast element :: byte)) (unat requested) sb)
        else ((status_invalid_parameter, 0), sb))"

text \<open>The reply of a read carries the whole output buffer; the number of records is a field.\<close>

definition read_console_output_string ::
    "ulong \<Rightarrow> COORD \<Rightarrow> byte list \<Rightarrow> ScreenBuffer \<Rightarrow> ulong \<times> nat \<times> ulong \<times> byte list" where
  "read_console_output_string string_type origin out sb =
    (let sz = sb_buffer_size sb;
         words = (\<lambda>(n, ws). (status_success, length out, of_nat n, store_front (concat (map wchar_bytes (take n ws))) out))
     in if cx sz \<le> 0 \<or> cy sz \<le> 0 then (status_no_memory, 0, 0, out)
        else if outside sz origin then (status_invalid_parameter, 0, 0, out)
        else if string_type = CONSOLE_ATTRIBUTE then words (read_output_attributes origin (replicate (length out div 2) 0) sb)
        else if string_type = CONSOLE_REAL_UNICODE \<or> string_type = CONSOLE_FALSE_UNICODE
        then words (read_output_characters origin (replicate (length out div 2) 0) sb)
        else if string_type = CONSOLE_ASCII
        then (let (n, bs) = read_output_ascii origin out sb in (status_success, length out, of_nat n, bs))
        else (status_invalid_parameter, 0, 0, out))"

definition write_console_output_string ::
    "bool \<Rightarrow> ulong \<Rightarrow> COORD \<Rightarrow> byte list \<Rightarrow> ScreenBuffer \<Rightarrow> (ulong \<times> ulong) \<times> ScreenBuffer" where
  "write_console_output_string mem_ok string_type origin input sb =
    (let sz = sb_buffer_size sb; answer = (\<lambda>(used, sb). ((status_success, of_nat used), sb))
     in if cx sz \<le> 0 \<or> cy sz \<le> 0 then ((status_no_memory, 0), sb)
        else if outside sz origin then ((status_invalid_parameter, 0), sb)
        else if string_type = CONSOLE_ATTRIBUTE then
          (if length input mod 2 \<noteq> 0 then ((status_invalid_parameter, 0), sb)
           else if \<not> mem_ok then ((status_no_memory, 0), sb)
           else answer (write_output_attributes origin (units_of input) sb))
        else if string_type = CONSOLE_REAL_UNICODE \<or> string_type = CONSOLE_FALSE_UNICODE then
          (if length input mod 2 \<noteq> 0 then ((status_invalid_parameter, 0), sb)
           else if \<not> mem_ok then ((status_no_memory, 0), sb)
           else answer (write_output_characters origin (units_of input) sb))
        else if string_type = CONSOLE_ASCII then answer (write_output_ascii origin input sb)
        else ((status_invalid_parameter, 0), sb))"

definition region_outside :: "COORD \<Rightarrow> SMALL_RECT \<Rightarrow> bool" where
  "region_outside sz r \<longleftrightarrow> r_left r < 0 \<or> r_top r < 0 \<or> r_right r \<ge> cx sz \<or> r_bottom r \<ge> cy sz"

definition write_console_output :: "SMALL_RECT \<Rightarrow> bool \<Rightarrow> byte list \<Rightarrow> ScreenBuffer \<Rightarrow> ulong \<times> ScreenBuffer" where
  "write_console_output region unicode input sb =
    (let sz = sb_buffer_size sb; record_count = nat (rect_width region) * nat (rect_height region)
     in if empty_rect region then (status_invalid_parameter, sb)
        else if cx sz \<le> 0 \<or> cy sz \<le> 0 then (status_no_memory, sb)
        else if region_outside sz region then (status_invalid_parameter, sb)
        else if length input mod 4 \<noteq> 0 then (status_invalid_parameter, sb)
        else if length input div 4 < record_count then (status_invalid_parameter, sb)
        else
          let (written, sb) = write_output_char_info_rect region (take record_count (infos_of_units (units_of input))) unicode sb
          in (if written \<noteq> record_count then status_no_memory else status_success, sb))"

definition read_console_output :: "SMALL_RECT \<Rightarrow> bool \<Rightarrow> byte list \<Rightarrow> ScreenBuffer \<Rightarrow> ulong \<times> nat \<times> byte list" where
  "read_console_output region unicode out sb =
    (let sz = sb_buffer_size sb; record_count = nat (rect_width region) * nat (rect_height region)
     in if empty_rect region then (status_invalid_parameter, 0, out)
        else if cx sz \<le> 0 \<or> cy sz \<le> 0 then (status_no_memory, 0, out)
        else if region_outside sz region then (status_invalid_parameter, 0, out)
        else if length out mod 4 \<noteq> 0 then (status_invalid_parameter, 0, out)
        else if length out div 4 < record_count then (status_invalid_parameter, 0, out)
        else
          let (copied, records) = read_output_char_info_rect region (take record_count (infos_of_units (units_of out))) unicode sb
          in if copied \<noteq> record_count then (status_no_memory, 0, out)
             else (status_success, copied * 4, store_front (concat (map info_bytes records)) out))"


section \<open>Every request keeps the buffer well-formed\<close>

abbreviation screen_run :: "ScreenBuffer \<Rightarrow> ScreenBuffer \<Rightarrow> bool" where
  "screen_run \<equiv> console_step\<^sup>*\<^sup>*"

lemma screen_run_ok: "screen_run sb sb' \<Longrightarrow> screen_ok sb \<Longrightarrow> screen_ok sb'"
  by (induction rule: rtranclp_induct) (auto dest: console_step_ok)

lemma screen_call_run: "screen_call sb sb' \<Longrightarrow> screen_run sb sb'"
  by (blast intro: console_call step_call)

lemma screen_call_then: "screen_run sb sb' \<Longrightarrow> screen_call sb' sb'' \<Longrightarrow> screen_run sb sb''"
  by (meson rtranclp_trans screen_call_run)

lemma not_outside_cursor: "\<not> outside sz p \<Longrightarrow> cursor_ok sz p"
  by (auto simp: outside_def cursor_ok_def in_extent_def)

lemma set_cursor_info_run: "screen_run sb (snd (set_cursor_info_request n v sb))"
  by (auto simp: set_cursor_info_request_def intro: screen_call_run call_cursor_info)

lemma set_size_run: "short_coord sz \<Longrightarrow> screen_run sb (snd (set_screen_buffer_size mem_ok sz sb))"
  by (blast intro: console_call step_resize)

lemma set_size_request_run: "short_coord sz \<Longrightarrow> screen_run sb (snd (set_screen_buffer_size_request mem_ok sz sb))"
  using set_size_run [of sz sb mem_ok] by (auto simp: set_screen_buffer_size_request_def split_beta)

lemma set_cursor_position_run: "screen_run sb (snd (set_cursor_position_request p sb))"
  using screen_call_then [OF screen_call_run [OF call_cursor] call_snap, of sb p]
  by (auto simp: set_cursor_position_request_def not_outside_cursor)

lemma set_window_info_run: "screen_run sb (snd (set_window_info absolute w sb))"
  by (auto simp: set_window_info_def Let_def split_beta intro: screen_call_run call_window_rect)

lemma scroll_request_run: "screen_run sb (snd (scroll_request mem_ok body sb))"
  by (auto simp: scroll_request_def Let_def split_beta intro: screen_call_run call_scroll)

lemma fill_console_output_run: "screen_run sb (snd (fill_console_output t origin el n sb))"
  by (auto simp: fill_console_output_def Let_def split_beta intro: screen_call_run call_fill_characters call_fill_attributes)

lemma write_console_output_string_run: "screen_run sb (snd (write_console_output_string mem_ok t origin input sb))"
  by (auto simp: write_console_output_string_def Let_def split_beta
      intro: screen_call_run call_write_characters call_write_attributes call_write_ascii)

lemma write_console_output_run: "screen_run sb (snd (write_console_output region unicode input sb))"
  by (auto simp: write_console_output_def Let_def split_beta intro: screen_call_run call_write_rect)

lemma snap_color_table: "sb_color_table (snap_window_to_cursor sb) = sb_color_table sb"
  by (simp add: snap_window_to_cursor_def Let_def touch_def)

lemma set_size_frame:
  assumes "set_screen_buffer_size mem_ok sz sb = (True, sb')"
  shows "sb_buffer_size sb' = sz" "sb_color_table sb' = sb_color_table sb"
  using assms by (auto simp: set_screen_buffer_size_def snap_color_table split: if_splits) (simp_all add: resized_def touch_def Let_def)

text \<open>The fields a client sets before the window is checked.\<close>

definition info_applied :: "CONSOLE_SCREENBUFFERINFO_MSG \<Rightarrow> ScreenBuffer \<Rightarrow> ScreenBuffer" where
  "info_applied body sb =
    set_color_table (bi_ColorTable body) (set_default_text_attributes (bi_Attributes body)
      (set_text_attributes (bi_Attributes body) (set_cursor_position (bi_CursorPosition body) sb)))"

lemma info_applied_simps:
  "sb_buffer_size (info_applied body sb) = sb_buffer_size sb" "sb_cells (info_applied body sb) = sb_cells sb"
  "sb_cursor_position (info_applied body sb) = bi_CursorPosition body" "sb_text_attributes (info_applied body sb) = bi_Attributes body"
  "sb_window_rect (info_applied body sb) = sb_window_rect sb"
  by (simp_all add: info_applied_def set_color_table_def set_default_text_attributes_def set_text_attributes_def set_cursor_position_def)

lemma set_color_table_all:
  assumes "length table = length (sb_color_table sb)"
  shows "sb_color_table (set_color_table table sb) = table"
proof -
  have "fold (\<lambda>i t. t[i := table ! i]) [0..<n] xs = take n table @ drop n xs"
    if "n \<le> length xs" and "length table = length xs" for n and xs :: "ulong list"
    using that
  proof (induction n)
    case (Suc n)
    have "(take n table @ drop n xs)[n := table ! n] = take (Suc n) table @ drop (Suc n) xs"
      using Suc.prems by (simp add: list_update_append take_Suc_conv_app_nth Cons_nth_drop_Suc [symmetric])
    then show ?case using Suc by simp
  qed simp
  from this [of "length (sb_color_table sb)" "sb_color_table sb"] assms show ?thesis
    by (simp add: set_color_table_def)
qed

lemma info_applied_colors:
  "length (bi_ColorTable body) = length (sb_color_table sb) \<Longrightarrow> sb_color_table (info_applied body sb) = bi_ColorTable body"
  unfolding info_applied_def
  by (rule set_color_table_all) (simp add: set_default_text_attributes_def set_text_attributes_def set_cursor_position_def)

lemma info_applied_run:
  "cursor_ok (sb_buffer_size sb) (bi_CursorPosition body) \<Longrightarrow> screen_run sb (info_applied body sb)"
  unfolding info_applied_def
  by (intro screen_call_then [OF _ call_color_table] screen_call_then [OF _ call_default_attributes]
      screen_call_then [OF _ call_attributes] screen_call_run call_cursor)

text \<open>The outcomes of \<open>SetConsoleScreenBufferInfo\<close>.\<close>

lemma set_screen_buffer_info_cases:
  obtains (unchanged) st where "set_screen_buffer_info mem_ok body sb = (st, sb)" "st \<noteq> status_success"
  | (resized) sz where "set_screen_buffer_size mem_ok (bi_Size body) sb = (True, sz)"
      "set_screen_buffer_info mem_ok body sb = (status_invalid_parameter, sz)"
      "outside (bi_Size body) (bi_CursorPosition body)"
  | (applied) sz where "set_screen_buffer_size mem_ok (bi_Size body) sb = (True, sz)"
      "\<not> outside (bi_Size body) (bi_CursorPosition body)"
      "set_screen_buffer_info mem_ok body sb = (status_invalid_parameter, info_applied body sz)"
  | (windowed) sz w where "set_screen_buffer_size mem_ok (bi_Size body) sb = (True, sz)"
      "\<not> outside (bi_Size body) (bi_CursorPosition body)"
      "w = \<lparr>r_left = to_short (cx (bi_ScrollPosition body)), r_top = to_short (cy (bi_ScrollPosition body)),
         r_right = to_short (cx (bi_ScrollPosition body) + cx (bi_CurrentWindowSize body)),
         r_bottom = to_short (cy (bi_ScrollPosition body) + cy (bi_CurrentWindowSize body))\<rparr>"
      "set_window_rect w (info_applied body sz) = (True, snd (set_window_rect w (info_applied body sz)))"
      "set_screen_buffer_info mem_ok body sb = (status_success, snd (set_window_rect w (info_applied body sz)))"
      "0 \<le> cx (bi_ScrollPosition body)" "0 \<le> cy (bi_ScrollPosition body)"
      "cx (bi_ScrollPosition body) + cx (bi_CurrentWindowSize body) < cx (bi_Size body)"
      "cy (bi_ScrollPosition body) + cy (bi_CurrentWindowSize body) < cy (bi_Size body)"
      "0 \<le> cx (bi_CurrentWindowSize body)" "0 \<le> cy (bi_CurrentWindowSize body)"
proof -
  obtain ok sz where r: "set_screen_buffer_size mem_ok (bi_Size body) sb = (ok, sz)" by (rule prod.exhaust)
  have size: "ok \<Longrightarrow> sb_buffer_size sz = bi_Size body" using set_size_frame(1) [of mem_ok "bi_Size body" sb sz] r by simp
  have same: "\<not> ok \<Longrightarrow> sz = sb" using r by (auto simp: set_screen_buffer_size_def split: if_splits)
  let ?w = "\<lparr>r_left = to_short (cx (bi_ScrollPosition body)), r_top = to_short (cy (bi_ScrollPosition body)),
         r_right = to_short (cx (bi_ScrollPosition body) + cx (bi_CurrentWindowSize body)),
         r_bottom = to_short (cy (bi_ScrollPosition body) + cy (bi_CurrentWindowSize body))\<rparr>"
  have failed: "\<not> fst (set_window_rect ?w (info_applied body sz)) \<Longrightarrow> snd (set_window_rect ?w (info_applied body sz)) = info_applied body sz"
    by (auto simp: set_window_rect_def)
  note def = set_screen_buffer_info_def [of mem_ok body sb, unfolded info_applied_def [symmetric] Let_def r prod.case]
  show ?thesis
  proof (cases "cx (bi_Size body) \<le> 0 \<or> cy (bi_Size body) \<le> 0 \<or> \<not> ok")
    case True
    then have "\<exists>st. set_screen_buffer_info mem_ok body sb = (st, sb) \<and> st \<noteq> status_success" using same by (auto simp: def)
    then show ?thesis using unchanged by blast
  next
    case False
    show ?thesis
    proof (cases "outside (bi_Size body) (bi_CursorPosition body)")
      case True
      then show ?thesis using resized [of sz] False r by (simp add: def)
    next
      case inside: False
      show ?thesis
      proof (cases "fst (set_screen_buffer_info mem_ok body sb) = status_success")
        case True
        then show ?thesis
          using windowed [of sz ?w] inside False r size failed
          by (cases "set_window_rect ?w (info_applied body sz)") (auto simp: def info_applied_simps split: if_splits)
      next
        case bad: False
        then show ?thesis
          using applied [of sz] inside False r size failed
          by (cases "set_window_rect ?w (info_applied body sz)") (auto simp: def info_applied_simps split: if_splits)
      qed
    qed
  qed
qed

lemma set_screen_buffer_info_run:
  assumes "short_coord (bi_Size body)"
  shows "screen_run sb (snd (set_screen_buffer_info mem_ok body sb))"
proof (cases rule: set_screen_buffer_info_cases [of mem_ok body sb])
  case (resized sz)
  then show ?thesis using set_size_run [OF assms, of sb mem_ok] by simp
next
  case (applied sz)
  then have "screen_run sz (info_applied body sz)"
    using set_size_frame(1) [OF applied(1)] by (intro info_applied_run not_outside_cursor) simp
  then show ?thesis using applied set_size_run [OF assms, of sb mem_ok] by (simp add: rtranclp_trans)
next
  case (windowed sz w)
  then have "screen_run sz (info_applied body sz)"
    using set_size_frame(1) [OF windowed(1)] by (intro info_applied_run not_outside_cursor) simp
  then have "screen_run sb (info_applied body sz)" using windowed(1) set_size_run [OF assms, of sb mem_ok] by (simp add: rtranclp_trans)
  then show ?thesis using windowed(5) screen_call_then call_window_rect by (metis snd_conv)
qed simp

section \<open>What is set is read back\<close>

text \<open>
  \<open>SetConsoleScreenBufferInfo\<close> is read back by \<open>GetConsoleScreenBufferInfo\<close>: whenever the request
  succeeds, the size, the cursor, the scroll position, the window size (both given as inclusive
  differences), the attributes and the colours reported afterwards are those of the request, the
  request was consistent (the cursor and the window inside the new size), and the buffer is
  well-formed.
\<close>

theorem buffer_info_read_back:
  assumes "screen_ok sb" and "short_coord (bi_Size body)" and "length (bi_ColorTable body) = length (sb_color_table sb)"
    and "set_screen_buffer_info mem_ok body sb = (status_success, sb')"
  shows "bi_Size (get_screen_buffer_info sb') = bi_Size body \<and> bi_CursorPosition (get_screen_buffer_info sb') = bi_CursorPosition body
    \<and> bi_ScrollPosition (get_screen_buffer_info sb') = bi_ScrollPosition body
    \<and> bi_CurrentWindowSize (get_screen_buffer_info sb') = bi_CurrentWindowSize body
    \<and> bi_Attributes (get_screen_buffer_info sb') = bi_Attributes body \<and> bi_ColorTable (get_screen_buffer_info sb') = bi_ColorTable body
    \<and> \<not> outside (bi_Size body) (bi_CursorPosition body) \<and> screen_ok sb'"
proof -
  have ok: "screen_ok sb'"
    using screen_run_ok [OF set_screen_buffer_info_run [OF assms(2), of sb mem_ok] assms(1)] assms(4) by simp
  show ?thesis
  proof (cases rule: set_screen_buffer_info_cases [of mem_ok body sb])
    case (windowed sz w)
    let ?a = "info_applied body sz"
    have sb': "sb' = touch (?a\<lparr>sb_window_rect := w\<rparr>)" using assms(4) windowed(4,5) by (auto simp: set_window_rect_def split: if_splits)
    have short: "to_short (cx (bi_ScrollPosition body)) = cx (bi_ScrollPosition body)" "to_short (cy (bi_ScrollPosition body)) = cy (bi_ScrollPosition body)"
      "to_short (cx (bi_ScrollPosition body) + cx (bi_CurrentWindowSize body)) = cx (bi_ScrollPosition body) + cx (bi_CurrentWindowSize body)"
      "to_short (cy (bi_ScrollPosition body) + cy (bi_CurrentWindowSize body)) = cy (bi_ScrollPosition body) + cy (bi_CurrentWindowSize body)"
      "to_short (cx (bi_CurrentWindowSize body)) = cx (bi_CurrentWindowSize body)" "to_short (cy (bi_CurrentWindowSize body)) = cy (bi_CurrentWindowSize body)"
      using windowed(6-11) assms(2) by (auto simp: short_coord_def intro!: to_short_id)
    have "sb_color_table sb' = bi_ColorTable body"
      using info_applied_colors [of body sz] assms(3) set_size_frame(2) [OF windowed(1)] by (simp add: sb')
    then show ?thesis
      using windowed(2) ok set_size_frame(1) [OF windowed(1)]
      by (simp add: get_screen_buffer_info_def sb' info_applied_simps scroll_position_def windowed(3) short)
  qed (use assms(4) in auto)
qed

lemma resize_same_cells:
  assumes "sb_ok sb" and "0 < cx (sb_buffer_size sb)"
    and "set_screen_buffer_size True (sb_buffer_size sb) sb = (ok, sb')"
  shows "ok" "sb_cells sb' = sb_cells sb" "sb_cursor_position sb' = sb_cursor_position sb"
proof -
  let ?w = "nat (cx (sb_buffer_size sb))" and ?h = "nat (cy (sb_buffer_size sb))"
  have pos: "0 < cy (sb_buffer_size sb)" and len: "length (sb_cells sb) = ?h * ?w"
    using assms(1,2) by (auto simp: sb_ok_def size_ok_def cells_ok_def)
  have sb': "sb' = snap_window_to_cursor (touch (resized (sb_buffer_size sb) sb))" and "ok"
    using assms(2,3) pos by (auto simp: set_screen_buffer_size_def)
  show ok by fact
  show "sb_cells sb' = sb_cells sb"
  proof (rule nth_equalityI)
    show "length (sb_cells sb') = length (sb_cells sb)"
      by (simp add: sb' resized_def Let_def len mult.commute)
    fix i assume "i < length (sb_cells sb')"
    then have i: "i < ?h * ?w" by (simp add: sb' resized_def Let_def mult.commute)
    then have "i div ?w < ?h" "i mod ?w < ?w" using assms(2) by (simp_all add: less_mult_imp_div_less)
    moreover have "i div ?w * ?w + i mod ?w = i" by (rule div_mult_mod_eq)
    ultimately show "sb_cells sb' ! i = sb_cells sb ! i"
      using copy_overlap_nth [of "sb_cells sb" ?h ?w _ ?h ?w "i mod ?w" "i div ?w"] i len
      by (simp add: sb' resized_def Let_def mult.commute)
  qed
  have same: "clamp_high e v = v" if "in_extent e v" "0 < e" for e v
    using that by (auto simp: clamp_high_def in_extent_def)
  have cur: "cursor_ok (sb_buffer_size sb) (sb_cursor_position sb)" using assms(1) by (simp add: sb_ok_def)
  then show cursor: "sb_cursor_position sb' = sb_cursor_position sb"
    using assms(2) pos by (simp add: sb' resized_def Let_def cursor_ok_def same)
qed

text \<open>
  Setting what was read changes nothing: when a client hands the information of
  \<open>GetConsoleScreenBufferInfo\<close> back to \<open>SetConsoleScreenBufferInfo\<close>, the request succeeds, every cell
  keeps its character and attributes, and the information read afterwards is the same.
\<close>

theorem buffer_info_idempotent:
  assumes "screen_ok sb" and "0 < cx (sb_buffer_size sb)"
  shows "\<exists>sb'. set_screen_buffer_info True (get_screen_buffer_info sb) sb = (status_success, sb') \<and> sb_cells sb' = sb_cells sb
    \<and> sb_window_rect sb' = sb_window_rect sb \<and> sb_cursor_position sb' = sb_cursor_position sb
    \<and> sb_text_attributes sb' = sb_text_attributes sb \<and> sb_color_table sb' = sb_color_table sb"
proof -
  let ?b = "get_screen_buffer_info sb" and ?sz = "sb_buffer_size sb" and ?r = "sb_window_rect sb"
  have ok: "sb_ok sb" using assms(1) by (simp add: screen_ok_def)
  have pos: "0 < cy ?sz" "cx ?sz \<le> 32767" "cy ?sz \<le> 32767" using ok assms(2) by (auto simp: sb_ok_def size_ok_def)
  have cursor: "\<not> outside ?sz (sb_cursor_position sb)" and win: "window_ok ?sz ?r"
    using ok assms(2) pos by (auto simp: sb_ok_def cursor_ok_def outside_def in_extent_def)
  then have w: "0 \<le> r_left ?r" "r_left ?r \<le> r_right ?r" "r_right ?r < cx ?sz" "0 \<le> r_top ?r" "r_top ?r \<le> r_bottom ?r" "r_bottom ?r < cy ?sz"
    using assms(2) pos by (auto simp: window_ok_def in_extent_def)
  have short: "to_short (r_left ?r) = r_left ?r" "to_short (r_top ?r) = r_top ?r" "to_short (r_right ?r) = r_right ?r"
    "to_short (r_bottom ?r) = r_bottom ?r" "to_short (r_right ?r - r_left ?r) = r_right ?r - r_left ?r"
    "to_short (r_bottom ?r - r_top ?r) = r_bottom ?r - r_top ?r"
    using w pos by (simp_all add: to_short_id)
  have fields: "bi_Size ?b = ?sz" "bi_CursorPosition ?b = sb_cursor_position sb" "bi_Attributes ?b = sb_text_attributes sb"
    "bi_ColorTable ?b = sb_color_table sb" "bi_ScrollPosition ?b = \<lparr>cx = r_left ?r, cy = r_top ?r\<rparr>"
    "bi_CurrentWindowSize ?b = \<lparr>cx = r_right ?r - r_left ?r, cy = r_bottom ?r - r_top ?r\<rparr>"
    by (simp_all add: get_screen_buffer_info_def Let_def scroll_position_def short)
  obtain okr sz where r: "set_screen_buffer_size True ?sz sb = (okr, sz)" by (rule prod.exhaust)
  note same = resize_same_cells [OF ok assms(2) r]
  have frame: "sb_buffer_size sz = ?sz" "sb_color_table sz = sb_color_table sb" using set_size_frame [of True ?sz sb sz] r same(1) by simp_all
  have "set_window_rect ?r (info_applied ?b sz) = (True, touch ((info_applied ?b sz)\<lparr>sb_window_rect := ?r\<rparr>))"
    using w assms(2) pos frame by (simp add: set_window_rect_def info_applied_simps)
  moreover have rect: "\<lparr>r_left = r_left ?r, r_top = r_top ?r, r_right = r_right ?r, r_bottom = r_bottom ?r\<rparr> = ?r" by simp
  ultimately have "set_screen_buffer_info True ?b sb = (status_success, touch ((info_applied ?b sz)\<lparr>sb_window_rect := ?r\<rparr>))"
    unfolding set_screen_buffer_info_def info_applied_def [symmetric] Let_def
    using r same(1) assms(2) pos cursor w frame by (simp add: fields short info_applied_simps rect)
  moreover have "sb_color_table (info_applied ?b sz) = sb_color_table sb"
    using info_applied_colors [of ?b sz] frame fields by simp
  ultimately show ?thesis using same(2) fields by (auto simp: info_applied_simps)
qed

text \<open>
  \<open>SetConsoleScreenBufferInfo\<close> does not check before it acts: a request whose cursor lies outside
  the requested size is refused as an invalid parameter, and yet the buffer has been resized, with
  every cell beyond the new size gone.
\<close>

theorem refused_info_resizes:
  assumes "sb_ok sb" and "0 < cx (bi_Size body)" and "0 < cy (bi_Size body)" and "outside (bi_Size body) (bi_CursorPosition body)"
  shows "\<exists>sb'. set_screen_buffer_info True body sb = (status_invalid_parameter, sb') \<and> sb_buffer_size sb' = bi_Size body
    \<and> length (sb_cells sb') = nat (cx (bi_Size body)) * nat (cy (bi_Size body))"
proof -
  obtain sz where r: "set_screen_buffer_size True (bi_Size body) sb = (True, sz)"
    using assms(2,3) by (simp add: set_screen_buffer_size_def)
  moreover have "length (sb_cells sz) = nat (cx (bi_Size body)) * nat (cy (bi_Size body))"
    using assms(2,3) r by (auto simp: set_screen_buffer_size_def resized_def Let_def)
  ultimately show ?thesis
    using assms(2-4) set_size_frame(1) [OF r] by (simp add: set_screen_buffer_info_def)
qed

section \<open>Reading back what was written\<close>

lemma unit_bytes: "(ucast (ucast u :: byte) OR push_bit 8 (ucast (ucast (drop_bit 8 u) :: byte)) :: wchar) = u"
  by (rule bit_word_eqI) (auto simp: bit_or_iff bit_ucast_iff bit_push_bit_iff bit_drop_bit_eq)

lemma wchar_bytes_unit [simp]: "wchar_bytes (ucast (a :: byte) OR push_bit 8 (ucast (b :: byte))) = [a, b]"
proof -
  have "(ucast (ucast a OR push_bit 8 (ucast b) :: wchar) :: byte) = a"
    by (rule bit_word_eqI) (auto simp: bit_or_iff bit_ucast_iff bit_push_bit_iff dest: bit_imp_le_length)
  moreover have "(ucast (drop_bit 8 (ucast a OR push_bit 8 (ucast b) :: wchar)) :: byte) = b"
    by (rule bit_word_eqI) (auto simp: bit_or_iff bit_ucast_iff bit_push_bit_iff bit_drop_bit_eq dest: bit_imp_le_length)
  ultimately show ?thesis unfolding wchar_bytes_def by simp
qed

lemma units_of_bytes [simp]: "units_of (concat (map wchar_bytes us)) = us"
  by (induction us) (simp_all add: wchar_bytes_def unit_bytes)

lemma bytes_of_units: "concat (map wchar_bytes (take n (units_of bs))) = take (2 * n) bs" if "2 * n \<le> length bs"
  using that
proof (induction n arbitrary: bs)
  case (Suc n)
  then obtain a b rest where bs: "bs = a # b # rest" by (cases bs; cases "tl bs") auto
  then show ?case using Suc by simp
qed simp

lemma length_units_of: "length (units_of bs) = length bs div 2"
  by (induction bs rule: units_of.induct) auto

lemma length_infos_of_units: "length (infos_of_units us) = length us div 2"
  by (induction us rule: infos_of_units.induct) auto

lemma info_bytes_of_bytes: "concat (map info_bytes (take n (infos_of_units (units_of bs)))) = take (4 * n) bs" if "4 * n \<le> length bs"
  using that
proof (induction n arbitrary: bs)
  case (Suc n)
  then obtain a b rest where 1: "bs = a # b # rest" by (cases bs; cases "tl bs") auto
  with Suc.prems obtain c d rest' where 2: "rest = c # d # rest'" by (cases rest; cases "tl rest") auto
  have four: "4 * Suc n = Suc (Suc (Suc (Suc (4 * n))))" by simp
  show ?case using Suc unfolding four by (simp add: 1 2 info_bytes_def)
qed simp

lemma inside_in_range: "sb_ok sb \<Longrightarrow> \<not> outside (sb_buffer_size sb) c \<Longrightarrow> coord_in_range c sb"
  by (auto simp: coord_in_range_def outside_def sb_ok_def cells_ok_def)

text \<open>
  C38. A rectangle written is the rectangle read: after a successful \<open>WriteConsoleOutput\<close> of Unicode
  cells, a \<open>ReadConsoleOutput\<close> of the same region into a buffer that can hold it succeeds and
  returns byte for byte the cells that were written, and every cell outside the region is as before.
\<close>

theorem output_rectangle_round_trip:
  assumes "screen_ok sb" and "write_console_output region True input sb = (status_success, sb')"
    and "n = nat (rect_width region) * nat (rect_height region)" and "length out mod 4 = 0" and "4 * n \<le> length out"
  shows "read_console_output region True out sb' = (status_success, 4 * n, take (4 * n) input @ drop (4 * n) out)
    \<and> (\<forall>c. coord_in_range c sb \<and> \<not> rect_contains region c \<longrightarrow> sb_cells sb' ! linear_index c sb = sb_cells sb ! linear_index c sb)"
proof -
  let ?records = "take n (infos_of_units (units_of input))" and ?dest = "take n (infos_of_units (units_of out))"
  have w: "\<not> empty_rect region" "\<not> (cx (sb_buffer_size sb) \<le> 0 \<or> cy (sb_buffer_size sb) \<le> 0)"
    "\<not> region_outside (sb_buffer_size sb) region" "n \<le> length input div 4"
    "write_output_char_info_rect region ?records True sb = (n, sb')"
    using assms(2) by (auto simp: write_console_output_def assms(3) [symmetric] Let_def split_beta prod_eq_iff not_less split: if_splits)
  have ok: "sb_ok sb" using assms(1) by (simp add: screen_ok_def)
  have len: "length ?records = n" "length ?dest = n"
    using w(4) assms(5) by (simp_all add: length_infos_of_units length_units_of)
  have range: "coord_in_range (rect_top_left region) sb" "coord_in_range (rect_bottom_right region) sb"
    using w(1-3) by (auto intro!: inside_in_range [OF ok] simp: outside_def region_outside_def empty_rect_def rect_top_left_def rect_bottom_right_def)
  have order: "r_left region \<le> r_right region" "r_top region \<le> r_bottom region" using w(1) by (auto simp: empty_rect_def)
  have trip: "read_output_char_info_rect region ?dest True sb' = (n, ?records)"
    and frame: "\<forall>c. coord_in_range c sb \<and> \<not> rect_contains region c \<longrightarrow> sb_cells sb' ! linear_index c sb = sb_cells sb ! linear_index c sb"
    using char_info_rect_round_trip [OF ok range order trans [OF len(1) assms(3)] eq_refl [OF trans [OF len(1) len(2) [symmetric]]] w(5)]
    unfolding len by simp_all
  have size: "sb_buffer_size sb' = sb_buffer_size sb"
    using screen_call_keeps [OF call_write_rect [of sb region ?records True]] w(5) by simp
  have "concat (map info_bytes ?records) = take (4 * n) input" using w(4) by (intro info_bytes_of_bytes) simp
  moreover have "length (take (4 * n) input) = 4 * n" using w(4) by simp
  moreover have "\<not> length out div 4 < n" using assms(5) by linarith
  ultimately show ?thesis
    unfolding read_console_output_def Let_def size assms(3) [symmetric]
    using w(1-3) trip frame assms(4) by (simp add: store_front_def mult.commute [of n 4])
qed

text \<open>
  Characters written are characters read: after a successful Unicode \<open>WriteConsoleOutputString\<close> of a
  non-empty text, a \<open>ReadConsoleOutputString\<close> at the same place returns the bytes of the characters
  that were written, as many of them as the buffer had room for, and reports the same number.
\<close>

theorem output_string_round_trip:
  assumes "screen_ok sb" and "write_console_output_string True CONSOLE_REAL_UNICODE origin input sb = ((status_success, used), sb')"
    and "input \<noteq> []" and "length out = length input"
  shows "\<exists>n. 0 < n \<and> 2 * n \<le> length input \<and> used = of_nat n
    \<and> read_console_output_string CONSOLE_REAL_UNICODE origin out sb' = (status_success, length out, of_nat n, take (2 * n) input @ drop (2 * n) out)"
proof -
  let ?chars = "units_of input" and ?dest = "replicate (length out div 2) 0 :: wstring"
  obtain n where w: "\<not> (cx (sb_buffer_size sb) \<le> 0 \<or> cy (sb_buffer_size sb) \<le> 0)" "\<not> outside (sb_buffer_size sb) origin"
    "write_output_characters origin ?chars sb = (n, sb')" "used = of_nat n" "length input mod 2 = 0"
    using assms(2) by (auto simp: write_console_output_string_def Let_def split_beta prod_eq_iff split: if_splits)
  have ok: "sb_ok sb" using assms(1) by (simp add: screen_ok_def)
  have range: "coord_in_range origin sb" using inside_in_range [OF ok] w(2) by blast
  have "0 < length ?chars" using assms(3) w(5) by (cases input; cases "tl input") (auto simp: length_units_of)
  then have ne: "?chars \<noteq> []" by simp
  have len: "length ?dest = length ?chars" by (simp add: length_units_of assms(4))
  from write_read_characters [OF ok range ne len w(3)]
  have n: "0 < n" "n \<le> length ?chars" and rd: "read_output_characters origin ?dest sb' = (n, take n ?chars @ drop n ?dest)" by simp_all
  have size: "sb_buffer_size sb' = sb_buffer_size sb"
    using screen_call_keeps [OF call_write_characters [of sb origin ?chars]] w(3) by simp
  have le: "2 * n \<le> length input" using n(2) by (simp add: length_units_of)
  then have "concat (map wchar_bytes (take n ?chars)) = take (2 * n) input" by (rule bytes_of_units)
  then have "read_console_output_string CONSOLE_REAL_UNICODE origin out sb' = (status_success, length out, of_nat n, take (2 * n) input @ drop (2 * n) out)"
    using w(1,2) rd le n(2) by (simp add: read_console_output_string_def size Let_def store_front_def)
  then show ?thesis using n(1) le w(4) by blast
qed

section \<open>Concrete requests\<close>

lemma small_screen_ok: "screen_ok small_screen"
  unfolding small_screen_def by (rule screen_ok_ctor) (simp add: short_coord_def)

definition small_info :: CONSOLE_SCREENBUFFERINFO_MSG where
  "small_info = \<lparr>bi_Size = \<lparr>cx = 2, cy = 2\<rparr>, bi_CursorPosition = \<lparr>cx = 1, cy = 0\<rparr>, bi_ScrollPosition = coord0, bi_Attributes = 5,
    bi_CurrentWindowSize = \<lparr>cx = 1, cy = 1\<rparr>, bi_MaximumWindowSize = coord0, bi_PopupAttributes = 0, bi_FullscreenSupported = False,
    bi_ColorTable = replicate 16 0\<rparr>"

theorem buffer_info_read_back_witness:
  "bi_CursorPosition (get_screen_buffer_info (snd (set_screen_buffer_info True small_info small_screen))) = \<lparr>cx = 1, cy = 0\<rparr>"
proof -
  have colors: "length (bi_ColorTable small_info) = length (sb_color_table small_screen)"
    by (simp add: small_info_def small_screen_def ScreenBuffer_ctor_def default_settings_def Let_def)
  obtain sz where r: "set_screen_buffer_size True (bi_Size small_info) small_screen = (True, sz)"
    by (simp add: set_screen_buffer_size_def small_info_def)
  have "\<exists>sb'. set_screen_buffer_info True small_info small_screen = (status_success, sb')"
    using set_size_frame(1) [OF r] r unfolding set_screen_buffer_info_def info_applied_def [symmetric] Let_def
    by (simp add: small_info_def outside_def info_applied_simps set_window_rect_def to_short_def)
  then obtain sb' where "set_screen_buffer_info True small_info small_screen = (status_success, sb')" ..
  with buffer_info_read_back [OF small_screen_ok _ colors this] show ?thesis by (simp add: small_info_def short_coord_def)
qed

theorem buffer_info_idempotent_witness:
  "fst (set_screen_buffer_info True (get_screen_buffer_info small_screen) small_screen) = status_success"
  using buffer_info_idempotent [OF small_screen_ok] small_screen_facts by auto

theorem refused_info_resizes_witness:
  "fst (set_screen_buffer_info True (small_info\<lparr>bi_CursorPosition := \<lparr>cx = 2, cy = 0\<rparr>\<rparr>) small_screen) = status_invalid_parameter
   \<and> sb_buffer_size (snd (set_screen_buffer_info True (small_info\<lparr>bi_CursorPosition := \<lparr>cx = 2, cy = 0\<rparr>\<rparr>) small_screen)) = \<lparr>cx = 2, cy = 2\<rparr>"
  using refused_info_resizes [OF small_screen_facts(1), of "small_info\<lparr>bi_CursorPosition := \<lparr>cx = 2, cy = 0\<rparr>\<rparr>"]
  by (auto simp: small_info_def outside_def)

theorem output_rectangle_round_trip_witness:
  "read_console_output \<lparr>r_left = 1, r_top = 0, r_right = 1, r_bottom = 0\<rparr> True [0, 0, 0, 0, 0, 0, 0, 0]
     (snd (write_console_output \<lparr>r_left = 1, r_top = 0, r_right = 1, r_bottom = 0\<rparr> True [0x41, 0, 7, 0] small_screen))
   = (status_success, 4, [0x41, 0, 7, 0, 0, 0, 0, 0])"
proof -
  let ?r = "\<lparr>r_left = 1, r_top = 0, r_right = 1, r_bottom = 0\<rparr>"
  obtain st sb' where w: "write_console_output ?r True [0x41, 0, 7, 0] small_screen = (st, sb')" by (rule prod.exhaust)
  have "coord_in_range (rect_top_left ?r) small_screen"
    by (simp add: coord_in_range_def small_screen_facts rect_top_left_def)
  then have "st = status_success"
    using w by (auto simp: write_console_output_def Let_def empty_rect_def region_outside_def small_screen_facts rect_width_def rect_height_def
        write_output_char_info_rect_def rect_top_left_def rect_bottom_right_def)
  with output_rectangle_round_trip [OF small_screen_ok, of ?r "[0x41, 0, 7, 0]" sb' 1 "[0, 0, 0, 0, 0, 0, 0, 0]"] w show ?thesis
    by (simp add: rect_width_def rect_height_def)
qed

theorem output_string_round_trip_witness:
  "\<exists>n. 0 < n \<and> read_console_output_string CONSOLE_REAL_UNICODE coord0 [0, 0, 0, 0]
     (snd (write_console_output_string True CONSOLE_REAL_UNICODE coord0 [0x41, 0, 0x42, 0] small_screen))
   = (status_success, 4, of_nat n, take (2 * n) [0x41, 0, 0x42, 0] @ drop (2 * n) [0, 0, 0, 0])"
proof -
  obtain st used sb' where w: "write_console_output_string True CONSOLE_REAL_UNICODE coord0 [0x41, 0, 0x42, 0] small_screen = ((st, used), sb')"
    by (metis prod.exhaust)
  then have "st = status_success"
    by (auto simp: write_console_output_string_def Let_def outside_def small_screen_facts split_beta)
  with w output_string_round_trip [OF small_screen_ok, of coord0 "[0x41, 0, 0x42, 0]" used sb' "[0, 0, 0, 0]"] show ?thesis by auto
qed

end
