(* ===== verification/Event_Count.thy ===== *)
theory Event_Count
  imports Record_Read
begin

text \<open>
  The request \<open>GetNumberOfConsoleInputEvents\<close>: it decodes what a reader would decode and counts.
  The count is compared with the records that reads of the same handle return.
\<close>

section \<open>The request\<close>

definition token_events :: "bool \<Rightarrow> DecodedToken \<Rightarrow> nat" where
  "token_events processed t =
    (case tk_kind t of
       ignored_sequence \<Rightarrow> 0
     | key_event \<Rightarrow>
         if processed \<and> bKeyDown (tk_key t) \<and> (key_event_matches_ctrl_c (tk_key t) \<or> key_event_matches_ctrl_break (tk_key t))
         then 0 else 1
     | text_units \<Rightarrow> if tk_text t = [] then 0 else if processed \<and> tk_text t = [3] then 0 else length (tk_text t))"

function count_events :: "code_pages \<Rightarrow> ulong \<Rightarrow> bool \<Rightarrow> nat \<Rightarrow> byte list \<Rightarrow> nat" where
  "count_events sys cp processed ready_events rest =
    (if rest = [] then ready_events
     else case decode_one_input_token sys cp rest of
            None \<Rightarrow> ready_events
          | Some token \<Rightarrow>
              if tk_bytes_consumed token = 0 then ready_events
              else count_events sys cp processed (ready_events + token_events processed token) (drop (tk_bytes_consumed token) rest))"
  by pat_completeness auto

termination
  by (relation "measure (\<lambda>(sys, cp, processed, n, rest). length rest)") auto

declare count_events.simps [simp del]

text \<open>
  A \<open>size_t\<close> counter cannot overflow on 65536 bytes, so its saturation is left out. When the
  scratch vector cannot be allocated the number of queued bytes is reported.
\<close>

definition number_of_input_events :: "code_pages \<Rightarrow> ulong \<Rightarrow> bool \<Rightarrow> bool \<Rightarrow> InputHandle \<Rightarrow> HostIo \<Rightarrow> nat" where
  "number_of_input_events sys cp processed mem_ok ih h =
    (let ready_bytes = input_bytes_available h;
         pending = pending_bytes (ih_pending_bytes ih);
         to_peek = min ready_bytes (65536 - length pending);
         peeked = (if mem_ok then pending @ (if to_peek \<noteq> 0 then peek_input_bytes to_peek h else []) else []);
         ready_events = (if (ready_bytes \<noteq> 0 \<or> pending \<noteq> []) \<and> peeked \<noteq> [] then count_events sys cp processed 0 peeked else ready_bytes);
         ready_events = (if ih_decoded_pending ih \<noteq> None then ready_events + 1 else ready_events)
     in min ready_events 0xFFFFFFFF)"

section \<open>What is counted\<close>

lemma count_events_tokens:
  "count_events sys cp processed n bs = n + sum_list (map (token_events processed) (tokens sys cp bs))"
proof (induction sys cp processed n bs rule: count_events.induct)
  case (1 sys cp processed n bs)
  show ?case
  proof (cases "decode_one_input_token sys cp bs")
    case None
    then show ?thesis by (simp add: count_events.simps [of _ _ _ _ bs] tok.drain_unfold)
  next
    case (Some t)
    then have "bs \<noteq> []" "tk_bytes_consumed t \<noteq> 0"
      using tok.dec_progress [OF Some] tok.dec_bound [OF Some] by auto
    then show ?thesis using 1 Some by (simp add: count_events.simps [of _ _ _ _ bs] tok.drain_unfold)
  qed
qed

text \<open>The key events that are counted and never returned: a released control-C or control-break.\<close>

definition released_control :: "bool \<Rightarrow> DecodedToken \<Rightarrow> bool" where
  "released_control processed t \<longleftrightarrow> processed \<and> tk_kind t = key_event \<and> \<not> bKeyDown (tk_key t)
    \<and> (key_event_matches_ctrl_c (tk_key t) \<or> key_event_matches_ctrl_break (tk_key t))"

lemma token_events_records:
  "token_events processed t = length (token_records processed unicode t) + (if released_control processed t then 1 else 0)"
  by (auto simp: token_events_def token_records_def released_control_def split: TokenKind.split)

lemma sum_token_events:
  "sum_list (map (token_events processed) ts) =
    length (concat (map (token_records processed unicode) ts)) + length (filter (released_control processed) ts)"
  by (induction ts) (simp_all add: token_events_records [of processed _ unicode])

lemma peeked_stream:
  assumes "input_inv ih h" and "length (input_stream ih h) \<le> 65536"
  shows "pending_bytes (ih_pending_bytes ih) @
      (if min (input_bytes_available h) (65536 - length (pending_bytes (ih_pending_bytes ih))) \<noteq> 0
       then peek_input_bytes (min (input_bytes_available h) (65536 - length (pending_bytes (ih_pending_bytes ih)))) h else []) = input_stream ih h"
    and "input_bytes_available h = length (queue_bytes (ho_queue h))"
proof -
  have q: "queue_inv (ho_queue h)" using assms(1) by (simp add: input_inv_def)
  show av: "input_bytes_available h = length (queue_bytes (ho_queue h))"
    by (simp add: input_bytes_available_def available_def queue_bytes_def)
  let ?n = "min (input_bytes_available h) (65536 - length (pending_bytes (ih_pending_bytes ih)))"
  have "?n = length (queue_bytes (ho_queue h))" using assms(2) by (simp add: av input_stream_def)
  then show "pending_bytes (ih_pending_bytes ih) @ (if ?n \<noteq> 0 then peek_input_bytes ?n h else []) = input_stream ih h"
    using queue_peek_bytes [OF q, of ?n] by (auto simp: input_stream_def peek_input_bytes_def)
qed

lemma count_records:
  assumes "input_inv ih h" and "length (input_stream ih h) \<le> 65536"
  shows "number_of_input_events sys cp processed True ih h =
    min (length (owed_records sys cp processed unicode ih h)
         + length (filter (released_control processed) (tokens sys cp (input_stream ih h)))) 0xFFFFFFFF"
proof -
  let ?bs = "input_stream ih h" and ?p = "pending_bytes (ih_pending_bytes ih)"
  have n: "count_events sys cp processed 0 ?bs =
      length (stream_records sys cp processed unicode ?bs) + length (filter (released_control processed) (tokens sys cp ?bs))"
    by (simp add: count_events_tokens sum_token_events [of processed _ unicode] stream_records_def)
  have none: "?bs = [] \<Longrightarrow> count_events sys cp processed 0 ?bs = 0" by (simp add: count_events.simps)
  have kept: "length (kept_records unicode (ih_decoded_pending ih)) = (if ih_decoded_pending ih \<noteq> None then 1 else 0)"
    by (simp add: kept_records_def split: option.split)
  have empty: "?bs = [] \<longleftrightarrow> \<not> (input_bytes_available h \<noteq> 0 \<or> ?p \<noteq> [])"
    by (auto simp: input_stream_def peeked_stream(2) [OF assms])
  have "number_of_input_events sys cp processed True ih h =
      min (count_events sys cp processed 0 ?bs + (if ih_decoded_pending ih \<noteq> None then 1 else 0)) 0xFFFFFFFF"
    unfolding number_of_input_events_def Let_def if_True peeked_stream(1) [OF assms]
    using none empty by (cases "?bs = []") auto
  then show ?thesis by (simp add: n owed_records_def kept)
qed

text \<open>Every byte stands for at most two events, so the count is never capped.\<close>

lemma count_events_bound: "count_events sys cp processed n bs \<le> n + 2 * length bs"
proof (induction sys cp processed n bs rule: count_events.induct)
  case (1 sys cp processed n bs)
  show ?case
  proof (cases "decode_one_input_token sys cp bs")
    case None
    then show ?thesis by (simp add: count_events.simps [of _ _ _ _ bs])
  next
    case (Some t)
    have t: "0 < tk_bytes_consumed t" "tk_bytes_consumed t \<le> length bs" using tok.dec_progress [OF Some] tok.dec_bound [OF Some] .
    have "token_events processed t \<le> 2" using token_text [OF Some] by (simp add: token_events_def split: TokenKind.split)
    moreover have "count_events sys cp processed n bs =
        count_events sys cp processed (n + token_events processed t) (drop (tk_bytes_consumed t) bs)"
      using t Some by (subst count_events.simps) auto
    moreover have "count_events sys cp processed (n + token_events processed t) (drop (tk_bytes_consumed t) bs)
        \<le> n + token_events processed t + 2 * length (drop (tk_bytes_consumed t) bs)"
      using 1 [OF _ Some] t by fastforce
    ultimately show ?thesis using t by simp
  qed
qed

abbreviation released_controls :: "code_pages \<Rightarrow> ulong \<Rightarrow> bool \<Rightarrow> byte list \<Rightarrow> nat" where
  "released_controls sys cp processed bs \<equiv> length (filter (released_control processed) (tokens sys cp bs))"

lemma count_records_exact:
  assumes "input_inv ih h" and "length (input_stream ih h) \<le> 65536"
  shows "number_of_input_events sys cp processed True ih h =
    length (owed_records sys cp processed unicode ih h) + released_controls sys cp processed (input_stream ih h)"
proof -
  have "length (stream_records sys cp processed unicode (input_stream ih h)) + released_controls sys cp processed (input_stream ih h) \<le> 131072"
    using count_events_bound [of sys cp processed 0 "input_stream ih h"] assms(2)
    by (simp add: count_events_tokens sum_token_events [of processed _ unicode] stream_records_def)
  moreover have "length (kept_records unicode u) \<le> 1" for u by (simp add: kept_records_def split: option.split)
  then have "length (kept_records unicode (ih_decoded_pending ih)) \<le> 1" .
  ultimately have "length (owed_records sys cp processed unicode ih h) + released_controls sys cp processed (input_stream ih h) \<le> 131073"
    by (simp add: owed_records_def)
  then show ?thesis using count_records [OF assms, of sys cp processed unicode] by simp
qed

text \<open>
  C39. A read lowers what \<open>GetNumberOfConsoleInputEvents\<close> answers by the records it returns. For up to 65536
  bytes of input without a pressed control-break in processed mode, the count before a read that removes
  is the number of records it returns plus the count after it, for every buffer size and whether
  it waits; with processed input the releases of control-C and control-break keys that the read
  passes over are counted as well, although they are never returned. In processed mode the read
  starts with an empty prefix.
\<close>

theorem event_count_exact:
  assumes "input_inv ih h" and "length (input_stream ih h) \<le> 65536" and "unbroken sys cp processed (input_stream ih h)"
    and "flags AND 1 = 0" and "processed \<longrightarrow> pending_bytes (ih_pending_bytes ih) = [] \<and> control_c_plain sys cp"
    and "get_console_input sys cp pids processed flags unicode output_size ih h = (reply, s)"
  shows "number_of_input_events sys cp processed True ih h
      + released_controls sys cp processed (input_stream (gi_handle s) (gi_host s))
    = length (gi_records s) + number_of_input_events sys cp processed True (gi_handle s) (gi_host s)
      + released_controls sys cp processed (input_stream ih h)"
proof -
  have r: "owed_records sys cp processed unicode ih h = gi_records s @ owed_records sys cp processed unicode (gi_handle s) (gi_host s)"
    "input_inv (gi_handle s) (gi_host s)" "length (input_stream (gi_handle s) (gi_host s)) \<le> 65536"
    using read_serves_records [OF assms(1,3,4,5,6)] assms(2) by simp_all
  show ?thesis
    using count_records_exact [OF assms(1,2), of sys cp processed unicode] count_records_exact [OF r(2,3), of sys cp processed unicode] r(1)
    by simp
qed

section \<open>A count without a record\<close>

lemma strip_ctrl_c_other: "queue_inv (ho_queue h) \<Longrightarrow> queue_bytes (ho_queue h) = b # bs \<Longrightarrow> b \<noteq> 3 \<Longrightarrow> strip_ctrl_c pids h = h"
  using queue_peek_bytes [of "ho_queue h" 1] by (simp add: strip_ctrl_c.simps peek_input_bytes_def)

text \<open>
  A released control-C makes a reader hang: when the release is all there is to read, the
  number of events is 1, and the read that a client issues for it does not return but waits.
\<close>

theorem released_control_blocks_reader:
  assumes "decode_one_input_token sys cp bs = Some t" and "tk_kind t = key_event" and "tk_bytes_consumed t = length bs"
    and "key_event_matches_ctrl_c (tk_key t)" and "\<not> key_event_matches_ctrl_break (tk_key t)" and "\<not> bKeyDown (tk_key t)"
    and "hd bs \<noteq> 3" and "length bs \<le> 64" and "20 \<le> output_size"
    and "input_inv ih h" and "input_stream ih h = bs" and "pi_size (ih_pending_bytes ih) = 0" and "ih_decoded_pending ih = None"
    and "\<not> input_disconnected h"
  shows "number_of_input_events sys cp True True ih h = 1
    \<and> fst (get_console_input sys cp pids True 0 unicode output_size ih h) = ReplyPending"
proof
  have bs: "bs \<noteq> []" using tok.dec_progress [OF assms(1)] assms(3) by auto
  have toks: "tokens sys cp bs = [t]"
    using tok.drain_unfold(2) [OF assms(1)] tok.drain_unfold(1) [of sys cp "[]"] assms(3)
    by (simp add: decode_one_input_token_def try_decode_vt_def decode_one_console_input_unit_def)
  have "length (input_stream ih h) \<le> 65536" using assms(8,11) by simp
  from count_records [OF assms(10) this, of sys cp True unicode]
  show "number_of_input_events sys cp True True ih h = 1"
    using assms by (simp add: toks owed_records_def stream_records_def kept_records_def token_records_def released_control_def)
next
  let ?c = "output_size div 20" and ?s = "\<lparr>gi_handle = ih, gi_host = h, gi_records = []\<rparr>"
  have q: "queue_inv (ho_queue h)" and p: "pending_inv (ih_pending_bytes ih)" using assms(10) by (simp_all add: input_inv_def)
  have bs: "bs \<noteq> []" using tok.dec_progress [OF assms(1)] assms(3) by auto
  have no_prefix: "pending_bytes (ih_pending_bytes ih) = []" using assms(12) by (simp add: pending_bytes_def)
  then have qb: "queue_bytes (ho_queue h) = bs" using assms(11) by (simp add: input_stream_def)
  then have av: "input_bytes_available h = length bs" by (auto simp: input_bytes_available_def available_def queue_bytes_def)
  have strip: "strip_ctrl_c pids h = h" using strip_ctrl_c_other [OF q] qb bs assms(7) by (cases bs) auto
  have cap: "1 \<le> ?c" using assms(9) by simp
  then have "min (length bs) (min (?c * 64) 65536) = length bs" using assms(8) by linarith
  then have window: "record_window ?c ?s = bs"
    using queue_peek_bytes [OF q, of "length bs"] bs by (simp add: record_window_def av peek_input_bytes_def qb)
  define r where "r = \<lparr>rs_records = [], rs_consumed = length bs, rs_ctrl_c = 0, rs_ctrl_break = 0, rs_decoded = None\<rparr>"
  have scan: "scan_records sys cp True False unicode ?c (initial_records False unicode ih) bs = r"
    using cap bs assms(1-6,13)
    by (simp add: scan_records.simps [of _ _ _ _ _ _ _ bs] scan_records.simps [of _ _ _ _ _ _ _ "[]"] initial_records_def scan_token_def
        scan_key_def Let_def r_def)
  obtain ih' h' where con: "consume_from_stream 256 (length bs) ih h = (ih', h')" by (rule prod.exhaust)
  note left = consume_stream [OF assms(10), of 256 "length bs", unfolded con assms(11), simplified]
  have gone: "queue_bytes (ho_queue h') = []" "pending_bytes (ih_pending_bytes ih') = []"
    using left(1) by (simp_all add: input_stream_def)
  have "input_bytes_available h' = 0" using gone(1) by (simp add: input_bytes_available_def available_def queue_bytes_def)
  moreover have "pi_size (ih_pending_bytes ih') = 0"
    using gone(2) left(2) by (auto simp: pending_bytes_def input_inv_def pending_inv_def)
  moreover have "\<not> input_disconnected h'" using left(3) assms(14) by (simp add: same_host_def)
  ultimately have fin: "finish_turn pids True False True r ?s = Return ReplyPending \<lparr>gi_handle = ih'\<lparr>ih_decoded_pending := None\<rparr>, gi_host = h', gi_records = []\<rparr>"
    using bs by (simp add: finish_turn_def r_def con)
  have "record_turn sys cp pids True False True unicode ?c ?s = finish_turn pids True False True r ?s"
    using bs window scan by (simp add: record_turn_def Let_def no_prefix av) (simp add: r_def)
  then show "fst (get_console_input sys cp pids True 0 unicode output_size ih h) = ReplyPending"
    using cap fin by (simp add: get_console_input_def strip Let_def record_loop.simps)
qed

definition ctrl_c_release :: KEY_EVENT_RECORD where
  "ctrl_c_release = \<lparr>bKeyDown = False, wRepeatCount = 1, wVirtualKeyCode = 0x43, wVirtualScanCode = 46, UnicodeChar = 3, dwControlKeyState = 8\<rparr>"

theorem event_count_exact_witness:
  "let s = snd (get_console_input latin_pages 1252 [7] True 0 True 20 new_input_handle (queued [0x03, 0x61, 0x62]))
   in length (gi_records s) + number_of_input_events latin_pages 1252 True True (gi_handle s) (gi_host s)
     + length (filter (released_control True) (tokens latin_pages 1252 (queue_bytes (ho_queue (queued [0x03, 0x61, 0x62])))))
    = 2 + length (filter (released_control True) (tokens latin_pages 1252 (input_stream (gi_handle s) (gi_host s))))"
proof -
  let ?bs = "[0x03, 0x61, 0x62] :: byte list"
  obtain r s where run: "get_console_input latin_pages 1252 [7] True 0 True 20 new_input_handle (queued ?bs) = (r, s)" by fastforce
  have unb: "unbroken latin_pages 1252 True ?bs" "length (stream_records latin_pages 1252 True True ?bs) = 2"
    by (simp_all add: stream_step [OF latin_token] stream_empty breaks_def token_records_def)
  have none: "tokens latin_pages 1252 [] = []"
    using tok.drain_unfold(1) [of latin_pages 1252 "[]"]
    by (simp add: decode_one_input_token_def try_decode_vt_def decode_one_console_input_unit_def)
  have rel: "released_controls latin_pages 1252 True ?bs = 0"
    by (simp add: tok.drain_unfold(2) [OF latin_token] none released_control_def)
  have fresh: "pending_bytes (ih_pending_bytes new_input_handle) = []" "kept_records True (ih_decoded_pending new_input_handle) = []"
    by (simp_all add: new_input_handle_def pending_defs kept_records_def)
  have plain: "control_c_plain latin_pages 1252" by (simp add: control_c_plain_def latin_pages_def)
  have before: "number_of_input_events latin_pages 1252 True True new_input_handle (queued ?bs) = 2"
    using count_records_exact [OF queued_input(1), of ?bs latin_pages 1252 True True] unb(2) rel fresh(2)
    by (simp add: queued_input(2) owed_records_def)
  have "queue_bytes (ho_queue (queued ?bs)) = ?bs" using queued_input(2) [of ?bs] fresh(1) by (simp add: input_stream_def)
  then show ?thesis
    using event_count_exact [OF queued_input(1) _ _ _ _ run] before unb(1) fresh(1) plain run by (simp add: queued_input(2))
qed

theorem released_control_blocks_reader_witness:
  "number_of_input_events latin_pages 1252 True True new_input_handle (queued (win32_sequence ctrl_c_release)) = 1
   \<and> fst (get_console_input latin_pages 1252 [] True 0 True 20 new_input_handle (queued (win32_sequence ctrl_c_release))) = ReplyPending"
proof (rule released_control_blocks_reader)
  let ?bs = "win32_sequence ctrl_c_release" and ?t = "key_token (length (win32_sequence ctrl_c_release)) ctrl_c_release"
  show "decode_one_input_token latin_pages 1252 ?bs = Some ?t"
    using win32_key_decoded [of ctrl_c_release] by (simp add: decode_one_input_token_def)
  show "tk_kind ?t = key_event" "tk_bytes_consumed ?t = length ?bs" by (simp_all add: key_token_def)
  show "key_event_matches_ctrl_c (tk_key ?t)" "\<not> key_event_matches_ctrl_break (tk_key ?t)" "\<not> bKeyDown (tk_key ?t)"
    by (simp_all add: key_token_def ctrl_c_release_def key_event_matches_ctrl_c_def key_event_matches_ctrl_break_def ctrl_mask_def alt_mask_def)
  show "hd ?bs \<noteq> 3" by (simp add: win32_sequence_def)
  show "length ?bs \<le> 64" by (simp add: win32_sequence_def ctrl_c_release_def dec_digits.simps)
  show "input_inv new_input_handle (queued ?bs)" "input_stream new_input_handle (queued ?bs) = ?bs" by (rule queued_input)+
  show "pi_size (ih_pending_bytes new_input_handle) = 0" "ih_decoded_pending new_input_handle = None"
    by (simp_all add: new_input_handle_def no_pending_bytes_def)
  show "\<not> input_disconnected (queued ?bs)"
    by (auto simp: queued_def input_disconnected_def queue_push_def new_queue_def update_event_locked_def Let_def)
qed simp

end
