(* ===== verification/Read_Safety.thy ===== *)
theory Read_Safety
  imports Server_State Event_Count Cooked_Read
begin

text \<open>
  Every kind of read keeps the state of its handle and the input queue well-formed, whatever the
  terminal sends: raw reads, record reads and cooked reads. The server relies on it to keep a
  handle usable after any request.
\<close>

section \<open>The interface of a reader\<close>

text \<open>
  A read is a loop of turns over a state that holds a handle and the host. When every turn keeps
  an invariant, so does the loop, however it ends.
\<close>

definition turn_result :: "'s turn \<Rightarrow> 's" where
  "turn_result t = (case t of Continue s \<Rightarrow> s | Break s \<Rightarrow> s | Return r s \<Rightarrow> s)"

lemma turn_result_simps [simp]:
  "turn_result (Continue s) = s" "turn_result (Break s) = s" "turn_result (Return r s) = s"
  by (simp_all add: turn_result_def)

locale turn_loop =
  fixes turn :: "'s \<Rightarrow> 's turn" and loop :: "'s \<Rightarrow> reply option \<times> 's" and left :: "'s \<Rightarrow> nat" and good :: "'s \<Rightarrow> bool"
  assumes loop_unfold: "loop s = (case turn s of Continue s' \<Rightarrow> loop s' | Break s' \<Rightarrow> (None, s') | Return r s' \<Rightarrow> (Some r, s'))"
    and turn_less: "turn s = Continue s' \<Longrightarrow> left s' < left s"
    and turn_good: "good s \<Longrightarrow> good (turn_result (turn s))"
begin

lemma loop_good: "good s \<Longrightarrow> good (snd (loop s))"
proof (induction "left s" arbitrary: s rule: less_induct)
  case less
  show ?case
  proof (cases "turn s")
    case (Continue s')
    then show ?thesis using less turn_less [OF Continue] turn_good [OF less.prems] by (simp add: loop_unfold [of s])
  qed (use turn_good [OF less.prems] in \<open>simp_all add: loop_unfold [of s]\<close>)
qed

end

section \<open>Raw and record reads\<close>

lemma consume_inv:
  assumes "input_inv ih h" and "0 < buf"
  shows "input_inv (fst (consume_from_stream buf n ih h)) (snd (consume_from_stream buf n ih h))"
  using consume_stream(2) [OF assms] .

lemma park_inv:
  assumes "input_inv ih h"
  shows "input_inv (fst (park_input peeked ih h)) (snd (park_input peeked ih h))"
proof -
  have q: "queue_inv (ho_queue h)" and p: "pending_inv (ih_pending_bytes ih)" using assms by (simp_all add: input_inv_def)
  obtain ok p' where a: "pending_append peeked (ih_pending_bytes ih) = (ok, p')" by (rule prod.exhaust)
  have "pending_inv p'" using pending_inv_ops(1) [OF p, of peeked] a by simp
  then show ?thesis
    using assms q discard_input_queue [OF q, of 16 "length peeked"] by (cases ok) (simp_all add: park_input_def a input_inv_def)
qed

lemma reset_inv: "input_inv ih h \<Longrightarrow> input_inv (reset_input_handle ih) h"
  by (simp add: input_inv_def reset_input_handle_def pending_inv_ops)

lemma flush_inv: "input_inv ih h \<Longrightarrow> input_inv ih (flush_input_buffer h)"
  by (simp add: input_inv_def flush_input_buffer_def queue_inv_ops)

lemma forward_inv [simp]:
  "input_inv ih (forward_ctrl_c pids h) = input_inv ih h" "input_inv ih (forward_ctrl_break pids h) = input_inv ih h"
  "input_inv ih ((forward_ctrl_c pids ^^ n) h) = input_inv ih h" "input_inv ih ((forward_ctrl_break pids ^^ n) h) = input_inv ih h"
  by (simp_all add: input_inv_def forward_ctrl_c_def forward_ctrl_break_def)

lemma decoded_inv [simp]: "input_inv (ih\<lparr>ih_decoded_pending := u\<rparr>) h = input_inv ih h"
  by (simp add: input_inv_def)

abbreviation raw_good :: "RawRead \<Rightarrow> bool" where
  "raw_good s \<equiv> input_inv (rr_handle s) (rr_host s)"

lemma raw_consume_good: "raw_good s \<Longrightarrow> raw_good (raw_consume n s)"
  using consume_inv [of "rr_handle s" "rr_host s" 16 n] by (simp add: raw_consume_def split_beta)

lemma raw_consume_output_good: "raw_good s \<Longrightarrow> raw_good (raw_consume n (s\<lparr>rr_output := x, rr_written := w\<rparr>))"
  using raw_consume_good [of "s\<lparr>rr_output := x, rr_written := w\<rparr>" n] by simp

lemma raw_turn_good:
  assumes "raw_good s"
  shows "raw_good (turn_result (raw_turn narrow pids processed s))"
proof -
  note good = raw_consume_good [OF assms] raw_consume_output_good [OF assms]
  have key: "raw_good (turn_result (raw_key narrow pids processed n k s))" for n k
    using good by (simp add: raw_key_def raw_end_of_file_def raw_store_char_def raw_forward_ctrl_c_def reset_inv flush_inv Let_def assms)
  have token: "raw_good (turn_result (raw_token narrow pids processed t s))" for t
    using good key by (simp add: raw_token_def assms)
  have byte: "raw_good (turn_result (raw_byte pids processed v s))" for v
    using good by (simp add: raw_byte_def raw_end_of_file_def raw_forward_ctrl_c_def Let_def)
  have more: "raw_good (turn_result (raw_need_more peeked s))" for peeked
    using park_inv [OF assms, of peeked] assms by (simp add: raw_need_more_def split_beta Let_def)
  show ?thesis
    using token byte more assms by (simp add: raw_turn_def Let_def split: prod.split DecodeResult.split)
qed

interpretation raw: turn_loop "raw_turn narrow pids processed" "raw_loop narrow pids processed" raw_left raw_good for narrow pids processed
  by unfold_locales (simp_all add: raw_loop.simps [of narrow] raw_turn_less raw_turn_good split: turn.split)

lemma raw_read_inv:
  assumes "input_inv ih h" and "raw_read narrow pids processed out ih h = (r, s)"
  shows "input_inv (rr_handle s) (rr_host s)"
proof -
  let ?s = "\<lparr>rr_handle = ih, rr_host = h, rr_output = out, rr_written = 0\<rparr>"
  have "raw_good (snd (raw_loop narrow pids processed ?s))" by (rule raw.loop_good) (simp add: assms(1))
  then show ?thesis using assms(2) by (auto simp: raw_read_def split: prod.splits option.splits if_splits)
qed

abbreviation record_good :: "RecordRead \<Rightarrow> bool" where
  "record_good s \<equiv> input_inv (gi_handle s) (gi_host s)"

lemma finish_turn_good:
  assumes "record_good s"
  shows "record_good (turn_result (finish_turn pids processed is_peek wait_allowed r s))"
  using assms consume_inv [OF assms, of 256 "rs_consumed r"]
  by (auto simp: finish_turn_def Let_def split_beta reset_inv flush_inv)

lemma record_turn_good:
  assumes "record_good s"
  shows "record_good (turn_result (record_turn sys cp pids processed is_peek wait_allowed unicode capacity s))"
proof -
  have fin: "record_good (turn_result (finish_turn pids processed peek wait r (s\<lparr>gi_records := []\<rparr>)))" for peek wait r
    by (rule finish_turn_good) (simp add: assms)
  show ?thesis
    using fin assms park_inv [OF assms] by (simp add: record_turn_def Let_def split_beta)
qed

interpretation recs: turn_loop "record_turn sys cp pids processed is_peek wait_allowed unicode capacity"
  "record_loop sys cp pids processed is_peek wait_allowed unicode capacity" "\<lambda>s. stream_left (gi_handle s) (gi_host s)" record_good
  for sys cp pids processed is_peek wait_allowed unicode capacity
  by unfold_locales (simp_all add: record_loop.simps [of sys] record_turn_less record_turn_good split: turn.split)

lemma strip_ctrl_c_inv: "input_inv ih h \<Longrightarrow> input_inv ih (strip_ctrl_c pids h)"
proof (induction pids h rule: strip_ctrl_c.induct)
  case (1 pids h)
  have "input_inv ih (snd (read_input_bytes 1 h))"
    using "1.prems" by (simp add: input_inv_def read_input_bytes_def queue_inv_ops)
  then show ?case using 1 by (subst strip_ctrl_c.simps) simp
qed

lemma get_console_input_inv:
  assumes "input_inv ih h" and "get_console_input sys cp pids processed flags unicode room ih h = (r, s)"
  shows "input_inv (gi_handle s) (gi_host s)"
proof -
  define h' where "h' = (if processed then strip_ctrl_c pids h else h)"
  let ?s = "\<lparr>gi_handle = ih, gi_host = h', gi_records = []\<rparr>"
  have "input_inv ih h'" using assms(1) by (simp add: h'_def strip_ctrl_c_inv)
  then have "record_good (snd (record_loop sys cp pids processed (flags AND 1 \<noteq> 0) (flags AND 2 = 0) unicode (room div 20) ?s))"
    by (intro recs.loop_good) simp
  then show ?thesis
    using assms unfolding get_console_input_def Let_def h'_def [symmetric]
    by (auto split: prod.splits option.splits if_splits)
qed

section \<open>Cooked reads\<close>

text \<open>
  A cooked read starts by moving the cursor into the line, so it needs nothing of the cursor a
  flush or an earlier read left behind.
\<close>

lemma answering_read_normalizes: "answering_read an k out ih h = Some (r, s) \<Longrightarrow> out \<noteq> []
  \<Longrightarrow> answering_read an k out (put_line (normalize_cursor (line_of ih)) ih) h = Some (r, s)"
  by (simp add: answering_read_def normalize_id [OF normalize_ok] Let_def)

lemma answering_read_inv:
  assumes "input_inv ih h" and "answering_read an k out ih h = Some (r, s)"
  shows "input_inv (cr_handle s) (cr_host s)"
proof (cases "out = []")
  case True
  then show ?thesis using assms by (auto simp: answering_read_def cooked_state_def)
next
  case False
  let ?ih = "put_line (normalize_cursor (line_of ih)) ih"
  have "input_inv ?ih h" "edit_ok (line_of ?ih)" using assms(1) by (simp_all add: input_inv_def normalize_ok)
  then show ?thesis using answering_read_keeps answering_read_normalizes [OF assms(2) False] by blast
qed

end
