(* ===== verification/Char_Read.thy ===== *)
theory Char_Read
  imports Read_Safety
begin

text \<open>
  \<open>ReadConsole\<close> without line input (\<open>dispatch_message\<close> in \<open>condrv_server.hpp\<close>): characters are handed
  out as they come, as UTF-16 units or, in the ANSI variant, as bytes. A handle keeps the second
  unit of a surrogate pair for which the buffer had no room.
\<close>

section \<open>Control-Z in front\<close>

definition control_z_in_front :: "bool \<Rightarrow> HostIo \<Rightarrow> bool" where
  "control_z_in_front process_control_z h \<longleftrightarrow>
    process_control_z \<and> input_bytes_available h \<noteq> 0 \<and> peek_input_bytes 1 h = [0x1A]"

text \<open>
  What a read of characters does before it decodes: with processed input the control-C bytes at the
  front of the queue are sent and removed; without anything to read the request waits or, when the
  input is gone, fails; control-Z in front ends the read.
\<close>

datatype char_start = NothingToRead reply | EndOfText | Characters

definition char_prepare :: "ulong list \<Rightarrow> bool \<Rightarrow> bool \<Rightarrow> bool \<Rightarrow> InputHandle \<Rightarrow> HostIo \<Rightarrow> char_start \<times> HostIo" where
  "char_prepare pids processed unicode process_control_z ih h =
    (let h = (if processed then strip_ctrl_c pids h else h);
         has_pending_unit = (unicode \<and> ih_decoded_pending ih \<noteq> None)
     in if input_bytes_available h = 0 \<and> pi_size (ih_pending_bytes ih) = 0 \<and> \<not> has_pending_unit then
          (NothingToRead (if input_disconnected h then Reply status_unsuccessful 0 else ReplyPending), h)
        else if control_z_in_front process_control_z h then (EndOfText, snd (read_input_bytes 1 h))
        else (Characters, h))"

lemma char_prepare_inv:
  assumes "input_inv ih h" and "char_prepare pids processed unicode z ih h = (start, h')"
  shows "input_inv ih h'"
proof -
  have "input_inv ih (if processed then strip_ctrl_c pids h else h)" (is "input_inv ih ?h") using assms(1) by (simp add: strip_ctrl_c_inv)
  moreover have "input_inv ih (snd (read_input_bytes 1 ?h))"
    using calculation by (simp add: input_inv_def read_input_bytes_def queue_inv_ops)
  ultimately show ?thesis using assms(2) by (auto simp: char_prepare_def Let_def split: if_splits)
qed

section \<open>Units\<close>

text \<open>\<open>wr_output\<close> is the output buffer as an array of units.\<close>

record WideRead =
  wr_handle :: InputHandle
  wr_host :: HostIo
  wr_output :: wstring
  wr_written :: nat

definition wide_store :: "wstring \<Rightarrow> WideRead \<Rightarrow> WideRead" where
  "wide_store us s =
    s\<lparr>wr_output := take (wr_written s) (wr_output s) @ us @ drop (wr_written s + length us) (wr_output s),
      wr_written := wr_written s + length us\<rparr>"

definition wide_consume :: "nat \<Rightarrow> WideRead \<Rightarrow> WideRead" where
  "wide_consume n s =
    (let (ih, h) = consume_from_stream 16 n (wr_handle s) (wr_host s) in s\<lparr>wr_handle := ih, wr_host := h\<rparr>)"

definition wide_forward_ctrl_c :: "ulong list \<Rightarrow> WideRead \<Rightarrow> WideRead" where
  "wide_forward_ctrl_c pids s = s\<lparr>wr_host := forward_ctrl_c pids (wr_host s)\<rparr>"

text \<open>The bytes that did not make a character go to the prefix of the handle, through an array of 8 bytes.\<close>

definition wide_park :: "byte list \<Rightarrow> WideRead \<Rightarrow> WideRead" where
  "wide_park peeked s =
    (if peeked = [] then s
     else case pending_append peeked (ih_pending_bytes (wr_handle s)) of
            (True, p) \<Rightarrow> s\<lparr>wr_handle := (wr_handle s)\<lparr>ih_pending_bytes := p\<rparr>, wr_host := discard_input 8 (length peeked) (wr_host s)\<rparr>
          | (False, _) \<Rightarrow> s)"

definition wide_wait :: "WideRead \<Rightarrow> WideRead turn" where
  "wide_wait s = (if input_disconnected (wr_host s) then Return (Reply status_unsuccessful 0) s else Return ReplyPending s)"

definition wide_key :: "ulong list \<Rightarrow> bool \<Rightarrow> KEY_EVENT_RECORD \<Rightarrow> WideRead \<Rightarrow> WideRead turn" where
  "wide_key pids processed key s =
    (if processed \<and> bKeyDown key \<and> key_event_matches_ctrl_break key then
       Return (Reply status_alerted 0)
         (s\<lparr>wr_handle := reset_input_handle (wr_handle s),
            wr_host := forward_ctrl_break pids (flush_input_buffer (wr_host s))\<rparr>)
     else if processed \<and> bKeyDown key \<and> key_event_matches_ctrl_c key then Continue (wide_forward_ctrl_c pids s)
     else if \<not> bKeyDown key then Continue s
     else if UnicodeChar key = 0 then Continue s
     else
       let repeat = max 1 (unat (wRepeatCount key)); to_write = min repeat (length (wr_output s) - wr_written s)
       in Continue (wide_store (replicate to_write (UnicodeChar key)) s))"

text \<open>Text after its bytes have been used up; \<open>split\<close> says that only its first unit has room.\<close>

definition wide_text :: "ulong list \<Rightarrow> bool \<Rightarrow> bool \<Rightarrow> wstring \<Rightarrow> WideRead \<Rightarrow> WideRead turn" where
  "wide_text pids processed split us s =
    (if us = [] then Break s
     else if processed \<and> us = [3] then Continue (wide_forward_ctrl_c pids s)
     else if split then
       Break (wide_store [us ! 0] (s\<lparr>wr_handle := (wr_handle s)\<lparr>ih_decoded_pending := Some (us ! 1)\<rparr>\<rparr>))
     else
       let s = wide_store us s
       in if input_bytes_available (wr_host s) = 0 \<and> pi_size (ih_pending_bytes (wr_handle s)) = 0 then Break s else Continue s)"

definition wide_token :: "ulong list \<Rightarrow> bool \<Rightarrow> DecodedToken \<Rightarrow> WideRead \<Rightarrow> WideRead turn" where
  "wide_token pids processed token s =
    (let remaining = length (wr_output s) - wr_written s; n = length (tk_text token);
         too_long = (tk_kind token = text_units \<and> n > remaining); split = (too_long \<and> n = 2 \<and> remaining = 1)
     in if tk_bytes_consumed token = 0 then Break s
        else if too_long \<and> \<not> split then Break s
        else
          let s = wide_consume (tk_bytes_consumed token) s
          in case tk_kind token of
               ignored_sequence \<Rightarrow> Continue s
             | key_event \<Rightarrow> wide_key pids processed (tk_key token) s
             | text_units \<Rightarrow> wide_text pids processed split (tk_text token) s)"

definition wide_peek :: "WideRead \<Rightarrow> byte list" where
  "wide_peek s =
    (let pending_before = pi_size (ih_pending_bytes (wr_handle s))
     in if pending_before < 64 then peek_input_bytes (64 - pending_before) (wr_host s) else [])"

text \<open>
  An empty head sends the loop round again; with one reader of the queue it cannot be empty while
  bytes are available, and the model stops there.
\<close>

definition wide_turn :: "code_pages \<Rightarrow> ulong \<Rightarrow> ulong list \<Rightarrow> bool \<Rightarrow> WideRead \<Rightarrow> WideRead turn" where
  "wide_turn sys cp pids processed s =
    (if wr_written s \<ge> length (wr_output s) then Break s
     else if input_bytes_available (wr_host s) = 0 \<and> pi_size (ih_pending_bytes (wr_handle s)) = 0 then
       (if wr_written s \<noteq> 0 then Break s else wide_wait s)
     else
       let peeked = wide_peek s; head = pending_bytes (ih_pending_bytes (wr_handle s)) @ peeked
       in if head = [] then Break s
          else case decode_one_input_token sys cp head of
                 None \<Rightarrow> if wr_written s \<noteq> 0 then Break s else wide_wait (wide_park peeked s)
               | Some token \<Rightarrow> wide_token pids processed token s)"

subsection \<open>Every turn that goes on uses up input\<close>

definition wide_left :: "WideRead \<Rightarrow> nat" where
  "wide_left s = stream_left (wr_handle s) (wr_host s)"

lemma wide_store_fields [simp]:
  "wr_handle (wide_store us s) = wr_handle s" "wr_host (wide_store us s) = wr_host s"
  "wr_written (wide_store us s) = wr_written s + length us" "wide_left (wide_store us s) = wide_left s"
  by (simp_all add: wide_store_def wide_left_def)

lemma wide_forward_fields [simp]:
  "wr_handle (wide_forward_ctrl_c pids s) = wr_handle s" "wr_output (wide_forward_ctrl_c pids s) = wr_output s"
  "wr_written (wide_forward_ctrl_c pids s) = wr_written s" "wide_left (wide_forward_ctrl_c pids s) = wide_left s"
  by (simp_all add: wide_forward_ctrl_c_def wide_left_def stream_left_def forward_ctrl_c_def)

lemma wide_consume_fields [simp]:
  "wr_output (wide_consume n s) = wr_output s" "wr_written (wide_consume n s) = wr_written s"
  by (simp_all add: wide_consume_def split_beta)

lemma wide_consume_less: "0 < n \<Longrightarrow> 0 < wide_left s \<Longrightarrow> wide_left (wide_consume n s) < wide_left s"
  using consume_stream_less [of n 16 "wr_handle s" "wr_host s"] by (simp add: wide_left_def wide_consume_def split_beta)

lemma wide_key_left: "wide_key pids processed k s = Continue s' \<Longrightarrow> wide_left s' = wide_left s"
  by (auto simp: wide_key_def Let_def split: if_splits)

lemma wide_text_left: "wide_text pids processed split us s = Continue s' \<Longrightarrow> wide_left s' = wide_left s"
  by (auto simp: wide_text_def Let_def split: if_splits)

lemma wide_turn_less:
  assumes "wide_turn sys cp pids processed s = Continue s'"
  shows "wide_left s' < wide_left s"
proof -
  have pos: "0 < wide_left s"
    using assms by (auto simp: wide_turn_def wide_wait_def wide_left_def stream_left_def input_bytes_available_def split: if_splits)
  have "wide_token pids processed t s = Continue s' \<Longrightarrow> ?thesis" for t
    using wide_consume_less [OF _ pos, of "tk_bytes_consumed t"]
    by (auto simp: wide_token_def Let_def dest!: wide_key_left wide_text_left split: if_splits TokenKind.splits)
  then show ?thesis
    using assms by (auto simp: wide_turn_def wide_wait_def Let_def split: if_splits option.splits)
qed

function wide_loop :: "code_pages \<Rightarrow> ulong \<Rightarrow> ulong list \<Rightarrow> bool \<Rightarrow> WideRead \<Rightarrow> reply option \<times> WideRead" where
  "wide_loop sys cp pids processed s =
    (case wide_turn sys cp pids processed s of
       Continue s' \<Rightarrow> wide_loop sys cp pids processed s'
     | Break s' \<Rightarrow> (None, s')
     | Return r s' \<Rightarrow> (Some r, s'))"
  by pat_completeness auto

termination
  by (relation "measure (\<lambda>(sys, cp, pids, processed, s). wide_left s)") (auto dest: wide_turn_less)

declare wide_loop.simps [simp del]

text \<open>The unit kept from the last read comes first.\<close>

definition wide_start :: "wstring \<Rightarrow> InputHandle \<Rightarrow> HostIo \<Rightarrow> WideRead" where
  "wide_start out ih h =
    (let s = \<lparr>wr_handle = ih, wr_host = h, wr_output = out, wr_written = 0\<rparr>
     in case ih_decoded_pending ih of
          None \<Rightarrow> s
        | Some u \<Rightarrow> wide_store [u] (s\<lparr>wr_handle := ih\<lparr>ih_decoded_pending := None\<rparr>\<rparr>))"

definition wide_read :: "code_pages \<Rightarrow> ulong \<Rightarrow> ulong list \<Rightarrow> bool \<Rightarrow> wstring \<Rightarrow> InputHandle \<Rightarrow> HostIo \<Rightarrow> reply \<times> WideRead" where
  "wide_read sys cp pids processed out ih h =
    (if out = [] then (Reply status_success 0, \<lparr>wr_handle = ih, wr_host = h, wr_output = out, wr_written = 0\<rparr>)
     else case wide_loop sys cp pids processed (wide_start out ih h) of
            (Some r, s) \<Rightarrow> (r, s)
          | (None, s) \<Rightarrow> (Reply status_success (2 * wr_written s), s))"

section \<open>Bytes\<close>

text \<open>The ANSI variant differs from a raw read in that control-Z is a byte like any other.\<close>

definition narrow_key :: "(wchar \<Rightarrow> byte list) \<Rightarrow> ulong list \<Rightarrow> bool \<Rightarrow> nat \<Rightarrow> KEY_EVENT_RECORD \<Rightarrow> RawRead \<Rightarrow> RawRead turn" where
  "narrow_key narrow pids processed n key s =
    (if processed \<and> bKeyDown key \<and> key_event_matches_ctrl_break key then
       let s = raw_consume n s
       in Return (Reply status_alerted 0)
            (s\<lparr>rr_handle := reset_input_handle (rr_handle s), rr_host := forward_ctrl_break pids (flush_input_buffer (rr_host s))\<rparr>)
     else if processed \<and> bKeyDown key \<and> key_event_matches_ctrl_c key then Continue (raw_forward_ctrl_c pids (raw_consume n s))
     else if \<not> bKeyDown key then Continue (raw_consume n s)
     else if UnicodeChar key = 0 then Continue (raw_consume n s)
     else raw_store_char narrow n (UnicodeChar key) s)"

definition narrow_token :: "(wchar \<Rightarrow> byte list) \<Rightarrow> ulong list \<Rightarrow> bool \<Rightarrow> DecodedToken \<Rightarrow> RawRead \<Rightarrow> RawRead turn" where
  "narrow_token narrow pids processed token s =
    (if tk_bytes_consumed token = 0 then Break s
     else if tk_kind token = ignored_sequence then Continue (raw_consume (tk_bytes_consumed token) s)
     else if tk_kind token = key_event then narrow_key narrow pids processed (tk_bytes_consumed token) (tk_key token) s
     else Continue (raw_consume (tk_bytes_consumed token) s))"

definition narrow_byte :: "ulong list \<Rightarrow> bool \<Rightarrow> byte \<Rightarrow> RawRead \<Rightarrow> RawRead turn" where
  "narrow_byte pids processed value s =
    (if processed \<and> value = 0x03 then Continue (raw_forward_ctrl_c pids (raw_consume 1 s))
     else Continue (raw_consume 1 (s\<lparr>rr_output := (rr_output s)[rr_written s := value], rr_written := rr_written s + 1\<rparr>)))"

definition narrow_turn :: "(wchar \<Rightarrow> byte list) \<Rightarrow> ulong list \<Rightarrow> bool \<Rightarrow> RawRead \<Rightarrow> RawRead turn" where
  "narrow_turn narrow pids processed s =
    (if rr_written s \<ge> length (rr_output s) then Break s
     else if input_bytes_available (rr_host s) = 0 \<and> pi_size (ih_pending_bytes (rr_handle s)) = 0 then Break s
     else
       let peeked = raw_peek s; head = pending_bytes (ih_pending_bytes (rr_handle s)) @ peeked
       in if head = [] then Break s
          else case head_token head of
                 (need_more_data, _) \<Rightarrow> raw_need_more peeked s
               | (produced, token) \<Rightarrow> narrow_token narrow pids processed token s
               | (no_match, _) \<Rightarrow> narrow_byte pids processed (hd head) s)"

lemma narrow_turn_less:
  assumes "narrow_turn narrow pids processed s = Continue s'"
  shows "raw_left s' < raw_left s"
proof -
  have "0 < raw_left s"
    using assms by (auto simp: narrow_turn_def raw_left_def stream_left_def input_bytes_available_def split: if_splits)
  note less = raw_consume_less [OF _ this]
  have less': "raw_left (raw_consume n (s\<lparr>rr_output := out, rr_written := w\<rparr>)) < raw_left s" if "0 < n" for n out w
    using raw_consume_less [of n "s\<lparr>rr_output := out, rr_written := w\<rparr>"] that \<open>0 < raw_left s\<close> by simp
  have key: "0 < n \<Longrightarrow> narrow_key narrow pids processed n k s = Continue s' \<Longrightarrow> ?thesis" for n k
    by (auto simp: narrow_key_def raw_store_char_def Let_def less less' split: if_splits)
  have token: "narrow_token narrow pids processed t s = Continue s' \<Longrightarrow> ?thesis" for t
    by (auto simp: narrow_token_def less intro: key split: if_splits)
  have byte: "narrow_byte pids processed v s = Continue s' \<Longrightarrow> ?thesis" for v
    by (auto simp: narrow_byte_def less less' Let_def split: if_splits)
  show ?thesis
    using assms token byte
    by (auto simp: narrow_turn_def raw_need_more_def Let_def split: if_splits prod.splits DecodeResult.splits)
qed

function narrow_loop :: "(wchar \<Rightarrow> byte list) \<Rightarrow> ulong list \<Rightarrow> bool \<Rightarrow> RawRead \<Rightarrow> reply option \<times> RawRead" where
  "narrow_loop narrow pids processed s =
    (case narrow_turn narrow pids processed s of
       Continue s' \<Rightarrow> narrow_loop narrow pids processed s'
     | Break s' \<Rightarrow> (None, s')
     | Return r s' \<Rightarrow> (Some r, s'))"
  by pat_completeness auto

termination
  by (relation "measure (\<lambda>(narrow, pids, processed, s). raw_left s)") (auto dest: narrow_turn_less)

declare narrow_loop.simps [simp del]

definition narrow_read :: "(wchar \<Rightarrow> byte list) \<Rightarrow> ulong list \<Rightarrow> bool \<Rightarrow> byte list \<Rightarrow> InputHandle \<Rightarrow> HostIo \<Rightarrow> reply \<times> RawRead" where
  "narrow_read narrow pids processed out ih h =
    (case narrow_loop narrow pids processed \<lparr>rr_handle = ih, rr_host = h, rr_output = out, rr_written = 0\<rparr> of
       (Some r, s) \<Rightarrow> (r, s)
     | (None, s) \<Rightarrow>
         if rr_written s = 0 \<and> input_bytes_available (rr_host s) = 0 \<and> pi_size (ih_pending_bytes (rr_handle s)) = 0 then
           (if input_disconnected (rr_host s) then (Reply status_unsuccessful 0, s) else (ReplyPending, s))
         else (Reply status_success (rr_written s), s))"

section \<open>The handles stay well-formed\<close>

abbreviation wide_good :: "WideRead \<Rightarrow> bool" where
  "wide_good s \<equiv> input_inv (wr_handle s) (wr_host s)"

lemma wide_consume_good: "wide_good s \<Longrightarrow> wide_good (wide_consume n s)"
  using consume_inv [of "wr_handle s" "wr_host s" 16 n] by (simp add: wide_consume_def split_beta)

lemma wide_park_good:
  assumes "wide_good s"
  shows "wide_good (wide_park peeked s)"
proof -
  have q: "queue_inv (ho_queue (wr_host s))" and p: "pending_inv (ih_pending_bytes (wr_handle s))" using assms by (simp_all add: input_inv_def)
  obtain ok p' where a: "pending_append peeked (ih_pending_bytes (wr_handle s)) = (ok, p')" by (rule prod.exhaust)
  have "pending_inv p'" using pending_inv_ops(1) [OF p, of peeked] a by simp
  then show ?thesis
    using assms q discard_input_queue [OF q, of 8 "length peeked"] by (cases ok) (simp_all add: wide_park_def a input_inv_def)
qed

lemma wide_turn_good:
  assumes "wide_good s"
  shows "wide_good (turn_result (wide_turn sys cp pids processed s))"
proof -
  have forward: "wide_good t \<Longrightarrow> wide_good (wide_forward_ctrl_c pids t)" for t by (simp add: wide_forward_ctrl_c_def)
  have key: "wide_good t \<Longrightarrow> wide_good (turn_result (wide_key pids processed k t))" for k t
    using forward [of t] by (simp add: wide_key_def Let_def reset_inv flush_inv)
  have unit: "wide_good t \<Longrightarrow> wide_good (turn_result (wide_text pids processed split us t))" for split us t
    using forward [of t] by (simp add: wide_text_def Let_def)
  have wait: "turn_result (wide_wait t) = t" for t by (simp add: wide_wait_def)
  have token: "wide_good (turn_result (wide_token pids processed t s))" for t
    using assms wide_consume_good [OF assms, of "tk_bytes_consumed t"] key unit
    by (simp add: wide_token_def Let_def split: TokenKind.split)
  show ?thesis
    using token assms wide_park_good [OF assms] by (simp add: wide_turn_def Let_def wait split: option.split)
qed

interpretation wide: turn_loop "wide_turn sys cp pids processed" "wide_loop sys cp pids processed" wide_left wide_good
  for sys cp pids processed
  by unfold_locales (simp_all add: wide_loop.simps [of sys] wide_turn_less wide_turn_good split: turn.split)

lemma wide_start_good: "input_inv ih h \<Longrightarrow> wide_good (wide_start out ih h)"
  by (simp add: wide_start_def Let_def split: option.split)

lemma wide_read_inv:
  assumes "input_inv ih h" and "wide_read sys cp pids processed out ih h = (r, s)"
  shows "input_inv (wr_handle s) (wr_host s)"
  using wide.loop_good [OF wide_start_good [OF assms(1)], of sys cp pids processed out] assms
  by (auto simp: wide_read_def split: prod.splits option.splits if_splits)

lemma narrow_turn_good:
  assumes "raw_good s"
  shows "raw_good (turn_result (narrow_turn narrow pids processed s))"
proof -
  note good = raw_consume_good [OF assms] raw_consume_output_good [OF assms]
  have key: "raw_good (turn_result (narrow_key narrow pids processed n k s))" for n k
    using good by (simp add: narrow_key_def raw_store_char_def raw_forward_ctrl_c_def reset_inv flush_inv Let_def assms)
  have token: "raw_good (turn_result (narrow_token narrow pids processed t s))" for t
    using good key by (simp add: narrow_token_def assms)
  have byte: "raw_good (turn_result (narrow_byte pids processed v s))" for v
    using good by (simp add: narrow_byte_def raw_forward_ctrl_c_def Let_def)
  have more: "raw_good (turn_result (raw_need_more peeked s))" for peeked
    using park_inv [OF assms, of peeked] assms by (simp add: raw_need_more_def split_beta Let_def)
  show ?thesis
    using token byte more assms by (simp add: narrow_turn_def Let_def split: prod.split DecodeResult.split)
qed

interpretation narrow: turn_loop "narrow_turn narrow pids processed" "narrow_loop narrow pids processed" raw_left raw_good for narrow pids processed
  by unfold_locales (simp_all add: narrow_loop.simps [of narrow] narrow_turn_less narrow_turn_good split: turn.split)

lemma narrow_read_inv:
  assumes "input_inv ih h" and "narrow_read narrow pids processed out ih h = (r, s)"
  shows "input_inv (rr_handle s) (rr_host s)"
proof -
  let ?s = "\<lparr>rr_handle = ih, rr_host = h, rr_output = out, rr_written = 0\<rparr>"
  have "raw_good (snd (narrow_loop narrow pids processed ?s))" by (rule narrow.loop_good) (simp add: assms(1))
  then show ?thesis using assms(2) by (auto simp: narrow_read_def split: prod.splits option.splits if_splits)
qed

section \<open>No unit is lost or repeated\<close>

text \<open>What a token is to a reader of units, and the units a handle still owes its reader.\<close>

definition key_units :: "bool \<Rightarrow> KEY_EVENT_RECORD \<Rightarrow> wstring" where
  "key_units processed key =
    (if \<not> bKeyDown key \<or> UnicodeChar key = 0 \<or> processed \<and> (key_event_matches_ctrl_c key \<or> key_event_matches_ctrl_break key) then []
     else replicate (max 1 (unat (wRepeatCount key))) (UnicodeChar key))"

definition token_units :: "bool \<Rightarrow> DecodedToken \<Rightarrow> wstring" where
  "token_units processed t =
    (case tk_kind t of
       ignored_sequence \<Rightarrow> []
     | key_event \<Rightarrow> key_units processed (tk_key t)
     | text_units \<Rightarrow> if processed \<and> tk_text t = [3] then [] else tk_text t)"

definition stream_units :: "code_pages \<Rightarrow> ulong \<Rightarrow> bool \<Rightarrow> byte list \<Rightarrow> wstring" where
  "stream_units sys cp processed bs = concat (map (token_units processed) (tokens sys cp bs))"

definition kept_units :: "InputHandle \<Rightarrow> wstring" where
  "kept_units ih = (case ih_decoded_pending ih of None \<Rightarrow> [] | Some u \<Rightarrow> [u])"

definition owed_units :: "code_pages \<Rightarrow> ulong \<Rightarrow> bool \<Rightarrow> InputHandle \<Rightarrow> HostIo \<Rightarrow> wstring" where
  "owed_units sys cp processed ih h = kept_units ih @ stream_units sys cp processed (input_stream ih h)"

text \<open>Streams without a pressed control-break and without a key that repeats.\<close>

definition single_keys :: "code_pages \<Rightarrow> ulong \<Rightarrow> bool \<Rightarrow> byte list \<Rightarrow> bool" where
  "single_keys sys cp processed bs \<longleftrightarrow>
    list_all (\<lambda>t. \<not> breaks processed t \<and> (tk_kind t = key_event \<longrightarrow> unat (wRepeatCount (tk_key t)) \<le> 1)) (tokens sys cp bs)"

lemma stream_units_step:
  assumes "decode_one_input_token sys cp bs = Some t"
  shows "stream_units sys cp processed bs = token_units processed t @ stream_units sys cp processed (drop (tk_bytes_consumed t) bs)"
    and "single_keys sys cp processed bs \<longleftrightarrow> \<not> breaks processed t \<and> (tk_kind t = key_event \<longrightarrow> unat (wRepeatCount (tk_key t)) \<le> 1)
      \<and> single_keys sys cp processed (drop (tk_bytes_consumed t) bs)"
  by (simp_all add: stream_units_def single_keys_def tok.drain_unfold(2) [OF assms])

abbreviation wide_stream :: "WideRead \<Rightarrow> byte list" where
  "wide_stream s \<equiv> input_stream (wr_handle s) (wr_host s)"



lemma wide_head:
  assumes "wide_good s"
  shows "pending_bytes (ih_pending_bytes (wr_handle s)) @ wide_peek s = take 64 (wide_stream s)"
    and "\<exists>n. wide_peek s = take n (queue_bytes (ho_queue (wr_host s)))"
proof -
  let ?p = "ih_pending_bytes (wr_handle s)" and ?q = "ho_queue (wr_host s)"
  have i: "pending_inv ?p" "queue_inv ?q" using assms by (auto simp: input_inv_def)
  then have peek: "wide_peek s = take (64 - length (pending_bytes ?p)) (queue_bytes ?q)"
    using pending_size [of ?p] queue_peek_bytes [of ?q] by (auto simp: wide_peek_def peek_input_bytes_def Let_def)
  then show "pending_bytes ?p @ wide_peek s = take 64 (wide_stream s)" "\<exists>n. wide_peek s = take n (queue_bytes ?q)"
    using i pending_size(2) [of ?p] by (auto simp: input_stream_def)
qed

lemma wide_consume_stream:
  assumes "wide_good s"
  shows "wide_stream (wide_consume n s) = drop n (wide_stream s)"
    and "ih_decoded_pending (wr_handle (wide_consume n s)) = ih_decoded_pending (wr_handle s)"
  using consume_stream(1,4) [OF assms, of 16 n] by (simp_all add: wide_consume_def split_beta)













context turn_loop
begin

lemma loop_return:
  assumes "good s" and "loop s = (Some r, s')" and "\<And>t. good t \<Longrightarrow> turn t = Return r s' \<Longrightarrow> P"
  shows P
  using assms(1,2)
proof (induction "left s" arbitrary: s rule: less_induct)
  case less
  show ?case
  proof (cases "turn s")
    case (Continue t)
    then show ?thesis using less turn_less [OF Continue] turn_good [OF less.prems(1)] by (simp add: loop_unfold [of s])
  qed (use less.prems assms(3) in \<open>auto simp: loop_unfold [of s]\<close>)
qed

end







section \<open>Keys that do not fit\<close>

text \<open>A stream that is one key of a terminal in win32 input mode.\<close>

lemma key_sequence:
  assumes "input_inv ih h" and "input_stream ih h = win32_sequence key"
  shows "win32_sequence key \<noteq> []" and "\<not> (input_bytes_available h = 0 \<and> pi_size (ih_pending_bytes ih) = 0)"
proof -
  show ne: "win32_sequence key \<noteq> []" by (simp add: win32_sequence_def)
  then show "\<not> (input_bytes_available h = 0 \<and> pi_size (ih_pending_bytes ih) = 0)"
    using rel_head(3) [of "[]" h 0 "\<lparr>rr_handle = ih, rr_host = h, rr_output = [], rr_written = 0\<rparr>" "[]" 0] assms
    by (simp add: raw_rel_def ctrl_c_packets_def)
qed

text \<open>
  A key held down loses characters: when a key event stands for more repetitions than the buffer of a
  Unicode \<open>ReadConsole\<close> has room for, the read fills the buffer and forgets the rest; the
  handle owes nothing afterwards, although it owed all the repetitions before.
\<close>

theorem repeated_key_truncated:
  assumes "input_inv ih h" and "input_stream ih h = win32_sequence key" and "length (win32_sequence key) \<le> 64"
    and "ih_decoded_pending ih = None" and "bKeyDown key" and "UnicodeChar key \<noteq> 0" and "out \<noteq> []"
    and "length out < unat (wRepeatCount key)"
    and "wide_read sys cp pids False out ih h = (r, s)"
  shows "r = Reply status_success (2 * length out) \<and> wr_output s = replicate (length out) (UnicodeChar key)
    \<and> owed_units sys cp False ih h = replicate (unat (wRepeatCount key)) (UnicodeChar key)
    \<and> owed_units sys cp False (wr_handle s) (wr_host s) = []"
proof -
  let ?bs = "win32_sequence key" and ?s = "\<lparr>wr_handle = ih, wr_host = h, wr_output = out, wr_written = 0\<rparr>"
  have tok: "decode_one_input_token sys cp ?bs = Some (key_token (length ?bs) key)"
    using win32_key_decoded [of key] by (simp add: decode_one_input_token_def)
  have empty: "stream_units sys cp False [] = []"
    using tok.drain_unfold(1) [of sys cp "[]"]
    by (simp add: stream_units_def decode_one_input_token_def try_decode_vt_def decode_one_console_input_unit_def)
  let ?c = "wide_consume (length ?bs) ?s"
  have gone: "wide_stream ?c = []" "ih_decoded_pending (wr_handle ?c) = None"
    using wide_consume_stream [of ?s "length ?bs"] assms(1,2,4) by simp_all
  have head: "pending_bytes (ih_pending_bytes ih) @ wide_peek ?s = ?bs" using wide_head(1) [of ?s] assms(1-3) by simp
  have more: "1 < unat (wRepeatCount key)" "min (max 1 (unat (wRepeatCount key))) (length out) = length out"
    using assms(7,8) by (cases out; simp add: min_def max_def)+
  have turn: "wide_turn sys cp pids False ?s = Continue (wide_store (replicate (length out) (UnicodeChar key)) ?c)"
    using assms(5-7) key_sequence [OF assms(1,2)] head tok more
    by (auto simp: wide_turn_def Let_def wide_token_def key_token_def wide_key_def)
  let ?d = "wide_store (replicate (length out) (UnicodeChar key)) ?c"
  have "wide_turn sys cp pids False ?d = Break ?d" by (simp add: wide_turn_def) (simp add: wide_store_def)
  then have run: "wide_read sys cp pids False out ih h = (Reply status_success (2 * length out), ?d)"
    using assms(4,7) turn by (simp add: wide_read_def wide_start_def wide_loop.simps)
  have "owed_units sys cp False (wr_handle ?d) (wr_host ?d) = []" using gone empty by (simp add: owed_units_def kept_units_def)
  moreover have "owed_units sys cp False ih h = replicate (unat (wRepeatCount key)) (UnicodeChar key)"
    using stream_units_step(1) [OF tok, of False] assms(2,4-6) empty more(1)
    by (simp add: owed_units_def kept_units_def token_units_def key_token_def key_units_def max_def)
  ultimately show ?thesis using run assms(9) by (auto simp: wide_store_def)
qed

text \<open>
  A buffer that is too small reads as the end of the input: when the character of a key has more bytes
  in the input code page than the buffer of an ANSI \<open>ReadConsole\<close>, the read answers success with no
  bytes and changes nothing, so that every further read with this buffer does the same.
\<close>

theorem narrow_read_stuck:
  assumes "input_inv ih h" and "input_stream ih h = win32_sequence key" and "length (win32_sequence key) < 64"
    and "bKeyDown key" and "UnicodeChar key \<noteq> 0" and "out \<noteq> []"
    and "length out < length (narrow (UnicodeChar key))"
  shows "narrow_read narrow pids False out ih h =
    (Reply status_success 0, \<lparr>rr_handle = ih, rr_host = h, rr_output = out, rr_written = 0\<rparr>)"
proof -
  let ?bs = "win32_sequence key" and ?s = "\<lparr>rr_handle = ih, rr_host = h, rr_output = out, rr_written = 0\<rparr>"
  have "raw_rel pids h (length out) ?s [] 0 ?bs" using assms(1,2) by (simp add: raw_rel_def ctrl_c_packets_def)
  then have "pending_bytes (ih_pending_bytes ih) @ raw_peek ?s = ?bs"
    using rel_head(1) [of pids h "length out" ?s "[]" 0 ?bs] assms(3) by simp
  then have "narrow_turn narrow pids False ?s = Break ?s"
    using assms(4-7) key_sequence [OF assms(1,2)] win32_key_decoded [of key]
    by (auto simp: narrow_turn_def Let_def head_token_def narrow_token_def key_token_def narrow_key_def raw_store_char_def)
  then show ?thesis using key_sequence [OF assms(1,2)] by (auto simp: narrow_read_def narrow_loop.simps)
qed

definition held_key :: KEY_EVENT_RECORD where
  "held_key = \<lparr>bKeyDown = True, wRepeatCount = 5, wVirtualKeyCode = 0x41, wVirtualScanCode = 30, UnicodeChar = 0xE9, dwControlKeyState = 0\<rparr>"

lemma held_key_short: "length (win32_sequence held_key) < 64"
  by (simp add: win32_sequence_def held_key_def dec_digits.simps)

theorem repeated_key_truncated_witness:
  "fst (wide_read latin_pages 1252 [] False [0, 0] new_input_handle (queued (win32_sequence held_key))) = Reply status_success 4
   \<and> wr_output (snd (wide_read latin_pages 1252 [] False [0, 0] new_input_handle (queued (win32_sequence held_key)))) = [0xE9, 0xE9]"
proof -
  obtain r s where run: "wide_read latin_pages 1252 [] False [0, 0] new_input_handle (queued (win32_sequence held_key)) = (r, s)" by fastforce
  have none: "ih_decoded_pending new_input_handle = None" by (simp add: new_input_handle_def)
  have key: "bKeyDown held_key" "UnicodeChar held_key = 0xE9" "wRepeatCount held_key = 5" by (simp_all add: held_key_def)
  have "r = Reply status_success (2 * length [0 :: wchar, 0]) \<and> wr_output s = replicate (length [0 :: wchar, 0]) (UnicodeChar held_key)"
    using repeated_key_truncated [OF queued_input(1) queued_input(2) _ none _ _ _ _ run] held_key_short by (simp add: key)
  then show ?thesis by (simp add: run key)
qed

theorem narrow_read_stuck_witness:
  "fst (narrow_read (\<lambda>u. [0xC3, 0xA9]) [] False [0] new_input_handle (queued (win32_sequence held_key))) = Reply status_success 0"
  using narrow_read_stuck [OF queued_input(1) queued_input(2) held_key_short, of "[0]" "\<lambda>u. [0xC3, 0xA9]" "[]"]
  by (simp add: held_key_def)

end
