(* ===== verification/Server_Requests.thy ===== *)
theory Server_Requests
  imports Screen_Requests Char_Read
begin

text \<open>
  The dispatcher (\<open>dispatch_message\<close> in \<open>condrv_server.hpp\<close>): every request of a client as an operation on the
  whole server, with its checks of the handle, and the function that sends a request to its
  handler. The requests on aliases and histories are in \<open>Alias_Requests\<close>.

  Requests carry the fields of their messages, their buffers and the outcomes of the allocations
  they make. Transfers of buffers between client and server and writes to the terminal are
  assumed to succeed: a failing one ends the server with its error. The effects of echoed text on
  the screen, the title and the terminal follow the read that echoes; what the echo answers is in the
  input queue while the read goes on.
\<close>

section \<open>The server and its environment\<close>

text \<open>
  Windows functions the server calls: conversions between code pages and UTF-16, which give an
  empty result when they fail, the OEM code page, the comparison of application names and the
  mapping to lower case, which gives an empty result when it fails.
\<close>

record system =
  sys_pages :: code_pages
  sys_oem :: ulong
  sys_decode :: "ulong \<Rightarrow> byte list \<Rightarrow> wstring"
  sys_encode :: "ulong \<Rightarrow> wstring \<Rightarrow> byte list"
  sys_same_name :: "wstring \<Rightarrow> wstring \<Rightarrow> bool"
  sys_lower :: "wstring \<Rightarrow> wstring"
  sys_last_error :: ulong

text \<open>\<open>sv_output\<close> is what has been written to the terminal.\<close>

record Server =
  sv_state :: ServerState
  sv_host :: HostIo
  sv_output :: "byte list"

text \<open>The fields of a message that a handler sets.\<close>

datatype body =
    NoBody
  | NumberBody ulong
  | FlagsBody bool bool
  | CursorBody ulong bool
  | CoordBody COORD
  | InfoBody CONSOLE_SCREENBUFFERINFO_MSG
  | FontBody CONSOLE_CURRENTFONT_MSG
  | ConnectionBody ConnectionInformation
  | HistoryBody ulong ulong ulong
  | RecordsBody "INPUT_RECORD list"
  | LayoutBody wstring
  | AnsiLayoutBody "byte list"

text \<open>
  A status with a number of bytes, a message that is kept for later, the end of the server, or a handler
  that never returns.
\<close>

datatype answer = Answer ulong nat | Held | Fatal DeviceCommError | NoReturn

record response =
  re_answer :: answer
  re_body :: body
  re_output :: "byte list"
  re_exit :: bool

definition respond :: "ulong \<Rightarrow> nat \<Rightarrow> response" where
  "respond status n = \<lparr>re_answer = Answer status n, re_body = NoBody, re_output = [], re_exit = False\<rparr>"

definition respond_with :: "ulong \<Rightarrow> body \<Rightarrow> response" where
  "respond_with status b = (respond status 0)\<lparr>re_body := b\<rparr>"

definition fatal :: "DeviceCommError \<Rightarrow> response" where
  "fatal e = (respond 0 0)\<lparr>re_answer := Fatal e\<rparr>"

definition of_reply :: "reply \<Rightarrow> byte list \<Rightarrow> response" where
  "of_reply r out =
    (respond 0 0)\<lparr>re_answer := (case r of Reply status n \<Rightarrow> Answer status n | ReplyPending \<Rightarrow> Held), re_output := out\<rparr>"

definition on_state :: "(ServerState \<Rightarrow> ServerState) \<Rightarrow> Server \<Rightarrow> Server" where
  "on_state f sv = sv\<lparr>sv_state := f (sv_state sv)\<rparr>"

section \<open>Handles\<close>

text \<open>A handler for an output handle gets the index of its screen buffer.\<close>

definition with_screen :: "handle \<Rightarrow> (nat \<Rightarrow> Server \<Rightarrow> response \<times> Server) \<Rightarrow> Server \<Rightarrow> response \<times> Server" where
  "with_screen h f sv =
    (case find_object h (sv_state sv) of
       None \<Rightarrow> (respond status_invalid_handle 0, sv)
     | Some ob \<Rightarrow>
         if ob_kind ob \<noteq> K_output then (respond status_invalid_handle 0, sv)
         else case ob_screen_buffer ob of None \<Rightarrow> (respond status_invalid_handle 0, sv) | Some i \<Rightarrow> f i sv)"

definition with_output :: "handle \<Rightarrow> (ObjectHandle \<Rightarrow> Server \<Rightarrow> response \<times> Server) \<Rightarrow> Server \<Rightarrow> response \<times> Server" where
  "with_output h f sv =
    (case find_object h (sv_state sv) of
       None \<Rightarrow> (respond status_invalid_handle 0, sv)
     | Some ob \<Rightarrow> if ob_kind ob \<noteq> K_output then (respond status_invalid_handle 0, sv) else f ob sv)"

definition with_input :: "handle \<Rightarrow> (ObjectHandle \<Rightarrow> Server \<Rightarrow> response \<times> Server) \<Rightarrow> Server \<Rightarrow> response \<times> Server" where
  "with_input h f sv =
    (case find_object h (sv_state sv) of
       None \<Rightarrow> (respond status_invalid_handle 0, sv)
     | Some ob \<Rightarrow> if ob_kind ob \<noteq> K_input then (respond status_invalid_handle 0, sv) else f ob sv)"

section \<open>Requests on a screen buffer\<close>

datatype screen_request =
    GetCursorInfo
  | SetCursorInfo ulong bool
  | GetScreenBufferInfo
  | SetScreenBufferInfo bool CONSOLE_SCREENBUFFERINFO_MSG
  | SetScreenBufferSize bool COORD
  | SetCursorPosition COORD
  | GetLargestWindowSize
  | ScrollScreenBuffer bool CONSOLE_SCROLLSCREENBUFFER_MSG
  | SetTextAttribute ushort
  | SetWindowInfo bool SMALL_RECT
  | FillConsoleOutput ulong COORD ushort ulong
  | ReadConsoleOutputString ulong COORD "byte list"
  | WriteConsoleOutputString bool ulong COORD "byte list"
  | WriteConsoleOutput SMALL_RECT bool "byte list"
  | ReadConsoleOutput SMALL_RECT bool "byte list"
  | SetDisplayMode
  | CharType COORD

definition plain_answer :: "ulong \<times> ScreenBuffer \<Rightarrow> response \<times> ScreenBuffer" where
  "plain_answer a = (respond (fst a) 0, snd a)"

definition counted_answer :: "(ulong \<times> ulong) \<times> ScreenBuffer \<Rightarrow> response \<times> ScreenBuffer" where
  "counted_answer a = (respond_with (fst (fst a)) (NumberBody (snd (fst a))), snd a)"

fun screen_handler :: "screen_request \<Rightarrow> ScreenBuffer \<Rightarrow> response \<times> ScreenBuffer" where
  "screen_handler GetCursorInfo sb = (let (sz, visible) = get_cursor_info sb in (respond_with status_success (CursorBody sz visible), sb))"
| "screen_handler (SetCursorInfo sz visible) sb = plain_answer (set_cursor_info_request sz visible sb)"
| "screen_handler GetScreenBufferInfo sb = (respond_with status_success (InfoBody (get_screen_buffer_info sb)), sb)"
| "screen_handler (SetScreenBufferInfo mem_ok info) sb = plain_answer (set_screen_buffer_info mem_ok info sb)"
| "screen_handler (SetScreenBufferSize mem_ok sz) sb = plain_answer (set_screen_buffer_size_request mem_ok sz sb)"
| "screen_handler (SetCursorPosition position) sb = plain_answer (set_cursor_position_request position sb)"
| "screen_handler GetLargestWindowSize sb = (respond_with status_success (CoordBody (sb_maximum_window_size sb)), sb)"
| "screen_handler (ScrollScreenBuffer mem_ok msg) sb = plain_answer (scroll_request mem_ok msg sb)"
| "screen_handler (SetTextAttribute attributes) sb = (respond status_success 0, set_text_attributes attributes sb)"
| "screen_handler (SetWindowInfo absolute window) sb = plain_answer (set_window_info absolute window sb)"
| "screen_handler (FillConsoleOutput element_type origin element requested) sb =
    counted_answer (fill_console_output element_type origin element requested sb)"
| "screen_handler (ReadConsoleOutputString string_type origin out) sb =
    (let (status, n, count, bytes) = read_console_output_string string_type origin out sb
     in ((respond status n)\<lparr>re_body := NumberBody count, re_output := bytes\<rparr>, sb))"
| "screen_handler (WriteConsoleOutputString mem_ok string_type origin input) sb =
    counted_answer (write_console_output_string mem_ok string_type origin input sb)"
| "screen_handler (WriteConsoleOutput region unicode input) sb = plain_answer (write_console_output region unicode input sb)"
| "screen_handler (ReadConsoleOutput region unicode out) sb =
    (let (status, n, bytes) = read_console_output region unicode out sb in ((respond status n)\<lparr>re_output := bytes\<rparr>, sb))"
| "screen_handler SetDisplayMode sb = (respond_with status_success (CoordBody (sb_buffer_size sb)), sb)"
| "screen_handler (CharType position) sb =
    (if outside (sb_buffer_size sb) position then (respond status_invalid_parameter 0, sb)
     else (respond_with status_success (NumberBody 0), sb))"

definition screen_request :: "handle \<Rightarrow> screen_request \<Rightarrow> Server \<Rightarrow> response \<times> Server" where
  "screen_request h r =
    with_screen h (\<lambda>i sv.
      let (re, sb) = screen_handler r (ss_screens (sv_state sv) ! i) in (re, on_state (update_screen i sb) sv))"

section \<open>Modes, code pages and the active buffer\<close>

definition get_mode :: "handle \<Rightarrow> Server \<Rightarrow> response \<times> Server" where
  "get_mode h sv =
    (case find_object h (sv_state sv) of
       None \<Rightarrow> (respond status_invalid_handle 0, sv)
     | Some ob \<Rightarrow>
         (respond_with status_success
            (NumberBody (if ob_kind ob = K_input then ss_input_mode (sv_state sv) else ss_output_mode (sv_state sv))), sv))"

abbreviation ENABLE_PROCESSED_INPUT :: ulong where "ENABLE_PROCESSED_INPUT \<equiv> 0x01"
abbreviation ENABLE_LINE_INPUT :: ulong where "ENABLE_LINE_INPUT \<equiv> 0x02"
abbreviation ENABLE_ECHO_INPUT :: ulong where "ENABLE_ECHO_INPUT \<equiv> 0x04"

text \<open>
  All bits of \<open>0x3FF\<close> are input modes, those of \<open>0x1F\<close> are output modes. A rejected input mode is set
  all the same, as the comment in the source announces; a rejected output mode is not.
\<close>

definition set_mode :: "handle \<Rightarrow> ulong \<Rightarrow> Server \<Rightarrow> response \<times> Server" where
  "set_mode h requested sv =
    (case find_object h (sv_state sv) of
       None \<Rightarrow> (respond status_invalid_handle 0, sv)
     | Some ob \<Rightarrow>
         if ob_kind ob = K_input then
           (respond (if requested AND NOT 0x3FF \<noteq> 0 \<or> requested AND ENABLE_ECHO_INPUT \<noteq> 0 \<and> requested AND ENABLE_LINE_INPUT = 0
                     then status_invalid_parameter else status_success) 0,
            on_state (\<lambda>s. s\<lparr>ss_input_mode := requested\<rparr>) sv)
         else if requested AND NOT 0x1F \<noteq> 0 then (respond status_invalid_parameter 0, sv)
         else (respond status_success 0, on_state (\<lambda>s. s\<lparr>ss_output_mode := requested\<rparr>) sv))"

definition get_cp :: "bool \<Rightarrow> Server \<Rightarrow> response \<times> Server" where
  "get_cp output_page sv =
    (respond_with status_success
       (NumberBody (if output_page then ss_output_code_page (sv_state sv) else ss_input_code_page (sv_state sv))), sv)"

definition set_cp :: "bool \<Rightarrow> ulong \<Rightarrow> Server \<Rightarrow> response \<times> Server" where
  "set_cp output_page cp sv =
    (respond status_success 0,
     on_state (\<lambda>s. if output_page then s\<lparr>ss_output_code_page := cp\<rparr> else s\<lparr>ss_input_code_page := cp\<rparr>) sv)"

definition set_active_request :: "handle \<Rightarrow> Server \<Rightarrow> response \<times> Server" where
  "set_active_request h =
    with_output h (\<lambda>ob sv.
      let (ok, s) = set_active_screen_buffer (ob_screen_buffer ob) (sv_state sv)
      in (respond (if ok then status_success else status_invalid_handle) 0, sv\<lparr>sv_state := s\<rparr>))"

definition generate_ctrl_event :: "ulong \<Rightarrow> ulong \<Rightarrow> Server \<Rightarrow> response \<times> Server" where
  "generate_ctrl_event event group_id sv =
    (if event \<noteq> 0 \<and> event \<noteq> 1 then (respond status_invalid_parameter 0, sv)
     else
       let pids = filter (\<lambda>pid. group_id = 0 \<or> pid = group_id) (process_ids (sv_state sv)); flags = (if event = 0 then 1 else 2)
       in (respond status_success 0, sv\<lparr>sv_host := fold (\<lambda>pid. send_end_task pid event flags) pids (sv_host sv)\<rparr>))"

section \<open>Titles\<close>

abbreviation output_page_of :: "system \<Rightarrow> Server \<Rightarrow> ulong" where
  "output_page_of sys sv \<equiv> (if ss_output_code_page (sv_state sv) = 0 then sys_oem sys else ss_output_code_page (sv_state sv))"

definition get_title_wide :: "wstring \<Rightarrow> byte list \<Rightarrow> response" where
  "get_title_wide stored out =
    (let capacity = length out div 2;
         copy_count = (if capacity = 0 then 0 else if length stored \<ge> capacity then capacity - 1 else length stored);
         written = (if capacity = 0 then 0 else min capacity (length stored))
     in (respond status_success (written * 2))
          \<lparr>re_body := NumberBody (of_nat (min (length stored) 0xFFFFFFFF)),
           re_output := (if capacity = 0 then out else store_front (concat (map wchar_bytes (take copy_count stored @ [0]))) out)\<rparr>)"

text \<open>An empty conversion of a title that is not empty is answered like an empty title.\<close>

definition get_title_narrow :: "bool \<Rightarrow> byte list \<Rightarrow> nat \<Rightarrow> byte list \<Rightarrow> response" where
  "get_title_narrow mem_ok narrow_title needed out =
    (let required = length narrow_title; n = NumberBody (of_nat (min needed 0xFFFFFFFF)); cleared = (if out = [] then [] else out[0 := 0])
     in if required = 0 then (respond status_success 0)\<lparr>re_body := n, re_output := cleared\<rparr>
        else if length out < required
        then (respond status_success (if out = [] then 0 else 1))\<lparr>re_body := NumberBody 0, re_output := cleared\<rparr>
        else if \<not> mem_ok then (respond status_no_memory 0)\<lparr>re_body := n, re_output := cleared\<rparr>
        else (respond status_success (if length out > required then required + 1 else required))
               \<lparr>re_body := n, re_output := store_front (narrow_title @ (if length out > required then [0] else [])) out\<rparr>)"

definition get_title_request :: "system \<Rightarrow> handle \<Rightarrow> bool \<Rightarrow> bool \<Rightarrow> bool \<Rightarrow> byte list \<Rightarrow> Server \<Rightarrow> response \<times> Server" where
  "get_title_request sys h unicode original mem_ok out =
    with_output h (\<lambda>ob sv.
      let stored = title original (sv_state sv)
      in (if unicode then get_title_wide stored out
          else get_title_narrow mem_ok (if stored = [] then [] else sys_encode sys (output_page_of sys sv) stored) (length stored) out, sv))"

definition set_title_request :: "system \<Rightarrow> handle \<Rightarrow> bool \<Rightarrow> bool \<Rightarrow> bool \<Rightarrow> byte list \<Rightarrow> Server \<Rightarrow> response \<times> Server" where
  "set_title_request sys h unicode mem_ok copy_ok input =
    with_output h (\<lambda>ob sv.
      let store = (\<lambda>t. let (ok, s) = set_title copy_ok t (sv_state sv)
                       in if ok then (respond status_success 0, sv\<lparr>sv_state := s\<rparr>) else (respond status_no_memory 0, sv\<lparr>sv_state := s\<rparr>))
      in if unicode \<and> length input mod 2 \<noteq> 0 then (respond status_invalid_parameter 0, sv)
         else if \<not> mem_ok then (respond status_no_memory 0, sv)
         else if unicode then store (rev (dropWhile (\<lambda>u. u = 0) (rev (units_of input))))
         else store (if input = [] then [] else sys_decode sys (output_page_of sys sv) input))"

section \<open>Fonts, flags and the list of processes\<close>

definition ulong_bytes :: "ulong \<Rightarrow> byte list" where
  "ulong_bytes w = [ucast w, ucast (drop_bit 8 w), ucast (drop_bit 16 w), ucast (drop_bit 24 w)]"

definition get_font_info :: "handle \<Rightarrow> byte list \<Rightarrow> Server \<Rightarrow> response \<times> Server" where
  "get_font_info h out =
    with_screen h (\<lambda>i sv.
      let s = sv_state sv; info = ulong_bytes (ss_font_index s) @ wchar_bytes (word_of_int (cx (ss_font_size s))) @ wchar_bytes (word_of_int (cy (ss_font_size s)))
      in if length out < 8 then ((respond status_buffer_too_small 0)\<lparr>re_body := NumberBody 1, re_output := out\<rparr>, sv)
         else ((respond status_success 8)\<lparr>re_body := NumberBody 1, re_output := store_front info out\<rparr>, sv))"

definition get_font_size :: "handle \<Rightarrow> ulong \<Rightarrow> Server \<Rightarrow> response \<times> Server" where
  "get_font_size h index =
    with_screen h (\<lambda>i sv.
      if index \<noteq> ss_font_index (sv_state sv) then (respond status_invalid_parameter 0, sv)
      else (respond_with status_success (CoordBody (ss_font_size (sv_state sv))), sv))"

definition get_current_font :: "handle \<Rightarrow> CONSOLE_CURRENTFONT_MSG \<Rightarrow> Server \<Rightarrow> response \<times> Server" where
  "get_current_font h msg =
    with_screen h (\<lambda>i sv. (respond_with status_success (FontBody (fill_current_font msg (sv_state sv))), sv))"

definition set_current_font :: "handle \<Rightarrow> CONSOLE_CURRENTFONT_MSG \<Rightarrow> Server \<Rightarrow> response \<times> Server" where
  "set_current_font h msg =
    with_screen h (\<lambda>i sv.
      let sv = on_state (apply_current_font msg) sv
      in (respond_with status_success (FontBody (fill_current_font msg (sv_state sv))), sv))"

definition set_key_shortcuts :: "bool \<Rightarrow> byte \<Rightarrow> Server \<Rightarrow> response \<times> Server" where
  "set_key_shortcuts enabled keys sv =
    (respond status_success 0, on_state (\<lambda>s. s\<lparr>ss_key_shortcuts_enabled := enabled, ss_reserved_keys := keys\<rparr>) sv)"

definition set_menu_close :: "bool \<Rightarrow> Server \<Rightarrow> response \<times> Server" where
  "set_menu_close enable sv = (respond status_success 0, on_state (\<lambda>s. s\<lparr>ss_menu_close := enable\<rparr>) sv)"

definition set_cursor_mode :: "bool \<Rightarrow> bool \<Rightarrow> Server \<Rightarrow> response \<times> Server" where
  "set_cursor_mode blink db_enable sv =
    (respond_with status_success (FlagsBody blink db_enable),
     on_state (\<lambda>s. s\<lparr>ss_cursor_blink := blink, ss_cursor_db_enable := db_enable\<rparr>) sv)"

definition get_cursor_mode :: "Server \<Rightarrow> response \<times> Server" where
  "get_cursor_mode sv =
    (respond_with status_success (FlagsBody (ss_cursor_blink (sv_state sv)) (ss_cursor_db_enable (sv_state sv))), sv)"

definition register_os2 :: "bool \<Rightarrow> Server \<Rightarrow> response \<times> Server" where
  "register_os2 registered sv = (respond status_success 0, on_state (\<lambda>s. s\<lparr>ss_os2_registered := registered\<rparr>) sv)"

definition set_os2_oem_format :: "bool \<Rightarrow> Server \<Rightarrow> response \<times> Server" where
  "set_os2_oem_format enabled sv = (respond status_success 0, on_state (\<lambda>s. s\<lparr>ss_os2_oem_format := enabled\<rparr>) sv)"

definition get_nls_mode :: "Server \<Rightarrow> response \<times> Server" where
  "get_nls_mode sv = (respond_with status_success (NumberBody (ss_nls_mode (sv_state sv))), sv)"

definition set_nls_mode :: "ulong \<Rightarrow> Server \<Rightarrow> response \<times> Server" where
  "set_nls_mode mode sv = (respond_with status_success (NumberBody mode), on_state (\<lambda>s. s\<lparr>ss_nls_mode := mode\<rparr>) sv)"

text \<open>The youngest connection comes first; a list that does not fit is not stored at all.\<close>

definition newest_first :: "ServerState \<Rightarrow> ulong list" where
  "newest_first s = map pr_pid (sort_key (\<lambda>process. - uint (pr_connect_sequence process)) (map snd (ss_processes s)))"

definition get_process_list :: "bool \<Rightarrow> byte list \<Rightarrow> Server \<Rightarrow> response \<times> Server" where
  "get_process_list mem_ok out sv =
    (let pids = newest_first (sv_state sv); n = NumberBody (of_nat (min (length pids) 0xFFFFFFFF))
     in (if \<not> mem_ok then (respond status_no_memory 0)\<lparr>re_output := out\<rparr>
         else if length out div 4 < length pids then (respond status_success 0)\<lparr>re_body := n, re_output := out\<rparr>
         else (respond status_success (length pids * 4))\<lparr>re_body := n, re_output := store_front (concat (map ulong_bytes pids)) out\<rparr>, sv))"

text \<open>
  Questions to the system: the answers of \<open>GetUserDefaultLangID\<close>, \<open>GetKeyboardLayoutNameW\<close> (which may fail) and
  \<open>GetSystemMetrics\<close> come with the request. A layout name is an array of nine units.
\<close>

definition get_lang_id :: "ushort \<Rightarrow> Server \<Rightarrow> response \<times> Server" where
  "get_lang_id lang sv = (respond_with status_success (NumberBody (ucast lang)), sv)"

definition get_keyboard_layout_name :: "wstring option \<Rightarrow> bool \<Rightarrow> Server \<Rightarrow> response \<times> Server" where
  "get_keyboard_layout_name name ansi sv =
    (let layout = (case name of Some us \<Rightarrow> us | None \<Rightarrow> [0x30, 0x30, 0x30, 0x30, 0x30, 0x34, 0x30, 0x39, 0])
     in (respond_with status_success
           (if ansi then AnsiLayoutBody (map (\<lambda>ch. if ch \<le> 0x7F then ucast ch else 0x3F) layout) else LayoutBody layout), sv))"

definition get_mouse_info :: "int \<Rightarrow> Server \<Rightarrow> response \<times> Server" where
  "get_mouse_info buttons sv = (respond_with status_success (NumberBody (if buttons > 0 then word_of_int buttons else 0)), sv)"

section \<open>Writing text\<close>

text \<open>
  What \<open>apply_text_to_screen_buffer\<close> does besides changing the buffer: titles go to the server, answers to
  queries into the input, when the host has no terminal to answer them. \<open>mem\<close> gives the outcomes of its
  allocations, those of the pushes of its answers last, \<open>title_ok\<close> those for titles.
\<close>

definition text_run :: "(nat \<Rightarrow> bool) \<Rightarrow> nat \<Rightarrow> wstring \<Rightarrow> Server \<Rightarrow> VtRun" where
  "text_run mem i us sv =
    apply_text_to_screen_buffer
      \<lparr>c_output_mode = ss_output_mode (sv_state sv), c_has_title_state = True,
       c_answers_queries = vt_should_answer_queries (sv_host sv), c_mem = mem\<rparr>
      us (ss_screens (sv_state sv) ! i)"

definition text_answers :: "(nat \<Rightarrow> bool) \<Rightarrow> VtRun \<Rightarrow> (bool \<times> byte list) list" where
  "text_answers mem v = map (\<lambda>(j, bytes). (mem (v_allocs v + j), bytes)) (enumerate 0 (v_injected v))"

definition apply_text :: "(nat \<Rightarrow> bool) \<Rightarrow> bool \<Rightarrow> nat \<Rightarrow> wstring \<Rightarrow> Server \<Rightarrow> Server" where
  "apply_text mem title_ok i us sv =
    (let v = text_run mem i us sv;
         s = fold (\<lambda>t s. snd (set_title_view title_ok title_ok t s)) (v_titles v) (update_screen i (v_sb v) (sv_state sv))
     in sv\<lparr>sv_state := s, sv_host := fold (\<lambda>(ok, bytes). inject_input_bytes ok bytes) (text_answers mem v) (sv_host sv)\<rparr>)"

text \<open>Without a terminal the bytes are thrown away.\<close>

definition write_output_bytes :: "byte list \<Rightarrow> Server \<Rightarrow> Server" where
  "write_output_bytes bytes sv = (if ho_output (sv_host sv) then sv\<lparr>sv_output := sv_output sv @ bytes\<rparr> else sv)"

text \<open>\<open>decode_console_string\<close>: \<open>None\<close> stands for a failed conversion.\<close>

definition decode_console_string :: "system \<Rightarrow> bool \<Rightarrow> ulong \<Rightarrow> byte list \<Rightarrow> wstring option" where
  "decode_console_string sys unicode cp bytes =
    (if unicode then (if length bytes mod 2 \<noteq> 0 then None else Some (units_of bytes))
     else if bytes = [] then Some []
     else if length bytes > 0x7FFFFFFF then None
     else if sys_decode sys cp bytes = [] then None else Some (sys_decode sys cp bytes))"

text \<open>Text in the output code page, as \<open>WriteConsoleA\<close> and raw writes bring it.\<close>

definition write_narrow :: "system \<Rightarrow> (nat \<Rightarrow> bool) \<Rightarrow> bool \<Rightarrow> bool \<Rightarrow> nat \<Rightarrow> byte list \<Rightarrow> Server \<Rightarrow> response \<times> Server" where
  "write_narrow sys mem title_ok mem_ok i input sv =
    (case decode_console_string sys False (ss_output_code_page (sv_state sv)) input of
       None \<Rightarrow> (respond status_invalid_parameter 0, sv)
     | Some us \<Rightarrow>
         if input \<noteq> [] \<and> \<not> mem_ok then (respond status_no_memory 0, sv)
         else ((respond status_success (length input))\<lparr>re_body := NumberBody (of_nat (length input))\<rparr>,
               apply_text mem title_ok i us (write_output_bytes input sv)))"

definition write_wide :: "system \<Rightarrow> (nat \<Rightarrow> bool) \<Rightarrow> bool \<Rightarrow> bool \<Rightarrow> nat \<Rightarrow> byte list \<Rightarrow> Server \<Rightarrow> response \<times> Server" where
  "write_wide sys mem title_ok mem_ok i input sv =
    (if length input mod 2 \<noteq> 0 then (respond status_invalid_parameter 0, sv)
     else if \<not> mem_ok then (respond status_no_memory 0, sv)
     else
       let us = units_of input; utf8 = sys_encode sys CP_UTF8 us
       in if utf8 = [] then (fatal (comm_error ''WideCharToMultiByte failed for console output'' (sys_last_error sys)), sv)
          else ((respond status_success (length input))\<lparr>re_body := NumberBody (of_nat (length input))\<rparr>,
                apply_text mem title_ok i us (write_output_bytes utf8 sv)))"

definition write_console :: "system \<Rightarrow> handle \<Rightarrow> bool \<Rightarrow> (nat \<Rightarrow> bool) \<Rightarrow> bool \<Rightarrow> bool \<Rightarrow> byte list \<Rightarrow> Server \<Rightarrow> response \<times> Server" where
  "write_console sys h unicode mem title_ok mem_ok input =
    with_screen h (\<lambda>i. if unicode then write_wide sys mem title_ok mem_ok i input else write_narrow sys mem title_ok mem_ok i input)"

text \<open>A raw write sets no field of a message.\<close>

definition raw_write :: "system \<Rightarrow> handle \<Rightarrow> (nat \<Rightarrow> bool) \<Rightarrow> bool \<Rightarrow> bool \<Rightarrow> byte list \<Rightarrow> Server \<Rightarrow> response \<times> Server" where
  "raw_write sys h mem title_ok mem_ok input =
    with_screen h (\<lambda>i sv. let (re, sv) = write_narrow sys mem title_ok mem_ok i input sv in (re\<lparr>re_body := NoBody\<rparr>, sv))"

section \<open>Reading input\<close>

text \<open>\<open>FlushConsoleInputBuffer\<close>, raw flushes and \<open>WriteConsoleInput\<close> that replaces: the queue and the handle are emptied.\<close>

definition emptied_handle :: "InputHandle \<Rightarrow> InputHandle" where
  "emptied_handle ih =
    ih\<lparr>ih_decoded_pending := None, ih_pending_bytes := pending_clear (ih_pending_bytes ih), ih_cooked_pending := [],
       ih_line := [], ih_line_cursor := 0, ih_insert_mode := True\<rparr>"

definition clear_input :: "handle \<Rightarrow> ObjectHandle \<Rightarrow> Server \<Rightarrow> Server" where
  "clear_input h ob sv =
    on_state (update_input h (emptied_handle (ob_input ob))) (sv\<lparr>sv_host := flush_input_buffer (sv_host sv)\<rparr>)"

definition flush_input :: "handle \<Rightarrow> Server \<Rightarrow> response \<times> Server" where
  "flush_input h = with_input h (\<lambda>ob sv. (respond status_success 0, clear_input h ob sv))"

text \<open>The bytes that \<open>WriteConsoleInput\<close> makes of one record; the scratch array holds 8 bytes.\<close>

definition record_bytes :: "(wstring \<Rightarrow> byte list) \<Rightarrow> bool \<Rightarrow> INPUT_RECORD \<Rightarrow> byte list" where
  "record_bytes encode unicode r =
    (let key = KeyEvent r; ch = UnicodeChar key;
         code = (if unicode then (let bs = encode [ch] in if bs = [] \<or> length bs > 8 then [0x3F] else bs) else [ucast ch])
     in if EventType r \<noteq> 1 \<or> \<not> bKeyDown key then []
        else if unicode \<and> ch = 0 \<or> \<not> unicode \<and> (ucast ch :: byte) = 0 then []
        else concat (replicate (if wRepeatCount key = 0 then 1 else unat (wRepeatCount key)) code))"

text \<open>
  \<open>ragged\<close> says that the input is not a whole number of records; \<open>mem_ok\<close> is for the bytes, \<open>push_ok\<close> for the
  queue, which loses them silently.
\<close>

definition write_console_input ::
    "system \<Rightarrow> handle \<Rightarrow> bool \<Rightarrow> bool \<Rightarrow> bool \<Rightarrow> bool \<Rightarrow> bool \<Rightarrow> INPUT_RECORD list \<Rightarrow> Server \<Rightarrow> response \<times> Server" where
  "write_console_input sys h unicode keep ragged mem_ok push_ok records =
    with_input h (\<lambda>ob sv.
      if ragged then (respond_with status_invalid_parameter (NumberBody 0), sv)
      else
        let sv = (if keep then sv else clear_input h ob sv);
            cp = (if ss_input_code_page (sv_state sv) = 0 then sys_oem sys else ss_input_code_page (sv_state sv));
            bytes = concat (map (record_bytes (sys_encode sys cp) unicode) records)
        in if \<not> mem_ok then (respond_with status_no_memory (NumberBody 0), sv)
           else (respond_with status_success (NumberBody (of_nat (min (length records) 0xFFFFFFFF))),
                 sv\<lparr>sv_host := inject_input_bytes push_ok bytes (sv_host sv)\<rparr>))"

abbreviation processed_input :: "Server \<Rightarrow> bool" where
  "processed_input sv \<equiv> ss_input_mode (sv_state sv) AND ENABLE_PROCESSED_INPUT \<noteq> 0"

abbreviation input_page :: "Server \<Rightarrow> ulong" where
  "input_page sv \<equiv> ss_input_code_page (sv_state sv)"

definition number_of_events :: "system \<Rightarrow> handle \<Rightarrow> bool \<Rightarrow> Server \<Rightarrow> response \<times> Server" where
  "number_of_events sys h mem_ok =
    with_input h (\<lambda>ob sv.
      (respond_with status_success
         (NumberBody (of_nat (number_of_input_events (sys_pages sys) (input_page sv) (processed_input sv) mem_ok (ob_input ob) (sv_host sv)))), sv))"

text \<open>A read puts back the state of its handle and of the host.\<close>

definition put_input :: "handle \<Rightarrow> InputHandle \<Rightarrow> HostIo \<Rightarrow> Server \<Rightarrow> Server" where
  "put_input h ih host sv = on_state (update_input h ih) (sv\<lparr>sv_host := host\<rparr>)"

definition get_input_records :: "system \<Rightarrow> handle \<Rightarrow> ushort \<Rightarrow> bool \<Rightarrow> nat \<Rightarrow> Server \<Rightarrow> response \<times> Server" where
  "get_input_records sys h flags unicode output_size =
    with_input h (\<lambda>ob sv.
      let (r, s) = get_console_input (sys_pages sys) (input_page sv) (process_ids (sv_state sv)) (processed_input sv) flags unicode
                     output_size (ob_input ob) (sv_host sv)
      in ((of_reply r [])\<lparr>re_body := RecordsBody (gi_records s)\<rparr>, put_input h (gi_handle s) (gi_host s) sv))"

definition raw_read_request :: "system \<Rightarrow> handle \<Rightarrow> byte list \<Rightarrow> Server \<Rightarrow> response \<times> Server" where
  "raw_read_request sys h out =
    with_input h (\<lambda>ob sv.
      let (r, s) = raw_read (\<lambda>u. sys_encode sys (input_page sv) [u]) (process_ids (sv_state sv)) (processed_input sv) out (ob_input ob) (sv_host sv)
      in (of_reply r (rr_output s), put_input h (rr_handle s) (rr_host s) sv))"

subsection \<open>ReadConsole\<close>

text \<open>Echoed text goes to the active screen buffer and, as UTF-8, to the terminal.\<close>

definition echo_text :: "system \<Rightarrow> (nat \<Rightarrow> bool) \<Rightarrow> bool \<Rightarrow> wstring \<Rightarrow> Server \<Rightarrow> Server" where
  "echo_text sys mem title_ok us sv =
    (if us = [] then sv
     else
       let sv = (case ss_active_screen_buffer (sv_state sv) of None \<Rightarrow> sv | Some i \<Rightarrow> apply_text mem title_ok i us sv)
       in write_output_bytes (sys_encode sys CP_UTF8 us) sv)"

text \<open>\<open>rc_mem j\<close> has the outcomes of the allocations for the piece \<open>j\<close> that is echoed.\<close>

record read_call =
  rc_unicode :: bool
  rc_process_control_z :: bool
  rc_mem :: "nat \<Rightarrow> nat \<Rightarrow> bool"
  rc_title_ok :: bool
  rc_history_ok :: bool

definition echo_all :: "system \<Rightarrow> read_call \<Rightarrow> wstring list \<Rightarrow> Server \<Rightarrow> Server" where
  "echo_all sys rc es sv = fold (\<lambda>(j, us). echo_text sys (rc_mem rc j) (rc_title_ok rc) us) (enumerate 0 es) sv"

text \<open>What the echo of a piece after others injects: the answers of the screen as they have left it.\<close>

definition answers_of_echo :: "system \<Rightarrow> read_call \<Rightarrow> Server \<Rightarrow> echo_answers" where
  "answers_of_echo sys rc sv es us =
    (let sv = echo_all sys rc es sv; mem = rc_mem rc (length es)
     in if us = [] then []
        else case ss_active_screen_buffer (sv_state sv) of None \<Rightarrow> [] | Some i \<Rightarrow> text_answers mem (text_run mem i us sv))"

definition read_line :: "system \<Rightarrow> read_call \<Rightarrow> handle \<Rightarrow> byte list \<Rightarrow> ObjectHandle \<Rightarrow> Server \<Rightarrow> response \<times> Server" where
  "read_line sys rc h out ob sv =
    (let st = sv_state sv;
         k = \<lparr>k_sys = sys_pages sys, k_code_page = input_page sv, k_narrow = sys_encode sys (input_page sv), k_pids = process_ids st,
              k_processed = processed_input sv, k_echo = (ss_input_mode st AND ENABLE_ECHO_INPUT \<noteq> 0), k_unicode = rc_unicode rc,
              k_process_control_z = rc_process_control_z rc\<rparr>;
         no_dup = (ss_history_flags st AND 1 \<noteq> 0)
     in case answering_read (answers_of_echo sys rc sv) k out (ob_input ob) (sv_host sv) of
          None \<Rightarrow> ((respond 0 0)\<lparr>re_answer := NoReturn\<rparr>, sv)
        | Some (r, s) \<Rightarrow>
            (of_reply r (cr_output s),
             on_state (fold (\<lambda>command. add_command_history_for_process (rc_history_ok rc) (ob_owning_process ob) command no_dup) (cr_commands s))
               (put_input h (cr_handle s) (cr_host s) (echo_all sys rc (cr_echoed s) sv))))"

definition read_units :: "system \<Rightarrow> handle \<Rightarrow> byte list \<Rightarrow> ObjectHandle \<Rightarrow> Server \<Rightarrow> response \<times> Server" where
  "read_units sys h out ob sv =
    (let (r, s) = wide_read (sys_pages sys) (input_page sv) (process_ids (sv_state sv)) (processed_input sv) (units_of out)
                    (ob_input ob) (sv_host sv)
     in (of_reply r (store_front (concat (map wchar_bytes (wr_output s))) out), put_input h (wr_handle s) (wr_host s) sv))"

definition read_bytes :: "system \<Rightarrow> handle \<Rightarrow> byte list \<Rightarrow> ObjectHandle \<Rightarrow> Server \<Rightarrow> response \<times> Server" where
  "read_bytes sys h out ob sv =
    (let (r, s) = narrow_read (\<lambda>u. sys_encode sys (input_page sv) [u]) (process_ids (sv_state sv)) (processed_input sv) out
                    (ob_input ob) (sv_host sv)
     in (of_reply r (rr_output s), put_input h (rr_handle s) (rr_host s) sv))"

definition read_console :: "system \<Rightarrow> handle \<Rightarrow> read_call \<Rightarrow> byte list \<Rightarrow> Server \<Rightarrow> response \<times> Server" where
  "read_console sys h rc out =
    with_input h (\<lambda>ob sv.
      if out = [] then (respond status_success 0, sv)
      else if ss_input_mode (sv_state sv) AND ENABLE_LINE_INPUT \<noteq> 0 then read_line sys rc h out ob sv
      else
        let (start, host) = char_prepare (process_ids (sv_state sv)) (processed_input sv) (rc_unicode rc) (rc_process_control_z rc)
                              (ob_input ob) (sv_host sv);
            sv = sv\<lparr>sv_host := host\<rparr>
        in case start of
             NothingToRead r \<Rightarrow> (of_reply r out, sv)
           | EndOfText \<Rightarrow> ((respond status_success 0)\<lparr>re_output := out[0 := 0]\<rparr>, sv)
           | Characters \<Rightarrow> if rc_unicode rc then read_units sys h out ob sv else read_bytes sys h out ob sv)"

section \<open>Connections and objects\<close>

text \<open>The part of \<open>CONSOLE_SERVER_MSG\<close> that is used; a message that is too short has none.\<close>

definition application_name :: "(ushort \<times> wstring) option \<Rightarrow> wstring" where
  "application_name msg =
    (case msg of
       None \<Rightarrow> []
     | Some (name_length, name) \<Rightarrow>
         let bytes = unat name_length; cch = bytes div 2
         in if bytes mod 2 = 0 \<and> bytes \<le> 254 \<and> cch < 128 \<and> name ! cch = 0 then take cch name else [])"

definition narrow_id :: "64 word \<Rightarrow> ulong" where
  "narrow_id w = (if w > 0xFFFFFFFF then 0 else ucast w)"

definition connect :: "system \<Rightarrow> connect_memory \<Rightarrow> 64 word \<Rightarrow> 64 word \<Rightarrow> (ushort \<times> wstring) option \<Rightarrow> Server \<Rightarrow> response \<times> Server" where
  "connect sys mem process object msg sv =
    (case connect_client (sys_same_name sys) mem (narrow_id process) (narrow_id object) (application_name msg) (sv_state sv) of
       (Inl e, s) \<Rightarrow> (respond status_no_memory 0, sv\<lparr>sv_state := s\<rparr>)
     | (Inr info, s) \<Rightarrow> ((respond status_success 24)\<lparr>re_body := ConnectionBody info\<rparr>, sv\<lparr>sv_state := s\<rparr>))"

definition disconnect :: "handle \<Rightarrow> Server \<Rightarrow> response \<times> Server" where
  "disconnect process sv =
    (let (removed, s) = disconnect_client process (sv_state sv)
     in ((respond (if removed then status_success else status_invalid_handle) 0)\<lparr>re_exit := (process_count s = 0)\<rparr>, sv\<lparr>sv_state := s\<rparr>))"

abbreviation io_object_type_current_input :: ulong where "io_object_type_current_input \<equiv> 1"
abbreviation io_object_type_current_output :: ulong where "io_object_type_current_output \<equiv> 2"
abbreviation io_object_type_new_output :: ulong where "io_object_type_new_output \<equiv> 3"
abbreviation io_object_type_generic :: ulong where "io_object_type_generic \<equiv> 4"

definition resolve_object_type :: "ulong \<Rightarrow> ulong \<Rightarrow> ulong" where
  "resolve_object_type object_type desired_access =
    (if object_type = io_object_type_generic then
       (if desired_access AND 0xC0000000 = 0x80000000 then io_object_type_current_input
        else if desired_access AND 0xC0000000 = 0x40000000 then io_object_type_current_output
        else object_type)
     else object_type)"

text \<open>The new screen buffer is made before the process is checked.\<close>

definition create_object_request ::
    "allocation \<Rightarrow> bool \<Rightarrow> handle \<Rightarrow> ulong \<Rightarrow> ulong \<Rightarrow> ulong \<Rightarrow> Server \<Rightarrow> response \<times> Server" where
  "create_object_request alloc buffer_ok process object_type desired_access share_mode sv =
    (let t = resolve_object_type object_type desired_access; s = sv_state sv;
         finish = (\<lambda>ob s.
           if \<not> has_process process s then (respond status_invalid_handle 0, sv\<lparr>sv_state := s\<rparr>)
           else case create_object alloc ob s of
                  (Inl e, s) \<Rightarrow> (respond status_no_memory 0, sv\<lparr>sv_state := s\<rparr>)
                | (Inr h, s) \<Rightarrow> (respond status_success (unat h), sv\<lparr>sv_state := s\<rparr>))
     in if t = io_object_type_current_input then finish (new_object K_input desired_access share_mode process) s
        else if t = io_object_type_current_output
        then finish ((new_object K_output desired_access share_mode process)\<lparr>ob_screen_buffer := ss_active_screen_buffer s\<rparr>) s
        else if t = io_object_type_new_output then
          (case create_screen_buffer_like_active buffer_ok s of
             (Inl e, s) \<Rightarrow> (respond status_no_memory 0, sv\<lparr>sv_state := s\<rparr>)
           | (Inr i, s) \<Rightarrow> finish ((new_object K_output desired_access share_mode process)\<lparr>ob_screen_buffer := Some i\<rparr>) s)
        else (respond status_invalid_parameter 0, sv))"

definition close_object_request :: "handle \<Rightarrow> Server \<Rightarrow> response \<times> Server" where
  "close_object_request h sv =
    (let (closed, s) = close_object h (sv_state sv)
     in (respond (if closed then status_success else status_invalid_handle) 0, sv\<lparr>sv_state := s\<rparr>))"

section \<open>Every request keeps the server well-formed\<close>

definition server_inv :: "Server \<Rightarrow> bool" where
  "server_inv sv \<longleftrightarrow> server_ok (sv_state sv) \<and> queue_inv (ho_queue (sv_host sv))"

text \<open>A handler that keeps the invariant.\<close>

definition handler_safe :: "(Server \<Rightarrow> 'a \<times> Server) \<Rightarrow> bool" where
  "handler_safe f \<longleftrightarrow> (\<forall>sv. server_inv sv \<longrightarrow> server_inv (snd (f sv)))"

lemma keepsI: "(\<And>sv. server_inv sv \<Longrightarrow> server_inv (snd (f sv))) \<Longrightarrow> handler_safe f"
  by (simp add: handler_safe_def)

lemma keepsD: "handler_safe f \<Longrightarrow> server_inv sv \<Longrightarrow> server_inv (snd (f sv))"
  by (simp add: handler_safe_def)

lemma server_inv_frame [simp]: "server_inv (sv\<lparr>sv_output := x\<rparr>) = server_inv sv" "server_inv (write_output_bytes x sv) = server_inv sv"
  by (simp_all add: server_inv_def write_output_bytes_def)

lemma server_inv_state: "server_inv sv \<Longrightarrow> server_ok s \<Longrightarrow> server_inv (sv\<lparr>sv_state := s\<rparr>)"
  by (simp add: server_inv_def)

lemma server_inv_on_state: "server_inv sv \<Longrightarrow> server_ok (f (sv_state sv)) \<Longrightarrow> server_inv (on_state f sv)"
  by (simp add: server_inv_def on_state_def)

lemma server_inv_host: "server_inv sv \<Longrightarrow> queue_inv (ho_queue host) \<Longrightarrow> server_inv (sv\<lparr>sv_host := host\<rparr>)"
  by (simp add: server_inv_def)

lemma find_object_ok: "server_ok s \<Longrightarrow> find_object h s = Some ob \<Longrightarrow> object_ok s ob"
  by (auto simp: server_ok_def tables_ok_def find_object_def dest!: map_of_SomeD)

lemma screen_at_ok: "server_ok s \<Longrightarrow> screen_ref s (Some i) \<Longrightarrow> screen_ok (ss_screens s ! i)"
  by (simp add: server_ok_def screens_ok_def screen_ref_def)

text \<open>The rules for the three guards: the handler may rely on what the handle promises.\<close>

lemma keeps_with_screen:
  assumes "\<And>i sv. server_inv sv \<Longrightarrow> screen_ref (sv_state sv) (Some i) \<Longrightarrow> server_inv (snd (f i sv))"
  shows "handler_safe (with_screen h f)"
proof (rule keepsI)
  fix sv assume inv: "server_inv sv"
  show "server_inv (snd (with_screen h f sv))"
  proof (cases "find_object h (sv_state sv)")
    case (Some ob)
    then have "object_ok (sv_state sv) ob" using inv find_object_ok by (auto simp: server_inv_def)
    then have "screen_ref (sv_state sv) (ob_screen_buffer ob)" by (simp add: object_ok_def)
    then show ?thesis using Some inv assms by (auto simp: with_screen_def split: option.split)
  qed (simp add: with_screen_def inv)
qed

lemma keeps_with_output:
  assumes "\<And>ob sv. server_inv sv \<Longrightarrow> object_ok (sv_state sv) ob \<Longrightarrow> server_inv (snd (f ob sv))"
  shows "handler_safe (with_output h f)"
  using assms find_object_ok by (intro keepsI) (auto simp: with_output_def server_inv_def split: option.split)

lemma keeps_with_input:
  assumes "\<And>ob sv. server_inv sv \<Longrightarrow> object_ok (sv_state sv) ob \<Longrightarrow> server_inv (snd (f ob sv))"
  shows "handler_safe (with_input h f)"
  using assms find_object_ok by (intro keepsI) (auto simp: with_input_def server_inv_def split: option.split)

subsection \<open>Screens\<close>

definition coords_fit :: "screen_request \<Rightarrow> bool" where
  "coords_fit r = (case r of SetScreenBufferInfo _ info \<Rightarrow> short_coord (bi_Size info) | SetScreenBufferSize _ sz \<Rightarrow> short_coord sz | _ \<Rightarrow> True)"

lemma screen_handler_run: "coords_fit r \<Longrightarrow> screen_run sb (snd (screen_handler r sb))"
  by (cases r)
    (auto simp: plain_answer_def counted_answer_def coords_fit_def split_beta Let_def
      intro: set_cursor_info_run set_screen_buffer_info_run set_size_request_run set_cursor_position_run scroll_request_run
        set_window_info_run fill_console_output_run write_console_output_string_run write_console_output_run
        screen_call_run call_attributes)

lemma screen_request_keeps: "coords_fit r \<Longrightarrow> handler_safe (screen_request h r)"
  unfolding screen_request_def
  by (rule keeps_with_screen)
    (auto simp: split_beta server_inv_def on_state_def intro!: update_screen_ok screen_run_ok [OF screen_handler_run] screen_at_ok)

subsection \<open>Server state\<close>

lemma unchanged_keeps: "(\<And>sv. snd (f sv) = sv) \<Longrightarrow> handler_safe f"
  by (simp add: handler_safe_def)

lemma mode_requests_keep:
  "handler_safe (get_mode h)" "handler_safe (set_mode h m)" "handler_safe (get_cp b)" "handler_safe (set_cp b cp)"
  by (auto simp: handler_safe_def get_mode_def set_mode_def get_cp_def set_cp_def server_inv_def on_state_def split: option.split)

lemma set_active_request_keeps: "handler_safe (set_active_request h)"
  unfolding set_active_request_def
  by (rule keeps_with_output) (auto simp: split_beta server_inv_def object_ok_def intro!: set_active_screen_buffer_ok)

lemma generate_ctrl_event_keeps: "handler_safe (generate_ctrl_event e g)"
  by (auto simp: handler_safe_def generate_ctrl_event_def server_inv_def Let_def)

lemma title_requests_keep:
  "handler_safe (get_title_request sys h u orig m out)" "handler_safe (set_title_request sys h u m c input)"
  unfolding get_title_request_def set_title_request_def
  by (rule keeps_with_output, simp add: Let_def, rule keeps_with_output)
    (auto simp: Let_def split_beta server_inv_def set_title_ok)

lemma font_requests_keep:
  "handler_safe (get_font_info h out)" "handler_safe (get_font_size h n)" "handler_safe (get_current_font h msg)"
  unfolding get_font_info_def get_font_size_def get_current_font_def
  by (rule keeps_with_screen; simp add: Let_def)+

lemma set_current_font_keeps: "length (fm_FaceName msg) = 32 \<Longrightarrow> handler_safe (set_current_font h msg)"
  unfolding set_current_font_def
  by (rule keeps_with_screen) (simp add: Let_def server_inv_def on_state_def apply_current_font_ok)

lemma flag_requests_keep:
  "handler_safe (set_key_shortcuts b k)" "handler_safe (set_menu_close b)" "handler_safe (set_cursor_mode b c)" "handler_safe get_cursor_mode"
  "handler_safe (register_os2 b)" "handler_safe (set_os2_oem_format b)" "handler_safe get_nls_mode" "handler_safe (set_nls_mode m)"
  "handler_safe (get_process_list ok out)" "handler_safe (get_lang_id lang)" "handler_safe (get_keyboard_layout_name name ansi)"
  "handler_safe (get_mouse_info buttons)"
  by (simp_all add: get_lang_id_def get_keyboard_layout_name_def get_mouse_info_def handler_safe_def set_key_shortcuts_def set_menu_close_def set_cursor_mode_def get_cursor_mode_def register_os2_def
      set_os2_oem_format_def get_nls_mode_def set_nls_mode_def get_process_list_def server_inv_def on_state_def Let_def)

subsection \<open>Text and input\<close>

lemma fold_invariant_simple: "(\<And>x s. x \<in> set xs \<Longrightarrow> P s \<Longrightarrow> P (f x s)) \<Longrightarrow> P s \<Longrightarrow> P (fold f xs s)"
  by (induction xs arbitrary: s) simp_all

lemma apply_text_inv:
  assumes "server_inv sv" and "screen_ref (sv_state sv) (Some i)"
  shows "server_inv (apply_text mem title_ok i us sv)"
proof -
  have "server_ok (update_screen i (v_sb (text_run mem i us sv)) (sv_state sv))"
    using assms by (auto simp: text_run_def server_inv_def intro!: update_screen_ok apply_text_ok(1) screen_at_ok)
  moreover have "queue_inv (ho_queue (fold (\<lambda>(ok, bytes). inject_input_bytes ok bytes) as (sv_host sv)))" for as
    using inject_answers [of "sv_host sv" as] assms by (simp add: server_inv_def)
  ultimately show ?thesis
    unfolding apply_text_def Let_def server_inv_def
    by (auto intro!: fold_invariant_simple [of _ server_ok] set_title_view_ok)
qed

lemma screen_ref_output [simp]: "sv_state (write_output_bytes bs sv) = sv_state sv"
  by (simp add: write_output_bytes_def)

lemma write_output_inv [simp]: "server_inv (write_output_bytes bs sv) = server_inv sv"
  by (simp add: write_output_bytes_def server_inv_def)

lemma write_narrow_keeps:
  "server_inv sv \<Longrightarrow> screen_ref (sv_state sv) (Some i) \<Longrightarrow> server_inv (snd (write_narrow sys mem t m i input sv))"
  by (auto simp: write_narrow_def apply_text_inv split: option.split)

lemma write_console_keeps: "handler_safe (write_console sys h u mem t m input)"
  unfolding write_console_def
  by (rule keeps_with_screen) (auto simp: write_narrow_keeps write_wide_def Let_def apply_text_inv)

lemma raw_write_keeps: "handler_safe (raw_write sys h mem t m input)"
  unfolding raw_write_def by (rule keeps_with_screen) (simp add: split_beta write_narrow_keeps)

lemma put_input_inv:
  assumes "server_inv sv" and "input_inv ih host"
  shows "server_inv (put_input h ih host sv)"
  using assms by (auto simp: put_input_def server_inv_def on_state_def input_inv_def reader_ok_def intro!: update_input_ok)

lemma object_input_inv: "server_inv sv \<Longrightarrow> object_ok (sv_state sv) ob \<Longrightarrow> input_inv (ob_input ob) (sv_host sv)"
  by (simp add: server_inv_def object_ok_def reader_ok_def input_inv_def)

lemma clear_input_inv:
  assumes "server_inv sv" and "object_ok (sv_state sv) ob"
  shows "server_inv (clear_input h ob sv)"
  using assms
  by (auto simp: clear_input_def server_inv_def on_state_def flush_input_buffer_def emptied_handle_def object_ok_def reader_ok_def
      queue_inv_ops pending_inv_ops intro!: update_input_ok)

lemma inject_inv: "server_inv sv \<Longrightarrow> server_inv (sv\<lparr>sv_host := inject_input_bytes ok bs (sv_host sv)\<rparr>)"
  by (simp add: server_inv_def inject_input_bytes_def queue_inv_ops)

lemma input_requests_keep:
  "handler_safe (flush_input h)" "handler_safe (write_console_input sys h u a g m q rs)" "handler_safe (number_of_events sys h m)"
  unfolding flush_input_def write_console_input_def number_of_events_def
  by (rule keeps_with_input; simp add: Let_def clear_input_inv inject_inv)+

lemma get_input_records_keeps: "handler_safe (get_input_records sys h flags u n)"
  unfolding get_input_records_def
proof (rule keeps_with_input)
  fix ob sv assume sv: "server_inv sv" "object_ok (sv_state sv) ob"
  from get_console_input_inv [OF object_input_inv [OF sv] prod.collapse [symmetric]]
  show "server_inv (snd (let (r, s) = get_console_input (sys_pages sys) (input_page sv) (process_ids (sv_state sv)) (processed_input sv) flags u n
      (ob_input ob) (sv_host sv) in ((of_reply r [])\<lparr>re_body := RecordsBody (gi_records s)\<rparr>, put_input h (gi_handle s) (gi_host s) sv)))"
    using sv(1) by (simp add: split_beta put_input_inv)
qed

lemma raw_read_request_keeps: "handler_safe (raw_read_request sys h out)"
  unfolding raw_read_request_def
proof (rule keeps_with_input)
  fix ob sv assume sv: "server_inv sv" "object_ok (sv_state sv) ob"
  from raw_read_inv [OF object_input_inv [OF sv] prod.collapse [symmetric]]
  show "server_inv (snd (let (r, s) = raw_read (\<lambda>u. sys_encode sys (input_page sv) [u]) (process_ids (sv_state sv)) (processed_input sv) out
      (ob_input ob) (sv_host sv) in (of_reply r (rr_output s), put_input h (rr_handle s) (rr_host s) sv)))"
    using sv(1) by (simp add: split_beta put_input_inv)
qed

subsection \<open>ReadConsole\<close>

lemma echo_text_inv:
  assumes "server_inv sv"
  shows "server_inv (echo_text sys mem t us sv)"
proof -
  have "screen_ref (sv_state sv) (ss_active_screen_buffer (sv_state sv))" using assms by (simp add: server_inv_def server_ok_def screens_ok_def)
  then show ?thesis using assms by (auto simp: echo_text_def Let_def apply_text_inv split: option.split)
qed

lemma echo_all_inv: "server_inv sv \<Longrightarrow> server_inv (echo_all sys rc es sv)"
  unfolding echo_all_def by (rule fold_invariant_simple) (auto simp: echo_text_inv)

lemma read_line_keeps:
  assumes "server_inv sv" and "object_ok (sv_state sv) ob"
  shows "server_inv (snd (read_line sys rc h out ob sv))"
proof -
  have "server_inv (on_state (fold (\<lambda>command. add_command_history_for_process m p command d) cs) sv')" if "server_inv sv'" for m p d cs sv'
    using that by (intro server_inv_on_state fold_invariant_simple [of _ server_ok])
      (auto simp: add_command_history_for_process_def server_ok_pool_ops server_inv_def)
  then show ?thesis
    unfolding read_line_def Let_def
    using assms(1) answering_read_inv [OF object_input_inv [OF assms]]
    by (auto simp: put_input_inv echo_all_inv split: option.split)
qed

lemma read_units_keeps:
  assumes "server_inv sv" and "object_ok (sv_state sv) ob"
  shows "server_inv (snd (read_units sys h out ob sv))"
  using wide_read_inv [OF object_input_inv [OF assms] prod.collapse [symmetric]] assms(1)
  by (simp add: read_units_def split_beta put_input_inv)

lemma read_bytes_keeps:
  assumes "server_inv sv" and "object_ok (sv_state sv) ob"
  shows "server_inv (snd (read_bytes sys h out ob sv))"
  using narrow_read_inv [OF object_input_inv [OF assms] prod.collapse [symmetric]] assms(1)
  by (simp add: read_bytes_def split_beta put_input_inv)

lemma read_console_keeps: "handler_safe (read_console sys h rc out)"
  unfolding read_console_def
proof (rule keeps_with_input)
  fix ob sv assume sv: "server_inv sv" "object_ok (sv_state sv) ob"
  have host: "server_inv (sv\<lparr>sv_host := host\<rparr>)" "object_ok (sv_state (sv\<lparr>sv_host := host\<rparr>)) ob"
    if "char_prepare pids b u z (ob_input ob) (sv_host sv) = (start, host)" for pids b u z start host
    using char_prepare_inv [OF object_input_inv [OF sv] that] sv by (simp_all add: server_inv_def input_inv_def)
  show "server_inv (snd (if out = [] then (respond status_success 0, sv)
      else if ss_input_mode (sv_state sv) AND ENABLE_LINE_INPUT \<noteq> 0 then read_line sys rc h out ob sv
      else
        let (start, host) = char_prepare (process_ids (sv_state sv)) (processed_input sv) (rc_unicode rc) (rc_process_control_z rc)
                              (ob_input ob) (sv_host sv);
            sv = sv\<lparr>sv_host := host\<rparr>
        in case start of
             NothingToRead r \<Rightarrow> (of_reply r out, sv)
           | EndOfText \<Rightarrow> ((respond status_success 0)\<lparr>re_output := out[0 := 0]\<rparr>, sv)
           | Characters \<Rightarrow> if rc_unicode rc then read_units sys h out ob sv else read_bytes sys h out ob sv))"
    using sv host by (auto simp: Let_def read_line_keeps read_units_keeps read_bytes_keeps split: prod.split char_start.split)
qed

subsection \<open>Connections\<close>

lemma connect_keeps: "handler_safe (connect sys mem p obj msg)"
proof (rule keepsI)
  fix sv assume inv: "server_inv sv"
  then have "server_ok (snd (connect_client (sys_same_name sys) mem pid tid name (sv_state sv)))" for pid tid name
    by (simp add: server_inv_def connect_client_ok)
  then have "server_ok s" if "connect_client (sys_same_name sys) mem pid tid name (sv_state sv) = (r, s)" for pid tid name r s
    using that by (metis snd_conv)
  then show "server_inv (snd (connect sys mem p obj msg sv))"
    using inv by (auto simp: connect_def server_inv_def split: prod.split sum.split)
qed

lemma disconnect_keeps: "handler_safe (disconnect p)"
  by (rule keepsI) (simp add: disconnect_def split_beta server_inv_def disconnect_client_ok)

lemma close_object_request_keeps: "handler_safe (close_object_request h)"
  by (rule keepsI) (simp add: close_object_request_def split_beta server_inv_def close_object_ok)

lemma create_finish_ok:
  assumes "server_ok s" and "screen_ref s b" and "has_process p s"
  shows "server_ok (snd (create_object alloc ((new_object k a m p)\<lparr>ob_screen_buffer := b\<rparr>) s))"
  using assms by (intro create_object_ok) (auto simp: new_object_def has_process_def map_of_None_keys reader_ok_new)

lemma create_object_request_keeps: "handler_safe (create_object_request alloc m p t a sh)"
proof (rule keepsI)
  fix sv assume inv: "server_inv sv"
  then have ok: "server_ok (sv_state sv)" by (simp add: server_inv_def)
  have active: "screen_ref (sv_state sv) (ss_active_screen_buffer (sv_state sv))" using ok by (simp add: server_ok_def screens_ok_def)
  have none: "(new_object k a sh p)\<lparr>ob_screen_buffer := None\<rparr> = new_object k a sh p" for k by (simp add: new_object_def)
  have finish: "server_inv (snd (case create_object alloc ((new_object k a sh p)\<lparr>ob_screen_buffer := b\<rparr>) s of
      (Inl e, s) \<Rightarrow> (respond status_no_memory 0, sv\<lparr>sv_state := s\<rparr>) | (Inr h, s) \<Rightarrow> (respond status_success (unat h), sv\<lparr>sv_state := s\<rparr>)))"
    if "server_ok s" "screen_ref s b" "has_process p s" for k b s
    using create_finish_ok [OF that, of alloc k a sh] inv by (auto simp: server_inv_def split: prod.splits sum.splits)
  have like: "server_ok s \<and> (\<forall>i. r = Inr i \<longrightarrow> screen_ref s (Some i))" if "create_screen_buffer_like_active m (sv_state sv) = (r, s)" for r s
    using create_screen_buffer_like_active_ok [OF ok that] by (simp add: screen_ref_def)
  have plain: "screen_ref (sv_state sv) None" by (simp add: screen_ref_def)
  show "server_inv (snd (create_object_request alloc m p t a sh sv))"
    using inv finish [OF ok active] finish [OF ok plain, unfolded none] finish like
    by (auto simp: create_object_request_def Let_def server_inv_state split: prod.split sum.split)
qed

section \<open>A server with one client\<close>

text \<open>
  For the witnesses: code pages that map a byte to the unit of the same value, and a server whose
  client has the handles 32 and 48.
\<close>

definition plain_system :: system where
  "plain_system = \<lparr>sys_pages = latin_pages, sys_oem = 437, sys_decode = (\<lambda>cp bs. map ucast bs), sys_encode = (\<lambda>cp us. map ucast us),
     sys_same_name = (=), sys_lower = (\<lambda>us. us), sys_last_error = 87\<rparr>"

definition one_client :: Server where
  "one_client = \<lparr>sv_state = snd (connect_client (=) plenty 7 8 [99] fresh_server), sv_host = queued [], sv_output = []\<rparr>"

lemma one_client_state: "sv_state one_client = connected_state (=) plenty 7 8 [99] 16 32 48 fresh_server"
  by (simp add: one_client_def fresh_connect)

lemma one_client_inv: "server_inv one_client"
proof -
  have "queue_inv (ho_queue (queued []))" using queued_input(1) [of "[]"] by (simp add: input_inv_def)
  then show ?thesis by (simp add: server_inv_def one_client_def connect_client_ok fresh_server_facts)
qed

lemma one_client_objects:
  "find_object 48 (sv_state one_client) = Some ((new_object K_output 0xC0000000 3 16)\<lparr>ob_screen_buffer := Some 0\<rparr>)"
  "find_object 32 (sv_state one_client) = Some (new_object K_input 0xC0000000 3 16)"
  "find_object 64 (sv_state one_client) = None"
  by (simp_all add: one_client_state find_object_def connected_state_def connected_output_def new_object_def fresh_server_facts)

end
