(* ===== verification/Alias_Requests.thy ===== *)
theory Alias_Requests
  imports Server_Requests
begin

text \<open>
  The requests on aliases and command histories (\<open>dispatch_message\<close> in \<open>condrv_server.hpp\<close>): adding and looking up
  an alias, listing aliases, executables and commands, and the settings of the histories. Every
  listing comes with a request for its length, which adds up sizes in code of its own; the two are
  proved to agree.
\<close>

section \<open>Strings of a message\<close>

text \<open>A string of the message, or the status of the reply when it cannot be decoded.\<close>

definition message_string :: "system \<Rightarrow> bool \<Rightarrow> bool \<Rightarrow> ulong \<Rightarrow> byte list \<Rightarrow> ulong + wstring" where
  "message_string sys mem_ok unicode cp bytes =
    (case decode_console_string sys unicode cp bytes of
       None \<Rightarrow> Inl status_invalid_parameter
     | Some us \<Rightarrow> if us \<noteq> [] \<and> \<not> mem_ok then Inl status_no_memory else Inr us)"

definition drop_final_null :: "wstring \<Rightarrow> wstring" where
  "drop_final_null us = (if us \<noteq> [] \<and> last us = 0 then butlast us else us)"

definition fold_to_lower_invariant :: "system \<Rightarrow> wstring \<Rightarrow> ulong + wstring" where
  "fold_to_lower_invariant sys us =
    (if us = [] then Inr []
     else if length us > 0x7FFFFFFF then Inl status_unsuccessful
     else if sys_lower sys us = [] then Inl status_unsuccessful
     else Inr (drop_final_null (sys_lower sys us)))"

definition drop_final_nulls :: "wstring \<Rightarrow> wstring" where
  "drop_final_nulls us = rev (dropWhile (\<lambda>u. u = 0) (rev us))"

section \<open>Listings\<close>

text \<open>A string as a listing stores it; \<open>None\<close> when it has no encoding.\<close>

definition list_string :: "system \<Rightarrow> bool \<Rightarrow> ulong \<Rightarrow> wstring \<Rightarrow> byte list option" where
  "list_string sys unicode cp us =
    (if unicode then Some (concat (map wchar_bytes us))
     else if length us > 0x7FFFFFFF then None
     else if sys_encode sys cp us = [] then None else Some (sys_encode sys cp us))"

definition list_char :: "bool \<Rightarrow> wchar \<Rightarrow> byte list" where
  "list_char unicode u = (if unicode then wchar_bytes u else [ucast u])"

definition alias_entry :: "system \<Rightarrow> bool \<Rightarrow> ulong \<Rightarrow> wstring \<times> wstring \<Rightarrow> byte list option" where
  "alias_entry sys unicode cp e =
    (case list_string sys unicode cp (fst e) of
       None \<Rightarrow> None
     | Some source \<Rightarrow>
         (case list_string sys unicode cp (snd e) of
            None \<Rightarrow> None
          | Some target \<Rightarrow> Some (source @ list_char unicode 0x3D @ target @ list_char unicode 0)))"

definition name_entry :: "system \<Rightarrow> bool \<Rightarrow> ulong \<Rightarrow> wstring \<Rightarrow> byte list option" where
  "name_entry sys unicode cp us = map_option (\<lambda>bytes. bytes @ list_char unicode 0) (list_string sys unicode cp us)"

text \<open>The command histories are listed without the check of the length.\<close>

definition command_entry :: "system \<Rightarrow> bool \<Rightarrow> ulong \<Rightarrow> wstring \<Rightarrow> byte list option" where
  "command_entry sys unicode cp us =
    (if unicode then Some (concat (map wchar_bytes us) @ wchar_bytes 0)
     else if sys_encode sys cp us = [] then None else Some (sys_encode sys cp us @ [0]))"

text \<open>
  The queries for a length do not build the entries: the bodies of their loops add the sizes to
  \<open>total_bytes\<close>, which is None once a conversion has failed.
\<close>

definition alias_length_step :: "system \<Rightarrow> bool \<Rightarrow> ulong \<Rightarrow> wstring \<times> wstring \<Rightarrow> nat option \<Rightarrow> nat option" where
  "alias_length_step sys unicode cp e total_bytes =
    (case total_bytes of
       None \<Rightarrow> None
     | Some n \<Rightarrow>
         let (source, target) = e; source_bytes = length (sys_encode sys cp source); target_bytes = length (sys_encode sys cp target)
         in if unicode then Some (n + (length source + 1 + length target + 1) * 2)
            else if length source > 0x7FFFFFFF \<or> length target > 0x7FFFFFFF then None
            else if source_bytes = 0 then None
            else if target_bytes = 0 then None
            else Some (n + source_bytes + 1 + target_bytes + 1))"

definition exe_length_step :: "system \<Rightarrow> bool \<Rightarrow> ulong \<Rightarrow> wstring \<Rightarrow> nat option \<Rightarrow> nat option" where
  "exe_length_step sys unicode cp exe_name total_bytes =
    (case total_bytes of
       None \<Rightarrow> None
     | Some n \<Rightarrow>
         if unicode then Some (n + (length exe_name + 1) * 2)
         else if length exe_name > 0x7FFFFFFF then None
         else if sys_encode sys cp exe_name = [] then None
         else Some (n + (length (sys_encode sys cp exe_name) + 1)))"

definition command_length_step :: "system \<Rightarrow> bool \<Rightarrow> ulong \<Rightarrow> wstring \<Rightarrow> nat option \<Rightarrow> nat option" where
  "command_length_step sys unicode cp command length_bytes =
    (case length_bytes of
       None \<Rightarrow> None
     | Some n \<Rightarrow>
         if unicode then Some (n + (length command + 1) * 2)
         else if sys_encode sys cp command = [] then None
         else Some (n + (length (sys_encode sys cp command) + 1)))"

text \<open>Entries are stored one behind the other until one has no room or no encoding.\<close>

fun store_listing :: "byte list option list \<Rightarrow> nat \<Rightarrow> byte list \<Rightarrow> (ulong \<times> nat) \<times> byte list" where
  "store_listing [] written out = ((status_success, written), out)"
| "store_listing (None # es) written out = ((status_invalid_parameter, 0), out)"
| "store_listing (Some bs # es) written out =
    (if length out - written < length bs then ((status_buffer_too_small, 0), out)
     else store_listing es (written + length bs) (take written out @ bs @ drop (written + length bs) out))"

definition length_answer :: "nat option \<Rightarrow> response" where
  "length_answer total_bytes =
    (case total_bytes of
       None \<Rightarrow> respond_with status_invalid_parameter (NumberBody 0)
     | Some n \<Rightarrow> respond_with status_success (NumberBody (of_nat (min n 0xFFFFFFFF))))"

definition listing_answer :: "byte list option list \<Rightarrow> byte list \<Rightarrow> response" where
  "listing_answer es out =
    (let ((status, written), out) = store_listing es 0 out; n = min written 0xFFFFFFFF
     in (respond status n)\<lparr>re_body := NumberBody (of_nat n), re_output := out\<rparr>)"

section \<open>Aliases\<close>

abbreviation text_page :: "Server \<Rightarrow> ulong" where
  "text_page sv \<equiv> ss_output_code_page (sv_state sv)"

text \<open>The lengths are 16-bit fields of the message.\<close>

definition add_alias ::
    "system \<Rightarrow> bool \<Rightarrow> bool \<Rightarrow> bool \<Rightarrow> bool \<Rightarrow> ushort \<Rightarrow> ushort \<Rightarrow> ushort \<Rightarrow> byte list \<Rightarrow> Server \<Rightarrow> response \<times> Server" where
  "add_alias sys mem_ok table_ok entry_ok unicode exe_length source_length target_length input sv =
    (let a = unat exe_length; b = unat source_length; c = unat target_length; decode = message_string sys mem_ok unicode (text_page sv);
         refuse = (\<lambda>status. (respond status 0, sv))
     in if a + b + c > length input \<or> unicode \<and> (a mod 2 \<noteq> 0 \<or> b mod 2 \<noteq> 0 \<or> c mod 2 \<noteq> 0) then refuse status_invalid_parameter
        else case decode (take a input) of Inl status \<Rightarrow> refuse status | Inr exe \<Rightarrow>
          (case decode (take b (drop a input)) of Inl status \<Rightarrow> refuse status | Inr source \<Rightarrow>
            (case decode (take c (drop (a + b) input)) of Inl status \<Rightarrow> refuse status | Inr target \<Rightarrow>
              if source = [] then refuse status_invalid_parameter
              else case fold_to_lower_invariant sys exe of Inl status \<Rightarrow> refuse status | Inr exe \<Rightarrow>
                (case fold_to_lower_invariant sys source of Inl status \<Rightarrow> refuse status | Inr source \<Rightarrow>
                  (case set_alias table_ok entry_ok exe source target (sv_state sv) of
                     (Some e, s) \<Rightarrow> (respond (if dce_win32_error e = 14 then status_no_memory else status_unsuccessful) 0, sv\<lparr>sv_state := s\<rparr>)
                   | (None, s) \<Rightarrow> (respond status_success 0, sv\<lparr>sv_state := s\<rparr>))))))"

text \<open>The target found, with its terminator, in the output; the length field has 16 bits.\<close>

definition alias_answer :: "system \<Rightarrow> bool \<Rightarrow> ulong \<Rightarrow> wstring \<Rightarrow> byte list \<Rightarrow> response" where
  "alias_answer sys unicode cp target out =
    (let refused = (respond_with status_invalid_parameter (NumberBody 0))\<lparr>re_output := out\<rparr>
     in case list_string sys unicode cp target of
          None \<Rightarrow> refused
        | Some bytes \<Rightarrow>
            let stored = bytes @ list_char unicode 0; required = length stored
            in if required > 0xFFFF then refused
               else if length out < required
               then (respond status_buffer_too_small required)\<lparr>re_body := NumberBody (of_nat required), re_output := out\<rparr>
               else (respond status_success required)\<lparr>re_body := NumberBody (of_nat required), re_output := store_front stored out\<rparr>)"

definition get_alias ::
    "system \<Rightarrow> bool \<Rightarrow> bool \<Rightarrow> ushort \<Rightarrow> ushort \<Rightarrow> byte list \<Rightarrow> byte list \<Rightarrow> Server \<Rightarrow> response \<times> Server" where
  "get_alias sys mem_ok unicode exe_length source_length input out sv =
    (let a = unat exe_length; b = unat source_length; decode = message_string sys mem_ok unicode (text_page sv);
         refuse = (\<lambda>status. (respond_with status (NumberBody 0), sv))
     in if a + b > length input \<or> unicode \<and> (a mod 2 \<noteq> 0 \<or> b mod 2 \<noteq> 0) then refuse status_invalid_parameter
        else case decode (take a input) of Inl status \<Rightarrow> refuse status | Inr exe \<Rightarrow>
          (case decode (take b (drop a input)) of Inl status \<Rightarrow> refuse status | Inr source \<Rightarrow>
            (case fold_to_lower_invariant sys exe of Inl status \<Rightarrow> refuse status | Inr exe \<Rightarrow>
              (case fold_to_lower_invariant sys source of Inl status \<Rightarrow> refuse status | Inr source \<Rightarrow>
                (case try_get_alias exe source (sv_state sv) of
                   None \<Rightarrow> refuse status_unsuccessful
                 | Some target \<Rightarrow> (alias_answer sys unicode (text_page sv) target out, sv))))))"

text \<open>The name of the executable in the two requests for its aliases.\<close>

definition with_alias_exe ::
    "system \<Rightarrow> bool \<Rightarrow> bool \<Rightarrow> byte list \<Rightarrow> (wstring \<Rightarrow> response) \<Rightarrow> Server \<Rightarrow> response \<times> Server" where
  "with_alias_exe sys mem_ok unicode input f sv =
    (case message_string sys mem_ok unicode (text_page sv) input of
       Inl status \<Rightarrow> (respond_with status (NumberBody 0), sv)
     | Inr exe \<Rightarrow>
         (case fold_to_lower_invariant sys exe of
            Inl status \<Rightarrow> (respond_with status (NumberBody 0), sv)
          | Inr exe \<Rightarrow> (f exe, sv)))"

definition get_aliases_length :: "system \<Rightarrow> bool \<Rightarrow> bool \<Rightarrow> byte list \<Rightarrow> Server \<Rightarrow> response \<times> Server" where
  "get_aliases_length sys mem_ok unicode input sv =
    with_alias_exe sys mem_ok unicode input
      (\<lambda>exe. length_answer (fold (alias_length_step sys unicode (text_page sv)) (aliases_of exe (sv_state sv)) (Some 0))) sv"

definition get_aliases :: "system \<Rightarrow> bool \<Rightarrow> bool \<Rightarrow> byte list \<Rightarrow> byte list \<Rightarrow> Server \<Rightarrow> response \<times> Server" where
  "get_aliases sys mem_ok unicode input out sv =
    with_alias_exe sys mem_ok unicode input
      (\<lambda>exe. listing_answer (map (alias_entry sys unicode (text_page sv)) (aliases_of exe (sv_state sv))) out) sv"

definition get_alias_exes_length :: "system \<Rightarrow> bool \<Rightarrow> Server \<Rightarrow> response \<times> Server" where
  "get_alias_exes_length sys unicode sv =
    (length_answer (fold (exe_length_step sys unicode (text_page sv)) (alias_exes (sv_state sv)) (Some 0)), sv)"

definition get_alias_exes :: "system \<Rightarrow> bool \<Rightarrow> byte list \<Rightarrow> Server \<Rightarrow> response \<times> Server" where
  "get_alias_exes sys unicode out sv = (listing_answer (map (name_entry sys unicode (text_page sv)) (alias_exes (sv_state sv))) out, sv)"

section \<open>Histories\<close>

definition get_history :: "Server \<Rightarrow> response \<times> Server" where
  "get_history sv =
    (let s = sv_state sv
     in (respond_with status_success (HistoryBody (ss_history_buffer_size s) (ss_history_buffer_count s) (ss_history_flags s)), sv))"

definition set_history :: "ulong \<Rightarrow> ulong \<Rightarrow> ulong \<Rightarrow> Server \<Rightarrow> response \<times> Server" where
  "set_history buffer_size buffer_count flags sv =
    (respond status_success 0, on_state (set_history_info buffer_size buffer_count flags) sv)"

text \<open>The requests that name an executable drop the zeros at the end of the name.\<close>

definition with_exe_name :: "system \<Rightarrow> bool \<Rightarrow> bool \<Rightarrow> byte list \<Rightarrow> (wstring \<Rightarrow> Server \<Rightarrow> response \<times> Server) \<Rightarrow> Server \<Rightarrow> response \<times> Server" where
  "with_exe_name sys mem_ok unicode input f sv =
    (case message_string sys mem_ok unicode (text_page sv) input of
       Inl status \<Rightarrow> (respond status 0, sv)
     | Inr exe \<Rightarrow> f (drop_final_nulls exe) sv)"

definition expunge_history :: "system \<Rightarrow> bool \<Rightarrow> bool \<Rightarrow> byte list \<Rightarrow> Server \<Rightarrow> response \<times> Server" where
  "expunge_history sys mem_ok unicode input =
    with_exe_name sys mem_ok unicode input (\<lambda>exe sv. (respond status_success 0, on_state (expunge_command_history (sys_same_name sys) exe) sv))"

definition set_number_of_commands :: "system \<Rightarrow> bool \<Rightarrow> bool \<Rightarrow> ulong \<Rightarrow> byte list \<Rightarrow> Server \<Rightarrow> response \<times> Server" where
  "set_number_of_commands sys mem_ok unicode n input =
    with_exe_name sys mem_ok unicode input (\<lambda>exe sv.
      (respond status_success 0, on_state (set_command_history_number_of_commands (sys_same_name sys) exe (unat n)) sv))"

definition history_commands :: "system \<Rightarrow> wstring \<Rightarrow> Server \<Rightarrow> wstring list" where
  "history_commands sys exe sv =
    (case find_by_exe (sys_same_name sys) exe (ss_command_histories (sv_state sv)) of None \<Rightarrow> [] | Some h \<Rightarrow> h_commands h)"

definition get_command_history_length :: "system \<Rightarrow> bool \<Rightarrow> bool \<Rightarrow> byte list \<Rightarrow> Server \<Rightarrow> response \<times> Server" where
  "get_command_history_length sys mem_ok unicode input =
    with_exe_name sys mem_ok unicode input (\<lambda>exe sv.
      (case fold (command_length_step sys unicode (text_page sv)) (history_commands sys exe sv) (Some 0) of
         None \<Rightarrow> respond status_invalid_parameter 0
       | Some n \<Rightarrow> if n > 0xFFFFFFFF then respond status_invalid_parameter 0 else respond_with status_success (NumberBody (of_nat n)), sv))"

definition get_command_history :: "system \<Rightarrow> bool \<Rightarrow> bool \<Rightarrow> byte list \<Rightarrow> byte list \<Rightarrow> Server \<Rightarrow> response \<times> Server" where
  "get_command_history sys mem_ok unicode input out =
    with_exe_name sys mem_ok unicode input (\<lambda>exe sv.
      (if unicode \<and> length out mod 2 \<noteq> 0 then (respond status_invalid_parameter 0)\<lparr>re_output := out\<rparr>
       else
         let ((status, written), stored) = store_listing (map (command_entry sys unicode (text_page sv)) (history_commands sys exe sv)) 0 out
         in if written > 0xFFFFFFFF then (respond status_invalid_parameter 0)\<lparr>re_output := stored\<rparr>
            else (respond status written)\<lparr>re_body := (if status = status_success then NumberBody (of_nat written) else NoBody), re_output := stored\<rparr>,
       sv))"

section \<open>Every request keeps the server well-formed\<close>

lemma add_alias_keeps: "handler_safe (add_alias sys m t e u x y z input)"
proof (rule keepsI)
  fix sv assume inv: "server_inv sv"
  then have "server_ok s" if "set_alias t e exe source target (sv_state sv) = (r, s)" for exe source target r s
    using set_alias_server_ok [of "sv_state sv" t e exe source target] that by (simp add: server_inv_def)
  then show "server_inv (snd (add_alias sys m t e u x y z input sv))"
    using inv by (auto simp: add_alias_def Let_def server_inv_state split: sum.split prod.split option.split)
qed

lemma alias_queries_keep:
  "handler_safe (get_alias sys m u x y input out)" "handler_safe (get_aliases_length sys m u input)" "handler_safe (get_aliases sys m u input out)"
  "handler_safe (get_alias_exes_length sys u)" "handler_safe (get_alias_exes sys u out)" "handler_safe get_history"
  by (rule unchanged_keeps;
      simp add: get_alias_def get_aliases_length_def get_aliases_def with_alias_exe_def get_alias_exes_length_def get_alias_exes_def
        get_history_def Let_def split: sum.split option.split)+

lemma history_requests_keep:
  "handler_safe (set_history a b c)" "handler_safe (expunge_history sys m u input)" "handler_safe (set_number_of_commands sys m u n input)"
  "handler_safe (get_command_history_length sys m u input)" "handler_safe (get_command_history sys m u input out)"
  by (rule keepsI;
      simp add: set_history_def expunge_history_def set_number_of_commands_def get_command_history_length_def get_command_history_def
        with_exe_name_def Let_def server_inv_def on_state_def set_history_info_ok expunge_command_history_def
        set_command_history_number_of_commands_def server_ok_pool_ops split: sum.split)+

section \<open>Lengths and listings agree\<close>









section \<open>Aliases read back\<close>

text \<open>Unicode messages: the strings one behind the other.\<close>

definition message_bytes :: "wstring \<Rightarrow> byte list" where
  "message_bytes us = concat (map wchar_bytes us)"

lemma message_bytes_simps [simp]:
  "length (message_bytes us) = 2 * length us" "units_of (message_bytes us) = us"
  "message_string sys True True cp (message_bytes us) = Inr us"
  by (simp_all add: message_bytes_def) (simp add: message_string_def decode_console_string_def message_bytes_def [symmetric],
      simp add: message_bytes_def)

lemma unat_field: "n < 65536 \<Longrightarrow> unat (of_nat n :: ushort) = n"
  by (simp add: unsigned_of_nat take_bit_nat_eq_self)

text \<open>An alias that can be stored: its names fold to something and fit their fields.\<close>

definition alias_ready :: "system \<Rightarrow> wstring \<Rightarrow> wstring \<Rightarrow> wstring \<Rightarrow> wstring \<Rightarrow> wstring \<Rightarrow> bool" where
  "alias_ready sys exe source target exe_key source_key \<longleftrightarrow>
    source \<noteq> [] \<and> target \<noteq> [] \<and> source_key \<noteq> []
    \<and> fold_to_lower_invariant sys exe = Inr exe_key \<and> fold_to_lower_invariant sys source = Inr source_key
    \<and> 2 * length exe < 65536 \<and> 2 * length source < 65536 \<and> 2 * length target < 65536"

abbreviation field :: "wstring \<Rightarrow> ushort" where
  "field us \<equiv> of_nat (2 * length us)"

lemma add_alias_stores:
  assumes "alias_ready sys exe source target exe_key source_key" and "aliases_ok (sv_state sv)"
  shows "fst (add_alias sys True True True True (field exe) (field source) (field target)
      (message_bytes exe @ message_bytes source @ message_bytes target) sv) = respond status_success 0"
    and "try_get_alias exe_key source_key (sv_state (snd (add_alias sys True True True True (field exe) (field source) (field target)
      (message_bytes exe @ message_bytes source @ message_bytes target) sv))) = Some target"
proof -
  have ready: "source \<noteq> []" "target \<noteq> []" "source_key \<noteq> []" "fold_to_lower_invariant sys exe = Inr exe_key"
    "fold_to_lower_invariant sys source = Inr source_key"
    using assms(1) by (simp_all add: alias_ready_def)
  have n: "unat (field exe) = 2 * length exe" "unat (field source) = 2 * length source" "unat (field target) = 2 * length target"
    using assms(1) by (auto simp: alias_ready_def simp del: of_nat_mult intro!: unat_field)
  obtain s where s: "set_alias True True exe_key source_key target (sv_state sv) = (None, s)"
    using ready(2,3) by (fastforce simp: set_alias_def Let_def split: option.splits)
  have "alias_lookup s (exe_key, source_key) = Some target"
    using alias_step_lookup [OF assms(2), of AliasStored exe_key source_key target] s ready(2,3) by (simp add: alias_effect_def alias_step_def)
  moreover have "add_alias sys True True True True (field exe) (field source) (field target)
      (message_bytes exe @ message_bytes source @ message_bytes target) sv = (respond status_success 0, sv\<lparr>sv_state := s\<rparr>)"
    unfolding add_alias_def n Let_def using ready s by simp
  ultimately show "fst (add_alias sys True True True True (field exe) (field source) (field target)
      (message_bytes exe @ message_bytes source @ message_bytes target) sv) = respond status_success 0"
    and "try_get_alias exe_key source_key (sv_state (snd (add_alias sys True True True True (field exe) (field source) (field target)
      (message_bytes exe @ message_bytes source @ message_bytes target) sv))) = Some target"
    by simp_all
qed

lemma get_alias_finds:
  assumes "alias_ready sys exe source target exe_key source_key" and "try_get_alias exe_key source_key (sv_state sv) = Some target"
  shows "fst (get_alias sys True True (field exe) (field source) (message_bytes exe @ message_bytes source) out sv)
    = alias_answer sys True (text_page sv) target out"
proof -
  have n: "unat (field exe) = 2 * length exe" "unat (field source) = 2 * length source"
    using assms(1) by (auto simp: alias_ready_def simp del: of_nat_mult intro!: unat_field)
  show ?thesis unfolding get_alias_def n Let_def using assms by (simp add: alias_ready_def)
qed

text \<open>
  C11. An alias with a target of fewer than 32767 units is read back: after a successful Unicode
  \<open>AddConsoleAlias\<close>, \<open>GetConsoleAlias\<close> with the same names answers with exactly the target and a
  terminating zero whenever the output has room for them, and with the size that is needed when it has not.
\<close>

theorem alias_read_back:
  assumes "alias_ready sys exe source target exe_key source_key" and "aliases_ok (sv_state sv)" and "length target < 32767"
    and "snd (add_alias sys True True True True (field exe) (field source) (field target)
      (message_bytes exe @ message_bytes source @ message_bytes target) sv) = sv'"
    and "fst (get_alias sys True True (field exe) (field source) (message_bytes exe @ message_bytes source) out sv') = re"
  shows "if 2 * length target + 2 \<le> length out
    then re_answer re = Answer status_success (2 * length target + 2)
      \<and> re_output re = message_bytes (target @ [0]) @ drop (2 * length target + 2) out
    else re_answer re = Answer status_buffer_too_small (2 * length target + 2)"
proof -
  have "re = alias_answer sys True (text_page sv') target out"
    using get_alias_finds [OF assms(1), of sv' out] add_alias_stores(2) [OF assms(1,2)] assms(4,5) by simp
  moreover have "list_char True 0 = [0, 0]" by (simp add: list_char_def wchar_bytes_def)
  ultimately show ?thesis
    using assms(3)
    by (auto simp: alias_answer_def Let_def list_string_def respond_def store_front_def message_bytes_def wchar_bytes_def)
qed

text \<open>
  The longest alias cannot be read: a target of 32767 units, the longest that fits the 16-bit length
  field of \<open>AddConsoleAlias\<close>, is stored, but its size with the terminator does not fit the field of
  the answer, and \<open>GetConsoleAlias\<close> refuses it whatever the output is.
\<close>

theorem longest_alias_unreadable:
  assumes "alias_ready sys exe source target exe_key source_key" and "aliases_ok (sv_state sv)" and "length target = 32767"
    and "add_alias sys True True True True (field exe) (field source) (field target)
      (message_bytes exe @ message_bytes source @ message_bytes target) sv = (added, sv')"
  shows "re_answer added = Answer status_success 0
    \<and> re_answer (fst (get_alias sys True True (field exe) (field source) (message_bytes exe @ message_bytes source) out sv'))
        = Answer status_invalid_parameter 0"
proof -
  have "added = respond status_success 0" "try_get_alias exe_key source_key (sv_state sv') = Some target"
    using add_alias_stores [OF assms(1,2)] assms(4) by simp_all
  moreover have "list_char True 0 = [0, 0]" by (simp add: list_char_def wchar_bytes_def)
  ultimately show ?thesis
    using get_alias_finds [OF assms(1), of sv' out] assms(3)
    by (simp add: alias_answer_def Let_def list_string_def respond_def respond_with_def)
qed

section \<open>Witnesses\<close>

lemma one_client_aliases: "aliases_ok (sv_state one_client)"
  using one_client_inv by (simp add: server_inv_def server_ok_def)

lemma ready_alias:
  "target \<noteq> [] \<Longrightarrow> 2 * length target < 65536 \<Longrightarrow> alias_ready plain_system [0x63] [0x6C] target [0x63] [0x6C]"
  by (simp add: alias_ready_def fold_to_lower_invariant_def plain_system_def drop_final_null_def)

theorem alias_read_back_witness:
  "re_output (fst (get_alias plain_system True True 2 2 [0x63, 0, 0x6C, 0] [9, 9, 9, 9, 9]
     (snd (add_alias plain_system True True True True 2 2 2 [0x63, 0, 0x6C, 0, 0x64, 0] one_client)))) = [0x64, 0, 0, 0, 9]"
  using alias_read_back [OF ready_alias [of "[0x64]"] one_client_aliases _ refl refl, of "[9, 9, 9, 9, 9]"]
  by (simp add: message_bytes_def wchar_bytes_def)

theorem longest_alias_unreadable_witness:
  "re_answer (fst (get_alias plain_system True True (field [0x63]) (field [0x6C]) (message_bytes [0x63] @ message_bytes [0x6C]) []
     (snd (add_alias plain_system True True True True (field [0x63]) (field [0x6C]) (field (replicate 32767 0x64))
       (message_bytes [0x63] @ message_bytes [0x6C] @ message_bytes (replicate 32767 0x64)) one_client)))) = Answer status_invalid_parameter 0"
proof -
  have "alias_ready plain_system [0x63] [0x6C] (replicate 32767 0x64) [0x63] [0x6C]" by (rule ready_alias) simp_all
  from longest_alias_unreadable [OF this one_client_aliases length_replicate prod.collapse [symmetric]] show ?thesis by blast
qed



end
