(* ===== verification/Dispatcher.thy ===== *)
theory Dispatcher
  imports Alias_Requests
begin

text \<open>
  The dispatcher (\<open>dispatch_message\<close> in \<open>condrv_server.hpp\<close>) sends a message to the handler of its kind. The
  theory states what holds for all of them: any sequence of requests keeps the server
  well-formed, and a handle that is not open gives nothing away.
\<close>

section \<open>Messages\<close>

text \<open>The user-defined messages, in the order in which the code tests for them, and the others.\<close>

datatype state_request =
    GetMode handle
  | SetMode handle ulong
  | GetCP bool
  | SetCP bool ulong
  | GenerateCtrlEvent ulong ulong
  | SetActiveScreenBuffer handle
  | GetTitle handle bool bool bool "byte list"
  | SetTitle handle bool bool bool "byte list"
  | GetNumberOfFonts
  | GetFontInfo handle "byte list"
  | GetFontSize handle ulong
  | GetCurrentFont handle CONSOLE_CURRENTFONT_MSG
  | SetKeyShortcuts bool byte
  | SetMenuClose bool
  | SetCursorMode bool bool
  | GetCursorMode
  | RegisterOS2 bool
  | SetOS2OemFormat bool
  | GetNlsMode
  | SetNlsMode ulong
  | SetCurrentFont handle CONSOLE_CURRENTFONT_MSG
  | GetDisplayMode
  | GetProcessList bool "byte list"
  | GetLangId ushort
  | GetConsoleWindow
  | GetKeyboardLayoutName "wstring option" bool
  | GetMouseInfo int
  | GetSelectionInfo

datatype list_request =
    AddAlias bool bool bool bool ushort ushort ushort "byte list"
  | GetAlias bool bool ushort ushort "byte list" "byte list"
  | GetAliasesLength bool bool "byte list"
  | GetAliases bool bool "byte list" "byte list"
  | GetAliasExesLength bool
  | GetAliasExes bool "byte list"
  | GetHistory
  | SetHistory ulong ulong ulong
  | ExpungeCommandHistory bool bool "byte list"
  | SetNumberOfCommands bool bool ulong "byte list"
  | GetCommandHistoryLength bool bool "byte list"
  | GetCommandHistory bool bool "byte list" "byte list"

datatype io_request =
    FlushInput handle
  | WriteConsoleInput handle bool bool bool bool bool "INPUT_RECORD list"
  | GetNumberOfInputEvents handle bool
  | GetConsoleInput handle ushort bool nat
  | ReadConsole handle read_call "byte list"
  | WriteConsole handle bool "nat \<Rightarrow> bool" bool bool "byte list"
  | RawFlush handle
  | RawWrite handle "nat \<Rightarrow> bool" bool bool "byte list"
  | RawRead handle "byte list"

datatype object_request =
    Connect connect_memory "64 word" "64 word" "(ushort \<times> wstring) option"
  | Disconnect handle
  | CreateObject allocation bool handle ulong ulong ulong
  | CloseObject handle

text \<open>\<open>Accepted\<close> stands for the messages that are answered with success and ignored, \<open>Unsupported\<close> for the rejected ones
  and \<open>Malformed\<close> for those whose descriptor is larger than the message.\<close>

datatype request =
    State state_request
  | Screen handle screen_request
  | Lists list_request
  | Io io_request
  | Object object_request
  | Accepted
  | Unsupported
  | Malformed

section \<open>The dispatcher\<close>

fun dispatch_state :: "system \<Rightarrow> state_request \<Rightarrow> Server \<Rightarrow> response \<times> Server" where
  "dispatch_state sys (GetMode h) = get_mode h"
| "dispatch_state sys (SetMode h m) = set_mode h m"
| "dispatch_state sys (GetCP b) = get_cp b"
| "dispatch_state sys (SetCP b cp) = set_cp b cp"
| "dispatch_state sys (GenerateCtrlEvent e g) = generate_ctrl_event e g"
| "dispatch_state sys (SetActiveScreenBuffer h) = set_active_request h"
| "dispatch_state sys (GetTitle h u orig m out) = get_title_request sys h u orig m out"
| "dispatch_state sys (SetTitle h u m c input) = set_title_request sys h u m c input"
| "dispatch_state sys GetNumberOfFonts = Pair (respond_with status_success (NumberBody 1))"
| "dispatch_state sys (GetFontInfo h out) = get_font_info h out"
| "dispatch_state sys (GetFontSize h n) = get_font_size h n"
| "dispatch_state sys (GetCurrentFont h msg) = get_current_font h msg"
| "dispatch_state sys (SetKeyShortcuts b k) = set_key_shortcuts b k"
| "dispatch_state sys (SetMenuClose b) = set_menu_close b"
| "dispatch_state sys (SetCursorMode b d) = set_cursor_mode b d"
| "dispatch_state sys GetCursorMode = get_cursor_mode"
| "dispatch_state sys (RegisterOS2 b) = register_os2 b"
| "dispatch_state sys (SetOS2OemFormat b) = set_os2_oem_format b"
| "dispatch_state sys GetNlsMode = get_nls_mode"
| "dispatch_state sys (SetNlsMode m) = set_nls_mode m"
| "dispatch_state sys (SetCurrentFont h msg) = set_current_font h msg"
| "dispatch_state sys GetDisplayMode = Pair (respond_with status_success (NumberBody 0))"
| "dispatch_state sys (GetProcessList m out) = get_process_list m out"
| "dispatch_state sys (GetLangId lang) = get_lang_id lang"
| "dispatch_state sys GetConsoleWindow = Pair (respond_with status_success (NumberBody 0))"
| "dispatch_state sys (GetKeyboardLayoutName name ansi) = get_keyboard_layout_name name ansi"
| "dispatch_state sys (GetMouseInfo buttons) = get_mouse_info buttons"
| "dispatch_state sys GetSelectionInfo = Pair (respond_with status_success NoBody)"

fun dispatch_list :: "system \<Rightarrow> list_request \<Rightarrow> Server \<Rightarrow> response \<times> Server" where
  "dispatch_list sys (AddAlias m t e u a b c input) = add_alias sys m t e u a b c input"
| "dispatch_list sys (GetAlias m u a b input out) = get_alias sys m u a b input out"
| "dispatch_list sys (GetAliasesLength m u input) = get_aliases_length sys m u input"
| "dispatch_list sys (GetAliases m u input out) = get_aliases sys m u input out"
| "dispatch_list sys (GetAliasExesLength u) = get_alias_exes_length sys u"
| "dispatch_list sys (GetAliasExes u out) = get_alias_exes sys u out"
| "dispatch_list sys GetHistory = get_history"
| "dispatch_list sys (SetHistory a b c) = set_history a b c"
| "dispatch_list sys (ExpungeCommandHistory m u input) = expunge_history sys m u input"
| "dispatch_list sys (SetNumberOfCommands m u n input) = set_number_of_commands sys m u n input"
| "dispatch_list sys (GetCommandHistoryLength m u input) = get_command_history_length sys m u input"
| "dispatch_list sys (GetCommandHistory m u input out) = get_command_history sys m u input out"

fun dispatch_io :: "system \<Rightarrow> io_request \<Rightarrow> Server \<Rightarrow> response \<times> Server" where
  "dispatch_io sys (FlushInput h) = flush_input h"
| "dispatch_io sys (WriteConsoleInput h u keep ragged m q rs) = write_console_input sys h u keep ragged m q rs"
| "dispatch_io sys (GetNumberOfInputEvents h m) = number_of_events sys h m"
| "dispatch_io sys (GetConsoleInput h flags u n) = get_input_records sys h flags u n"
| "dispatch_io sys (ReadConsole h rc out) = read_console sys h rc out"
| "dispatch_io sys (WriteConsole h u mem t m input) = write_console sys h u mem t m input"
| "dispatch_io sys (RawFlush h) = flush_input h"
| "dispatch_io sys (RawWrite h mem t m input) = raw_write sys h mem t m input"
| "dispatch_io sys (RawRead h out) = raw_read_request sys h out"

fun dispatch_object :: "system \<Rightarrow> object_request \<Rightarrow> Server \<Rightarrow> response \<times> Server" where
  "dispatch_object sys (Connect mem p obj msg) = connect sys mem p obj msg"
| "dispatch_object sys (Disconnect p) = disconnect p"
| "dispatch_object sys (CreateObject alloc m p t a sh) = create_object_request alloc m p t a sh"
| "dispatch_object sys (CloseObject h) = close_object_request h"

fun dispatch :: "system \<Rightarrow> request \<Rightarrow> Server \<Rightarrow> response \<times> Server" where
  "dispatch sys (State r) = dispatch_state sys r"
| "dispatch sys (Screen h r) = screen_request h r"
| "dispatch sys (Lists r) = dispatch_list sys r"
| "dispatch sys (Io r) = dispatch_io sys r"
| "dispatch sys (Object r) = dispatch_object sys r"
| "dispatch sys Accepted = Pair (respond status_success 0)"
| "dispatch sys Unsupported = Pair (respond status_not_implemented 0)"
| "dispatch sys Malformed = Pair (respond status_invalid_parameter 0)"

section \<open>Any sequence of requests\<close>

text \<open>
  A request whose fields have the ranges of their types: coordinates are 16-bit, the name of a
  font has 32 units.
\<close>

definition request_ok :: "request \<Rightarrow> bool" where
  "request_ok r =
    (case r of Screen h q \<Rightarrow> coords_fit q | State (SetCurrentFont h msg) \<Rightarrow> length (fm_FaceName msg) = 32 | _ \<Rightarrow> True)"

lemma pair_keeps: "handler_safe (Pair re)"
  by (simp add: handler_safe_def)

lemma dispatch_state_keeps: "request_ok (State r) \<Longrightarrow> handler_safe (dispatch_state sys r)"
  by (cases r)
    (simp_all add: request_ok_def mode_requests_keep set_active_request_keeps generate_ctrl_event_keeps title_requests_keep pair_keeps
      font_requests_keep set_current_font_keeps flag_requests_keep)

lemma dispatch_list_keeps: "handler_safe (dispatch_list sys r)"
  by (cases r) (simp_all add: add_alias_keeps alias_queries_keep history_requests_keep)

lemma dispatch_io_keeps: "handler_safe (dispatch_io sys r)"
  by (cases r) (simp_all add: input_requests_keep get_input_records_keeps read_console_keeps write_console_keeps raw_write_keeps raw_read_request_keeps)

lemma dispatch_object_keeps: "handler_safe (dispatch_object sys r)"
  by (cases r) (simp_all add: connect_keeps disconnect_keeps create_object_request_keeps close_object_request_keeps)

lemma dispatch_keeps: "request_ok r \<Longrightarrow> handler_safe (dispatch sys r)"
  by (cases r)
    (simp_all add: dispatch_state_keeps dispatch_list_keeps dispatch_io_keeps dispatch_object_keeps pair_keeps screen_request_keeps request_ok_def)

text \<open>
  The servers that a start, requests of clients and terminal input lead to. A request is one step, and so
  is a disconnect of the input, of which \<open>Input_Queue\<close> examines the single accesses.
\<close>

inductive reachable_server :: "system \<Rightarrow> Server \<Rightarrow> bool" for sys :: system where
  start: "queue_inv (ho_queue host) \<Longrightarrow> reachable_server sys \<lparr>sv_state = ServerState_ctor oem m f, sv_host = host, sv_output = []\<rparr>"
| request: "reachable_server sys sv \<Longrightarrow> request_ok r \<Longrightarrow> reachable_server sys (snd (dispatch sys r sv))"
| input: "reachable_server sys sv \<Longrightarrow> reachable_server sys (sv\<lparr>sv_host := inject_input_bytes mem_ok bytes (sv_host sv)\<rparr>)"
| gone: "reachable_server sys sv \<Longrightarrow> reachable_server sys (sv\<lparr>sv_host := (sv_host sv)\<lparr>ho_queue := mark_disconnected (ho_queue (sv_host sv))\<rparr>\<rparr>)"

lemma reachable_server_inv: "reachable_server sys sv \<Longrightarrow> server_inv sv"
proof (induction rule: reachable_server.induct)
  case (request sv r)
  then show ?case using dispatch_keeps keepsD by blast
next
  case (gone sv)
  then show ?case by (simp add: server_inv_def queue_inv_ops)
qed (simp_all add: inject_inv, simp add: server_inv_def server_ok_ctor)

lemma object_owner: "server_inv sv \<Longrightarrow> find_object h (sv_state sv) = Some ob \<Longrightarrow> has_process (ob_owning_process ob) (sv_state sv)"
  using find_object_ok by (auto simp: server_inv_def object_ok_def has_process_def map_of_None_keys)

lemma object_screen:
  assumes "server_inv sv" and "find_object h (sv_state sv) = Some ob" and "ob_screen_buffer ob = Some i"
  shows "i < length (ss_screens (sv_state sv))"
proof -
  have "object_ok (sv_state sv) ob" using assms find_object_ok by (simp add: server_inv_def)
  then show ?thesis using assms(3) by (simp add: object_ok_def screen_ref_def)
qed

text \<open>
  C1. Whatever clients send, and whichever allocations fail, the server stays well-formed: in
  every state it can reach, the invariant of its tables, histories, aliases, screen buffers and
  input holds; every open handle belongs to a connected process, and an output handle and the
  active buffer refer to screen buffers that exist.
\<close>

theorem server_runs_safely:
  assumes "reachable_server sys sv"
  shows "server_inv sv
    \<and> (\<forall>h ob. find_object h (sv_state sv) = Some ob \<longrightarrow>
        has_process (ob_owning_process ob) (sv_state sv)
        \<and> (\<forall>i. ob_screen_buffer ob = Some i \<longrightarrow> i < length (ss_screens (sv_state sv))))
    \<and> (\<forall>i. ss_active_screen_buffer (sv_state sv) = Some i \<longrightarrow> i < length (ss_screens (sv_state sv)))"
proof -
  have inv: "server_inv sv" by (rule reachable_server_inv [OF assms])
  then have "screen_ref (sv_state sv) (ss_active_screen_buffer (sv_state sv))"
    by (simp add: server_inv_def server_ok_def screens_ok_def)
  with inv object_owner [OF inv] object_screen [OF inv] show ?thesis by (auto simp: screen_ref_def)
qed

lemma one_client_reachable: "reachable_server plain_system one_client"
proof -
  have "queue_inv (ho_queue (queued []))" using queued_input(1) [of "[]"] by (simp add: input_inv_def)
  from reachable_server.request [OF reachable_server.start [OF this, of plain_system 437 True True],
      of "Object (Connect plenty 7 8 (Some (2, 99 # replicate 127 0)))"]
  show ?thesis
    by (simp add: request_ok_def connect_def application_name_def narrow_id_def plain_system_def fresh_connect [unfolded fresh_server_def]
        one_client_def fresh_server_def split: prod.split)
qed

theorem server_runs_safely_witness:
  "find_object 48 (sv_state one_client) = Some ((new_object K_output 0xC0000000 3 16)\<lparr>ob_screen_buffer := Some 0\<rparr>)
    \<and> has_process 16 (sv_state one_client) \<and> 0 < length (ss_screens (sv_state one_client))"
proof -
  from server_runs_safely [OF one_client_reachable] one_client_objects(1)
  have "let ob = (new_object K_output 0xC0000000 3 16)\<lparr>ob_screen_buffer := Some 0\<rparr>
    in has_process (ob_owning_process ob) (sv_state one_client) \<and> (\<forall>i. ob_screen_buffer ob = Some i \<longrightarrow> i < length (ss_screens (sv_state one_client)))"
    unfolding Let_def by blast
  then show ?thesis using one_client_objects(1) by (simp add: new_object_def)
qed

section \<open>Handles that are not open\<close>

text \<open>The handle of an object that a request names.\<close>

definition request_handle :: "request \<Rightarrow> handle option" where
  "request_handle r =
    (case r of
       Screen h q \<Rightarrow> Some h
     | State q \<Rightarrow> (case q of
         GetMode h \<Rightarrow> Some h | SetMode h m \<Rightarrow> Some h | SetActiveScreenBuffer h \<Rightarrow> Some h | GetTitle h u orig m out \<Rightarrow> Some h
       | SetTitle h u m c input \<Rightarrow> Some h | GetFontInfo h out \<Rightarrow> Some h | GetFontSize h n \<Rightarrow> Some h | GetCurrentFont h msg \<Rightarrow> Some h
       | SetCurrentFont h msg \<Rightarrow> Some h | _ \<Rightarrow> None)
     | Io q \<Rightarrow> (case q of
         FlushInput h \<Rightarrow> Some h | WriteConsoleInput h u keep ragged m q rs \<Rightarrow> Some h | GetNumberOfInputEvents h m \<Rightarrow> Some h
       | GetConsoleInput h flags u n \<Rightarrow> Some h | ReadConsole h rc out \<Rightarrow> Some h | WriteConsole h u mem t m input \<Rightarrow> Some h
       | RawFlush h \<Rightarrow> Some h | RawWrite h mem t m input \<Rightarrow> Some h | RawRead h out \<Rightarrow> Some h)
     | Object (CloseObject h) \<Rightarrow> Some h
     | _ \<Rightarrow> None)"

lemma guards_refuse:
  assumes "find_object h (sv_state sv) = None"
  shows "with_screen h f sv = (respond status_invalid_handle 0, sv)" "with_output h g sv = (respond status_invalid_handle 0, sv)"
    "with_input h g sv = (respond status_invalid_handle 0, sv)"
  using assms by (simp_all add: with_screen_def with_output_def with_input_def)

lemma close_refuses: "find_object h (sv_state sv) = None \<Longrightarrow> close_object_request h sv = (respond status_invalid_handle 0, sv)"
  by (simp add: close_object_request_def close_object_def find_object_def)

lemmas handle_request_defs =
  screen_request_def get_mode_def set_mode_def set_active_request_def get_title_request_def set_title_request_def get_font_info_def
  get_font_size_def get_current_font_def set_current_font_def flush_input_def write_console_input_def number_of_events_def
  get_input_records_def read_console_def write_console_def raw_write_def raw_read_request_def

lemma closed_handle_refused:
  assumes "request_handle r = Some h" and "find_object h (sv_state sv) = None"
  shows "dispatch sys r sv = (respond status_invalid_handle 0, sv)"
  using assms
  by (auto simp: request_handle_def handle_request_defs guards_refuse close_refuses
      split: request.splits state_request.splits io_request.splits object_request.splits)

text \<open>
  C3. Disconnecting takes a client's handles away. Once a process has disconnected, every request
  on a handle it had opened is answered with an invalid-handle status and changes nothing, while
  the handles of other processes stay open with the same objects.
\<close>

theorem disconnected_handles_refused:
  assumes "reachable_server sys sv" and "has_process p (sv_state sv)" and "find_object h (sv_state sv) = Some ob"
  defines "after \<equiv> snd (dispatch sys (Object (Disconnect p)) sv)"
  shows "(ob_owning_process ob = p \<longrightarrow>
      (\<forall>r. request_handle r = Some h \<longrightarrow> dispatch sys r after = (respond status_invalid_handle 0, after)))
    \<and> (ob_owning_process ob \<noteq> p \<longrightarrow> find_object h (sv_state after) = Some ob)"
proof -
  have "server_ok (sv_state sv)" using reachable_server_inv [OF assms(1)] by (simp add: server_inv_def)
  from disconnect_tables(2) [OF this assms(2), of h]
  have "find_object h (sv_state after) = (if ob_owning_process ob = p then None else Some ob)"
    by (simp add: after_def disconnect_def split_beta assms(3))
  then show ?thesis by (simp add: closed_handle_refused)
qed

theorem disconnected_handles_refused_witness:
  "re_answer (fst (dispatch plain_system (State (GetMode 32)) one_client)) = Answer status_success 0
    \<and> re_answer (fst (dispatch plain_system (State (GetMode 32)) (snd (dispatch plain_system (Object (Disconnect 16)) one_client))))
       = Answer status_invalid_handle 0"
proof -
  have "has_process 16 (sv_state one_client)"
    using object_owner [OF one_client_inv one_client_objects(2)] by (simp add: new_object_def)
  note refused = disconnected_handles_refused [OF one_client_reachable this one_client_objects(2), THEN conjunct1, rule_format]
  have "dispatch plain_system (State (GetMode 32)) (snd (dispatch plain_system (Object (Disconnect 16)) one_client))
      = (respond status_invalid_handle 0, snd (dispatch plain_system (Object (Disconnect 16)) one_client))"
    by (rule refused) (simp_all add: new_object_def request_handle_def)
  then show ?thesis by (simp add: get_mode_def one_client_objects respond_def respond_with_def)
qed

section \<open>An empty write\<close>

text \<open>
  C30. A wide-character write of no characters on a valid output handle ends the server: the
  conversion of an empty text gives no bytes, which the handler takes for a failure, and the error
  is returned to the loop that serves all clients. The same write through a byte interface
  succeeds.
\<close>

theorem empty_write_ends_server:
  assumes "find_object h (sv_state sv) = Some ob" and "ob_kind ob = K_output" and "ob_screen_buffer ob = Some i"
    and "sys_encode sys CP_UTF8 [] = []"
  shows "re_answer (fst (dispatch sys (Io (WriteConsole h True mem t True [])) sv))
      = Fatal (comm_error ''WideCharToMultiByte failed for console output'' (sys_last_error sys))
    \<and> re_answer (fst (dispatch sys (Io (WriteConsole h False mem t True [])) sv)) = Answer status_success 0"
  using assms
  by (simp add: write_console_def with_screen_def write_wide_def write_narrow_def decode_console_string_def fatal_def respond_def)

theorem empty_write_ends_server_witness:
  "re_answer (fst (dispatch plain_system (Io (WriteConsole 48 True (\<lambda>_. True) True True [])) one_client))
    = Fatal (comm_error ''WideCharToMultiByte failed for console output'' 87)"
  using empty_write_ends_server [OF one_client_objects(1), of 0 plain_system "\<lambda>_. True" True]
  by (simp add: plain_system_def new_object_def)

end
