(* ===== verification/Snapshot.thy ===== *)
theory Snapshot
  imports Screen_Cells
begin

text \<open>
  The picture of the window that the server publishes for the renderer (\<open>screen_buffer_snapshot.cpp\<close>,
  \<open>view/screen_buffer_snapshot.hpp\<close>): a copy of the viewport that does not share state with the screen buffer. The
  renderer is told when the revision of the buffer has changed, so every change that can be seen
  must change the revision.
\<close>

record ScreenBufferSnapshot =
  sn_revision :: "64 word"
  sn_window_rect :: SMALL_RECT
  sn_buffer_size :: COORD
  sn_cursor_position :: COORD
  sn_cursor_visible :: bool
  sn_cursor_size :: ulong
  sn_default_attributes :: ushort
  sn_color_table :: "ulong list"
  sn_viewport_size :: COORD
  sn_text :: wstring
  sn_attributes :: "ushort list"

text \<open>The product of two 16-bit extents never exceeds \<open>size_t\<close>, so the overflow check of the code cannot fail.\<close>

definition rect_dimensions :: "SMALL_RECT \<Rightarrow> nat \<times> nat" where
  "rect_dimensions rect =
    (let width = r_right rect - r_left rect + 1; height = r_bottom rect - r_top rect + 1
     in if width \<le> 0 \<or> height \<le> 0 then (0, 0) else (nat width, nat height))"

definition to_coord_saturating :: "nat \<Rightarrow> nat \<Rightarrow> COORD" where
  "to_coord_saturating width height = \<lparr>cx = int (min width 32767), cy = int (min height 32767)\<rparr>"

text \<open>One row of the viewport: what the buffer does not give is filled.\<close>

definition snapshot_row :: "(COORD \<Rightarrow> 'v list \<Rightarrow> ScreenBuffer \<Rightarrow> nat \<times> 'v list) \<Rightarrow> 'v \<Rightarrow> nat \<Rightarrow> ScreenBuffer \<Rightarrow> nat \<Rightarrow> 'v list" where
  "snapshot_row read filler width sb row =
    (let origin = \<lparr>cx = r_left (sb_window_rect sb), cy = to_short (r_top (sb_window_rect sb) + int row)\<rparr>;
         (n, cells) = read origin (replicate width filler) sb
     in take n cells @ replicate (width - n) filler)"

text \<open>\<open>None\<close> stands for a failed allocation.\<close>

definition make_viewport_snapshot :: "bool \<Rightarrow> ScreenBuffer \<Rightarrow> ScreenBufferSnapshot option" where
  "make_viewport_snapshot mem_ok sb =
    (if \<not> mem_ok then None
     else
       let (w, h) = rect_dimensions (sb_window_rect sb); rows = (if w = 0 then [] else [0..<h])
       in Some \<lparr>sn_revision = sb_revision sb, sn_window_rect = sb_window_rect sb, sn_buffer_size = sb_buffer_size sb,
                sn_cursor_position = sb_cursor_position sb, sn_cursor_visible = sb_cursor_visible sb, sn_cursor_size = sb_cursor_size sb,
                sn_default_attributes = sb_default_text_attributes sb, sn_color_table = sb_color_table sb,
                sn_viewport_size = to_coord_saturating w h,
                sn_text = concat (map (snapshot_row read_output_characters 0x20 w sb) rows),
                sn_attributes = concat (map (snapshot_row read_output_attributes (sb_default_text_attributes sb) w sb) rows)\<rparr>)"

section \<open>The snapshot shows the window\<close>

lemma concat_uniform:
  assumes "\<And>y. y < h \<Longrightarrow> length (f y) = w"
  shows "length (concat (map f [0..<h])) = h * w"
    and "x < w \<Longrightarrow> y < h \<Longrightarrow> concat (map f [0..<h]) ! (y * w + x) = f y ! x"
proof -
  show len: "length (concat (map f [0..<h])) = h * w" using assms by (induction h) simp_all
  show "concat (map f [0..<h]) ! (y * w + x) = f y ! x" if "x < w" "y < h"
    using that assms
  proof (induction h)
    case (Suc h)
    have len: "length (concat (map f [0..<h])) = h * w" using Suc.prems(3) by (induction h) simp_all
    have "y * w + x < h * w" if "y < h"
    proof -
      have "Suc y * w \<le> h * w" using that by (intro mult_le_mono1) simp
      then show ?thesis using Suc.prems(1) by simp
    qed
    then show ?case using Suc len by (cases "y = h") (simp_all add: nth_append)
  qed simp
qed

text \<open>A row of the window lies inside the buffer, so it is read completely.\<close>

lemma window_row:
  assumes "sb_ok sb" and "0 < cx (sb_buffer_size sb)" and "rect_dimensions (sb_window_rect sb) = (w, h)" and "row < h"
  shows "length (snapshot_row (read_run get) filler w sb row) = w"
    and "x < w \<Longrightarrow> snapshot_row (read_run get) filler w sb row ! x
      = get (sb_cells sb ! linear_index \<lparr>cx = r_left (sb_window_rect sb) + int x, cy = r_top (sb_window_rect sb) + int row\<rparr> sb)"
proof -
  let ?r = "sb_window_rect sb" and ?sz = "sb_buffer_size sb"
  let ?o = "\<lparr>cx = r_left ?r, cy = r_top ?r + int row\<rparr>"
  have win: "window_ok ?sz ?r" and sz: "0 < cy ?sz" "cy ?sz \<le> 32767" and cells: "length (sb_cells sb) = nat (cy ?sz) * nat (cx ?sz)"
    using assms(1,2) by (auto simp: sb_defs)
  then have wh: "int w = r_right ?r - r_left ?r + 1" "int h = r_bottom ?r - r_top ?r + 1"
    using assms(3,4) by (auto simp: rect_dimensions_def Let_def split: if_splits)
  have at: "0 \<le> r_left ?r" "r_left ?r + int w \<le> cx ?sz" "0 \<le> r_top ?r" "r_top ?r + int row < cy ?sz"
    using win wh assms(2,4) sz by (auto simp: window_ok_def in_extent_def)
  have short: "to_short (r_top ?r + int row) = r_top ?r + int row" using at sz by (simp add: to_short_id)
  have rng: "coord_in_range ?o sb" using at wh assms(2,4) win sz cells by (auto simp: coord_in_range_def window_ok_def)
  have row_end: "linear_index ?o sb + w \<le> length (sb_cells sb)"
  proof -
    have "nat (r_top ?r + int row) + 1 \<le> nat (cy ?sz)" using at by linarith
    then have "(nat (r_top ?r + int row) + 1) * nat (cx ?sz) \<le> nat (cy ?sz) * nat (cx ?sz)" by (rule mult_le_mono1)
    moreover have "nat (r_left ?r) + w \<le> nat (cx ?sz)" using at by linarith
    ultimately show ?thesis by (simp add: cells linear_index_def)
  qed
  have w: "0 < w" using wh win by (simp add: window_ok_def)
  have spec: "snapshot_row (read_run get) filler w sb row = map get (take w (drop (linear_index ?o sb) (sb_cells sb)))"
    using rng w row_end by (simp add: snapshot_row_def Let_def short read_run_spec)
  then show "length (snapshot_row (read_run get) filler w sb row) = w" using row_end by simp
  show "snapshot_row (read_run get) filler w sb row ! x
      = get (sb_cells sb ! linear_index \<lparr>cx = r_left ?r + int x, cy = r_top ?r + int row\<rparr> sb)" if "x < w"
    using that row_end at by (simp add: spec linear_index_def nat_add_distrib add.assoc)
qed

text \<open>
  C34. A snapshot shows the window of the screen buffer: it has the size of the window, and the
  character and the attributes at every position are those of the cell of the buffer that lies
  there.
\<close>

theorem snapshot_shows_window:
  assumes "sb_ok sb" and "0 < cx (sb_buffer_size sb)" and "make_viewport_snapshot True sb = Some sn"
  defines "r \<equiv> sb_window_rect sb"
  defines "w \<equiv> nat (r_right r - r_left r + 1)" and "h \<equiv> nat (r_bottom r - r_top r + 1)"
  shows "sn_viewport_size sn = \<lparr>cx = int w, cy = int h\<rparr> \<and> length (sn_text sn) = h * w \<and> length (sn_attributes sn) = h * w
    \<and> (\<forall>x < w. \<forall>y < h. let cell = sb_cells sb ! linear_index \<lparr>cx = r_left r + int x, cy = r_top r + int y\<rparr> sb
        in sn_text sn ! (y * w + x) = cell_character cell \<and> sn_attributes sn ! (y * w + x) = cell_attributes cell)"
proof -
  have win: "window_ok (sb_buffer_size sb) r" "cx (sb_buffer_size sb) \<le> 32767" "cy (sb_buffer_size sb) \<le> 32767"
    using assms(1) by (simp_all add: sb_ok_def size_ok_def r_def)
  then have dims: "rect_dimensions r = (w, h)" "0 < w" by (auto simp: rect_dimensions_def w_def h_def window_ok_def)
  have "w \<le> 32767" "h \<le> 32767" using win assms(2) by (auto simp: w_def h_def window_ok_def in_extent_def split: if_splits)
  then have vp: "to_coord_saturating w h = \<lparr>cx = int w, cy = int h\<rparr>" by (simp add: to_coord_saturating_def)
  note row = window_row [OF assms(1,2) dims(1) [unfolded r_def]]
  have sn: "sn_viewport_size sn = to_coord_saturating w h"
    "sn_text sn = concat (map (snapshot_row (read_run cell_character) 0x20 w sb) [0..<h])"
    "sn_attributes sn = concat (map (snapshot_row (read_run cell_attributes) (sb_default_text_attributes sb) w sb) [0..<h])"
    using assms(3) dims by (auto simp: make_viewport_snapshot_def Let_def r_def read_output_characters_def read_output_attributes_def)
  note chars = concat_uniform [of h "snapshot_row (read_run cell_character) 0x20 w sb" w, OF row(1)]
  note attributes = concat_uniform [of h "snapshot_row (read_run cell_attributes) (sb_default_text_attributes sb) w sb" w, OF row(1)]
  have "sn_text sn ! (y * w + x) = cell_character (sb_cells sb ! linear_index \<lparr>cx = r_left r + int x, cy = r_top r + int y\<rparr> sb)"
    "sn_attributes sn ! (y * w + x) = cell_attributes (sb_cells sb ! linear_index \<lparr>cx = r_left r + int x, cy = r_top r + int y\<rparr> sb)"
    if "x < w" "y < h" for x y
    using that by (simp_all only: sn chars(2) attributes(2) row(2) r_def)
  then show ?thesis by (simp only: sn(1) vp sn(2,3) [THEN arg_cong [where f = length]] chars(1) attributes(1) Let_def) simp
qed

theorem snapshot_shows_window_witness:
  "length (sn_text (the (make_viewport_snapshot True small_screen))) = 6"
proof -
  obtain sn where sn: "make_viewport_snapshot True small_screen = Some sn" by (auto simp: make_viewport_snapshot_def split_beta Let_def)
  have "sb_window_rect small_screen = \<lparr>r_left = 0, r_top = 0, r_right = 2, r_bottom = 1\<rparr>"
    by (simp add: small_screen_def ScreenBuffer_ctor_def default_settings_def Let_def fit_extent_def fit_origin_def to_short_def)
  then show ?thesis using snapshot_shows_window [OF small_screen_facts(1) _ sn] by (simp add: small_screen_facts sn)
qed

section \<open>Changes that can be seen\<close>

text \<open>What is displayed of a buffer, without the number of its revision.\<close>

definition displayed :: "ScreenBuffer \<Rightarrow> ScreenBufferSnapshot option" where
  "displayed sb = map_option (\<lambda>sn. sn\<lparr>sn_revision := 0\<rparr>) (make_viewport_snapshot True sb)"

lemma displayed_cong:
  assumes "sb_window_rect sb' = sb_window_rect sb" "sb_buffer_size sb' = sb_buffer_size sb" "sb_cursor_position sb' = sb_cursor_position sb"
    "sb_cursor_visible sb' = sb_cursor_visible sb" "sb_cursor_size sb' = sb_cursor_size sb"
    "sb_default_text_attributes sb' = sb_default_text_attributes sb" "sb_color_table sb' = sb_color_table sb" "sb_cells sb' = sb_cells sb"
  shows "displayed sb' = displayed sb"
proof -
  have "read_output_characters p d sb' = read_output_characters p d sb" "read_output_attributes p as sb' = read_output_attributes p as sb" for p d as
    unfolding read_run_def coord_in_range_def linear_index_def read_output_characters_def read_output_attributes_def assms by (rule refl)+
  then have "snapshot_row read_output_characters f w sb' = snapshot_row read_output_characters f w sb"
    "snapshot_row read_output_attributes a w sb' = snapshot_row read_output_attributes a w sb" for f a w
    by (simp_all add: fun_eq_iff snapshot_row_def assms(1))
  then show ?thesis using assms by (simp add: displayed_def make_viewport_snapshot_def split_beta Let_def)
qed

text \<open>How often a call counts the revision up; a call that does not leaves the display as it is.\<close>

definition counted :: "nat \<Rightarrow> nat \<Rightarrow> ScreenBuffer \<Rightarrow> ScreenBuffer \<Rightarrow> bool" where
  "counted least most sb sb' \<longleftrightarrow>
    (\<exists>k. least \<le> k \<and> k \<le> most \<and> sb_revision sb' = sb_revision sb + of_nat k \<and> (k = 0 \<longrightarrow> displayed sb' = displayed sb))"

text \<open>
  A call changes nothing that is displayed or counts up once; the position of a delayed wrap is
  the only member that is set without counting.
\<close>

lemma displayed_wrap: "displayed (sb\<lparr>sb_vt_delayed_wrap_position := q\<rparr>) = displayed sb"
  by (rule displayed_cong) simp_all

abbreviation unseen :: "ScreenBuffer \<Rightarrow> ScreenBuffer \<Rightarrow> bool" where
  "unseen sb sb' \<equiv> displayed sb' = displayed sb \<and> sb_revision sb' = sb_revision sb"

lemma run_once: "unseen sb (snd (write_run put limit origin sb)) \<or> sb_revision (snd (write_run put limit origin sb)) = sb_revision sb + 1"
  by (simp add: write_run_def split_beta Let_def touch_def)

lemma call_once: "screen_call sb sb' \<Longrightarrow> unseen sb sb' \<or> sb_revision sb' = sb_revision sb + 1"
  by (cases rule: screen_call.cases, assumption)
    (use run_once in \<open>auto simp: displayed_wrap set_window_rect_def set_window_size_def snap_window_to_cursor_def set_cursor_position_def set_text_attributes_def
      set_default_text_attributes_def set_cursor_info_def save_cursor_state_def set_vt_autowrap_enabled_def
      set_vt_delayed_wrap_position_def set_vt_origin_mode_enabled_def set_vt_insert_mode_enabled_def
      set_color_table_def set_vt_vertical_margins_def write_cell_def insert_cell_def fill_output_characters_def fill_output_attributes_def
      write_output_characters_def write_output_attributes_def write_output_ascii_def write_output_char_info_rect_def
      scroll_screen_buffer_def split_beta Let_def touch_def split: if_splits\<close>)

lemma counted_once: "unseen sb sb' \<or> sb_revision sb' = sb_revision sb + 1 \<Longrightarrow> counted 0 (Suc 0) sb sb'"
proof (elim disjE conjE)
  show "counted 0 (Suc 0) sb sb'" if "displayed sb' = displayed sb" "sb_revision sb' = sb_revision sb"
    unfolding counted_def by (rule exI [of _ 0]) (simp add: that)
  show "counted 0 (Suc 0) sb sb'" if "sb_revision sb' = sb_revision sb + 1"
    unfolding counted_def by (rule exI [of _ "Suc 0"]) (simp add: that)
qed

lemmas counted_call = counted_once [OF call_once]

lemma counted_mono: "counted l m sb sb' \<Longrightarrow> m \<le> m' \<Longrightarrow> counted l m' sb sb'"
  by (auto simp: counted_def intro: order_trans)

lemma counted_step:
  assumes "screen_step sb sb'"
  shows "counted 0 2 sb sb'"
  using assms
proof (cases rule: screen_step.cases)
  case step_call
  then show ?thesis by (auto intro: counted_mono [OF counted_call])
next
  case (step_resize sz mem_ok)
  have "counted 0 (Suc 0) (touch (resized sz sb)) (snap_window_to_cursor (touch (resized sz sb)))" by (rule counted_call [OF call_snap])
  moreover have "sb_revision (touch (resized sz sb)) = sb_revision sb + 1" by (simp add: touch_def resized_def Let_def)
  ultimately show ?thesis using step_resize
    by (auto simp: set_screen_buffer_size_def counted_def intro: exI [of _ 0] exI [of _ "Suc k" for k])
next
  case (step_alternate mem_ok e ch a)
  then have "unseen sb sb' \<or> sb_revision sb' = sb_revision sb + 1"
    by (auto simp: set_vt_using_alternate_screen_buffer_def restore_main_def touch_def split: option.splits if_splits)
  then have "counted 0 (Suc 0) sb sb'" by (rule counted_once)
  then show ?thesis by (rule counted_mono) simp
qed

lemma counted_trans: "counted l m sb sb' \<Longrightarrow> counted l' m' sb' sb'' \<Longrightarrow> counted (l + l') (m + m') sb sb''"
proof -
  assume "counted l m sb sb'" "counted l' m' sb' sb''"
  then obtain j k where jk: "l \<le> j" "j \<le> m" "sb_revision sb' = sb_revision sb + of_nat j" "j = 0 \<longrightarrow> displayed sb' = displayed sb"
    "l' \<le> k" "k \<le> m'" "sb_revision sb'' = sb_revision sb' + of_nat k" "k = 0 \<longrightarrow> displayed sb'' = displayed sb'"
    by (auto simp: counted_def)
  then show ?thesis unfolding counted_def by (intro exI [of _ "j + k"]) simp
qed

lemma counted_steps: "(screen_step ^^ n) sb sb' \<Longrightarrow> counted 0 (2 * n) sb sb'"
proof (induction n arbitrary: sb')
  case 0
  then show ?case by (auto simp: counted_def intro: exI [of _ 0])
next
  case (Suc n)
  then obtain mid where "(screen_step ^^ n) sb mid" "screen_step mid sb'" by auto
  then show ?case using Suc.IH counted_trans [OF _ counted_step, of 0 "2 * n" sb mid sb'] by simp
qed

text \<open>
  C35. The revision number tells the renderer when to repaint: over any sequence of fewer than
  \<open>2 ^ 63\<close> calls on a screen buffer, if the revision is the same at both ends then everything that is
  displayed is the same too.
\<close>

theorem revision_detects_change:
  assumes "(screen_step ^^ n) sb sb'" and "n < 2 ^ 63" and "sb_revision sb' = sb_revision sb"
  shows "displayed sb' = displayed sb"
proof -
  obtain k where k: "k \<le> 2 * n" "sb_revision sb' = sb_revision sb + of_nat k" "k = 0 \<longrightarrow> displayed sb' = displayed sb"
    using counted_steps [OF assms(1)] by (auto simp: counted_def)
  then have "of_nat k = (0 :: 64 word)" using assms(3) by simp
  then have "2 ^ 64 dvd k" by (simp add: word_of_nat_eq_0_iff)
  moreover have "k < 2 ^ 64" using k(1) assms(2) by simp
  ultimately have "k = 0" using nat_dvd_not_less by blast
  with k(3) show ?thesis by simp
qed

theorem revision_detects_change_witness:
  "displayed (snd (write_cell \<lparr>cx = 3, cy = 0\<rparr> 0x41 7 small_screen)) = displayed small_screen"
  by (rule revision_detects_change [of 1], simp only: relpowp_1, rule step_call, rule call_write_cell)
    (simp_all add: write_cell_def coord_in_range_def small_screen_facts)

end
