(* ===== verification/Server_Loop.thy ===== *)
theory Server_Loop
  imports Dispatcher Snapshot "HOL-Library.Multiset"
begin

text \<open>
  The loop of the server thread (\<open>condrv_server.cpp\<close>), with the wait queue of requests that cannot be
  answered yet, the reply that goes to the driver with the next read, and the thread that brings
  in terminal input and wakes the loop. The state machine has the steps of the server thread
  between its blocking calls and, in between, those of the two other threads. The thread that reads the
  terminal takes part between dispatches only: a dispatch is one step, although bytes may in fact arrive
  between two accesses of a handler to the queue.

  The driver is the environment: which message a read returns, whether a read that fails has taken
  the staged reply, and whether releasing the buffers of a message or completing it fails, are
  inputs of the model.
\<close>

section \<open>Messages and the state of the loop\<close>

record message =
  ms_identifier :: "64 word"
  ms_request :: request

text \<open>
  What the loop depends on: the system, the outcomes of the attempts to release the buffers of a
  message and to complete it (\<open>None\<close> is success), and whether there is a window to paint and memory
  for its snapshots.
\<close>

record environment =
  en_system :: system
  en_release :: "message \<Rightarrow> nat \<Rightarrow> ulong option"
  en_complete :: "message \<Rightarrow> nat \<Rightarrow> ulong option"
  en_windowed :: bool
  en_snapshot_ok :: bool

text \<open>Where the server thread is. \<open>Stuck\<close> is a thread that never returns from a handler.\<close>

datatype exit = NoClients | Signalled | PipeGone | Failed ulong | Stuck

datatype phase = AtTop | BeforeRead | InDriverRead | Exited exit

text \<open>\<open>sl_received\<close> and \<open>sl_answered\<close> record what has gone to and fro; \<open>sl_assertion\<close> is the \<open>OC_ASSERT\<close> of the code.\<close>

record ServerLoop =
  sl_server :: Server
  sl_pending_replies :: "message list"
  sl_pending_completion :: "(message \<times> answer) option"
  sl_has_pending_replies :: bool
  sl_exit_no_clients_requested :: bool
  sl_stop_requested :: bool
  sl_woken :: bool
  sl_published :: "ScreenBufferSnapshot option"
  sl_last_buffer :: "nat option"
  sl_last_revision :: "64 word"
  sl_phase :: phase
  sl_received :: "message list"
  sl_answered :: "(message \<times> answer) list"
  sl_assertion :: bool

section \<open>The parts of a turn\<close>

text \<open>
  \<open>release_message_buffers\<close> and \<open>complete_io_direct\<close>: a cancelled call is repeated, at most eight times.
\<close>

abbreviation ERROR_OPERATION_ABORTED :: ulong where "ERROR_OPERATION_ABORTED \<equiv> 995"
abbreviation ERROR_CANCELLED :: ulong where "ERROR_CANCELLED \<equiv> 1223"
abbreviation ERROR_GEN_FAILURE :: ulong where "ERROR_GEN_FAILURE \<equiv> 31"

function retried :: "(nat \<Rightarrow> ulong option) \<Rightarrow> nat \<Rightarrow> ulong option" where
  "retried outcome attempt =
    (case outcome attempt of
       None \<Rightarrow> None
     | Some e \<Rightarrow> if (e = ERROR_OPERATION_ABORTED \<or> e = ERROR_CANCELLED) \<and> attempt < 8 then retried outcome (attempt + 1) else Some e)"
  by auto

termination
  by (relation "measure (\<lambda>(outcome, attempt). 8 - attempt)") auto

declare retried.simps [simp del]

definition make_error :: "ulong \<Rightarrow> exit" where
  "make_error e = Failed (if e = 0 then ERROR_GEN_FAILURE else e)"

definition maybe_publish_snapshot :: "environment \<Rightarrow> ServerLoop \<Rightarrow> ServerLoop" where
  "maybe_publish_snapshot en sl =
    (if \<not> en_windowed en then sl
     else case ss_active_screen_buffer (sv_state (sl_server sl)) of
       None \<Rightarrow> sl
     | Some i \<Rightarrow>
         let buffer = ss_screens (sv_state (sl_server sl)) ! i
         in if sl_last_buffer sl = Some i \<and> sb_revision buffer = sl_last_revision sl then sl
            else case make_viewport_snapshot (en_snapshot_ok en) buffer of
              None \<Rightarrow> sl
            | Some sn \<Rightarrow> sl\<lparr>sl_published := Some sn, sl_last_buffer := Some i, sl_last_revision := sb_revision buffer\<rparr>)"

definition update_pending_flag :: "ServerLoop \<Rightarrow> ServerLoop" where
  "update_pending_flag sl = sl\<lparr>sl_has_pending_replies := (sl_pending_replies sl \<noteq> [])\<rparr>"

definition stop_with :: "exit \<Rightarrow> ServerLoop \<Rightarrow> ServerLoop" where
  "stop_with e sl = sl\<lparr>sl_phase := Exited e\<rparr>"

text \<open>\<open>Inl\<close> carries the error that ends the loop.\<close>

definition release_and_stage_completion :: "environment \<Rightarrow> message \<Rightarrow> answer \<Rightarrow> ServerLoop \<Rightarrow> exit option \<times> ServerLoop" where
  "release_and_stage_completion en m a sl =
    (let sl = sl\<lparr>sl_assertion := (sl_assertion sl \<and> sl_pending_completion sl = None)\<rparr>
     in case retried (en_release en m) 0 of
          Some e \<Rightarrow> (Some (make_error e), sl)
        | None \<Rightarrow> (None, sl\<lparr>sl_pending_completion := Some (m, a)\<rparr>))"

text \<open>The loop of \<open>service_pending_once\<close> over the messages that wait.\<close>

fun service_pass :: "environment \<Rightarrow> nat \<Rightarrow> ServerLoop \<Rightarrow> (exit + bool) \<times> ServerLoop" where
  "service_pass en 0 sl = (Inr False, sl)"
| "service_pass en (Suc n) sl =
    (case sl_pending_replies sl of
       [] \<Rightarrow> (Inr False, sl)
     | m # ms \<Rightarrow>
         let (re, sv) = dispatch (en_system en) (ms_request m) (sl_server sl);
             sl = sl\<lparr>sl_server := sv, sl_pending_replies := ms\<rparr>
         in case re_answer re of
              Fatal e \<Rightarrow> (Inl (make_error (dce_win32_error e)), sl)
            | NoReturn \<Rightarrow> (Inl Stuck, sl)
            | Held \<Rightarrow> service_pass en n (sl\<lparr>sl_pending_replies := ms @ [m]\<rparr>)
            | Answer status n \<Rightarrow>
                (case release_and_stage_completion en m (Answer status n) sl of
                   (Some e, sl) \<Rightarrow> (Inl e, sl)
                 | (None, sl) \<Rightarrow> (Inr True, sl)))"

definition service_pending_once :: "environment \<Rightarrow> ServerLoop \<Rightarrow> (exit + bool) \<times> ServerLoop" where
  "service_pending_once en sl =
    (if sl_pending_replies sl = [] \<or> sl_pending_completion sl \<noteq> None then (Inr False, update_pending_flag sl)
     else case service_pass en (length (sl_pending_replies sl)) sl of
            (Inl e, sl) \<Rightarrow> (Inl e, sl)
          | (Inr progress, sl) \<Rightarrow> (Inr progress, update_pending_flag sl))"

lemma service_pass_staged:
  "sl_pending_completion sl = None \<Longrightarrow> fst (service_pass en n sl) = Inr True \<Longrightarrow> sl_pending_completion (snd (service_pass en n sl)) \<noteq> None"
  by (induction en n sl rule: service_pass.induct)
    (auto simp: release_and_stage_completion_def Let_def split: list.splits answer.splits prod.splits option.splits)

lemma service_once_staged:
  assumes "service_pending_once en sl = (Inr True, sl')"
  shows "sl_pending_completion sl = None \<and> sl_pending_completion sl' \<noteq> None"
proof (cases "sl_pending_replies sl = [] \<or> sl_pending_completion sl \<noteq> None")
  case True
  then show ?thesis using assms by (simp add: service_pending_once_def)
next
  case False
  then have none: "sl_pending_completion sl = None" by blast
  obtain r s where r: "service_pass en (length (sl_pending_replies sl)) sl = (r, s)" by (rule prod.exhaust)
  with assms False have "r = Inr True" "sl' = update_pending_flag s"
    by (cases r; simp add: service_pending_once_def)+
  then show ?thesis using service_pass_staged [OF none, of en "length (sl_pending_replies sl)"] none r
    by (simp add: update_pending_flag_def)
qed

function service_pending_until_stalled :: "environment \<Rightarrow> ServerLoop \<Rightarrow> exit option \<times> ServerLoop" where
  "service_pending_until_stalled en sl =
    (case service_pending_once en sl of
       (Inl e, sl) \<Rightarrow> (Some e, sl)
     | (Inr progress, sl') \<Rightarrow> if \<not> progress then (None, sl') else service_pending_until_stalled en sl')"
  by auto

termination
  by (relation "measure (\<lambda>(en, sl). if sl_pending_completion sl = None then 1 else 0)")
    (simp, auto dest!: service_once_staged [OF sym])

declare service_pending_until_stalled.simps [simp del]

text \<open>The end of the thread: the staged reply is completed and the waiting messages fail.\<close>

fun fail_messages :: "environment \<Rightarrow> message list \<Rightarrow> message list \<times> bool" where
  "fail_messages en [] = ([], True)"
| "fail_messages en (m # ms) =
    (if retried (en_release en m) 0 \<noteq> None \<or> retried (en_complete en m) 0 \<noteq> None then ([], False)
     else let (failed, ok) = fail_messages en ms in (m # failed, ok))"

definition fail_all_pending :: "environment \<Rightarrow> ServerLoop \<Rightarrow> ServerLoop" where
  "fail_all_pending en sl =
    (let (failed, ok) = fail_messages en (sl_pending_replies sl);
         sl = sl\<lparr>sl_answered := sl_answered sl @ map (\<lambda>m. (m, Answer status_unsuccessful 0)) failed\<rparr>
     in if ok then update_pending_flag (sl\<lparr>sl_pending_replies := []\<rparr>) else sl)"

definition complete_staged :: "environment \<Rightarrow> ServerLoop \<Rightarrow> ServerLoop" where
  "complete_staged en sl =
    (case sl_pending_completion sl of
       None \<Rightarrow> sl
     | Some (m, a) \<Rightarrow>
         sl\<lparr>sl_pending_completion := None,
            sl_answered := sl_answered sl @ (if retried (en_complete en m) 0 = None then [(m, a)] else [])\<rparr>)"

definition finish :: "environment \<Rightarrow> exit \<Rightarrow> ServerLoop \<Rightarrow> ServerLoop" where
  "finish en e sl = stop_with e (fail_all_pending en (complete_staged en sl))"

text \<open>The loop from its test to the driver call.\<close>

definition loop_top :: "environment \<Rightarrow> ServerLoop \<Rightarrow> ServerLoop" where
  "loop_top en sl =
    (if sl_stop_requested sl \<and> sl_pending_completion sl = None then finish en Signalled sl
     else if sl_exit_no_clients_requested sl \<and> sl_pending_completion sl = None then finish en NoClients sl
     else case service_pending_until_stalled en sl of
            (Some e, sl) \<Rightarrow> stop_with e sl
          | (None, sl) \<Rightarrow> (maybe_publish_snapshot en sl)\<lparr>sl_phase := BeforeRead\<rparr>)"

text \<open>The driver takes the staged reply with the read; the loop forgets it when the read returns a message.\<close>

definition driver_takes_reply :: "ServerLoop \<Rightarrow> ServerLoop" where
  "driver_takes_reply sl = sl\<lparr>sl_answered := sl_answered sl @ (case sl_pending_completion sl of None \<Rightarrow> [] | Some c \<Rightarrow> [c])\<rparr>"

definition submit_completion :: "ServerLoop \<Rightarrow> ServerLoop" where
  "submit_completion sl = (driver_takes_reply sl)\<lparr>sl_pending_completion := None\<rparr>"

definition take_message :: "environment \<Rightarrow> message \<Rightarrow> ServerLoop \<Rightarrow> ServerLoop" where
  "take_message en m sl =
    (let (re, sv) = dispatch (en_system en) (ms_request m) (sl_server sl);
         sl = sl\<lparr>sl_server := sv, sl_received := sl_received sl @ [m], sl_phase := AtTop\<rparr>
     in case re_answer re of
          Fatal e \<Rightarrow> stop_with (make_error (dce_win32_error e)) sl
        | NoReturn \<Rightarrow> stop_with Stuck sl
        | Held \<Rightarrow> update_pending_flag (sl\<lparr>sl_pending_replies := sl_pending_replies sl @ [m]\<rparr>)
        | Answer status n \<Rightarrow>
            (case release_and_stage_completion en m (Answer status n) sl of
               (Some e, sl) \<Rightarrow> stop_with e sl
             | (None, sl) \<Rightarrow>
                 let sl = maybe_publish_snapshot en sl
                 in if re_exit re then sl\<lparr>sl_exit_no_clients_requested := True\<rparr> else sl))"

text \<open>A read that fails says whether the driver had taken the reply before.\<close>

datatype read_result = Packet message | ReadFailed ulong bool

abbreviation ERROR_PIPE_NOT_CONNECTED :: ulong where "ERROR_PIPE_NOT_CONNECTED \<equiv> 233"

definition read_returned :: "environment \<Rightarrow> read_result \<Rightarrow> ServerLoop \<Rightarrow> ServerLoop" where
  "read_returned en r sl =
    (let sl = sl\<lparr>sl_woken := False\<rparr>
     in case r of
          Packet m \<Rightarrow> take_message en m (submit_completion sl)
        | ReadFailed e taken \<Rightarrow>
            let sl = (if taken then driver_takes_reply sl else sl)
            in if e = ERROR_PIPE_NOT_CONNECTED then finish en PipeGone sl
               else if e = ERROR_OPERATION_ABORTED \<or> e = ERROR_CANCELLED then
                 (let sl = sl\<lparr>sl_pending_completion := None\<rparr>
                  in if sl_stop_requested sl then finish en Signalled sl else sl\<lparr>sl_phase := AtTop\<rparr>)
               else stop_with (make_error e) sl)"

section \<open>The threads\<close>

datatype loop_event =
    ServerRuns
  | ReadReturns read_result
  | HostBytes bool "byte list"
  | HostGone
  | StopRequested

text \<open>
  The input thread: bytes go to the queue, if there is memory for them, then the server is woken if it is
  in the driver and messages wait.
\<close>

definition maybe_wake_server :: "ServerLoop \<Rightarrow> ServerLoop" where
  "maybe_wake_server sl = (if sl_has_pending_replies sl \<and> sl_phase sl = InDriverRead then sl\<lparr>sl_woken := True\<rparr> else sl)"

definition on_host :: "(HostIo \<Rightarrow> HostIo) \<Rightarrow> ServerLoop \<Rightarrow> ServerLoop" where
  "on_host f sl = sl\<lparr>sl_server := (sl_server sl)\<lparr>sv_host := f (sv_host (sl_server sl))\<rparr>\<rparr>"

fun loop_step :: "environment \<Rightarrow> ServerLoop \<Rightarrow> loop_event \<Rightarrow> ServerLoop" where
  "loop_step en sl ServerRuns =
    (case sl_phase sl of AtTop \<Rightarrow> loop_top en sl | BeforeRead \<Rightarrow> sl\<lparr>sl_phase := InDriverRead\<rparr> | _ \<Rightarrow> sl)"
| "loop_step en sl (ReadReturns r) = (if sl_phase sl = InDriverRead then read_returned en r sl else sl)"
| "loop_step en sl (HostBytes mem_ok bytes) = maybe_wake_server (on_host (inject_input_bytes mem_ok bytes) sl)"
| "loop_step en sl HostGone = maybe_wake_server (on_host (\<lambda>h. h\<lparr>ho_queue := mark_disconnected (ho_queue h)\<rparr>) sl)"
| "loop_step en sl StopRequested = sl\<lparr>sl_stop_requested := True, sl_woken := True\<rparr>"

text \<open>The start, with the message that another host has handed over, if any.\<close>

definition loop_start :: "environment \<Rightarrow> Server \<Rightarrow> message option \<Rightarrow> ServerLoop" where
  "loop_start en sv initial =
    (let sl = maybe_publish_snapshot en
           \<lparr>sl_server = sv, sl_pending_replies = [], sl_pending_completion = None, sl_has_pending_replies = False,
            sl_exit_no_clients_requested = False, sl_stop_requested = False, sl_woken = False, sl_published = None,
            sl_last_buffer = None, sl_last_revision = 0, sl_phase = AtTop, sl_received = [], sl_answered = [], sl_assertion = True\<rparr>
     in case initial of None \<Rightarrow> sl | Some m \<Rightarrow> take_message en m sl)"

section \<open>Every message is answered once\<close>

text \<open>The messages that the loop has answered or still holds.\<close>

definition accounted :: "ServerLoop \<Rightarrow> message multiset" where
  "accounted sl = mset (map fst (sl_answered sl)) + mset (case sl_pending_completion sl of None \<Rightarrow> [] | Some (m, a) \<Rightarrow> [m])
     + mset (sl_pending_replies sl)"

lemma accounted_simps [simp]:
  "accounted (sl\<lparr>sl_server := sv\<rparr>) = accounted sl" "accounted (sl\<lparr>sl_phase := p\<rparr>) = accounted sl"
  "accounted (sl\<lparr>sl_has_pending_replies := b\<rparr>) = accounted sl" "accounted (sl\<lparr>sl_woken := b\<rparr>) = accounted sl"
  "accounted (sl\<lparr>sl_received := ms\<rparr>) = accounted sl" "accounted (sl\<lparr>sl_assertion := b\<rparr>) = accounted sl"
  "accounted (sl\<lparr>sl_stop_requested := b\<rparr>) = accounted sl" "accounted (sl\<lparr>sl_exit_no_clients_requested := b\<rparr>) = accounted sl"
  by (simp_all add: accounted_def)

text \<open>What a step of the loop may change of the books.\<close>

definition same_books :: "ServerLoop \<Rightarrow> ServerLoop \<Rightarrow> bool" where
  "same_books sl sl' \<longleftrightarrow> accounted sl' = accounted sl \<and> sl_received sl' = sl_received sl \<and> sl_answered sl' = sl_answered sl
     \<and> sl_assertion sl' = sl_assertion sl"

lemma same_books_trans: "same_books sl sl' \<Longrightarrow> same_books sl' sl'' \<Longrightarrow> same_books sl sl''"
  by (simp add: same_books_def)









text \<open>A driver that releases and completes every message, after some repetitions.\<close>

definition driver_ok :: "environment \<Rightarrow> bool" where
  "driver_ok en \<longleftrightarrow> (\<forall>m. retried (en_release en m) 0 = None \<and> retried (en_complete en m) 0 = None)"

lemma fail_messages_prefix:
  "mset (fst (fail_messages en ms)) \<subseteq># mset ms" "snd (fail_messages en ms) \<Longrightarrow> fst (fail_messages en ms) = ms"
  "driver_ok en \<Longrightarrow> snd (fail_messages en ms)"
proof -
  show "mset (fst (fail_messages en ms)) \<subseteq># mset ms" by (induction ms) (simp_all add: split_beta)
  show "snd (fail_messages en ms) \<Longrightarrow> fst (fail_messages en ms) = ms" by (induction ms) (simp_all add: split_beta split: if_splits)
  show "driver_ok en \<Longrightarrow> snd (fail_messages en ms)" by (induction ms) (simp_all add: split_beta driver_ok_def)
qed



















text \<open>
  The replies depend on that contract. When a read fails because the pipe is not connected after
  the driver has taken the staged reply, the loop completes the same message a second time; when a read is
  cancelled before the driver has taken the reply, the loop drops it and the client never gets one.
  The code cannot tell these cases apart: it decides by the error alone.
\<close>

theorem staged_reply_doubled_or_lost:
  assumes "sl_phase sl = InDriverRead" and "sl_pending_completion sl = Some (m, a)" and "driver_ok en" and "\<not> sl_stop_requested sl"
  shows "let twice = loop_step en sl (ReadReturns (ReadFailed ERROR_PIPE_NOT_CONNECTED True));
             lost = loop_step en sl (ReadReturns (ReadFailed ERROR_OPERATION_ABORTED False))
    in sl_answered twice = sl_answered sl @ [(m, a), (m, a)] @ map (\<lambda>m. (m, Answer status_unsuccessful 0)) (sl_pending_replies sl)
      \<and> sl_pending_completion lost = None \<and> sl_answered lost = sl_answered sl \<and> sl_pending_replies lost = sl_pending_replies sl"
proof -
  have fail: "fail_messages en ms = (ms, True)" for ms
    using fail_messages_prefix(2,3) [of en ms] assms(3) by (cases "fail_messages en ms") simp
  have "retried (en_complete en m) 0 = None" using assms(3) by (simp add: driver_ok_def)
  then show ?thesis
    using assms
    by (simp add: read_returned_def driver_takes_reply_def finish_def stop_with_def fail_all_pending_def complete_staged_def
        update_pending_flag_def fail Let_def)
qed

text \<open>A driver and a window for the witnesses.\<close>

definition quiet_driver :: environment where
  "quiet_driver = \<lparr>en_system = plain_system, en_release = (\<lambda>_ _. None), en_complete = (\<lambda>_ _. None), en_windowed = False, en_snapshot_ok = True\<rparr>"

lemma quiet_driver_ok: "driver_ok quiet_driver"
  by (simp add: driver_ok_def quiet_driver_def retried.simps)


theorem staged_reply_doubled_or_lost_witness:
  "let m = \<lparr>ms_identifier = 1, ms_request = Accepted\<rparr>;
       sl = (loop_start quiet_driver one_client None)\<lparr>sl_phase := InDriverRead, sl_pending_completion := Some (m, Answer status_success 0)\<rparr>
   in sl_answered (loop_step quiet_driver sl (ReadReturns (ReadFailed ERROR_PIPE_NOT_CONNECTED True)))
       = [(m, Answer status_success 0), (m, Answer status_success 0)]
     \<and> sl_answered (loop_step quiet_driver sl (ReadReturns (ReadFailed ERROR_OPERATION_ABORTED False))) = []"
proof -
  let ?m = "\<lparr>ms_identifier = 1, ms_request = Accepted\<rparr>"
  let ?sl = "(loop_start quiet_driver one_client None)\<lparr>sl_phase := InDriverRead, sl_pending_completion := Some (?m, Answer status_success 0)\<rparr>"
  have "\<not> sl_stop_requested ?sl" "sl_answered ?sl = []" "sl_pending_replies ?sl = []"
    by (simp_all add: loop_start_def maybe_publish_snapshot_def quiet_driver_def)
  then show ?thesis
    using staged_reply_doubled_or_lost [of ?sl ?m "Answer status_success 0" quiet_driver] quiet_driver_ok
    by (simp add: Let_def del: loop_step.simps)
qed

section \<open>Waiting requests\<close>

text \<open>
  A pass over the waiting requests finishes one request at most. When the first of them can be
  answered, its reply is staged and the others are not tried before the next driver call,
  whether or not the input suffices for them.
\<close>

theorem one_reply_per_turn:
  assumes "sl_pending_replies sl = m # ms" and "sl_pending_completion sl = None"
    and "dispatch (en_system en) (ms_request m) (sl_server sl) = (re, sv)" and "re_answer re = Answer status n"
    and "retried (en_release en m) 0 = None"
  shows "service_pending_until_stalled en sl =
    (None, sl\<lparr>sl_server := sv, sl_pending_replies := ms, sl_pending_completion := Some (m, Answer status n), sl_has_pending_replies := (ms \<noteq> [])\<rparr>)"
proof -
  let ?staged = "sl\<lparr>sl_server := sv, sl_pending_replies := ms, sl_pending_completion := Some (m, Answer status n), sl_has_pending_replies := (ms \<noteq> [])\<rparr>"
  have "service_pending_once en sl = (Inr True, ?staged)"
    using assms by (simp add: service_pending_once_def release_and_stage_completion_def update_pending_flag_def)
  moreover have "service_pending_once en ?staged = (Inr False, ?staged)"
    by (simp add: service_pending_once_def update_pending_flag_def)
  ultimately show ?thesis by (simp add: service_pending_until_stalled.simps)
qed

text \<open>A client that waits in raw reads.\<close>

definition reader :: "64 word \<Rightarrow> message" where
  "reader n = \<lparr>ms_identifier = n, ms_request = Io (RawRead 32 [0])\<rparr>"

definition two_readers :: "byte list \<Rightarrow> ServerLoop" where
  "two_readers bytes = (loop_start quiet_driver (one_client\<lparr>sv_host := queued bytes\<rparr>) None)\<lparr>sl_pending_replies := [reader 1, reader 2]\<rparr>"

lemma two_readers_facts:
  "sl_server (two_readers bytes) = one_client\<lparr>sv_host := queued bytes\<rparr>" "sl_pending_replies (two_readers bytes) = [reader 1, reader 2]"
  "sl_pending_completion (two_readers bytes) = None" "sl_phase (two_readers bytes) = AtTop" "\<not> sl_stop_requested (two_readers bytes)"
  "\<not> sl_woken (two_readers bytes)" "sl_answered (two_readers bytes) = []"
  by (simp_all add: two_readers_def loop_start_def maybe_publish_snapshot_def quiet_driver_def)

lemma reader_dispatch:
  "re_answer (fst (dispatch plain_system (ms_request (reader n)) (one_client\<lparr>sv_host := queued [0x61, 0x62]\<rparr>))) = Answer status_success 1"
proof -
  let ?read = "raw_read (\<lambda>u. sys_encode plain_system (input_page one_client) [u]) (process_ids (sv_state one_client)) (processed_input one_client) [0]
    (ob_input (new_object K_input 0xC0000000 3 16)) (queued [0x61, 0x62])"
  obtain r s where run: "?read = (r, s)" by (rule prod.exhaust)
  have "ob_input (new_object K_input 0xC0000000 3 16) = new_input_handle" by (simp add: new_object_def)
  then have "r = Reply status_success 1"
    using raw_read_plain_text [OF _ _ _ _ run] by (simp add: queued_input raw_plain_def)
  then show ?thesis
    using run by (simp add: reader_def raw_read_request_def with_input_def one_client_objects new_object_def of_reply_def respond_def split_beta)
qed

theorem one_reply_per_turn_witness:
  "let sl = snd (service_pending_until_stalled quiet_driver (two_readers [0x61, 0x62]))
   in sl_pending_completion sl = Some (reader 1, Answer status_success 1) \<and> sl_pending_replies sl = [reader 2]"
proof -
  obtain re sv where d: "dispatch plain_system (ms_request (reader 1)) (one_client\<lparr>sv_host := queued [0x61, 0x62]\<rparr>) = (re, sv)" by (rule prod.exhaust)
  have "re_answer re = Answer status_success 1" using reader_dispatch [of 1] d by simp
  from one_reply_per_turn [OF two_readers_facts(2,3) _ this, of quiet_driver "[0x61, 0x62]" sv] d show ?thesis
    by (simp add: two_readers_facts quiet_driver_def retried.simps)
qed

text \<open>
  C31. Input can arrive unnoticed. Bytes that come in after the waiting requests were tried and
  before the server thread has entered the driver wake nobody: the server blocks with requests
  that the bytes could answer. The same bytes a moment later do wake it.
\<close>

theorem input_wakeup_lost:
  assumes "sl_phase sl = BeforeRead" and "sl_has_pending_replies sl" and "\<not> sl_woken sl" and "bytes \<noteq> []"
    and "queue_inv (ho_queue (sv_host (sl_server sl)))"
  shows "let blocked = foldl (loop_step en) sl [HostBytes True bytes, ServerRuns]; woken = foldl (loop_step en) sl [ServerRuns, HostBytes True bytes]
    in sl_phase blocked = InDriverRead \<and> \<not> sl_woken blocked \<and> sl_pending_replies blocked = sl_pending_replies sl
      \<and> 0 < input_bytes_available (sv_host (sl_server blocked))
      \<and> sl_phase woken = InDriverRead \<and> sl_woken woken"
proof -
  have "queue_inv (queue_push True bytes (ho_queue (sv_host (sl_server sl))))" using assms(5) by (rule queue_inv_ops(1))
  then have "available (queue_push True bytes (ho_queue (sv_host (sl_server sl)))) = length (queue_bytes (ho_queue (sv_host (sl_server sl))) @ bytes)"
    using queue_push_bytes [OF assms(5), of True bytes] by (simp add: queue.amount_contents)
  then have "0 < available (queue_push True bytes (ho_queue (sv_host (sl_server sl))))" using assms(4) by simp
  then show ?thesis using assms
    by (simp add: maybe_wake_server_def on_host_def inject_input_bytes_def input_bytes_available_def Let_def)
qed

theorem input_wakeup_lost_witness:
  "let sl = foldl (loop_step quiet_driver) ((two_readers [])\<lparr>sl_phase := BeforeRead, sl_has_pending_replies := True\<rparr>) [HostBytes True [0x61], ServerRuns]
   in sl_phase sl = InDriverRead \<and> \<not> sl_woken sl \<and> sl_pending_replies sl = [reader 1, reader 2]
     \<and> 0 < input_bytes_available (sv_host (sl_server sl))"
proof -
  have "queue_inv (ho_queue (queued []))" using queued_input(1) [of "[]"] by (simp add: input_inv_def)
  from input_wakeup_lost [of "(two_readers [])\<lparr>sl_phase := BeforeRead, sl_has_pending_replies := True\<rparr>" "[0x61]" quiet_driver] this show ?thesis
    by (simp add: two_readers_facts Let_def)
qed

text \<open>
  The decision to exit outlives the reason for it. After the last client has gone, a client
  that connects before the server has returned from the driver is served, but its first request
  that has to wait ends the server, however many processes are connected then.
\<close>

theorem late_client_cut_off:
  assumes "sl_phase sl = InDriverRead" and "sl_exit_no_clients_requested sl" and "\<not> sl_stop_requested sl" and "driver_ok en"
    and "dispatch (en_system en) (ms_request m) (sl_server sl) = (re, sv)" and "re_answer re = Held"
  shows "let sl' = foldl (loop_step en) sl [ReadReturns (Packet m), ServerRuns]
    in sl_phase sl' = Exited NoClients \<and> sl_server sl' = sv \<and> (m, Answer status_unsuccessful 0) \<in> set (sl_answered sl')"
  using assms fail_messages_prefix(2) [OF fail_messages_prefix(3) [OF assms(4)]] fail_messages_prefix(3) [OF assms(4)]
  by (simp add: read_returned_def take_message_def submit_completion_def driver_takes_reply_def update_pending_flag_def loop_top_def finish_def stop_with_def
      fail_all_pending_def complete_staged_def Let_def split_beta)

lemma reader_waits: "re_answer (fst (dispatch plain_system (ms_request (reader n)) one_client)) = Held"
proof -
  let ?read = "raw_read (\<lambda>u. sys_encode plain_system (input_page one_client) [u]) (process_ids (sv_state one_client)) (processed_input one_client) [0]
    new_input_handle (queued [])"
  obtain r s where run: "?read = (r, s)" by (rule prod.exhaust)
  have "raw_spec (\<lambda>u. sys_encode plain_system (input_page one_client) [u]) (processed_input one_client) (length [0 :: byte]) [] 0
      (input_stream new_input_handle (queued [])) = (Stopped, [], 0, [])"
    by (simp add: queued_input raw_spec.simps)
  from raw_read_meets_spec [OF queued_input(1) this run]
  have "r = ReplyPending" by (simp add: raw_answer_def input_disconnected_def queued_def queue_push_def new_queue_def)
  moreover have "sv_host one_client = queued []" by (simp add: one_client_def)
  ultimately show ?thesis
    using run by (simp add: reader_def raw_read_request_def with_input_def one_client_objects new_object_def of_reply_def respond_def split_beta)
qed

theorem late_client_cut_off_witness:
  "let sl = foldl (loop_step quiet_driver)
       ((loop_start quiet_driver one_client None)\<lparr>sl_phase := InDriverRead, sl_exit_no_clients_requested := True\<rparr>)
       [ReadReturns (Packet (reader 1)), ServerRuns]
   in sl_phase sl = Exited NoClients \<and> (reader 1, Answer status_unsuccessful 0) \<in> set (sl_answered sl)"
proof -
  obtain re sv where d: "dispatch plain_system (ms_request (reader 1)) one_client = (re, sv)" by (rule prod.exhaust)
  have "re_answer re = Held" using reader_waits [of 1] d by simp
  from late_client_cut_off [OF _ _ _ quiet_driver_ok _ this,
      of "(loop_start quiet_driver one_client None)\<lparr>sl_phase := InDriverRead, sl_exit_no_clients_requested := True\<rparr>" "reader 1" sv] d
  show ?thesis
    by (simp add: loop_start_def maybe_publish_snapshot_def quiet_driver_def Let_def del: foldl.simps)
qed

end
