(* ===== verification/Utf8_Stream.thy ===== *)
theory Utf8_Stream
  imports Conhost_Prelude
begin

text \<open>
  The decoder for terminal output that arrives in pieces (\<open>utf8_stream_decoder.hpp\<close>): UTF-8 to UTF-16, with the
  bytes of an unfinished character kept for the next call.

  \<open>MultiByteToWideChar\<close> with \<open>MB_ERR_INVALID_CHARS\<close> is the parameter \<open>convert\<close>, which gives \<open>None\<close> when the
  function fails; \<open>utf8_converter\<close> states what its documentation says: it succeeds on well-formed UTF-8 only,
  and gives the same text in UTF-16.
\<close>

section \<open>The decoder\<close>

definition is_utf8_continuation_byte :: "byte \<Rightarrow> bool" where
  "is_utf8_continuation_byte b \<longleftrightarrow> b \<ge> 0x80 \<and> b \<le> 0xBF"

definition expected_length :: "byte \<Rightarrow> nat" where
  "expected_length lead =
    (if lead \<ge> 0xC2 \<and> lead \<le> 0xDF then 2 else if lead \<ge> 0xE0 \<and> lead \<le> 0xEF then 3
     else if lead \<ge> 0xF0 \<and> lead \<le> 0xF4 then 4 else 0)"

definition looks_like_incomplete_utf8_sequence :: "byte list \<Rightarrow> bool" where
  "looks_like_incomplete_utf8_sequence bytes =
    (case bytes of
       [] \<Rightarrow> False
     | lead # rest \<Rightarrow>
         expected_length lead \<noteq> 0 \<and> length bytes < expected_length lead \<and> list_all is_utf8_continuation_byte rest
         \<and> (case rest of
              [] \<Rightarrow> True
            | first_cont # _ \<Rightarrow>
                \<not> (lead = 0xE0 \<and> first_cont < 0xA0) \<and> \<not> (lead = 0xED \<and> first_cont > 0x9F)
                \<and> \<not> (lead = 0xF0 \<and> first_cont < 0x90) \<and> \<not> (lead = 0xF4 \<and> first_cont > 0x8F)))"

abbreviation max_int :: nat where "max_int \<equiv> 0x7FFFFFFF"

definition try_decode :: "(byte list \<Rightarrow> wstring option) \<Rightarrow> byte list \<Rightarrow> wstring option" where
  "try_decode convert prefix = (if prefix = [] \<or> length prefix > max_int then None else convert prefix)"

text \<open>The loop that leaves out up to three bytes at the end; it stops when nothing would be left.\<close>

fun try_trimmed :: "(byte list \<Rightarrow> wstring option) \<Rightarrow> byte list \<Rightarrow> nat list \<Rightarrow> (wstring \<times> nat) option" where
  "try_trimmed convert attempt [] = None"
| "try_trimmed convert attempt (trim # more_trims) =
    (if length attempt - trim = 0 then None
     else case try_decode convert (take (length attempt - trim) attempt) of
            Some us \<Rightarrow> Some (us, length attempt - trim)
          | None \<Rightarrow> try_trimmed convert attempt more_trims)"

lemma try_trimmed_length: "try_trimmed convert attempt ts = Some (us, n) \<Longrightarrow> 0 < n \<and> n \<le> length attempt"
  by (induction ts) (auto split: if_splits option.splits)

definition trims :: "nat \<Rightarrow> nat list" where
  "trims attempt_len = [1..<Suc (min 3 attempt_len)]"

text \<open>The main loop on the bytes that are not consumed yet: the output and the bytes that stay pending.\<close>

function decode_loop :: "(byte list \<Rightarrow> wstring option) \<Rightarrow> byte list \<Rightarrow> wstring \<times> byte list" where
  "decode_loop convert remaining =
    (if remaining = [] then ([], [])
     else
       let attempt = take max_int remaining
       in case try_decode convert attempt of
            Some us \<Rightarrow> apfst ((@) us) (decode_loop convert (drop (length attempt) remaining))
          | None \<Rightarrow>
              (case try_trimmed convert attempt (trims (length attempt)) of
                 Some (us, n) \<Rightarrow> apfst ((@) us) (decode_loop convert (drop n remaining))
               | None \<Rightarrow>
                   if length attempt \<le> 3 \<and> looks_like_incomplete_utf8_sequence attempt then ([], remaining)
                   else apfst ((#) 0xFFFD) (decode_loop convert (drop 1 remaining))))"
  by auto

termination
  by (relation "measure (\<lambda>(convert, remaining). length remaining)") (auto dest!: try_trimmed_length)

declare decode_loop.simps [simp del]

definition decode_append :: "(byte list \<Rightarrow> wstring option) \<Rightarrow> byte list \<Rightarrow> byte list \<Rightarrow> wstring \<times> byte list" where
  "decode_append convert bytes pending = decode_loop convert (pending @ bytes)"

fun decode_chunks :: "(byte list \<Rightarrow> wstring option) \<Rightarrow> byte list list \<Rightarrow> byte list \<Rightarrow> wstring \<times> byte list" where
  "decode_chunks convert [] pending = ([], pending)"
| "decode_chunks convert (bytes # chunks) pending =
    (let (us, pending) = decode_append convert bytes pending in apfst ((@) us) (decode_chunks convert chunks pending))"

section \<open>The bytes that wait\<close>

lemma incomplete_length: "looks_like_incomplete_utf8_sequence bytes \<Longrightarrow> length bytes < 4"
  by (auto simp: looks_like_incomplete_utf8_sequence_def expected_length_def split: list.splits if_splits)

lemma waiting_bytes: "snd (decode_loop convert bs) = [] \<or> looks_like_incomplete_utf8_sequence (snd (decode_loop convert bs))"
proof (induction convert bs rule: decode_loop.induct)
  case (1 convert bs)
  show ?case
  proof (cases "bs = []")
    case False
    note IH = 1 [OF False refl]
    show ?thesis
    proof (cases "try_decode convert (take max_int bs)")
      case (Some us)
      then show ?thesis using IH(3) [OF Some] False by (simp add: decode_loop.simps [of convert bs])
    next
      case None
      show ?thesis
      proof (cases "try_trimmed convert (take max_int bs) (trims (length (take max_int bs)))")
        case trim: None
        have short: "take max_int bs = bs" if "length (take max_int bs) \<le> 3" using that by (simp add: min_def split: if_splits)
        show ?thesis using IH(1) [OF None trim] None trim False short
          by (cases "length (take max_int bs) \<le> 3 \<and> looks_like_incomplete_utf8_sequence (take max_int bs)")
            (auto simp: decode_loop.simps [of convert bs] Let_def simp del: take_all_iff length_take)
      next
        case (Some r)
        obtain us n where "r = (us, n)" by (rule prod.exhaust)
        then show ?thesis using IH(2) [OF None Some] None Some False by (simp add: decode_loop.simps [of convert bs] Let_def)
      qed
    qed
  qed (simp add: decode_loop.simps)
qed

section \<open>A stream in pieces\<close>

text \<open>Characters, as numbers, and their encodings.\<close>

definition scalar :: "nat \<Rightarrow> bool" where
  "scalar c \<longleftrightarrow> c < 0x110000 \<and> \<not> (0xD800 \<le> c \<and> c < 0xE000)"

definition octet :: "nat \<Rightarrow> byte" where
  "octet n = of_nat n"

definition utf8 :: "nat \<Rightarrow> byte list" where
  "utf8 c =
    (if c < 0x80 then [octet c]
     else if c < 0x800 then [octet (0xC0 + c div 0x40), octet (0x80 + c mod 0x40)]
     else if c < 0x10000 then [octet (0xE0 + c div 0x1000), octet (0x80 + c div 0x40 mod 0x40), octet (0x80 + c mod 0x40)]
     else [octet (0xF0 + c div 0x40000), octet (0x80 + c div 0x1000 mod 0x40), octet (0x80 + c div 0x40 mod 0x40), octet (0x80 + c mod 0x40)])"

definition utf16 :: "nat \<Rightarrow> wstring" where
  "utf16 c = (if c < 0x10000 then [of_nat c] else [of_nat (0xD800 + (c - 0x10000) div 0x400), of_nat (0xDC00 + (c - 0x10000) mod 0x400)])"

definition utf8_converter :: "(byte list \<Rightarrow> wstring option) \<Rightarrow> bool" where
  "utf8_converter convert \<longleftrightarrow>
    (\<forall>cs. list_all scalar cs \<and> cs \<noteq> [] \<longrightarrow> convert (concat (map utf8 cs)) = Some (concat (map utf16 cs)))
    \<and> (\<forall>bytes us. convert bytes = Some us \<longrightarrow> (\<exists>cs. list_all scalar cs \<and> bytes = concat (map utf8 cs)))"

text \<open>The first byte of a character tells its length.\<close>

definition width :: "byte \<Rightarrow> nat" where
  "width b = (if b < 0x80 then 1 else if b < 0xE0 then 2 else if b < 0xF0 then 3 else 4)"

lemma octet_order:
  assumes "n < 256"
  shows "octet n < w \<longleftrightarrow> n < unat w" "w \<le> octet n \<longleftrightarrow> unat w \<le> n" "octet n \<le> w \<longleftrightarrow> n \<le> unat w" "w < octet n \<longleftrightarrow> unat w < n"
    "octet n = w \<longleftrightarrow> n = unat w"
proof -
  have "unat (octet n) = n" using assms by (simp add: octet_def unsigned_of_nat take_bit_nat_eq_self)
  then show "octet n < w \<longleftrightarrow> n < unat w" "w \<le> octet n \<longleftrightarrow> unat w \<le> n" "octet n \<le> w \<longleftrightarrow> n \<le> unat w" "w < octet n \<longleftrightarrow> unat w < n"
    "octet n = w \<longleftrightarrow> n = unat w"
    by (auto simp: word_less_nat_alt word_le_nat_alt word_unat_eq_iff)
qed

text \<open>The four forms of a character.\<close>

lemma utf8_cases:
  assumes "scalar c"
  obtains (one) b where "b < 0x80" "utf8 c = [octet b]"
  | (two) b m where "0xC2 \<le> b" "b \<le> 0xDF" "m < 0x40" "utf8 c = [octet b, octet (0x80 + m)]"
  | (three) b m n where "0xE0 \<le> b" "b \<le> 0xEF" "m < 0x40" "n < 0x40" "utf8 c = [octet b, octet (0x80 + m), octet (0x80 + n)]"
      "b = 0xE0 \<longrightarrow> 0x20 \<le> m" "b = 0xED \<longrightarrow> m < 0x20"
  | (four) b m n l where "0xF0 \<le> b" "b \<le> 0xF4" "m < 0x40" "n < 0x40" "l < 0x40"
      "utf8 c = [octet b, octet (0x80 + m), octet (0x80 + n), octet (0x80 + l)]" "b = 0xF0 \<longrightarrow> 0x10 \<le> m" "b = 0xF4 \<longrightarrow> m < 0x10"
proof -
  consider "c < 0x80" | "0x80 \<le> c" "c < 0x800" | "0x800 \<le> c" "c < 0x10000" | "0x10000 \<le> c" by linarith
  then show thesis
  proof cases
    case 1
    then show thesis by (intro one [of c]) (simp_all add: utf8_def)
  next
    case 2
    then have "0xC2 \<le> 0xC0 + c div 0x40" "0xC0 + c div 0x40 \<le> 0xDF" by linarith+
    then show thesis by (rule two [of _ "c mod 0x40"]) (use 2 in \<open>simp_all add: utf8_def\<close>)
  next
    case 3
    have parts: "c div 0x40 = 0x40 * (c div 0x1000) + c div 0x40 mod 0x40" using div_mult2_eq [of c "0x40" "0x40"] by simp
    have "0x20 \<le> c div 0x40" using 3 by linarith
    with parts have "c div 0x1000 = 0 \<longrightarrow> 0x20 \<le> c div 0x40 mod 0x40" by simp
    moreover have "c div 0x40 mod 0x40 < 0x20" if "c div 0x1000 = 0xD"
    proof -
      have "c < 0xE000" using that by linarith
      then have "c div 0x40 < 0x360" using assms unfolding scalar_def by linarith
      then show ?thesis using parts that by simp
    qed
    moreover have "c div 0x1000 \<le> 0xF" using 3 by linarith
    ultimately show thesis using 3
      by (intro three [of "0xE0 + c div 0x1000" "c div 0x40 mod 0x40" "c mod 0x40"]) (simp_all add: utf8_def)
  next
    case 4
    have c: "c < 0x110000" using assms by (simp add: scalar_def)
    have parts: "c div 0x1000 = 0x40 * (c div 0x40000) + c div 0x1000 mod 0x40" using div_mult2_eq [of c "0x1000" "0x40"] by simp
    have "0x10 \<le> c div 0x1000" using 4 by linarith
    with parts have "c div 0x40000 = 0 \<longrightarrow> 0x10 \<le> c div 0x1000 mod 0x40" by simp
    moreover have "c div 0x1000 < 0x110" using c by linarith
    with parts have "c div 0x40000 = 4 \<longrightarrow> c div 0x1000 mod 0x40 < 0x10" by simp
    moreover have "c div 0x40000 \<le> 4" using c by linarith
    ultimately show thesis using 4
      by (intro four [of "0xF0 + c div 0x40000" "c div 0x1000 mod 0x40" "c div 0x40 mod 0x40" "c mod 0x40"]) (simp_all add: utf8_def)
  qed
qed

lemma utf8_shape: "scalar c \<Longrightarrow> utf8 c \<noteq> [] \<and> length (utf8 c) = width (hd (utf8 c))"
  by (cases c rule: utf8_cases) (auto simp: width_def octet_order)

lemma utf8_incomplete:
  assumes "scalar c" and "0 < k" and "k < length (utf8 c)"
  shows "looks_like_incomplete_utf8_sequence (take k (utf8 c))"
proof -
  have lead: "expected_length (octet b) = n" if "n = 2 \<and> 0xC2 \<le> b \<and> b \<le> 0xDF \<or> n = 3 \<and> 0xE0 \<le> b \<and> b \<le> 0xEF \<or> n = 4 \<and> 0xF0 \<le> b \<and> b \<le> 0xF4" for b n
    using that by (auto simp: expected_length_def octet_order)
  have cont: "is_utf8_continuation_byte (octet (0x80 + m))" if "m < 0x40" for m
    using that by (simp add: is_utf8_continuation_byte_def octet_order)
  have first: "\<not> (octet b = 0xE0 \<and> octet (0x80 + m) < 0xA0) \<and> \<not> (octet b = 0xED \<and> octet (0x80 + m) > 0x9F)
      \<and> \<not> (octet b = 0xF0 \<and> octet (0x80 + m) < 0x90) \<and> \<not> (octet b = 0xF4 \<and> octet (0x80 + m) > 0x8F)"
    if "b < 0x100" "m < 0x40" "b = 0xE0 \<longrightarrow> 0x20 \<le> m" "b = 0xED \<longrightarrow> m < 0x20" "b = 0xF0 \<longrightarrow> 0x10 \<le> m" "b = 0xF4 \<longrightarrow> m < 0x10" for b m
    using that by (auto simp: octet_order)
  show ?thesis using assms(1)
proof (cases c rule: utf8_cases)
  case (two b m)
  have "expected_length (octet b) = 2" by (rule lead) (simp add: two)
  then show ?thesis using two assms(2,3) by (simp add: looks_like_incomplete_utf8_sequence_def take_Cons')
next
  case (three b m n)
  have lead: "expected_length (octet b) = 3" by (rule lead) (simp add: three)
  have "k < 3" using assms(3) three by simp
  then consider "k = 1" | "k = 2" using assms(2) by linarith
  then show ?thesis
  proof cases
    case 1
    then show ?thesis using three lead by (simp add: looks_like_incomplete_utf8_sequence_def)
  next
    case 2
    then show ?thesis using three lead cont [OF three(3)] first [of b m] by (simp add: looks_like_incomplete_utf8_sequence_def)
  qed
next
  case (four b m n l)
  have lead: "expected_length (octet b) = 4" by (rule lead) (simp add: four)
  have "k < 4" using assms(3) four by simp
  then consider "k = 1" | "k = 2" | "k = 3" using assms(2) by linarith
  then show ?thesis
  proof cases
    case 1
    then show ?thesis using four lead by (simp add: looks_like_incomplete_utf8_sequence_def)
  next
    case 2
    then show ?thesis using four lead cont [OF four(3)] first [of b m] by (simp add: looks_like_incomplete_utf8_sequence_def)
  next
    case 3
    then show ?thesis using four lead cont [OF four(3)] cont [OF four(4)] first [of b m]
      by (simp add: looks_like_incomplete_utf8_sequence_def)
  qed
qed (use assms(2,3) in simp)
qed

text \<open>The characters with given bits, and the other direction of \<open>utf8_incomplete\<close>: what looks incomplete can be completed.\<close>

lemma utf8_build:
  "2 \<le> a \<Longrightarrow> a < 0x20 \<Longrightarrow> m < 0x40 \<Longrightarrow> \<exists>c. scalar c \<and> utf8 c = [octet (0xC0 + a), octet (0x80 + m)]"
  "a < 0x10 \<Longrightarrow> m < 0x40 \<Longrightarrow> a = 0 \<longrightarrow> 0x20 \<le> m \<Longrightarrow> a = 0xD \<longrightarrow> m < 0x20 \<Longrightarrow>
    \<exists>c. scalar c \<and> utf8 c = [octet (0xE0 + a), octet (0x80 + m), octet 0x80]"
  "a \<le> 4 \<Longrightarrow> m < 0x40 \<Longrightarrow> n < 0x40 \<Longrightarrow> a = 0 \<longrightarrow> 0x10 \<le> m \<Longrightarrow> a = 4 \<longrightarrow> m < 0x10 \<Longrightarrow>
    \<exists>c. scalar c \<and> utf8 c = [octet (0xF0 + a), octet (0x80 + m), octet (0x80 + n), octet 0x80]"
proof -
  show "\<exists>c. scalar c \<and> utf8 c = [octet (0xC0 + a), octet (0x80 + m)]" if "2 \<le> a" "a < 0x20" "m < 0x40"
    using that by (intro exI [of _ "a * 0x40 + m"]) (simp add: scalar_def utf8_def)
  show "\<exists>c. scalar c \<and> utf8 c = [octet (0xE0 + a), octet (0x80 + m), octet 0x80]"
    if "a < 0x10" "m < 0x40" "a = 0 \<longrightarrow> 0x20 \<le> m" "a = 0xD \<longrightarrow> m < 0x20"
  proof -
    let ?c = "a * 0x1000 + m * 0x40"
    have d: "?c div 0x1000 = a" "?c div 0x40 = a * 0x40 + m" using that(2) by linarith+
    have "?c mod 0x40 = (a * 0x40 + m) * 0x40 mod 0x40" by (simp add: algebra_simps)
    then have m: "?c mod 0x40 = 0" by (simp only: mod_mult_self2_is_0)
    have small: "0x800 \<le> ?c" "?c < 0x10000" using that by (cases "a = 0"; linarith)+
    have "\<not> (0xD800 \<le> ?c \<and> ?c < 0xE000)"
    proof
      assume "0xD800 \<le> ?c \<and> ?c < 0xE000"
      then have "a = 0xD" using that(2) by linarith
      then show False using that(4) \<open>0xD800 \<le> ?c \<and> ?c < 0xE000\<close> by simp
    qed
    then have "scalar ?c" using small by (simp add: scalar_def)
    moreover have "utf8 ?c = [octet (0xE0 + a), octet (0x80 + m), octet 0x80]"
      unfolding utf8_def d m using small that(2) by simp
    ultimately show ?thesis by blast
  qed
  show "\<exists>c. scalar c \<and> utf8 c = [octet (0xF0 + a), octet (0x80 + m), octet (0x80 + n), octet 0x80]"
    if "a \<le> 4" "m < 0x40" "n < 0x40" "a = 0 \<longrightarrow> 0x10 \<le> m" "a = 4 \<longrightarrow> m < 0x10"
  proof -
    let ?c = "a * 0x40000 + m * 0x1000 + n * 0x40"
    have c: "?c = ((a * 0x40 + m) * 0x40 + n) * 0x40" by (simp add: algebra_simps)
    have d: "?c div 0x40000 = a" "?c div 0x1000 = a * 0x40 + m" using that(2,3) by linarith+
    have "?c div 0x40 = (a * 0x40 + m) * 0x40 + n" "?c mod 0x40 = 0" unfolding c by (rule nonzero_mult_div_cancel_right, simp) simp
    note d = d this(1) and m = this(2)
    have small: "0x10000 \<le> ?c" "?c < 0x110000" using that by (cases "a = 0"; cases "a = 4"; linarith)+
    then have "scalar ?c" by (simp add: scalar_def)
    moreover have "utf8 ?c = [octet (0xF0 + a), octet (0x80 + m), octet (0x80 + n), octet 0x80]"
    proof -
      have last: "(x * 0x40 + y) mod 0x40 = y" if "y < 0x40" for x y :: nat using that by simp
      have "((a * 0x40 + m) * 0x40 + n) mod 0x40 = n" "(a * 0x40 + m) mod 0x40 = m" by (rule last; rule that)+
      then show ?thesis unfolding utf8_def d m using small by simp
    qed
    ultimately show ?thesis by blast
  qed
qed

lemma incomplete_completes:
  assumes "looks_like_incomplete_utf8_sequence bytes"
  shows "\<exists>c rest. scalar c \<and> rest \<noteq> [] \<and> utf8 c = bytes @ rest"
proof -
  have byte: "b = octet (unat b)" for b by (simp add: octet_def)
  have cont: "\<exists>m. b = octet (0x80 + m) \<and> m < 0x40 \<and> unat b = 0x80 + m" if "is_utf8_continuation_byte b" for b
    using that by (intro exI [of _ "unat b - 0x80"]) (auto simp: is_utf8_continuation_byte_def octet_def word_le_nat_alt)
  obtain lead rest where bytes: "bytes = lead # rest" using assms by (cases bytes) (simp_all add: looks_like_incomplete_utf8_sequence_def)
  note inc = assms [unfolded bytes looks_like_incomplete_utf8_sequence_def]
  consider (two) "0xC2 \<le> unat lead" "unat lead \<le> 0xDF" "rest = []"
    | (three) "0xE0 \<le> unat lead" "unat lead \<le> 0xEF" "length rest < 2"
    | (four) "0xF0 \<le> unat lead" "unat lead \<le> 0xF4" "length rest < 3"
    using inc by (auto simp: expected_length_def word_le_nat_alt split: if_splits)
  then show ?thesis
  proof cases
    case two
    define a where "a = unat lead - 0xC0"
    have a: "unat lead = 0xC0 + a" "2 \<le> a" "a < 0x20" using two by (simp_all add: a_def)
    then have "lead = octet (0xC0 + a)" using byte [of lead] by simp
    then show ?thesis using utf8_build(1) [OF a(2,3), of 0] two(3) bytes by fastforce
  next
    case three
    define a where "a = unat lead - 0xE0"
    have a: "unat lead = 0xE0 + a" "a < 0x10" using three by (simp_all add: a_def)
    then have lead: "lead = octet (0xE0 + a)" using byte [of lead] by simp
    show ?thesis
    proof (cases rest)
      case Nil
      then show ?thesis using utf8_build(2) [OF a(2), of "if a = 0 then 0x20 else 0"] lead bytes by (cases "a = 0") fastforce+
    next
      case (Cons x xs)
      then have "xs = []" using three by simp
      obtain m where m: "x = octet (0x80 + m)" "m < 0x40" "unat x = 0x80 + m" using cont [of x] inc Cons by auto
      have "a = 0 \<longrightarrow> 0x20 \<le> m" "a = 0xD \<longrightarrow> m < 0x20"
        using inc Cons m(3) a(1) by (auto simp: word_less_nat_alt word_unat_eq_iff)
      then show ?thesis using utf8_build(2) [OF a(2) m(2)] bytes lead m(1) \<open>xs = []\<close> Cons by fastforce
    qed
  next
    case four
    define a where "a = unat lead - 0xF0"
    have a: "unat lead = 0xF0 + a" "a \<le> 4" using four by (simp_all add: a_def)
    then have lead: "lead = octet (0xF0 + a)" using byte [of lead] by simp
    show ?thesis
    proof (cases rest)
      case Nil
      then show ?thesis using utf8_build(3) [OF a(2), of "if a = 0 then 0x10 else 0" 0] lead bytes by (cases "a = 0") fastforce+
    next
      case (Cons x xs)
      obtain m where m: "x = octet (0x80 + m)" "m < 0x40" "unat x = 0x80 + m" using cont [of x] inc Cons by auto
      have range: "a = 0 \<longrightarrow> 0x10 \<le> m" "a = 4 \<longrightarrow> m < 0x10"
        using inc Cons m(3) a(1) by (auto simp: word_less_nat_alt word_unat_eq_iff)
      show ?thesis
      proof (cases xs)
        case Nil
        then show ?thesis using utf8_build(3) [OF a(2) m(2) _ range, of 0] bytes lead m(1) Cons by fastforce
      next
        case ys: (Cons y ys)
        then have "ys = []" using four Cons by simp
        obtain n where n: "y = octet (0x80 + n)" "n < 0x40" using cont [of y] inc Cons ys by auto
        then show ?thesis using utf8_build(3) [OF a(2) m(2) n(2) range] bytes lead m(1) Cons ys \<open>ys = []\<close> by fastforce
      qed
    qed
  qed
qed

text \<open>
  C14. Between calls the decoder holds three bytes at most, and only the beginning of a character: whatever
  the bytes and however the conversion behaves, there are a Unicode scalar value and further bytes that,
  behind the bytes it holds, are exactly the UTF-8 encoding of this value.
\<close>

theorem pending_bytes_bounded:
  "let pending = snd (decode_append convert bytes old)
   in length pending \<le> 3 \<and> (pending = [] \<or> (\<exists>c rest. scalar c \<and> rest \<noteq> [] \<and> utf8 c = pending @ rest))"
proof -
  let ?p = "snd (decode_loop convert (old @ bytes))"
  have "?p = [] \<or> length ?p < 4 \<and> (\<exists>c rest. scalar c \<and> rest \<noteq> [] \<and> utf8 c = ?p @ rest)"
    using waiting_bytes [of convert "old @ bytes"] incomplete_length [of ?p] incomplete_completes [of ?p] by blast
  then show ?thesis by (auto simp: decode_append_def Let_def)
qed

text \<open>A character is not the beginning of another one, so a text that stops inside a character is not well-formed.\<close>

abbreviation utf8_text :: "nat list \<Rightarrow> byte list" where "utf8_text cs \<equiv> concat (map utf8 cs)"
abbreviation utf16_text :: "nat list \<Rightarrow> wstring" where "utf16_text cs \<equiv> concat (map utf16 cs)"

lemma utf8_same_start:
  assumes "scalar c" and "scalar d" and "utf8 c @ xs = utf8 d @ ys"
  shows "utf8 c = utf8 d" and "xs = ys"
proof -
  have "hd (utf8 c) = hd (utf8 d)" using assms(3) utf8_shape [OF assms(1)] utf8_shape [OF assms(2)] by (metis hd_append2)
  then have "length (utf8 c) = length (utf8 d)" using utf8_shape [OF assms(1)] utf8_shape [OF assms(2)] by simp
  then show "utf8 c = utf8 d" "xs = ys" using assms(3) by auto
qed

lemma unfinished_text:
  assumes "list_all scalar cs" and "scalar c" and "0 < k" and "k < length (utf8 c)" and "list_all scalar ds"
  shows "utf8_text cs @ take k (utf8 c) \<noteq> utf8_text ds"
  using assms(1,5)
proof (induction cs arbitrary: ds)
  case Nil
  have part: "take k (utf8 c) \<noteq> []" "hd (take k (utf8 c)) = hd (utf8 c)" using assms(3,4) by (auto simp: hd_take)
  show ?case
  proof
    assume eq: "utf8_text [] @ take k (utf8 c) = utf8_text ds"
    then obtain d es where ds: "ds = d # es" using part(1) by (cases ds) auto
    then have d: "scalar d" using Nil.prems by simp
    have "hd (utf8 d) = hd (utf8 c)" using eq ds part utf8_shape [OF d] by (metis append_Nil concat.simps(1,2) hd_append2 list.map(1,2))
    then have "length (utf8 d) = length (utf8 c)" using utf8_shape [OF d] utf8_shape [OF assms(2)] by simp
    moreover have "length (utf8 d) \<le> k" using arg_cong [OF eq, of length] ds assms(4) by simp
    ultimately show False using assms(4) by simp
  qed
next
  case (Cons b cs)
  show ?case
  proof
    assume eq: "utf8_text (b # cs) @ take k (utf8 c) = utf8_text ds"
    then obtain d es where ds: "ds = d # es" using Cons.prems utf8_shape [of b] by (cases ds) auto
    then have "utf8_text cs @ take k (utf8 c) = utf8_text es"
      using eq Cons.prems utf8_same_start(2) [of b d "utf8_text cs @ take k (utf8 c)" "utf8_text es"] by simp
    then show False using Cons ds by auto
  qed
qed

lemma unfinished_fails:
  assumes "utf8_converter convert" and "list_all scalar cs" and "scalar c" and "0 < k" and "k < length (utf8 c)"
  shows "try_decode convert (utf8_text cs @ take k (utf8 c)) = None"
proof -
  have "convert (utf8_text cs @ take k (utf8 c)) = None"
    using unfinished_text [OF assms(2-5)] assms(1) unfolding utf8_converter_def by (metis not_None_eq)
  then show ?thesis by (simp add: try_decode_def)
qed

lemma finished_decodes:
  assumes "utf8_converter convert" and "list_all scalar cs" and "cs \<noteq> []" and "length (utf8_text cs) \<le> max_int"
  shows "try_decode convert (utf8_text cs) = Some (utf16_text cs)"
proof -
  have "utf8_text cs \<noteq> []" using assms(2,3) utf8_shape by (cases cs) auto
  then show ?thesis using assms by (simp add: try_decode_def utf8_converter_def)
qed

text \<open>One turn of the loop on bytes that fit one attempt.\<close>

lemma decode_nothing [simp]: "decode_loop convert [] = ([], [])"
  by (simp add: decode_loop.simps)

lemma decode_turn:
  assumes "bs \<noteq> []" and "length bs \<le> max_int"
  shows "try_decode convert bs = Some us \<Longrightarrow> decode_loop convert bs = (us, [])"
    and "try_decode convert bs = None \<Longrightarrow> try_trimmed convert bs (trims (length bs)) = Some (us, n)
      \<Longrightarrow> decode_loop convert bs = apfst ((@) us) (decode_loop convert (drop n bs))"
    and "try_decode convert bs = None \<Longrightarrow> try_trimmed convert bs (trims (length bs)) = None
      \<Longrightarrow> length bs \<le> 3 \<and> looks_like_incomplete_utf8_sequence bs \<Longrightarrow> decode_loop convert bs = ([], bs)"
    and "try_decode convert bs = None \<Longrightarrow> try_trimmed convert bs (trims (length bs)) = None
      \<Longrightarrow> \<not> (length bs \<le> 3 \<and> looks_like_incomplete_utf8_sequence bs) \<Longrightarrow> decode_loop convert bs = apfst ((#) 0xFFFD) (decode_loop convert (drop 1 bs))"
  using assms by (auto simp: decode_loop.simps [of convert bs] Let_def)

lemma decode_finished:
  assumes "utf8_converter convert" and "list_all scalar cs" and "length (utf8_text cs) \<le> max_int"
  shows "decode_loop convert (utf8_text cs) = (utf16_text cs, [])"
proof (cases "cs = []")
  case False
  have "utf8_text cs \<noteq> []" using assms(2) False utf8_shape by (cases cs) auto
  from decode_turn(1) [OF this assms(3) finished_decodes [OF assms(1,2) False assms(3)]] show ?thesis .
qed simp

lemma trims_upto: "trims n = [1..<Suc (min 3 n)]"
  by (simp add: trims_def)

lemma trimmed_fails:
  assumes "\<And>t. t \<in> set ts \<Longrightarrow> t < length bs \<Longrightarrow> try_decode convert (take (length bs - t) bs) = None"
  shows "try_trimmed convert bs ts = None"
  using assms by (induction ts) auto

lemma trimmed_first:
  assumes "\<And>t. t < n \<Longrightarrow> 1 \<le> t \<Longrightarrow> try_decode convert (take (length bs - t) bs) = None"
    and "1 \<le> n" "n \<le> 3" "n < length bs" and "try_decode convert (take (length bs - n) bs) = Some us"
  shows "try_trimmed convert bs (trims (length bs)) = Some (us, length bs - n)"
proof -
  have "try_trimmed convert bs ([1..<n] @ n # rest) = Some (us, length bs - n)" for rest
  proof -
    have "\<forall>t \<in> set ts. t < n \<and> 1 \<le> t \<Longrightarrow> try_trimmed convert bs (ts @ n # rest) = Some (us, length bs - n)" for ts
      using assms by (induction ts) auto
    then show ?thesis by simp
  qed
  moreover have "trims (length bs) = [1..<n] @ n # [Suc n..<Suc (min 3 (length bs))]"
  proof -
    have "n \<le> min 3 (length bs)" using assms(3,4) by simp
    then obtain m where m: "Suc (min 3 (length bs)) = n + Suc m" by (metis add_Suc_right le_Suc_ex)
    have "[n..<n + Suc m] = n # [Suc n..<n + Suc m]" by (rule upt_conv_Cons) simp
    then show ?thesis unfolding trims_def m by (simp only: upt_add_eq_append [OF assms(2)])
  qed
  ultimately show ?thesis by simp
qed

lemma decode_unfinished:
  assumes "utf8_converter convert" and "list_all scalar cs" and "scalar c" and "k < length (utf8 c)"
    and "length (utf8_text cs @ take k (utf8 c)) \<le> max_int"
  shows "decode_loop convert (utf8_text cs @ take k (utf8 c)) = (utf16_text cs, take k (utf8 c))"
proof (cases "k = 0")
  case True
  then show ?thesis using decode_finished [OF assms(1,2)] assms(5) by simp
next
  case False
  let ?part = "take k (utf8 c)"
  have k: "0 < k" "k \<le> 3" "length ?part = k" "?part \<noteq> []"
    using False assms(4) incomplete_length [OF utf8_incomplete [OF assms(3) _ assms(4)]] by auto
  have fails: "try_decode convert (utf8_text bs @ take j (utf8 c)) = None" if "list_all scalar bs" "0 < j" "j \<le> k" for bs j
    using unfinished_fails [OF assms(1) that(1) assms(3) that(2)] that(3) assms(4) by simp
  have keep: "decode_loop convert ?part = ([], ?part)"
  proof (rule decode_turn(3))
    show "try_trimmed convert ?part (trims (length ?part)) = None"
      by (rule trimmed_fails) (use fails [of "[]"] k in \<open>auto simp: trims_def min_def\<close>)
  qed (use k fails [of "[]" k] assms(5) utf8_incomplete [OF assms(3) k(1) assms(4)] in simp_all)
  show ?thesis
  proof (cases "cs = []")
    case True
    then show ?thesis using keep by simp
  next
    case False
    let ?bs = "utf8_text cs @ ?part"
    have nonempty: "utf8_text cs \<noteq> []" using assms(2) False utf8_shape by (cases cs) auto
    have "try_trimmed convert ?bs (trims (length ?bs)) = Some (utf16_text cs, length ?bs - k)"
    proof (rule trimmed_first)
      show "try_decode convert (take (length ?bs - t) ?bs) = None" if "t < k" "1 \<le> t" for t
        using fails [OF assms(2), of "k - t"] that k by (simp add: min_def)
      show "try_decode convert (take (length ?bs - k) ?bs) = Some (utf16_text cs)"
        using finished_decodes [OF assms(1,2) False] assms(5) k by simp
    qed (use k nonempty in auto)
    from decode_turn(2) [OF _ assms(5) fails [OF assms(2) k(1)] this] show ?thesis using nonempty keep k by simp
  qed
qed

text \<open>Where a piece of the stream ends: after whole characters and the beginning of one.\<close>

definition begun :: "byte list \<Rightarrow> bool" where
  "begun pend \<longleftrightarrow> (\<exists>c k. scalar c \<and> k < length (utf8 c) \<and> pend = take k (utf8 c))"

lemma begun_nothing [simp]: "begun []"
proof -
  have "scalar 0" "0 < length (utf8 0)" by (simp_all add: scalar_def utf8_def)
  then show ?thesis unfolding begun_def by (metis take0)
qed

lemma utf8_longest: "scalar c \<Longrightarrow> length (utf8 c) \<le> 4"
  by (simp add: utf8_def)

lemma begun_short: "begun pend \<Longrightarrow> length pend \<le> 3"
  unfolding begun_def using utf8_longest by fastforce

lemma piece_ends:
  assumes "list_all scalar cs" and "p @ q = utf8_text cs"
  shows "\<exists>ds pend es. cs = ds @ es \<and> p = utf8_text ds @ pend \<and> pend @ q = utf8_text es \<and> begun pend"
  using assms
proof (induction cs arbitrary: p)
  case Nil
  then show ?case by simp
next
  case (Cons c cs)
  show ?case
  proof (cases "length p < length (utf8 c)")
    case True
    have "take (length p) (p @ q) = take (length p) (utf8 c @ utf8_text cs)" using Cons.prems(2) by simp
    then have "p = take (length p) (utf8 c)" using True by simp
    then have "begun p" using True Cons.prems(1) unfolding begun_def by auto
    then show ?thesis using Cons.prems(2) by (intro exI [of _ "[]"] exI [of _ p] exI [of _ "c # cs"]) simp
  next
    case False
    have "take (length (utf8 c)) (p @ q) = utf8 c" using Cons.prems(2) by simp
    then obtain p' where p: "p = utf8 c @ p'" using False by (metis append_take_drop_id diff_is_0_eq' linorder_not_less take_append take_eq_Nil append_Nil2)
    then have "p' @ q = utf8_text cs" using Cons.prems(2) by simp
    from Cons.IH [OF _ this] Cons.prems(1) obtain ds pend es
      where "cs = ds @ es" "p' = utf8_text ds @ pend" "pend @ q = utf8_text es" "begun pend" by auto
    then show ?thesis using p by (intro exI [of _ "c # ds"] exI [of _ pend] exI [of _ es]) simp
  qed
qed

lemma begun_unfinished:
  assumes "begun pend" and "list_all scalar cs" and "pend = utf8_text cs"
  shows "cs = []"
proof (rule ccontr)
  assume cs: "cs \<noteq> []"
  obtain c k where c: "scalar c" "k < length (utf8 c)" "pend = take k (utf8 c)" using assms(1) by (auto simp: begun_def)
  have "pend \<noteq> []" using cs assms(2,3) utf8_shape by (cases cs) auto
  then have "0 < k" using c by (cases k) auto
  then show False using unfinished_text [of "[]" c k cs] c assms(2,3) by simp
qed

lemma decode_piece:
  assumes "utf8_converter convert" and "list_all scalar ds" and "begun pend" and "length (utf8_text ds @ pend) \<le> max_int"
  shows "decode_loop convert (utf8_text ds @ pend) = (utf16_text ds, pend)"
  using assms(3) decode_unfinished [OF assms(1,2)] assms(4) unfolding begun_def by blast

lemma decode_pieces:
  assumes "utf8_converter convert"
  shows "list_all scalar cs \<Longrightarrow> begun pend \<Longrightarrow> pend @ concat chunks = utf8_text cs
    \<Longrightarrow> \<forall>chunk \<in> set chunks. length chunk + 3 \<le> max_int \<Longrightarrow> decode_chunks convert chunks pend = (utf16_text cs, [])"
proof (induction chunks arbitrary: pend cs)
  case Nil
  then show ?case using begun_unfinished [of pend cs] by simp
next
  case (Cons chunk chunks)
  have "(pend @ chunk) @ concat chunks = utf8_text cs" using Cons.prems(3) by simp
  from piece_ends [OF Cons.prems(1) this] obtain ds pend' es
    where split: "cs = ds @ es" "pend @ chunk = utf8_text ds @ pend'" "pend' @ concat chunks = utf8_text es" "begun pend'" by blast
  have "length (pend @ chunk) \<le> max_int" using begun_short [OF Cons.prems(2)] Cons.prems(4) by auto
  then have "decode_append convert chunk pend = (utf16_text ds, pend')"
    unfolding decode_append_def split(2) using split(1,2,4) Cons.prems(1) by (intro decode_piece [OF assms]) (auto simp: list_all_append)
  moreover have "decode_chunks convert chunks pend' = (utf16_text es, [])"
    using Cons.IH [of es pend'] split Cons.prems(1,4) by (simp add: list_all_append)
  ultimately show ?case using split(1) by simp
qed

text \<open>
  C13. However the text is cut into pieces, inside a character too, the decoder gives the whole text and
  keeps nothing back.
\<close>

theorem split_stream_decoded:
  assumes "utf8_converter convert" and "list_all scalar cs" and "concat chunks = utf8_text cs"
    and "\<forall>chunk \<in> set chunks. length chunk + 3 \<le> max_int"
  shows "decode_chunks convert chunks [] = (utf16_text cs, [])"
  using decode_pieces [OF assms(1,2) begun_nothing] assms(3,4) by simp

text \<open>A converter that does what the documentation says.\<close>

fun char_value :: "byte list \<Rightarrow> nat" where
  "char_value [b] = unat b"
| "char_value [b, m] = (unat b - 0xC0) * 0x40 + (unat m - 0x80)"
| "char_value [b, m, n] = (unat b - 0xE0) * 0x1000 + (unat m - 0x80) * 0x40 + (unat n - 0x80)"
| "char_value [b, m, n, l] = (unat b - 0xF0) * 0x40000 + (unat m - 0x80) * 0x1000 + (unat n - 0x80) * 0x40 + (unat l - 0x80)"
| "char_value _ = 0"

lemma unat_octet: "n < 256 \<Longrightarrow> unat (octet n) = n"
  by (simp add: octet_def unsigned_of_nat take_bit_nat_eq_self)

lemma char_value_utf8:
  assumes "scalar c"
  shows "char_value (utf8 c) = c"
proof -
  have c: "c < 0x110000" using assms by (simp add: scalar_def)
  then have small: "c < 0x800 \<Longrightarrow> 0xC0 + c div 0x40 < 256" "c < 0x10000 \<Longrightarrow> 0xE0 + c div 0x1000 < 256" "0xF0 + c div 0x40000 < 256"
    by linarith+
  have low: "0x80 + n mod 0x40 < 256" for n :: nat using mod_less_divisor [of "0x40" n] by linarith
  have parts: "c = 0x40 * (c div 0x40) + c mod 0x40" "c div 0x40 = 0x40 * (c div 0x1000) + c div 0x40 mod 0x40"
    "c div 0x1000 = 0x40 * (c div 0x40000) + c div 0x1000 mod 0x40"
    using div_mult2_eq [of c "0x40" "0x40"] div_mult2_eq [of c "0x1000" "0x40"] by simp_all
  then have sums: "c div 0x40 * 0x40 + c mod 0x40 = c" "c div 0x1000 * 0x1000 + c div 0x40 mod 0x40 * 0x40 + c mod 0x40 = c"
    "c div 0x40000 * 0x40000 + c div 0x1000 mod 0x40 * 0x1000 + c div 0x40 mod 0x40 * 0x40 + c mod 0x40 = c" by linarith+
  consider "c < 0x80" | "0x80 \<le> c" "c < 0x800" | "0x800 \<le> c" "c < 0x10000" | "0x10000 \<le> c" by linarith
  then show ?thesis
  proof cases
    case 1
    then show ?thesis by (simp add: utf8_def unat_octet)
  next
    case 2
    then show ?thesis using small(1) low sums(1) by (simp add: utf8_def unat_octet)
  next
    case 3
    then show ?thesis using small(2) low sums(2) by (simp add: utf8_def unat_octet)
  next
    case 4
    then show ?thesis using small(3) low sums(3) by (simp add: utf8_def unat_octet)
  qed
qed

definition first_char :: "byte list \<Rightarrow> nat option" where
  "first_char bytes =
    (let chunk = take (width (hd bytes)) bytes; c = char_value chunk in if scalar c \<and> utf8 c = chunk then Some c else None)"

function reference_convert :: "byte list \<Rightarrow> wstring option" where
  "reference_convert bytes =
    (if bytes = [] then Some []
     else
       case first_char bytes of
         None \<Rightarrow> None
       | Some c \<Rightarrow> map_option ((@) (utf16 c)) (reference_convert (drop (width (hd bytes)) bytes)))"
  by auto

termination
  by (relation "measure length") (auto simp: width_def)

declare reference_convert.simps [simp del]

lemma reference_convert_char: "scalar c \<Longrightarrow> reference_convert (utf8 c @ bs) = map_option ((@) (utf16 c)) (reference_convert bs)"
  using utf8_shape [of c] by (simp add: reference_convert.simps [of "utf8 c @ bs"] first_char_def char_value_utf8)

lemma reference_converter: "utf8_converter reference_convert"
proof -
  have "list_all scalar cs \<Longrightarrow> reference_convert (utf8_text cs) = Some (utf16_text cs)" for cs
    by (induction cs) (simp_all add: reference_convert.simps [of "[]"] reference_convert_char)
  moreover have "reference_convert bytes = Some us \<Longrightarrow> \<exists>cs. list_all scalar cs \<and> bytes = utf8_text cs" for bytes us
  proof (induction bytes arbitrary: us rule: reference_convert.induct)
    case (1 bytes)
    show ?case
    proof (cases "bytes = []")
      case True
      then show ?thesis by (intro exI [of _ "[]"]) simp
    next
      case False
      then obtain c vs where c: "first_char bytes = Some c" and rest: "reference_convert (drop (width (hd bytes)) bytes) = Some vs"
        using "1.prems" by (auto simp: reference_convert.simps [of bytes] split: option.splits)
      obtain cs where "list_all scalar cs" "drop (width (hd bytes)) bytes = utf8_text cs" using "1.IH" [OF False c rest] by blast
      then show ?thesis using c append_take_drop_id [of "width (hd bytes)" bytes]
        by (intro exI [of _ "c # cs"]) (auto simp: first_char_def Let_def split: if_splits)
    qed
  qed
  ultimately show ?thesis unfolding utf8_converter_def by blast
qed

text \<open>The euro sign and a face, cut inside both.\<close>

theorem split_stream_decoded_witness:
  "decode_chunks reference_convert [[0x41, 0xE2], [0x82], [0xAC, 0xF0, 0x9F], [0x98, 0x80]] [] = ([0x41, 0x20AC, 0xD83D, 0xDE00], [])"
proof -
  let ?chunks = "[[0x41, 0xE2], [0x82], [0xAC, 0xF0, 0x9F], [0x98, 0x80]] :: byte list list"
  have "concat ?chunks = utf8_text [0x41, 0x20AC, 0x1F600]" by (simp add: utf8_def octet_def)
  from split_stream_decoded [OF reference_converter _ this] show ?thesis by (simp add: scalar_def utf16_def)
qed

section \<open>A malformed byte\<close>

lemma utf8_bytes: "scalar c \<Longrightarrow> b \<in> set (utf8 c) \<Longrightarrow> b < 0xF5"
  by (cases c rule: utf8_cases) (auto simp: octet_order)

lemma malformed_fails:
  assumes "utf8_converter convert" and "b \<in> set bytes" and "0xF5 \<le> b"
  shows "try_decode convert bytes = None"
proof -
  have "bytes \<noteq> utf8_text cs" if "list_all scalar cs" for cs
  proof
    assume "bytes = utf8_text cs"
    then obtain c where "c \<in> set cs" "b \<in> set (utf8 c)" using assms(2) by auto
    then show False using that utf8_bytes [of c b] assms(3) by (auto simp: list_all_iff)
  qed
  then have "convert bytes = None" using assms(1) unfolding utf8_converter_def by (metis not_None_eq)
  then show ?thesis by (simp add: try_decode_def)
qed

lemma ascii_text:
  "list_all (\<lambda>b. b < 0x80) tail \<Longrightarrow> list_all scalar (map unat tail) \<and> utf8_text (map unat tail) = tail
    \<and> utf16_text (map unat tail) = map ucast tail"
  by (induction tail) (simp_all add: scalar_def utf8_def utf16_def octet_def word_less_nat_alt unsigned_of_nat)

text \<open>
  C32. One byte that cannot occur in UTF-8 (F5 to FF) with at least three ASCII bytes behind it costs all the
  text before it in the same piece: every byte up to and including the malformed one becomes U+FFFD, because
  a prefix is tried with at most three bytes left out. Only the text behind it is decoded.
\<close>

theorem malformed_byte_erases_text:
  assumes "utf8_converter convert" and "0xF5 \<le> b"
    and "list_all (\<lambda>b. b < 0x80) tail" and "3 \<le> length tail" and "length (before @ b # tail) \<le> max_int"
  shows "decode_append convert (before @ b # tail) [] = (replicate (length before + 1) 0xFFFD @ map ucast tail, [])"
proof -
  have plain: "decode_loop convert tail = (map ucast tail, [])"
    using decode_finished [OF assms(1), of "map unat tail"] ascii_text [OF assms(3)] assms(5) by simp
  have skip: "decode_loop convert (x # xs @ tail) = apfst ((#) 0xFFFD) (decode_loop convert (xs @ tail))"
    if "b \<in> set (x # xs)" "length (x # xs @ tail) \<le> max_int" for x xs
  proof -
    let ?bs = "x # xs @ tail"
    have "try_trimmed convert ?bs (trims (length ?bs)) = None"
    proof (rule trimmed_fails)
      fix t
      assume "t \<in> set (trims (length ?bs))"
      then have "t \<le> length tail" using assms(4) by (auto simp: trims_def)
      then have "length ?bs - t = length (x # xs) + (length tail - t)" by simp
      then have "take (length ?bs - t) ?bs = (x # xs) @ take (length tail - t) tail" by (simp only: append_Cons [symmetric] take_append) simp
      then have "b \<in> set (take (length ?bs - t) ?bs)" using that(1) by (simp only: set_append) auto
      then show "try_decode convert (take (length ?bs - t) ?bs) = None" by (rule malformed_fails [OF assms(1) _ assms(2)])
    qed
    moreover have "try_decode convert ?bs = None" using that(1) by (intro malformed_fails [OF assms(1) _ assms(2)]) auto
    ultimately show ?thesis using decode_turn(4) [of ?bs convert] that(2) assms(4) by simp
  qed
  have "decode_loop convert (xs @ b # tail) = (replicate (length xs + 1) 0xFFFD @ map ucast tail, [])"
    if "length (xs @ b # tail) \<le> max_int" for xs
    using that
  proof (induction xs)
    case Nil
    then show ?case using skip [of b "[]"] plain by simp
  next
    case (Cons x xs)
    then show ?case using skip [of x "xs @ [b]"] by simp
  qed
  then show ?thesis using assms(5) by (simp add: decode_append_def)
qed

theorem malformed_byte_erases_text_witness:
  "decode_append reference_convert ([0x68, 0x69, 0x21] @ 0xFF # [0x61, 0x62, 0x63]) [] = ([0xFFFD, 0xFFFD, 0xFFFD, 0xFFFD, 0x61, 0x62, 0x63], [])"
  using malformed_byte_erases_text [OF reference_converter, of "0xFF" "[0x61, 0x62, 0x63]" "[0x68, 0x69, 0x21]"] by simp

end
