(* ===== verification/Host_Signals.thy ===== *)
theory Host_Signals
  imports Input_Queue "HOL-Library.Sublist"
begin

text \<open>
  The signal pipe between two hosts (\<open>host_signals.hpp\<close>, \<open>host_signal_input_thread.cpp\<close>). The host that shows
  the console writes packets, a one-byte code and a payload that starts with its own size; the host that
  owns the console reads them on a thread and does what they ask.

  The operating system is a list of turns of the polling loop: at each turn the stop event is set, a call
  fails, or bytes have arrived and the read takes some of them. When the list ends the thread still waits.
\<close>

section \<open>Packets\<close>

abbreviation error_invalid_handle :: ulong where "error_invalid_handle \<equiv> 6"
abbreviation error_bad_length :: ulong where "error_bad_length \<equiv> 24"
abbreviation error_gen_failure :: ulong where "error_gen_failure \<equiv> 31"
abbreviation error_broken_pipe :: ulong where "error_broken_pipe \<equiv> 109"
abbreviation error_operation_aborted :: ulong where "error_operation_aborted \<equiv> 995"
abbreviation error_cancelled :: ulong where "error_cancelled \<equiv> 1223"

text \<open>A 32-bit field in memory.\<close>

definition le32 :: "ulong \<Rightarrow> byte list" where
  "le32 w = [ucast w, ucast (drop_bit 8 w), ucast (drop_bit 16 w), ucast (drop_bit 24 w)]"

definition of_le32 :: "byte list \<Rightarrow> ulong" where
  "of_le32 bs = ucast (bs ! 0) OR push_bit 8 (ucast (bs ! 1)) OR push_bit 16 (ucast (bs ! 2)) OR push_bit 24 (ucast (bs ! 3))"

definition write_host_signal_packet :: "bool \<Rightarrow> (ulong + nat) \<Rightarrow> byte \<Rightarrow> byte list \<Rightarrow> (ulong + unit) \<times> byte list" where
  "write_host_signal_packet pipe_valid write_file code payload =
    (let packet = code # payload
     in if \<not> pipe_valid then (Inl error_invalid_handle, [])
        else case write_file of
               Inl e \<Rightarrow> (Inl e, [])
             | Inr written \<Rightarrow> (if written \<noteq> length packet then Inl error_gen_failure else Inr (), take written packet))"

abbreviation notify_app :: byte where "notify_app \<equiv> 1"
abbreviation set_foreground :: byte where "set_foreground \<equiv> 5"
abbreviation end_task :: byte where "end_task \<equiv> 7"

definition end_task_payload :: "ulong \<Rightarrow> ulong \<Rightarrow> ulong \<Rightarrow> byte list" where
  "end_task_payload process_id event_type ctrl_flags = le32 16 @ le32 process_id @ le32 event_type @ le32 ctrl_flags"

section \<open>The reader\<close>

datatype turn = StopSet | PeekFails ulong | ReadFails ulong | Ready "byte list" nat

datatype 'a outcome = Got 'a "byte list" "turn list" | Failed ulong | Waiting

definition is_cancellation_error :: "ulong \<Rightarrow> bool" where
  "is_cancellation_error error \<longleftrightarrow> error = error_operation_aborted \<or> error = error_cancelled"

fun got_more :: "byte list \<Rightarrow> byte list outcome \<Rightarrow> byte list outcome" where
  "got_more bs (Got more_bytes buffer ts) = Got (bs @ more_bytes) buffer ts"
| "got_more bs (Failed e) = Failed e"
| "got_more bs Waiting = Waiting"

text \<open>\<open>wanted\<close> bytes are still to be read; \<open>buffer\<close> holds the bytes in the pipe.\<close>

fun read_exact :: "nat \<Rightarrow> byte list \<Rightarrow> turn list \<Rightarrow> byte list outcome" where
  "read_exact wanted buffer [] = (if wanted = 0 then Got [] buffer [] else Waiting)"
| "read_exact wanted buffer (t # ts) =
    (if wanted = 0 then Got [] buffer (t # ts)
     else case t of
            StopSet \<Rightarrow> Failed error_operation_aborted
          | PeekFails e \<Rightarrow> Failed e
          | ReadFails e \<Rightarrow> (if buffer = [] then read_exact wanted buffer ts else Failed e)
          | Ready arrived advanced \<Rightarrow>
              let buffer = buffer @ arrived; to_read = min (min (length buffer) wanted) 0xFFFFFFFF; n = min advanced to_read
              in if buffer = [] then read_exact wanted buffer ts
                 else if n = 0 then Failed error_broken_pipe
                 else got_more (take n buffer) (read_exact (wanted - n) (drop n buffer) ts))"

function discard_exact :: "nat \<Rightarrow> byte list \<Rightarrow> turn list \<Rightarrow> byte list outcome" where
  "discard_exact byte_count buffer ts =
    (if byte_count = 0 then Got [] buffer ts
     else
       let advance = min byte_count 256
       in case read_exact advance buffer ts of
            Got bs buffer ts \<Rightarrow> discard_exact (byte_count - advance) buffer ts
          | Failed e \<Rightarrow> Failed e
          | Waiting \<Rightarrow> Waiting)"
  by auto

termination
  by (relation "measure (\<lambda>(byte_count, buffer, ts). byte_count)") auto

declare discard_exact.simps [simp del]

definition receive_typed_packet :: "nat \<Rightarrow> byte list \<Rightarrow> turn list \<Rightarrow> byte list outcome" where
  "receive_typed_packet size_of buffer ts =
    (case read_exact size_of buffer ts of
       Failed e \<Rightarrow> Failed e
     | Waiting \<Rightarrow> Waiting
     | Got payload buffer ts \<Rightarrow>
         let size_in_bytes = unat (of_le32 payload)
         in if size_in_bytes < size_of then Failed error_bad_length
            else case discard_exact (size_in_bytes - size_of) buffer ts of
                   Failed e \<Rightarrow> Failed e
                 | Waiting \<Rightarrow> Waiting
                 | Got _ buffer ts \<Rightarrow> Got payload buffer ts)"

text \<open>The calls on the target, and the three packets.\<close>

datatype signal = NotifyApp ulong | SetForeground ulong bool | EndTask ulong ulong ulong | PipeDisconnected

definition signal_size :: "byte \<Rightarrow> nat option" where
  "signal_size code = (if code = notify_app then Some 8 else if code = set_foreground then Some 12 else if code = end_task then Some 16 else None)"

definition signal_of :: "byte \<Rightarrow> byte list \<Rightarrow> signal" where
  "signal_of code payload =
    (let process_id = of_le32 (drop 4 payload)
     in if code = notify_app then NotifyApp process_id
        else if code = set_foreground then SetForeground process_id (payload ! 8 \<noteq> 0)
        else EndTask process_id (of_le32 (drop 8 payload)) (of_le32 (drop 12 payload)))"

datatype thread_status = Ended | StillWaiting

definition read_failed :: "ulong \<Rightarrow> signal list \<times> thread_status" where
  "read_failed error = (if is_cancellation_error error then [] else [PipeDisconnected], Ended)"

text \<open>Nothing is lost or made up between the pipe and the reader.\<close>

fun arrived :: "turn \<Rightarrow> byte list" where
  "arrived (Ready bs advanced) = bs"
| "arrived _ = []"

abbreviation arrivals :: "turn list \<Rightarrow> byte list" where "arrivals ts \<equiv> concat (map arrived ts)"

lemma got_more_Got: "got_more bs r = Got p b ts \<longleftrightarrow> (\<exists>q. r = Got q b ts \<and> p = bs @ q)"
  by (cases r) auto

lemma read_exact_ready:
  assumes "wanted \<noteq> 0"
  obtains (empty) "buffer @ bs = []" "read_exact wanted buffer (Ready bs k # ts) = read_exact wanted [] ts"
  | (broken) "read_exact wanted buffer (Ready bs k # ts) = Failed error_broken_pipe" "k = 0"
  | (some) n where "0 < n" "n \<le> wanted" "n \<le> length (buffer @ bs)"
      "read_exact wanted buffer (Ready bs k # ts) = got_more (take n (buffer @ bs)) (read_exact (wanted - n) (drop n (buffer @ bs)) ts)"
proof -
  define n where "n = min k (min (min (length (buffer @ bs)) wanted) 0xFFFFFFFF)"
  have n: "n \<le> wanted" "n \<le> length (buffer @ bs)" by (simp_all add: n_def)
  consider "buffer @ bs = []" | "buffer @ bs \<noteq> []" "n = 0" | "buffer @ bs \<noteq> []" "n \<noteq> 0" by blast
  then show thesis
  proof cases
    case 1
    then show thesis using assms by (intro empty) (simp_all add: Let_def)
  next
    case 2
    then have "k = 0" using assms by (auto simp: n_def min_def split: if_splits)
    then show thesis using 2 assms by (intro broken) (auto simp: Let_def)
  next
    case 3
    have "read_exact wanted buffer (Ready bs k # ts) = got_more (take n (buffer @ bs)) (read_exact (wanted - n) (drop n (buffer @ bs)) ts)"
      unfolding read_exact.simps turn.case Let_def n_def [symmetric] using 3 assms by (simp only: if_False)
    then show thesis using 3 n by (intro some) auto
  qed
qed

lemma read_exact_got:
  "read_exact n b ts = Got p b' ts' \<Longrightarrow>
    length p = n \<and> p @ b' @ arrivals ts' = b @ arrivals ts \<and> length ts' \<le> length ts \<and> (0 < n \<longrightarrow> length ts' < length ts)"
proof (induction ts arbitrary: n b p)
  case (Cons t ts)
  show ?case
  proof (cases "n = 0")
    case False
    show ?thesis
    proof (cases t)
      case (Ready bs k)
      show ?thesis
      proof (rule read_exact_ready [OF False, of b bs k ts])
        assume "b @ bs = []" "read_exact n b (Ready bs k # ts) = read_exact n [] ts"
        then show ?thesis using Cons.IH [of n "[]" p] Cons.prems Ready by auto
      next
        fix m
        assume m: "0 < m" "m \<le> n" "m \<le> length (b @ bs)"
          and step: "read_exact n b (Ready bs k # ts) = got_more (take m (b @ bs)) (read_exact (n - m) (drop m (b @ bs)) ts)"
        from Cons.prems have "got_more (take m (b @ bs)) (read_exact (n - m) (drop m (b @ bs)) ts) = Got p b' ts'" unfolding Ready step .
        then obtain q where q: "read_exact (n - m) (drop m (b @ bs)) ts = Got q b' ts'" "p = take m (b @ bs) @ q"
          unfolding got_more_Got by blast
        have "length q = n - m" "q @ b' @ arrivals ts' = drop m (b @ bs) @ arrivals ts" "length ts' \<le> length ts"
          using Cons.IH [OF q(1)] by auto
        moreover have "take m (b @ bs) @ drop m (b @ bs) @ arrivals ts = b @ arrivals (t # ts)"
          using Ready by (simp only: append_assoc [symmetric] append_take_drop_id) simp
        ultimately show ?thesis using m q(2) by (simp only: append_assoc) simp
      qed (use Cons.prems Ready in simp)
    next
      case (ReadFails e)
      then show ?thesis using Cons False by (fastforce split: if_splits)
    qed (use Cons.prems False in auto)
  qed (use Cons.prems in simp)
qed (auto split: if_splits)

lemma discard_exact_turns: "discard_exact n b ts = Got p b' ts' \<Longrightarrow> length ts' \<le> length ts"
proof (induction n b ts rule: discard_exact.induct)
  case (1 n b ts)
  then show ?case using read_exact_got [of "min n 256" b ts]
    by (cases "read_exact (min n 256) b ts") (fastforce simp: discard_exact.simps [of n b ts] Let_def split: if_splits)+
qed

lemma receive_turns: "receive_typed_packet n b ts = Got p b' ts' \<Longrightarrow> length ts' \<le> length ts"
  by (force simp: receive_typed_packet_def Let_def dest: read_exact_got discard_exact_turns split: outcome.splits if_splits)

function thread_proc :: "byte list \<Rightarrow> turn list \<Rightarrow> signal list \<times> thread_status" where
  "thread_proc buffer ts =
    (case read_exact 1 buffer ts of
       Failed e \<Rightarrow> read_failed e
     | Waiting \<Rightarrow> ([], StillWaiting)
     | Got code buffer ts \<Rightarrow>
         (case signal_size (code ! 0) of
            None \<Rightarrow> ([PipeDisconnected], Ended)
          | Some size_of \<Rightarrow>
              (case receive_typed_packet size_of buffer ts of
                 Failed e \<Rightarrow> read_failed e
               | Waiting \<Rightarrow> ([], StillWaiting)
               | Got payload buffer ts \<Rightarrow> apfst ((#) (signal_of (code ! 0) payload)) (thread_proc buffer ts))))"
  by auto

termination
  by (relation "measure (\<lambda>(buffer, ts). length ts)") (auto dest!: read_exact_got receive_turns)

declare thread_proc.simps [simp del]

section \<open>What the reader makes of a stream\<close>

text \<open>A message as any host may send it: a signal, the padding of its structure and more bytes than this reader knows.\<close>

record message =
  mg_signal :: signal
  mg_padding :: "byte list"
  mg_extra :: "byte list"

fun signal_code :: "signal \<Rightarrow> byte" where
  "signal_code (NotifyApp pid) = notify_app"
| "signal_code (SetForeground pid is_foreground) = set_foreground"
| "signal_code _ = end_task"

fun signal_fields :: "signal \<Rightarrow> byte list \<Rightarrow> byte list" where
  "signal_fields (NotifyApp pid) padding = le32 pid"
| "signal_fields (SetForeground pid is_foreground) padding = le32 pid @ (if is_foreground then 1 else 0) # padding"
| "signal_fields (EndTask pid event flags) padding = le32 pid @ le32 event @ le32 flags"
| "signal_fields PipeDisconnected padding = []"

definition message_payload :: "message \<Rightarrow> byte list" where
  "message_payload m =
    (let fields = signal_fields (mg_signal m) (mg_padding m) in le32 (of_nat (4 + length fields + length (mg_extra m))) @ fields)"

definition message_bytes :: "message \<Rightarrow> byte list" where
  "message_bytes m = signal_code (mg_signal m) # message_payload m @ mg_extra m"

definition message_ok :: "message \<Rightarrow> bool" where
  "message_ok m \<longleftrightarrow> mg_signal m \<noteq> PipeDisconnected \<and> length (mg_padding m) = 3 \<and> length (mg_extra m) < 0xFFFFFF00"

lemma le32_length [simp]: "length (le32 w) = 4"
  by (simp add: le32_def)

lemma of_le32_le32 [simp]: "of_le32 (le32 w @ bs) = w"
proof (rule bit_word_eqI)
  fix n
  assume "n < LENGTH(32)"
  then consider "n < 8" | "8 \<le> n" "n < 16" | "16 \<le> n" "n < 24" | "24 \<le> n" "n < 32" by force
  then show "bit (of_le32 (le32 w @ bs)) n = bit w n"
    by cases (auto simp: of_le32_def le32_def bit_simps)
qed

lemma of_le32_alone [simp]: "of_le32 (le32 w) = w"
  using of_le32_le32 [of w "[]"] by simp

lemma payload_read:
  assumes "message_ok m"
  shows "signal_size (signal_code (mg_signal m)) = Some (length (message_payload m))"
    and "unat (of_le32 (message_payload m)) = length (message_payload m) + length (mg_extra m)"
    and "signal_of (signal_code (mg_signal m)) (message_payload m) = mg_signal m"
  using assms
  by (cases "mg_signal m"; simp add: message_ok_def message_payload_def signal_size_def signal_of_def Let_def
      unsigned_of_nat take_bit_nat_eq_self nth_append del: of_nat_add of_nat_Suc; fail)+

lemma discard_exact_got:
  "discard_exact n b ts = Got p b' ts' \<Longrightarrow> \<exists>d. length d = n \<and> d @ b' @ arrivals ts' = b @ arrivals ts"
proof (induction n b ts rule: discard_exact.induct)
  case (1 n b ts)
  show ?case
  proof (cases "n = 0")
    case False
    then obtain q b1 ts1 where q: "read_exact (min n 256) b ts = Got q b1 ts1" and rest: "discard_exact (n - min n 256) b1 ts1 = Got p b' ts'"
      using "1.prems" by (auto simp: discard_exact.simps [of n b ts] Let_def split: outcome.splits)
    obtain d where "length d = n - min n 256" "d @ b' @ arrivals ts' = b1 @ arrivals ts1" using "1.IH" [OF False refl q rest] by blast
    then show ?thesis using read_exact_got [OF q] by (intro exI [of _ "q @ d"]) auto
  qed (use "1.prems" in \<open>simp add: discard_exact.simps\<close>)
qed

lemma receive_got:
  assumes "receive_typed_packet n b ts = Got p b' ts'"
  shows "length p = n \<and> n \<le> unat (of_le32 p) \<and> (\<exists>d. length d = unat (of_le32 p) - n \<and> p @ d @ b' @ arrivals ts' = b @ arrivals ts)"
proof -
  obtain b1 ts1 e where p: "read_exact n b ts = Got p b1 ts1" and size: "n \<le> unat (of_le32 p)"
    and d: "discard_exact (unat (of_le32 p) - n) b1 ts1 = Got e b' ts'"
    using assms by (force simp: receive_typed_packet_def Let_def split: outcome.splits if_splits)
  show ?thesis using read_exact_got [OF p] discard_exact_got [OF d] size by force
qed

text \<open>One message at the front of the stream.\<close>

lemma message_front:
  assumes m: "message_ok m" and stream: "prefix (b @ arrivals ts) (message_bytes m @ rest)"
    and code: "read_exact 1 b ts = Got c b1 ts1"
  shows "c = [signal_code (mg_signal m)]"
    and "receive_typed_packet (length (message_payload m)) b1 ts1 = Got p b2 ts2
      \<Longrightarrow> p = message_payload m \<and> prefix (b2 @ arrivals ts2) rest"
proof -
  have c: "length c = 1" "c @ b1 @ arrivals ts1 = b @ arrivals ts" using read_exact_got [OF code] by auto
  then obtain x where x: "c = [x]" by (auto simp: length_Suc_conv)
  then show "c = [signal_code (mg_signal m)]" using stream unfolding c(2) [symmetric] by (simp add: message_bytes_def)
  have after: "prefix (b1 @ arrivals ts1) (message_payload m @ mg_extra m @ rest)"
    using stream x unfolding c(2) [symmetric] by (simp add: message_bytes_def)
  assume "receive_typed_packet (length (message_payload m)) b1 ts1 = Got p b2 ts2"
  from receive_got [OF this] obtain d where d: "length p = length (message_payload m)"
    "length d = unat (of_le32 p) - length (message_payload m)" "p @ d @ b2 @ arrivals ts2 = b1 @ arrivals ts1" by blast
  from after d(1) have p: "p = message_payload m" unfolding d(3) [symmetric] by (auto simp: prefix_def)
  with d(2) payload_read(2) [OF m] have "length d = length (mg_extra m)" by simp
  with after p have "prefix (b2 @ arrivals ts2) rest" unfolding d(3) [symmetric] by (auto simp: prefix_def)
  with p show "p = message_payload m \<and> prefix (b2 @ arrivals ts2) rest" ..
qed

lemma thread_calls:
  assumes "list_all message_ok ms" and "prefix (b @ arrivals ts) (concat (map message_bytes ms))"
  shows "\<exists>k. fst (thread_proc b ts) \<in> {map mg_signal (take k ms), map mg_signal (take k ms) @ [PipeDisconnected]}"
  using assms
proof (induction ms arbitrary: b ts)
  case Nil
  then have flow: "b @ arrivals ts = []" by (simp only: list.map concat.simps prefix_Nil)
  have "read_exact 1 b ts \<noteq> Got c b1 ts1" for c b1 ts1
    using read_exact_got [of 1 b ts c b1 ts1] unfolding flow by (metis append_is_Nil_conv length_0_conv zero_neq_one)
  then show ?case by (cases "read_exact 1 b ts") (auto simp: thread_proc.simps [of b ts] read_failed_def)
next
  case (Cons m ms)
  have m: "message_ok m" and stream: "prefix (b @ arrivals ts) (message_bytes m @ concat (map message_bytes ms))" using Cons.prems by auto
  have none: ?case if "fst (thread_proc b ts) \<in> {[], [PipeDisconnected]}" using that by (intro exI [of _ 0]) simp
  show ?case
  proof (cases "read_exact 1 b ts")
    case (Got c b1 ts1)
    note front = message_front [OF m stream Got]
    let ?n = "length (message_payload m)"
    show ?thesis
    proof (cases "receive_typed_packet ?n b1 ts1")
      case receive: (Got p b2 ts2)
      have p: "p = message_payload m" "prefix (b2 @ arrivals ts2) (concat (map message_bytes ms))" using front(2) [OF receive] by auto
      have "fst (thread_proc b ts) = mg_signal m # fst (thread_proc b2 ts2)"
        using Got receive front(1) p(1) payload_read [OF m] by (simp add: thread_proc.simps [of b ts])
      moreover obtain k where "fst (thread_proc b2 ts2) \<in> {map mg_signal (take k ms), map mg_signal (take k ms) @ [PipeDisconnected]}"
        using Cons.IH [OF _ p(2)] Cons.prems(1) by auto
      ultimately show ?thesis by (intro exI [of _ "Suc k"]) auto
    qed (use Got front(1) payload_read(1) [OF m] none in \<open>simp_all add: thread_proc.simps [of b ts] read_failed_def\<close>)
  qed (use none in \<open>simp_all add: thread_proc.simps [of b ts] read_failed_def\<close>)
qed

text \<open>Turns that move on, and enough of them for the bytes in the pipe.\<close>

fun moves_on :: "turn \<Rightarrow> bool" where
  "moves_on (Ready bs advanced) = (0 < advanced)"
| "moves_on _ = False"

definition enough :: "byte list \<Rightarrow> turn list \<Rightarrow> bool" where
  "enough b ts \<longleftrightarrow> list_all moves_on ts \<and> (\<exists>vs us. ts = vs @ us \<and> arrivals us = [] \<and> length (b @ arrivals vs) \<le> length us)"

lemma enoughI: "ts = vs @ us \<Longrightarrow> list_all moves_on ts \<Longrightarrow> arrivals us = [] \<Longrightarrow> length (b @ arrivals vs) \<le> length us \<Longrightarrow> enough b ts"
  unfolding enough_def by blast

lemma enough_nil: "enough b [] \<Longrightarrow> b = []"
  by (simp add: enough_def)

lemma enough_step:
  assumes "enough b (Ready bs k # ts)"
  shows "0 < k" and "b @ bs = [] \<Longrightarrow> enough [] ts" and "0 < n \<Longrightarrow> n \<le> length (b @ bs) \<Longrightarrow> enough (drop n (b @ bs)) ts"
proof -
  obtain vs us where split: "Ready bs k # ts = vs @ us" "arrivals us = []" "length (b @ arrivals vs) \<le> length us"
    and moves: "list_all moves_on (Ready bs k # ts)" using assms unfolding enough_def by blast
  from moves show "0 < k" by simp
  have "(b @ bs = [] \<longrightarrow> enough [] ts) \<and> (0 < n \<and> n \<le> length (b @ bs) \<longrightarrow> enough (drop n (b @ bs)) ts)"
  proof (cases vs)
    case Nil
    then have "bs = []" "arrivals ts = []" using split by auto
    then show ?thesis using split moves Nil by (auto intro!: enoughI [of ts "[]" ts])
  next
    case (Cons v vs')
    then show ?thesis using split moves by (auto intro!: enoughI [OF refl, of vs' us])
  qed
  then show "b @ bs = [] \<Longrightarrow> enough [] ts" "0 < n \<Longrightarrow> n \<le> length (b @ bs) \<Longrightarrow> enough (drop n (b @ bs)) ts" by auto
qed

lemma read_exact_enough:
  "enough b ts \<Longrightarrow> n \<le> length (b @ arrivals ts) \<Longrightarrow> \<exists>p b' ts'. read_exact n b ts = Got p b' ts' \<and> enough b' ts'"
proof (induction ts arbitrary: n b)
  case Nil
  then show ?case using enough_nil [of b] by auto
next
  case (Cons t ts)
  show ?case
  proof (cases "n = 0")
    case False
    obtain bs k where t: "t = Ready bs k" using Cons.prems(1) by (cases t) (auto simp: enough_def)
    note step = enough_step [OF Cons.prems(1) [unfolded t]]
    show ?thesis
    proof (rule read_exact_ready [OF False, of b bs k ts])
      assume e: "b @ bs = []" "read_exact n b (Ready bs k # ts) = read_exact n [] ts"
      then show ?thesis using Cons.IH [of "[]" n] step(2) Cons.prems(2) t by auto
    next
      fix m
      assume m: "0 < m" "m \<le> n" "m \<le> length (b @ bs)"
        and r: "read_exact n b (Ready bs k # ts) = got_more (take m (b @ bs)) (read_exact (n - m) (drop m (b @ bs)) ts)"
      have "n - m \<le> length (drop m (b @ bs) @ arrivals ts)" using Cons.prems(2) m t by simp
      from Cons.IH [OF step(3) [OF m(1,3)] this] obtain p b' ts' where "read_exact (n - m) (drop m (b @ bs)) ts = Got p b' ts'" "enough b' ts'" by blast
      then show ?thesis unfolding t r by simp
    qed (use step(1) in simp)
  qed (use Cons.prems in simp)
qed

lemma discard_exact_enough:
  "enough b ts \<Longrightarrow> n \<le> length (b @ arrivals ts) \<Longrightarrow> \<exists>p b' ts'. discard_exact n b ts = Got p b' ts' \<and> enough b' ts'"
proof (induction n b ts rule: discard_exact.induct)
  case (1 n b ts)
  show ?case
  proof (cases "n = 0")
    case False
    have "min n 256 \<le> length (b @ arrivals ts)" using "1.prems"(2) by simp
    then obtain q b1 ts1 where q: "read_exact (min n 256) b ts = Got q b1 ts1" "enough b1 ts1"
      using read_exact_enough [OF "1.prems"(1)] by blast
    have "length q = min n 256" "q @ b1 @ arrivals ts1 = b @ arrivals ts" using read_exact_got [OF q(1)] by auto
    then have "min n 256 + length (b1 @ arrivals ts1) = length (b @ arrivals ts)" by (metis length_append)
    then have "n - min n 256 \<le> length (b1 @ arrivals ts1)" using "1.prems"(2) by linarith
    from "1.IH" [OF False refl q(1) q(2) this] show ?thesis using q(1) False by (simp add: discard_exact.simps [of n b ts])
  qed (use "1.prems" in \<open>simp add: discard_exact.simps\<close>)
qed

lemma message_received:
  assumes m: "message_ok m" and stream: "b @ arrivals ts = message_bytes m @ rest" and turns: "enough b ts"
  obtains b2 ts2 where "thread_proc b ts = apfst ((#) (mg_signal m)) (thread_proc b2 ts2)" "b2 @ arrivals ts2 = rest" "enough b2 ts2"
proof -
  have "1 \<le> length (b @ arrivals ts)" unfolding stream by (simp add: message_bytes_def)
  then obtain c b1 ts1 where c: "read_exact 1 b ts = Got c b1 ts1" "enough b1 ts1" using read_exact_enough [OF turns] by blast
  have code: "c = [signal_code (mg_signal m)]" using message_front(1) [OF m _ c(1), of rest] stream by simp
  then have after: "b1 @ arrivals ts1 = message_payload m @ mg_extra m @ rest" using read_exact_got [OF c(1)] stream by (simp add: message_bytes_def)
  let ?n = "length (message_payload m)"
  have "?n \<le> length (b1 @ arrivals ts1)" unfolding after by simp
  then obtain p b3 ts3 where p: "read_exact ?n b1 ts1 = Got p b3 ts3" "enough b3 ts3" using read_exact_enough [OF c(2)] by blast
  have got: "p = message_payload m" "b3 @ arrivals ts3 = mg_extra m @ rest" using read_exact_got [OF p(1)] after by auto
  have "length (mg_extra m) \<le> length (b3 @ arrivals ts3)" unfolding got(2) by simp
  then obtain e b2 ts2 where e: "discard_exact (length (mg_extra m)) b3 ts3 = Got e b2 ts2" "enough b2 ts2"
    using discard_exact_enough [OF p(2)] by blast
  have rest: "b2 @ arrivals ts2 = rest" using discard_exact_got [OF e(1)] got(2) by auto
  have "receive_typed_packet ?n b1 ts1 = Got p b2 ts2" using p(1) e(1) got(1) payload_read(2) [OF m] by (simp add: receive_typed_packet_def)
  then have "thread_proc b ts = apfst ((#) (mg_signal m)) (thread_proc b2 ts2)"
    using c(1) code got(1) payload_read [OF m] by (simp add: thread_proc.simps [of b ts])
  then show thesis using rest e(2) by (rule that)
qed

lemma thread_reads_all:
  "list_all message_ok ms \<Longrightarrow> b @ arrivals ts = concat (map message_bytes ms) \<Longrightarrow> enough b ts
    \<Longrightarrow> thread_proc b ts = (map mg_signal ms, StillWaiting)"
proof (induction ms arbitrary: b ts)
  case Nil
  have "list_all moves_on us \<Longrightarrow> arrivals us = [] \<Longrightarrow> read_exact 1 [] us = Waiting" for us
    by (induction us rule: list.induct) (auto simp: Let_def elim!: moves_on.elims)
  then show ?case using Nil by (simp add: thread_proc.simps enough_def)
next
  case (Cons m ms)
  obtain b2 ts2 where "thread_proc b ts = apfst ((#) (mg_signal m)) (thread_proc b2 ts2)"
    "b2 @ arrivals ts2 = concat (map message_bytes ms)" "enough b2 ts2"
    by (rule message_received [of m b ts "concat (map message_bytes ms)"]) (use Cons.prems in auto)
  then show ?case using Cons by simp
qed

text \<open>
  C16. Every signal that a host sends arrives, in order and once: however the pipe cuts the bytes, and
  also when a sender appends fields that this reader does not know, the thread makes exactly the calls
  that the messages ask for and goes on waiting. \<open>us\<close> are turns without new bytes in which the reader
  catches up.
\<close>

theorem signals_delivered:
  assumes "list_all message_ok ms" and "arrivals ts = concat (map message_bytes ms)" and "list_all moves_on (ts @ us)"
    and "arrivals us = []" and "length (arrivals ts) \<le> length us"
  shows "thread_proc [] (ts @ us) = (map mg_signal ms, StillWaiting)"
proof (rule thread_reads_all [OF assms(1)])
  show "enough [] (ts @ us)" using assms(3-5) by (intro enoughI [OF refl]) simp_all
qed (use assms(2,4) in simp)

theorem signals_delivered_witness:
  "thread_proc [] ([Ready [1, 10, 0, 0] 9, Ready [0, 0x34, 0x12, 0, 0, 9] 2, Ready [] 1, Ready [9] 2] @ replicate 11 (Ready [] 3)) =
    ([NotifyApp 0x1234], StillWaiting)"
proof -
  let ?m = "\<lparr>mg_signal = NotifyApp 0x1234, mg_padding = [0, 0, 0], mg_extra = [9, 9]\<rparr>"
  have "drop_bit n (0x1234 :: ulong) = 0x1234 div 2 ^ n" for n by (simp add: drop_bit_eq_div)
  moreover have "drop_bit n (10 :: ulong) = 10 div 2 ^ n" for n by (simp add: drop_bit_eq_div)
  ultimately have "concat (map message_bytes [?m]) = [1, 10, 0, 0, 0, 0x34, 0x12, 0, 0, 9, 9]"
    by (simp add: message_bytes_def message_payload_def le32_def)
  with signals_delivered [of "[?m]" "[Ready [1, 10, 0, 0] 9, Ready [0, 0x34, 0x12, 0, 0, 9] 2, Ready [] 1, Ready [9] 2]" "replicate 11 (Ready [] 3)"]
  show ?thesis by (simp add: message_ok_def list_all_iff)
qed

text \<open>
  C17. The thread never acts on what was not sent: whatever fails, and whenever the stop event is set, the calls it has
  made are those of the first messages, with the news that the pipe is gone after them at most.
\<close>

theorem signals_never_invented:
  assumes "list_all message_ok ms" and "prefix (arrivals ts) (concat (map message_bytes ms))"
  shows "\<exists>k. fst (thread_proc [] ts) \<in> {map mg_signal (take k ms), map mg_signal (take k ms) @ [PipeDisconnected]}"
  using thread_calls [OF assms(1), of "[]" ts] assms(2) by simp

theorem signals_never_invented_witness:
  "\<exists>k. fst (thread_proc [] [Ready [1, 8, 0, 0, 0, 7] 9, PeekFails 109]) \<in>
    {take k [NotifyApp 7], take k [NotifyApp 7] @ [PipeDisconnected]}"
proof -
  let ?m = "\<lparr>mg_signal = NotifyApp 7, mg_padding = [0, 0, 0], mg_extra = []\<rparr>"
  have "drop_bit n (7 :: ulong) = 7 div 2 ^ n" "drop_bit n (8 :: ulong) = 8 div 2 ^ n" for n by (simp_all add: drop_bit_eq_div)
  then have "concat (map message_bytes [?m]) = [1, 8, 0, 0, 0, 7, 0, 0, 0]"
    by (simp add: message_bytes_def message_payload_def le32_def)
  with signals_never_invented [of "[?m]" "[Ready [1, 8, 0, 0, 0, 7] 9, PeekFails 109]"]
  show ?thesis by (simp add: message_ok_def take_map [symmetric])
qed

section \<open>From the server to the host that owns the console\<close>

text \<open>The bytes that \<open>send_end_task\<close> puts into the pipe when every write succeeds.\<close>

definition end_task_bytes :: "ulong \<times> ulong \<times> ulong \<Rightarrow> byte list" where
  "end_task_bytes task =
    (case task of (pid, event, flags) \<Rightarrow> snd (write_host_signal_packet True (Inr 17) end_task (end_task_payload pid event flags)))"

lemma end_task_message: "end_task_bytes (pid, event, flags) = message_bytes \<lparr>mg_signal = EndTask pid event flags, mg_padding = [0, 0, 0], mg_extra = []\<rparr>"
  by (simp add: end_task_bytes_def write_host_signal_packet_def end_task_payload_def message_bytes_def message_payload_def)

text \<open>
  C15. Control-C reaches the processes: the packets that the server writes for the connected processes make the other host's
  thread end the task of each of them with the control-C event, in the same order, and nothing else.
\<close>

theorem ctrl_c_reaches_processes:
  assumes "ho_signal_pipe h" and "ho_end_tasks h = []"
    and "arrivals ts = concat (map end_task_bytes (ho_end_tasks (forward_ctrl_c pids h)))"
    and "list_all moves_on (ts @ us)" and "arrivals us = []" and "length (arrivals ts) \<le> length us"
  shows "thread_proc [] (ts @ us) = (map (\<lambda>pid. EndTask pid 0 1) pids, StillWaiting)"
proof -
  let ?ms = "map (\<lambda>pid. \<lparr>mg_signal = EndTask pid 0 1, mg_padding = [0, 0, 0], mg_extra = []\<rparr>) pids"
  have "ho_end_tasks (fold (\<lambda>pid. send_end_task pid 0 1) pids h') = ho_end_tasks h' @ map (\<lambda>pid. (pid, 0, 1)) pids" if "ho_signal_pipe h'" for h'
    using that by (induction pids arbitrary: h') (simp_all add: send_end_task_def)
  then have "ho_end_tasks (forward_ctrl_c pids h) = map (\<lambda>pid. (pid, 0, 1)) pids" using assms(1,2) by (simp add: forward_ctrl_c_def)
  then have "arrivals ts = concat (map message_bytes ?ms)" using assms(3) by (simp add: end_task_message comp_def)
  moreover have "list_all message_ok ?ms" by (simp add: list_all_iff message_ok_def)
  moreover have "enough [] (ts @ us)" using assms(4-6) by (intro enoughI [OF refl]) simp_all
  ultimately have "thread_proc [] (ts @ us) = (map mg_signal ?ms, StillWaiting)" using assms(5) by (intro thread_reads_all) simp_all
  then show ?thesis by (simp add: comp_def)
qed

theorem ctrl_c_reaches_processes_witness:
  "thread_proc [] ([Ready (end_task_bytes (5, 0, 1) @ end_task_bytes (6, 0, 1)) 4] @ replicate 34 (Ready [] 4)) =
    ([EndTask 5 0 1, EndTask 6 0 1], StillWaiting)"
proof -
  let ?h = "\<lparr>ho_queue = new_queue None, ho_output = True, ho_signal_pipe = True, ho_end_tasks = []\<rparr>"
  have "length (end_task_bytes task) = 17" for task
    by (simp add: end_task_bytes_def write_host_signal_packet_def end_task_payload_def split: prod.split)
  then show ?thesis
    using ctrl_c_reaches_processes [of ?h "[Ready (end_task_bytes (5, 0, 1) @ end_task_bytes (6, 0, 1)) 4]" "[5, 6]" "replicate 34 (Ready [] 4)"]
    by (simp add: forward_ctrl_c_def send_end_task_def list_all_iff)
qed

text \<open>A code that the reader does not know ends the stream, with whatever follows it.\<close>

lemma unknown_signal_ends_stream:
  assumes "signal_size code = None" and "0 < k"
  shows "thread_proc [] (Ready (code # bs) k # ts) = ([PipeDisconnected], Ended)"
proof (rule read_exact_ready [of 1 "[]" "code # bs" k ts])
  fix n :: nat
  assume "0 < n" "n \<le> 1" and r: "read_exact 1 [] (Ready (code # bs) k # ts) =
      got_more (take n ([] @ code # bs)) (read_exact (1 - n) (drop n ([] @ code # bs)) ts)"
  then have "n = 1" by simp
  then have "read_exact 1 [] (Ready (code # bs) k # ts) = Got [code] bs ts" using r by (cases ts) simp_all
  then show ?thesis using assms(1) by (simp only: thread_proc.simps [of "[]"]) simp
qed (use assms(2) in simp_all)

end
