(* ===== verification/Command_Line.thy ===== *)
theory Command_Line
  imports Fast_Number
begin

text \<open>
  The command line of the host (\<open>console_arguments.cpp\<close>): switches are read from the left up to the
  beginning of the client's command line, which is put together again with quotes and
  backslashes. The main result is that the client gets the tokens it was meant to get.

  \<open>CommandLineToArgvW\<close> is a parameter; \<open>argv_documented\<close> states what its documentation says.
\<close>

section \<open>Quoting\<close>

abbreviation quote :: wchar where "quote \<equiv> 0x22"
abbreviation backslash :: wchar where "backslash \<equiv> 0x5C"

definition blank :: "wchar \<Rightarrow> bool" where
  "blank ch \<longleftrightarrow> ch = 0x20 \<or> ch = 0x09"

text \<open>The loop of \<open>escape_argument\<close>, with the number of backslashes before the character; it gives that at the end, too.\<close>

fun escape_loop :: "nat \<Rightarrow> wstring \<Rightarrow> wstring \<times> nat" where
  "escape_loop slash_count [] = ([], slash_count)"
| "escape_loop slash_count (ch # rest) =
    (if ch = backslash then let (out, n) = escape_loop (slash_count + 1) rest in (backslash # out, n)
     else if ch = quote then let (out, n) = escape_loop 0 rest in (replicate slash_count backslash @ [backslash, quote] @ out, n)
     else let (out, n) = escape_loop 0 rest in (ch # out, n))"

definition escape_argument :: "wstring \<Rightarrow> wstring" where
  "escape_argument arg =
    (if arg = [] then [quote, quote]
     else
       let has_space = list_ex blank arg
       in if \<not> has_space \<and> \<not> list_ex (\<lambda>ch. ch = quote \<or> ch = backslash) arg then arg
          else let (out, slash_count) = escape_loop 0 arg
               in if has_space then quote # out @ replicate slash_count backslash @ [quote] else out)"

fun client_line :: "wstring list \<Rightarrow> wstring" where
  "client_line [] = []"
| "client_line [t] = escape_argument t"
| "client_line (t # ts) = escape_argument t @ 0x20 # client_line ts"

section \<open>Switches\<close>

record ConsoleArguments =
  ca_command_line :: wstring
  ca_client_command_line :: wstring
  ca_vt_in_handle :: "64 word"
  ca_vt_out_handle :: "64 word"
  ca_text_measurement :: wstring
  ca_force_no_handoff :: bool
  ca_force_v1 :: bool
  ca_vt_mode_requested :: bool
  ca_headless :: bool
  ca_width :: "16 word"
  ca_height :: "16 word"
  ca_run_as_com_server :: bool
  ca_delegated_window :: bool
  ca_create_server_handle :: bool
  ca_server_handle :: "64 word"
  ca_signal_handle :: "64 word"
  ca_inherit_cursor :: bool

definition new_arguments :: "wstring \<Rightarrow> 64 word \<Rightarrow> 64 word \<Rightarrow> ConsoleArguments" where
  "new_arguments command_line std_in std_out =
    \<lparr>ca_command_line = command_line, ca_client_command_line = [], ca_vt_in_handle = std_in, ca_vt_out_handle = std_out,
     ca_text_measurement = [], ca_force_no_handoff = False, ca_force_v1 = False, ca_vt_mode_requested = False, ca_headless = False,
     ca_width = 0, ca_height = 0, ca_run_as_com_server = False, ca_delegated_window = False, ca_create_server_handle = True,
     ca_server_handle = 0, ca_signal_handle = 0, ca_inherit_cursor = False\<rparr>"

definition wide :: "string \<Rightarrow> wstring" where
  "wide s = map of_char s"

definition starts_with :: "wstring \<Rightarrow> wstring \<Rightarrow> bool" where
  "starts_with text prefix \<longleftrightarrow> length text \<ge> length prefix \<and> take (length prefix) text = prefix"

definition parse_handle_arg :: "wstring \<Rightarrow> 64 word \<Rightarrow> string + 64 word" where
  "parse_handle_arg handle_text handle_value =
    (if handle_value \<noteq> 0 then Inl ''Handle value was already set''
     else case parse_hex_u64 handle_text True of
            Inl e \<Rightarrow> Inl ''Invalid handle value''
          | Inr v \<Rightarrow> if v = 0 then Inl ''Invalid handle value'' else Inr v)"

text \<open>
  The index of the code is never advanced, so the token it looks at is the first that is left.
  \<open>with_value\<close> is \<open>get_string_argument\<close>.
\<close>

definition with_value :: "wstring list \<Rightarrow> (wstring \<Rightarrow> wstring list \<Rightarrow> string + 'r) \<Rightarrow> string + 'r" where
  "with_value rest f = (case rest of [] \<Rightarrow> Inl ''Expected value after argument'' | value # rest \<Rightarrow> f value rest)"

definition get_short_argument :: "wstring \<Rightarrow> string + 16 word" where
  "get_short_argument value =
    (case parse_i16 value of Inl e \<Rightarrow> Inl ''Short argument was out of range or malformed'' | Inr v \<Rightarrow> Inr v)"

text \<open>What one token does: the arguments, the tokens that are left, and whether the client's command line was reached.\<close>

definition parse_token :: "wstring \<Rightarrow> wstring list \<Rightarrow> ConsoleArguments \<Rightarrow> string + (ConsoleArguments \<times> wstring list \<times> bool)" where
  "parse_token arg rest ca =
    (let go = (\<lambda>ca rest. Inr (ca, rest, False)); server = (\<lambda>text rest.
           case parse_handle_arg text (ca_server_handle ca) of
             Inl e \<Rightarrow> Inl e
           | Inr v \<Rightarrow> go (ca\<lparr>ca_server_handle := v, ca_create_server_handle := False\<rparr>) rest)
     in if starts_with arg (wide ''0x'') then server arg rest
        else if arg = wide ''--server'' then with_value rest server
        else if arg = wide ''--signal'' then
          with_value rest (\<lambda>text rest.
            case parse_handle_arg text (ca_signal_handle ca) of Inl e \<Rightarrow> Inl e | Inr v \<Rightarrow> go (ca\<lparr>ca_signal_handle := v\<rparr>) rest)
        else if arg = wide ''-ForceV1'' then go (ca\<lparr>ca_force_v1 := True\<rparr>) rest
        else if arg = wide ''-ForceNoHandoff'' then go (ca\<lparr>ca_force_no_handoff := True\<rparr>) rest
        else if arg = wide ''-Embedding'' \<or> arg = wide ''/Embedding'' then go (ca\<lparr>ca_run_as_com_server := True\<rparr>) rest
        else if arg = wide ''--delegated-window'' then go (ca\<lparr>ca_delegated_window := True\<rparr>) rest
        else if starts_with arg [backslash, 0x3F, 0x3F, backslash] then go ca rest
        else if arg = wide ''--width'' then
          with_value rest (\<lambda>value rest. case get_short_argument value of Inl e \<Rightarrow> Inl e | Inr v \<Rightarrow> go (ca\<lparr>ca_width := v\<rparr>) rest)
        else if arg = wide ''--height'' then
          with_value rest (\<lambda>value rest. case get_short_argument value of Inl e \<Rightarrow> Inl e | Inr v \<Rightarrow> go (ca\<lparr>ca_height := v\<rparr>) rest)
        else if arg = wide ''--feature'' then
          with_value rest (\<lambda>value rest. if value \<noteq> wide ''pty'' then Inl ''Unsupported --feature value'' else go ca rest)
        else if arg = wide ''--headless'' then go (ca\<lparr>ca_headless := True\<rparr>) rest
        else if arg = wide ''--vtmode'' then go (ca\<lparr>ca_vt_mode_requested := True\<rparr>) rest
        else if arg = wide ''--inheritcursor'' then go (ca\<lparr>ca_inherit_cursor := True\<rparr>) rest
        else if arg = wide ''--textMeasurement'' then with_value rest (\<lambda>value. go (ca\<lparr>ca_text_measurement := value\<rparr>))
        else if arg = wide ''--'' then Inr (ca\<lparr>ca_client_command_line := client_line rest\<rparr>, [], True)
        else Inr (ca\<lparr>ca_client_command_line := client_line (arg # rest)\<rparr>, [], True))"

lemma parse_token_shrinks: "parse_token arg rest ca = Inr (ca', rest', reached) \<Longrightarrow> length rest' \<le> length rest"
  by (auto simp: parse_token_def with_value_def Let_def split: if_splits list.splits sum.splits)

function parse_tokens :: "wstring list \<Rightarrow> ConsoleArguments \<Rightarrow> string + ConsoleArguments" where
  "parse_tokens [] ca = Inr ca"
| "parse_tokens (arg # rest) ca =
    (case parse_token arg rest ca of
       Inl e \<Rightarrow> Inl e
     | Inr (ca', rest', True) \<Rightarrow> Inr ca'
     | Inr (ca', rest', False) \<Rightarrow> parse_tokens rest' ca')"
  by pat_completeness auto

termination
  by (relation "measure (\<lambda>(args, ca). length args)") (auto dest: parse_token_shrinks)

text \<open>\<open>argv\<close> gives \<open>None\<close> when \<open>CommandLineToArgvW\<close> fails. The tokens that are left at the end are always none.\<close>

definition parse :: "(wstring \<Rightarrow> wstring list option) \<Rightarrow> wstring \<Rightarrow> 64 word \<Rightarrow> 64 word \<Rightarrow> string + ConsoleArguments" where
  "parse argv command_line std_in std_out =
    (let result = new_arguments command_line std_in std_out
     in if command_line = [] then Inr result
        else case argv command_line of
               None \<Rightarrow> Inl ''CommandLineToArgvW failed''
             | Some args \<Rightarrow> parse_tokens (tl args) result)"

definition is_valid_handle :: "64 word \<Rightarrow> bool" where
  "is_valid_handle h \<longleftrightarrow> h \<noteq> 0 \<and> h \<noteq> - 1"

definition has_vt_handles :: "ConsoleArguments \<Rightarrow> bool" where
  "has_vt_handles ca \<longleftrightarrow> is_valid_handle (ca_vt_in_handle ca) \<and> is_valid_handle (ca_vt_out_handle ca)"

definition in_conpty_mode :: "ConsoleArguments \<Rightarrow> bool" where
  "in_conpty_mode ca \<longleftrightarrow>
    is_valid_handle (ca_vt_in_handle ca) \<or> is_valid_handle (ca_vt_out_handle ca) \<or> is_valid_handle (ca_signal_handle ca)"

section \<open>What CommandLineToArgvW documents\<close>

text \<open>
  The rules for backslashes: \<open>2n\<close> of them and a quotation mark give \<open>n\<close> and begin or end a quoted part,
  \<open>2n + 1\<close> and a quotation mark give \<open>n\<close> and the mark, others stand for themselves. Blanks outside quoted
  parts separate arguments. \<open>n\<close> counts the backslashes just before.
\<close>

fun read_argument :: "bool \<Rightarrow> nat \<Rightarrow> wstring \<Rightarrow> wstring \<times> wstring" where
  "read_argument quoted n [] = (replicate n backslash, [])"
| "read_argument quoted n (ch # rest) =
    (if ch = backslash then read_argument quoted (n + 1) rest
     else if ch = quote then
       (if even n then apfst ((@) (replicate (n div 2) backslash)) (read_argument (\<not> quoted) 0 rest)
        else apfst ((@) (replicate (n div 2) backslash @ [quote])) (read_argument quoted 0 rest))
     else if blank ch \<and> \<not> quoted then (replicate n backslash, ch # rest)
     else apfst ((@) (replicate n backslash @ [ch])) (read_argument quoted 0 rest))"

lemma read_argument_shrinks: "length (snd (read_argument quoted n cs)) \<le> length cs"
  by (induction quoted n cs rule: read_argument.induct) auto

function documented_arguments :: "wstring \<Rightarrow> wstring list" where
  "documented_arguments line =
    (case dropWhile blank line of
       [] \<Rightarrow> []
     | ch # rest \<Rightarrow>
         (if blank ch then [] else fst (read_argument False 0 (ch # rest)) # documented_arguments (snd (read_argument False 0 (ch # rest)))))"
  by auto

termination
proof (relation "measure length")
  fix line ch rest assume d: "dropWhile blank line = ch # rest" and b: "\<not> blank ch"
  have "length (snd (read_argument False 0 (ch # rest))) \<le> length rest"
    using b read_argument_shrinks [of False 1 rest] read_argument_shrinks [of True 0 rest] read_argument_shrinks [of False 0 rest] by auto
  moreover have "length (ch # rest) \<le> length line" using d length_dropWhile_le [of blank line] by simp
  ultimately show "(snd (read_argument False 0 (ch # rest)), line) \<in> measure length" by simp
qed simp

declare documented_arguments.simps [simp del]

text \<open>The program name, with or without quotation marks, is followed by the other arguments.\<close>

definition ends_token :: "wstring \<Rightarrow> bool" where
  "ends_token rest = (case rest of [] \<Rightarrow> True | ch # _ \<Rightarrow> blank ch)"

definition argv_documented :: "(wstring \<Rightarrow> wstring list option) \<Rightarrow> bool" where
  "argv_documented argv \<longleftrightarrow>
    (\<forall>name rest. ends_token rest \<longrightarrow>
       (name \<noteq> [] \<and> \<not> list_ex blank name \<and> quote \<notin> set name \<longrightarrow> argv (name @ rest) = Some (name # documented_arguments rest))
       \<and> (quote \<notin> set name \<longrightarrow> argv (quote # name @ quote # rest) = Some (name # documented_arguments rest)))"

section \<open>The client gets its tokens\<close>

text \<open>
  Reading what the loop wrote gives the text back. The backslashes at the end are still to be read,
  as what follows decides about them.
\<close>

lemma escape_read:
  assumes "escape_loop n arg = (out, k)" and "quoted \<or> \<not> list_ex blank arg"
  shows "\<exists>pre. replicate n backslash @ arg = pre @ replicate k backslash
    \<and> (\<forall>rest. read_argument quoted n (out @ rest) = apfst ((@) pre) (read_argument quoted k rest))"
  using assms
proof (induction arg arbitrary: n out k)
  case Nil
  then show ?case by (intro exI [of _ "[]"]) (auto simp: apfst_def map_prod_def split_beta)
next
  case (Cons ch arg)
  show ?case
  proof (cases "ch = backslash")
    case True
    obtain out' where loop: "escape_loop (n + 1) arg = (out', k)" and out: "out = backslash # out'"
      using Cons.prems(1) True by (auto split: prod.splits)
    from Cons.IH [OF loop] Cons.prems(2) obtain pre where "replicate (n + 1) backslash @ arg = pre @ replicate k backslash"
      "\<And>rest. read_argument quoted (n + 1) (out' @ rest) = apfst ((@) pre) (read_argument quoted k rest)" by auto
    then show ?thesis using True out by (intro exI [of _ pre]) (auto simp: replicate_append_same [symmetric])
  next
    case False
    then obtain out' where loop: "escape_loop 0 arg = (out', k)"
      and out: "out = (if ch = quote then replicate n backslash @ [backslash, quote] else [ch]) @ out'"
      using Cons.prems(1) by (auto split: prod.splits if_splits)
    from Cons.IH [OF loop] Cons.prems(2) obtain pre where pre: "arg = pre @ replicate k backslash"
      "\<And>rest. read_argument quoted 0 (out' @ rest) = apfst ((@) pre) (read_argument quoted k rest)" by auto
    have slashes: "read_argument quoted m (replicate j backslash @ rest) = read_argument quoted (m + j) rest" for m j rest
      by (induction j arbitrary: m) simp_all
    have "read_argument quoted n (out @ rest) = apfst ((@) (replicate n backslash @ ch # pre)) (read_argument quoted k rest)" for rest
      using False out Cons.prems(2) slashes [of n n "backslash # quote # out' @ rest"]
      by (auto simp: pre(2) apfst_def map_prod_def split_beta mult_2 [symmetric])
    then show ?thesis using pre(1) by (intro exI [of _ "replicate n backslash @ ch # pre"]) simp
  qed
qed

lemma escape_plain: "\<not> list_ex (\<lambda>ch. ch = quote) arg \<Longrightarrow> fst (escape_loop n arg) = arg"
  by (induction arg arbitrary: n) (auto simp: split_beta)

lemma read_end:
  "ends_token rest \<Longrightarrow> read_argument False n rest = (replicate n backslash, rest)"
  by (cases rest) (auto simp: ends_token_def blank_def)

lemma read_slashes: "read_argument quoted m (replicate j backslash @ rest) = read_argument quoted (m + j) rest"
  by (induction j arbitrary: m) simp_all

lemma escape_argument_read:
  assumes "ends_token rest"
  shows "read_argument False 0 (escape_argument arg @ rest) = (arg, rest)"
proof (cases "list_ex blank arg")
  case True
  then have "arg \<noteq> []" by auto
  obtain out k where loop: "escape_loop 0 arg = (out, k)" by (rule prod.exhaust)
  from escape_read [OF this, of True] obtain pre where pre: "arg = pre @ replicate k backslash"
    "\<And>rest. read_argument True 0 (out @ rest) = apfst ((@) pre) (read_argument True k rest)" by auto
  have "read_argument True k (replicate k backslash @ quote # rest) = (replicate k backslash, rest)"
    by (simp add: read_slashes read_end [OF assms] flip: mult_2)
  moreover have "escape_argument arg = quote # out @ replicate k backslash @ [quote]"
    using True loop \<open>arg \<noteq> []\<close> by (simp add: escape_argument_def)
  ultimately have "read_argument False 0 (escape_argument arg @ rest) = (pre @ replicate k backslash, rest)" by (simp add: pre(2))
  then show ?thesis by (simp only: pre(1))
next
  case False
  show ?thesis
  proof (cases "arg = []")
    case True
    then show ?thesis using read_end [OF assms, of 0] by (simp add: escape_argument_def)
  next
    case nonempty: False
    obtain out k where loop: "escape_loop 0 arg = (out, k)" by (rule prod.exhaust)
    then have out: "escape_argument arg = out"
      using False nonempty escape_plain [of arg 0] by (auto simp: escape_argument_def list_ex_iff)
    from escape_read [OF loop, of False] False obtain pre where "arg = pre @ replicate k backslash"
      "\<And>rest. read_argument False 0 (out @ rest) = apfst ((@) pre) (read_argument False k rest)" by auto
    then show ?thesis using out by (simp add: read_end [OF assms])
  qed
qed

lemma escape_argument_starts: "\<exists>ch cs. escape_argument arg = ch # cs \<and> \<not> blank ch"
proof (cases arg)
  case (Cons ch cs)
  have "escape_loop 0 (ch # cs) = (out, k) \<Longrightarrow> \<not> blank ch \<Longrightarrow> \<exists>ch cs. out = ch # cs \<and> \<not> blank ch" for out k
    by (auto simp: blank_def split: prod.splits if_splits)
  then show ?thesis using Cons by (auto simp: escape_argument_def blank_def split_beta Let_def)
qed (simp add: escape_argument_def blank_def)

lemma documented_blank: "blank ch \<Longrightarrow> documented_arguments (ch # line) = documented_arguments line"
  by (simp add: documented_arguments.simps [of "ch # line"] documented_arguments.simps [of line])

lemma documented_token:
  assumes "ends_token rest"
  shows "documented_arguments (escape_argument arg @ rest) = arg # documented_arguments rest"
proof -
  obtain ch cs where e: "escape_argument arg = ch # cs" "\<not> blank ch" using escape_argument_starts by blast
  then show ?thesis using escape_argument_read [OF assms, of arg]
    by (simp add: documented_arguments.simps [of "ch # cs @ rest"])
qed

lemma documented_line: "documented_arguments (client_line ts) = ts"
proof (induction ts rule: client_line.induct)
  case 1
  then show ?case by (simp add: documented_arguments.simps)
next
  case (2 t)
  then show ?case using documented_token [of "[]" t] by (simp add: ends_token_def documented_arguments.simps [of "[]"])
next
  case (3 t u us)
  then show ?case using documented_token [of "0x20 # client_line (u # us)" t]
    by (simp add: ends_token_def blank_def documented_blank)
qed

text \<open>The number of backslashes at the end.\<close>

definition trailing :: "wstring \<Rightarrow> nat" where
  "trailing t = length (takeWhile (\<lambda>ch. ch = backslash) (rev t))"

lemma escape_trailing:
  "quote \<notin> set t \<Longrightarrow> snd (escape_loop n t) = (if set t \<subseteq> {backslash} then n + length t else trailing t)"
proof (induction t arbitrary: n)
  case (Cons ch t)
  have "trailing (ch # t) = trailing t" if "\<not> set t \<subseteq> {backslash}"
    using that by (auto simp: trailing_def takeWhile_append)
  moreover have "trailing (ch # t) = length t" if "set t \<subseteq> {backslash}" "ch \<noteq> backslash"
    using that by (auto simp: trailing_def takeWhile_append)
  moreover have "trailing (ch # t) = Suc (length t)" if "set t \<subseteq> {backslash}" "ch = backslash"
    using that by (auto simp: trailing_def takeWhile_append)
  ultimately show ?case using Cons by (cases "set t \<subseteq> {backslash}") (auto simp: split_beta)
qed simp

text \<open>The program name is quoted when it contains blanks, but its quoted part has no escapes.\<close>

lemma escape_program:
  assumes "quote \<notin> set t"
  shows "escape_argument t =
    (if t = [] then [quote, quote] else if list_ex blank t then quote # (t @ replicate (trailing t) backslash) @ [quote] else t)"
proof (cases "list_ex blank t")
  case True
  then have "\<not> set t \<subseteq> {backslash}" by (auto simp: list_ex_iff blank_def)
  then show ?thesis using True assms escape_plain [of t 0] escape_trailing [of t 0]
    by (auto simp: escape_argument_def split_beta list_ex_iff)
next
  case False
  then show ?thesis using assms escape_plain [of t 0] by (auto simp: escape_argument_def split_beta list_ex_iff Let_def)
qed

lemma client_argv:
  assumes "argv_documented argv" and "quote \<notin> set t"
  shows "argv (client_line (t # ts)) = Some ((if list_ex blank t then t @ replicate (trailing t) backslash else t) # ts)"
proof -
  define rest where "rest = (if ts = [] then [] else 0x20 # client_line ts)"
  have line: "client_line (t # ts) = escape_argument t @ rest" by (cases ts) (simp_all add: rest_def)
  have rest: "ends_token rest" "documented_arguments rest = ts"
    using documented_line [of ts] by (auto simp: rest_def ends_token_def blank_def documented_blank documented_arguments.simps [of "[]"])
  define name where "name = (if list_ex blank t then t @ replicate (trailing t) backslash else t)"
  have name: "quote \<notin> set name" using assms(2) by (auto simp: name_def)
  have doc: "argv (quote # name @ quote # rest) = Some (name # ts)"
    "name \<noteq> [] \<Longrightarrow> \<not> list_ex blank name \<Longrightarrow> argv (name @ rest) = Some (name # ts)"
    using assms(1) rest name unfolding argv_documented_def by auto
  consider "t = []" | "list_ex blank t" | "t \<noteq> []" "\<not> list_ex blank t" by blast
  then have "argv (escape_argument t @ rest) = Some (name # ts)"
  proof cases
    case 1
    then show ?thesis using doc(1) by (simp add: escape_program name_def)
  next
    case 2
    then have "t \<noteq> []" by auto
    then show ?thesis using 2 doc(1) assms(2) by (simp add: escape_program name_def)
  next
    case 3
    then show ?thesis using doc(2) assms(2) by (simp add: escape_program name_def)
  qed
  then show ?thesis by (simp only: line name_def)
qed

section \<open>Reading the command line\<close>

text \<open>What the switches before the client's command line amount to; \<open>None\<close> when they are in error or already contain it.\<close>

function host_options :: "wstring list \<Rightarrow> ConsoleArguments \<Rightarrow> ConsoleArguments option" where
  "host_options [] ca = Some ca"
| "host_options (arg # rest) ca =
    (case parse_token arg rest ca of Inr (ca', rest', False) \<Rightarrow> host_options rest' ca' | _ \<Rightarrow> None)"
  by pat_completeness auto

termination
  by (relation "measure (\<lambda>(args, ca). length args)") (auto dest: parse_token_shrinks)

text \<open>More tokens at the end make no difference to a switch.\<close>

definition extended :: "wstring list \<Rightarrow> string + (ConsoleArguments \<times> wstring list \<times> bool) \<Rightarrow> string + (ConsoleArguments \<times> wstring list \<times> bool) \<Rightarrow> bool" where
  "extended ts r r' \<longleftrightarrow> (\<forall>ca rest. r = Inr (ca, rest, False) \<longrightarrow> r' = Inr (ca, rest @ ts, False))"

lemma extended_intros:
  "extended ts a a' \<Longrightarrow> extended ts b b' \<Longrightarrow> extended ts (if c then a else b) (if c then a' else b')"
  "(\<And>v rest. extended ts (f v rest) (f v (rest @ ts))) \<Longrightarrow> extended ts (with_value rest f) (with_value (rest @ ts) f)"
  "(\<And>v. extended ts (g v) (g' v)) \<Longrightarrow> extended ts (case s of Inl e \<Rightarrow> Inl e | Inr v \<Rightarrow> g v) (case s of Inl e \<Rightarrow> Inl e | Inr v \<Rightarrow> g' v)"
  "extended ts (Inr (ca, rest, False)) (Inr (ca, rest @ ts, False))" "extended ts (Inl e) r" "extended ts (Inr (ca, rest, True)) r"
  by (auto simp: extended_def with_value_def split: list.splits sum.splits)

lemma parse_token_more:
  "parse_token arg rest ca = Inr (ca', rest', False) \<Longrightarrow> parse_token arg (rest @ ts) ca = Inr (ca', rest' @ ts, False)"
proof -
  have "extended ts (parse_token arg rest ca) (parse_token arg (rest @ ts) ca)"
    unfolding parse_token_def Let_def by (intro extended_intros)
  then show "parse_token arg rest ca = Inr (ca', rest', False) \<Longrightarrow> parse_token arg (rest @ ts) ca = Inr (ca', rest' @ ts, False)"
    by (simp add: extended_def)
qed

lemma parse_host: "host_options host ca = Some ca' \<Longrightarrow> parse_tokens (host @ rest) ca = parse_tokens rest ca'"
proof (induction host ca rule: host_options.induct)
  case (2 arg host ca)
  then obtain ca1 host' where step: "parse_token arg host ca = Inr (ca1, host', False)" "host_options host' ca1 = Some ca'"
    by (auto split: sum.splits prod.splits bool.splits)
  have "parse_tokens (host' @ rest) ca1 = parse_tokens rest ca'" by (rule 2(1) [OF step(1) refl refl]) (simp_all add: step(2))
  then show ?case using parse_token_more [OF step(1), of rest] by simp
qed simp

lemma parse_dashes: "parse_tokens (wide ''--'' # ts) ca = Inr (ca\<lparr>ca_client_command_line := client_line ts\<rparr>)"
  by (simp add: parse_token_def starts_with_def wide_def Let_def)

text \<open>
  C12. The client receives the tokens that follow \<open>--\<close>. With any switches in front of it, the command
  line that the host puts together is split by \<open>CommandLineToArgvW\<close>, as it is documented, into exactly
  those tokens, with all their blanks, quotation marks and backslashes, and none of them is taken
  for a switch: the other arguments are those of the switches alone. The client's program name
  must not contain quotation marks, nor end in a backslash when it contains blanks.
\<close>

theorem client_payload_preserved:
  assumes "argv_documented argv" and "line \<noteq> []" and "argv line = Some (program # host @ wide ''--'' # t # ts)"
    and "host_options host (new_arguments line std_in std_out) = Some ca"
    and "quote \<notin> set t" and "list_ex blank t \<longrightarrow> last t \<noteq> backslash"
  shows "\<exists>client. parse argv line std_in std_out = Inr (ca\<lparr>ca_client_command_line := client\<rparr>) \<and> argv client = Some (t # ts)"
proof -
  have "parse argv line std_in std_out = Inr (ca\<lparr>ca_client_command_line := client_line (t # ts)\<rparr>)"
    using assms(2,3) parse_host [OF assms(4), of "wide ''--'' # t # ts"] parse_dashes by (simp add: parse_def)
  moreover have "trailing t = 0" if "list_ex blank t"
    using assms(6) that by (cases t rule: rev_cases) (auto simp: trailing_def)
  then have "argv (client_line (t # ts)) = Some (t # ts)" using client_argv [OF assms(1,5), of ts] by auto
  ultimately show ?thesis by blast
qed

text \<open>
  The backslashes at the end of a program name with blanks are doubled, as they would have to be
  in any other argument, but program names have no escapes: the client is started under a name
  with twice as many.
\<close>

theorem program_backslashes_doubled:
  assumes "argv_documented argv" and "quote \<notin> set t" and "list_ex blank t" and "last t = backslash"
  shows "argv (client_line (t # ts)) = Some ((t @ replicate (trailing t) backslash) # ts) \<and> 0 < trailing t"
  using client_argv [OF assms(1,2), of ts] assms(3,4) by (cases t rule: rev_cases) (auto simp: trailing_def)

section \<open>A function that follows the documentation\<close>

definition split_line :: "wstring \<Rightarrow> wstring list option" where
  "split_line line =
    (if line \<noteq> [] \<and> hd line = quote
     then Some (takeWhile (\<lambda>ch. ch \<noteq> quote) (tl line) # documented_arguments (tl (dropWhile (\<lambda>ch. ch \<noteq> quote) (tl line))))
     else Some (takeWhile (\<lambda>ch. \<not> blank ch) line # documented_arguments (dropWhile (\<lambda>ch. \<not> blank ch) line)))"

lemma split_line_documented: "argv_documented split_line"
  unfolding argv_documented_def
proof (intro allI impI conjI)
  fix name rest :: wstring assume rest: "ends_token rest"
  show "split_line (quote # name @ quote # rest) = Some (name # documented_arguments rest)" if "quote \<notin> set name"
    using that by (auto simp: split_line_def takeWhile_append dropWhile_append)
  show "split_line (name @ rest) = Some (name # documented_arguments rest)" if "name \<noteq> [] \<and> \<not> list_ex blank name \<and> quote \<notin> set name"
  proof -
    have hd: "hd name \<noteq> quote" using that hd_in_set by metis
    have "takeWhile (\<lambda>ch. \<not> blank ch) (name @ rest) = name" "dropWhile (\<lambda>ch. \<not> blank ch) (name @ rest) = rest"
      using that rest
      by (auto simp: takeWhile_append dropWhile_append list_ex_iff takeWhile_eq_all_conv ends_token_def split: list.splits)
    then show ?thesis using that hd by (simp add: split_line_def)
  qed
qed

text \<open>The program \<open>c\<close> with the switch \<open>--headless\<close> and the client \<open>p\<close> with the arguments \<open>a b\<close> and \<open>--vtmode\<close>.\<close>

definition sample_line :: wstring where
  "sample_line = wide ''c --headless -- p '' @ client_line [wide ''a b'', wide ''--vtmode'']"

lemma sample_tokens: "split_line sample_line = Some (wide ''c'' # [wide ''--headless''] @ wide ''--'' # wide ''p'' # [wide ''a b'', wide ''--vtmode''])"
proof -
  have line: "sample_line = wide ''c'' @ 0x20 # client_line [wide ''--headless'', wide ''--'', wide ''p'', wide ''a b'', wide ''--vtmode'']"
    by (simp add: sample_line_def wide_def escape_argument_def blank_def)
  have "split_line (wide ''c'' @ 0x20 # rest) = Some (wide ''c'' # documented_arguments (0x20 # rest))" for rest
    using split_line_documented [unfolded argv_documented_def, THEN spec, THEN spec, of "0x20 # rest" "wide ''c''"]
    by (simp add: ends_token_def blank_def wide_def)
  then show ?thesis by (simp only: line documented_blank [of "0x20", unfolded blank_def, simplified] documented_line) simp
qed

theorem client_payload_preserved_witness:
  "\<exists>client. parse split_line sample_line 0 0 = Inr ((new_arguments sample_line 0 0)\<lparr>ca_headless := True, ca_client_command_line := client\<rparr>)
     \<and> split_line client = Some [wide ''p'', wide ''a b'', wide ''--vtmode'']"
proof -
  have "host_options [wide ''--headless''] (new_arguments sample_line 0 0) = Some ((new_arguments sample_line 0 0)\<lparr>ca_headless := True\<rparr>)"
    by (simp add: parse_token_def starts_with_def wide_def Let_def)
  from client_payload_preserved [OF split_line_documented _ sample_tokens this] show ?thesis
    by (simp add: sample_line_def wide_def blank_def)
qed

theorem program_backslashes_doubled_witness:
  "split_line (client_line [wide ''a b'' @ [backslash]]) = Some [wide ''a b'' @ [backslash, backslash]]"
  using program_backslashes_doubled [OF split_line_documented, of "wide ''a b'' @ [backslash]" "[]"]
  by (simp add: wide_def blank_def trailing_def)

end
