(* ===== verification/App_Config.thy ===== *)
theory App_Config
  imports Command_Line
begin

text \<open>
  The configuration (\<open>app_config.cpp\<close>): defaults, a file of the user, an explicit file and the environment.

  The operating system is given by arguments: the environment, the file system with the outcome of each
  step of reading a file, and the conversion from UTF-8 (\<open>MultiByteToWideChar\<close> with its error code).
  The conversion is a function, so that its second call, which fills the buffer, gives what the first announced.
\<close>

section \<open>Values\<close>

datatype LogLevel = Trace | Debug | Info | Warning | Error

record AppConfig =
  ac_minimum_log_level :: LogLevel
  ac_locale_override :: wstring
  ac_dry_run :: bool
  ac_enable_debug_sink :: bool
  ac_enable_file_logging :: bool
  ac_log_directory_path :: wstring
  ac_break_on_start :: bool
  ac_prefer_pseudoconsole :: bool
  ac_hold_window_on_exit :: bool
  ac_allow_embedding_passthrough :: bool
  ac_enable_legacy_conhost_path :: bool
  ac_embedding_wait_timeout_ms :: ulong

definition default_config :: AppConfig where
  "default_config =
    \<lparr>ac_minimum_log_level = Info, ac_locale_override = [], ac_dry_run = False, ac_enable_debug_sink = True,
     ac_enable_file_logging = False, ac_log_directory_path = [], ac_break_on_start = False, ac_prefer_pseudoconsole = True,
     ac_hold_window_on_exit = False, ac_allow_embedding_passthrough = True, ac_enable_legacy_conhost_path = True,
     ac_embedding_wait_timeout_ms = 0\<rparr>"

record ConfigError =
  ce_message :: string
  ce_win32_error :: ulong

abbreviation config_error :: "string \<Rightarrow> ulong \<Rightarrow> ConfigError" where
  "config_error m e \<equiv> \<lparr>ce_message = m, ce_win32_error = e\<rparr>"

abbreviation error_file_not_found :: ulong where "error_file_not_found \<equiv> 2"
abbreviation error_path_not_found :: ulong where "error_path_not_found \<equiv> 3"
abbreviation error_bad_format :: ulong where "error_bad_format \<equiv> 11"
abbreviation error_file_too_large :: ulong where "error_file_too_large \<equiv> 223"

definition is_space :: "wchar \<Rightarrow> bool" where
  "is_space ch \<longleftrightarrow> ch = 0x20 \<or> ch = 0x09 \<or> ch = 0x0D \<or> ch = 0x0A"

definition trim :: "wstring \<Rightarrow> wstring" where
  "trim value = rev (dropWhile is_space (rev (dropWhile is_space value)))"

definition parse_log_level :: "wstring \<Rightarrow> LogLevel" where
  "parse_log_level text =
    (if text = wide ''trace'' then Trace else if text = wide ''debug'' then Debug else if text = wide ''warning'' then Warning
     else if text = wide ''error'' then Error else Info)"

definition parse_bool :: "wstring \<Rightarrow> bool" where
  "parse_bool text \<longleftrightarrow> text = wide ''1'' \<or> text = wide ''true'' \<or> text = wide ''TRUE'' \<or> text = wide ''on'' \<or> text = wide ''ON''"

definition parse_dword_or_default :: "wstring \<Rightarrow> ulong \<Rightarrow> ulong" where
  "parse_dword_or_default text fallback = (case parse_u32 text of Inl e \<Rightarrow> fallback | Inr v \<Rightarrow> v)"

section \<open>Text\<close>

definition apply_key_value :: "wstring \<Rightarrow> wstring \<Rightarrow> AppConfig \<Rightarrow> AppConfig" where
  "apply_key_value key value config =
    (let key = trim key; value = trim value
     in if key = wide ''locale'' then config\<lparr>ac_locale_override := value\<rparr>
        else if key = wide ''dry_run'' then config\<lparr>ac_dry_run := parse_bool value\<rparr>
        else if key = wide ''log_level'' then config\<lparr>ac_minimum_log_level := parse_log_level value\<rparr>
        else if key = wide ''log_dir'' then config\<lparr>ac_log_directory_path := value, ac_enable_file_logging := (value \<noteq> [])\<rparr>
        else if key = wide ''enable_file_logging'' \<or> key = wide ''file_logging''
        then config\<lparr>ac_enable_file_logging := parse_bool value\<rparr>
        else if key = wide ''break_on_start'' then config\<lparr>ac_break_on_start := parse_bool value\<rparr>
        else if key = wide ''debug_sink'' then config\<lparr>ac_enable_debug_sink := parse_bool value\<rparr>
        else if key = wide ''prefer_pseudoconsole'' then config\<lparr>ac_prefer_pseudoconsole := parse_bool value\<rparr>
        else if key = wide ''hold_on_exit'' \<or> key = wide ''hold_window_on_exit''
        then config\<lparr>ac_hold_window_on_exit := parse_bool value\<rparr>
        else if key = wide ''allow_embedding_passthrough'' then config\<lparr>ac_allow_embedding_passthrough := parse_bool value\<rparr>
        else if key = wide ''enable_legacy_conhost_path'' then config\<lparr>ac_enable_legacy_conhost_path := parse_bool value\<rparr>
        else if key = wide ''embedding_wait_timeout_ms''
        then config\<lparr>ac_embedding_wait_timeout_ms := parse_dword_or_default value (ac_embedding_wait_timeout_ms config)\<rparr>
        else config)"

definition parse_line :: "wstring \<Rightarrow> AppConfig \<Rightarrow> ConfigError + AppConfig" where
  "parse_line line config =
    (let line = trim line
     in if line = [] \<or> hd line = 0x23 \<or> hd line = 0x3B then Inr config
        else
          let key = takeWhile (\<lambda>u. u \<noteq> 0x3D) line
          in if length key = length line then Inl (config_error (''Invalid config line (missing '' @ [CHR 0x27, CHR 0x3D, CHR 0x27] @ '')'') error_bad_format)
             else Inr (apply_key_value key (drop (length key + 1) line) config))"

function parse_lines :: "wstring \<Rightarrow> AppConfig \<Rightarrow> ConfigError + AppConfig" where
  "parse_lines text config =
    (if text = [] then Inr config
     else
       let line = takeWhile (\<lambda>u. u \<noteq> 0x0A) text
       in case parse_line line config of Inl e \<Rightarrow> Inl e | Inr config \<Rightarrow> parse_lines (drop (length line + 1) text) config)"
  by auto

termination
  by (relation "measure (\<lambda>(text, config). length text)") auto

declare parse_lines.simps [simp del]

definition parse_text :: "wstring \<Rightarrow> ConfigError + AppConfig" where
  "parse_text text = parse_lines text default_config"

section \<open>Files\<close>

text \<open>The outcome of opening a file, asking for its size and reading it.\<close>

datatype config_file = OpenFails ulong | SizeFails ulong | Opened int "ulong + byte list"

fun utf16le :: "byte list \<Rightarrow> wstring" where
  "utf16le (lo # hi # bytes) = (ucast lo OR push_bit 8 (ucast hi)) # utf16le bytes"
| "utf16le _ = []"

definition decode_text :: "(byte list \<Rightarrow> ulong + wstring) \<Rightarrow> byte list \<Rightarrow> ConfigError + wstring" where
  "decode_text from_utf8 bytes =
    (if length bytes \<ge> 2 \<and> bytes ! 0 = 0xFF \<and> bytes ! 1 = 0xFE then Inr (utf16le (drop 2 bytes))
     else if bytes = [] then Inr []
     else case from_utf8 bytes of Inl e \<Rightarrow> Inl (config_error ''Config is not UTF-8/UTF-16LE text'' e) | Inr us \<Rightarrow> Inr us)"

definition read_config_file :: "(byte list \<Rightarrow> ulong + wstring) \<Rightarrow> (wstring \<Rightarrow> config_file) \<Rightarrow> wstring \<Rightarrow> ConfigError + wstring" where
  "read_config_file from_utf8 files path =
    (case files path of
       OpenFails e \<Rightarrow> Inl (config_error ''CreateFileW failed for config path'' e)
     | SizeFails e \<Rightarrow> Inl (config_error ''GetFileSizeEx failed for config path'' e)
     | Opened file_size r \<Rightarrow>
         if file_size < 0 \<or> file_size > 2 * 1024 * 1024 then Inl (config_error ''Config file size is invalid'' error_file_too_large)
         else if file_size = 0 then decode_text from_utf8 []
         else case r of
                Inl e \<Rightarrow> Inl (config_error ''ReadFile failed for config path'' e)
              | Inr bytes \<Rightarrow> decode_text from_utf8 bytes)"

definition append_path_component :: "wstring \<Rightarrow> wstring \<Rightarrow> wstring" where
  "append_path_component base component =
    (if base \<noteq> [] \<and> last base \<noteq> 0x5C \<and> last base \<noteq> 0x2F then base @ 0x5C # component else base @ component)"

definition directory_from_path :: "wstring \<Rightarrow> wstring" where
  "directory_from_path value =
    (let value = trim value in rev (drop 1 (dropWhile (\<lambda>u. u \<noteq> 0x5C \<and> u \<noteq> 0x2F) (rev value))))"

text \<open>An empty variable counts as one that is not set.\<close>

definition read_environment :: "(string \<Rightarrow> wstring option) \<Rightarrow> string \<Rightarrow> wstring option" where
  "read_environment env name = (case env name of None \<Rightarrow> None | Some v \<Rightarrow> if v = [] then None else Some v)"

abbreviation user_config_name :: wstring where "user_config_name \<equiv> wide ''.conhost''"

definition resolve_default_user_config_path :: "bool \<Rightarrow> (string \<Rightarrow> wstring option) \<Rightarrow> wstring option" where
  "resolve_default_user_config_path mem_ok env =
    (case read_environment env ''USERPROFILE'' of
       Some v \<Rightarrow> Some (append_path_component v user_config_name)
     | None \<Rightarrow>
         (case read_environment env ''HOME'' of
            Some v \<Rightarrow> Some (append_path_component v user_config_name)
          | None \<Rightarrow>
              (case (read_environment env ''HOMEDRIVE'', read_environment env ''HOMEPATH'') of
                 (Some d, Some p) \<Rightarrow>
                   if \<not> mem_ok then None else if d @ p \<noteq> [] then Some (append_path_component (d @ p) user_config_name) else None
               | _ \<Rightarrow> None)))"

definition is_missing_file_error :: "ulong \<Rightarrow> bool" where
  "is_missing_file_error error \<longleftrightarrow> error = error_file_not_found \<or> error = error_path_not_found"

definition load_config_file_into ::
    "(byte list \<Rightarrow> ulong + wstring) \<Rightarrow> (wstring \<Rightarrow> config_file) \<Rightarrow> wstring \<Rightarrow> bool \<Rightarrow> AppConfig \<Rightarrow> ConfigError + AppConfig" where
  "load_config_file_into from_utf8 files config_path allow_missing_file config =
    (case read_config_file from_utf8 files config_path of
       Inl e \<Rightarrow> if allow_missing_file \<and> is_missing_file_error (ce_win32_error e) then Inr config else Inl e
     | Inr file_text \<Rightarrow> parse_text file_text)"

section \<open>The environment\<close>

definition on_env :: "(string \<Rightarrow> wstring option) \<Rightarrow> string \<Rightarrow> (wstring \<Rightarrow> AppConfig \<Rightarrow> AppConfig) \<Rightarrow> AppConfig \<Rightarrow> AppConfig" where
  "on_env env name f config = (case read_environment env name of None \<Rightarrow> config | Some v \<Rightarrow> f v config)"

definition log_directory :: "wstring \<Rightarrow> AppConfig \<Rightarrow> AppConfig" where
  "log_directory path config = config\<lparr>ac_log_directory_path := path, ac_enable_file_logging := (path \<noteq> [])\<rparr>"

definition log_overrides :: "(string \<Rightarrow> wstring option) \<Rightarrow> AppConfig \<Rightarrow> AppConfig" where
  "log_overrides env config =
    (case read_environment env ''OPENCONSOLE_NEW_LOG_DIR'' of
       Some v \<Rightarrow> log_directory (trim v) config
     | None \<Rightarrow> on_env env ''OPENCONSOLE_NEW_LOG_FILE'' (\<lambda>v. log_directory (directory_from_path v)) config)"

definition apply_environment_overrides :: "(string \<Rightarrow> wstring option) \<Rightarrow> AppConfig \<Rightarrow> AppConfig" where
  "apply_environment_overrides env config =
    (let config = on_env env ''OPENCONSOLE_NEW_LOCALE'' (\<lambda>v c. c\<lparr>ac_locale_override := v\<rparr>) config;
         config = on_env env ''OPENCONSOLE_NEW_DRY_RUN'' (\<lambda>v c. c\<lparr>ac_dry_run := parse_bool v\<rparr>) config;
         config = on_env env ''OPENCONSOLE_NEW_LOG_LEVEL'' (\<lambda>v c. c\<lparr>ac_minimum_log_level := parse_log_level v\<rparr>) config;
         config = log_overrides env config;
         config = on_env env ''OPENCONSOLE_NEW_ENABLE_FILE_LOGGING'' (\<lambda>v c. c\<lparr>ac_enable_file_logging := parse_bool v\<rparr>) config;
         config = on_env env ''OPENCONSOLE_NEW_BREAK_ON_START'' (\<lambda>v c. c\<lparr>ac_break_on_start := parse_bool v\<rparr>) config;
         config = on_env env ''OPENCONSOLE_NEW_DEBUG_SINK'' (\<lambda>v c. c\<lparr>ac_enable_debug_sink := parse_bool v\<rparr>) config;
         config = on_env env ''OPENCONSOLE_NEW_PREFER_PTY'' (\<lambda>v c. c\<lparr>ac_prefer_pseudoconsole := parse_bool v\<rparr>) config;
         config = on_env env ''OPENCONSOLE_NEW_HOLD_ON_EXIT'' (\<lambda>v c. c\<lparr>ac_hold_window_on_exit := parse_bool v\<rparr>) config;
         config = on_env env ''OPENCONSOLE_NEW_ALLOW_EMBEDDING_PASSTHROUGH'' (\<lambda>v c. c\<lparr>ac_allow_embedding_passthrough := parse_bool v\<rparr>) config;
         config = on_env env ''OPENCONSOLE_NEW_ENABLE_LEGACY_PATH'' (\<lambda>v c. c\<lparr>ac_enable_legacy_conhost_path := parse_bool v\<rparr>) config
     in on_env env ''OPENCONSOLE_NEW_EMBEDDING_WAIT_MS''
          (\<lambda>v c. c\<lparr>ac_embedding_wait_timeout_ms := parse_dword_or_default v (ac_embedding_wait_timeout_ms c)\<rparr>) config)"

definition load ::
    "bool \<Rightarrow> (byte list \<Rightarrow> ulong + wstring) \<Rightarrow> (wstring \<Rightarrow> config_file) \<Rightarrow> (string \<Rightarrow> wstring option) \<Rightarrow> ConfigError + AppConfig" where
  "load mem_ok from_utf8 files env =
    (case (case resolve_default_user_config_path mem_ok env of
             None \<Rightarrow> Inr default_config
           | Some path \<Rightarrow> load_config_file_into from_utf8 files path True default_config) of
       Inl e \<Rightarrow> Inl e
     | Inr config \<Rightarrow>
         (case (case read_environment env ''OPENCONSOLE_NEW_CONFIG'' of
                  None \<Rightarrow> Inr config
                | Some path \<Rightarrow> load_config_file_into from_utf8 files path False config) of
            Inl e \<Rightarrow> Inl e
          | Inr config \<Rightarrow> Inr (apply_environment_overrides env config)))"

section \<open>Every setting can be written\<close>

text \<open>A file that says what a configuration is.\<close>

definition setting :: "string \<Rightarrow> wstring \<Rightarrow> wstring" where
  "setting key value = wide key @ 0x3D # value @ [0x0A]"

definition show_bool :: "bool \<Rightarrow> wstring" where
  "show_bool b = (if b then wide ''1'' else wide ''0'')"

fun show_log_level :: "LogLevel \<Rightarrow> wstring" where
  "show_log_level Trace = wide ''trace''"
| "show_log_level Debug = wide ''debug''"
| "show_log_level Info = wide ''info''"
| "show_log_level Warning = wide ''warning''"
| "show_log_level Error = wide ''error''"

definition show_dword :: "ulong \<Rightarrow> wstring" where
  "show_dword w = map ucast (dec_digits (unat w))"

definition show_config :: "AppConfig \<Rightarrow> wstring" where
  "show_config c =
    setting ''log_level'' (show_log_level (ac_minimum_log_level c)) @ setting ''locale'' (ac_locale_override c)
    @ setting ''dry_run'' (show_bool (ac_dry_run c)) @ setting ''debug_sink'' (show_bool (ac_enable_debug_sink c))
    @ setting ''log_dir'' (ac_log_directory_path c) @ setting ''enable_file_logging'' (show_bool (ac_enable_file_logging c))
    @ setting ''break_on_start'' (show_bool (ac_break_on_start c))
    @ setting ''prefer_pseudoconsole'' (show_bool (ac_prefer_pseudoconsole c))
    @ setting ''hold_on_exit'' (show_bool (ac_hold_window_on_exit c))
    @ setting ''allow_embedding_passthrough'' (show_bool (ac_allow_embedding_passthrough c))
    @ setting ''enable_legacy_conhost_path'' (show_bool (ac_enable_legacy_conhost_path c))
    @ setting ''embedding_wait_timeout_ms'' (show_dword (ac_embedding_wait_timeout_ms c))"

text \<open>A value that fits on a line, and a key.\<close>

definition plain_value :: "wstring \<Rightarrow> bool" where
  "plain_value v \<longleftrightarrow> trim v = v \<and> 0x0A \<notin> set v"

definition plain_key :: "wstring \<Rightarrow> bool" where
  "plain_key k \<longleftrightarrow> k \<noteq> [] \<and> list_all (\<lambda>u. \<not> is_space u \<and> u \<noteq> 0x3D \<and> u \<noteq> 0x23 \<and> u \<noteq> 0x3B) k"

lemma trim_ends: "v \<noteq> [] \<Longrightarrow> \<not> is_space (hd v) \<Longrightarrow> \<not> is_space (last v) \<Longrightarrow> trim v = v"
proof -
  assume v: "v \<noteq> []" "\<not> is_space (hd v)" "\<not> is_space (last v)"
  have "dropWhile is_space v = v" using v(1,2) by (cases v) simp_all
  moreover have "dropWhile is_space (rev v) = rev v" using v(1,3) by (cases v rule: rev_cases) simp_all
  ultimately show ?thesis by (simp add: trim_def)
qed

lemma trimmed_last:
  assumes "trim v = v" and "v \<noteq> []"
  shows "\<not> is_space (last v)"
proof -
  let ?w = "rev (dropWhile is_space v)"
  have "dropWhile is_space ?w \<noteq> []" using assms by (metis rev.simps(1) trim_def)
  then have "\<not> is_space (hd (dropWhile is_space ?w))" by (rule hd_dropWhile)
  moreover have "rev v = dropWhile is_space ?w" using assms(1) by (metis rev_rev_ident trim_def)
  ultimately show ?thesis using assms(2) by (metis hd_rev)
qed

lemma plain_key_trim: "plain_key k \<Longrightarrow> trim k = k"
  by (intro trim_ends) (auto simp: plain_key_def list_all_iff)

lemma parse_setting_line:
  assumes "plain_key k" and "plain_value v"
  shows "parse_line (k @ 0x3D # v) config = Inr (apply_key_value k v config)"
proof -
  let ?line = "k @ 0x3D # v"
  have k: "k \<noteq> []" "\<not> is_space (hd k)" "hd k \<noteq> 0x23" "hd k \<noteq> 0x3B" "\<forall>u \<in> set k. u \<noteq> 0x3D"
    using assms(1) by (auto simp: plain_key_def list_all_iff)
  have "\<not> is_space (last ?line)" using assms(2) trimmed_last [of v] by (auto simp: plain_value_def is_space_def)
  then have "trim ?line = ?line" using k by (intro trim_ends) simp_all
  moreover have "takeWhile (\<lambda>u. u \<noteq> 0x3D) ?line = k" using k(5) by (simp add: takeWhile_append2)
  ultimately show ?thesis using k by (simp add: parse_line_def Let_def)
qed

lemma parse_setting:
  assumes "plain_key (wide k)" and "plain_value v"
  shows "parse_lines (setting k v @ rest) config = parse_lines rest (apply_key_value (wide k) v config)"
proof -
  let ?line = "wide k @ 0x3D # v"
  have "\<forall>u \<in> set ?line. u \<noteq> 0x0A" using assms by (auto simp: plain_key_def plain_value_def list_all_iff is_space_def)
  then have "takeWhile (\<lambda>u. u \<noteq> 0x0A) (setting k v @ rest) = ?line" by (simp add: setting_def takeWhile_append2)
  moreover have "drop (length ?line + 1) (setting k v @ rest) = rest" "setting k v \<noteq> []" by (simp_all add: setting_def)
  ultimately show ?thesis using parse_setting_line [OF assms]
    by (simp add: parse_lines.simps [of "setting k v @ rest"] Let_def del: One_nat_def)
qed

lemma plain_digits: "plain_value (show_dword w)"
proof -
  have digits: "u \<in> set (dec_digits n) \<Longrightarrow> 48 \<le> unat u \<and> unat u \<le> 57" for u n
  proof (induction n rule: dec_digits.induct)
    case (1 n)
    then show ?case using mod_less_divisor [of 10 n]
      by (fastforce simp: dec_digits.simps [of n] unsigned_of_nat take_bit_nat_eq_self split: if_splits simp del: of_nat_add)
  qed
  have "unat u = unat (ucast u :: wchar)" for u :: byte by (simp add: unat_ucast_up)
  then have d: "u \<in> set (show_dword w) \<Longrightarrow> 48 \<le> unat u" for u using digits by (fastforce simp: show_dword_def)
  then have "u \<in> set (show_dword w) \<Longrightarrow> \<not> is_space u" for u by (fastforce simp: is_space_def)
  moreover have "show_dword w \<noteq> []" by (simp add: show_dword_def dec_digits_nonempty)
  ultimately show ?thesis by (auto simp: plain_value_def is_space_def intro!: trim_ends)
qed

lemma plain_words:
  "plain_value (show_bool b)" "plain_value (show_log_level l)"
  "parse_bool (show_bool b) = b" "parse_log_level (show_log_level l) = l" "parse_dword_or_default (show_dword w) fallback = w"
proof -
  show "plain_value (show_bool b)" by (simp add: plain_value_def show_bool_def wide_def trim_def is_space_def)
  show "plain_value (show_log_level l)" by (cases l) (simp_all add: plain_value_def wide_def trim_def is_space_def)
  show "parse_bool (show_bool b) = b" by (simp add: parse_bool_def show_bool_def wide_def)
  show "parse_log_level (show_log_level l) = l" by (cases l) (simp_all add: parse_log_level_def wide_def)
  obtain chars where "format_u64 (ucast w) = Inr chars" "parse_u32 (map ucast chars) = Inr w" using unsigned_round_trip by blast
  moreover have "unat (ucast w :: 64 word) = unat w" by (simp add: unat_ucast_up)
  then have "uint (ucast w :: 64 word) = int (unat w)" by (metis of_nat_unat)
  ultimately show "parse_dword_or_default (show_dword w) fallback = w"
    by (auto simp: parse_dword_or_default_def show_dword_def format_u64_def format_integer_def to_chars_int_def Let_def split: if_splits)
qed

lemma plain_keys:
  "plain_key (wide ''log_level'')" "plain_key (wide ''locale'')" "plain_key (wide ''dry_run'')" "plain_key (wide ''debug_sink'')"
  "plain_key (wide ''log_dir'')" "plain_key (wide ''enable_file_logging'')" "plain_key (wide ''break_on_start'')"
  "plain_key (wide ''prefer_pseudoconsole'')" "plain_key (wide ''hold_on_exit'')" "plain_key (wide ''allow_embedding_passthrough'')"
  "plain_key (wide ''enable_legacy_conhost_path'')" "plain_key (wide ''embedding_wait_timeout_ms'')"
  by (simp_all add: plain_key_def wide_def is_space_def)

lemma apply_plain: "plain_key k \<Longrightarrow> plain_value v \<Longrightarrow> trim k = k \<and> trim v = v"
  by (simp add: plain_key_trim plain_value_def)

lemma apply_settings:
  assumes "plain_value v"
  shows "apply_key_value (wide ''log_level'') v c = c\<lparr>ac_minimum_log_level := parse_log_level v\<rparr>"
    and "apply_key_value (wide ''locale'') v c = c\<lparr>ac_locale_override := v\<rparr>"
    and "apply_key_value (wide ''dry_run'') v c = c\<lparr>ac_dry_run := parse_bool v\<rparr>"
    and "apply_key_value (wide ''debug_sink'') v c = c\<lparr>ac_enable_debug_sink := parse_bool v\<rparr>"
    and "apply_key_value (wide ''log_dir'') v c = c\<lparr>ac_log_directory_path := v, ac_enable_file_logging := (v \<noteq> [])\<rparr>"
    and "apply_key_value (wide ''enable_file_logging'') v c = c\<lparr>ac_enable_file_logging := parse_bool v\<rparr>"
    and "apply_key_value (wide ''break_on_start'') v c = c\<lparr>ac_break_on_start := parse_bool v\<rparr>"
    and "apply_key_value (wide ''prefer_pseudoconsole'') v c = c\<lparr>ac_prefer_pseudoconsole := parse_bool v\<rparr>"
    and "apply_key_value (wide ''hold_on_exit'') v c = c\<lparr>ac_hold_window_on_exit := parse_bool v\<rparr>"
    and "apply_key_value (wide ''allow_embedding_passthrough'') v c = c\<lparr>ac_allow_embedding_passthrough := parse_bool v\<rparr>"
    and "apply_key_value (wide ''enable_legacy_conhost_path'') v c = c\<lparr>ac_enable_legacy_conhost_path := parse_bool v\<rparr>"
    and "apply_key_value (wide ''embedding_wait_timeout_ms'') v c =
      c\<lparr>ac_embedding_wait_timeout_ms := parse_dword_or_default v (ac_embedding_wait_timeout_ms c)\<rparr>"
proof -
  have v: "trim v = v" using assms by (simp add: plain_value_def)
  note trims = plain_keys [THEN plain_key_trim]
  show "apply_key_value (wide ''log_level'') v c = c\<lparr>ac_minimum_log_level := parse_log_level v\<rparr>"
    "apply_key_value (wide ''locale'') v c = c\<lparr>ac_locale_override := v\<rparr>"
    "apply_key_value (wide ''dry_run'') v c = c\<lparr>ac_dry_run := parse_bool v\<rparr>"
    "apply_key_value (wide ''debug_sink'') v c = c\<lparr>ac_enable_debug_sink := parse_bool v\<rparr>"
    "apply_key_value (wide ''log_dir'') v c = c\<lparr>ac_log_directory_path := v, ac_enable_file_logging := (v \<noteq> [])\<rparr>"
    "apply_key_value (wide ''enable_file_logging'') v c = c\<lparr>ac_enable_file_logging := parse_bool v\<rparr>"
    "apply_key_value (wide ''break_on_start'') v c = c\<lparr>ac_break_on_start := parse_bool v\<rparr>"
    "apply_key_value (wide ''prefer_pseudoconsole'') v c = c\<lparr>ac_prefer_pseudoconsole := parse_bool v\<rparr>"
    "apply_key_value (wide ''hold_on_exit'') v c = c\<lparr>ac_hold_window_on_exit := parse_bool v\<rparr>"
    "apply_key_value (wide ''allow_embedding_passthrough'') v c = c\<lparr>ac_allow_embedding_passthrough := parse_bool v\<rparr>"
    "apply_key_value (wide ''enable_legacy_conhost_path'') v c = c\<lparr>ac_enable_legacy_conhost_path := parse_bool v\<rparr>"
    "apply_key_value (wide ''embedding_wait_timeout_ms'') v c =
      c\<lparr>ac_embedding_wait_timeout_ms := parse_dword_or_default v (ac_embedding_wait_timeout_ms c)\<rparr>"
    unfolding apply_key_value_def Let_def trims v by (simp_all add: wide_def)
qed

text \<open>
  C18. Every configuration can be written down: the file with one line per setting is read back as exactly that
  configuration, whatever its values, when the two texts in it fit on a line and have no blanks at their ends.
\<close>

theorem config_file_round_trip:
  assumes "plain_value (ac_locale_override c)" and "plain_value (ac_log_directory_path c)"
  shows "parse_text (show_config c) = Inr c"
proof -
  have "parse_lines [] d = Inr d" for d by (simp add: parse_lines.simps)
  then have last: "parse_lines (setting k v) d = Inr (apply_key_value (wide k) v d)" if "plain_key (wide k)" "plain_value v" for k v d
    using parse_setting [OF that, of "[]" d] by simp
  show ?thesis unfolding parse_text_def show_config_def
    by (simp add: parse_setting last plain_keys plain_words plain_digits assms apply_settings default_config_def)
qed

theorem config_file_round_trip_witness:
  "parse_text (show_config (default_config\<lparr>ac_locale_override := wide ''zh'', ac_dry_run := True, ac_minimum_log_level := Error\<rparr>)) =
    Inr (default_config\<lparr>ac_locale_override := wide ''zh'', ac_dry_run := True, ac_minimum_log_level := Error\<rparr>)"
  by (rule config_file_round_trip) (simp_all add: plain_value_def default_config_def wide_def trim_def is_space_def)

section \<open>Sources\<close>

text \<open>
  C33. An explicit configuration file does not refine the user's file, it replaces it: whatever a user's file
  says that can be read, the configuration is the one that the explicit file and the environment give alone,
  also in the settings that the explicit file does not mention.
\<close>

theorem explicit_file_replaces_baseline:
  assumes "env ''OPENCONSOLE_NEW_CONFIG'' = Some path" and "path \<noteq> []"
    and "resolve_default_user_config_path mem_ok env = Some user"
    and "load_config_file_into from_utf8 files user True default_config = Inr c"
  shows "load mem_ok from_utf8 files env =
    (case load_config_file_into from_utf8 files path False default_config of
       Inl e \<Rightarrow> Inl e
     | Inr d \<Rightarrow> Inr (apply_environment_overrides env d))"
proof -
  have "load_config_file_into from_utf8 files path False c = load_config_file_into from_utf8 files path False default_config"
    by (simp add: load_config_file_into_def split: sum.split)
  then show ?thesis using assms by (simp add: load_def read_environment_def)
qed

text \<open>The user asks for a dry run, the explicit file for a locale: the program runs for real.\<close>

definition two_files :: "wstring \<Rightarrow> config_file" where
  "two_files path =
    (if path = wide ''p'' then Opened 7 (Inr (map of_char ''locale=''))
     else if path = wide ''u/.conhost'' then Opened 9 (Inr (map of_char ''dry_run=1'')) else OpenFails error_file_not_found)"

definition two_sources :: "string \<Rightarrow> wstring option" where
  "two_sources name = (if name = ''OPENCONSOLE_NEW_CONFIG'' then Some (wide ''p'') else if name = ''USERPROFILE'' then Some (wide ''u/'') else None)"

abbreviation ascii_text :: "byte list \<Rightarrow> ulong + wstring" where "ascii_text bs \<equiv> Inr (map ucast bs)"

lemma two_sources_load:
  "load_config_file_into ascii_text two_files (wide ''u/.conhost'') True default_config = Inr (default_config\<lparr>ac_dry_run := True\<rparr>)"
  "load_config_file_into ascii_text two_files (wide ''p'') False default_config = Inr default_config"
  by code_simp+

theorem explicit_file_replaces_baseline_witness:
  "load True ascii_text two_files two_sources = Inr (apply_environment_overrides two_sources default_config)"
proof -
  have "resolve_default_user_config_path True two_sources = Some (wide ''u/.conhost'')"
    by (simp add: resolve_default_user_config_path_def read_environment_def two_sources_def append_path_component_def wide_def)
  from explicit_file_replaces_baseline [of two_sources "wide ''p''", OF _ _ this two_sources_load(1)] two_sources_load(2)
  show ?thesis by (simp add: two_sources_def wide_def)
qed

text \<open>A variable changes its own setting only.\<close>

lemma on_env_set: "read_environment env name = Some v \<Longrightarrow> on_env env name f config = f v config"
  "read_environment env name = None \<Longrightarrow> on_env env name f config = config"
  by (simp_all add: on_env_def)

lemma on_env_other:
  "(\<And>v c. ac_locale_override (f v c) = ac_locale_override c) \<Longrightarrow> ac_locale_override (on_env env name f config) = ac_locale_override config"
  "(\<And>v c. ac_dry_run (f v c) = ac_dry_run c) \<Longrightarrow> ac_dry_run (on_env env name f config) = ac_dry_run config"
  "(\<And>v c. ac_minimum_log_level (f v c) = ac_minimum_log_level c) \<Longrightarrow> ac_minimum_log_level (on_env env name f config) = ac_minimum_log_level config"
  "(\<And>v c. ac_log_directory_path (f v c) = ac_log_directory_path c) \<Longrightarrow> ac_log_directory_path (on_env env name f config) = ac_log_directory_path config"
  "(\<And>v c. ac_enable_file_logging (f v c) = ac_enable_file_logging c) \<Longrightarrow> ac_enable_file_logging (on_env env name f config) = ac_enable_file_logging config"
  by (simp_all add: on_env_def split: option.split)

lemma log_overrides_other:
  "ac_locale_override (log_overrides env config) = ac_locale_override config" "ac_dry_run (log_overrides env config) = ac_dry_run config"
  "ac_minimum_log_level (log_overrides env config) = ac_minimum_log_level config"
  by (simp_all add: log_overrides_def on_env_def log_directory_def split: option.split)

lemma log_overrides_set: "read_environment env ''OPENCONSOLE_NEW_LOG_DIR'' = Some v \<Longrightarrow> log_overrides env config = log_directory (trim v) config"
  by (simp add: log_overrides_def)

lemma log_directory_fields [simp]:
  "ac_log_directory_path (log_directory path config) = path" "ac_enable_file_logging (log_directory path config) = (path \<noteq> [])"
  by (simp_all add: log_directory_def)

text \<open>
  What the environment says holds, whatever the files say: a variable that is set decides its setting, and file
  logging follows its own variable first, then the log directory, then the directory of the old log file.
\<close>

theorem environment_overrides_files:
  assumes "load mem_ok from_utf8 files env = Inr c"
  shows "(\<forall>v. read_environment env ''OPENCONSOLE_NEW_LOCALE'' = Some v \<longrightarrow> ac_locale_override c = v)
    \<and> (\<forall>v. read_environment env ''OPENCONSOLE_NEW_DRY_RUN'' = Some v \<longrightarrow> ac_dry_run c = parse_bool v)
    \<and> (\<forall>v. read_environment env ''OPENCONSOLE_NEW_LOG_LEVEL'' = Some v \<longrightarrow> ac_minimum_log_level c = parse_log_level v)
    \<and> (\<forall>v. read_environment env ''OPENCONSOLE_NEW_LOG_DIR'' = Some v \<longrightarrow> ac_log_directory_path c = trim v)
    \<and> (\<forall>v u. read_environment env ''OPENCONSOLE_NEW_EMBEDDING_WAIT_MS'' = Some v \<and> parse_u32 v = Inr u \<longrightarrow> ac_embedding_wait_timeout_ms c = u)
    \<and> (\<forall>v. read_environment env ''OPENCONSOLE_NEW_ENABLE_FILE_LOGGING'' = Some v \<longrightarrow> ac_enable_file_logging c = parse_bool v)
    \<and> (\<forall>v. read_environment env ''OPENCONSOLE_NEW_ENABLE_FILE_LOGGING'' = None \<and> read_environment env ''OPENCONSOLE_NEW_LOG_DIR'' = Some v
        \<longrightarrow> ac_enable_file_logging c = (trim v \<noteq> []))"
proof -
  obtain d where c: "c = apply_environment_overrides env d" using assms by (auto simp: load_def split: sum.splits)
  show ?thesis unfolding c apply_environment_overrides_def Let_def
    by (simp add: on_env_other log_overrides_other on_env_set log_overrides_set parse_dword_or_default_def)
qed

theorem environment_overrides_files_witness:
  "\<exists>c. load True ascii_text two_files (two_sources(''OPENCONSOLE_NEW_DRY_RUN'' \<mapsto> wide ''on'')) = Inr c \<and> ac_dry_run c"
proof -
  let ?env = "two_sources(''OPENCONSOLE_NEW_DRY_RUN'' \<mapsto> wide ''on'')"
  have "resolve_default_user_config_path True ?env = Some (wide ''u/.conhost'')"
    by (simp add: resolve_default_user_config_path_def read_environment_def two_sources_def append_path_component_def wide_def)
  moreover have "read_environment ?env ''OPENCONSOLE_NEW_CONFIG'' = Some (wide ''p'')" by (simp add: read_environment_def two_sources_def wide_def)
  moreover have "load_config_file_into ascii_text two_files (wide ''p'') False (default_config\<lparr>ac_dry_run := True\<rparr>) = Inr default_config" by code_simp
  ultimately obtain c where c: "load True ascii_text two_files ?env = Inr c" using two_sources_load(1) by (simp add: load_def)
  from environment_overrides_files [OF c] have "ac_dry_run c = parse_bool (wide ''on'')" by (simp add: read_environment_def wide_def)
  then show ?thesis using c by (simp add: parse_bool_def)
qed

end
