(* ===== verification/Spec2Isabelle.thy ===== *)
theory Spec2Isabelle
  imports Vt_Alternate Line_Display Server_Loop Utf8_Stream Host_Signals App_Config
begin

text \<open>
  A verification development of the console host: the program that sits between console applications and
  a terminal. Applications send requests through the ConDrv driver; the server answers them from its state
  (processes, handles, screen buffers, aliases, command histories), draws what they write into a screen buffer by
  interpreting VT control sequences, and turns the bytes that the terminal sends into keys, lines and input
  records. Paths below are relative to \<open>src/src/\<close>.

  \<^bold>\<open>Parts and theories.\<close>

  \<^item> \<open>Conhost_Prelude\<close>: machine types, C++ casts with their wrap-around, clamps, list lemmas, and two
    interfaces: \<open>invariant_machine\<close> (steps that keep an invariant) and \<open>positional\<close> (number systems).
  \<^item> \<open>Fast_Number\<close>: \<open>serialization/fast_number.cpp\<close>, the integer parsers and formatters. The parsers
    accept exactly the literals that fit, and invert the formatters.
  \<^item> \<open>Command_History\<close>: \<open>condrv/command_history.cpp\<close>, the pool of histories per executable. Every run of
    operations keeps the bounds on histories and commands.
  \<^item> \<open>Screen_Buffer\<close>, \<open>Screen_Cells\<close>: class \<open>ScreenBuffer\<close> of \<open>condrv/condrv_server.hpp\<close>; the state with its
    well-formedness \<open>sb_ok\<close>, and the cell operations over the interfaces \<open>addressing\<close> and \<open>placing\<close>, which say that
    positions and linear indices correspond. Reads return what was written; scrolling is a block move.
  \<^item> \<open>Vt_Screen\<close>, \<open>Vt_Sgr\<close>, \<open>Vt_Csi\<close>, \<open>Vt_Output\<close>: \<open>apply_text_to_screen_buffer\<close> as a whole, from the helpers on the working
    state over colours and control sequences to the parser loop. \<open>Vt_Streaming\<close>, \<open>Vt_Sequences\<close>,
    \<open>Vt_Scrolling\<close> and \<open>Vt_Alternate\<close> hold its theory: output in pieces is output in one piece, a printed
    sequence is parsed to its parameters, text fills cells, regions scroll as specified, any output is safe.
  \<^item> \<open>Vt_Input\<close>, \<open>Console_Input\<close>: \<open>condrv/vt_input_decoder.cpp\<close>, \<open>runtime/key_input_encoder.cpp\<close> and the decoding of units and tokens in
    \<open>condrv_server.hpp\<close>, over the interfaces \<open>incremental\<close> and \<open>progressive\<close> (a decoder that asks for more bytes,
    decides once, and consumes something). Navigation keys and printable ASCII characters survive encoding and decoding.
  \<^item> \<open>Input_Queue\<close>: \<open>InputQueue\<close> and \<open>HostIo\<close> of \<open>condrv/condrv_server.cpp\<close> and \<open>PendingInputBytes\<close>, both instances of \<open>byte_source\<close>; under operations
    that run one after another the queue refines a list of bytes and its event tells whether there is something to read.
    \<open>mark_disconnected\<close> takes no mutex: one interleaving of its accesses with an update of the event loses the signal.
  \<^item> \<open>Raw_Read\<close>, \<open>Record_Read\<close>, \<open>Line_Edit\<close>, \<open>Cooked_Read\<close>, \<open>Char_Read\<close>, \<open>Event_Count\<close>: the read requests of \<open>dispatch_message\<close>. Each read
    is a loop of turns; \<open>Read_Safety\<close> states the interface \<open>turn_loop\<close> and instantiates it. Under the stated
    conditions on keys and modes the input is delivered exactly once, the line editor refines a line with a cursor, a typed line is what the reader gets.
    Text that a cooked read echoes can complete a status query, whose answer goes into the queue that the read is reading:
    the handlers take these answers as an argument, \<open>answering_loop\<close> is a \<open>partial_function\<close> whose value None is a
    read that never returns, and a read is shown to return whenever the answers are bounded.
  \<^item> \<open>Line_Display\<close>: the interface \<open>line_display\<close> of a terminal row, instantiated with the VT interpreter: the echo of
    the line editor shows the line.
  \<^item> \<open>Server_State\<close>: \<open>ServerState\<close>, handles and processes, the alias table as an instance of \<open>keyed_store\<close>. A
    connection is made completely or not at all.
  \<^item> \<open>Screen_Requests\<close>, \<open>Server_Requests\<close>, \<open>Alias_Requests\<close>, \<open>Dispatcher\<close>: the handlers of \<open>dispatch_message\<close> and the dispatcher. In every state that
    requests, input and failing allocations can reach, the invariant \<open>server_inv\<close> holds; handles of a
    process that has gone are refused; aliases of fewer than 32767 units are read back; the listings have the lengths
    that the separate loops of the length queries add up.
  \<^item> \<open>Snapshot\<close>: \<open>condrv/screen_buffer_snapshot.cpp\<close>; a snapshot shows the window, and an equal revision means an equal picture.
  \<^item> \<open>Server_Loop\<close>: \<open>run_loop\<close> and the input thread of \<open>condrv_server.cpp\<close>, as steps of two threads and a stop
    request in any order. Whether the driver has taken the staged reply is part of the outcome of a read. If it has when a
    read is cancelled, and has not when the pipe is gone, no message is answered twice, none is lost and the assertion on the
    staged reply holds; without this contract a reply can be doubled or lost.
  \<^item> \<open>Command_Line\<close>: \<open>cli/console_arguments.cpp\<close>; the client command line that is put together is split into the original tokens.
  \<^item> \<open>App_Config\<close>: \<open>config/app_config.cpp\<close>; files, environment and their order.
  \<^item> \<open>Utf8_Stream\<close>: \<open>core/utf8_stream_decoder.hpp\<close>; text cut anywhere is decoded as a whole.
  \<^item> \<open>Host_Signals\<close>: \<open>core/host_signals.hpp\<close> and \<open>runtime/host_signal_input_thread.cpp\<close>; the packets that the server writes for
    control-C reach the reader in the other host, in order.

  \<^bold>\<open>How code and model correspond.\<close> Structures are records with the source's fields under a short prefix, enumerations
  are datatypes, each function or lambda is a definition of the same name. State is passed explicitly.
  Errors are values: \<open>Inl\<close> of the code, a status in the reply, or \<open>None\<close>. A member pointer to a screen buffer
  is an index into the list of buffers, so that two handles on one buffer share it. Allocations that may
  throw are flags or functions from the number of the allocation to a flag, and the theorems hold for all of them.

  \<^bold>\<open>Bounds.\<close> Every loop of the model is structural or has a termination proof by a measure, but for the loop of a cooked read whose
  echo is answered (None when it does not end; the request is then \<open>NoReturn\<close> and the server \<open>Stuck\<close>); there is no fuel. Sizes
  come from the code: 16 parameters of a control sequence and 32 bytes of response in the VT interpreter, a head of 64 bytes for the
  decoder of a read, 65536 bytes for counting events, eight attempts for cancelled driver calls,
  \<open>INT_MAX\<close> bytes per conversion, 2 MiB for a configuration file. Where a \<open>size_t\<close> counter cannot overflow on
  existing memory it is a natural number; that equal revisions mean equal pictures is stated for fewer than \<open>2 ^ 63\<close>
  calls between them.

  \<^bold>\<open>Parameters.\<close> Windows functions are arguments: conversions of code pages, comparison and lower case of names, \<open>CommandLineToArgvW\<close>,
  the environment, the file system, the outcomes of driver calls and of polling a pipe. Hypotheses about them state
  documented behaviour, and each has an instance that satisfies it.

  \<^bold>\<open>Not modelled.\<close> The calls of the driver themselves and the message buffers around them (\<open>condrv_device_comm.cpp\<close>,
  \<open>condrv_api_message.hpp\<close>); floating-point conversions; session set-up, COM handoff, windows and drawing, process creation, logging
  and message tables, which consist of calls of the operating system; the MIDL-generated proxies. Within the modelled
  parts: the echo of a cooked read is applied to the screen when the read returns, which no other step can observe, and its
  answers at once; \<open>OC_ASSERT\<close> is a flag or \<open>None\<close>; the order in
  which a hash table is listed is that of insertion; a dispatch is one step of the loop, so that the input thread pushes bytes
  before or after a dispatch and not between two queue operations of it; outside the section on disconnects of \<open>Input_Queue\<close>
  the queue operations are atomic; a signal thread that was started with an invalid pipe is left out.
\<close>

end
